(* ===== verification/Prelude.thy ===== *)
theory Prelude
  imports Main "HOL-Library.Char_ord" "HOL-Library.List_Lexorder" "HOL-Library.AList"
begin

text \<open>
  Shared vocabulary of the development: the error values Python raises, byte strings and the
  string operations the server modules use (slices, \<^verbatim>\<open>find\<close>, \<^verbatim>\<open>isdigit\<close>, decimal conversion in
  both directions as CPython 3.12 does it, UTF-8 encoding), insertion-ordered dictionaries as
  association lists, and the generic lemmas on them that the component theories rest on.

  Byte strings are \<^typ>\<open>char list\<close>: a \<^typ>\<open>char\<close> is exactly one byte.  A Python \<^verbatim>\<open>str\<close> whose
  characters lie in Latin-1 has the same representation, so the \<^verbatim>\<open>latin-1\<close> codec is the identity.
\<close>

section \<open>Results\<close>

datatype py_error =
    ValueError
  | TypeError
  | KeyError
  | AttributeError
  | UnicodeEncodeError
  | OSFailure              \<comment> \<open>\<^verbatim>\<open>OSError\<close>: the file system refused a write\<close>
  | StateError string     \<comment> \<open>an exception class of the program, with its message\<close>
  | OutOfFuel

type_synonym bytes = "char list"
type_synonym 'a res = "py_error + 'a"

named_theorems res_simps \<open>simplification of the error monad\<close>
named_theorems dict_simps \<open>lookup, update and deletion on insertion-ordered dictionaries\<close>

definition rbind :: "'e + 'a \<Rightarrow> ('a \<Rightarrow> 'e + 'b) \<Rightarrow> 'e + 'b" where
  "rbind m f = (case m of Inl e \<Rightarrow> Inl e | Inr x \<Rightarrow> f x)"

lemma rbind_Inl [simp, res_simps]: "rbind (Inl e) f = Inl e"
  by (simp add: rbind_def)

lemma rbind_Inr [simp, res_simps]: "rbind (Inr x) f = f x"
  by (simp add: rbind_def)

lemma rbind_eq_Inr [res_simps]: "rbind m f = Inr y \<longleftrightarrow> (\<exists>x. m = Inr x \<and> f x = Inr y)"
  by (cases m) auto

lemma rbind_eq_Inl [res_simps]:
  "rbind m f = Inl e \<longleftrightarrow> m = Inl e \<or> (\<exists>x. m = Inr x \<and> f x = Inl e)"
  by (cases m) auto

lemma rbind_cong [fundef_cong]:
  "m = m' \<Longrightarrow> (\<And>x. m' = Inr x \<Longrightarrow> f x = f' x) \<Longrightarrow> rbind m f = rbind m' f'"
  by (cases m') auto

text \<open>More fuel refines a computation only where it had run out.\<close>

lemma rbind_mono_fuel:
  assumes "m \<noteq> Inl OutOfFuel \<Longrightarrow> m' = m" and "\<And>x. g x \<noteq> Inl OutOfFuel \<Longrightarrow> g' x = g x"
    and "rbind m g \<noteq> Inl OutOfFuel"
  shows "rbind m' g' = rbind m g"
  using assms by (cases m) auto

text \<open>A Python loop that builds a list and stops at the first exception.\<close>

fun rmap :: "('a \<Rightarrow> 'e + 'b) \<Rightarrow> 'a list \<Rightarrow> 'e + 'b list" where
  "rmap f [] = Inr []"
| "rmap f (x # xs) = rbind (f x) (\<lambda>y. rbind (rmap f xs) (\<lambda>ys. Inr (y # ys)))"

lemma rmap_cong [fundef_cong]:
  "xs = ys \<Longrightarrow> (\<And>x. x \<in> set ys \<Longrightarrow> f x = g x) \<Longrightarrow> rmap f xs = rmap g ys"
proof (induction ys arbitrary: xs)
  case Nil
  then show ?case by simp
next
  case (Cons y ys)
  then have "rmap f ys = rmap g ys" by simp
  with Cons.prems show ?case by simp
qed

lemma rmap_eq_Inr: "rmap f xs = Inr ys \<longleftrightarrow> list_all2 (\<lambda>x y. f x = Inr y) xs ys"
proof (induction xs arbitrary: ys)
  case Nil
  then show ?case by (cases ys) auto
next
  case (Cons x xs)
  then show ?case by (cases ys) (auto simp: res_simps)
qed

text \<open>A loop that only checks: it stops at the first exception.\<close>

fun each :: "('a \<Rightarrow> 'e + unit) \<Rightarrow> 'a list \<Rightarrow> 'e + unit" where
  "each f [] = Inr ()"
| "each f (x # xs) = rbind (f x) (\<lambda>_. each f xs)"

lemma each_Inr [res_simps]: "each f xs = Inr u \<longleftrightarrow> (\<forall>x\<in>set xs. f x = Inr ())"
  by (induction xs) (auto simp: res_simps)

lemma each_cong [fundef_cong]:
  "xs = ys \<Longrightarrow> (\<And>x. x \<in> set ys \<Longrightarrow> f x = g x) \<Longrightarrow> each f xs = each g ys"
  by (induction ys arbitrary: xs) auto

fun rfold :: "('b \<Rightarrow> 'a \<Rightarrow> 'e + 'b) \<Rightarrow> 'b \<Rightarrow> 'a list \<Rightarrow> 'e + 'b" where
  \<comment> \<open>a loop that threads a state and may raise\<close>
  "rfold f z [] = Inr z"
| "rfold f z (x # xs) = rbind (f z x) (\<lambda>y. rfold f y xs)"

lemma rfold_append: "rfold f z (xs @ ys) = rbind (rfold f z xs) (\<lambda>y. rfold f y ys)"
proof (induction xs arbitrary: z)
  case (Cons x xs)
  then show ?case by (cases "f z x") simp_all
qed simp

lemma rfold_invariant:
  assumes "rfold f z xs = Inr y" and "P z" and "\<And>z x z'. x \<in> set xs \<Longrightarrow> P z \<Longrightarrow> f z x = Inr z' \<Longrightarrow> P z'"
  shows "P y"
  using assms by (induction xs arbitrary: z) (auto simp: rbind_eq_Inr)

lemma rfold_cong [fundef_cong]:
  "xs = ys \<Longrightarrow> z = z' \<Longrightarrow> (\<And>a x. x \<in> set ys \<Longrightarrow> f a x = g a x) \<Longrightarrow> rfold f z xs = rfold g z' ys"
proof (induction ys arbitrary: xs z z')
  case (Cons y ys)
  then show ?case by (auto intro!: rbind_cong)
qed simp

section \<open>Principals\<close>

text \<open>\<^verbatim>\<open>auth.Principal\<close>: the typed identity every component shares.\<close>

record principal =
  ptype :: string
  pid :: string

section \<open>Byte strings\<close>

definition slice :: "'a list \<Rightarrow> nat \<Rightarrow> nat \<Rightarrow> 'a list" where
  "slice xs i j = take (j - i) (drop i xs)"

lemma length_slice: "length (slice xs i j) = min (j - i) (length xs - i)"
  by (simp add: slice_def min.commute)

lemma slice_append_mid: "slice (pre @ v @ post) (length pre) (length pre + length v) = v"
  by (simp add: slice_def)

lemma slice_one: "i < length xs \<Longrightarrow> slice xs i (Suc i) = [xs ! i]"
  by (simp add: slice_def take_Suc_conv_app_nth)

text \<open>\<^verbatim>\<open>data.find(c, i)\<close> for a single byte: the least index at or after \<open>i\<close>.\<close>

fun find_in :: "'a \<Rightarrow> 'a list \<Rightarrow> nat option" where
  "find_in c [] = None"
| "find_in c (x # xs) = (if x = c then Some 0 else map_option Suc (find_in c xs))"

definition find_from :: "'a list \<Rightarrow> 'a \<Rightarrow> nat \<Rightarrow> nat option" where
  "find_from xs c i = map_option (\<lambda>k. i + k) (find_in c (drop i xs))"

lemma find_in_prefix: "c \<notin> set xs \<Longrightarrow> find_in c (xs @ c # ys) = Some (length xs)"
  by (induction xs) auto

lemma find_in_Some:
  "find_in c xs = Some k \<Longrightarrow> k < length xs \<and> xs ! k = c \<and> c \<notin> set (take k xs)"
proof (induction xs arbitrary: k)
  case Nil
  then show ?case by simp
next
  case (Cons x xs)
  then show ?case by (cases k) (auto split: if_splits)
qed

lemma find_in_None: "find_in c xs = None \<longleftrightarrow> c \<notin> set xs"
  by (induction xs) auto

lemma find_in_split:
  assumes "find_in c xs = Some k"
  shows "xs = take k xs @ c # drop (Suc k) xs \<and> c \<notin> set (take k xs)"
  using find_in_Some [OF assms] id_take_nth_drop [of k xs] by auto

lemma find_from_ge: "find_from xs c i = Some k \<Longrightarrow> i \<le> k \<and> k < length xs"
  by (auto simp: find_from_def dest: find_in_Some)

section \<open>Decimal text\<close>

definition is_digit :: "char \<Rightarrow> bool" where
  "is_digit c \<longleftrightarrow> 48 \<le> (of_char c :: nat) \<and> (of_char c :: nat) \<le> 57"

text \<open>\<^verbatim>\<open>bytes.isdigit\<close>: non-empty and every byte an ASCII digit.\<close>

definition isdigit :: "bytes \<Rightarrow> bool" where
  "isdigit s \<longleftrightarrow> s \<noteq> [] \<and> list_all is_digit s"

definition digit_char :: "nat \<Rightarrow> char" where
  "digit_char d = char_of (48 + d)"

definition digit_val :: "char \<Rightarrow> nat" where
  "digit_val c = of_char c - 48"

fun dec_nat :: "nat \<Rightarrow> bytes" where
  "dec_nat n = (if n < 10 then [digit_char n] else dec_nat (n div 10) @ [digit_char (n mod 10)])"

declare dec_nat.simps [simp del]

definition dec_val :: "bytes \<Rightarrow> nat" where
  "dec_val s = foldl (\<lambda>a c. 10 * a + digit_val c) 0 s"

lemma of_char_digit_char: "d < 10 \<Longrightarrow> of_char (digit_char d) = 48 + d"
  by (simp add: digit_char_def)

lemma digit_char_0: "digit_char 0 = CHR ''0''"
  by code_simp

lemma is_digit_digit_char [simp]: "d < 10 \<Longrightarrow> is_digit (digit_char d)"
  by (simp add: is_digit_def of_char_digit_char)

lemma digit_val_digit_char [simp]: "d < 10 \<Longrightarrow> digit_val (digit_char d) = d"
  by (simp add: digit_val_def of_char_digit_char)

lemma dec_val_append: "dec_val (s @ [c]) = 10 * dec_val s + digit_val c"
  by (simp add: dec_val_def)

lemma dec_nat_digits: "list_all is_digit (dec_nat n)"
proof (induction n rule: dec_nat.induct)
  case (1 n)
  then show ?case by (subst dec_nat.simps) simp
qed

lemma dec_nat_nonempty [simp]: "dec_nat n \<noteq> []"
  by (subst dec_nat.simps) simp

lemma isdigit_dec_nat [simp]: "isdigit (dec_nat n)"
  by (simp add: isdigit_def dec_nat_digits)

lemma dec_val_dec_nat [simp]: "dec_val (dec_nat n) = n"
proof (induction n rule: dec_nat.induct)
  case (1 n)
  show ?case
  proof (cases "n < 10")
    case True
    then show ?thesis by (subst dec_nat.simps) (simp add: dec_val_def)
  next
    case False
    with "1.IH" have "dec_val (dec_nat (n div 10)) = n div 10" by simp
    with False show ?thesis by (subst dec_nat.simps) (simp add: dec_val_append)
  qed
qed

lemma dec_nat_pos_hd: "0 < n \<Longrightarrow> hd (dec_nat n) \<noteq> CHR ''0''"
proof (induction n rule: dec_nat.induct)
  case (1 n)
  show ?case
  proof (cases "n < 10")
    case True
    have "of_char (digit_char n) \<noteq> (of_char (CHR ''0'') :: nat)"
      using True "1.prems" by (simp add: of_char_digit_char)
    then have "digit_char n \<noteq> CHR ''0''" by auto
    with True show ?thesis by (subst dec_nat.simps) simp
  next
    case False
    with "1.IH" have "hd (dec_nat (n div 10)) \<noteq> CHR ''0''" by simp
    with False show ?thesis by (subst dec_nat.simps) (simp add: hd_append)
  qed
qed

text \<open>No leading zero: a decimal numeral of more than one digit starts with a non-zero digit.\<close>

lemma dec_nat_no_leading_zero: "1 < length (dec_nat n) \<Longrightarrow> hd (dec_nat n) \<noteq> CHR ''0''"
proof (cases "n = 0")
  case True
  then show "1 < length (dec_nat n) \<Longrightarrow> ?thesis" by (simp add: dec_nat.simps)
next
  case False
  then show ?thesis by (simp add: dec_nat_pos_hd)
qed

lemma is_digit_not [simp]:
  "\<not> is_digit (CHR '':'')" "\<not> is_digit (CHR ''e'')" "\<not> is_digit (CHR ''i'')"
  "\<not> is_digit (CHR ''l'')" "\<not> is_digit (CHR ''d'')" "\<not> is_digit (CHR ''-'')"
  "\<not> is_digit (CHR ''+'')" "\<not> is_digit (CHR ''_'')" "\<not> is_digit (CHR '' '')"
  by (simp_all add: is_digit_def)

lemma digits_not_in:
  assumes "list_all is_digit s" and "\<not> is_digit c"
  shows "c \<notin> set s"
  using assms by (auto simp: list_all_iff)

subsection \<open>Conversions with the interpreter's limits\<close>

text \<open>
  CPython 3.12 (the server image) refuses to convert between \<^verbatim>\<open>int\<close> and decimal text of more than
  4300 digits, in both directions, with \<^verbatim>\<open>ValueError\<close>.
\<close>

definition int_max_str_digits :: nat where
  "int_max_str_digits = 4300"

definition format_int :: "int \<Rightarrow> bytes res" where
  \<comment> \<open>\<^verbatim>\<open>b"%d" % n\<close>\<close>
  "format_int n =
     (let s = dec_nat (nat \<bar>n\<bar>)
      in if length s > int_max_str_digits then Inl ValueError
         else Inr (if n < 0 then CHR ''-'' # s else s))"

definition is_space :: "char \<Rightarrow> bool" where
  "is_space c \<longleftrightarrow> c = CHR '' '' \<or> (9 \<le> (of_char c :: nat) \<and> (of_char c :: nat) \<le> 13)"

definition strip_space :: "bytes \<Rightarrow> bytes" where
  "strip_space s = rev (dropWhile is_space (rev (dropWhile is_space s)))"

text \<open>Digits with single underscores between them, as \<^verbatim>\<open>int\<close> accepts them.\<close>

fun underscored :: "bytes \<Rightarrow> bytes option" where
  "underscored [] = None"
| "underscored [c] = (if is_digit c then Some [c] else None)"
| "underscored (c # d # s) =
     (if \<not> is_digit c then None
      else if d = CHR ''_'' then map_option (Cons c) (underscored s)
      else map_option (Cons c) (underscored (d # s)))"

definition py_int :: "bytes \<Rightarrow> int res" where
  \<comment> \<open>\<^verbatim>\<open>int(b)\<close> in base 10\<close>
  "py_int b =
     (let s = strip_space b;
          neg = (s \<noteq> [] \<and> hd s = CHR ''-'');
          body = (if s \<noteq> [] \<and> (hd s = CHR ''-'' \<or> hd s = CHR ''+'') then tl s else s)
      in case underscored body of
           None \<Rightarrow> Inl ValueError
         | Some ds \<Rightarrow>
             if length ds > int_max_str_digits then Inl ValueError
             else Inr (if neg then - int (dec_val ds) else int (dec_val ds)))"

lemma is_digit_not_space: "is_digit c \<Longrightarrow> \<not> is_space c"
  by (auto simp: is_digit_def is_space_def)

lemma underscored_digits: "s \<noteq> [] \<Longrightarrow> list_all is_digit s \<Longrightarrow> underscored s = Some s"
proof (induction s rule: underscored.induct)
  case (3 c d s)
  then have "d \<noteq> CHR ''_''" by (auto simp: is_digit_def)
  with 3 show ?case by simp
qed auto

lemma strip_space_id:
  assumes "s \<noteq> []" and "\<not> is_space (hd s)" and "\<not> is_space (last s)"
  shows "strip_space s = s"
proof -
  from assms(1,2) have "dropWhile is_space s = s" by (cases s) auto
  moreover have "dropWhile is_space (rev s) = rev s"
    using assms(1,3) by (cases s rule: rev_cases) auto
  ultimately show ?thesis by (simp add: strip_space_def)
qed

lemma py_int_digits:
  assumes "isdigit s"
  shows "py_int s = (if length s > int_max_str_digits then Inl ValueError
                     else Inr (int (dec_val s)))"
proof -
  from assms have ne: "s \<noteq> []" and d: "list_all is_digit s" by (auto simp: isdigit_def)
  have h: "is_digit (hd s)" and l: "is_digit (last s)"
    using ne d by (auto simp: list_all_iff)
  have st: "strip_space s = s"
    by (rule strip_space_id) (use ne h l in \<open>auto dest: is_digit_not_space\<close>)
  have "hd s \<noteq> CHR ''-''" "hd s \<noteq> CHR ''+''" using h by auto
  with ne st show ?thesis
    by (simp add: py_int_def Let_def underscored_digits d)
qed

lemma py_int_neg_digits:
  assumes "isdigit s" and "length s \<le> int_max_str_digits"
  shows "py_int (CHR ''-'' # s) = Inr (- int (dec_val s))"
proof -
  from assms have ne: "s \<noteq> []" and d: "list_all is_digit s" by (auto simp: isdigit_def)
  have l: "is_digit (last s)" using ne d by (auto simp: list_all_iff)
  have "strip_space (CHR ''-'' # s) = CHR ''-'' # s"
    by (rule strip_space_id) (use ne l in \<open>auto dest: is_digit_not_space simp: is_space_def\<close>)
  with ne d assms(2) show ?thesis
    by (simp add: py_int_def Let_def underscored_digits)
qed

theorem py_int_format_int: "format_int n = Inr s \<Longrightarrow> py_int s = Inr n"
  by (auto simp: format_int_def Let_def py_int_digits py_int_neg_digits split: if_splits)

lemma format_int_chars:
  "format_int n = Inr s \<Longrightarrow> s \<noteq> [] \<and> CHR ''e'' \<notin> set s \<and> CHR '':'' \<notin> set s"
  using digits_not_in [OF dec_nat_digits, of "CHR ''e''"]
        digits_not_in [OF dec_nat_digits, of "CHR '':''"]
  by (auto simp: format_int_def Let_def split: if_splits)

lemma format_int_of_nat:
  "format_int (int n) = Inr s \<Longrightarrow> s = dec_nat n \<and> length s \<le> int_max_str_digits"
  by (auto simp: format_int_def Let_def split: if_splits)

section \<open>UTF-8\<close>

text \<open>
  A general Python \<^verbatim>\<open>str\<close> is a list of code points.  Encoding refuses the surrogates
  (\<^verbatim>\<open>UnicodeEncodeError\<close>); a code point beyond \<open>0x10FFFF\<close> does not exist in Python.
\<close>

type_synonym codepoints = "nat list"

definition utf8_char :: "nat \<Rightarrow> bytes res" where
  "utf8_char u =
     (if u < 128 then Inr [char_of u]
      else if u < 2048 then Inr [char_of (192 + u div 64), char_of (128 + u mod 64)]
      else if 55296 \<le> u \<and> u \<le> 57343 then Inl UnicodeEncodeError
      else if u < 65536 then
        Inr [char_of (224 + u div 4096), char_of (128 + u div 64 mod 64), char_of (128 + u mod 64)]
      else if u < 1114112 then
        Inr [char_of (240 + u div 262144), char_of (128 + u div 4096 mod 64),
             char_of (128 + u div 64 mod 64), char_of (128 + u mod 64)]
      else Inl UnicodeEncodeError)"

definition utf8_encode :: "codepoints \<Rightarrow> bytes res" where
  "utf8_encode s = rbind (rmap utf8_char s) (\<lambda>bs. Inr (concat bs))"

section \<open>Insertion-ordered dictionaries\<close>

text \<open>
  A Python \<^verbatim>\<open>dict\<close> where iteration order matters is an association list with distinct keys.
  Assigning to a present key keeps its position, a new key goes to the end.
\<close>

type_synonym ('k, 'v) dict = "('k \<times> 'v) list"

abbreviation dget :: "('k, 'v) dict \<Rightarrow> 'k \<Rightarrow> 'v option" where
  "dget \<equiv> map_of"

abbreviation dset :: "'k \<Rightarrow> 'v \<Rightarrow> ('k, 'v) dict \<Rightarrow> ('k, 'v) dict" where
  "dset \<equiv> AList.update"

abbreviation ddel :: "'k \<Rightarrow> ('k, 'v) dict \<Rightarrow> ('k, 'v) dict" where
  "ddel \<equiv> AList.delete"

abbreviation dkeys :: "('k, 'v) dict \<Rightarrow> 'k list" where
  "dkeys d \<equiv> map fst d"

definition dwf :: "('k, 'v) dict \<Rightarrow> bool" where
  "dwf d \<longleftrightarrow> distinct (map fst d)"

lemma dget_dset [dict_simps, simp]: "dget (dset k v d) k' = (if k' = k then Some v else dget d k')"
  by (simp add: update_conv)

lemma dget_ddel [dict_simps, simp]: "dget (ddel k d) k' = (if k' = k then None else dget d k')"
  by (simp add: delete_conv)

lemma dwf_Nil [simp, intro]: "dwf []"
  by (simp add: dwf_def)

lemma dwf_dset [intro]: "dwf d \<Longrightarrow> dwf (dset k v d)"
  by (simp add: dwf_def distinct_update)

lemma dwf_ddel [intro]: "dwf d \<Longrightarrow> dwf (ddel k d)"
  by (simp add: dwf_def distinct_delete)

lemma set_dkeys_dset [dict_simps]: "set (dkeys (dset k v d)) = insert k (set (dkeys d))"
  by (simp add: dom_map_of_conv_image_fst [symmetric] update_conv')

lemma set_dkeys_ddel [dict_simps]: "set (dkeys (ddel k d)) = set (dkeys d) - {k}"
  by (auto simp: delete_keys)

lemma dget_None_iff: "dget d k = None \<longleftrightarrow> k \<notin> set (dkeys d)"
  by (simp add: map_of_eq_None_iff)

lemma dwf_dget_iff: "dwf d \<Longrightarrow> dget d k = Some v \<longleftrightarrow> (k, v) \<in> set d"
  by (simp add: dwf_def)

lemma dset_new: "k \<notin> fst ` set d \<Longrightarrow> dset k v d = d @ [(k, v)]"
  by (induction d) auto

lemma length_dset_le: "length (dset k v d) \<le> Suc (length d)"
  by (induction d) auto

lemma length_ddel_le: "length (ddel k d) \<le> length d"
  by (simp add: length_delete_le)

lemma foldl_ddel: "foldl (\<lambda>d k. ddel k d) d ks = filter (\<lambda>(k, v). k \<notin> set ks) d"
proof (induction ks arbitrary: d)
  case (Cons k ks)
  show ?case
    by (simp add: Cons.IH) (auto simp: AList.delete_eq intro: filter_cong)
qed simp

end
