(* ===== verification/Bencode.thy ===== *)
theory Bencode
  imports Prelude
begin

text \<open>
  \<^verbatim>\<open>server/bencode.py\<close>: the encoder over the Python objects it dispatches on, and the decoder over
  byte offsets.  The buffer of \<^verbatim>\<open>_encode\<close> only ever grows by appending, so a call is modelled by the
  bytes it appends.  The decoder recurses on offsets the bytes themselves determine; it carries
  fuel, and \<open>decode\<close> supplies \<open>2 * length data + 1\<close> units, which \<open>decode_never_out_of_fuel\<close> shows
  to be enough for every input.  The interpreter's recursion limit is not modelled.
\<close>

section \<open>Objects\<close>

text \<open>
  The classes \<^verbatim>\<open>_encode\<close> distinguishes; \<open>POther\<close> stands for every remaining class
  (\<^verbatim>\<open>None\<close>, \<^verbatim>\<open>float\<close>, \<dots>), which the encoder refuses alike.
\<close>

datatype pyobj =
    PBool bool
  | PInt int
  | PBytes bytes
  | PStr codepoints
  | PList "pyobj list"
  | PTuple "pyobj list"
  | PDict "(pyobj \<times> pyobj) list"
  | POther

definition key_bytes :: "pyobj \<Rightarrow> bytes res" where
  "key_bytes k = (case k of
      PBytes b \<Rightarrow> Inr b
    | PStr u \<Rightarrow> utf8_encode u
    | _ \<Rightarrow> Inl AttributeError)"

text \<open>The sort key of \<^verbatim>\<open>sorted(obj, key=_key_bytes)\<close>, used once every key has been converted.\<close>

definition key_of :: "pyobj \<Rightarrow> bytes" where
  "key_of k = (case key_bytes k of Inr b \<Rightarrow> b | Inl _ \<Rightarrow> [])"

section \<open>Encoding\<close>

definition enc_bytes :: "bytes \<Rightarrow> bytes res" where
  \<comment> \<open>\<^verbatim>\<open>b"%d:" % len(b) + b\<close>\<close>
  "enc_bytes b = rbind (format_int (int (length b))) (\<lambda>s. Inr (s @ '':'' @ b))"

function (sequential) enc :: "pyobj \<Rightarrow> bytes res" where
  "enc (PBool b) = Inl TypeError"
| "enc (PInt n) = rbind (format_int n) (\<lambda>s. Inr (''i'' @ s @ ''e''))"
| "enc (PBytes b) = enc_bytes b"
| "enc (PStr u) = rbind (utf8_encode u) enc_bytes"
| "enc (PList xs) = rbind (rmap enc xs) (\<lambda>bs. Inr (''l'' @ concat bs @ ''e''))"
| "enc (PTuple xs) = rbind (rmap enc xs) (\<lambda>bs. Inr (''l'' @ concat bs @ ''e''))"
| "enc (PDict kvs) =
     rbind (rmap (\<lambda>kv. key_bytes (fst kv)) kvs) (\<lambda>_.
     rbind (rmap (\<lambda>kv. rbind (key_bytes (fst kv)) (\<lambda>kb.
                       rbind (enc_bytes kb) (\<lambda>s.
                       rbind (enc (snd kv)) (\<lambda>e. Inr (s @ e)))))
                 (sort_key (\<lambda>kv. key_of (fst kv)) kvs)) (\<lambda>bs.
     Inr (''d'' @ concat bs @ ''e'')))"
| "enc POther = Inl TypeError"
  by pat_completeness auto

lemma size_in_pairs: "kv \<in> set kvs \<Longrightarrow> size (snd kv) < Suc (size_list (size_prod size size) kvs)"
  by (induction kvs) auto

termination enc
proof (relation "measure size", goal_cases)
  case (4 kvs r kv)
  then have "kv \<in> set kvs" by simp
  then show ?case by (simp add: size_in_pairs)
qed (auto simp: less_Suc_eq_le size_list_estimation')

definition encode :: "pyobj \<Rightarrow> bytes res" where
  "encode obj = enc obj"

section \<open>Decoding\<close>

text \<open>\<^verbatim>\<open>out[key] = val\<close>: lists and dicts are unhashable.\<close>

definition dict_store :: "pyobj \<Rightarrow> pyobj \<Rightarrow> (pyobj, pyobj) dict \<Rightarrow> (pyobj, pyobj) dict res" where
  "dict_store k v d = (case k of
      PInt _ \<Rightarrow> Inr (dset k v d)
    | PBytes _ \<Rightarrow> Inr (dset k v d)
    | _ \<Rightarrow> Inl TypeError)"

fun dec :: "nat \<Rightarrow> bytes \<Rightarrow> nat \<Rightarrow> (pyobj \<times> nat) res"
  and dec_list :: "nat \<Rightarrow> bytes \<Rightarrow> nat \<Rightarrow> pyobj list \<Rightarrow> (pyobj list \<times> nat) res"
  and dec_dict :: "nat \<Rightarrow> bytes \<Rightarrow> nat \<Rightarrow> (pyobj, pyobj) dict \<Rightarrow> ((pyobj, pyobj) dict \<times> nat) res"
where
  "dec 0 data i = Inl OutOfFuel"
| "dec (Suc f) data i =
     (let ch = slice data i (Suc i) in
      if ch = ''i'' then
        (case find_from data (CHR ''e'') i of
           None \<Rightarrow> Inl ValueError
         | Some stop \<Rightarrow> rbind (py_int (slice data (Suc i) stop)) (\<lambda>n. Inr (PInt n, Suc stop)))
      else if ch = ''l'' then
        rbind (dec_list f data (Suc i) []) (\<lambda>(out, j). Inr (PList out, Suc j))
      else if ch = ''d'' then
        rbind (dec_dict f data (Suc i) []) (\<lambda>(out, j). Inr (PDict out, Suc j))
      else if isdigit ch then
        (case find_from data (CHR '':'') i of
           None \<Rightarrow> Inl ValueError
         | Some colon \<Rightarrow>
             rbind (py_int (slice data i colon)) (\<lambda>n.
               let start = Suc colon; stop = start + nat n
               in Inr (PBytes (slice data start stop), stop)))
      else Inl ValueError)"
| "dec_list 0 data i out = Inl OutOfFuel"
| "dec_list (Suc f) data i out =
     (if slice data i (Suc i) = ''e'' then Inr (out, i)
      else rbind (dec f data i) (\<lambda>(item, j). dec_list f data j (out @ [item])))"
| "dec_dict 0 data i out = Inl OutOfFuel"
| "dec_dict (Suc f) data i out =
     (if slice data i (Suc i) = ''e'' then Inr (out, i)
      else rbind (dec f data i) (\<lambda>(key, j).
           rbind (dec f data j) (\<lambda>(val, k).
           rbind (dict_store key val out) (\<lambda>out'. dec_dict f data k out'))))"

definition decode_fuel :: "bytes \<Rightarrow> nat" where
  "decode_fuel data = 2 * length data + 1"

definition decode :: "bytes \<Rightarrow> pyobj res" where
  "decode data = rbind (dec (decode_fuel data) data 0) (\<lambda>(value, index).
     if index \<noteq> length data then Inl ValueError else Inr value)"

section \<open>The decoder always makes progress and never runs out of fuel\<close>

lemma slice_eq_single: "slice data i (Suc i) = [c] \<Longrightarrow> i < length data \<and> data ! i = c"
proof (cases "i < length data")
  case True
  then show "slice data i (Suc i) = [c] \<Longrightarrow> ?thesis" by (simp only: slice_one) simp
qed (simp add: slice_def)

lemma isdigit_slice: "isdigit (slice data i (Suc i)) \<Longrightarrow> i < length data \<and> is_digit (data ! i)"
proof (cases "i < length data")
  case True
  then show "isdigit (slice data i (Suc i)) \<Longrightarrow> ?thesis"
    by (simp only: slice_one) (simp add: isdigit_def)
qed (simp add: slice_def isdigit_def)

lemma dec_progress_all:
  "(\<forall>i v j. dec f data i = Inr (v, j) \<longrightarrow> i < j \<and> i < length data) \<and>
   (\<forall>i out out' j. dec_list f data i out = Inr (out', j) \<longrightarrow> i \<le> j) \<and>
   (\<forall>i out out' j. dec_dict f data i out = Inr (out', j) \<longrightarrow> i \<le> j)"
proof (induction f)
  case (Suc f)
  then have d: "\<And>i v j. dec f data i = Inr (v, j) \<Longrightarrow> i < j \<and> i < length data"
    and l: "\<And>i out out' j. dec_list f data i out = Inr (out', j) \<Longrightarrow> i \<le> j"
    and m: "\<And>i out out' j. dec_dict f data i out = Inr (out', j) \<Longrightarrow> i \<le> j"
    by blast+
  show ?case
    by (auto simp: Let_def res_simps split: if_splits option.splits
        dest!: slice_eq_single isdigit_slice find_from_ge d l m)
qed auto

lemma dec_progress: "dec f data i = Inr (v, j) \<Longrightarrow> i < j \<and> i < length data"
  using dec_progress_all by blast

lemma dict_store_not_fuel [simp]: "dict_store k v d \<noteq> Inl OutOfFuel"
  by (simp add: dict_store_def split: pyobj.split)

lemma py_int_not_fuel [simp]: "py_int s \<noteq> Inl OutOfFuel"
  by (simp add: py_int_def Let_def split: option.split)

lemma dec_fuel_all:
  "(\<forall>i. 2 * (length data - i) + 1 \<le> f \<longrightarrow> dec f data i \<noteq> Inl OutOfFuel) \<and>
   (\<forall>i out. 2 * (length data - i) + 2 \<le> f \<longrightarrow> dec_list f data i out \<noteq> Inl OutOfFuel) \<and>
   (\<forall>i out. 2 * (length data - i) + 2 \<le> f \<longrightarrow> dec_dict f data i out \<noteq> Inl OutOfFuel)"
proof (induction f)
  case (Suc f)
  then have d: "\<And>i. 2 * (length data - i) + 1 \<le> f \<Longrightarrow> dec f data i \<noteq> Inl OutOfFuel"
    and l: "\<And>i out. 2 * (length data - i) + 2 \<le> f \<Longrightarrow> dec_list f data i out \<noteq> Inl OutOfFuel"
    and m: "\<And>i out. 2 * (length data - i) + 2 \<le> f \<Longrightarrow> dec_dict f data i out \<noteq> Inl OutOfFuel"
    by blast+
  have next_i: "2 * (length data - j) + 2 \<le> f"
    if "dec f data i = Inr (v, j)" "2 * (length data - i) + 2 \<le> Suc f" for i v j
    using dec_progress [OF that(1)] that(2) by arith
  have "dec (Suc f) data i \<noteq> Inl OutOfFuel" if "2 * (length data - i) + 1 \<le> Suc f" for i
  proof (cases "i < length data")
    case True
    with that have "2 * (length data - Suc i) + 2 \<le> f" by simp
    with l m show ?thesis by (simp add: Let_def res_simps split: option.split)
  next
    case False
    then show ?thesis by (simp add: slice_def isdigit_def)
  qed
  moreover have "dec_list (Suc f) data i out \<noteq> Inl OutOfFuel"
    if "2 * (length data - i) + 2 \<le> Suc f" for i out
    using d [of i] l next_i that by (auto simp: res_simps)
  moreover have "dec_dict (Suc f) data i out \<noteq> Inl OutOfFuel"
    if "2 * (length data - i) + 2 \<le> Suc f" for i out
  proof -
    have "dec f data j \<noteq> Inl OutOfFuel \<and>
        (\<forall>w k. dec f data j = Inr (w, k) \<longrightarrow> 2 * (length data - k) + 2 \<le> f)"
      if "dec f data i = Inr (v, j)" for v j
      using next_i [OF that] d [of j] next_i [of j] \<open>2 * (length data - i) + 2 \<le> Suc f\<close> by auto
    with d [of i] m that show ?thesis by (auto simp: res_simps)
  qed
  ultimately show ?case by blast
qed auto

section \<open>Round trip\<close>

text \<open>
  What decoding returns for an encoded object: text becomes bytes, tuples become lists, a dict
  becomes the dict of its byte keys in ascending order, a later duplicate replacing an earlier one.
\<close>

function (sequential) canon :: "pyobj \<Rightarrow> pyobj" where
  "canon (PStr u) = PBytes (case utf8_encode u of Inr b \<Rightarrow> b | Inl _ \<Rightarrow> [])"
| "canon (PList xs) = PList (map canon xs)"
| "canon (PTuple xs) = PList (map canon xs)"
| "canon (PDict kvs) =
     PDict (foldl (\<lambda>d (k, v). dset k v d) []
       (map (\<lambda>kv. (PBytes (key_of (fst kv)), canon (snd kv)))
            (sort_key (\<lambda>kv. key_of (fst kv)) kvs)))"
| "canon v = v"
  by pat_completeness auto
termination canon
proof (relation "measure size", goal_cases)
  case (4 kvs kv)
  then have "kv \<in> set kvs" by simp
  then show ?case by (simp add: size_in_pairs)
qed (auto simp: less_Suc_eq_le size_list_estimation')

lemma enc_bytes_Inr:
  "enc_bytes b = Inr s \<longleftrightarrow>
     length (dec_nat (length b)) \<le> int_max_str_digits \<and> s = dec_nat (length b) @ '':'' @ b"
  by (auto simp: enc_bytes_def res_simps format_int_def Let_def)

lemma isdigit_single: "isdigit [c] = is_digit c"
  by (simp add: isdigit_def)

lemma slice_at: "slice (pre @ x # post) (length pre) (Suc (length pre)) = [x]"
  by (simp add: slice_def)

lemma find_from_at:
  "c \<notin> set s \<Longrightarrow> find_from (pre @ s @ c # post) c (length pre) = Some (length pre + length s)"
  by (simp add: find_from_def find_in_prefix)

lemma dec_bytes:
  assumes "enc_bytes b = Inr s" and "0 < f"
  shows "dec f (pre @ s @ post) (length pre) = Inr (PBytes b, length pre + length s)"
proof -
  obtain f' where f: "f = Suc f'" using assms(2) by (cases f) auto
  let ?n = "dec_nat (length b)"
  from assms(1) have len: "length ?n \<le> int_max_str_digits" and s: "s = ?n @ '':'' @ b"
    by (auto simp: enc_bytes_Inr)
  obtain c cs where n: "?n = c # cs" by (cases ?n) auto
  have c: "is_digit c" using dec_nat_digits [of "length b"] n by simp
  have ch: "slice (pre @ s @ post) (length pre) (Suc (length pre)) = [c]"
    using slice_at [of pre c] by (simp add: s n)
  have find: "find_from (pre @ s @ post) (CHR '':'') (length pre) = Some (length pre + length ?n)"
    using find_from_at [OF digits_not_in [OF dec_nat_digits], of "CHR '':''" pre "length b" "b @ post"]
    by (simp add: s)
  have sl: "slice (pre @ s @ post) (length pre) (length pre + length ?n) = ?n"
    using slice_append_mid [of pre ?n] by (simp add: s)
  have body: "slice (pre @ s @ post) (Suc (length pre + length ?n))
      (Suc (length pre + length ?n) + length b) = b"
    using slice_append_mid [of "pre @ ?n @ '':''" b post] by (simp add: s)
  have "c \<noteq> CHR ''i''" "c \<noteq> CHR ''l''" "c \<noteq> CHR ''d''" using c by auto
  with c ch find sl body len show ?thesis
    by (simp add: f Let_def isdigit_single py_int_digits s)
qed

lemma enc_bytes_length: "enc_bytes x = Inr b \<Longrightarrow> 2 \<le> length b \<and> hd b \<noteq> CHR ''e''"
  using dec_nat_digits [of "length x"]
  by (cases "dec_nat (length x)") (auto simp: enc_bytes_Inr)

lemma enc_length: "enc v = Inr b \<Longrightarrow> 2 \<le> length b \<and> hd b \<noteq> CHR ''e''"
  by (cases v) (auto simp: res_simps dest: enc_bytes_length)

text \<open>
  The decoder at an offset where an encoding starts: it returns the canonical object and the
  offset just past the encoding, whatever surrounds it.
\<close>

definition decodes_to :: "bytes \<Rightarrow> pyobj \<Rightarrow> bool" where
  "decodes_to b v \<longleftrightarrow> 2 \<le> length b \<and> hd b \<noteq> CHR ''e'' \<and>
     (\<forall>f pre post. 2 * length b \<le> f \<longrightarrow>
        dec f (pre @ b @ post) (length pre) = Inr (v, length pre + length b))"

lemma decodes_toD:
  "decodes_to b v \<Longrightarrow> 2 * length b \<le> f \<Longrightarrow>
     dec f (pre @ b @ post) (length pre) = Inr (v, length pre + length b)"
  by (simp add: decodes_to_def)

lemma decodes_to_bytes: "enc_bytes b = Inr s \<Longrightarrow> decodes_to s (PBytes b)"
proof -
  assume e: "enc_bytes b = Inr s"
  from enc_bytes_length [OF e] have l: "2 \<le> length s" "hd s \<noteq> CHR ''e''" by auto
  have "dec f (pre @ s @ post) (length pre) = Inr (PBytes b, length pre + length s)"
    if "2 * length s \<le> f" for f pre post
    by (rule dec_bytes [OF e]) (use that l in simp)
  with l show ?thesis by (simp add: decodes_to_def)
qed

lemma decodes_to_int: "format_int n = Inr s \<Longrightarrow> decodes_to (''i'' @ s @ ''e'') (PInt n)"
proof -
  assume e: "format_int n = Inr s"
  have ne: "CHR ''e'' \<notin> set (CHR ''i'' # s)" using format_int_chars [OF e] by auto
  have "dec f (pre @ (''i'' @ s @ ''e'') @ post) (length pre)
      = Inr (PInt n, length pre + length (''i'' @ s @ ''e''))" if fuel: "0 < f" for f pre post
  proof -
    obtain f' where f: "f = Suc f'" using fuel by (cases f) auto
    let ?d = "pre @ CHR ''i'' # s @ CHR ''e'' # post"
    have ch: "slice ?d (length pre) (Suc (length pre)) = ''i''" by (rule slice_at)
    have fi: "find_from ?d (CHR ''e'') (length pre) = Some (length pre + Suc (length s))"
      using find_from_at [OF ne, of pre post] by simp
    have sl: "slice ?d (Suc (length pre)) (Suc (length pre + length s)) = s"
      using slice_append_mid [of "pre @ ''i''" s "CHR ''e'' # post"] by simp
    from ch fi sl py_int_format_int [OF e] show ?thesis by (simp add: f Let_def)
  qed
  then show ?thesis by (simp add: decodes_to_def)
qed

lemma dec_list_items:
  assumes "list_all2 decodes_to bs vs" and "2 * length (concat bs) + 1 \<le> f"
  shows "dec_list f (pre @ concat bs @ CHR ''e'' # post) (length pre) out
    = Inr (out @ vs, length pre + length (concat bs))"
  using assms
proof (induction bs vs arbitrary: f pre out rule: list_all2_induct)
  case Nil
  then obtain f' where "f = Suc f'" by (cases f) auto
  then show ?case by (simp add: slice_at)
next
  case (Cons b bs v vs)
  then obtain f' where f: "f = Suc f'" by (cases f) auto
  from Cons.hyps(1) have l: "2 \<le> length b" and h: "hd b \<noteq> CHR ''e''"
    by (auto simp: decodes_to_def)
  then obtain c b' where b: "b = c # b'" and c: "c \<noteq> CHR ''e''" by (cases b) auto
  let ?rest = "concat bs @ CHR ''e'' # post"
  have ch: "slice (pre @ b @ ?rest) (length pre) (Suc (length pre)) = [c]"
    by (simp add: b slice_at)
  have d: "dec f' (pre @ b @ ?rest) (length pre) = Inr (v, length pre + length b)"
    by (rule decodes_toD [OF Cons.hyps(1)]) (use Cons.prems f l in simp)
  have ih: "dec_list f' ((pre @ b) @ ?rest) (length (pre @ b)) (out @ [v])
      = Inr ((out @ [v]) @ vs, length (pre @ b) + length (concat bs))"
    by (rule Cons.IH) (use Cons.prems f l in simp)
  from ch c d ih show ?case by (simp add: f add.assoc)
qed

lemma decodes_to_list:
  assumes "list_all2 decodes_to bs vs"
  shows "decodes_to (''l'' @ concat bs @ ''e'') (PList vs)"
proof -
  have "dec f (pre @ (''l'' @ concat bs @ ''e'') @ post) (length pre)
      = Inr (PList vs, length pre + length (''l'' @ concat bs @ ''e''))"
    if fuel: "2 * length (''l'' @ concat bs @ ''e'') \<le> f" for f pre post
  proof -
    obtain f' where f: "f = Suc f'" using fuel by (cases f) auto
    have "dec_list f' ((pre @ ''l'') @ concat bs @ CHR ''e'' # post) (length (pre @ ''l'')) []
        = Inr ([] @ vs, length (pre @ ''l'') + length (concat bs))"
      by (rule dec_list_items [OF assms]) (use fuel f in simp)
    then show ?thesis
      using slice_at [of pre "CHR ''l''"] by (simp add: f Let_def)
  qed
  then show ?thesis by (simp add: decodes_to_def)
qed

definition member_decodes_to :: "bytes \<Rightarrow> pyobj \<times> pyobj \<Rightarrow> bool" where
  "member_decodes_to b m \<longleftrightarrow>
     (\<exists>kb s e. b = s @ e \<and> enc_bytes kb = Inr s \<and> fst m = PBytes kb \<and> decodes_to e (snd m))"

lemma dec_dict_items:
  assumes "list_all2 member_decodes_to bs ms" and "2 * length (concat bs) + 1 \<le> f"
  shows "dec_dict f (pre @ concat bs @ CHR ''e'' # post) (length pre) out
    = Inr (foldl (\<lambda>d (k, v). dset k v d) out ms, length pre + length (concat bs))"
  using assms
proof (induction bs ms arbitrary: f pre out rule: list_all2_induct)
  case Nil
  then obtain f' where "f = Suc f'" by (cases f) auto
  then show ?case by (simp add: slice_at)
next
  case (Cons b bs m ms)
  then obtain f' where f: "f = Suc f'" by (cases f) auto
  from Cons.hyps(1) obtain kb s e v where b: "b = s @ e" and s: "enc_bytes kb = Inr s"
    and m: "m = (PBytes kb, v)" and e: "decodes_to e v"
    by (cases m) (auto simp: member_decodes_to_def)
  have ls: "2 \<le> length s" "hd s \<noteq> CHR ''e''" using enc_bytes_length [OF s] by auto
  then obtain c s' where sc: "s = c # s'" and c: "c \<noteq> CHR ''e''" by (cases s) auto
  let ?rest = "concat bs @ CHR ''e'' # post"
  have ch: "slice (pre @ b @ ?rest) (length pre) (Suc (length pre)) = [c]"
    by (simp add: b sc slice_at)
  have k: "dec f' (pre @ s @ (e @ ?rest)) (length pre) = Inr (PBytes kb, length pre + length s)"
    by (rule dec_bytes [OF s]) (use Cons.prems f ls b in simp)
  have v: "dec f' ((pre @ s) @ e @ ?rest) (length (pre @ s)) = Inr (v, length (pre @ s) + length e)"
    by (rule decodes_toD [OF e]) (use Cons.prems f ls b in simp)
  have ih: "dec_dict f' ((pre @ b) @ ?rest) (length (pre @ b)) (dset (PBytes kb) v out)
      = Inr (foldl (\<lambda>d (k, v). dset k v d) (dset (PBytes kb) v out) ms,
             length (pre @ b) + length (concat bs))"
    by (rule Cons.IH) (use Cons.prems f ls b in simp)
  from ch c k v ih show ?case
    by (simp add: f b m dict_store_def add.assoc)
qed

lemma decodes_to_dict:
  assumes "list_all2 member_decodes_to bs ms"
  shows "decodes_to (''d'' @ concat bs @ ''e'') (PDict (foldl (\<lambda>d (k, v). dset k v d) [] ms))"
proof -
  have "dec f (pre @ (''d'' @ concat bs @ ''e'') @ post) (length pre)
      = Inr (PDict (foldl (\<lambda>d (k, v). dset k v d) [] ms),
             length pre + length (''d'' @ concat bs @ ''e''))"
    if fuel: "2 * length (''d'' @ concat bs @ ''e'') \<le> f" for f pre post
  proof -
    obtain f' where f: "f = Suc f'" using fuel by (cases f) auto
    have "dec_dict f' ((pre @ ''d'') @ concat bs @ CHR ''e'' # post) (length (pre @ ''d'')) []
        = Inr (foldl (\<lambda>d (k, v). dset k v d) [] ms, length (pre @ ''d'') + length (concat bs))"
      by (rule dec_dict_items [OF assms]) (use fuel f in simp)
    then show ?thesis
      using slice_at [of pre "CHR ''d''"] by (simp add: f Let_def)
  qed
  then show ?thesis by (simp add: decodes_to_def)
qed

lemma enc_decodes_to: "enc v = Inr b \<Longrightarrow> decodes_to b (canon v)"
proof (induction v arbitrary: b rule: enc.induct)
  case (2 n)
  then show ?case by (auto simp: res_simps intro: decodes_to_int [simplified])
next
  case (3 x)
  then show ?case by (simp add: decodes_to_bytes)
next
  case (4 u)
  then show ?case by (auto simp: res_simps decodes_to_bytes)
next
  case (5 xs)
  then obtain bs where bs: "list_all2 (\<lambda>x y. enc x = Inr y) xs bs" and b: "b = ''l'' @ concat bs @ ''e''"
    by (auto simp: res_simps rmap_eq_Inr)
  have "list_all2 decodes_to bs (map canon xs)"
    using bs "5.IH" by (auto simp: list_all2_conv_all_nth)
  from decodes_to_list [OF this] show ?case by (simp add: b)
next
  case (6 xs)
  then obtain bs where bs: "list_all2 (\<lambda>x y. enc x = Inr y) xs bs" and b: "b = ''l'' @ concat bs @ ''e''"
    by (auto simp: res_simps rmap_eq_Inr)
  have "list_all2 decodes_to bs (map canon xs)"
    using bs "6.IH" by (auto simp: list_all2_conv_all_nth)
  from decodes_to_list [OF this] show ?case by (simp add: b)
next
  case (7 kvs)
  let ?sorted = "sort_key (\<lambda>kv. key_of (fst kv)) kvs"
  from "7.prems" obtain ks bs where ks: "rmap (\<lambda>kv. key_bytes (fst kv)) kvs = Inr ks"
    and bs: "list_all2 (\<lambda>kv y. \<exists>kb s e. key_bytes (fst kv) = Inr kb \<and> enc_bytes kb = Inr s \<and>
        enc (snd kv) = Inr e \<and> s @ e = y) ?sorted bs"
    and b: "b = ''d'' @ concat bs @ ''e''"
    by (auto simp: res_simps rmap_eq_Inr)
  have "list_all2 member_decodes_to bs
      (map (\<lambda>kv. (PBytes (key_of (fst kv)), canon (snd kv))) ?sorted)"
  proof (rule list_all2_all_nthI)
    show "length bs = length (map (\<lambda>kv. (PBytes (key_of (fst kv)), canon (snd kv))) ?sorted)"
      using list_all2_lengthD [OF bs] by simp
  next
    fix n assume n: "n < length bs"
    let ?kv = "?sorted ! n"
    from n list_all2_lengthD [OF bs] have n': "n < length ?sorted" by simp
    from list_all2_nthD [OF bs n'] obtain kb s e where kv: "key_bytes (fst ?kv) = Inr kb"
      "enc_bytes kb = Inr s" "enc (snd ?kv) = Inr e" "bs ! n = s @ e" by auto
    have "?kv \<in> set ?sorted" using n' nth_mem by blast
    then have "decodes_to e (canon (snd ?kv))"
      using "7.IH" [OF ks] kv by blast
    with kv n' show "member_decodes_to (bs ! n)
        (map (\<lambda>kv. (PBytes (key_of (fst kv)), canon (snd kv))) ?sorted ! n)"
      by (auto simp: member_decodes_to_def key_of_def)
  qed
  from decodes_to_dict [OF this] show ?case by (simp add: b)
qed auto

section \<open>Canonical form\<close>

text \<open>
  No dict anywhere in the object has two keys with the same bytes (a \<^verbatim>\<open>str\<close> and a \<^verbatim>\<open>bytes\<close> key could).
\<close>

function (sequential) unique_keys :: "pyobj \<Rightarrow> bool" where
  "unique_keys (PList xs) = list_all unique_keys xs"
| "unique_keys (PTuple xs) = list_all unique_keys xs"
| "unique_keys (PDict kvs) =
     (distinct (map (\<lambda>kv. key_of (fst kv)) kvs) \<and> list_all (\<lambda>kv. unique_keys (snd kv)) kvs)"
| "unique_keys v = True"
  by pat_completeness auto
termination unique_keys
proof (relation "measure size", goal_cases)
  case (4 kvs kv)
  then show ?case by (simp add: size_in_pairs)
qed (auto simp: less_Suc_eq_le size_list_estimation')

lemma foldl_dset_distinct:
  "distinct (map fst (d @ ms)) \<Longrightarrow> foldl (\<lambda>d (k, v). dset k v d) d ms = d @ ms"
proof (induction ms arbitrary: d)
  case (Cons m ms)
  obtain k v where m: "m = (k, v)" by force
  from Cons.prems m have "k \<notin> fst ` set d" by auto
  then have "dset k v d = d @ [(k, v)]" by (rule dset_new)
  with Cons.IH [of "d @ [(k, v)]"] Cons.prems m show ?case by simp
qed simp

lemma key_of_PBytes [simp]: "key_of (PBytes b) = b" "key_bytes (PBytes b) = Inr b"
  by (simp_all add: key_of_def key_bytes_def)

lemma enc_canon: "enc v = Inr b \<Longrightarrow> unique_keys v \<Longrightarrow> enc (canon v) = Inr b"
proof (induction v arbitrary: b rule: enc.induct)
  case (4 u)
  then show ?case by (auto simp: res_simps)
next
  case (5 xs)
  then show ?case
    by (auto simp: res_simps rmap_eq_Inr list_all2_conv_all_nth list_all_length)
next
  case (6 xs)
  then show ?case
    by (auto simp: res_simps rmap_eq_Inr list_all2_conv_all_nth list_all_length)
next
  case (7 kvs)
  let ?key = "\<lambda>kv. key_of (fst kv)"
  let ?ms = "map (\<lambda>kv. (PBytes (?key kv), canon (snd kv))) (sort_key ?key kvs)"
  from "7.prems"(1) obtain ks bs where ks: "rmap (\<lambda>kv. key_bytes (fst kv)) kvs = Inr ks"
    and bs: "list_all2 (\<lambda>kv y. \<exists>kb s e. key_bytes (fst kv) = Inr kb \<and> enc_bytes kb = Inr s \<and>
        enc (snd kv) = Inr e \<and> s @ e = y) (sort_key ?key kvs) bs"
    and b: "b = ''d'' @ concat bs @ ''e''"
    by (auto simp: res_simps rmap_eq_Inr)
  have "distinct (map fst ?ms)"
    using "7.prems"(2) by (simp add: distinct_map inj_on_def comp_def)
  then have cd: "canon (PDict kvs) = PDict ?ms"
    using foldl_dset_distinct [of "[]" ?ms] by simp
  have srt: "sort_key ?key ?ms = ?ms"
    by (rule sort_key_id_if_sorted) (simp add: comp_def)
  have "rmap (\<lambda>kv. key_bytes (fst kv)) ?ms = Inr (map ?key ?ms)"
    by (simp add: rmap_eq_Inr list_all2_conv_all_nth)
  moreover have "rmap (\<lambda>kv. rbind (key_bytes (fst kv)) (\<lambda>kb. rbind (enc_bytes kb) (\<lambda>s.
      rbind (enc (snd kv)) (\<lambda>e. Inr (s @ e))))) ?ms = Inr bs"
    unfolding rmap_eq_Inr
  proof (rule list_all2_all_nthI)
    show "length ?ms = length bs" using list_all2_lengthD [OF bs] by simp
  next
    fix n assume "n < length ?ms"
    then have n: "n < length (sort_key ?key kvs)" by simp
    let ?kv = "sort_key ?key kvs ! n"
    from list_all2_nthD [OF bs n] obtain kb s e where kv: "key_bytes (fst ?kv) = Inr kb"
      "enc_bytes kb = Inr s" "enc (snd ?kv) = Inr e" "s @ e = bs ! n" by auto
    have m: "?kv \<in> set (sort_key ?key kvs)" using n nth_mem by blast
    then have "unique_keys (snd ?kv)" using "7.prems"(2) by (auto simp: list_all_iff)
    with m have "enc (canon (snd ?kv)) = Inr e" using "7.IH" [OF ks] kv by blast
    with kv n show "rbind (key_bytes (fst (?ms ! n))) (\<lambda>kb. rbind (enc_bytes kb) (\<lambda>s.
        rbind (enc (snd (?ms ! n))) (\<lambda>e. Inr (s @ e)))) = Inr (bs ! n)"
      by (simp add: key_of_def)
  qed
  ultimately show ?case unfolding cd enc.simps srt by (simp add: b)
qed auto

lemma decode_canon: "encode v = Inr b \<Longrightarrow> decode b = Inr (canon v)"
  using decodes_toD [OF enc_decodes_to, of v b "decode_fuel b" "[]" "[]"]
  by (simp add: encode_def decode_def decode_fuel_def)

section \<open>Properties\<close>

text \<open>
  C4. Round trip: whatever \<^verbatim>\<open>encode\<close> produces, \<^verbatim>\<open>decode\<close> reads back as the same object with text as
  bytes, tuples as lists and dict members in ascending byte order of their keys.
\<close>

theorem bencode_roundtrip:
  assumes "encode v = Inr b"
  shows "decode b = Inr (canon v)"
  using assms by (rule decode_canon)

theorem bencode_roundtrip_witness:
  "decode ''d1:ai7ee'' = Inr (canon (PDict [(PStr [97], PInt 7)]))"
proof (rule bencode_roundtrip)
  show "encode (PDict [(PStr [97], PInt 7)]) = Inr ''d1:ai7ee''" by code_simp
qed

text \<open>
  Canonical form: an object without clashing keys, once encoded and decoded, encodes to exactly
  the same bytes again, so an info-hash computed from the re-encoding is unchanged.
\<close>

theorem bencode_canonical:
  assumes "encode v = Inr b" and "unique_keys v"
  shows "\<exists>w. decode b = Inr w \<and> encode w = Inr b"
  using decode_canon [OF assms(1)] enc_canon [of v b] assms by (auto simp: encode_def)

text \<open>
  Re-encoding does not reproduce arbitrary accepted input: the decoder accepts integers with
  leading zeros and dict members in any order, and re-encoding normalises both.
\<close>

theorem bencode_reencode_not_identity:
  "decode ''d1:bi007e1:a0:e'' = Inr (PDict [(PBytes ''b'', PInt 7), (PBytes ''a'', PBytes [])]) \<and>
   encode (PDict [(PBytes ''b'', PInt 7), (PBytes ''a'', PBytes [])]) = Inr ''d1:a0:1:bi7ee''"
  by code_simp

text \<open>
  C6. Decoding any byte string terminates: the recursion never exhausts the fuel that \<open>decode\<close>
  computes from the input's length.
\<close>

theorem bencode_decode_total: "decode data \<noteq> Inl OutOfFuel"
  using dec_fuel_all [of data "decode_fuel data"]
  by (auto simp: decode_def decode_fuel_def res_simps)

end
