(* ===== verification/Torrent_Personalize.thy ===== *)
theory Torrent_Personalize
  imports Bencode
begin

text \<open>
  \<^verbatim>\<open>server/torrent_personalize.py\<close>: the raw span scanner over bencoded bytes and the rewriter that
  replaces the announce URL of a torrent while copying the \<^verbatim>\<open>info\<close> value byte for byte.  The walk over
  offsets carries fuel computed from the input's length, which is always enough.  SHA-1
  (\<^verbatim>\<open>hashlib\<close>) is a parameter.
\<close>

section \<open>Scanning\<close>

definition unique_top_keys :: "bytes list" where
  "unique_top_keys = [''info'', ''announce'', ''announce-list'']"

definition is_bencode_int :: "bytes \<Rightarrow> bool" where
  "is_bencode_int body =
     (if body = [] then False
      else let neg = (take 1 body = ''-''); s = (if neg then drop 1 body else body)
           in if neg \<and> (s = ''0'' \<or> s = []) then False
              else if \<not> isdigit s then False
              else if 1 < length s \<and> take 1 s = ''0'' then False
              else True)"

text \<open>
  The statements \<^verbatim>\<open>_skip_value\<close> and \<^verbatim>\<open>_read_byte_string\<close> share for a byte string at \<open>i\<close>:
  the offsets of its first byte and of the end of its content.
\<close>

definition byte_string_span :: "bytes \<Rightarrow> nat \<Rightarrow> (nat \<times> nat) res" where
  "byte_string_span data i =
     (case find_from data (CHR '':'') i of
        None \<Rightarrow> Inl ValueError
      | Some colon \<Rightarrow>
          let length_bytes = slice data i colon in
          if \<not> isdigit length_bytes then Inl ValueError
          else if 1 < length length_bytes \<and> take 1 length_bytes = ''0'' then Inl ValueError
          else rbind (py_int length_bytes) (\<lambda>n.
            let start = Suc colon; stop = start + nat n
            in if stop > length data then Inl ValueError else Inr (start, stop)))"

fun skip_value :: "nat \<Rightarrow> bytes \<Rightarrow> nat \<Rightarrow> nat res"
  and skip_children :: "nat \<Rightarrow> bytes \<Rightarrow> bool \<Rightarrow> nat \<Rightarrow> nat res"
where
  "skip_value 0 data i = Inl OutOfFuel"
| "skip_value (Suc f) data i =
     (if i \<ge> length data then Inl ValueError
      else let c = slice data i (Suc i) in
        if c = ''i'' then
          (case find_from data (CHR ''e'') (Suc i) of
             None \<Rightarrow> Inl ValueError
           | Some j \<Rightarrow>
               if \<not> is_bencode_int (slice data (Suc i) j) then Inl ValueError else Inr (Suc j))
        else if c = ''l'' \<or> c = ''d'' then skip_children f data (c = ''d'') (Suc i)
        else if isdigit c then rbind (byte_string_span data i) (\<lambda>(start, stop). Inr stop)
        else Inl ValueError)"
| "skip_children 0 data is_dict j = Inl OutOfFuel"
| "skip_children (Suc f) data is_dict j =
     (if j \<ge> length data then Inl ValueError
      else if slice data j (Suc j) = ''e'' then Inr (Suc j)
      else if is_dict then
        (if \<not> isdigit (slice data j (Suc j)) then Inl ValueError
         else rbind (skip_value f data j) (\<lambda>j1.
              rbind (skip_value f data j1) (\<lambda>j2. skip_children f data is_dict j2)))
      else rbind (skip_value f data j) (\<lambda>j1. skip_children f data is_dict j1))"

definition read_byte_string :: "bytes \<Rightarrow> nat \<Rightarrow> (bytes \<times> nat) res" where
  "read_byte_string data i =
     (if i \<ge> length data \<or> \<not> isdigit (slice data i (Suc i)) then Inl ValueError
      else rbind (byte_string_span data i) (\<lambda>(start, stop). Inr (slice data start stop, stop)))"

type_synonym spans = "(bytes, nat \<times> nat) dict"

definition walk_fuel :: "bytes \<Rightarrow> nat" where
  "walk_fuel data = 2 * length data + 2"

text \<open>The member loop of \<^verbatim>\<open>scan_top_level\<close>: the spans found so far and the offset after the dict.\<close>

fun scan_members :: "nat \<Rightarrow> bytes \<Rightarrow> nat \<Rightarrow> spans \<Rightarrow> (spans \<times> nat) res" where
  "scan_members 0 data i spans = Inl OutOfFuel"
| "scan_members (Suc f) data i spans =
     (if i \<ge> length data then Inl ValueError
      else if slice data i (Suc i) = ''e'' then Inr (spans, Suc i)
      else rbind (read_byte_string data i) (\<lambda>(key, value_start).
           rbind (skip_value (walk_fuel data) data value_start) (\<lambda>value_end.
             if key \<in> set unique_top_keys \<and> dget spans key \<noteq> None then Inl ValueError
             else scan_members f data value_end
               (if dget spans key = None then spans @ [(key, (value_start, value_end))] else spans))))"

definition scan_top_level :: "bytes \<Rightarrow> spans res" where
  "scan_top_level data =
     (if length data = 0 \<or> slice data 0 1 \<noteq> ''d'' then Inl ValueError
      else rbind (scan_members (walk_fuel data) data 1 []) (\<lambda>(spans, i).
        if i \<noteq> length data then Inl ValueError else Inr spans))"

section \<open>Rewriting\<close>

datatype url_arg = UrlStr codepoints | UrlBytes bytes

definition url_bytes :: "url_arg \<Rightarrow> bytes res" where
  "url_bytes u = (case u of UrlStr s \<Rightarrow> utf8_encode s | UrlBytes b \<Rightarrow> Inr b)"

definition retained_values :: "bytes \<Rightarrow> bytes \<Rightarrow> spans \<Rightarrow> (bytes, bytes) dict" where
  "retained_values data announce_url spans =
     map (\<lambda>(skey, (vs, ve)). (skey, if skey = ''announce'' then announce_url else slice data vs ve))
         (filter (\<lambda>(skey, _). skey \<noteq> ''announce-list'') spans)"

definition emit_member :: "(bytes, bytes) dict \<Rightarrow> bytes \<Rightarrow> bytes \<Rightarrow> bytes res" where
  "emit_member retained announce_url skey =
     rbind (enc_bytes skey) (\<lambda>k.
       if skey = ''announce'' then rbind (enc_bytes announce_url) (\<lambda>u. Inr (k @ u))
       else (case dget retained skey of None \<Rightarrow> Inl KeyError | Some raw \<Rightarrow> Inr (k @ raw)))"

definition check_output :: "(bytes \<Rightarrow> bytes) \<Rightarrow> bytes \<Rightarrow> bytes \<Rightarrow> bytes res" where
  "check_output sha1 original_info_hash out =
     rbind (scan_top_level out) (\<lambda>out_spans.
       if dget out_spans ''announce-list'' \<noteq> None then Inl ValueError
       else if dget out_spans ''announce'' = None then Inl ValueError
       else (case dget out_spans ''info'' of
               None \<Rightarrow> Inl ValueError
             | Some (os, oe) \<Rightarrow>
                 if sha1 (slice out os oe) \<noteq> original_info_hash then Inl ValueError else Inr out))"

definition personalize :: "(bytes \<Rightarrow> bytes) \<Rightarrow> bytes \<Rightarrow> url_arg \<Rightarrow> bytes res" where
  "personalize sha1 data announce_url =
     rbind (url_bytes announce_url) (\<lambda>url.
     rbind (scan_top_level data) (\<lambda>spans.
       (case dget spans ''info'' of
          None \<Rightarrow> Inl ValueError
        | Some (info_start, info_end) \<Rightarrow>
            if dget spans ''announce'' = None then Inl ValueError
            else
              let original_info_hash = sha1 (slice data info_start info_end);
                  retained = retained_values data url spans
              in rbind (rmap (emit_member retained url) (sort (dkeys retained))) (\<lambda>ms.
                 check_output sha1 original_info_hash (''d'' @ concat ms @ ''e'')))))"

section \<open>Progress and fuel\<close>

lemma byte_string_span_bounds:
  "byte_string_span data i = Inr (start, stop) \<Longrightarrow> i < start \<and> start \<le> stop \<and> stop \<le> length data"
  by (auto simp: byte_string_span_def Let_def res_simps split: option.splits if_splits
      dest: find_from_ge)

lemma skip_progress_all:
  "(\<forall>i j. skip_value f data i = Inr j \<longrightarrow> i < j \<and> j \<le> length data) \<and>
   (\<forall>d i j. skip_children f data d i = Inr j \<longrightarrow> i < j \<and> j \<le> length data)"
proof (induction f)
  case (Suc f)
  then have v: "\<And>i j. skip_value f data i = Inr j \<Longrightarrow> i < j \<and> j \<le> length data"
    and c: "\<And>d i j. skip_children f data d i = Inr j \<Longrightarrow> i < j \<and> j \<le> length data"
    by blast+
  show ?case
    by (auto simp: Let_def res_simps split: if_splits option.splits
        dest!: v c byte_string_span_bounds find_from_ge)
qed auto

lemma skip_value_progress: "skip_value f data i = Inr j \<Longrightarrow> i < j \<and> j \<le> length data"
  using skip_progress_all by blast

lemma byte_string_span_not_fuel [simp]: "byte_string_span data i \<noteq> Inl OutOfFuel"
  by (auto simp: byte_string_span_def Let_def res_simps split: option.splits)

lemma skip_fuel_all:
  "(\<forall>i. 2 * (length data - i) + 1 \<le> f \<longrightarrow> skip_value f data i \<noteq> Inl OutOfFuel) \<and>
   (\<forall>d i. 2 * (length data - i) + 2 \<le> f \<longrightarrow> skip_children f data d i \<noteq> Inl OutOfFuel)"
proof (induction f)
  case (Suc f)
  then have v: "\<And>i. 2 * (length data - i) + 1 \<le> f \<Longrightarrow> skip_value f data i \<noteq> Inl OutOfFuel"
    and c: "\<And>d i. 2 * (length data - i) + 2 \<le> f \<Longrightarrow> skip_children f data d i \<noteq> Inl OutOfFuel"
    by blast+
  have step: "2 * (length data - j) + 2 \<le> f"
    if "skip_value f data i = Inr j" "i < length data" "2 * (length data - i) + 2 \<le> Suc f" for i j
    using skip_value_progress [OF that(1)] that(2,3) by arith
  have "skip_value (Suc f) data i \<noteq> Inl OutOfFuel" if "2 * (length data - i) + 1 \<le> Suc f" for i
  proof (cases "i < length data")
    case True
    with that have "2 * (length data - Suc i) + 2 \<le> f" by simp
    with c show ?thesis by (simp add: Let_def res_simps split: option.split)
  qed simp
  moreover have "skip_children (Suc f) data d i \<noteq> Inl OutOfFuel"
    if fuel: "2 * (length data - i) + 2 \<le> Suc f" for d i
  proof (cases "i < length data")
    case True
    have 1: "skip_value f data i \<noteq> Inl OutOfFuel" using v [of i] fuel by simp
    have 2: "skip_value f data j \<noteq> Inl OutOfFuel \<and> skip_children f data d j \<noteq> Inl OutOfFuel \<and>
        (\<forall>k. skip_value f data j = Inr k \<longrightarrow> skip_children f data d k \<noteq> Inl OutOfFuel)"
      if j: "skip_value f data i = Inr j" for j
      using step [OF j True fuel] v [of j] c skip_value_progress [of f data j] 
      by (fastforce intro!: c)
    from 1 2 True show ?thesis by (auto simp: res_simps)
  qed simp
  ultimately show ?case by blast
qed auto

lemma skip_value_fuel: "skip_value (walk_fuel data) data i \<noteq> Inl OutOfFuel"
  using skip_fuel_all [of data "walk_fuel data"] by (simp add: walk_fuel_def)

lemma skip_mono_all:
  "(\<forall>i. skip_value f data i \<noteq> Inl OutOfFuel \<longrightarrow> skip_value (Suc f) data i = skip_value f data i) \<and>
   (\<forall>d i. skip_children f data d i \<noteq> Inl OutOfFuel \<longrightarrow>
      skip_children (Suc f) data d i = skip_children f data d i)"
proof (induction f)
  case (Suc f)
  then have v: "\<And>i. skip_value f data i \<noteq> Inl OutOfFuel \<Longrightarrow>
      skip_value (Suc f) data i = skip_value f data i"
    and c: "\<And>d i. skip_children f data d i \<noteq> Inl OutOfFuel \<Longrightarrow>
      skip_children (Suc f) data d i = skip_children f data d i"
    by blast+
  have "skip_value (Suc (Suc f)) data i = skip_value (Suc f) data i"
    if "skip_value (Suc f) data i \<noteq> Inl OutOfFuel" for i
    using that c unfolding skip_value.simps(2) [of "Suc f"] skip_value.simps(2) [of f]
    by (auto simp: Let_def split: if_splits simp del: skip_children.simps)
  moreover have "skip_children (Suc (Suc f)) data d i = skip_children (Suc f) data d i"
    if "skip_children (Suc f) data d i \<noteq> Inl OutOfFuel" for d i
  proof -
    show ?thesis
      using that unfolding skip_children.simps(2) [of "Suc f" data d i]
        skip_children.simps(2) [of f data d i]
      by (auto simp del: skip_value.simps skip_children.simps split: if_splits
          intro!: rbind_mono_fuel v c)
  qed
  ultimately show ?case by blast
qed auto

lemma skip_value_mono:
  assumes "skip_value f data i \<noteq> Inl OutOfFuel" and "f \<le> g"
  shows "skip_value g data i = skip_value f data i"
  using assms(2)
proof (induction g rule: dec_induct)
  case (step g)
  then show ?case using skip_mono_all [of g data] assms(1) by metis
qed simp

text \<open>Any amount of fuel with which the walk succeeds gives the result the code computes.\<close>

lemma skip_value_any_fuel:
  assumes "skip_value f data i = Inr j"
  shows "skip_value (walk_fuel data) data i = Inr j"
proof (cases "f \<le> walk_fuel data")
  case True
  with assms show ?thesis using skip_value_mono [of f data i "walk_fuel data"] by simp
next
  case False
  then show ?thesis
    using assms skip_value_mono [OF skip_value_fuel, of data f i] by simp
qed

section \<open>Locality: a span means the same wherever it is copied\<close>

definition same_run :: "nat \<Rightarrow> bytes \<Rightarrow> nat \<Rightarrow> bytes \<Rightarrow> nat \<Rightarrow> bool" where
  "same_run n data i data' i' \<longleftrightarrow>
     i + n \<le> length data \<and> i' + n \<le> length data' \<and>
     take n (drop i data) = take n (drop i' data')"

lemma same_run_sub:
  "same_run n data i data' i' \<Longrightarrow> k + m \<le> n \<Longrightarrow> same_run m data (i + k) data' (i' + k)"
proof -
  assume s: "same_run n data i data' i'" and km: "k + m \<le> n"
  have "take m (drop (i + k) data) = take m (drop k (take n (drop i data)))"
    using km by (simp add: drop_take min_def add.commute)
  also have "\<dots> = take m (drop k (take n (drop i' data')))"
    using s by (simp add: same_run_def)
  also have "\<dots> = take m (drop (i' + k) data')"
    using km by (simp add: drop_take min_def add.commute)
  finally show ?thesis using s km by (simp add: same_run_def)
qed

lemma same_run_slice:
  assumes "same_run n data i data' i'" and "a \<le> b" and "b \<le> n"
  shows "slice data (i + a) (i + b) = slice data' (i' + a) (i' + b)"
  using same_run_sub [OF assms(1), of a "b - a"] assms(2,3)
  by (simp add: slice_def same_run_def)

lemma same_run_ch:
  assumes "same_run n data i data' i'" and "a < n"
  shows "slice data (i + a) (Suc (i + a)) = slice data' (i' + a) (Suc (i' + a))"
  using same_run_slice [OF assms(1), of a "Suc a"] assms(2) by simp

lemma find_in_append: "find_in c (xs @ ys) = Some k \<Longrightarrow> k < length xs \<Longrightarrow> find_in c (xs @ zs) = Some k"
proof (induction xs arbitrary: k)
  case (Cons x xs)
  then show ?case by (cases k) (auto split: if_splits)
qed simp

lemma same_run_find:
  assumes "same_run n data i data' i'" and "find_from data c (i + a) = Some (i + b)" and "b < n"
  shows "find_from data' c (i' + a) = Some (i' + b)"
proof -
  from assms(2) have ab: "a \<le> b" by (auto dest: find_from_ge)
  let ?m = "n - a"
  have run: "same_run ?m data (i + a) data' (i' + a)"
    using same_run_sub [OF assms(1), of a ?m] ab assms(3) by simp
  have "find_in c (drop (i + a) data) = Some (b - a)"
    using assms(2) ab by (auto simp: find_from_def)
  then have "find_in c (take ?m (drop (i + a) data) @ drop ?m (drop (i + a) data)) = Some (b - a)"
    by (simp only: append_take_drop_id)
  then have "find_in c (take ?m (drop (i + a) data) @ drop ?m (drop (i' + a) data')) = Some (b - a)"
    by (rule find_in_append) (use assms(1,3) ab in \<open>simp add: same_run_def, arith\<close>)
  then have "find_in c (take ?m (drop (i' + a) data') @ drop ?m (drop (i' + a) data')) = Some (b - a)"
    using run by (simp only: same_run_def)
  then have "find_in c (drop (i' + a) data') = Some (b - a)"
    by (simp only: append_take_drop_id)
  with ab show ?thesis by (simp add: find_from_def)
qed

lemma byte_string_span_local:
  assumes "byte_string_span data i = Inr (start, stop)"
    and "same_run (stop - i) data i data' i'"
  shows "byte_string_span data' i' = Inr (i' + (start - i), i' + (stop - i))"
proof -
  from assms(1) obtain colon n where colon: "find_from data (CHR '':'') i = Some colon"
    and dg: "isdigit (slice data i colon)"
    and nz: "\<not> (1 < length (slice data i colon) \<and> take 1 (slice data i colon) = ''0'')"
    and n: "py_int (slice data i colon) = Inr n"
    and st: "start = Suc colon" "stop = Suc colon + nat n"
    by (auto simp: byte_string_span_def Let_def res_simps split: option.splits if_splits)
  obtain d where d: "colon = i + d"
    using find_from_ge [OF colon] le_Suc_ex by blast
  have run: "same_run (Suc (d + nat n)) data i data' i'"
    using assms(2) st d by simp
  have colon': "find_from data' (CHR '':'') i' = Some (i' + d)"
    using same_run_find [OF run, of "CHR '':''" 0 d] colon d by simp
  have sl: "slice data i colon = slice data' i' (i' + d)"
    using same_run_slice [OF run, of 0 d] d by simp
  have len: "Suc (i' + d + nat n) \<le> length data'" using run by (simp add: same_run_def)
  from colon' dg nz n len st d show ?thesis
    unfolding byte_string_span_def sl by (simp add: Let_def)
qed

lemma skip_local_all:
  "(\<forall>i j i'. skip_value f data i = Inr j \<longrightarrow> same_run (j - i) data i data' i' \<longrightarrow>
      skip_value f data' i' = Inr (i' + (j - i))) \<and>
   (\<forall>d i j i'. skip_children f data d i = Inr j \<longrightarrow> same_run (j - i) data i data' i' \<longrightarrow>
      skip_children f data' d i' = Inr (i' + (j - i)))"
proof (induction f)
  case (Suc f)
  then have v: "\<And>i j i'. skip_value f data i = Inr j \<Longrightarrow> same_run (j - i) data i data' i' \<Longrightarrow>
      skip_value f data' i' = Inr (i' + (j - i))"
    and c: "\<And>d i j i'. skip_children f data d i = Inr j \<Longrightarrow> same_run (j - i) data i data' i' \<Longrightarrow>
      skip_children f data' d i' = Inr (i' + (j - i))"
    by blast+
  have pv: "\<And>i j. skip_value f data i = Inr j \<Longrightarrow> i < j" using skip_value_progress by blast
  have pc: "\<And>d i j. skip_children f data d i = Inr j \<Longrightarrow> i < j" using skip_progress_all by blast
  text \<open>moving the end of a first part to the copy\<close>
  have sub: "same_run (k - j) data j data' (i' + (j - i))"
    if "same_run (k - i) data i data' i'" "i \<le> j" "j \<le> k" for i j k i'
    using same_run_sub [OF that(1), of "j - i" "k - j"] that(2,3) by simp
  have init: "same_run (j - i) data i data' i'"
    if "same_run (k - i) data i data' i'" "i \<le> j" "j \<le> k" for i j k i'
    using same_run_sub [OF that(1), of 0 "j - i"] that(2,3) by simp
  have "skip_value (Suc f) data' i' = Inr (i' + (j - i))"
    if s: "skip_value (Suc f) data i = Inr j" and r: "same_run (j - i) data i data' i'" for i j i'
  proof -
    have ij: "i < j" "j \<le> length data" using skip_value_progress [OF s] by auto
    have i': "i' < length data'" using r ij by (auto simp: same_run_def)
    have ch: "slice data' i' (Suc i') = slice data i (Suc i)"
      using same_run_ch [OF r, of 0] ij by simp
    consider (int) "slice data i (Suc i) = ''i''"
      | (kids) "slice data i (Suc i) \<noteq> ''i''" "slice data i (Suc i) = ''l'' \<or> slice data i (Suc i) = ''d''"
      | (str) "slice data i (Suc i) \<noteq> ''i''" "\<not> (slice data i (Suc i) = ''l'' \<or> slice data i (Suc i) = ''d'')"
      by blast
    then show ?thesis
    proof cases
      case int
      with s ij obtain e where e: "find_from data (CHR ''e'') (Suc i) = Some e"
        and b: "is_bencode_int (slice data (Suc i) e)" and j: "j = Suc e"
        by (auto split: option.splits if_splits)
      obtain d where d: "e = i + Suc d"
        using find_from_ge [OF e] less_iff_Suc_add [of i e] by (auto simp: Suc_le_eq)
      have "find_from data' (CHR ''e'') (Suc i') = Some (i' + Suc d)"
        using same_run_find [OF r, of "CHR ''e''" 1 "Suc d"] e d j by simp
      moreover have "slice data (Suc i) e = slice data' (Suc i') (i' + Suc d)"
        using same_run_slice [OF r, of 1 "Suc d"] d j by simp
      ultimately show ?thesis using i' ch int b d j by simp
    next
      case kids
      with s ij have k: "skip_children f data (slice data i (Suc i) = ''d'') (Suc i) = Inr j"
        by (auto split: if_splits)
      have "same_run (j - Suc i) data (Suc i) data' (Suc i')"
        using sub [OF r, of "Suc i"] ij by simp
      from c [OF k this] kids i' ch ij show ?thesis by (auto simp: Let_def)
    next
      case str
      with s ij obtain st where b: "byte_string_span data i = Inr (st, j)"
        and dg: "isdigit (slice data i (Suc i))"
        by (auto simp: res_simps Let_def split: if_splits)
      from byte_string_span_local [OF b r] str dg i' ch show ?thesis by (simp add: Let_def)
    qed
  qed
  moreover have "skip_children (Suc f) data' d i' = Inr (i' + (j - i))"
    if s: "skip_children (Suc f) data d i = Inr j" and r: "same_run (j - i) data i data' i'"
    for d i j i'
  proof -
    have ij: "i < j" "j \<le> length data" using s skip_progress_all by blast+
    have i': "i' < length data'" using r ij by (auto simp: same_run_def)
    have ch: "slice data' i' (Suc i') = slice data i (Suc i)"
      using same_run_ch [OF r, of 0] ij by simp
    consider (stop) "slice data i (Suc i) = ''e''"
      | (dict) "slice data i (Suc i) \<noteq> ''e''" d | (list) "slice data i (Suc i) \<noteq> ''e''" "\<not> d"
      by blast
    then show ?thesis
    proof cases
      case stop
      with s ij i' ch show ?thesis by auto
    next
      case dict
      with s ij obtain j1 j2 where dg: "isdigit (slice data i (Suc i))"
        and 1: "skip_value f data i = Inr j1" and 2: "skip_value f data j1 = Inr j2"
        and 3: "skip_children f data d j2 = Inr j"
        by (auto simp: res_simps split: if_splits)
      have o: "i < j1" "j1 < j2" "j2 < j" using pv [OF 1] pv [OF 2] pc [OF 3] by auto
      have a: "skip_value f data' i' = Inr (i' + (j1 - i))"
        by (rule v [OF 1 init [OF r]]) (use o in simp_all)
      have r1: "same_run (j - j1) data j1 data' (i' + (j1 - i))"
        by (rule sub [OF r]) (use o in simp_all)
      have b: "skip_value f data' (i' + (j1 - i)) = Inr (i' + (j1 - i) + (j2 - j1))"
        by (rule v [OF 2 init [OF r1]]) (use o in simp_all)
      have r2: "same_run (j - j2) data j2 data' (i' + (j1 - i) + (j2 - j1))"
        by (rule sub [OF r1]) (use o in simp_all)
      from a b c [OF 3 r2] dict dg i' ch o show ?thesis by simp
    next
      case list
      with s ij obtain j1 where 1: "skip_value f data i = Inr j1"
        and 3: "skip_children f data d j1 = Inr j"
        by (auto simp: res_simps split: if_splits)
      have o: "i < j1" "j1 < j" using pv [OF 1] pc [OF 3] by auto
      have a: "skip_value f data' i' = Inr (i' + (j1 - i))"
        by (rule v [OF 1 init [OF r]]) (use o in simp_all)
      have r1: "same_run (j - j1) data j1 data' (i' + (j1 - i))"
        by (rule sub [OF r]) (use o in simp_all)
      from a c [OF 3 r1] list i' ch o show ?thesis by simp
    qed
  qed
  ultimately show ?case by blast
qed auto

lemma skip_value_local:
  "skip_value f data i = Inr j \<Longrightarrow> same_run (j - i) data i data' i' \<Longrightarrow>
     skip_value f data' i' = Inr (i' + (j - i))"
  using skip_local_all by blast

text \<open>A byte string that is one complete value, as the walk accepts it.\<close>

definition raw_value :: "bytes \<Rightarrow> bool" where
  "raw_value v \<longleftrightarrow> skip_value (walk_fuel v) v 0 = Inr (length v)"

lemma raw_value_slice:
  assumes "skip_value f data i = Inr j"
  shows "raw_value (slice data i j)"
proof -
  have ij: "i < j" "j \<le> length data" using skip_value_progress [OF assms] by auto
  have "same_run (j - i) data i (slice data i j) 0"
    using ij by (simp add: same_run_def slice_def)
  from skip_value_local [OF assms this]
  have "skip_value f (slice data i j) 0 = Inr (length (slice data i j))"
    using ij by (simp add: length_slice min_def)
  then show ?thesis unfolding raw_value_def by (rule skip_value_any_fuel)
qed

lemma raw_value_at:
  assumes "raw_value v"
  shows "skip_value (walk_fuel (pre @ v @ post)) (pre @ v @ post) (length pre)
    = Inr (length pre + length v)"
proof -
  have "same_run (length v - 0) v 0 (pre @ v @ post) (length pre)"
    by (simp add: same_run_def)
  from skip_value_local [OF assms [unfolded raw_value_def] this] show ?thesis
    by (intro skip_value_any_fuel) simp
qed

lemma raw_value_nonempty: "raw_value v \<Longrightarrow> v \<noteq> []"
  unfolding raw_value_def by (auto dest: skip_value_progress)

subsection \<open>Canonical byte strings\<close>

abbreviation kenc :: "bytes \<Rightarrow> bytes" where
  "kenc b \<equiv> dec_nat (length b) @ '':'' @ b"

abbreviation short_len :: "bytes \<Rightarrow> bool" where
  "short_len b \<equiv> length (dec_nat (length b)) \<le> int_max_str_digits"

lemma byte_string_span_kenc:
  assumes "short_len b"
  shows "byte_string_span (pre @ kenc b @ post) (length pre)
    = Inr (length pre + Suc (length (dec_nat (length b))), length pre + length (kenc b))"
proof -
  let ?n = "dec_nat (length b)" and ?d = "pre @ kenc b @ post"
  have find: "find_from ?d (CHR '':'') (length pre) = Some (length pre + length ?n)"
    using find_from_at [OF digits_not_in [OF dec_nat_digits], of "CHR '':''" pre "length b" "b @ post"]
    by simp
  have sl: "slice ?d (length pre) (length pre + length ?n) = ?n"
    using slice_append_mid [of pre ?n] by simp
  have "\<not> (1 < length ?n \<and> take 1 ?n = ''0'')"
    using dec_nat_no_leading_zero [of "length b"] by (cases ?n) auto
  with find sl assms show ?thesis
    by (simp add: byte_string_span_def Let_def py_int_digits)
qed

lemma isdigit_kenc: "isdigit (slice (pre @ kenc b @ post) (length pre) (Suc (length pre)))"
proof -
  obtain c cs where n: "dec_nat (length b) = c # cs" by (cases "dec_nat (length b)") auto
  moreover have "is_digit c" using dec_nat_digits [of "length b"] n by simp
  ultimately show ?thesis using slice_at [of pre c] by (simp add: isdigit_def)
qed

lemma kenc_not_e: "slice (pre @ kenc b @ post) (length pre) (Suc (length pre)) \<noteq> ''e''"
  using isdigit_kenc [of pre b post] by (auto simp: isdigit_def)

lemma read_byte_string_kenc:
  assumes "short_len b"
  shows "read_byte_string (pre @ kenc b @ post) (length pre) = Inr (b, length pre + length (kenc b))"
proof -
  have "slice (pre @ kenc b @ post) (length pre + Suc (length (dec_nat (length b))))
      (length pre + length (kenc b)) = b"
    using slice_append_mid [of "pre @ dec_nat (length b) @ '':''" b post] by (simp add: add.assoc)
  with isdigit_kenc [of pre b post] byte_string_span_kenc [OF assms, of pre post] show ?thesis
    by (simp add: read_byte_string_def)
qed

lemma raw_value_kenc:
  assumes "short_len b"
  shows "raw_value (kenc b)"
proof -
  let ?c = "slice (kenc b) 0 (Suc 0)"
  have "isdigit ?c" using isdigit_kenc [of "[]" b "[]"] by simp
  moreover from this have "?c \<noteq> ''i''" "?c \<noteq> ''l''" "?c \<noteq> ''d''" by (auto simp: isdigit_def)
  moreover have "byte_string_span (kenc b) 0 = Inr (Suc (length (dec_nat (length b))), length (kenc b))"
    using byte_string_span_kenc [OF assms, of "[]" "[]"] by simp
  ultimately have "skip_value (Suc 0) (kenc b) 0 = Inr (length (kenc b))"
    by (simp add: Let_def)
  then show ?thesis unfolding raw_value_def by (rule skip_value_any_fuel)
qed

lemma dec_nat_dec_val:
  "s \<noteq> [] \<Longrightarrow> list_all is_digit s \<Longrightarrow> (1 < length s \<Longrightarrow> hd s \<noteq> CHR ''0'') \<Longrightarrow> dec_nat (dec_val s) = s"
proof (induction s rule: rev_induct)
  case (snoc c t)
  have dc: "digit_val c < 10" and cc: "digit_char (digit_val c) = c"
    using snoc.prems(2) by (auto simp: digit_val_def digit_char_def is_digit_def)
  show ?case
  proof (cases "t = []")
    case True
    then show ?thesis using dc cc by (simp add: dec_val_def dec_nat.simps)
  next
    case False
    with snoc.prems have h: "hd t \<noteq> CHR ''0''" and t: "dec_nat (dec_val t) = t"
      using snoc.IH by auto
    have "dec_val t \<noteq> 0"
    proof
      assume "dec_val t = 0"
      with t have "t = [digit_char 0]" by (simp add: dec_nat.simps)
      with h show False by (simp add: digit_char_0)
    qed
    then show ?thesis using dc cc t by (subst dec_nat.simps) (simp add: dec_val_append)
  qed
qed simp

lemma read_byte_string_short:
  assumes "read_byte_string data i = Inr (key, stop)"
  shows "short_len key"
proof -
  from assms obtain colon n where lb: "isdigit (slice data i colon)"
    and nz: "\<not> (1 < length (slice data i colon) \<and> take 1 (slice data i colon) = ''0'')"
    and n: "py_int (slice data i colon) = Inr n"
    and st: "stop = Suc colon + nat n" "stop \<le> length data" "key = slice data (Suc colon) stop"
    by (auto simp: read_byte_string_def byte_string_span_def Let_def res_simps
        split: option.splits if_splits)
  let ?s = "slice data i colon"
  from lb n have v: "nat n = dec_val ?s" and l: "length ?s \<le> int_max_str_digits"
    by (auto simp: py_int_digits split: if_splits)
  have "dec_nat (dec_val ?s) = ?s"
    by (rule dec_nat_dec_val) (use lb nz in \<open>cases ?s; auto simp: isdigit_def\<close>)+
  moreover have "length key = dec_val ?s" using st v by (simp add: length_slice min_def)
  ultimately show ?thesis using l by simp
qed

section \<open>Scanning what the rewriter emits\<close>

text \<open>The members in the order they are written, with the spans a scan finds for them.\<close>

fun layout :: "nat \<Rightarrow> (bytes \<times> bytes) list \<Rightarrow> spans" where
  "layout pos [] = []"
| "layout pos ((k, v) # ms) =
     (k, (pos + length (kenc k), pos + length (kenc k) + length v))
       # layout (pos + length (kenc k) + length v) ms"

fun members :: "(bytes \<times> bytes) list \<Rightarrow> bytes" where
  "members [] = []"
| "members ((k, v) # ms) = kenc k @ v @ members ms"

lemma dkeys_layout [simp]: "dkeys (layout pos ms) = map fst ms"
  by (induction pos ms rule: layout.induct) auto

lemma scan_members_step:
  assumes "i < length data" and "slice data i (Suc i) \<noteq> ''e''"
    and "read_byte_string data i = Inr (k, vs)" and "skip_value (walk_fuel data) data vs = Inr ve"
    and "dget spans k = None"
  shows "scan_members (Suc f) data i spans = scan_members f data ve (spans @ [(k, (vs, ve))])"
  using assms by simp

lemma scan_members_SucE:
  assumes "scan_members (Suc f) data i spans = Inr r"
  obtains (stop) "slice data i (Suc i) = ''e''" "r = (spans, Suc i)"
  | (member) key vs ve where "read_byte_string data i = Inr (key, vs)"
      "skip_value (walk_fuel data) data vs = Inr ve"
      "scan_members f data ve
         (if dget spans key = None then spans @ [(key, (vs, ve))] else spans) = Inr r"
  using assms by (auto simp: res_simps split: if_splits)

lemma scan_members_layout:
  assumes "\<forall>(k, v) \<in> set ms. short_len k \<and> raw_value v"
    and "distinct (map fst (spans @ layout (length pre) ms))"
    and "length ms < f"
  shows "scan_members f (pre @ members ms @ ''e'' @ post) (length pre) spans
    = Inr (spans @ layout (length pre) ms, length pre + Suc (length (members ms)))"
  using assms
proof (induction ms arbitrary: f pre spans)
  case Nil
  then obtain f' where "f = Suc f'" by (cases f) auto
  then show ?case by (simp add: slice_at)
next
  case (Cons m ms)
  obtain k v where m: "m = (k, v)" by force
  from Cons.prems obtain f' where f: "f = Suc f'" by (cases f) auto
  from Cons.prems(1) m have k: "short_len k" and v: "raw_value v" by auto
  let ?rest = "members ms @ ''e'' @ post"
  let ?d = "pre @ kenc k @ v @ ?rest"
  have d: "pre @ members (m # ms) @ ''e'' @ post = ?d" by (simp add: m)
  have rd: "read_byte_string ?d (length pre) = Inr (k, length pre + length (kenc k))"
    using read_byte_string_kenc [OF k, of pre "v @ ?rest"] by simp
  have sk: "skip_value (walk_fuel ?d) ?d (length pre + length (kenc k))
      = Inr (length pre + length (kenc k) + length v)"
    using raw_value_at [OF v, of "pre @ kenc k" ?rest] by simp
  have ne: "slice ?d (length pre) (Suc (length pre)) \<noteq> ''e''"
    using kenc_not_e [of pre k "v @ ?rest"] by simp
  have new: "dget spans k = None"
    using Cons.prems(2) m by (auto simp: dget_None_iff)
  let ?pre = "pre @ kenc k @ v"
  let ?span = "(length pre + length (kenc k), length pre + length (kenc k) + length v)"
  have ih: "scan_members f' (?pre @ ?rest) (length ?pre) (spans @ [(k, ?span)])
      = Inr ((spans @ [(k, ?span)]) @ layout (length ?pre) ms,
             length ?pre + Suc (length (members ms)))"
    by (rule Cons.IH) (use Cons.prems m f in \<open>auto simp: add.assoc\<close>)
  have "scan_members f ?d (length pre) spans
      = scan_members f' ?d (length pre + length (kenc k) + length v) (spans @ [(k, ?span)])"
    unfolding f by (rule scan_members_step [OF _ ne rd sk new]) simp
  with ih show ?case unfolding d by (simp add: m add.assoc)
qed

lemma layout_slices:
  "(k, (a, b)) \<in> set (layout (length pre) ms) \<Longrightarrow>
     \<exists>v. (k, v) \<in> set ms \<and> slice (pre @ members ms @ post) a b = v"
proof (induction ms arbitrary: pre)
  case (Cons m ms)
  obtain k' v' where m: "m = (k', v')" by force
  from Cons.prems m consider
      "k = k'" "a = length pre + length (kenc k')" "b = a + length v'"
    | "(k, (a, b)) \<in> set (layout (length (pre @ kenc k' @ v')) ms)"
    by (auto simp: add.assoc)
  then show ?case
  proof cases
    case 1
    then have "slice (pre @ members (m # ms) @ post) a b = v'"
      using slice_append_mid [of "pre @ kenc k'" v' "members ms @ post"] by (simp add: m)
    with 1 m show ?thesis by auto
  next
    case 2
    from Cons.IH [OF this] show ?thesis by (auto simp: m)
  qed
qed simp

lemma scan_top_level_members:
  assumes "\<forall>(k, v) \<in> set ms. short_len k \<and> raw_value v" and "distinct (map fst ms)"
  shows "scan_top_level (''d'' @ members ms @ ''e'') = Inr (layout 1 ms)"
proof -
  let ?d = "''d'' @ members ms @ ''e''"
  have "length ms \<le> length (members ms)"
    by (induction ms) (auto simp: less_eq_Suc_le [symmetric] intro: le_SucI trans_le_add2)
  then have "length ms < walk_fuel ?d" by (simp add: walk_fuel_def)
  with assms have "scan_members (walk_fuel ?d) (''d'' @ members ms @ ''e'' @ []) (length ''d'') []
      = Inr ([] @ layout (length ''d'') ms, length ''d'' + Suc (length (members ms)))"
    by (intro scan_members_layout) simp_all
  then show ?thesis by (simp add: scan_top_level_def slice_def)
qed

text \<open>What a scan establishes of its input.\<close>

lemma scan_members_sound:
  assumes "scan_members f data i spans = Inr (spans', j)" and "dwf spans"
    and "\<forall>(k, (a, b)) \<in> set spans. short_len k \<and> raw_value (slice data a b)"
  shows "dwf spans' \<and> (\<forall>(k, (a, b)) \<in> set spans'. short_len k \<and> raw_value (slice data a b))"
  using assms
proof (induction f arbitrary: i spans)
  case (Suc f)
  from Suc.prems(1) show ?case
  proof (cases rule: scan_members_SucE)
    case stop
    with Suc.prems show ?thesis by simp
  next
    case (member key vs ve)
    let ?s = "if dget spans key = None then spans @ [(key, (vs, ve))] else spans"
    have "dwf ?s" using Suc.prems(2) by (auto simp: dwf_def dget_None_iff)
    moreover have "\<forall>(k, (a, b)) \<in> set ?s. short_len k \<and> raw_value (slice data a b)"
      using Suc.prems(3) read_byte_string_short [OF member(1)] raw_value_slice [OF member(2)] by auto
    ultimately show ?thesis by (rule Suc.IH [OF member(3)])
  qed
qed simp

lemma scan_top_level_sound:
  assumes "scan_top_level data = Inr spans"
  shows "dwf spans" and "\<forall>(k, (a, b)) \<in> set spans. short_len k \<and> raw_value (slice data a b)"
proof -
  from assms obtain j where "scan_members (walk_fuel data) data 1 [] = Inr (spans, j)"
    by (auto simp: scan_top_level_def res_simps split: if_splits)
  from scan_members_sound [OF this] show "dwf spans"
    and "\<forall>(k, (a, b)) \<in> set spans. short_len k \<and> raw_value (slice data a b)" by auto
qed

section \<open>The rewriter\<close>

definition output_members :: "bytes \<Rightarrow> bytes \<Rightarrow> spans \<Rightarrow> (bytes \<times> bytes) list" where
  "output_members data url spans =
     map (\<lambda>k. (k, if k = ''announce'' then kenc url
                  else case dget spans k of Some (a, b) \<Rightarrow> slice data a b | None \<Rightarrow> []))
         (sort (filter (\<lambda>k. k \<noteq> ''announce-list'') (dkeys spans)))"

lemma dkeys_retained:
  "dkeys (retained_values data url spans) = filter (\<lambda>k. k \<noteq> ''announce-list'') (dkeys spans)"
  by (induction spans) (auto simp: retained_values_def)

lemma dget_retained:
  "k \<noteq> ''announce-list'' \<Longrightarrow> k \<noteq> ''announce'' \<Longrightarrow>
     dget (retained_values data url spans) k = map_option (\<lambda>(a, b). slice data a b) (dget spans k)"
  by (induction spans) (auto simp: retained_values_def)

lemma emit_members:
  assumes "\<forall>k \<in> set ks. k \<in> set (dkeys spans) \<and> k \<noteq> ''announce-list'' \<and> short_len k"
    and "short_len url"
  shows "rmap (emit_member (retained_values data url spans) url) ks
    = Inr (map (\<lambda>k. kenc k @ (if k = ''announce'' then kenc url
             else case dget spans k of Some (a, b) \<Rightarrow> slice data a b | None \<Rightarrow> [])) ks)"
  using assms(1)
proof (induction ks)
  case (Cons k ks)
  then have k: "enc_bytes k = Inr (kenc k)" and kin: "k \<in> set (dkeys spans)"
    and na: "k \<noteq> ''announce-list''" by (auto simp: enc_bytes_Inr)
  obtain a b where "dget spans k = Some (a, b)"
    using kin dget_None_iff [of spans k] by (cases "dget spans k") auto
  with k na assms(2) have "emit_member (retained_values data url spans) url k
      = Inr (kenc k @ (if k = ''announce'' then kenc url
             else case dget spans k of Some (a, b) \<Rightarrow> slice data a b | None \<Rightarrow> []))"
    by (simp add: emit_member_def dget_retained enc_bytes_Inr [THEN iffD2])
  with Cons show ?case by simp
qed simp

lemma members_concat: "concat (map (\<lambda>k. kenc k @ g k) ks) = members (map (\<lambda>k. (k, g k)) ks)"
  by (induction ks) auto

lemma output_members_sound:
  assumes "scan_top_level data = Inr spans" and "short_len url"
  shows "scan_top_level (''d'' @ members (output_members data url spans) @ ''e'')
    = Inr (layout 1 (output_members data url spans))"
proof (rule scan_top_level_members)
  from scan_top_level_sound(1) [OF assms(1)]
  show "distinct (map fst (output_members data url spans))"
    by (simp add: output_members_def comp_def dwf_def)
  show "\<forall>(k, v) \<in> set (output_members data url spans). short_len k \<and> raw_value v"
  proof (clarify)
    fix k v assume kv: "(k, v) \<in> set (output_members data url spans)"
    then have "k \<in> set (dkeys spans)" by (auto simp: output_members_def)
    then obtain a b where ab: "dget spans k = Some (a, b)"
      using dget_None_iff [of spans k] by (cases "dget spans k") auto
    then have "(k, (a, b)) \<in> set spans" by (rule map_of_SomeD)
    with scan_top_level_sound(2) [OF assms(1)] have "short_len k" "raw_value (slice data a b)" by auto
    moreover have "raw_value (kenc url)" by (rule raw_value_kenc [OF assms(2)])
    ultimately show "short_len k \<and> raw_value v"
      using kv ab by (auto simp: output_members_def split: if_splits)
  qed
qed

lemma output_span:
  assumes "dget (layout 1 (output_members data url spans)) k = Some (a, b)"
  shows "slice (''d'' @ members (output_members data url spans) @ ''e'') a b
    = (if k = ''announce'' then kenc url
       else case dget spans k of Some (a, b) \<Rightarrow> slice data a b | None \<Rightarrow> [])"
proof -
  from map_of_SomeD [OF assms]
  have "(k, (a, b)) \<in> set (layout (length ''d'') (output_members data url spans))" by simp
  from layout_slices [OF this, of "''e''"] show ?thesis
    by (auto simp: output_members_def split: if_splits)
qed

lemma personalize_output:
  assumes scan: "scan_top_level data = Inr spans" and url: "url_bytes announce_url = Inr url"
    and short: "short_len url"
    and info: "dget spans ''info'' = Some (s, e)" and ann: "dget spans ''announce'' \<noteq> None"
  shows "personalize sha1 data announce_url
    = Inr (''d'' @ members (output_members data url spans) @ ''e'')"
proof -
  let ?ms = "output_members data url spans"
  let ?keys = "filter (\<lambda>k. k \<noteq> ''announce-list'') (dkeys spans)"
  have keys: "\<forall>k \<in> set (sort ?keys). k \<in> set (dkeys spans) \<and> k \<noteq> ''announce-list'' \<and> short_len k"
    using scan_top_level_sound(2) [OF scan] by auto
  have emit: "rmap (emit_member (retained_values data url spans) url)
      (sort (dkeys (retained_values data url spans))) = Inr (map (\<lambda>(k, v). kenc k @ v) ?ms)"
    using emit_members [OF keys short] by (simp add: dkeys_retained output_members_def comp_def)
  have cat: "concat (map (\<lambda>(k, v). kenc k @ v) ?ms) = members ?ms"
    by (simp add: output_members_def members_concat [symmetric] comp_def)
  have dk: "set (dkeys (layout 1 ?ms)) = set ?keys"
    by (simp add: output_members_def comp_def)
  have in_keys: "''info'' \<in> set ?keys" "''announce'' \<in> set ?keys"
    using info ann dget_None_iff [of spans "''info''"] dget_None_iff [of spans "''announce''"] by auto
  obtain a b where ab: "dget (layout 1 ?ms) ''info'' = Some (a, b)"
    using in_keys(1) dk dget_None_iff [of "layout 1 ?ms" "''info''"]
    by (cases "dget (layout 1 ?ms) ''info''") auto
  have "dget (layout 1 ?ms) ''announce-list'' = None" "dget (layout 1 ?ms) ''announce'' \<noteq> None"
    using dk in_keys(2) by (simp_all add: dget_None_iff)
  with ab output_span [OF ab] info output_members_sound [OF scan short]
  have "check_output sha1 (sha1 (slice data s e)) (''d'' @ members ?ms @ ''e'')
      = Inr (''d'' @ members ?ms @ ''e'')"
    by (simp add: check_output_def)
  with scan url info ann emit cat show ?thesis
    by (simp add: personalize_def Let_def)
qed

section \<open>Properties\<close>

text \<open>
  C3. Personalising a torrent always succeeds on a well-scanned torrent with an \<^verbatim>\<open>info\<close> and an
  \<^verbatim>\<open>announce\<close> member (the self-checks at the end never fire), and the result scans to the same members
  in ascending key order without \<^verbatim>\<open>announce-list\<close>: the announce value is exactly the encoded new URL,
  and every other value, \<^verbatim>\<open>info\<close> included, is the original byte run.
\<close>

theorem personalize_preserves_members:
  assumes "scan_top_level data = Inr spans" and "dget spans ''info'' \<noteq> None"
    and "dget spans ''announce'' \<noteq> None"
    and "url_bytes announce_url = Inr url" and "enc_bytes url = Inr encoded_url"
  shows "\<exists>out out_spans. personalize sha1 data announce_url = Inr out
    \<and> scan_top_level out = Inr out_spans
    \<and> dkeys out_spans = sort (filter (\<lambda>k. k \<noteq> ''announce-list'') (dkeys spans))
    \<and> (\<forall>a b. dget out_spans ''announce'' = Some (a, b) \<longrightarrow> slice out a b = encoded_url)
    \<and> (\<forall>k a b a' b'. k \<noteq> ''announce'' \<longrightarrow> dget spans k = Some (a, b) \<longrightarrow>
         dget out_spans k = Some (a', b') \<longrightarrow> slice out a' b' = slice data a b)"
proof -
  let ?ms = "output_members data url spans"
  let ?out = "''d'' @ members ?ms @ ''e''"
  obtain s e where info: "dget spans ''info'' = Some (s, e)" using assms(2) by auto
  from assms(5) have short: "short_len url" and eu: "encoded_url = kenc url"
    by (auto simp: enc_bytes_Inr)
  have "personalize sha1 data announce_url = Inr ?out"
    by (rule personalize_output [OF assms(1,4) short info assms(3)])
  moreover have "scan_top_level ?out = Inr (layout 1 ?ms)"
    by (rule output_members_sound [OF assms(1) short])
  moreover have "dkeys (layout 1 ?ms) = sort (filter (\<lambda>k. k \<noteq> ''announce-list'') (dkeys spans))"
    by (simp add: output_members_def comp_def)
  moreover have "\<forall>a b. dget (layout 1 ?ms) ''announce'' = Some (a, b) \<longrightarrow> slice ?out a b = encoded_url"
    using output_span [of data url spans "''announce''"] eu by auto
  moreover have "\<forall>k a b a' b'. k \<noteq> ''announce'' \<longrightarrow> dget spans k = Some (a, b) \<longrightarrow>
      dget (layout 1 ?ms) k = Some (a', b') \<longrightarrow> slice ?out a' b' = slice data a b"
    using output_span [of data url spans] by auto
  ultimately show ?thesis by blast
qed

theorem personalize_preserves_members_witness:
  "\<exists>out out_spans. personalize id ''d8:announce1:x4:infod1:ai0eee'' (UrlStr [117]) = Inr out
    \<and> scan_top_level out = Inr out_spans
    \<and> dkeys out_spans = [''announce'', ''info'']
    \<and> (\<forall>a b. dget out_spans ''announce'' = Some (a, b) \<longrightarrow> slice out a b = ''1:u'')
    \<and> (\<forall>k a b a' b'. k \<noteq> ''announce'' \<longrightarrow>
         dget [(''announce'', (11, 14)), (''info'', (20, 28))] k = Some (a, b) \<longrightarrow>
         dget out_spans k = Some (a', b') \<longrightarrow>
         slice out a' b' = slice ''d8:announce1:x4:infod1:ai0eee'' a b)"
proof -
  let ?d = "''d8:announce1:x4:infod1:ai0eee''"
  let ?s = "[(''announce'', (11, 14)), (''info'', (20, 28))]"
  have 1: "scan_top_level ?d = Inr ?s" by code_simp
  have 2: "dget ?s ''info'' \<noteq> None" "dget ?s ''announce'' \<noteq> None" by simp_all
  have 3: "url_bytes (UrlStr [117]) = Inr ''u''" "enc_bytes ''u'' = Inr ''1:u''" by code_simp+
  have 4: "sort (filter (\<lambda>k. k \<noteq> ''announce-list'') (dkeys ?s)) = [''announce'', ''info'']"
    by code_simp
  show ?thesis
    using personalize_preserves_members [OF 1 2 3, of id] unfolding 4 .
qed

end
