(* ===== verification/Peer_Registry.thy ===== *)
theory Peer_Registry
  imports Prelude
begin

text \<open>
  \<^verbatim>\<open>server/peer_registry.py\<close>: swarm membership with its selection indexes.  A registry method is a
  function from the registry state to the new state, the telemetry events it fires after releasing
  the lock, and its result; the lock makes each method one atomic step.

  Times are integers (the code compares and subtracts them only).  Python dictionaries whose
  iteration order is observable are association lists; the outer dictionaries keyed by info-hash are
  maps.  Writing at an index stored in a position table is a list update; the invariant \<open>reg_inv\<close>
  states that every stored index is in range, so no update is ever out of range.  The random start
  of a selection is drawn by a function argument (\<^verbatim>\<open>secrets.randbelow\<close>).
\<close>

section \<open>Data\<close>

definition default_principal :: principal where
  "default_principal = \<lparr>ptype = ''legacy'', pid = []\<rparr>"

type_synonym info_hash = string
type_synonym peer_key = "string \<times> string \<times> string"
type_synonym slots = "peer_key option list"

definition INTERVAL :: int where "INTERVAL = 30"
definition NUMWANT_CAP :: int where "NUMWANT_CAP = 200"
definition DOWNLOADED_TTL :: int where "DOWNLOADED_TTL = 24 * 60 * 60"
definition MAX_DOWNLOADED_SWARMS :: nat where "MAX_DOWNLOADED_SWARMS = 10000"

definition participant_class :: "principal \<Rightarrow> string" where
  "participant_class p =
     (if ptype p = ''device'' then ''device''
      else if ptype p = ''service'' then ''seeder''
      else ''legacy_unattributed'')"

definition public_principal_id :: "principal \<Rightarrow> string option" where
  "public_principal_id p = (if ptype p = ''legacy'' \<and> pid p = [] then None else Some (pid p))"

record row =
  row_ip :: string
  row_port :: int
  row_last_seen :: int
  row_left :: "int option"
  row_joined_at :: int
  row_completed_at :: "int option"
  row_peer_id :: string
  row_principal :: principal
  row_interval :: int
  row_uploaded_delta :: int
  row_downloaded_delta :: int
  row_counter_reset :: bool
  row_legacy_restricted :: bool

record completion =
  c_count :: nat
  c_last_seen :: int

record counter =
  ctr_peer_id :: string
  ctr_uploaded :: "int option"
  ctr_downloaded :: "int option"
  ctr_last_seen :: int

text \<open>
  \<^verbatim>\<open>CompiledRoles\<close>: one immutable generation of the compiled role map; \<open>generation\<close> is the object
  identity the code compares with \<^verbatim>\<open>is\<close>.
\<close>

record compiled_roles =
  generation :: nat
  role_of :: "string \<rightharpoonup> string"

record role_index =
  ri_compiled :: compiled_roles
  ri_orders :: "(string, slots) dict"
  ri_positions :: "(peer_key, string \<times> nat) dict"
  ri_tombstones :: "(string, nat) dict"

record registry =
  reg_interval :: int
  read_prune_interval :: int
  swarms :: "(info_hash, (peer_key, row) dict) dict"
  orders :: "info_hash \<rightharpoonup> slots"
  positions :: "info_hash \<rightharpoonup> (peer_key, nat) dict"
  principal_keys :: "info_hash \<rightharpoonup> (string \<times> string, peer_key list) dict"
  ip_keys :: "info_hash \<rightharpoonup> (string, peer_key list) dict"
  type_orders :: "info_hash \<rightharpoonup> (string, slots) dict"
  type_positions :: "info_hash \<rightharpoonup> (string, (peer_key, nat) dict) dict"
  type_tombstones :: "info_hash \<rightharpoonup> (string, nat) dict"
  tombstones :: "info_hash \<rightharpoonup> nat"
  role_indexes :: "info_hash \<rightharpoonup> role_index"
  role_index_builds :: nat
  downloaded :: "(info_hash, completion) dict"
  transfer_counters :: "(info_hash \<times> string \<times> string) \<rightharpoonup> counter"
  last_read_prune :: "int option"

record event =
  ev_name :: string
  ev_info_hash :: info_hash
  ev_peer_id :: string
  ev_ip :: string
  ev_port :: int
  ev_left :: "int option"
  ev_now :: int
  ev_principal :: principal

text \<open>\<^verbatim>\<open>PeerRegistry.__init__\<close>\<close>

definition new_registry :: "int \<Rightarrow> int \<Rightarrow> registry" where
  "new_registry interval rpi =
     \<lparr>reg_interval = interval, read_prune_interval = max 0 rpi, swarms = [],
      orders = Map.empty, positions = Map.empty, principal_keys = Map.empty, ip_keys = Map.empty,
      type_orders = Map.empty, type_positions = Map.empty, type_tombstones = Map.empty,
      tombstones = Map.empty, role_indexes = Map.empty, role_index_builds = 0,
      downloaded = [], transfer_counters = Map.empty, last_read_prune = None\<rparr>"

text \<open>\<^verbatim>\<open>d.get(k, default)\<close> on a map or a dictionary.\<close>

definition or_else :: "'a option \<Rightarrow> 'a \<Rightarrow> 'a" where
  "or_else m d = (case m of Some x \<Rightarrow> x | None \<Rightarrow> d)"

lemma or_else_simps [simp]: "or_else None d = d" "or_else (Some x) d = x"
  by (simp_all add: or_else_def)

definition key_add :: "'a \<Rightarrow> 'a list \<Rightarrow> 'a list" where
  \<comment> \<open>\<^verbatim>\<open>members[key] = None\<close> on a dict used as an ordered set\<close>
  "key_add k ks = (if k \<in> set ks then ks else ks @ [k])"

definition key_drop :: "'a \<Rightarrow> 'a list \<Rightarrow> 'a list" where
  \<comment> \<open>\<^verbatim>\<open>members.pop(key, None)\<close>\<close>
  "key_drop k ks = filter (\<lambda>x. x \<noteq> k) ks"

fun live :: "'k option list \<Rightarrow> 'k list" where
  \<comment> \<open>\<^verbatim>\<open>[key for key in order if key is not None]\<close>\<close>
  "live [] = []"
| "live (None # s) = live s"
| "live (Some k # s) = k # live s"

section \<open>Index maintenance\<close>

definition role_index_add :: "info_hash \<Rightarrow> peer_key \<Rightarrow> row \<Rightarrow> registry \<Rightarrow> registry" where
  "role_index_add h key r st =
     (case role_indexes st h of
        None \<Rightarrow> st
      | Some ri \<Rightarrow>
          if ptype (row_principal r) \<noteq> ''device'' then st
          else (case role_of (ri_compiled ri) (pid (row_principal r)) of
              None \<Rightarrow> st
            | Some role \<Rightarrow>
                let order = or_else (dget (ri_orders ri) role) []
                in st\<lparr>role_indexes := (role_indexes st)(h \<mapsto>
                     ri\<lparr>ri_orders := dset role (order @ [Some key]) (ri_orders ri),
                        ri_positions := dset key (role, length order) (ri_positions ri)\<rparr>)\<rparr>))"

definition role_index_remove :: "info_hash \<Rightarrow> peer_key \<Rightarrow> registry \<Rightarrow> registry" where
  "role_index_remove h key st =
     (case role_indexes st h of
        None \<Rightarrow> st
      | Some ri \<Rightarrow>
          (case dget (ri_positions ri) key of
             None \<Rightarrow> st
           | Some (role, offset) \<Rightarrow>
               st\<lparr>role_indexes := (role_indexes st)(h \<mapsto>
                  ri\<lparr>ri_positions := ddel key (ri_positions ri),
                     ri_orders := dset role ((or_else (dget (ri_orders ri) role) [])[offset := None])
                                       (ri_orders ri),
                     ri_tombstones := dset role (or_else (dget (ri_tombstones ri) role) 0 + 1)
                                           (ri_tombstones ri)\<rparr>)\<rparr>))"

definition index_add :: "info_hash \<Rightarrow> peer_key \<Rightarrow> row \<Rightarrow> registry \<Rightarrow> registry" where
  "index_add h key r st =
     (let order = or_else (orders st h) [];
          pos = or_else (positions st h) [];
          pk = (ptype (row_principal r), pid (row_principal r));
          pkeys = or_else (principal_keys st h) [];
          ikeys = or_else (ip_keys st h) [];
          t = ptype (row_principal r);
          torders = or_else (type_orders st h) [];
          torder = or_else (dget torders t) [];
          tpos = or_else (type_positions st h) []
      in role_index_add h key r
           (st\<lparr>orders := (orders st)(h \<mapsto> order @ [Some key]),
               positions := (positions st)(h \<mapsto> dset key (length order) pos),
               principal_keys := (principal_keys st)(h \<mapsto>
                 dset pk (key_add key (or_else (dget pkeys pk) [])) pkeys),
               ip_keys := (ip_keys st)(h \<mapsto>
                 dset (row_ip r) (key_add key (or_else (dget ikeys (row_ip r)) [])) ikeys),
               type_orders := (type_orders st)(h \<mapsto> dset t (torder @ [Some key]) torders),
               type_positions := (type_positions st)(h \<mapsto>
                 dset t (dset key (length torder) (or_else (dget tpos t) [])) tpos)\<rparr>))"

text \<open>Dropping a key from an ordered-set index and the index entry with it once it is empty.\<close>

definition members_pop :: "'i \<Rightarrow> 'k \<Rightarrow> ('i, 'k list) dict option \<Rightarrow> ('i, 'k list) dict option" where
  "members_pop v key idx =
     (case idx of
        None \<Rightarrow> None
      | Some d \<Rightarrow>
          (case dget d v of
             None \<Rightarrow> Some d
           | Some ms \<Rightarrow>
               let ms' = key_drop key ms
               in if ms' = [] then Some (ddel v d) else Some (dset v ms' d)))"

definition index_remove :: "info_hash \<Rightarrow> peer_key \<Rightarrow> row \<Rightarrow> registry \<Rightarrow> registry" where
  "index_remove h key r st =
     (let st1 = (case dget (or_else (positions st h) []) key of
             None \<Rightarrow> st
           | Some position \<Rightarrow>
               st\<lparr>positions := (positions st)(h \<mapsto> ddel key (or_else (positions st h) [])),
                  orders := (orders st)(h \<mapsto> (or_else (orders st h) [])[position := None]),
                  tombstones := (tombstones st)(h \<mapsto> or_else (tombstones st h) 0 + 1)\<rparr>);
          pk = (ptype (row_principal r), pid (row_principal r));
          st2 = st1\<lparr>principal_keys := (principal_keys st1)(h := members_pop pk key (principal_keys st1 h)),
                    ip_keys := (ip_keys st1)(h := members_pop (row_ip r) key (ip_keys st1 h))\<rparr>;
          t = ptype (row_principal r);
          tp = or_else (type_positions st2 h) [];
          st3 = (case dget (or_else (dget tp t) []) key of
             None \<Rightarrow> st2
           | Some offset \<Rightarrow>
               let torders = or_else (type_orders st2 h) [];
                   tt = or_else (type_tombstones st2 h) []
               in st2\<lparr>type_positions := (type_positions st2)(h \<mapsto>
                        dset t (ddel key (or_else (dget tp t) [])) tp),
                      type_orders := (type_orders st2)(h \<mapsto>
                        dset t ((or_else (dget torders t) [])[offset := None]) torders),
                      type_tombstones := (type_tombstones st2)(h \<mapsto>
                        dset t (or_else (dget tt t) 0 + 1) tt)\<rparr>)
      in role_index_remove h key st3)"

definition index_table :: "'k list \<Rightarrow> ('k, nat) dict" where
  \<comment> \<open>\<^verbatim>\<open>{key: index for index, key in enumerate(compact)}\<close>\<close>
  "index_table ks = foldl (\<lambda>d (i, k). dset k i d) [] (enumerate 0 ks)"

definition compact_order :: "info_hash \<Rightarrow> bool \<Rightarrow> registry \<Rightarrow> registry" where
  "compact_order h force st =
     (let order = or_else (orders st h) [];
          tomb = or_else (tombstones st h) 0
      in if tomb = 0 \<or> (\<not> force \<and> tomb < max 32 (length order div 2)) then st
         else let compact = live order
              in st\<lparr>orders := (orders st)(h \<mapsto> map Some compact),
                    positions := (positions st)(h \<mapsto> index_table compact),
                    tombstones := (tombstones st)(h \<mapsto> 0)\<rparr>)"

definition build_role_index :: "compiled_roles \<Rightarrow> (peer_key, row) dict \<Rightarrow> slots \<Rightarrow> role_index" where
  \<comment> \<open>the loop of \<^verbatim>\<open>_role_index\<close> over the insertion order\<close>
  "build_role_index compiled swarm order =
     foldl (\<lambda>ri slot. case slot of None \<Rightarrow> ri
         | Some key \<Rightarrow> (case dget swarm key of None \<Rightarrow> ri
             | Some r \<Rightarrow>
                 if ptype (row_principal r) \<noteq> ''device'' then ri
                 else (case role_of compiled (pid (row_principal r)) of
                     None \<Rightarrow> ri
                   | Some role \<Rightarrow>
                       let o' = or_else (dget (ri_orders ri) role) []
                       in ri\<lparr>ri_orders := dset role (o' @ [Some key]) (ri_orders ri),
                             ri_positions := dset key (role, length o') (ri_positions ri)\<rparr>)))
       \<lparr>ri_compiled = compiled, ri_orders = [], ri_positions = [], ri_tombstones = []\<rparr> order"

definition get_role_index :: "info_hash \<Rightarrow> compiled_roles \<Rightarrow> registry \<Rightarrow> registry \<times> role_index" where
  "get_role_index h compiled st =
     (case role_indexes st h of
        Some cached \<Rightarrow>
          if generation (ri_compiled cached) = generation compiled then (st, cached)
          else let ri = build_role_index compiled (or_else (dget (swarms st) h) []) (or_else (orders st h) [])
               in (st\<lparr>role_indexes := (role_indexes st)(h \<mapsto> ri),
                      role_index_builds := role_index_builds st + 1\<rparr>, ri)
      | None \<Rightarrow>
          let ri = build_role_index compiled (or_else (dget (swarms st) h) []) (or_else (orders st h) [])
          in (st\<lparr>role_indexes := (role_indexes st)(h \<mapsto> ri),
                 role_index_builds := role_index_builds st + 1\<rparr>, ri))"

definition compact_role :: "role_index \<Rightarrow> string \<Rightarrow> role_index \<times> slots" where
  "compact_role ri role =
     (let order = or_else (dget (ri_orders ri) role) [];
          tomb = or_else (dget (ri_tombstones ri) role) 0
      in if tomb = 0 \<or> tomb < max 32 (length order div 2) then (ri, order)
         else let compact = live order
              in (ri\<lparr>ri_orders := dset role (map Some compact) (ri_orders ri),
                     ri_positions := foldl (\<lambda>d (offset, key). dset key (role, offset) d)
                       (ri_positions ri) (enumerate 0 compact),
                     ri_tombstones := dset role 0 (ri_tombstones ri)\<rparr>, map Some compact))"

definition compact_type :: "info_hash \<Rightarrow> string \<Rightarrow> registry \<Rightarrow> registry \<times> slots" where
  "compact_type h t st =
     (let torders = or_else (type_orders st h) [];
          order = or_else (dget torders t) [];
          tomb = or_else (dget (or_else (type_tombstones st h) []) t) 0
      in if tomb = 0 \<or> tomb < max 32 (length order div 2) then (st, order)
         else let compact = live order
              in (st\<lparr>type_orders := (type_orders st)(h \<mapsto> dset t (map Some compact) torders),
                     type_positions := (type_positions st)(h \<mapsto>
                       dset t (index_table compact) (or_else (type_positions st h) [])),
                     type_tombstones := (type_tombstones st)(h \<mapsto>
                       dset t 0 (or_else (type_tombstones st h) []))\<rparr>, map Some compact))"

section \<open>Membership\<close>

definition swarm_of :: "registry \<Rightarrow> info_hash \<Rightarrow> (peer_key, row) dict" where
  "swarm_of st h = or_else (dget (swarms st) h) []"

definition remove_record :: "info_hash \<Rightarrow> peer_key \<Rightarrow> registry \<Rightarrow> registry \<times> row option" where
  "remove_record h key st =
     (case dget (swarm_of st h) key of
        None \<Rightarrow> (st, None)
      | Some r \<Rightarrow>
          let st1 = index_remove h key r (st\<lparr>swarms := dset h (ddel key (swarm_of st h)) (swarms st)\<rparr>);
              ck = (h, ptype (row_principal r), pid (row_principal r))
          in ((case transfer_counters st1 ck of
                 Some c \<Rightarrow>
                   if ctr_peer_id c = row_peer_id r
                   then st1\<lparr>transfer_counters := (transfer_counters st1)(ck := None)\<rparr> else st1
               | None \<Rightarrow> st1), Some r))"

definition below :: "int option \<Rightarrow> int option \<Rightarrow> bool" where
  "below new old = (case (new, old) of (Some a, Some b) \<Rightarrow> a < b | _ \<Rightarrow> False)"

definition delta :: "int option \<Rightarrow> int option \<Rightarrow> int" where
  "delta new old = (case (new, old) of (Some a, Some b) \<Rightarrow> a - b | _ \<Rightarrow> 0)"

definition counter_delta ::
  "info_hash \<Rightarrow> principal \<Rightarrow> string \<Rightarrow> string option \<Rightarrow> int option \<Rightarrow> int option \<Rightarrow> int \<Rightarrow> registry
     \<Rightarrow> registry \<times> int \<times> int \<times> bool" where
  "counter_delta h p peer_id event uploaded dwn now st =
     (let ck = (h, ptype p, pid p);
          previous = transfer_counters st ck;
          supplied = (uploaded \<noteq> None \<or> dwn \<noteq> None);
          reset = (case previous of
              None \<Rightarrow> False
            | Some c \<Rightarrow> event = Some ''started'' \<or> ctr_peer_id c \<noteq> peer_id
                \<or> below uploaded (ctr_uploaded c) \<or> below dwn (ctr_downloaded c));
          (ud, dd, cu, cd) = (case previous of
              None \<Rightarrow> (0, 0, uploaded, dwn)
            | Some c \<Rightarrow>
                if reset then (0, 0, uploaded, dwn)
                else (delta uploaded (ctr_uploaded c), delta dwn (ctr_downloaded c),
                      (if uploaded = None then ctr_uploaded c else uploaded),
                      (if dwn = None then ctr_downloaded c else dwn)));
          st' = (if supplied \<or> previous \<noteq> None
                 then st\<lparr>transfer_counters := (transfer_counters st)(ck \<mapsto>
                   \<lparr>ctr_peer_id = peer_id, ctr_uploaded = cu, ctr_downloaded = cd,
                    ctr_last_seen = now\<rparr>)\<rparr>
                 else st)
      in (st', ud, dd, reset))"

definition cleanup_empty :: "info_hash \<Rightarrow> (peer_key, row) dict \<Rightarrow> int \<Rightarrow> registry \<Rightarrow> registry" where
  "cleanup_empty h swarm now st =
     (if swarm \<noteq> [] then st
      else let st1 = st\<lparr>swarms := ddel h (swarms st),
                        orders := (orders st)(h := None),
                        positions := (positions st)(h := None),
                        principal_keys := (principal_keys st)(h := None),
                        ip_keys := (ip_keys st)(h := None),
                        type_orders := (type_orders st)(h := None),
                        type_positions := (type_positions st)(h := None),
                        type_tombstones := (type_tombstones st)(h := None),
                        tombstones := (tombstones st)(h := None),
                        role_indexes := (role_indexes st)(h := None)\<rparr>
           in (case dget (downloaded st1) h of
                 None \<Rightarrow> st1
               | Some c \<Rightarrow> if c_last_seen c < now - DOWNLOADED_TTL
                           then st1\<lparr>downloaded := ddel h (downloaded st1)\<rparr> else st1))"

text \<open>\<^verbatim>\<open>min(d, key=...)\<close>: the first key, in insertion order, with the least timestamp.\<close>

fun oldest_key :: "(info_hash, completion) dict \<Rightarrow> info_hash option" where
  "oldest_key [] = None"
| "oldest_key ((h, c) # d) =
     (case oldest_key d of
        None \<Rightarrow> Some h
      | Some h' \<Rightarrow> (case dget d h' of
            Some c' \<Rightarrow> if c_last_seen c' < c_last_seen c then Some h' else Some h
          | None \<Rightarrow> Some h))"

definition note_completed :: "info_hash \<Rightarrow> int \<Rightarrow> (info_hash, completion) dict \<Rightarrow> (info_hash, completion) dict"
  where
  "note_completed h now d =
     (let c = or_else (dget d h) \<lparr>c_count = 0, c_last_seen = now\<rparr>;
          d1 = dset h \<lparr>c_count = c_count c + 1, c_last_seen = now\<rparr> d
      in if length d1 > MAX_DOWNLOADED_SWARMS
         then (case oldest_key d1 of
                 None \<Rightarrow> d1
               | Some oldest \<Rightarrow> if oldest \<noteq> h \<or> length d1 > 1 then ddel oldest d1 else d1)
         else d1)"

record announce_args =
  a_info_hash :: info_hash
  a_peer_id :: string
  a_ip :: string
  a_port :: int
  a_event :: "string option"
  a_left :: "int option"
  a_now :: int
  a_principal :: "principal option"
  a_interval :: "int option"
  a_uploaded :: "int option"
  a_downloaded :: "int option"
  a_legacy_restricted :: bool

definition mk_event :: "string \<Rightarrow> announce_args \<Rightarrow> principal \<Rightarrow> event" where
  "mk_event name a p =
     \<lparr>ev_name = name, ev_info_hash = a_info_hash a, ev_peer_id = a_peer_id a, ev_ip = a_ip a,
      ev_port = a_port a, ev_left = a_left a, ev_now = a_now a, ev_principal = p\<rparr>"

text \<open>
  The download cycle of a peer: \<open>joined_at\<close> and \<open>completed_at\<close> after an announce, before an explicit
  \<^verbatim>\<open>completed\<close> event is looked at.
\<close>

definition cycle_times :: "row option \<Rightarrow> int option \<Rightarrow> int \<Rightarrow> int \<times> int option" where
  "cycle_times prev lft now =
     (let joined = (case prev of Some r \<Rightarrow> row_joined_at r | None \<Rightarrow> now);
          completed = (case prev of Some r \<Rightarrow> row_completed_at r | None \<Rightarrow> None);
          (joined, completed) =
            (if prev \<noteq> None \<and> completed \<noteq> None \<and> (case lft of Some l \<Rightarrow> l > 0 | None \<Rightarrow> False)
             then (now, None) else (joined, completed))
      in (joined, if completed = None \<and> lft = Some 0 then Some now else completed))"

text \<open>Re-indexing when the row is new or changed its address or principal, then \<^verbatim>\<open>swarm[key] = row\<close>.\<close>

definition put_row :: "info_hash \<Rightarrow> peer_key \<Rightarrow> row option \<Rightarrow> row \<Rightarrow> registry \<Rightarrow> registry" where
  "put_row h key prev r st =
     (let st3 = (case prev of
           Some pr \<Rightarrow>
             if row_ip pr \<noteq> row_ip r \<or> row_principal pr \<noteq> row_principal r
             then index_add h key r (index_remove h key pr st) else st
         | None \<Rightarrow> index_add h key r st)
      in st3\<lparr>swarms := dset h (dset key r (swarm_of st3 h)) (swarms st3)\<rparr>)"

definition announce_stopped :: "announce_args \<Rightarrow> principal \<Rightarrow> peer_key \<Rightarrow> registry \<Rightarrow> registry \<times> event list" where
  "announce_stopped a p key st =
     (let h = a_info_hash a;
          (st1, removed) = remove_record h key st;
          pending = (if removed \<noteq> None then [mk_event ''stop'' a p] else []);
          st2 = (if swarm_of st1 h = [] then cleanup_empty h [] (a_now a) st1 else st1)
      in (st2, pending))"

definition announce_present :: "announce_args \<Rightarrow> principal \<Rightarrow> peer_key \<Rightarrow> registry \<Rightarrow> registry \<times> event list" where
  "announce_present a p key st =
     (let h = a_info_hash a; now = a_now a;
          prev = dget (swarm_of st h) key;
          joins = (if prev = None then [mk_event ''join'' a p] else []);
          (joined, completed) = cycle_times prev (a_left a) now;
          (st1, ud, dd, reset) =
            counter_delta h p (a_peer_id a) (a_event a) (a_uploaded a) (a_downloaded a) now st;
          is_complete = (a_event a = Some ''completed'');
          st2 = (if is_complete
                 then st1\<lparr>downloaded := note_completed h now (downloaded st1)\<rparr> else st1);
          completes = (if is_complete then [mk_event ''complete'' a p] else []);
          r = \<lparr>row_ip = a_ip a, row_port = a_port a, row_last_seen = now, row_left = a_left a,
               row_joined_at = joined,
               row_completed_at = (if is_complete \<and> completed = None then Some now else completed),
               row_peer_id = a_peer_id a, row_principal = p,
               row_interval = or_else (a_interval a) (reg_interval st2),
               row_uploaded_delta = ud, row_downloaded_delta = dd, row_counter_reset = reset,
               row_legacy_restricted = a_legacy_restricted a\<rparr>
      in (put_row h key prev r st2, joins @ completes))"

definition ensure_swarm :: "info_hash \<Rightarrow> registry \<Rightarrow> registry" where
  \<comment> \<open>\<^verbatim>\<open>self._swarms.setdefault(info_hash, {})\<close>\<close>
  "ensure_swarm h st = (if dget (swarms st) h = None then st\<lparr>swarms := dset h [] (swarms st)\<rparr> else st)"

definition announce :: "announce_args \<Rightarrow> registry \<Rightarrow> registry \<times> event list" where
  "announce a st =
     (let p = or_else (a_principal a) default_principal;
          key = (ptype p, pid p, a_peer_id a);
          st0 = ensure_swarm (a_info_hash a) st
      in if a_event a = Some ''stopped'' then announce_stopped a p key st0
         else announce_present a p key st0)"

section \<open>Pruning\<close>

definition is_stale :: "int \<Rightarrow> row \<Rightarrow> bool" where
  "is_stale now r \<longleftrightarrow> row_last_seen r < now - 2 * row_interval r"

definition stale_event :: "info_hash \<Rightarrow> int \<Rightarrow> row \<Rightarrow> event" where
  "stale_event h now r =
     \<lparr>ev_name = ''stale'', ev_info_hash = h, ev_peer_id = row_peer_id r, ev_ip = row_ip r,
      ev_port = row_port r, ev_left = row_left r, ev_now = now, ev_principal = row_principal r\<rparr>"

fun remove_stale :: "info_hash \<Rightarrow> int \<Rightarrow> peer_key list \<Rightarrow> registry \<Rightarrow> registry \<times> event list" where
  "remove_stale h now [] st = (st, [])"
| "remove_stale h now (k # ks) st =
     (let (st1, removed) = remove_record h k st;
          (st2, evs) = remove_stale h now ks st1
      in (st2, (case removed of Some r \<Rightarrow> stale_event h now r # evs | None \<Rightarrow> evs)))"

definition prune :: "info_hash \<Rightarrow> int \<Rightarrow> registry \<Rightarrow> registry \<times> event list" where
  "prune h now st =
     remove_stale h now (map fst (filter (\<lambda>(k, r). is_stale now r) (swarm_of st h))) st"

fun prune_swarms :: "info_hash list \<Rightarrow> int \<Rightarrow> registry \<Rightarrow> registry \<times> event list" where
  "prune_swarms [] now st = (st, [])"
| "prune_swarms (h # hs) now st =
     (let (st1, evs) = prune h now st;
          st2 = cleanup_empty h (swarm_of st1 h) now st1;
          (st3, evs') = prune_swarms hs now st2
      in (st3, evs @ evs'))"

definition clean_downloaded :: "int \<Rightarrow> registry \<Rightarrow> registry" where
  "clean_downloaded now st =
     foldl (\<lambda>s h. if dget (swarms s) h = None then cleanup_empty h [] now s else s) st
           (dkeys (downloaded st))"

definition prune_due :: "int \<Rightarrow> bool \<Rightarrow> registry \<Rightarrow> bool" where
  "prune_due now force st \<longleftrightarrow>
     force \<or> (case last_read_prune st of
         None \<Rightarrow> True
       | Some lst \<Rightarrow> now < lst \<or> read_prune_interval st = 0 \<or> now - lst \<ge> read_prune_interval st)"

definition read_prune_locked :: "int \<Rightarrow> bool \<Rightarrow> registry \<Rightarrow> registry \<times> event list" where
  "read_prune_locked now force st =
     (if \<not> prune_due now force st then (st, [])
      else let st0 = st\<lparr>last_read_prune := Some now\<rparr>;
               (st1, evs) = prune_swarms (dkeys (swarms st0)) now st0
           in (clean_downloaded now st1, evs))"

section \<open>Selection\<close>

record selection =
  sel_principals :: "(string \<times> string) list option"
  sel_ips :: "string list option"
  sel_roles :: "string list option"
  sel_types :: "string list option"

definition no_selection :: selection where
  "no_selection = \<lparr>sel_principals = None, sel_ips = None, sel_roles = None, sel_types = None\<rparr>"

fun role_sources :: "role_index \<Rightarrow> string list \<Rightarrow> role_index \<times> slots list" where
  "role_sources ri [] = (ri, [])"
| "role_sources ri (role # rs) =
     (let (ri1, order) = compact_role ri role;
          (ri2, srcs) = role_sources ri1 rs
      in (ri2, if order = [] then srcs else order # srcs))"

definition key_sources :: "('i, 'k list) dict \<Rightarrow> 'i list \<Rightarrow> 'k option list list" where
  "key_sources idx vs =
     List.map_filter (\<lambda>v. case dget idx v of
         Some ks \<Rightarrow> if ks = [] then None else Some (map Some ks) | None \<Rightarrow> None) vs"

fun type_sources :: "info_hash \<Rightarrow> string list \<Rightarrow> registry \<Rightarrow> registry \<times> slots list" where
  "type_sources h [] st = (st, [])"
| "type_sources h (t # ts) st =
     (let (st1, order) = compact_type h t st;
          (st2, srcs) = type_sources h ts st1
      in (st2, if order = [] then srcs else order # srcs))"

definition candidate_sources ::
  "info_hash \<Rightarrow> selection \<Rightarrow> compiled_roles \<Rightarrow> registry \<Rightarrow> registry \<times> slots list" where
  "candidate_sources h sel compiled st =
     (if sel_principals sel = None \<and> sel_ips sel = None \<and> sel_roles sel = None \<and> sel_types sel = None
      then let st1 = compact_order h False st; order = or_else (orders st1 h) []
           in (st1, if order = [] then [] else [order])
      else
        let (st1, s1) = (case sel_roles sel of
              None \<Rightarrow> (st, [])
            | Some roles \<Rightarrow>
                let (st', ri) = get_role_index h compiled st;
                    (ri', srcs) = role_sources ri (sort roles)
                in (st'\<lparr>role_indexes := (role_indexes st')(h \<mapsto> ri')\<rparr>, srcs));
            s2 = key_sources (or_else (principal_keys st1 h) []) (or_else (sel_principals sel) []);
            s3 = key_sources (or_else (ip_keys st1 h) []) (or_else (sel_ips sel) []);
            (st2, s4) = type_sources h (or_else (sel_types sel) []) st1
        in (st2, s1 @ s2 @ s3 @ s4))"

definition rotate_from :: "nat \<Rightarrow> 'a list \<Rightarrow> 'a list" where
  \<comment> \<open>\<^verbatim>\<open>keys[(start + offset) % len(keys)]\<close> for every offset\<close>
  "rotate_from s xs = map (\<lambda>k. xs ! ((s mod length xs + k) mod length xs)) [0..<length xs]"

fun visit :: "(peer_key, row) dict \<Rightarrow> (peer_key \<Rightarrow> row \<Rightarrow> bool) \<Rightarrow> (row \<Rightarrow> bool) \<Rightarrow> nat \<Rightarrow> nat
    \<Rightarrow> slots \<Rightarrow> nat \<times> (string \<times> int) list \<times> peer_key list
    \<Rightarrow> nat \<times> (string \<times> int) list \<times> peer_key list" where
  "visit swarm is_self permit limit inspect_limit [] acc = acc"
| "visit swarm is_self permit limit inspect_limit (slot # rest) (inspected, out, seen) =
     (if inspected \<ge> inspect_limit \<or> length out \<ge> limit then (inspected, out, seen)
      else (case slot of
          None \<Rightarrow> visit swarm is_self permit limit inspect_limit rest (inspected, out, seen)
        | Some key \<Rightarrow>
            if key \<in> set seen
            then visit swarm is_self permit limit inspect_limit rest (inspected, out, seen)
            else (case dget swarm key of
                None \<Rightarrow> visit swarm is_self permit limit inspect_limit rest (inspected, out, key # seen)
              | Some r \<Rightarrow>
                  if is_self key r
                  then visit swarm is_self permit limit inspect_limit rest (inspected, out, key # seen)
                  else if \<not> permit r
                  then visit swarm is_self permit limit inspect_limit rest
                         (inspected + 1, out, key # seen)
                  else visit swarm is_self permit limit inspect_limit rest
                         (inspected + 1, out @ [(row_ip r, row_port r)], key # seen))))"

fun visit_sources :: "(peer_key, row) dict \<Rightarrow> (peer_key \<Rightarrow> row \<Rightarrow> bool) \<Rightarrow> (row \<Rightarrow> bool) \<Rightarrow> nat \<Rightarrow> nat
    \<Rightarrow> nat \<Rightarrow> slots list \<Rightarrow> nat \<times> (string \<times> int) list \<times> peer_key list
    \<Rightarrow> nat \<times> (string \<times> int) list \<times> peer_key list" where
  "visit_sources swarm is_self permit limit inspect_limit start [] acc = acc"
| "visit_sources swarm is_self permit limit inspect_limit start (keys # rest) acc =
     (let (inspected, out, seen) =
            visit swarm is_self permit limit inspect_limit (rotate_from start keys) acc
      in if inspected \<ge> inspect_limit \<or> length out \<ge> limit then (inspected, out, seen)
         else visit_sources swarm is_self permit limit inspect_limit start rest (inspected, out, seen))"

type_synonym peer_predicate = "principal option \<Rightarrow> string option \<Rightarrow> principal \<Rightarrow> string \<Rightarrow> bool"

definition select_locked ::
  "(nat \<Rightarrow> nat) \<Rightarrow> info_hash \<Rightarrow> string \<Rightarrow> principal option \<Rightarrow> string option \<Rightarrow> peer_predicate option
     \<Rightarrow> int \<Rightarrow> selection \<Rightarrow> compiled_roles \<Rightarrow> bool \<Rightarrow> registry \<Rightarrow> registry \<times> (string \<times> int) list" where
  "select_locked randbelow h peer_id req req_ip predicate numwant sel compiled bare_peer_id st =
     (let limit = nat (min (max 0 numwant) NUMWANT_CAP)
      in if limit = 0 then (st, [])
         else
           let swarm = swarm_of st h;
               (st1, sources) = candidate_sources h sel compiled st
           in if sources = [] then (st1, [])
              else
                let rp = or_else req default_principal;
                    self_key = (ptype rp, pid rp, peer_id);
                    total_slots = sum_list (map length sources);
                    start = randbelow total_slots;
                    inspect_limit = min (4 * limit) (length swarm);
                    is_self = (\<lambda>key r. if bare_peer_id then row_peer_id r = peer_id else key = self_key);
                    permit = (\<lambda>r. case predicate of None \<Rightarrow> True
                                | Some f \<Rightarrow> f req req_ip (row_principal r) (row_ip r));
                    (inspected, out, seen) =
                      visit_sources swarm is_self permit limit inspect_limit start
                        (rotate_from start sources) (0, [], [])
                in (st1, out))"

definition peers :: "(nat \<Rightarrow> nat) \<Rightarrow> info_hash \<Rightarrow> string \<Rightarrow> int \<Rightarrow> int \<Rightarrow> compiled_roles \<Rightarrow> registry
    \<Rightarrow> registry \<times> event list \<times> (string \<times> int) list" where
  "peers randbelow h peer_id numwant now compiled st =
     (let (st1, pending) = read_prune_locked now False st;
          (st2, out) = select_locked randbelow h peer_id None None None numwant no_selection compiled True st1
      in (st2, pending, out))"

definition select_peers ::
  "(nat \<Rightarrow> nat) \<Rightarrow> info_hash \<Rightarrow> string \<Rightarrow> principal option \<Rightarrow> string option \<Rightarrow> peer_predicate option
     \<Rightarrow> int \<Rightarrow> int \<Rightarrow> selection \<Rightarrow> compiled_roles \<Rightarrow> registry
     \<Rightarrow> registry \<times> event list \<times> (string \<times> int) list" where
  "select_peers randbelow h peer_id req req_ip predicate numwant now sel compiled st =
     (let (st1, pending) = read_prune_locked now False st;
          (st2, out) = select_locked randbelow h peer_id req req_ip predicate numwant sel compiled False st1
      in (st2, pending, out))"

section \<open>Read projections\<close>

definition has_principal_type :: "info_hash \<Rightarrow> string \<Rightarrow> registry \<Rightarrow> bool" where
  "has_principal_type h t st \<longleftrightarrow> or_else (dget (or_else (type_positions st h) []) t) [] \<noteq> []"

record scrape_result =
  s_complete :: nat
  s_incomplete :: nat
  s_downloaded :: nat

definition is_seeder :: "row \<Rightarrow> bool" where
  "is_seeder r \<longleftrightarrow> row_left r = Some 0"

definition completed_count :: "registry \<Rightarrow> info_hash \<Rightarrow> nat" where
  "completed_count st h = (case dget (downloaded st) h of Some c \<Rightarrow> c_count c | None \<Rightarrow> 0)"

definition scrape :: "info_hash \<Rightarrow> int \<Rightarrow> registry \<Rightarrow> registry \<times> event list \<times> scrape_result" where
  "scrape h now st =
     (let (st1, pending) = read_prune_locked now False st;
          records = map snd (swarm_of st1 h);
          complete = length (filter is_seeder records)
      in (st1, pending, \<lparr>s_complete = complete, s_incomplete = length records - complete,
                         s_downloaded = completed_count st1 h\<rparr>))"

record swarm_stats =
  st_seeders :: nat
  st_leechers :: nat
  st_peers :: nat
  st_bytes_remaining :: int
  st_completed :: nat

definition swarm_stats_of :: "row list \<Rightarrow> nat \<Rightarrow> swarm_stats" where
  "swarm_stats_of records ndone =
     (let seeders = length (filter is_seeder records)
      in \<lparr>st_seeders = seeders, st_leechers = length records - seeders, st_peers = length records,
          st_bytes_remaining = sum_list (List.map_filter
            (\<lambda>r. case row_left r of Some l \<Rightarrow> if l > 0 then Some l else None | None \<Rightarrow> None) records),
          st_completed = ndone\<rparr>)"

definition stats :: "int \<Rightarrow> registry \<Rightarrow> registry \<times> event list \<times> (info_hash \<rightharpoonup> swarm_stats)" where
  "stats now st =
     (let (st1, pending) = read_prune_locked now False st
      in (st1, pending, (\<lambda>h.
           if dget (swarms st1) h = None \<and> dget (downloaded st1) h = None then None
           else Some (swarm_stats_of (map snd (swarm_of st1 h)) (completed_count st1 h)))))"

record peer_view =
  v_ip :: string
  v_port :: int
  v_left :: "int option"
  v_last_seen :: int
  v_is_seeder :: bool
  v_joined_at :: int
  v_completed_at :: "int option"
  v_principal_type :: string
  v_principal_id :: "string option"
  v_participant_class :: string
  v_peer_id :: string
  v_interval :: int
  v_uploaded_delta :: int
  v_downloaded_delta :: int
  v_counter_reset :: bool
  v_legacy_restricted :: bool
  v_download_seconds :: "int option"

definition view_of :: "row \<Rightarrow> peer_view" where
  "view_of r =
     \<lparr>v_ip = row_ip r, v_port = row_port r, v_left = row_left r, v_last_seen = row_last_seen r,
      v_is_seeder = is_seeder r, v_joined_at = row_joined_at r, v_completed_at = row_completed_at r,
      v_principal_type = ptype (row_principal r),
      v_principal_id = public_principal_id (row_principal r),
      v_participant_class = participant_class (row_principal r),
      v_peer_id = row_peer_id r, v_interval = row_interval r,
      v_uploaded_delta = row_uploaded_delta r, v_downloaded_delta = row_downloaded_delta r,
      v_counter_reset = row_counter_reset r, v_legacy_restricted = row_legacy_restricted r,
      v_download_seconds = map_option (\<lambda>c. c - row_joined_at r) (row_completed_at r)\<rparr>"

definition snapshot :: "int \<Rightarrow> registry \<Rightarrow> registry \<times> event list \<times> (info_hash, peer_view list) dict" where
  "snapshot now st =
     (let (st1, pending) = read_prune_locked now False st
      in (st1, pending, map (\<lambda>(h, sw). (h, map (view_of \<circ> snd) sw))
                            (filter (\<lambda>(h, sw). sw \<noteq> []) (swarms st1))))"

definition prune_all :: "int \<Rightarrow> registry \<Rightarrow> registry \<times> event list" where
  "prune_all now st = read_prune_locked now True st"

end
