(* ===== verification/Registry_Index.thy ===== *)
theory Registry_Index
  imports Peer_Registry
begin

text \<open>
  The selection indexes of \<^verbatim>\<open>server/peer_registry.py\<close> and what they promise: every vector, position
  table, member set and role vector of a swarm describes exactly the rows the swarm holds.  The
  contract of a position table is a locale, interpreted on the two representations the registry
  uses (a dictionary per vector, and one dictionary with role-tagged positions); the invariant of
  the registry is built from it.
\<close>

section \<open>Slot vectors with tombstones\<close>

text \<open>A vector of keys with holes, and the partial map its position table stands for.\<close>

definition slots_rel :: "'k option list \<Rightarrow> ('k \<rightharpoonup> nat) \<Rightarrow> bool" where
  "slots_rel order at \<longleftrightarrow> (\<forall>k i. at k = Some i \<longleftrightarrow> i < length order \<and> order ! i = Some k)"

definition holes :: "'k option list \<Rightarrow> nat" where
  "holes order = length (filter (\<lambda>s. s = None) order)"

lemma set_live: "set (live order) = {k. Some k \<in> set order}"
  by (induction order rule: live.induct) auto

lemma slots_rel_live: "slots_rel order at \<Longrightarrow> set (live order) = dom at"
  by (auto simp: slots_rel_def set_live in_set_conv_nth)

lemma slots_rel_Nil [simp]: "slots_rel [] at \<longleftrightarrow> at = Map.empty"
  by (auto simp: slots_rel_def fun_eq_iff)

lemma slots_rel_append:
  assumes "slots_rel order at" and "at k = None"
  shows "slots_rel (order @ [Some k]) (at(k \<mapsto> length order))"
proof -
  have new: "order ! i \<noteq> Some k" if "i < length order" for i
    using assms that by (metis option.distinct(1) slots_rel_def)
  then show ?thesis
    using assms unfolding slots_rel_def by (auto simp: nth_append less_Suc_eq split: if_splits)
qed

lemma slots_rel_clear:
  assumes "slots_rel order at" and "at k = Some i"
  shows "slots_rel (order[i := None]) (at(k := None))"
proof -
  have uniq: "j = i" if "j < length order" "order ! j = Some k" for j
    using assms that by (metis option.inject slots_rel_def)
  then show ?thesis
    using assms unfolding slots_rel_def by (auto simp: nth_list_update split: if_splits)
qed

lemma find_in_distinct: "distinct ks \<Longrightarrow> find_in k ks = Some i \<longleftrightarrow> i < length ks \<and> ks ! i = k"
proof (induction ks arbitrary: i)
  case (Cons x ks)
  then show ?case by (cases i) (auto simp: in_set_conv_nth)
qed simp

lemma distinct_live:
  "(\<And>i j. i < length order \<Longrightarrow> j < length order \<Longrightarrow> order ! i = order ! j \<Longrightarrow> order ! i \<noteq> None \<Longrightarrow> i = j)
     \<Longrightarrow> distinct (live order)"
proof (induction order rule: live.induct)
  case (2 s)
  have "distinct (live s)"
    by (rule "2.IH") (use "2.prems" [of "Suc _" "Suc _"] in auto)
  then show ?case by simp
next
  case (3 k s)
  have "distinct (live s)"
    by (rule "3.IH") (use "3.prems" [of "Suc _" "Suc _"] in auto)
  moreover have "s ! i \<noteq> Some k" if "i < length s" for i
    using "3.prems" [of 0 "Suc i"] that by auto
  then have "Some k \<notin> set s" by (auto simp: in_set_conv_nth)
  ultimately show ?case by (simp add: set_live)
qed simp

lemma slots_rel_distinct: "slots_rel order at \<Longrightarrow> distinct (live order)"
  by (rule distinct_live) (metis not_None_eq option.inject slots_rel_def)

lemma foldl_enumerate_snoc:
  "foldl f a (enumerate n (xs @ [x])) = f (foldl f a (enumerate n xs)) (n + length xs, x)"
  by (simp add: enumerate_append_eq)

lemma slots_rel_map_Some: "distinct ks \<Longrightarrow> slots_rel (map Some ks) (\<lambda>k. find_in k ks)"
  by (auto simp: slots_rel_def find_in_distinct)

lemma holes_simps [simp]:
  "holes [] = 0" "holes (order @ [Some k]) = holes order" "holes (map Some ks) = 0"
  by (simp_all add: holes_def)

lemma holes_clear: "i < length order \<Longrightarrow> order ! i = Some k \<Longrightarrow> holes (order[i := None]) = Suc (holes order)"
proof (induction order arbitrary: i)
  case (Cons s order)
  then show ?case by (cases i) (auto simp: holes_def)
qed simp

section \<open>Position tables\<close>

locale position_table =
  fixes at :: "'s \<Rightarrow> 'k \<Rightarrow> nat option"
    and put :: "'k \<Rightarrow> nat \<Rightarrow> 's \<Rightarrow> 's"
    and remove :: "'k \<Rightarrow> 's \<Rightarrow> 's"
  assumes at_put: "at (put k i s) = (at s)(k \<mapsto> i)"
    and at_remove: "at (remove k s) = (at s)(k := None)"
begin

lemma append_coherent:
  "slots_rel order (at s) \<Longrightarrow> at s k = None \<Longrightarrow>
     slots_rel (order @ [Some k]) (at (put k (length order) s))"
  by (simp add: at_put slots_rel_append)

lemma clear_coherent:
  "slots_rel order (at s) \<Longrightarrow> at s k = Some i \<Longrightarrow> slots_rel (order[i := None]) (at (remove k s))"
  by (simp add: at_remove slots_rel_clear)

lemma put_all:
  "distinct ks \<Longrightarrow>
     at (foldl (\<lambda>d (i, k). put k i d) s (enumerate 0 ks)) =
       (\<lambda>k. if k \<in> set ks then find_in k ks else at s k)"
proof (induction ks rule: rev_induct)
  case (snoc x ks)
  have "find_in k (ks @ [x]) = find_in k ks" if "k \<in> set ks" for k
    using that by (induction ks) auto
  moreover have "find_in x (ks @ [x]) = Some (length ks)"
    using snoc.prems find_in_prefix [of x ks "[]"] by simp
  ultimately show ?case
    using snoc by (auto simp: foldl_enumerate_snoc at_put fun_eq_iff)
qed simp

lemma compact_coherent:
  assumes "slots_rel order (at s)"
  shows "slots_rel (map Some (live order)) (at (foldl (\<lambda>d (i, k). put k i d) s (enumerate 0 (live order))))"
proof -
  have d: "distinct (live order)" by (rule slots_rel_distinct [OF assms])
  have "at s k = None" if "k \<notin> set (live order)" for k
    using that slots_rel_live [OF assms] by auto
  then have "at (foldl (\<lambda>d (i, k). put k i d) s (enumerate 0 (live order)))
      = (\<lambda>k. find_in k (live order))"
    by (auto simp: put_all [OF d] fun_eq_iff find_in_None [THEN iffD2])
  then show ?thesis using slots_rel_map_Some [OF d] by simp
qed

end

interpretation slot_pos: position_table dget dset ddel
  by unfold_locales (auto simp: fun_eq_iff)

definition role_at :: "string \<Rightarrow> ('k, string \<times> nat) dict \<Rightarrow> 'k \<Rightarrow> nat option" where
  "role_at role d k = (case dget d k of Some (r, i) \<Rightarrow> if r = role then Some i else None | None \<Rightarrow> None)"

interpretation role_pos: position_table "role_at role" "\<lambda>k i. dset k (role, i)" ddel for role
  by unfold_locales (auto simp: role_at_def fun_eq_iff)

section \<open>Member sets\<close>

text \<open>The keys of the rows with value \<open>v\<close> of a feature \<open>f\<close>.\<close>

definition with_feature :: "('k \<rightharpoonup> 'r) \<Rightarrow> ('r \<Rightarrow> 'v) \<Rightarrow> 'v \<Rightarrow> 'k set" where
  "with_feature K f v = {k. \<exists>r. K k = Some r \<and> f r = v}"

lemma in_with_feature: "k \<in> with_feature K f v \<longleftrightarrow> (\<exists>r. K k = Some r \<and> f r = v)"
  by (simp add: with_feature_def)

lemma with_feature_add:
  "K k = None \<Longrightarrow> with_feature (K(k \<mapsto> r)) f v =
     (if f r = v then insert k (with_feature K f v) else with_feature K f v)"
  by (auto simp: with_feature_def)

lemma with_feature_del:
  "K k = Some r \<Longrightarrow> with_feature (K(k := None)) f v =
     (if f r = v then with_feature K f v - {k} else with_feature K f v)"
  by (auto simp: with_feature_def)

lemma with_feature_same:
  "K k = Some r0 \<Longrightarrow> f r = f r0 \<Longrightarrow> with_feature (K(k \<mapsto> r)) f v = with_feature K f v"
  by (auto simp: with_feature_def)

lemma with_feature_empty [simp]: "with_feature Map.empty f v = {}"
  by (simp add: with_feature_def)

text \<open>
  An ordered-set index by a feature \<open>f\<close> of the rows: for every value exactly the keys of the rows with
  that value, without repetition, and no empty entry left behind.
\<close>

definition members_ok :: "('i, 'k list) dict \<Rightarrow> ('r \<Rightarrow> 'i) \<Rightarrow> ('k \<rightharpoonup> 'r) \<Rightarrow> bool" where
  "members_ok idx f K \<longleftrightarrow>
     (\<forall>v. distinct (or_else (dget idx v) []) \<and>
          set (or_else (dget idx v) []) = with_feature K f v \<and>
          dget idx v \<noteq> Some [])"

lemma members_ok_Nil [simp]: "members_ok [] f Map.empty"
  by (simp add: members_ok_def)

lemma set_key_add [simp]: "set (key_add k ks) = insert k (set ks)"
  by (auto simp: key_add_def)

lemma distinct_key_add [simp]: "distinct ks \<Longrightarrow> distinct (key_add k ks)"
  by (simp add: key_add_def)

lemma key_add_nonempty [simp]: "key_add k ks \<noteq> []"
  by (auto simp: key_add_def)

lemma set_key_drop [simp]: "set (key_drop k ks) = set ks - {k}"
  by (auto simp: key_drop_def)

lemma distinct_key_drop [simp]: "distinct ks \<Longrightarrow> distinct (key_drop k ks)"
  by (simp add: key_drop_def)

lemma members_ok_add:
  assumes "members_ok idx f K" and "K k = None"
  shows "members_ok (dset (f r) (key_add k (or_else (dget idx (f r)) [])) idx) f (K(k \<mapsto> r))"
  using assms by (simp add: members_ok_def with_feature_add)

lemma members_ok_pop:
  assumes "members_ok (or_else idx []) f K" and "K k = Some r"
  shows "members_ok (or_else (members_pop (f r) k idx) []) f (K(k := None))"
proof -
  have kin: "k \<in> with_feature K f (f r)" using assms(2) by (simp add: in_with_feature)
  have ok: "distinct (or_else (dget (or_else idx []) v) [])"
    "set (or_else (dget (or_else idx []) v) []) = with_feature K f v"
    "dget (or_else idx []) v \<noteq> Some []" for v
    using assms(1) by (auto simp: members_ok_def)
  obtain d ms where d: "idx = Some d" and ms: "dget d (f r) = Some ms"
    using ok(2) [of "f r"] kin by (cases idx; cases "dget (or_else idx []) (f r)") auto
  have m: "distinct ms" "set ms = with_feature K f (f r)"
    using ok [of "f r"] d ms by auto
  show ?thesis
  proof (cases "key_drop k ms = []")
    case True
    then have "with_feature K f (f r) - {k} = {}"
      using m(2) set_key_drop [of k ms] by simp
    then show ?thesis
      using True d ms ok assms(2) by (simp add: members_ok_def members_pop_def with_feature_del)
  next
    case False
    then show ?thesis
      using d ms ok m assms(2) by (simp add: members_ok_def members_pop_def with_feature_del)
  qed
qed

lemma members_ok_same:
  "members_ok idx f K \<Longrightarrow> K k = Some r0 \<Longrightarrow> f r = f r0 \<Longrightarrow> members_ok idx f (K(k \<mapsto> r))"
  by (simp add: members_ok_def with_feature_same)

section \<open>Vectors by type and by role\<close>

definition vec_ok :: "'k option list \<Rightarrow> ('k \<rightharpoonup> nat) \<Rightarrow> nat \<Rightarrow> 'k set \<Rightarrow> bool" where
  "vec_ok order at tomb D \<longleftrightarrow> slots_rel order at \<and> tomb = holes order \<and> dom at = D"

lemma vec_ok_append:
  "vec_ok order at tomb D \<Longrightarrow> k \<notin> D \<Longrightarrow>
     vec_ok (order @ [Some k]) (at(k \<mapsto> length order)) tomb (insert k D)"
  by (auto simp: vec_ok_def intro: slots_rel_append)

lemma vec_ok_clear:
  assumes "vec_ok order at tomb D" and "at k = Some i"
  shows "vec_ok (order[i := None]) (at(k := None)) (Suc tomb) (D - {k})"
proof -
  from assms have "i < length order" "order ! i = Some k" by (auto simp: vec_ok_def slots_rel_def)
  with assms show ?thesis
    by (auto simp: vec_ok_def slots_rel_clear holes_clear)
qed

lemma vec_ok_compact:
  assumes "vec_ok order at tomb D" and "slots_rel (map Some (live order)) at'"
  shows "vec_ok (map Some (live order)) at' 0 D"
proof -
  have live_id: "live (map Some ks) = ks" for ks :: "'b list" by (induction ks) auto
  have "dom at' = set (live (map Some (live order)))" using slots_rel_live [OF assms(2)] by simp
  also have "\<dots> = set (live order)" by (simp add: live_id)
  also have "\<dots> = D" using slots_rel_live assms(1) by (auto simp: vec_ok_def)
  finally show ?thesis using assms by (simp add: vec_ok_def)
qed

abbreviation row_type :: "row \<Rightarrow> string" where
  "row_type r \<equiv> ptype (row_principal r)"

abbreviation row_pk :: "row \<Rightarrow> string \<times> string" where
  "row_pk r \<equiv> (ptype (row_principal r), pid (row_principal r))"

definition row_role :: "compiled_roles \<Rightarrow> row \<Rightarrow> string option" where
  "row_role c r = (if row_type r \<noteq> ''device'' then None else role_of c (pid (row_principal r)))"

definition type_ok :: "(string, slots) dict \<Rightarrow> (string, (peer_key, nat) dict) dict \<Rightarrow> (string, nat) dict
    \<Rightarrow> (peer_key \<rightharpoonup> row) \<Rightarrow> bool" where
  "type_ok os ps ts K \<longleftrightarrow> (\<forall>t. vec_ok (or_else (dget os t) []) (dget (or_else (dget ps t) []))
     (or_else (dget ts t) 0) (with_feature K row_type t))"

definition role_ok :: "role_index \<Rightarrow> (peer_key \<rightharpoonup> row) \<Rightarrow> bool" where
  "role_ok ri K \<longleftrightarrow> (\<forall>role. vec_ok (or_else (dget (ri_orders ri) role) []) (role_at role (ri_positions ri))
     (or_else (dget (ri_tombstones ri) role) 0)
     (with_feature K (row_role (ri_compiled ri)) (Some role)))"

text \<open>All indexes of the swarm \<open>h\<close> describe exactly the rows \<open>K\<close>.\<close>

definition idx_ok :: "(peer_key \<rightharpoonup> row) \<Rightarrow> registry \<Rightarrow> info_hash \<Rightarrow> bool" where
  "idx_ok K st h \<longleftrightarrow>
     vec_ok (or_else (orders st h) []) (dget (or_else (positions st h) [])) (or_else (tombstones st h) 0) (dom K)
   \<and> members_ok (or_else (principal_keys st h) []) row_pk K
   \<and> members_ok (or_else (ip_keys st h) []) row_ip K
   \<and> type_ok (or_else (type_orders st h) []) (or_else (type_positions st h) [])
       (or_else (type_tombstones st h) []) K
   \<and> (\<forall>ri. role_indexes st h = Some ri \<longrightarrow> role_ok ri K)"

text \<open>
  The registry invariant: indexes and membership agree for every swarm, and every row is filed under
  its own identity key.
\<close>

definition row_key :: "row \<Rightarrow> peer_key" where
  "row_key r = (ptype (row_principal r), pid (row_principal r), row_peer_id r)"

definition filed :: "('r \<Rightarrow> 'k) \<Rightarrow> ('k \<rightharpoonup> 'r) \<Rightarrow> bool" where
  "filed f K \<longleftrightarrow> (\<forall>k r. K k = Some r \<longrightarrow> k = f r)"

lemma filed_empty [simp]: "filed f Map.empty"
  by (simp add: filed_def)

lemma filed_del: "filed f K \<Longrightarrow> filed f (K(k := None))"
  by (simp add: filed_def)

lemma filed_upd: "filed f K \<Longrightarrow> k = f r \<Longrightarrow> filed f (K(k \<mapsto> r))"
  by (simp add: filed_def)

definition reg_inv :: "registry \<Rightarrow> bool" where
  "reg_inv st \<longleftrightarrow>
     dwf (swarms st) \<and> dwf (downloaded st) \<and>
     (\<forall>h. dwf (swarm_of st h) \<and> idx_ok (dget (swarm_of st h)) st h \<and>
        filed row_key (dget (swarm_of st h)))"

section \<open>Index maintenance keeps the invariant\<close>

lemma type_ok_add:
  assumes "type_ok os ps ts K" and "K k = None"
  shows "type_ok (dset (row_type r) (or_else (dget os (row_type r)) [] @ [Some k]) os)
    (dset (row_type r) (dset k (length (or_else (dget os (row_type r)) [])) (or_else (dget ps (row_type r)) [])) ps)
    ts (K(k \<mapsto> r))"
proof -
  have "k \<notin> with_feature K row_type t" for t using assms(2) by (simp add: in_with_feature)
  with assms show ?thesis
    by (simp add: type_ok_def with_feature_add vec_ok_append slot_pos.at_put)
qed

lemma role_ok_add:
  assumes "role_ok ri K" and "K k = None"
  shows "role_ok (case row_role (ri_compiled ri) r of None \<Rightarrow> ri
    | Some role \<Rightarrow> ri\<lparr>ri_orders := dset role (or_else (dget (ri_orders ri) role) [] @ [Some k]) (ri_orders ri),
        ri_positions := dset k (role, length (or_else (dget (ri_orders ri) role) [])) (ri_positions ri)\<rparr>)
    (K(k \<mapsto> r))"
proof -
  have old: "vec_ok (or_else (dget (ri_orders ri) role) []) (role_at role (ri_positions ri))
     (or_else (dget (ri_tombstones ri) role) 0) (with_feature K (row_role (ri_compiled ri)) (Some role))" for role
    using assms(1) by (simp add: role_ok_def)
  have new: "k \<notin> with_feature K f v" for f :: "row \<Rightarrow> string option" and v
    using assms(2) by (simp add: in_with_feature)
  have none: "role_at role (ri_positions ri) k = None" for role
    using old [of role] new by (auto simp: vec_ok_def)
  have "dget (ri_positions ri) k = None"
  proof (cases "dget (ri_positions ri) k")
    case (Some p)
    then show ?thesis using none [of "fst p"] by (cases p) (simp add: role_at_def)
  qed
  then have upd: "role_at role (dset k (r0, i) (ri_positions ri)) =
      (if role = r0 then (role_at role (ri_positions ri))(k \<mapsto> i) else role_at role (ri_positions ri))"
    for role r0 i by (auto simp: role_at_def fun_eq_iff)
  show ?thesis
    using old vec_ok_append [OF old new] assms(2)
    by (cases "row_role (ri_compiled ri) r") (auto simp: role_ok_def with_feature_add upd)
qed

lemma index_add_fields:
  "swarms (index_add h k r st) = swarms st" "downloaded (index_add h k r st) = downloaded st"
  "transfer_counters (index_add h k r st) = transfer_counters st"
  "reg_interval (index_add h k r st) = reg_interval st"
  by (simp_all add: index_add_def role_index_add_def Let_def split: option.split)

lemma role_index_add_eq:
  "role_index_add h k r st = (case role_indexes st h of None \<Rightarrow> st
     | Some ri \<Rightarrow> st\<lparr>role_indexes := (role_indexes st)(h \<mapsto>
         (case row_role (ri_compiled ri) r of None \<Rightarrow> ri
          | Some role \<Rightarrow> ri\<lparr>ri_orders := dset role (or_else (dget (ri_orders ri) role) [] @ [Some k]) (ri_orders ri),
             ri_positions := dset k (role, length (or_else (dget (ri_orders ri) role) [])) (ri_positions ri)\<rparr>))\<rparr>)"
  by (auto simp: role_index_add_def row_role_def Let_def fun_upd_idem split: option.split)

lemma idx_ok_index_add:
  assumes "idx_ok K st h" and "K k = None"
  shows "idx_ok (K(k \<mapsto> r)) (index_add h k r st) h"
proof -
  have v: "vec_ok (or_else (orders st h) []) (dget (or_else (positions st h) []))
      (or_else (tombstones st h) 0) (dom K)"
    and p: "members_ok (or_else (principal_keys st h) []) row_pk K"
    and i: "members_ok (or_else (ip_keys st h) []) row_ip K"
    and t: "type_ok (or_else (type_orders st h) []) (or_else (type_positions st h) [])
      (or_else (type_tombstones st h) []) K"
    and ri: "\<And>ri. role_indexes st h = Some ri \<Longrightarrow> role_ok ri K"
    using assms(1) by (auto simp: idx_ok_def)
  have "k \<notin> dom K" using assms(2) by auto
  from vec_ok_append [OF v this] members_ok_add [OF p assms(2), of r]
    members_ok_add [OF i assms(2), of r] type_ok_add [OF t assms(2), of r]
    role_ok_add [OF ri assms(2), of _ r]
  show ?thesis
    by (auto simp: idx_ok_def index_add_def role_index_add_eq Let_def slot_pos.at_put split: option.split)
qed

lemma type_ok_remove:
  assumes "type_ok os ps ts K" and "K k = Some r"
  obtains off where "dget (or_else (dget ps (row_type r)) []) k = Some off"
    and "type_ok (dset (row_type r) ((or_else (dget os (row_type r)) [])[off := None]) os)
      (dset (row_type r) (ddel k (or_else (dget ps (row_type r)) [])) ps)
      (dset (row_type r) (or_else (dget ts (row_type r)) 0 + 1) ts) (K(k := None))"
proof -
  have old: "vec_ok (or_else (dget os t) []) (dget (or_else (dget ps t) [])) (or_else (dget ts t) 0)
      (with_feature K row_type t)" for t
    using assms(1) by (simp add: type_ok_def)
  have "k \<in> with_feature K row_type (row_type r)" using assms(2) by (simp add: in_with_feature)
  then have "k \<in> dom (dget (or_else (dget ps (row_type r)) []))"
    using old [of "row_type r"] by (simp add: vec_ok_def)
  then obtain off where off: "dget (or_else (dget ps (row_type r)) []) k = Some off" by blast
  have "type_ok (dset (row_type r) ((or_else (dget os (row_type r)) [])[off := None]) os)
      (dset (row_type r) (ddel k (or_else (dget ps (row_type r)) [])) ps)
      (dset (row_type r) (or_else (dget ts (row_type r)) 0 + 1) ts) (K(k := None))"
    using vec_ok_clear [OF old off] old assms(2)
    by (simp add: type_ok_def with_feature_del slot_pos.at_remove)
  with off that show ?thesis by blast
qed

lemma role_index_remove_ok:
  assumes "role_ok ri K" and "K k = Some r"
  shows "role_ok (case dget (ri_positions ri) k of None \<Rightarrow> ri
      | Some (role, off) \<Rightarrow> ri\<lparr>ri_positions := ddel k (ri_positions ri),
          ri_orders := dset role ((or_else (dget (ri_orders ri) role) [])[off := None]) (ri_orders ri),
          ri_tombstones := dset role (or_else (dget (ri_tombstones ri) role) 0 + 1) (ri_tombstones ri)\<rparr>)
    (K(k := None))"
proof -
  have old: "vec_ok (or_else (dget (ri_orders ri) role) []) (role_at role (ri_positions ri))
     (or_else (dget (ri_tombstones ri) role) 0) (with_feature K (row_role (ri_compiled ri)) (Some role))" for role
    using assms(1) by (simp add: role_ok_def)
  have "k \<in> dom (role_at role (ri_positions ri)) \<longleftrightarrow> k \<in> with_feature K (row_role (ri_compiled ri)) (Some role)" for role
    using old [of role] by (simp add: vec_ok_def)
  then have dom: "k \<in> dom (role_at role (ri_positions ri)) \<longleftrightarrow> row_role (ri_compiled ri) r = Some role" for role
    using assms(2) by (simp add: in_with_feature)
  show ?thesis
  proof (cases "dget (ri_positions ri) k")
    case None
    then have "row_role (ri_compiled ri) r \<noteq> Some role" for role
      using dom [of role] by (auto simp: role_at_def)
    with None old assms(2) show ?thesis by (simp add: role_ok_def with_feature_del)
  next
    case (Some ro)
    obtain role off where ro: "ro = (role, off)" by force
    have at: "role_at role (ri_positions ri) k = Some off" using Some ro by (simp add: role_at_def)
    then have rr: "row_role (ri_compiled ri) r = Some role" using dom by blast
    have other: "role_at role' (ddel k (ri_positions ri)) = role_at role' (ri_positions ri)"
      if "role' \<noteq> role" for role'
      using that Some ro by (auto simp: role_at_def fun_eq_iff)
    from vec_ok_clear [OF old at] old other assms(2) show ?thesis
      by (simp add: Some ro role_ok_def with_feature_del rr role_pos.at_remove)
  qed
qed

lemma role_index_remove_eq:
  "role_index_remove h k st = (case role_indexes st h of None \<Rightarrow> st
     | Some ri \<Rightarrow> st\<lparr>role_indexes := (role_indexes st)(h \<mapsto>
        (case dget (ri_positions ri) k of None \<Rightarrow> ri
         | Some (role, off) \<Rightarrow> ri\<lparr>ri_positions := ddel k (ri_positions ri),
          ri_orders := dset role ((or_else (dget (ri_orders ri) role) [])[off := None]) (ri_orders ri),
          ri_tombstones := dset role (or_else (dget (ri_tombstones ri) role) 0 + 1) (ri_tombstones ri)\<rparr>))\<rparr>)"
  by (auto simp: role_index_remove_def fun_upd_idem split: option.split)

lemma idx_ok_index_remove:
  assumes "idx_ok K st h" and "K k = Some r"
  shows "idx_ok (K(k := None)) (index_remove h k r st) h"
proof -
  have v: "vec_ok (or_else (orders st h) []) (dget (or_else (positions st h) []))
      (or_else (tombstones st h) 0) (dom K)"
    and p: "members_ok (or_else (principal_keys st h) []) row_pk K"
    and i: "members_ok (or_else (ip_keys st h) []) row_ip K"
    and t: "type_ok (or_else (type_orders st h) []) (or_else (type_positions st h) [])
      (or_else (type_tombstones st h) []) K"
    and ri: "\<And>ri. role_indexes st h = Some ri \<Longrightarrow> role_ok ri K"
    using assms(1) by (auto simp: idx_ok_def)
  have "k \<in> dom (dget (or_else (positions st h) []))"
    using v assms(2) by (auto simp: vec_ok_def)
  then obtain pos where pos: "dget (or_else (positions st h) []) k = Some pos" by blast
  obtain off where off: "dget (or_else (dget (or_else (type_positions st h) []) (row_type r)) []) k = Some off"
    and t': "type_ok (dset (row_type r) ((or_else (dget (or_else (type_orders st h) []) (row_type r)) [])[off := None])
          (or_else (type_orders st h) []))
      (dset (row_type r) (ddel k (or_else (dget (or_else (type_positions st h) []) (row_type r)) []))
          (or_else (type_positions st h) []))
      (dset (row_type r) (or_else (dget (or_else (type_tombstones st h) []) (row_type r)) 0 + 1)
          (or_else (type_tombstones st h) [])) (K(k := None))"
    using type_ok_remove [OF t assms(2)] by blast
  have v': "vec_ok ((or_else (orders st h) [])[pos := None]) ((dget (or_else (positions st h) []))(k := None))
      (Suc (or_else (tombstones st h) 0)) (dom (K(k := None)))"
    using vec_ok_clear [OF v pos] by simp
  show ?thesis
    using v' members_ok_pop [OF p assms(2)] members_ok_pop [OF i assms(2)] t'
      role_index_remove_ok [OF ri assms(2)]
    by (auto simp: idx_ok_def index_remove_def role_index_remove_eq Let_def pos off slot_pos.at_remove
        split: option.split)
qed

lemma index_remove_fields:
  "swarms (index_remove h k r st) = swarms st" "downloaded (index_remove h k r st) = downloaded st"
  "transfer_counters (index_remove h k r st) = transfer_counters st"
  "reg_interval (index_remove h k r st) = reg_interval st"
  by (simp_all add: index_remove_def role_index_remove_eq Let_def split: option.split)

text \<open>The fields of another swarm are untouched.\<close>

definition same_index :: "info_hash \<Rightarrow> registry \<Rightarrow> registry \<Rightarrow> bool" where
  "same_index h st st' \<longleftrightarrow>
     orders st' h = orders st h \<and> positions st' h = positions st h \<and> tombstones st' h = tombstones st h \<and>
     principal_keys st' h = principal_keys st h \<and> ip_keys st' h = ip_keys st h \<and>
     type_orders st' h = type_orders st h \<and> type_positions st' h = type_positions st h \<and>
     type_tombstones st' h = type_tombstones st h \<and> role_indexes st' h = role_indexes st h"

lemma idx_ok_same_index: "same_index h st st' \<Longrightarrow> idx_ok K st' h = idx_ok K st h"
  by (simp add: same_index_def idx_ok_def)

lemma same_index_index_add: "h' \<noteq> h \<Longrightarrow> same_index h' st (index_add h k r st)"
  by (simp add: same_index_def index_add_def role_index_add_eq Let_def split: option.split)

lemma same_index_index_remove: "h' \<noteq> h \<Longrightarrow> same_index h' st (index_remove h k r st)"
  by (simp add: same_index_def index_remove_def role_index_remove_eq Let_def split: option.split)

lemma idx_ok_same_row:
  assumes "idx_ok K st h" and "K k = Some r0" and "row_ip r = row_ip r0"
    and "row_principal r = row_principal r0"
  shows "idx_ok (K(k \<mapsto> r)) st h"
proof -
  have "dom (K(k \<mapsto> r)) = dom K" using assms(2) by auto
  moreover have "row_role c r = row_role c r0" for c using assms(4) by (simp add: row_role_def)
  ultimately show ?thesis
    using assms by (simp add: idx_ok_def members_ok_same type_ok_def role_ok_def with_feature_same)
qed

lemma idx_ok_empty:
  "orders st h = None \<Longrightarrow> positions st h = None \<Longrightarrow> tombstones st h = None \<Longrightarrow>
   principal_keys st h = None \<Longrightarrow> ip_keys st h = None \<Longrightarrow> type_orders st h = None \<Longrightarrow>
   type_positions st h = None \<Longrightarrow> type_tombstones st h = None \<Longrightarrow> role_indexes st h = None \<Longrightarrow>
   idx_ok Map.empty st h"
  by (simp add: idx_ok_def vec_ok_def type_ok_def)

section \<open>Compaction\<close>

lemma index_table_coherent:
  assumes "slots_rel order at"
  shows "slots_rel (map Some (live order)) (dget (index_table (live order)))"
proof -
  have d: "distinct (live order)" by (rule slots_rel_distinct [OF assms])
  have "dget (index_table (live order)) = (\<lambda>k. find_in k (live order))"
    unfolding index_table_def slot_pos.put_all [OF d]
    by (auto simp: fun_eq_iff find_in_None [THEN iffD2])
  with slots_rel_map_Some [OF d] show ?thesis by simp
qed

lemma vec_ok_compacted:
  "vec_ok order at tomb D \<Longrightarrow> vec_ok (map Some (live order)) (dget (index_table (live order))) 0 D"
  by (rule vec_ok_compact) (auto simp: vec_ok_def index_table_coherent)

lemma idx_ok_compact_order: "idx_ok K st h \<Longrightarrow> idx_ok K (compact_order h force st) h"
  by (auto simp: idx_ok_def compact_order_def Let_def vec_ok_compacted)

lemma idx_ok_compact_type: "idx_ok K st h \<Longrightarrow> idx_ok K (fst (compact_type h t st)) h"
  by (auto simp: idx_ok_def compact_type_def Let_def type_ok_def intro: vec_ok_compacted)

lemma role_ok_compact_role:
  assumes "role_ok ri K"
  shows "role_ok (fst (compact_role ri role)) K"
proof -
  let ?o = "or_else (dget (ri_orders ri) role) []"
  have ok: "vec_ok (or_else (dget (ri_orders ri) r) []) (role_at r (ri_positions ri))
     (or_else (dget (ri_tombstones ri) r) 0) (with_feature K (row_role (ri_compiled ri)) (Some r))" for r
    using assms by (simp add: role_ok_def)
  then have rel: "slots_rel ?o (role_at role (ri_positions ri))" by (simp add: vec_ok_def)
  let ?p = "foldl (\<lambda>d (offset, key). dset key (role, offset) d) (ri_positions ri) (enumerate 0 (live ?o))"
  have here: "vec_ok (map Some (live ?o)) (role_at role ?p) 0 (with_feature K (row_role (ri_compiled ri)) (Some role))"
    by (rule vec_ok_compact [OF ok role_pos.compact_coherent [OF rel]])
  have live_role: "\<exists>i. dget (ri_positions ri) k = Some (role, i)" if "k \<in> set (live ?o)" for k
    using that slots_rel_live [OF rel] by (auto simp: role_at_def dom_def split: option.splits if_splits)
  have "dget (foldl (\<lambda>d (offset, key). dset key (role, offset) d) (ri_positions ri) (enumerate 0 ks)) k
      = (if k \<in> set ks then Some (role, the (find_in k ks)) else dget (ri_positions ri) k)"
    if "distinct ks" for ks k
    using that
  proof (induction ks rule: rev_induct)
    case (snoc x ks)
    have "find_in k (ks @ [x]) = find_in k ks" if "k \<in> set ks"
      using that by (induction ks) auto
    moreover have "find_in x (ks @ [x]) = Some (length ks)"
      using snoc.prems find_in_prefix [of x ks "[]"] by simp
    ultimately show ?case using snoc by (simp add: foldl_enumerate_snoc)
  qed simp
  from this [OF slots_rel_distinct [OF rel]]
  have others: "role_at r ?p = role_at r (ri_positions ri)" if "r \<noteq> role" for r
    using that live_role by (fastforce simp: role_at_def fun_eq_iff split: option.splits)
  show ?thesis
    using ok here others by (auto simp: role_ok_def compact_role_def Let_def)
qed

lemma role_ok_role_sources: "role_ok ri K \<Longrightarrow> role_ok (fst (role_sources ri roles)) K"
proof (induction roles arbitrary: ri)
  case (Cons role rs)
  obtain ri1 o1 where c: "compact_role ri role = (ri1, o1)" by force
  have "role_ok ri1 K" using role_ok_compact_role [OF Cons.prems, of role] c by simp
  from Cons.IH [OF this] show ?case by (simp add: c case_prod_beta Let_def)
qed simp

section \<open>Building a role index\<close>

definition role_index_step :: "compiled_roles \<Rightarrow> (peer_key, row) dict \<Rightarrow> role_index \<Rightarrow> peer_key option \<Rightarrow> role_index"
  where
  "role_index_step compiled swarm ri slot = (case slot of None \<Rightarrow> ri
     | Some key \<Rightarrow> (case dget swarm key of None \<Rightarrow> ri
         | Some r \<Rightarrow> (case row_role compiled r of None \<Rightarrow> ri
             | Some role \<Rightarrow> ri\<lparr>ri_orders := dset role (or_else (dget (ri_orders ri) role) [] @ [Some key]) (ri_orders ri),
                 ri_positions := dset key (role, length (or_else (dget (ri_orders ri) role) [])) (ri_positions ri)\<rparr>)))"

lemma role_index_step_simps:
  "role_index_step c swarm ri None = ri"
  "dget swarm k = None \<Longrightarrow> role_index_step c swarm ri (Some k) = ri"
  "dget swarm k = Some r \<Longrightarrow> role_index_step c swarm ri (Some k) =
     (case row_role c r of None \<Rightarrow> ri
      | Some role \<Rightarrow> ri\<lparr>ri_orders := dset role (or_else (dget (ri_orders ri) role) [] @ [Some k]) (ri_orders ri),
          ri_positions := dset k (role, length (or_else (dget (ri_orders ri) role) [])) (ri_positions ri)\<rparr>)"
  by (simp_all add: role_index_step_def)

lemma live_append: "live (xs @ ys) = live xs @ live ys"
  by (induction xs rule: live.induct) auto

lemma build_role_index_eq:
  "build_role_index compiled swarm order = foldl (role_index_step compiled swarm)
     \<lparr>ri_compiled = compiled, ri_orders = [], ri_positions = [], ri_tombstones = []\<rparr> order"
proof -
  have "(\<lambda>ri slot. case slot of None \<Rightarrow> ri
         | Some key \<Rightarrow> (case dget swarm key of None \<Rightarrow> ri
             | Some r \<Rightarrow>
                 if ptype (row_principal r) \<noteq> ''device'' then ri
                 else (case role_of compiled (pid (row_principal r)) of
                     None \<Rightarrow> ri
                   | Some role \<Rightarrow>
                       let o' = or_else (dget (ri_orders ri) role) []
                       in ri\<lparr>ri_orders := dset role (o' @ [Some key]) (ri_orders ri),
                             ri_positions := dset key (role, length o') (ri_positions ri)\<rparr>)))
      = role_index_step compiled swarm"
    by (auto simp: fun_eq_iff role_index_step_def row_role_def Let_def split: option.split)
  then show ?thesis by (simp add: build_role_index_def)
qed

lemma build_role_index_ok:
  assumes "distinct (live order)"
  shows "role_ok (build_role_index compiled swarm order) (dget swarm |` set (live order)) \<and>
    ri_compiled (build_role_index compiled swarm order) = compiled"
  using assms unfolding build_role_index_eq
proof (induction order rule: rev_induct)
  case Nil
  then show ?case by (simp add: role_ok_def vec_ok_def role_at_def fun_eq_iff)
next
  case (snoc s order)
  have d: "distinct (live order)" using snoc.prems by (simp add: live_append)
  show ?case
  proof (cases s)
    case None
    then show ?thesis using snoc.IH [OF d] by (simp add: live_append role_index_step_simps)
  next
    case (Some k)
    let ?ri = "foldl (role_index_step compiled swarm)
      \<lparr>ri_compiled = compiled, ri_orders = [], ri_positions = [], ri_tombstones = []\<rparr> order"
    have k: "k \<notin> set (live order)" using snoc.prems Some by (simp add: live_append)
    have ok: "role_ok ?ri (dget swarm |` set (live order))" and c: "ri_compiled ?ri = compiled"
      using snoc.IH [OF d] by auto
    show ?thesis
    proof (cases "dget swarm k")
      case None
      then have "dget swarm |` insert k (set (live order)) = dget swarm |` set (live order)"
        by (auto simp: restrict_map_def fun_eq_iff)
      with None Some ok c show ?thesis by (simp add: live_append role_index_step_simps)
    next
      case (Some r)
      have "(dget swarm |` set (live order)) k = None" using k by (simp add: restrict_map_def)
      from role_ok_add [OF ok this, of r] Some c
      have step: "role_ok (role_index_step compiled swarm ?ri (Some k)) ((dget swarm |` set (live order))(k \<mapsto> r))
          \<and> ri_compiled (role_index_step compiled swarm ?ri (Some k)) = compiled"
        by (cases "row_role compiled r") (simp_all add: role_index_step_simps)
      have K: "dget swarm |` insert k (set (live order)) = (dget swarm |` set (live order))(k \<mapsto> r)"
        using Some by (auto simp: restrict_map_def fun_eq_iff)
      have "set (live (order @ [Some k])) = insert k (set (live order))" by (simp add: live_append)
      with step show ?thesis unfolding \<open>s = Some k\<close> by (simp only: K foldl_append foldl.simps)
    qed
  qed
qed

lemma role_ok_build:
  assumes "idx_ok (dget swarm) st h"
  shows "role_ok (build_role_index compiled swarm (or_else (orders st h) [])) (dget swarm)"
proof -
  let ?o = "or_else (orders st h) []"
  have rel: "slots_rel ?o (dget (or_else (positions st h) []))"
    and dom: "dom (dget (or_else (positions st h) [])) = dom (dget swarm)"
    using assms by (auto simp: idx_ok_def vec_ok_def)
  have "set (live ?o) = dom (dget swarm)" using slots_rel_live [OF rel] dom by simp
  then have "dget swarm |` set (live ?o) = dget swarm"
    by (auto simp: restrict_map_def fun_eq_iff)
  with build_role_index_ok [OF slots_rel_distinct [OF rel], of compiled swarm] show ?thesis by simp
qed

section \<open>Membership operations keep the invariant\<close>

lemma reg_invD:
  assumes "reg_inv st"
  shows "dwf (swarms st)" "dwf (downloaded st)" "dwf (swarm_of st h)"
    "idx_ok (dget (swarm_of st h)) st h"
    "filed row_key (dget (swarm_of st h))"
  using assms by (auto simp: reg_inv_def)

lemma reg_inv_new: "reg_inv (new_registry interval rpi)"
  by (simp add: reg_inv_def new_registry_def swarm_of_def idx_ok_empty fun_eq_iff)

lemma swarm_of_set: "swarm_of (st\<lparr>swarms := dset h s (swarms st)\<rparr>) h' = (if h' = h then s else swarm_of st h')"
  by (simp add: swarm_of_def)

text \<open>A step that only touches swarm \<open>h\<close> keeps the invariant if it does for \<open>h\<close>.\<close>

lemma reg_inv_one_swarm:
  assumes inv: "reg_inv st" and "dwf (swarms st')" and "dwf (downloaded st')"
    and frame: "\<And>h'. h' \<noteq> h \<Longrightarrow> same_index h' st st' \<and> swarm_of st' h' = swarm_of st h'"
    and "dwf (swarm_of st' h)" and "idx_ok (dget (swarm_of st' h)) st' h"
    and "filed row_key (dget (swarm_of st' h))"
  shows "reg_inv st'"
  unfolding reg_inv_def
proof (intro conjI allI)
  fix h'
  show "dwf (swarm_of st' h')"
    using assms reg_invD(3) [OF inv, of h'] by (cases "h' = h") auto
  show "idx_ok (dget (swarm_of st' h')) st' h'"
    using assms reg_invD(4) [OF inv, of h'] idx_ok_same_index [of h' st st'] by (cases "h' = h") auto
  show "filed row_key (dget (swarm_of st' h'))"
    using assms reg_invD(5) [OF inv, of h'] by (cases "h' = h") auto
qed (use assms in auto)

lemma same_index_refl_upd [simp]:
  "same_index h st (st\<lparr>swarms := x\<rparr>)" "same_index h st (st\<lparr>downloaded := d\<rparr>)"
  "same_index h st (st\<lparr>transfer_counters := c\<rparr>)" "same_index h st (st\<lparr>last_read_prune := l\<rparr>)"
  "same_index h st st"
  by (simp_all add: same_index_def)

lemma same_index_trans: "same_index h a b \<Longrightarrow> same_index h b c \<Longrightarrow> same_index h a c"
  by (simp add: same_index_def)

lemma swarm_of_index [simp]:
  "swarm_of (index_add h k r st) = swarm_of st" "swarm_of (index_remove h k r st) = swarm_of st"
  "swarm_of (st\<lparr>downloaded := d\<rparr>) = swarm_of st" "swarm_of (st\<lparr>transfer_counters := c\<rparr>) = swarm_of st"
  "swarm_of (st\<lparr>last_read_prune := l\<rparr>) = swarm_of st"
  by (simp_all add: swarm_of_def fun_eq_iff index_add_fields index_remove_fields)

lemma idx_ok_fields [simp]:
  "idx_ok K (st\<lparr>swarms := x\<rparr>) h = idx_ok K st h" "idx_ok K (st\<lparr>downloaded := d\<rparr>) h = idx_ok K st h"
  "idx_ok K (st\<lparr>transfer_counters := c\<rparr>) h = idx_ok K st h"
  "idx_ok K (st\<lparr>last_read_prune := l\<rparr>) h = idx_ok K st h"
  by (simp_all add: idx_ok_def)

lemma reg_inv_fields:
  "reg_inv st \<Longrightarrow> reg_inv (st\<lparr>transfer_counters := c\<rparr>)"
  "reg_inv st \<Longrightarrow> reg_inv (st\<lparr>last_read_prune := l\<rparr>)"
  "reg_inv st \<Longrightarrow> dwf d \<Longrightarrow> reg_inv (st\<lparr>downloaded := d\<rparr>)"
  by (simp_all add: reg_inv_def)

lemma dget_ddel_fun: "dget (ddel k d) = (dget d)(k := None)"
  by (simp add: fun_eq_iff)

lemma dget_dset_fun: "dget (dset k v d) = (dget d)(k \<mapsto> v)"
  by (simp add: fun_eq_iff)

text \<open>What removing one record leaves: the indexes without it, the counters possibly trimmed.\<close>

lemma remove_record_swarm:
  "swarm_of (fst (remove_record h k st)) h' =
     (if h' = h then ddel k (swarm_of st h) else swarm_of st h')"
proof (cases "dget (swarm_of st h) k")
  case None
  then have "ddel k (swarm_of st h) = swarm_of st h"
    by (simp add: dget_None_iff AList.delete_idem)
  with None show ?thesis by (simp add: remove_record_def)
next
  case (Some r)
  then show ?thesis
    by (simp add: remove_record_def Let_def swarm_of_set split: option.split)
qed

lemma reg_inv_remove_record:
  assumes "reg_inv st"
  shows "reg_inv (fst (remove_record h k st))"
proof (cases "dget (swarm_of st h) k")
  case None
  with assms show ?thesis by (simp add: remove_record_def)
next
  case (Some r)
  let ?st0 = "st\<lparr>swarms := dset h (ddel k (swarm_of st h)) (swarms st)\<rparr>"
  let ?st1 = "index_remove h k r ?st0"
  have "reg_inv ?st1"
  proof (rule reg_inv_one_swarm [OF assms, of _ h])
    show "dwf (swarms ?st1)" using reg_invD(1) [OF assms] by (simp add: index_remove_fields dwf_dset)
    show "dwf (downloaded ?st1)" using reg_invD(2) [OF assms] by (simp add: index_remove_fields)
    show "same_index h' st ?st1 \<and> swarm_of ?st1 h' = swarm_of st h'" if "h' \<noteq> h" for h'
      using that same_index_trans [OF same_index_refl_upd(1) same_index_index_remove [OF that]]
      by (simp add: swarm_of_set)
    show "dwf (swarm_of ?st1 h)"
      using reg_invD(3) [OF assms] by (simp add: swarm_of_set dwf_ddel)
    have "idx_ok ((dget (swarm_of st h))(k := None)) ?st1 h"
      by (rule idx_ok_index_remove) (simp_all add: reg_invD(4) [OF assms] Some)
    then show "idx_ok (dget (swarm_of ?st1 h)) ?st1 h" by (simp add: swarm_of_set dget_ddel_fun)
    show "filed row_key (dget (swarm_of ?st1 h))"
      using reg_invD(5) [OF assms] by (simp add: swarm_of_set dget_ddel_fun filed_del)
  qed
  then show ?thesis
    by (auto simp: remove_record_def Some Let_def reg_inv_fields split: option.split)
qed

end
