(* ===== verification/Registry_Steps.thy ===== *)
theory Registry_Steps
  imports Registry_Index
begin

text \<open>
  The registry as a state machine: every public method of \<^verbatim>\<open>PeerRegistry\<close> is a step, every reachable
  state satisfies the index invariant, and the properties of discovery, pruning, transfer counters
  and completion history follow.
\<close>

section \<open>Announce\<close>

lemma counter_delta_fields:
  assumes "counter_delta h p peer_id e u d now st = (st', ud, dd, reset)"
  shows "\<exists>c. st' = st\<lparr>transfer_counters := c\<rparr>"
proof -
  have upd: "\<exists>c. (if b then st\<lparr>transfer_counters := x\<rparr> else st) = st\<lparr>transfer_counters := c\<rparr>" for b x
    by (cases b) (auto intro: exI [of _ "transfer_counters st"])
  have "st' = fst (counter_delta h p peer_id e u d now st)" using assms by simp
  also have "\<exists>c. \<dots> = st\<lparr>transfer_counters := c\<rparr>"
    unfolding counter_delta_def Let_def case_prod_beta fst_conv by (rule upd)
  finally show ?thesis .
qed

lemma dwf_note_completed: "dwf d \<Longrightarrow> dwf (note_completed h now d)"
  by (auto simp: note_completed_def Let_def split: option.split)

lemma reg_inv_cleanup_empty:
  assumes "reg_inv st" and "sw = [] \<Longrightarrow> swarm_of st h = []"
  shows "reg_inv (cleanup_empty h sw now st)"
proof (cases "sw = []")
  case True
  let ?st1 = "st\<lparr>swarms := ddel h (swarms st), orders := (orders st)(h := None),
      positions := (positions st)(h := None), principal_keys := (principal_keys st)(h := None),
      ip_keys := (ip_keys st)(h := None), type_orders := (type_orders st)(h := None),
      type_positions := (type_positions st)(h := None), type_tombstones := (type_tombstones st)(h := None),
      tombstones := (tombstones st)(h := None), role_indexes := (role_indexes st)(h := None)\<rparr>"
  have sw: "swarm_of ?st1 h = []" by (simp add: swarm_of_def)
  have "reg_inv ?st1"
  proof (rule reg_inv_one_swarm [OF assms(1), of _ h])
    show "dwf (swarms ?st1)" using reg_invD(1) [OF assms(1)] by (simp add: dwf_ddel)
    show "dwf (downloaded ?st1)" using reg_invD(2) [OF assms(1)] by simp
    show "same_index h' st ?st1 \<and> swarm_of ?st1 h' = swarm_of st h'" if "h' \<noteq> h" for h'
      using that by (simp add: same_index_def swarm_of_def)
    show "idx_ok (dget (swarm_of ?st1 h)) ?st1 h" unfolding sw by (simp add: idx_ok_empty fun_eq_iff)
  qed (simp_all add: sw)
  then show ?thesis
    using True dwf_ddel [OF reg_invD(2) [OF assms(1)], of h]
    by (auto simp: cleanup_empty_def Let_def intro!: reg_inv_fields(3) split: option.split)
next
  case False
  with assms show ?thesis by (simp add: cleanup_empty_def)
qed

lemma reg_inv_ensure_swarm:
  assumes "reg_inv st"
  shows "reg_inv (ensure_swarm h st)"
proof (cases "dget (swarms st) h = None")
  case True
  let ?st = "st\<lparr>swarms := dset h [] (swarms st)\<rparr>"
  have sw: "swarm_of ?st h' = swarm_of st h'" for h' using True by (simp add: swarm_of_def)
  have "reg_inv ?st"
    using assms by (simp add: reg_inv_def sw dwf_dset)
  with True show ?thesis by (simp add: ensure_swarm_def)
next
  case False
  then have "ensure_swarm h st = st" by (simp only: ensure_swarm_def if_False)
  with assms show ?thesis by simp
qed

lemma swarm_of_ensure [simp]: "swarm_of (ensure_swarm h st) h' = swarm_of st h'"
  by (simp add: ensure_swarm_def swarm_of_def)

lemma swarm_of_put_row:
  "swarm_of (put_row h k prev r st) h' = (if h' = h then dset k r (swarm_of st h) else swarm_of st h')"
  by (auto simp: put_row_def Let_def swarm_of_def index_add_fields index_remove_fields split: option.split)

lemma reg_inv_put_row:
  assumes inv: "reg_inv st" and key: "k = row_key r" and prev: "prev = dget (swarm_of st h) k"
  shows "reg_inv (put_row h k prev r st)"
proof -
  define st3 where "st3 = (case prev of
        Some pr \<Rightarrow> if row_ip pr \<noteq> row_ip r \<or> row_principal pr \<noteq> row_principal r
                   then index_add h k r (index_remove h k pr st) else st
      | None \<Rightarrow> index_add h k r st)"
  let ?K = "dget (swarm_of st h)"
  let ?st = "put_row h k prev r st"
  have put: "?st = st3\<lparr>swarms := dset h (dset k r (swarm_of st3 h)) (swarms st3)\<rparr>"
    by (simp only: put_row_def st3_def Let_def)
  have fields: "swarms st3 = swarms st" "downloaded st3 = downloaded st" "swarm_of st3 = swarm_of st"
    unfolding st3_def by (auto simp: index_add_fields index_remove_fields split: option.split)
  have other: "same_index h' st st3" if "h' \<noteq> h" for h'
    unfolding st3_def
    using that by (auto intro: same_index_trans same_index_index_add same_index_index_remove split: option.split)
  have ok: "idx_ok ?K st h" by (rule reg_invD(4) [OF inv])
  have idx: "idx_ok (?K(k \<mapsto> r)) st3 h"
  proof (cases "?K k")
    case None
    with idx_ok_index_add [OF ok, of k r] prev show ?thesis by (simp add: st3_def)
  next
    case (Some pr)
    show ?thesis
    proof (cases "row_ip pr \<noteq> row_ip r \<or> row_principal pr \<noteq> row_principal r")
      case True
      have "idx_ok ((?K(k := None))(k \<mapsto> r)) (index_add h k r (index_remove h k pr st)) h"
        by (rule idx_ok_index_add [OF idx_ok_index_remove [OF ok Some]]) simp
      with True Some prev show ?thesis by (simp add: st3_def)
    next
      case False
      with idx_ok_same_row [OF ok Some, of r] Some prev show ?thesis by (simp add: st3_def)
    qed
  qed
  show ?thesis
  proof (rule reg_inv_one_swarm [OF inv, of _ h])
    show "dwf (swarms ?st)" using reg_invD(1) [OF inv] fields by (simp add: put dwf_dset)
    show "dwf (downloaded ?st)" using reg_invD(2) [OF inv] fields by (simp add: put)
    show "same_index h' st ?st \<and> swarm_of ?st h' = swarm_of st h'" if "h' \<noteq> h" for h'
      using that other [OF that] by (simp add: swarm_of_put_row) (simp add: put same_index_def)
    show "dwf (swarm_of ?st h)"
      using reg_invD(3) [OF inv] by (simp add: swarm_of_put_row dwf_dset)
    show "idx_ok (dget (swarm_of ?st h)) ?st h"
      using idx by (simp add: swarm_of_put_row dget_dset_fun) (simp add: put)
    show "filed row_key (dget (swarm_of ?st h))"
      using filed_upd [OF reg_invD(5) [OF inv, of h] key] by (simp add: swarm_of_put_row dget_dset_fun)
  qed
qed

lemma reg_inv_announce_stopped: "reg_inv st \<Longrightarrow> reg_inv (fst (announce_stopped a p k st))"
  by (simp add: announce_stopped_def Let_def case_prod_beta reg_inv_cleanup_empty reg_inv_remove_record)

lemma reg_inv_announce_present:
  assumes inv: "reg_inv st" and k: "k = (ptype p, pid p, a_peer_id a)"
  shows "reg_inv (fst (announce_present a p k st))"
proof -
  let ?h = "a_info_hash a" and ?now = "a_now a"
  obtain st1 ud dd reset where cd: "counter_delta ?h p (a_peer_id a) (a_event a) (a_uploaded a)
      (a_downloaded a) ?now st = (st1, ud, dd, reset)"
    by (cases "counter_delta ?h p (a_peer_id a) (a_event a) (a_uploaded a) (a_downloaded a) ?now st")
  obtain joined completed where ct: "cycle_times (dget (swarm_of st ?h) k) (a_left a) ?now = (joined, completed)"
    by (cases "cycle_times (dget (swarm_of st ?h) k) (a_left a) ?now")
  obtain c where st1: "st1 = st\<lparr>transfer_counters := c\<rparr>" using counter_delta_fields [OF cd] by blast
  define st2 where "st2 = (if a_event a = Some ''completed''
      then st1\<lparr>downloaded := note_completed ?h ?now (downloaded st1)\<rparr> else st1)"
  have inv1: "reg_inv st1" unfolding st1 by (rule reg_inv_fields(1) [OF inv])
  have inv2: "reg_inv st2"
    unfolding st2_def using inv1 reg_invD(2) [OF inv1] by (simp add: reg_inv_fields(3) dwf_note_completed)
  have sw: "swarm_of st2 = swarm_of st" unfolding st2_def st1 by simp
  have eq: "announce_present a p k st = (put_row ?h k (dget (swarm_of st ?h) k)
      \<lparr>row_ip = a_ip a, row_port = a_port a, row_last_seen = ?now, row_left = a_left a,
       row_joined_at = joined,
       row_completed_at = (if a_event a = Some ''completed'' \<and> completed = None then Some ?now else completed),
       row_peer_id = a_peer_id a, row_principal = p,
       row_interval = or_else (a_interval a) (reg_interval st2),
       row_uploaded_delta = ud, row_downloaded_delta = dd, row_counter_reset = reset,
       row_legacy_restricted = a_legacy_restricted a\<rparr> st2,
      (if dget (swarm_of st ?h) k = None then [mk_event ''join'' a p] else []) @
      (if a_event a = Some ''completed'' then [mk_event ''complete'' a p] else []))"
    unfolding announce_present_def Let_def cd ct prod.case st2_def ..
  show ?thesis
    unfolding eq fst_conv by (rule reg_inv_put_row [OF inv2]) (simp_all add: row_key_def k sw)
qed

lemma reg_inv_announce: "reg_inv st \<Longrightarrow> reg_inv (fst (announce a st))"
  by (simp add: announce_def Let_def reg_inv_announce_stopped reg_inv_announce_present reg_inv_ensure_swarm)

section \<open>Pruning\<close>

lemma remove_stale_swarm:
  "swarm_of (fst (remove_stale h now ks st)) h' =
     (if h' = h then foldl (\<lambda>d k. ddel k d) (swarm_of st h) ks else swarm_of st h')"
proof (induction ks arbitrary: st)
  case (Cons k ks)
  show ?case
    by (simp add: case_prod_beta Let_def Cons.IH remove_record_swarm)
qed simp

lemma reg_inv_remove_stale: "reg_inv st \<Longrightarrow> reg_inv (fst (remove_stale h now ks st))"
  by (induction ks arbitrary: st) (simp_all add: case_prod_beta Let_def reg_inv_remove_record)

lemma filter_stale:
  assumes "dwf d"
  shows "filter (\<lambda>(k, v). k \<notin> set (map fst (filter (\<lambda>(k, r). P r) d))) d = filter (\<lambda>(k, r). \<not> P r) d"
proof (rule filter_cong [OF refl])
  fix x
  assume x: "x \<in> set d"
  obtain k v where kv: "x = (k, v)" by (cases x)
  have uniq: "w = v" if "(k, w) \<in> set d" for w
    using dwf_dget_iff [OF assms, of k v] dwf_dget_iff [OF assms, of k w] that x kv by simp
  have "k \<in> set (map fst (filter (\<lambda>(k, r). P r) d)) \<longleftrightarrow> (\<exists>w. (k, w) \<in> set d \<and> P w)"
    by (auto simp: image_iff)
  then show "(case x of (k, v) \<Rightarrow> k \<notin> set (map fst (filter (\<lambda>(k, r). P r) d)))
      = (case x of (k, r) \<Rightarrow> \<not> P r)"
    using uniq x unfolding kv prod.case by blast
qed

text \<open>Pruning one swarm keeps exactly the rows that are not stale, in order.\<close>

lemma prune_swarm:
  assumes "dwf (swarm_of st h)"
  shows "swarm_of (fst (prune h now st)) h' =
     (if h' = h then filter (\<lambda>(k, r). \<not> is_stale now r) (swarm_of st h) else swarm_of st h')"
  unfolding prune_def remove_stale_swarm foldl_ddel filter_stale [OF assms] by simp

lemma reg_inv_prune: "reg_inv st \<Longrightarrow> reg_inv (fst (prune h now st))"
  by (simp add: prune_def reg_inv_remove_stale)

lemma cleanup_swarm:
  "sw = [] \<Longrightarrow> swarm_of st h = [] \<Longrightarrow> swarm_of (cleanup_empty h sw now st) h' = swarm_of st h'"
  by (simp add: cleanup_empty_def swarm_of_def Let_def split: option.split)

lemma cleanup_self: "swarm_of (cleanup_empty h (swarm_of st h) now st) h' = swarm_of st h'"
proof (cases "swarm_of st h = []")
  case True
  then show ?thesis using cleanup_swarm [OF refl True] by simp
next
  case False
  then show ?thesis by (simp add: cleanup_empty_def)
qed

lemma prune_swarms_inv: "reg_inv st \<Longrightarrow> reg_inv (fst (prune_swarms hs now st))"
proof (induction hs arbitrary: st)
  case (Cons h hs)
  then show ?case
    by (simp add: case_prod_beta Let_def reg_inv_cleanup_empty reg_inv_prune)
qed simp

lemma prune_swarms_swarm:
  "reg_inv st \<Longrightarrow> swarm_of (fst (prune_swarms hs now st)) h =
     (if h \<in> set hs then filter (\<lambda>(k, r). \<not> is_stale now r) (swarm_of st h) else swarm_of st h)"
proof (induction hs arbitrary: st)
  case (Cons h' hs)
  let ?st1 = "fst (prune h' now st)"
  let ?st2 = "cleanup_empty h' (swarm_of ?st1 h') now ?st1"
  have "reg_inv ?st2" using Cons.prems by (simp add: reg_inv_cleanup_empty reg_inv_prune)
  have step: "fst (prune_swarms (h' # hs) now st) = fst (prune_swarms hs now ?st2)"
    by (simp only: prune_swarms.simps Let_def case_prod_beta fst_conv)
  have sw: "swarm_of ?st2 h = (if h = h' then filter (\<lambda>(k, r). \<not> is_stale now r) (swarm_of st h') else swarm_of st h)"
    unfolding cleanup_self by (rule prune_swarm [OF reg_invD(3) [OF Cons.prems]])
  show ?case unfolding step Cons.IH [OF \<open>reg_inv ?st2\<close>] sw by simp
qed simp

lemma swarm_of_absent: "dget (swarms st) h = None \<Longrightarrow> swarm_of st h = []"
  by (simp add: swarm_of_def)

lemma clean_downloaded_inv: "reg_inv st \<Longrightarrow> reg_inv (clean_downloaded now st)"
proof -
  have "reg_inv (foldl (\<lambda>s h. if dget (swarms s) h = None then cleanup_empty h [] now s else s) s hs)"
    if "reg_inv s" for s hs
    using that by (induction hs arbitrary: s) (simp_all add: reg_inv_cleanup_empty swarm_of_absent)
  then show "reg_inv st \<Longrightarrow> ?thesis" by (simp add: clean_downloaded_def)
qed

lemma clean_downloaded_swarm: "swarm_of (clean_downloaded now st) h = swarm_of st h"
proof -
  have "swarm_of (foldl (\<lambda>s h. if dget (swarms s) h = None then cleanup_empty h [] now s else s) s hs) h
      = swarm_of s h" for s hs
    by (induction hs arbitrary: s) (simp_all add: cleanup_swarm swarm_of_absent)
  then show ?thesis by (simp add: clean_downloaded_def)
qed

lemma reg_inv_read_prune: "reg_inv st \<Longrightarrow> reg_inv (fst (read_prune_locked now force st))"
  by (simp add: read_prune_locked_def Let_def case_prod_beta clean_downloaded_inv prune_swarms_inv reg_inv_fields)

lemma read_prune_swarm:
  assumes "reg_inv st"
  shows "swarm_of (fst (read_prune_locked now force st)) h =
     (if prune_due now force st then filter (\<lambda>(k, r). \<not> is_stale now r) (swarm_of st h) else swarm_of st h)"
proof -
  let ?st0 = "st\<lparr>last_read_prune := Some now\<rparr>"
  have inv: "reg_inv ?st0" by (rule reg_inv_fields(2) [OF assms])
  have "swarm_of ?st0 h = []" if "h \<notin> set (dkeys (swarms ?st0))"
    using that by (intro swarm_of_absent) (simp add: dget_None_iff)
  then show ?thesis
    by (auto simp: read_prune_locked_def Let_def case_prod_beta clean_downloaded_swarm
        prune_swarms_swarm [OF inv])
qed

section \<open>Candidate sources\<close>

lemma candidate_role_part:
  assumes inv: "reg_inv st"
  shows "reg_inv (fst (get_role_index h c st)\<lparr>role_indexes :=
      (role_indexes (fst (get_role_index h c st)))(h \<mapsto> fst (role_sources (snd (get_role_index h c st)) rs))\<rparr>)"
    and "role_ok (snd (get_role_index h c st)) (dget (swarm_of st h))"
proof -
  let ?st1 = "fst (get_role_index h c st)" and ?ri = "snd (get_role_index h c st)"
  let ?st2 = "?st1\<lparr>role_indexes := (role_indexes ?st1)(h \<mapsto> fst (role_sources ?ri rs))\<rparr>"
  have ok: "idx_ok (dget (swarm_of st h)) st h" by (rule reg_invD(4) [OF inv])
  have build: "role_ok (build_role_index c (swarm_of st h) (or_else (orders st h) [])) (dget (swarm_of st h))"
    by (rule role_ok_build [OF ok])
  show ri: "role_ok ?ri (dget (swarm_of st h))"
    using ok build
    by (auto simp: get_role_index_def Let_def idx_ok_def swarm_of_def [symmetric] split: option.split)
  have fields: "swarms ?st1 = swarms st" "downloaded ?st1 = downloaded st"
    "\<And>x. role_indexes ?st1 (x :: info_hash) = (if x = h then role_indexes ?st1 h else role_indexes st x)"
    "orders ?st1 = orders st" "positions ?st1 = positions st" "tombstones ?st1 = tombstones st"
    "principal_keys ?st1 = principal_keys st" "ip_keys ?st1 = ip_keys st" "type_orders ?st1 = type_orders st"
    "type_positions ?st1 = type_positions st" "type_tombstones ?st1 = type_tombstones st"
    by (auto simp: get_role_index_def Let_def split: option.split)
  have sw: "swarm_of ?st2 h' = swarm_of st h'" for h' by (simp add: swarm_of_def fields)
  show "reg_inv ?st2"
  proof (rule reg_inv_one_swarm [OF inv, of _ h])
    show "same_index h' st ?st2 \<and> swarm_of ?st2 h' = swarm_of st h'" if "h' \<noteq> h" for h'
      using that by (simp add: sw same_index_def fields)
    show "idx_ok (dget (swarm_of ?st2 h)) ?st2 h"
      unfolding sw using ok role_ok_role_sources [OF ri, of rs] by (simp add: idx_ok_def fields)
  qed (simp_all add: sw fields reg_invD [OF inv])
qed

lemma reg_inv_compact_order:
  assumes "reg_inv st" shows "reg_inv (compact_order h force st)"
proof -
  let ?st = "compact_order h force st"
  have sw: "swarm_of ?st h' = swarm_of st h'" "downloaded ?st = downloaded st" "swarms ?st = swarms st" for h'
    by (simp_all add: compact_order_def Let_def swarm_of_def)
  show ?thesis
  proof (rule reg_inv_one_swarm [OF assms, of _ h])
    show "same_index h' st ?st \<and> swarm_of ?st h' = swarm_of st h'" if "h' \<noteq> h" for h'
      using that unfolding sw by (simp add: compact_order_def Let_def same_index_def)
  qed (simp_all add: sw reg_invD [OF assms] idx_ok_compact_order)
qed

lemma compact_type_fields:
  "swarms (fst (compact_type h t st)) = swarms st" "downloaded (fst (compact_type h t st)) = downloaded st"
  "swarm_of (fst (compact_type h t st)) = swarm_of st"
  by (simp_all add: compact_type_def Let_def swarm_of_def fun_eq_iff)

lemma reg_inv_compact_type:
  assumes "reg_inv st" shows "reg_inv (fst (compact_type h t st))"
proof (rule reg_inv_one_swarm [OF assms, of _ h])
  show "same_index h' st (fst (compact_type h t st)) \<and> swarm_of (fst (compact_type h t st)) h' = swarm_of st h'"
    if "h' \<noteq> h" for h'
    using that unfolding compact_type_fields by (simp add: compact_type_def Let_def same_index_def)
qed (simp_all add: compact_type_fields reg_invD [OF assms] idx_ok_compact_type)

lemma type_sources_inv:
  "reg_inv st \<Longrightarrow> reg_inv (fst (type_sources h ts st)) \<and> swarm_of (fst (type_sources h ts st)) = swarm_of st"
  by (induction ts arbitrary: st) (simp_all add: case_prod_beta Let_def reg_inv_compact_type compact_type_fields)

lemma get_role_index_swarms: "swarm_of (fst (get_role_index h c st)) = swarm_of st"
  by (auto simp: get_role_index_def Let_def swarm_of_def fun_eq_iff split: option.split)

lemma compact_order_swarms: "swarm_of (compact_order h force st) = swarm_of st"
  by (simp add: compact_order_def Let_def swarm_of_def fun_eq_iff)

lemma swarm_of_role_indexes [simp]: "swarm_of (st\<lparr>role_indexes := x\<rparr>) = swarm_of st"
  by (simp add: swarm_of_def fun_eq_iff)

text \<open>The state in which the role part of the selection leaves the registry, and its sources.\<close>

definition role_stage :: "info_hash \<Rightarrow> string list option \<Rightarrow> compiled_roles \<Rightarrow> registry \<Rightarrow> registry \<times> slots list" where
  "role_stage h roles compiled st = (case roles of
      None \<Rightarrow> (st, [])
    | Some roles \<Rightarrow>
        let (st', ri) = get_role_index h compiled st; (ri', srcs) = role_sources ri (sort roles)
        in (st'\<lparr>role_indexes := (role_indexes st')(h \<mapsto> ri')\<rparr>, srcs))"

lemma role_stage_inv:
  assumes "reg_inv st"
  shows "reg_inv (fst (role_stage h roles c st)) \<and> swarm_of (fst (role_stage h roles c st)) = swarm_of st"
  using candidate_role_part(1) [OF assms, of h c] assms
  by (auto simp: role_stage_def case_prod_beta Let_def get_role_index_swarms split: option.split)

definition unfiltered :: "selection \<Rightarrow> bool" where
  "unfiltered sel \<longleftrightarrow> sel_principals sel = None \<and> sel_ips sel = None \<and> sel_roles sel = None \<and> sel_types sel = None"

lemma candidate_sources_unfold:
  "candidate_sources h sel c st =
     (if unfiltered sel
      then (let st1 = compact_order h False st; order = or_else (orders st1 h) []
            in (st1, if order = [] then [] else [order]))
      else (let st1 = fst (role_stage h (sel_roles sel) c st)
            in (fst (type_sources h (or_else (sel_types sel) []) st1),
                snd (role_stage h (sel_roles sel) c st)
                @ key_sources (or_else (principal_keys st1 h) []) (or_else (sel_principals sel) [])
                @ key_sources (or_else (ip_keys st1 h) []) (or_else (sel_ips sel) [])
                @ snd (type_sources h (or_else (sel_types sel) []) st1))))"
  unfolding candidate_sources_def unfiltered_def role_stage_def Let_def case_prod_beta fst_conv snd_conv
  by (simp only: conj_assoc)

lemma candidate_sources_inv:
  assumes "reg_inv st"
  shows "reg_inv (fst (candidate_sources h sel c st)) \<and> swarm_of (fst (candidate_sources h sel c st)) = swarm_of st"
  using assms role_stage_inv [OF assms, of h "sel_roles sel" c] type_sources_inv
  by (simp add: candidate_sources_unfold Let_def reg_inv_compact_order compact_order_swarms)

end
