(* ===== verification/Registry_Select.thy ===== *)
theory Registry_Select
  imports Registry_Steps
begin

text \<open>
  Discovery in \<^verbatim>\<open>server/peer_registry.py\<close>: which rows the candidate sources of a selection cover, what
  the bounded visit of those sources returns, and the state machine of the whole registry with the
  properties that hold in every reachable state.
\<close>

section \<open>What the sources cover\<close>

definition source_keys :: "'k option list list \<Rightarrow> 'k set" where
  "source_keys srcs = {k. Some k \<in> set (concat srcs)}"

lemma source_keys_simps [simp]:
  "source_keys [] = {}" "source_keys (a # srcs) = set (live a) \<union> source_keys srcs"
  "source_keys (xs @ ys) = source_keys xs \<union> source_keys ys"
  by (auto simp: source_keys_def set_live)

lemma vec_ok_live: "vec_ok order at tomb D \<Longrightarrow> set (live order) = D"
  by (auto simp: vec_ok_def dest: slots_rel_live)

lemma key_sources_cover:
  assumes "members_ok idx f K"
  shows "source_keys (key_sources idx vs) = (\<Union>v\<in>set vs. with_feature K f v)"
proof (induction vs)
  case (Cons v vs)
  have m: "set (or_else (dget idx v) []) = with_feature K f v" using assms by (simp add: members_ok_def)
  have live_id: "live (map Some ks) = ks" for ks :: "'b list" by (induction ks) auto
  show ?case
    using Cons m by (cases "dget idx v") (auto simp: key_sources_def map_filter_simps live_id)
qed (simp add: key_sources_def map_filter_simps)

lemma compact_role_order: "snd (compact_role ri role) = or_else (dget (ri_orders (fst (compact_role ri role))) role) []"
  by (simp add: compact_role_def Let_def)

lemma compact_role_compiled: "ri_compiled (fst (compact_role ri role)) = ri_compiled ri"
  by (simp add: compact_role_def Let_def)

lemma role_sources_cover:
  "role_ok ri K \<Longrightarrow> source_keys (snd (role_sources ri roles)) =
     (\<Union>role\<in>set roles. with_feature K (row_role (ri_compiled ri)) (Some role))"
proof (induction roles arbitrary: ri)
  case (Cons role roles)
  let ?ri = "fst (compact_role ri role)"
  have ok: "role_ok ?ri K" by (rule role_ok_compact_role [OF Cons.prems])
  have "set (live (snd (compact_role ri role))) = with_feature K (row_role (ri_compiled ri)) (Some role)"
    unfolding compact_role_order
    using vec_ok_live [OF spec [OF ok [unfolded role_ok_def], of role]] by (simp only: compact_role_compiled)
  moreover have "source_keys (snd (role_sources ri (role # roles))) =
      set (live (snd (compact_role ri role))) \<union> source_keys (snd (role_sources ?ri roles))"
    by (simp add: case_prod_beta Let_def)
  ultimately show ?case
    using Cons.IH [OF ok] by (simp add: compact_role_compiled)
qed simp

lemma compact_type_order:
  "snd (compact_type h t st) = or_else (dget (or_else (type_orders (fst (compact_type h t st)) h) []) t) []"
  by (simp add: compact_type_def Let_def)

lemma type_sources_cover:
  "reg_inv st \<Longrightarrow> source_keys (snd (type_sources h ts st)) =
     (\<Union>t\<in>set ts. with_feature (dget (swarm_of st h)) row_type t)"
proof (induction ts arbitrary: st)
  case (Cons t ts)
  let ?st = "fst (compact_type h t st)"
  have inv: "reg_inv ?st" by (rule reg_inv_compact_type [OF Cons.prems])
  have "type_ok (or_else (type_orders ?st h) []) (or_else (type_positions ?st h) [])
       (or_else (type_tombstones ?st h) []) (dget (swarm_of st h))"
    using reg_invD(4) [OF inv, of h] by (simp add: idx_ok_def compact_type_fields)
  then have "set (live (snd (compact_type h t st))) = with_feature (dget (swarm_of st h)) row_type t"
    unfolding compact_type_order type_ok_def by (rule vec_ok_live [OF spec [of _ t]])
  moreover have "source_keys (snd (type_sources h (t # ts) st)) =
      set (live (snd (compact_type h t st))) \<union> source_keys (snd (type_sources h ts ?st))"
    by (simp add: case_prod_beta Let_def)
  ultimately show ?case
    using Cons.IH [OF inv] by (simp add: compact_type_fields)
qed simp

text \<open>
  A cached role index carries the compiled generation it was built from; the cache is used when the
  identities agree.  Identity determines content in Python because \<^verbatim>\<open>CompiledRoles\<close> is immutable.
\<close>

definition same_generation :: "compiled_roles \<Rightarrow> registry \<Rightarrow> info_hash \<Rightarrow> bool" where
  "same_generation c st h \<longleftrightarrow>
     (case role_indexes st h of None \<Rightarrow> True
      | Some ri \<Rightarrow> generation (ri_compiled ri) = generation c \<longrightarrow> ri_compiled ri = c)"

lemma role_index_step_compiled: "ri_compiled (role_index_step c swarm ri slot) = ri_compiled ri"
  by (simp add: role_index_step_def split: option.split)

lemma build_role_index_compiled: "ri_compiled (build_role_index c swarm order) = c"
  unfolding build_role_index_eq
  by (induction order rule: rev_induct) (simp_all add: role_index_step_compiled)

lemma get_role_index_compiled: "same_generation c st h \<Longrightarrow> ri_compiled (snd (get_role_index h c st)) = c"
  by (auto simp: same_generation_def get_role_index_def Let_def build_role_index_compiled split: option.split)

text \<open>The rows a selection names: every row without a filter, else the union of the filters.\<close>

definition selected :: "selection \<Rightarrow> compiled_roles \<Rightarrow> row \<Rightarrow> bool" where
  "selected sel c r \<longleftrightarrow> unfiltered sel
     \<or> (\<exists>role\<in>set (or_else (sel_roles sel) []). row_role c r = Some role)
     \<or> row_pk r \<in> set (or_else (sel_principals sel) [])
     \<or> row_ip r \<in> set (or_else (sel_ips sel) [])
     \<or> row_type r \<in> set (or_else (sel_types sel) [])"

lemma role_stage_cover:
  assumes "reg_inv st" and "same_generation c st h"
  shows "source_keys (snd (role_stage h roles c st)) =
     (\<Union>role\<in>set (or_else roles []). with_feature (dget (swarm_of st h)) (row_role c) (Some role))"
  using role_sources_cover [OF candidate_role_part(2) [OF assms(1)], of h c]
  by (auto simp: role_stage_def case_prod_beta Let_def get_role_index_compiled [OF assms(2)] split: option.split)

lemma candidate_sources_cover:
  assumes "reg_inv st" and "same_generation c st h"
  shows "source_keys (snd (candidate_sources h sel c st)) =
     {k. \<exists>r. dget (swarm_of st h) k = Some r \<and> selected sel c r}"
proof (cases "unfiltered sel")
  case True
  let ?st = "compact_order h False st"
  have "idx_ok (dget (swarm_of st h)) ?st h"
    using reg_invD(4) [OF reg_inv_compact_order [OF assms(1)], of h False h] by (simp add: compact_order_swarms)
  then have "set (live (or_else (orders ?st h) [])) = dom (dget (swarm_of st h))"
    unfolding idx_ok_def by (blast dest: vec_ok_live)
  then show ?thesis
    using True by (auto simp: candidate_sources_unfold selected_def Let_def)
next
  case False
  let ?K = "dget (swarm_of st h)"
  let ?st1 = "fst (role_stage h (sel_roles sel) c st)"
  have inv1: "reg_inv ?st1" and sw: "swarm_of ?st1 = swarm_of st"
    using role_stage_inv [OF assms(1)] by blast+
  have m: "members_ok (or_else (principal_keys ?st1 h) []) row_pk ?K"
    "members_ok (or_else (ip_keys ?st1 h) []) row_ip ?K"
    using reg_invD(4) [OF inv1, of h] by (simp_all add: idx_ok_def sw)
  have "source_keys (snd (candidate_sources h sel c st)) =
      (\<Union>role\<in>set (or_else (sel_roles sel) []). with_feature ?K (row_role c) (Some role))
    \<union> (\<Union>v\<in>set (or_else (sel_principals sel) []). with_feature ?K row_pk v)
    \<union> (\<Union>v\<in>set (or_else (sel_ips sel) []). with_feature ?K row_ip v)
    \<union> (\<Union>t\<in>set (or_else (sel_types sel) []). with_feature ?K row_type t)"
    using False by (simp add: candidate_sources_unfold Let_def role_stage_cover [OF assms]
        key_sources_cover [OF m(1)] key_sources_cover [OF m(2)] type_sources_cover [OF inv1] sw Un_assoc)
  also have "\<dots> = {k. \<exists>r. ?K k = Some r \<and> selected sel c r}"
    using False unfolding with_feature_def selected_def by blast
  finally show ?thesis .
qed

section \<open>The bounded visit\<close>

lemma visit_stopped:
  "inspected \<ge> il \<or> length out \<ge> limit \<Longrightarrow>
     visit swarm slf permit limit il xs (inspected, out, seen) = (inspected, out, seen)"
  by (cases xs) auto

lemma visit_append:
  "visit swarm slf permit limit il (xs @ ys) acc =
     visit swarm slf permit limit il ys (visit swarm slf permit limit il xs acc)"
proof (induction swarm slf permit limit il xs acc rule: visit.induct)
  case (2 swarm slf permit limit il slot rest inspected out seen)
  show ?case
  proof (cases "inspected \<ge> il \<or> length out \<ge> limit")
    case True
    then show ?thesis by (simp only: visit_stopped [OF True])
  next
    case False
    with 2 show ?thesis by (simp split: option.split)
  qed
qed simp

lemma visit_sources_concat:
  "visit_sources swarm slf permit limit il start srcs acc =
     visit swarm slf permit limit il (concat (map (rotate_from start) srcs)) acc"
proof (induction srcs arbitrary: acc)
  case (Cons keys rest)
  obtain i out seen where v: "visit swarm slf permit limit il (rotate_from start keys) acc = (i, out, seen)"
    by (cases "visit swarm slf permit limit il (rotate_from start keys) acc")
  show ?case
    by (simp add: v Cons.IH visit_append visit_stopped)
qed simp

lemma set_rotate_from: "set (rotate_from s xs) = set xs"
proof (cases "xs = []")
  case False
  let ?n = "length xs"
  have "\<exists>k < ?n. (s mod ?n + k) mod ?n = i" if "i < ?n" for i
  proof (cases "s mod ?n \<le> i")
    case True
    with that show ?thesis by (intro exI [of _ "i - s mod ?n"]) simp
  next
    case F: False
    have "s mod ?n < ?n" using False by simp
    then have "(s mod ?n + (i + ?n - s mod ?n)) mod ?n = i" using that by simp
    with F \<open>s mod ?n < ?n\<close> show ?thesis by (intro exI [of _ "i + ?n - s mod ?n"]) auto
  qed
  then have "(\<lambda>k. (s mod ?n + k) mod ?n) ` {0..<?n} = {0..<?n}"
    using False by (force simp: image_iff)
  then have "(\<lambda>i. xs ! i) ` (\<lambda>k. (s mod ?n + k) mod ?n) ` {0..<?n} = (\<lambda>i. xs ! i) ` {0..<?n}" by simp
  then show ?thesis
    by (simp add: rotate_from_def image_image nth_image)
qed (simp add: rotate_from_def)

definition addr_of :: "('k, row) dict \<Rightarrow> 'k \<Rightarrow> string \<times> int" where
  "addr_of swarm k = (case dget swarm k of Some r \<Rightarrow> (row_ip r, row_port r) | None \<Rightarrow> ([], 0))"

text \<open>
  One visit: \<open>ls\<close> are the keys it inspects, \<open>ks\<close> those it returns.  A visit that did not stop early has
  looked at every slot.
\<close>

definition visited :: "(peer_key, row) dict \<Rightarrow> (peer_key \<Rightarrow> row \<Rightarrow> bool) \<Rightarrow> (row \<Rightarrow> bool) \<Rightarrow> nat \<Rightarrow> nat \<Rightarrow> slots
    \<Rightarrow> peer_key list \<Rightarrow> peer_key list \<Rightarrow> peer_key list \<Rightarrow> nat \<times> (string \<times> int) list \<times> peer_key list
    \<Rightarrow> nat \<times> (string \<times> int) list \<Rightarrow> bool" where
  "visited swarm slf permit limit il xs seen ls ks res acc \<longleftrightarrow>
     fst res = fst acc + length ls
   \<and> fst (snd res) = snd acc @ map (addr_of swarm) ks
   \<and> length ks \<le> limit - length (snd acc)
   \<and> distinct ls \<and> set ls \<inter> set seen = {} \<and> set ls \<subseteq> set (live xs)
   \<and> (\<forall>k\<in>set ls. \<exists>r. dget swarm k = Some r \<and> \<not> slf k r)
   \<and> ks = filter (\<lambda>k. \<exists>r. dget swarm k = Some r \<and> permit r) ls
   \<and> (fst res \<ge> il \<or> length (fst (snd res)) \<ge> limit
      \<or> (\<forall>k\<in>set (live xs) - set seen. \<forall>r. dget swarm k = Some r \<longrightarrow> \<not> slf k r \<longrightarrow> k \<in> set ls))"

lemma visited_skip:
  assumes "\<exists>ls ks. visited swarm slf permit limit il xs seen' ls ks res acc"
    and "set seen \<subseteq> set seen'" and "\<And>k. k \<in> set (live (x # xs)) \<Longrightarrow> k \<notin> set (live xs) - set seen' \<Longrightarrow>
       k \<in> set seen \<or> (\<forall>r. dget swarm k = Some r \<longrightarrow> slf k r)"
  shows "\<exists>ls ks. visited swarm slf permit limit il (x # xs) seen ls ks res acc"
proof -
  obtain ls ks where v: "visited swarm slf permit limit il xs seen' ls ks res acc" using assms(1) by blast
  have "set (live xs) \<subseteq> set (live (x # xs))" by (cases x) auto
  with v assms(2,3) have "visited swarm slf permit limit il (x # xs) seen ls ks res acc"
    unfolding visited_def by blast
  then show ?thesis by blast
qed

lemma visited_take:
  assumes v: "visited swarm slf permit limit il xs (key # seen) ls ks res (Suc i, out @ new)"
    and r: "dget swarm key = Some r" "\<not> slf key r" and "key \<notin> set seen"
    and new: "new = (if permit r then [(row_ip r, row_port r)] else [])" and room: "length out < limit"
  shows "visited swarm slf permit limit il (Some key # xs) seen (key # ls)
           ((if permit r then [key] else []) @ ks) res (i, out)"
  using assms unfolding visited_def by (cases "permit r") (auto simp: addr_of_def)

lemma visit_visited:
  "\<exists>ls ks. visited swarm slf permit limit il xs seen ls ks
     (visit swarm slf permit limit il xs (i, out, seen)) (i, out)"
proof (induction swarm slf permit limit il xs "(i, out, seen)" arbitrary: i out seen rule: visit.induct)
  case (1 swarm slf permit limit il)
  show ?case by (intro exI [of _ "[]"]) (simp add: visited_def)
next
  case (2 swarm slf permit limit il slot rest i out seen)
  show ?case
  proof (cases "i \<ge> il \<or> length out \<ge> limit")
    case True
    then show ?thesis
      unfolding visit_stopped [OF True] by (intro exI [of _ "[]"]) (auto simp: visited_def)
  next
    case go: False
    show ?thesis
    proof (cases slot)
      case None
      have "\<exists>ls ks. visited swarm slf permit limit il (slot # rest) seen ls ks
          (visit swarm slf permit limit il rest (i, out, seen)) (i, out)"
        by (rule visited_skip [OF 2(1) [OF go None]]) (use None in auto)
      with go None show ?thesis by simp
    next
      case (Some key)
      show ?thesis
      proof (cases "key \<in> set seen")
        case True
        have "\<exists>ls ks. visited swarm slf permit limit il (slot # rest) seen ls ks
            (visit swarm slf permit limit il rest (i, out, seen)) (i, out)"
          by (rule visited_skip [OF 2(2) [OF go Some True]]) (use Some True in auto)
        with go Some True show ?thesis by simp
      next
        case fresh: False
        show ?thesis
        proof (cases "dget swarm key")
          case None
          have "\<exists>ls ks. visited swarm slf permit limit il (slot # rest) seen ls ks
              (visit swarm slf permit limit il rest (i, out, key # seen)) (i, out)"
            by (rule visited_skip [OF 2(3) [OF go Some fresh None]]) (use Some None in auto)
          with go Some fresh None show ?thesis by simp
        next
          case row: (Some r)
          show ?thesis
          proof (cases "slf key r")
            case True
            have "\<exists>ls ks. visited swarm slf permit limit il (slot # rest) seen ls ks
                (visit swarm slf permit limit il rest (i, out, key # seen)) (i, out)"
              by (rule visited_skip [OF 2(4) [OF go Some fresh row True]]) (use Some row True in auto)
            with go Some fresh row True show ?thesis by simp
          next
            case other: False
            let ?new = "if permit r then [(row_ip r, row_port r)] else []"
            have step: "visit swarm slf permit limit il (slot # rest) (i, out, seen) =
                visit swarm slf permit limit il rest (Suc i, out @ ?new, key # seen)"
              using go Some fresh row other by simp
            obtain ls ks where v: "visited swarm slf permit limit il rest (key # seen) ls ks
                (visit swarm slf permit limit il rest (Suc i, out @ ?new, key # seen)) (Suc i, out @ ?new)"
              using 2(5) [OF go Some fresh row other] 2(6) [OF go Some fresh row other]
              by (cases "permit r") fastforce+
            have "length out < limit" using go by simp
            from visited_take [where slf = slf and permit = permit, OF v row other fresh refl this]
            show ?thesis unfolding step unfolding Some by blast
          qed
        qed
      qed
    qed
  qed
qed

section \<open>Selecting peers\<close>

definition self_of :: "string \<Rightarrow> principal option \<Rightarrow> bool \<Rightarrow> peer_key \<Rightarrow> row \<Rightarrow> bool" where
  "self_of peer_id req bare key r \<longleftrightarrow>
     (if bare then row_peer_id r = peer_id
      else key = (ptype (or_else req default_principal), pid (or_else req default_principal), peer_id))"

definition permits :: "principal option \<Rightarrow> string option \<Rightarrow> peer_predicate option \<Rightarrow> row \<Rightarrow> bool" where
  "permits req req_ip predicate r \<longleftrightarrow>
     (case predicate of None \<Rightarrow> True | Some f \<Rightarrow> f req req_ip (row_principal r) (row_ip r))"

text \<open>A row this request may be told about.\<close>

definition eligible :: "string \<Rightarrow> principal option \<Rightarrow> string option \<Rightarrow> peer_predicate option \<Rightarrow> selection
    \<Rightarrow> compiled_roles \<Rightarrow> bool \<Rightarrow> peer_key \<Rightarrow> row \<Rightarrow> bool" where
  "eligible peer_id req req_ip predicate sel c bare key r \<longleftrightarrow>
     \<not> self_of peer_id req bare key r \<and> permits req req_ip predicate r \<and> selected sel c r"

definition eligible_keys :: "(peer_key \<Rightarrow> row \<Rightarrow> bool) \<Rightarrow> (peer_key, row) dict \<Rightarrow> peer_key set" where
  "eligible_keys P swarm = {k. \<exists>r. dget swarm k = Some r \<and> P k r}"

definition want :: "int \<Rightarrow> nat" where
  "want numwant = nat (min (max 0 numwant) NUMWANT_CAP)"

lemma select_locked_state:
  "fst (select_locked rb h peer_id req req_ip predicate numwant sel c bare st) =
     (if want numwant = 0 then st else fst (candidate_sources h sel c st))"
  by (simp add: select_locked_def want_def Let_def case_prod_beta)

lemma select_locked_out:
  assumes "want numwant \<noteq> 0"
  shows "snd (select_locked rb h peer_id req req_ip predicate numwant sel c bare st) =
     (let srcs = snd (candidate_sources h sel c st); start = rb (sum_list (map length srcs))
      in fst (snd (visit (swarm_of st h) (self_of peer_id req bare) (permits req req_ip predicate) (want numwant)
           (min (4 * want numwant) (length (swarm_of st h)))
           (concat (map (rotate_from start) (rotate_from start srcs))) (0, [], []))))"
proof -
  have e1: "(\<lambda>key r. if bare then row_peer_id r = peer_id else key =
      (ptype (or_else req default_principal), pid (or_else req default_principal), peer_id)) = self_of peer_id req bare"
    by (simp add: self_of_def fun_eq_iff)
  have e2: "(\<lambda>r. case predicate of None \<Rightarrow> True | Some f \<Rightarrow> f req req_ip (row_principal r) (row_ip r))
      = permits req req_ip predicate"
    by (simp add: permits_def fun_eq_iff)
  have [simp]: "rotate_from s [] = []" for s by (simp add: rotate_from_def)
  show ?thesis
    using assms unfolding select_locked_def want_def [symmetric] visit_sources_concat Let_def case_prod_beta e1 e2
    by (simp split: if_splits)
qed

lemma live_concat_rotate:
  "set (live (concat (map (rotate_from s) (rotate_from s srcs)))) = source_keys srcs"
  by (simp add: set_live source_keys_def set_rotate_from)

text \<open>
  What the visit returns: distinct eligible keys, at most the number wanted; all of them, when the
  swarm is within the inspection budget and there is room for every eligible row.
\<close>

lemma select_locked_keys:
  assumes inv: "reg_inv st" and gen: "same_generation c st h"
    and E_def: "E = eligible_keys (eligible peer_id req req_ip predicate sel c bare) (swarm_of st h)"
  shows "\<exists>ks. snd (select_locked rb h peer_id req req_ip predicate numwant sel c bare st)
              = map (addr_of (swarm_of st h)) ks
          \<and> distinct ks \<and> set ks \<subseteq> E \<and> length ks \<le> want numwant
          \<and> (length (swarm_of st h) \<le> 4 * want numwant \<longrightarrow> card E \<le> want numwant \<longrightarrow> set ks = E)"
proof (cases "want numwant = 0")
  case True
  have "finite E" unfolding E_def eligible_keys_def
    by (rule finite_subset [OF _ finite_dom_map_of [of "swarm_of st h"]]) auto
  with True show ?thesis by (simp add: select_locked_def want_def [symmetric] Let_def)
next
  case False
  let ?sw = "swarm_of st h" and ?n = "want numwant"
  let ?srcs = "snd (candidate_sources h sel c st)"
  let ?xs = "concat (map (rotate_from (rb (sum_list (map length ?srcs)))) (rotate_from (rb (sum_list (map length ?srcs))) ?srcs))"
  let ?slf = "self_of peer_id req bare" and ?permit = "permits req req_ip predicate"
  let ?il = "min (4 * ?n) (length ?sw)"
  let ?res = "visit ?sw ?slf ?permit ?n ?il ?xs (0, [], [])"
  obtain ls ks where v: "visited ?sw ?slf ?permit ?n ?il ?xs [] ls ks ?res (0, [])"
    using visit_visited by blast
  have cover: "set (live ?xs) = {k. \<exists>r. dget ?sw k = Some r \<and> selected sel c r}"
    unfolding live_concat_rotate by (rule candidate_sources_cover [OF inv gen])
  have fin: "finite E" unfolding E_def eligible_keys_def
    by (rule finite_subset [OF _ finite_dom_map_of [of ?sw]]) auto
  have ls: "distinct ls" "set ls \<subseteq> set (live ?xs)" "\<forall>k\<in>set ls. \<exists>r. dget ?sw k = Some r \<and> \<not> ?slf k r"
    "ks = filter (\<lambda>k. \<exists>r. dget ?sw k = Some r \<and> ?permit r) ls" "fst ?res = length ls"
    "fst (snd ?res) = map (addr_of ?sw) ks" "length ks \<le> ?n"
    using v by (auto simp: visited_def)
  have sub: "set ks \<subseteq> E"
    using ls(2,3,4) cover by (fastforce simp: E_def eligible_keys_def eligible_def)
  have all: "set ks = E" if small: "length ?sw \<le> 4 * ?n" and room: "card E \<le> ?n"
  proof -
    consider "length ls \<ge> length ?sw" | "length ks \<ge> ?n"
      | "\<forall>k\<in>set (live ?xs). \<forall>r. dget ?sw k = Some r \<longrightarrow> \<not> ?slf k r \<longrightarrow> k \<in> set ls"
      using v small ls(5,6) by (auto simp: visited_def)
    then show ?thesis
    proof cases
      case 1
      have "card (dom (dget ?sw)) = length ?sw"
        using reg_invD(3) [OF inv, of h] by (simp add: dwf_def dom_map_of_conv_image_fst distinct_card [of "map fst ?sw", simplified])
      moreover have "set ls \<subseteq> dom (dget ?sw)" using ls(3) by blast
      ultimately have "set ls = dom (dget ?sw)"
        using 1 distinct_card [OF ls(1)] by (intro card_seteq) (simp_all add: finite_dom_map_of)
      then show ?thesis using sub ls(4) by (fastforce simp: E_def eligible_keys_def eligible_def)
    next
      case 2
      have "distinct ks" using ls(1,4) by simp
      then have "card (set ks) = length ks" by (rule distinct_card)
      with 2 room show ?thesis by (intro card_seteq [OF fin sub]) simp
    next
      case 3
      then show ?thesis using sub ls(4) cover by (fastforce simp: E_def eligible_keys_def eligible_def)
    qed
  qed
  show ?thesis
    using ls(1,4,6,7) sub all by (intro exI [of _ ks]) (simp add: select_locked_out [OF False] Let_def)
qed

end
