(* ===== verification/Registry_Properties.thy ===== *)
theory Registry_Properties
  imports Registry_Select
begin

text \<open>
  The registry as a transition system: one step per public method of \<^verbatim>\<open>PeerRegistry\<close>, and the
  properties of every reachable state.
\<close>

section \<open>Steps\<close>

inductive registry_step :: "registry \<Rightarrow> event list \<Rightarrow> registry \<Rightarrow> bool" where
  announce_step: "announce a st = (st', evs) \<Longrightarrow> registry_step st evs st'"
| peers_step: "peers rb h peer_id numwant now c st = (st', evs, out) \<Longrightarrow> registry_step st evs st'"
| select_step: "select_peers rb h peer_id req req_ip predicate numwant now sel c st = (st', evs, out)
     \<Longrightarrow> registry_step st evs st'"
| scrape_step: "scrape h now st = (st', evs, res) \<Longrightarrow> registry_step st evs st'"
| stats_step: "stats now st = (st', evs, m) \<Longrightarrow> registry_step st evs st'"
| snapshot_step: "snapshot now st = (st', evs, d) \<Longrightarrow> registry_step st evs st'"
| prune_step: "prune_all now st = (st', evs) \<Longrightarrow> registry_step st evs st'"

inductive_cases registry_stepE: "registry_step st evs st'"

inductive reachable :: "registry \<Rightarrow> bool" where
  reach_new: "reachable (new_registry interval rpi)"
| reach_step: "reachable st \<Longrightarrow> registry_step st evs st' \<Longrightarrow> reachable st'"

text \<open>
  Seen from the outside there are two kinds of step: an announce, and a read, which prunes at most
  and then touches only the caches of the indexes.
\<close>

lemma select_locked_inv:
  assumes "reg_inv st"
  shows "reg_inv (fst (select_locked rb h peer_id req req_ip predicate numwant sel c bare st)) \<and>
    swarm_of (fst (select_locked rb h peer_id req req_ip predicate numwant sel c bare st)) = swarm_of st"
  using candidate_sources_inv [OF assms, of h sel c] assms by (simp add: select_locked_state)

lemma type_sources_downloaded: "downloaded (fst (type_sources h ts st)) = downloaded st"
  by (induction ts arbitrary: st) (simp_all add: case_prod_beta Let_def compact_type_fields)

lemma get_role_index_downloaded: "downloaded (fst (get_role_index h c st)) = downloaded st"
  by (auto simp: get_role_index_def Let_def split: option.split)

lemma select_locked_downloaded:
  "downloaded (fst (select_locked rb h peer_id req req_ip predicate numwant sel c bare st)) = downloaded st"
  by (auto simp: select_locked_state candidate_sources_unfold Let_def type_sources_downloaded role_stage_def
      get_role_index_downloaded case_prod_beta compact_order_def split: option.split)

lemma registry_step_kinds:
  assumes "registry_step st evs st'" and "reg_inv st"
  obtains (announce) a where "st' = fst (announce a st)"
  | (read) now force where "reg_inv st'" and "swarm_of st' = swarm_of (fst (read_prune_locked now force st))"
      and "downloaded st' = downloaded (fst (read_prune_locked now force st))"
proof -
  have prune: "reg_inv (fst (read_prune_locked now force st))" for now force
    by (rule reg_inv_read_prune [OF assms(2)])
  note sel = select_locked_inv [OF prune [of _ False]] select_locked_downloaded
  from assms(1) show ?thesis
  proof (cases rule: registry_step.cases)
    case (announce_step a)
    then show ?thesis using announce [of a] by simp
  next
    case (peers_step rb h peer_id numwant now c out)
    then have "st' = fst (select_locked rb h peer_id None None None numwant no_selection c True
        (fst (read_prune_locked now False st)))"
      by (simp add: peers_def case_prod_beta Let_def)
    then show ?thesis using read [of now False] sel by simp
  next
    case (select_step rb h peer_id req req_ip predicate numwant now sel c out)
    then have "st' = fst (select_locked rb h peer_id req req_ip predicate numwant sel c False
        (fst (read_prune_locked now False st)))"
      by (simp add: select_peers_def case_prod_beta Let_def)
    then show ?thesis using read [of now False] sel by simp
  next
    case (scrape_step h now res)
    then have "st' = fst (read_prune_locked now False st)" by (simp add: scrape_def case_prod_beta Let_def)
    then show ?thesis using read [of now False] prune by simp
  next
    case (stats_step now m)
    then have "st' = fst (read_prune_locked now False st)" by (simp add: stats_def case_prod_beta Let_def)
    then show ?thesis using read [of now False] prune by simp
  next
    case (snapshot_step now d)
    then have "st' = fst (read_prune_locked now False st)" by (simp add: snapshot_def case_prod_beta Let_def)
    then show ?thesis using read [of now False] prune by simp
  next
    case (prune_step now)
    then have "st' = fst (read_prune_locked now True st)" by (simp add: prune_all_def)
    then show ?thesis using read [of now True] prune by simp
  qed
qed

lemma reachable_inv: "reachable st \<Longrightarrow> reg_inv st"
proof (induction rule: reachable.induct)
  case (reach_new interval rpi)
  show ?case by (rule reg_inv_new)
next
  case (reach_step st evs st')
  show ?case
    by (rule registry_step_kinds [OF reach_step.hyps(2) reach_step.IH]) (simp_all add: reg_inv_announce reach_step.IH)
qed

section \<open>Announce\<close>

text \<open>The row a present announce files.\<close>

definition announced_row :: "announce_args \<Rightarrow> registry \<Rightarrow> row" where
  "announced_row a st =
     (let p = or_else (a_principal a) default_principal; h = a_info_hash a; now = a_now a;
          key = (ptype p, pid p, a_peer_id a);
          (joined, completed) = cycle_times (dget (swarm_of st h) key) (a_left a) now;
          (st1, ud, dd, reset) = counter_delta h p (a_peer_id a) (a_event a) (a_uploaded a) (a_downloaded a) now st
      in \<lparr>row_ip = a_ip a, row_port = a_port a, row_last_seen = now, row_left = a_left a,
          row_joined_at = joined,
          row_completed_at = (if a_event a = Some ''completed'' \<and> completed = None then Some now else completed),
          row_peer_id = a_peer_id a, row_principal = p,
          row_interval = or_else (a_interval a) (reg_interval st),
          row_uploaded_delta = ud, row_downloaded_delta = dd, row_counter_reset = reset,
          row_legacy_restricted = a_legacy_restricted a\<rparr>)"

definition announce_key :: "announce_args \<Rightarrow> peer_key" where
  "announce_key a = (let p = or_else (a_principal a) default_principal in (ptype p, pid p, a_peer_id a))"

lemma counter_delta_snd:
  "transfer_counters st = transfer_counters st' \<Longrightarrow>
     snd (counter_delta h p peer_id e u d now st) = snd (counter_delta h p peer_id e u d now st')"
  by (simp only: counter_delta_def Let_def case_prod_beta snd_conv)

lemma ensure_swarm_fields:
  "transfer_counters (ensure_swarm h st) = transfer_counters st" "reg_interval (ensure_swarm h st) = reg_interval st"
  "downloaded (ensure_swarm h st) = downloaded st"
  by (simp_all add: ensure_swarm_def)

lemma announced_row_ensure: "announced_row a (ensure_swarm h st) = announced_row a st"
  unfolding announced_row_def Let_def case_prod_beta swarm_of_ensure ensure_swarm_fields
  by (simp only: counter_delta_snd [OF ensure_swarm_fields(1)])

lemma counter_delta_kept:
  "swarm_of (fst (counter_delta h p peer_id e u d now st)) = swarm_of st"
  "downloaded (fst (counter_delta h p peer_id e u d now st)) = downloaded st"
  "reg_interval (fst (counter_delta h p peer_id e u d now st)) = reg_interval st"
  by (simp_all add: counter_delta_def Let_def case_prod_beta)

lemma put_row_downloaded: "downloaded (put_row h k prev r st) = downloaded st"
  by (simp add: put_row_def Let_def index_add_fields index_remove_fields split: option.split)

text \<open>What an announce of a present peer does to membership, history and telemetry.\<close>

lemma announce_present_effect:
  assumes "a_event a \<noteq> Some ''stopped''"
  shows "swarm_of (fst (announce a st)) h = (if h = a_info_hash a
      then dset (announce_key a) (announced_row a st) (swarm_of st h) else swarm_of st h)"
    and "downloaded (fst (announce a st)) = (if a_event a = Some ''completed''
      then note_completed (a_info_hash a) (a_now a) (downloaded st) else downloaded st)"
    and "map ev_name (snd (announce a st)) =
      (if dget (swarm_of st (a_info_hash a)) (announce_key a) = None then [''join''] else []) @
      (if a_event a = Some ''completed'' then [''complete''] else [])"
proof -
  let ?h = "a_info_hash a" and ?now = "a_now a" and ?st0 = "ensure_swarm (a_info_hash a) st"
  let ?p = "or_else (a_principal a) default_principal" and ?k = "announce_key a"
  define st1 where "st1 = fst (counter_delta ?h ?p (a_peer_id a) (a_event a) (a_uploaded a) (a_downloaded a) ?now ?st0)"
  define st2 where "st2 = (if a_event a = Some ''completed''
      then st1\<lparr>downloaded := note_completed ?h ?now (downloaded st1)\<rparr> else st1)"
  have ri: "reg_interval st2 = reg_interval ?st0"
    unfolding st2_def st1_def by (simp add: counter_delta_kept)
  have eq: "announce a st = (put_row ?h ?k (dget (swarm_of ?st0 ?h) ?k) (announced_row a ?st0) st2,
      (if dget (swarm_of ?st0 ?h) ?k = None then [mk_event ''join'' a ?p] else []) @
      (if a_event a = Some ''completed'' then [mk_event ''complete'' a ?p] else []))"
    unfolding announce_def announce_key_def Let_def if_not_P [OF assms] announce_present_def announced_row_def
      case_prod_beta st1_def [symmetric] st2_def [symmetric] ri ..
  have sw: "swarm_of st2 = swarm_of st" unfolding st2_def st1_def by (auto simp: counter_delta_kept fun_eq_iff)
  show "swarm_of (fst (announce a st)) h = (if h = ?h then dset ?k (announced_row a st) (swarm_of st h) else swarm_of st h)"
    unfolding eq fst_conv swarm_of_put_row sw by (simp add: announced_row_ensure)
  show "downloaded (fst (announce a st)) = (if a_event a = Some ''completed''
      then note_completed ?h ?now (downloaded st) else downloaded st)"
    unfolding eq fst_conv put_row_downloaded st2_def st1_def by (simp add: counter_delta_kept ensure_swarm_fields)
  show "map ev_name (snd (announce a st)) = (if dget (swarm_of st ?h) ?k = None then [''join''] else []) @
      (if a_event a = Some ''completed'' then [''complete''] else [])"
    unfolding eq snd_conv by (simp add: mk_event_def)
qed

lemma remove_record_downloaded: "downloaded (fst (remove_record h k st)) = downloaded st"
  by (simp add: remove_record_def Let_def index_remove_fields split: option.split)

lemma remove_record_snd: "snd (remove_record h k st) = dget (swarm_of st h) k"
  by (simp add: remove_record_def Let_def split: option.split)

lemma announce_stopped_effect:
  assumes "a_event a = Some ''stopped''"
  shows "swarm_of (fst (announce a st)) h =
      (if h = a_info_hash a then ddel (announce_key a) (swarm_of st h) else swarm_of st h)"
    and "map ev_name (snd (announce a st)) =
      (if dget (swarm_of st (a_info_hash a)) (announce_key a) = None then [] else [''stop''])"
proof -
  let ?h = "a_info_hash a" and ?st0 = "ensure_swarm (a_info_hash a) st" and ?k = "announce_key a"
  let ?st1 = "fst (remove_record ?h ?k ?st0)"
  have eq: "announce a st = (if swarm_of ?st1 ?h = [] then cleanup_empty ?h [] (a_now a) ?st1 else ?st1,
      if snd (remove_record ?h ?k ?st0) \<noteq> None then [mk_event ''stop'' a (or_else (a_principal a) default_principal)] else [])"
    unfolding announce_def announce_key_def Let_def if_P [OF assms] announce_stopped_def case_prod_beta ..
  have "swarm_of (fst (announce a st)) h = swarm_of ?st1 h"
    unfolding eq fst_conv by (simp add: cleanup_swarm)
  then show "swarm_of (fst (announce a st)) h =
      (if h = ?h then ddel ?k (swarm_of st h) else swarm_of st h)"
    by (simp add: remove_record_swarm)
  show "map ev_name (snd (announce a st)) = (if dget (swarm_of st ?h) ?k = None then [] else [''stop''])"
    unfolding eq snd_conv remove_record_snd by (simp add: mk_event_def)
qed

section \<open>Rows\<close>

text \<open>
  Transfer deltas are never negative and a reset contributes nothing; a peer with nothing left has a
  completion time.
\<close>

definition row_ok :: "row \<Rightarrow> bool" where
  "row_ok r \<longleftrightarrow> 0 \<le> row_uploaded_delta r \<and> 0 \<le> row_downloaded_delta r
     \<and> (row_counter_reset r \<longrightarrow> row_uploaded_delta r = 0 \<and> row_downloaded_delta r = 0)
     \<and> (row_left r = Some 0 \<longrightarrow> row_completed_at r \<noteq> None)"

lemma delta_nonneg: "\<not> below new old \<Longrightarrow> 0 \<le> delta new old"
  by (auto simp: below_def delta_def split: option.splits)

lemma counter_delta_ok:
  assumes "snd (counter_delta h p peer_id e u d now st) = (ud, dd, reset)"
  shows "0 \<le> ud \<and> 0 \<le> dd \<and> (reset \<longrightarrow> ud = 0 \<and> dd = 0)"
proof (cases "transfer_counters st (h, ptype p, pid p)")
  case None
  with assms show ?thesis unfolding counter_delta_def Let_def case_prod_beta snd_conv by auto
next
  case (Some c)
  have n: "0 \<le> delta u (ctr_uploaded c)" if "\<not> below u (ctr_uploaded c)" using that by (rule delta_nonneg)
  have n': "0 \<le> delta d (ctr_downloaded c)" if "\<not> below d (ctr_downloaded c)" using that by (rule delta_nonneg)
  from assms Some show ?thesis
    unfolding counter_delta_def Let_def case_prod_beta snd_conv using n n' by (auto split: if_splits)
qed

lemma cycle_times_complete: "snd (cycle_times prev (Some 0) now) \<noteq> None"
  by (simp add: cycle_times_def Let_def case_prod_beta)

lemma announced_row_ok: "row_ok (announced_row a st)"
proof -
  let ?p = "or_else (a_principal a) default_principal"
  obtain ud dd reset where cd: "snd (counter_delta (a_info_hash a) ?p (a_peer_id a) (a_event a) (a_uploaded a)
      (a_downloaded a) (a_now a) st) = (ud, dd, reset)"
    by (cases "snd (counter_delta (a_info_hash a) ?p (a_peer_id a) (a_event a) (a_uploaded a)
      (a_downloaded a) (a_now a) st)")
  from counter_delta_ok [OF cd] cycle_times_complete show ?thesis
    unfolding row_ok_def announced_row_def Let_def case_prod_beta cd by auto
qed

definition all_rows :: "(row \<Rightarrow> bool) \<Rightarrow> registry \<Rightarrow> bool" where
  "all_rows P st \<longleftrightarrow> (\<forall>h. \<forall>r\<in>snd ` set (swarm_of st h). P r)"

lemma values_dset: "snd ` set (dset k v d) \<subseteq> insert v (snd ` set d)"
  by (induction d) auto

lemma values_ddel: "snd ` set (ddel k d) \<subseteq> snd ` set d"
  by (auto simp: AList.delete_eq)

lemma step_rows:
  assumes "registry_step st evs st'" and "reg_inv st" and "all_rows P st" and "\<And>a st. P (announced_row a st)"
  shows "all_rows P st'"
  using assms(1,2)
proof (cases rule: registry_step_kinds)
  case (announce a)
  have old: "snd ` set (swarm_of st h) \<subseteq> Collect P" for h using assms(3) unfolding all_rows_def by blast
  have new: "snd ` set (swarm_of st' h) \<subseteq> insert (announced_row a st) (snd ` set (swarm_of st h))" for h
  proof (cases "a_event a = Some ''stopped''")
    case True
    show ?thesis
      unfolding announce announce_stopped_effect(1) [OF True]
      by (cases "h = a_info_hash a") (simp_all only: simp_thms if_True if_False subset_insertI subset_insertI2 [OF values_ddel])
  next
    case False
    show ?thesis
      unfolding announce announce_present_effect(1) [OF False]
      by (cases "h = a_info_hash a") (simp_all only: simp_thms if_True if_False subset_insertI values_dset)
  qed
  have "insert (announced_row a st) (snd ` set (swarm_of st h)) \<subseteq> Collect P" for h
    using old [of h] assms(4) [of a st] by simp
  then show ?thesis unfolding all_rows_def using new by (meson subset_iff mem_Collect_eq)
next
  case (read now force)
  then show ?thesis
    using assms(3) by (fastforce simp: all_rows_def read_prune_swarm [OF assms(2)])
qed

section \<open>Completion history\<close>

lemma oldest_key_mem: "d \<noteq> [] \<Longrightarrow> \<exists>h. oldest_key d = Some h \<and> h \<in> set (dkeys d)"
proof (induction d rule: oldest_key.induct)
  case (2 h c d)
  then show ?case
    by (cases "d = []") (auto split: option.split dest: map_of_SomeD intro: rev_image_eqI)
qed simp

lemma length_ddel_member: "dwf d \<Longrightarrow> k \<in> set (dkeys d) \<Longrightarrow> Suc (length (ddel k d)) = length d"
proof (induction d)
  case (Cons x d)
  then show ?case
    by (cases x) (auto simp: dwf_def AList.delete_idem)
qed simp

lemma length_note_completed:
  assumes "dwf d" and "length d \<le> MAX_DOWNLOADED_SWARMS"
  shows "length (note_completed h now d) \<le> MAX_DOWNLOADED_SWARMS"
proof -
  define d1 where "d1 = dset h \<lparr>c_count = c_count (or_else (dget d h) \<lparr>c_count = 0, c_last_seen = now\<rparr>) + 1,
    c_last_seen = now\<rparr> d"
  have len: "length d1 \<le> Suc MAX_DOWNLOADED_SWARMS"
    using length_dset_le assms(2) unfolding d1_def by (meson Suc_le_mono order_trans)
  have wf: "dwf d1" unfolding d1_def using assms(1) by (rule dwf_dset)
  have eq: "note_completed h now d = (if length d1 > MAX_DOWNLOADED_SWARMS
     then (case oldest_key d1 of None \<Rightarrow> d1
           | Some oldest \<Rightarrow> if oldest \<noteq> h \<or> length d1 > 1 then ddel oldest d1 else d1) else d1)"
    unfolding note_completed_def Let_def d1_def ..
  show ?thesis
  proof (cases "length d1 > MAX_DOWNLOADED_SWARMS")
    case True
    then have "d1 \<noteq> []" "length d1 > 1" by (auto simp: MAX_DOWNLOADED_SWARMS_def)
    then obtain k where "oldest_key d1 = Some k" "k \<in> set (dkeys d1)" using oldest_key_mem by blast
    with len \<open>length d1 > 1\<close> length_ddel_member [OF wf, of k] show ?thesis unfolding eq by simp
  next
    case False
    then show ?thesis unfolding eq by simp
  qed
qed

lemma cleanup_downloaded_le: "length (downloaded (cleanup_empty h sw now st)) \<le> length (downloaded st)"
  by (simp add: cleanup_empty_def Let_def length_ddel_le split: option.split)

lemma remove_stale_downloaded: "downloaded (fst (remove_stale h now ks st)) = downloaded st"
  by (induction ks arbitrary: st) (simp_all add: case_prod_beta Let_def remove_record_downloaded)

lemma prune_swarms_downloaded: "length (downloaded (fst (prune_swarms hs now st))) \<le> length (downloaded st)"
proof (induction hs arbitrary: st)
  case (Cons h hs)
  let ?st1 = "fst (prune h now st)"
  let ?st2 = "cleanup_empty h (swarm_of ?st1 h) now ?st1"
  have step: "fst (prune_swarms (h # hs) now st) = fst (prune_swarms hs now ?st2)"
    by (simp only: prune_swarms.simps Let_def case_prod_beta fst_conv)
  have "length (downloaded ?st2) \<le> length (downloaded ?st1)" by (rule cleanup_downloaded_le)
  moreover have "downloaded ?st1 = downloaded st" unfolding prune_def by (rule remove_stale_downloaded)
  ultimately show ?case unfolding step using Cons.IH [of ?st2] by simp
qed simp

lemma clean_downloaded_le: "length (downloaded (clean_downloaded now st)) \<le> length (downloaded st)"
proof -
  have "length (downloaded (foldl (\<lambda>s h. if dget (swarms s) h = None then cleanup_empty h [] now s else s) s hs))
      \<le> length (downloaded s)" for s hs
  proof (induction hs arbitrary: s)
    case (Cons h hs)
    show ?case
      using Cons.IH [of "if dget (swarms s) h = None then cleanup_empty h [] now s else s"]
        cleanup_downloaded_le [of h "[]" now s] order_trans
      by (fastforce split: if_splits)
  qed simp
  then show ?thesis unfolding clean_downloaded_def .
qed

lemma read_prune_downloaded_le: "length (downloaded (fst (read_prune_locked now force st))) \<le> length (downloaded st)"
proof -
  let ?st1 = "fst (prune_swarms (dkeys (swarms st)) now (st\<lparr>last_read_prune := Some now\<rparr>))"
  have "length (downloaded (clean_downloaded now ?st1)) \<le> length (downloaded st)"
    using clean_downloaded_le [of now ?st1] prune_swarms_downloaded [of "dkeys (swarms st)" now "st\<lparr>last_read_prune := Some now\<rparr>"]
    by simp
  then show ?thesis by (simp add: read_prune_locked_def Let_def case_prod_beta)
qed

lemma announce_stopped_downloaded:
  assumes "a_event a = Some ''stopped''"
  shows "length (downloaded (fst (announce a st))) \<le> length (downloaded st)"
proof -
  let ?st1 = "fst (remove_record (a_info_hash a) (announce_key a) (ensure_swarm (a_info_hash a) st))"
  have "fst (announce a st) =
      (if swarm_of ?st1 (a_info_hash a) = [] then cleanup_empty (a_info_hash a) [] (a_now a) ?st1 else ?st1)"
    unfolding announce_def announce_key_def Let_def if_P [OF assms] announce_stopped_def case_prod_beta fst_conv ..
  moreover have "downloaded ?st1 = downloaded st"
    by (simp only: remove_record_downloaded ensure_swarm_fields)
  ultimately show ?thesis
    using cleanup_downloaded_le [of "a_info_hash a" "[]" "a_now a" ?st1] by simp
qed

lemma step_downloaded:
  assumes "registry_step st evs st'" and "reg_inv st" and "length (downloaded st) \<le> MAX_DOWNLOADED_SWARMS"
  shows "length (downloaded st') \<le> MAX_DOWNLOADED_SWARMS"
  using assms(1,2)
proof (cases rule: registry_step_kinds)
  case (announce a)
  then show ?thesis
    using assms(3) announce_stopped_downloaded [of a st] length_note_completed [OF reg_invD(2) [OF assms(2)] assms(3)]
      announce_present_effect(2) [of a st]
    by (cases "a_event a = Some ''stopped''") auto
next
  case (read now force)
  then show ?thesis using assms(3) read_prune_downloaded_le [of now force st] by simp
qed

section \<open>Stale events\<close>

lemma remove_stale_events:
  "distinct ks \<Longrightarrow> (\<And>k. k \<in> set ks \<Longrightarrow> dget (swarm_of st h) k = Some (f k)) \<Longrightarrow>
     snd (remove_stale h now ks st) = map (\<lambda>k. stale_event h now (f k)) ks"
proof (induction ks arbitrary: st)
  case (Cons k ks)
  have "snd (remove_stale h now ks (fst (remove_record h k st))) = map (\<lambda>k. stale_event h now (f k)) ks"
    using Cons.prems by (intro Cons.IH) (auto simp: remove_record_swarm)
  with Cons.prems(2) [of k] show ?case
    by (simp add: case_prod_beta Let_def remove_record_snd)
qed simp

lemma prune_events:
  assumes "dwf (swarm_of st h)"
  shows "snd (prune h now st) = map (stale_event h now \<circ> snd) (filter (\<lambda>(k, r). is_stale now r) (swarm_of st h))"
proof -
  let ?S = "filter (\<lambda>(k, r). is_stale now r) (swarm_of st h)"
  have wf: "dwf ?S" using assms by (simp add: dwf_def distinct_map_filter)
  have get: "dget (swarm_of st h) k = Some (the (dget ?S k))" if "k \<in> set (map fst ?S)" for k
  proof -
    from that obtain r where kr: "(k, r) \<in> set ?S" by force
    then have "dget ?S k = Some r" using dwf_dget_iff [OF wf] by blast
    moreover have "dget (swarm_of st h) k = Some r"
      using kr dwf_dget_iff [OF assms, of k r] by simp
    ultimately show ?thesis by simp
  qed
  have "snd (prune h now st) = map (\<lambda>k. stale_event h now (the (dget ?S k))) (map fst ?S)"
    unfolding prune_def by (rule remove_stale_events) (use wf get in \<open>auto simp: dwf_def\<close>)
  also have "\<dots> = map (stale_event h now \<circ> snd) ?S"
  proof -
    have "the (dget ?S (fst x)) = snd x" if "x \<in> set ?S" for x
      using that dwf_dget_iff [OF wf, of "fst x" "snd x"] by simp
    then show ?thesis by simp
  qed
  finally show ?thesis .
qed

lemma prune_swarms_events:
  "reg_inv st \<Longrightarrow> distinct hs \<Longrightarrow> snd (prune_swarms hs now st) =
     concat (map (\<lambda>h. map (stale_event h now \<circ> snd) (filter (\<lambda>(k, r). is_stale now r) (swarm_of st h))) hs)"
proof (induction hs arbitrary: st)
  case (Cons h hs)
  let ?st1 = "fst (prune h now st)"
  let ?st2 = "cleanup_empty h (swarm_of ?st1 h) now ?st1"
  have inv: "reg_inv ?st2" using Cons.prems by (simp add: reg_inv_cleanup_empty reg_inv_prune)
  have sw: "swarm_of ?st2 h' = swarm_of st h'" if "h' \<in> set hs" for h'
    unfolding cleanup_self
    using that Cons.prems(2) prune_swarm [OF reg_invD(3) [OF Cons.prems(1)], of h now h'] by auto
  have step: "snd (prune_swarms (h # hs) now st) = snd (prune h now st) @ snd (prune_swarms hs now ?st2)"
    by (simp only: prune_swarms.simps Let_def case_prod_beta snd_conv)
  show ?case
    unfolding step prune_events [OF reg_invD(3) [OF Cons.prems(1)]]
    using Cons.IH [OF inv] Cons.prems(2) sw by (simp cong: map_cong)
qed simp

section \<open>Properties\<close>

definition demo_seed :: announce_args where
  "demo_seed = \<lparr>a_info_hash = ''h1'', a_peer_id = ''seed'', a_ip = ''10.0.0.1'', a_port = 6881, a_event = Some ''started'',
     a_left = Some 0, a_now = 100, a_principal = Some \<lparr>ptype = ''service'', pid = ''seeder''\<rparr>, a_interval = None,
     a_uploaded = Some 5, a_downloaded = Some 0, a_legacy_restricted = False\<rparr>"

definition demo_device :: announce_args where
  "demo_device = \<lparr>a_info_hash = ''h1'', a_peer_id = ''d1'', a_ip = ''10.0.0.2'', a_port = 6882, a_event = Some ''completed'',
     a_left = Some 0, a_now = 110, a_principal = Some \<lparr>ptype = ''device'', pid = ''sw1''\<rparr>, a_interval = None,
     a_uploaded = Some 0, a_downloaded = Some 9, a_legacy_restricted = False\<rparr>"

definition demo_state :: registry where
  "demo_state = fst (announce demo_device (fst (announce demo_seed (new_registry 30 15))))"

definition demo_roles :: compiled_roles where
  "demo_roles = \<lparr>generation = 1, role_of = (\<lambda>d. if d = ''sw1'' then Some ''core'' else None)\<rparr>"

lemma demo_reachable: "reachable demo_state"
proof -
  have s: "registry_step st (snd (announce a st)) (fst (announce a st))" for a st
    by (rule announce_step [of a]) simp
  show ?thesis unfolding demo_state_def by (rule reach_step [OF reach_step [OF reach_new s] s])
qed

text \<open>
  C1. In every reachable state of the peer registry each selection index (insertion vectors, position
  tables, per-principal, per-address, per-type and per-role indexes, with their tombstone counts)
  describes exactly the rows the swarm holds, and each row is filed under its own identity key.
\<close>

theorem registry_indexes_coherent: "reachable st \<Longrightarrow> reg_inv st"
  by (rule reachable_inv)

theorem registry_indexes_coherent_witness:
  "reg_inv demo_state \<and> map fst (swarm_of demo_state ''h1'') =
     [(''service'', ''seeder'', ''seed''), (''device'', ''sw1'', ''d1'')]"
proof
  show "reg_inv demo_state" by (rule registry_indexes_coherent [OF demo_reachable])
qed code_simp

text \<open>
  C2. Policy-aware discovery, in any reachable state: the addresses returned belong to distinct rows
  of the freshly pruned swarm, each different from the requester's own record, permitted by the
  predicate and named by the selection; there are at most \<open>numwant\<close> of them and never more than 200;
  and all such rows are returned when the swarm has at most four times the number wanted and the
  matching rows fit.
\<close>

theorem select_peers_exact:
  assumes "reachable st" and "same_generation c (fst (read_prune_locked now False st)) h"
  shows "\<exists>ks. snd (snd (select_peers rb h peer_id req req_ip predicate numwant now sel c st))
              = map (addr_of (swarm_of (fst (read_prune_locked now False st)) h)) ks
          \<and> distinct ks \<and> length ks \<le> want numwant \<and> want numwant \<le> 200
          \<and> set ks \<subseteq> eligible_keys (eligible peer_id req req_ip predicate sel c False)
               (swarm_of (fst (read_prune_locked now False st)) h)
          \<and> (length (swarm_of (fst (read_prune_locked now False st)) h) \<le> 4 * want numwant \<longrightarrow>
             card (eligible_keys (eligible peer_id req req_ip predicate sel c False)
               (swarm_of (fst (read_prune_locked now False st)) h)) \<le> want numwant \<longrightarrow>
             set ks = eligible_keys (eligible peer_id req req_ip predicate sel c False)
               (swarm_of (fst (read_prune_locked now False st)) h))"
proof -
  let ?st1 = "fst (read_prune_locked now False st)"
  have out: "snd (snd (select_peers rb h peer_id req req_ip predicate numwant now sel c st)) =
      snd (select_locked rb h peer_id req req_ip predicate numwant sel c False ?st1)"
    by (simp add: select_peers_def case_prod_beta Let_def)
  have "want numwant \<le> 200" by (simp add: want_def NUMWANT_CAP_def)
  with select_locked_keys [OF reg_inv_read_prune [OF reachable_inv [OF assms(1)]] assms(2) refl,
      of rb peer_id req req_ip predicate numwant sel False]
  show ?thesis unfolding out by blast
qed

theorem select_peers_exact_witness:
  "\<exists>ks. snd (snd (select_peers (\<lambda>n. 1) ''h1'' ''seed'' (Some \<lparr>ptype = ''service'', pid = ''seeder''\<rparr>) None None 5 115
       no_selection demo_roles demo_state)) = map (addr_of (swarm_of (fst (read_prune_locked 115 False demo_state)) ''h1'')) ks
     \<and> distinct ks \<and> snd (snd (select_peers (\<lambda>n. 1) ''h1'' ''seed'' (Some \<lparr>ptype = ''service'', pid = ''seeder''\<rparr>) None None 5 115
       no_selection demo_roles demo_state)) = [(''10.0.0.2'', 6882)]"
proof -
  have "Option.is_none (role_indexes (fst (read_prune_locked 115 False demo_state)) ''h1'')" by code_simp
  then have "same_generation demo_roles (fst (read_prune_locked 115 False demo_state)) ''h1''"
    by (simp add: same_generation_def Option.is_none_def)
  moreover have "snd (snd (select_peers (\<lambda>n. 1) ''h1'' ''seed'' (Some \<lparr>ptype = ''service'', pid = ''seeder''\<rparr>) None None 5 115
       no_selection demo_roles demo_state)) = [(''10.0.0.2'', 6882)]" by code_simp
  ultimately show ?thesis using select_peers_exact [OF demo_reachable] by metis
qed

text \<open>
  C5. A forced prune of any reachable registry keeps exactly the rows heard from within twice their
  announce interval, in order, in every swarm, and reports exactly one \<^verbatim>\<open>stale\<close> event per row dropped.
\<close>

theorem prune_all_exact:
  assumes "reachable st"
  shows "(\<forall>h. swarm_of (fst (prune_all now st)) h = filter (\<lambda>(k, r). \<not> is_stale now r) (swarm_of st h))
     \<and> snd (prune_all now st) = concat (map (\<lambda>h. map (stale_event h now \<circ> snd)
          (filter (\<lambda>(k, r). is_stale now r) (swarm_of st h))) (dkeys (swarms st)))"
proof
  have inv: "reg_inv st" by (rule reachable_inv [OF assms])
  show "\<forall>h. swarm_of (fst (prune_all now st)) h = filter (\<lambda>(k, r). \<not> is_stale now r) (swarm_of st h)"
    using read_prune_swarm [OF inv, of now True] by (simp add: prune_all_def prune_due_def)
  have "distinct (dkeys (swarms st))" using reg_invD(1) [OF inv] by (simp add: dwf_def)
  from prune_swarms_events [OF reg_inv_fields(2) [OF inv] this, of now "Some now"]
  show "snd (prune_all now st) = concat (map (\<lambda>h. map (stale_event h now \<circ> snd)
          (filter (\<lambda>(k, r). is_stale now r) (swarm_of st h))) (dkeys (swarms st)))"
    by (simp add: prune_all_def read_prune_locked_def prune_due_def Let_def case_prod_beta)
qed

theorem prune_all_exact_witness:
  "swarm_of (fst (prune_all 165 demo_state)) ''h1'' = filter (\<lambda>(k, r). \<not> is_stale 165 r) (swarm_of demo_state ''h1'')
     \<and> length (snd (prune_all 165 demo_state)) = 1"
proof
  show "swarm_of (fst (prune_all 165 demo_state)) ''h1'' = filter (\<lambda>(k, r). \<not> is_stale 165 r) (swarm_of demo_state ''h1'')"
    using prune_all_exact [OF demo_reachable] by blast
qed code_simp

text \<open>
  Rows of a reachable registry never carry a negative transfer delta, a detected counter reset
  contributes no bytes, and a peer with nothing left to download has a completion time.
\<close>

theorem registry_rows_ok: "reachable st \<Longrightarrow> all_rows row_ok st"
proof (induction rule: reachable.induct)
  case (reach_new interval rpi)
  show ?case by (simp add: all_rows_def swarm_of_def new_registry_def)
next
  case (reach_step st evs st')
  show ?case
    by (rule step_rows [OF reach_step.hyps(2) reachable_inv [OF reach_step.hyps(1)] reach_step.IH announced_row_ok])
qed

text \<open>The completion history never exceeds its cap, whatever is announced.\<close>

theorem downloaded_bounded: "reachable st \<Longrightarrow> length (downloaded st) \<le> MAX_DOWNLOADED_SWARMS"
proof (induction rule: reachable.induct)
  case (reach_new interval rpi)
  show ?case by (simp add: new_registry_def)
next
  case (reach_step st evs st')
  show ?case by (rule step_downloaded [OF reach_step.hyps(2) reachable_inv [OF reach_step.hyps(1)] reach_step.IH])
qed

text \<open>
  The constant-time membership test \<^verbatim>\<open>has_principal_type\<close> answers exactly whether some row of the
  swarm belongs to a principal of that type, in every reachable state.
\<close>

theorem has_principal_type_exact:
  assumes "reachable st"
  shows "has_principal_type h t st \<longleftrightarrow> (\<exists>k r. dget (swarm_of st h) k = Some r \<and> ptype (row_principal r) = t)"
proof -
  let ?tp = "or_else (dget (or_else (type_positions st h) []) t) []"
  have "type_ok (or_else (type_orders st h) []) (or_else (type_positions st h) [])
       (or_else (type_tombstones st h) []) (dget (swarm_of st h))"
    using reg_invD(4) [OF reachable_inv [OF assms], of h] by (simp add: idx_ok_def)
  then have "dom (dget ?tp) = with_feature (dget (swarm_of st h)) row_type t"
    unfolding type_ok_def vec_ok_def by blast
  moreover have "?tp \<noteq> [] \<longleftrightarrow> dom (dget ?tp) \<noteq> {}" by (simp add: dom_map_of_conv_image_fst)
  ultimately show ?thesis unfolding has_principal_type_def by (auto simp: with_feature_def)
qed

text \<open>
  An announce changes exactly one row of one swarm: \<^verbatim>\<open>stopped\<close> removes the announcing peer's row and
  reports a stop only if there was one, any other event files its row, reports a join only when it
  was absent and a completion only for \<^verbatim>\<open>completed\<close>.
\<close>

theorem announce_effect:
  "swarm_of (fst (announce a st)) h =
     (if h \<noteq> a_info_hash a then swarm_of st h
      else if a_event a = Some ''stopped'' then ddel (announce_key a) (swarm_of st h)
      else dset (announce_key a) (announced_row a st) (swarm_of st h))
   \<and> map ev_name (snd (announce a st)) =
     (if a_event a = Some ''stopped''
      then (if dget (swarm_of st (a_info_hash a)) (announce_key a) = None then [] else [''stop''])
      else (if dget (swarm_of st (a_info_hash a)) (announce_key a) = None then [''join''] else []) @
           (if a_event a = Some ''completed'' then [''complete''] else []))"
proof (cases "a_event a = Some ''stopped''")
  case True
  show ?thesis
    unfolding announce_stopped_effect [OF True] if_P [OF True] by (cases "h = a_info_hash a") simp_all
next
  case False
  show ?thesis
    unfolding announce_present_effect(1,3) [OF False] if_not_P [OF False] by (cases "h = a_info_hash a") simp_all
qed

end
