(* ===== verification/Json.thy ===== *)
theory Json
  imports Prelude Complex_Main
begin

text \<open>
  JSON values as \<^verbatim>\<open>json.load\<close> produces them, with the Python operations the server applies to untyped
  documents: \<^verbatim>\<open>isinstance\<close> tests, truthiness, \<^verbatim>\<open>dict.get\<close>, and \<^verbatim>\<open>==\<close>, under which booleans, integers and
  floats compare by value and dictionaries ignore order.  A float stands for its exact rational
  value (NaN and the infinities are left out).
\<close>

datatype json =
    JNull
  | JBool bool
  | JInt int
  | JFloat rat
  | JStr string
  | JList "json list"
  | JObj "(string \<times> json) list"

type_synonym obj = "(string, json) dict"

section \<open>Python semantics\<close>

primrec pynorm :: "json \<Rightarrow> json" where
  "pynorm JNull = JNull"
| "pynorm (JBool b) = JFloat (if b then 1 else 0)"
| "pynorm (JInt n) = JFloat (of_int n)"
| "pynorm (JFloat r) = JFloat r"
| "pynorm (JStr s) = JStr s"
| "pynorm (JList xs) = JList (map pynorm xs)"
| "pynorm (JObj kvs) = JObj (sort_key fst (map (map_prod id pynorm) kvs))"

definition py_eq :: "json \<Rightarrow> json \<Rightarrow> bool" where
  \<comment> \<open>\<^verbatim>\<open>a == b\<close>\<close>
  "py_eq a b \<longleftrightarrow> pynorm a = pynorm b"

fun truthy :: "json \<Rightarrow> bool" where
  \<comment> \<open>\<^verbatim>\<open>bool(v)\<close>\<close>
  "truthy JNull = False"
| "truthy (JBool b) = b"
| "truthy (JInt n) = (n \<noteq> 0)"
| "truthy (JFloat r) = (r \<noteq> 0)"
| "truthy (JStr s) = (s \<noteq> [])"
| "truthy (JList xs) = (xs \<noteq> [])"
| "truthy (JObj kvs) = (kvs \<noteq> [])"

fun as_obj :: "json \<Rightarrow> obj option" where
  \<comment> \<open>\<^verbatim>\<open>isinstance(v, dict)\<close>\<close>
  "as_obj (JObj kvs) = Some kvs"
| "as_obj _ = None"

fun as_list :: "json \<Rightarrow> json list option" where
  "as_list (JList xs) = Some xs"
| "as_list _ = None"

fun as_str :: "json \<Rightarrow> string option" where
  "as_str (JStr s) = Some s"
| "as_str _ = None"

fun as_int :: "json \<Rightarrow> int option" where
  \<comment> \<open>\<^verbatim>\<open>isinstance(v, int) and not isinstance(v, bool)\<close>\<close>
  "as_int (JInt n) = Some n"
| "as_int _ = None"

fun as_bool :: "json \<Rightarrow> bool option" where
  "as_bool (JBool b) = Some b"
| "as_bool _ = None"

definition get_or :: "obj \<Rightarrow> string \<Rightarrow> json \<Rightarrow> json" where
  \<comment> \<open>\<^verbatim>\<open>d.get(k, v)\<close>\<close>
  "get_or d k v = (case dget d k of Some x \<Rightarrow> x | None \<Rightarrow> v)"

abbreviation jget :: "obj \<Rightarrow> string \<Rightarrow> json" where
  \<comment> \<open>\<^verbatim>\<open>d.get(k)\<close>\<close>
  "jget d k \<equiv> get_or d k JNull"

definition obj_or_empty :: "json \<Rightarrow> obj" where
  \<comment> \<open>\<^verbatim>\<open>v if isinstance(v, dict) else {}\<close>\<close>
  "obj_or_empty v = (case as_obj v of Some d \<Rightarrow> d | None \<Rightarrow> [])"

definition has_key :: "obj \<Rightarrow> string \<Rightarrow> bool" where
  "has_key d k \<longleftrightarrow> k \<in> set (dkeys d)"

definition setdefault :: "string \<Rightarrow> json \<Rightarrow> obj \<Rightarrow> obj" where
  \<comment> \<open>\<^verbatim>\<open>d.setdefault(k, v)\<close>\<close>
  "setdefault k v d = (if has_key d k then d else dset k v d)"

fun as_num :: "json \<Rightarrow> rat option" where
  \<comment> \<open>a value usable in arithmetic; booleans are integers\<close>
  "as_num (JBool b) = Some (if b then 1 else 0)"
| "as_num (JInt n) = Some (of_int n)"
| "as_num (JFloat r) = Some r"
| "as_num _ = None"

definition py_trunc :: "rat \<Rightarrow> int" where
  \<comment> \<open>\<^verbatim>\<open>int(x)\<close> of a float: towards zero\<close>
  "py_trunc r = (if r < 0 then \<lceil>r\<rceil> else \<lfloor>r\<rfloor>)"

fun int_of_json :: "json \<Rightarrow> int res" where
  \<comment> \<open>\<^verbatim>\<open>int(v)\<close>\<close>
  "int_of_json (JBool b) = Inr (if b then 1 else 0)"
| "int_of_json (JInt n) = Inr n"
| "int_of_json (JFloat r) = Inr (py_trunc r)"
| "int_of_json (JStr s) = py_int s"
| "int_of_json _ = Inl TypeError"

text \<open>A JSON file as its reader sees it: absent, unreadable or not JSON, or a value.\<close>

datatype file_state = Missing | Corrupt | Content json

section \<open>Lemmas\<close>

lemma as_obj_Some [simp]: "as_obj v = Some d \<longleftrightarrow> v = JObj d"
  by (cases v) auto

lemma as_list_Some [simp]: "as_list v = Some xs \<longleftrightarrow> v = JList xs"
  by (cases v) auto

lemma as_str_Some [simp]: "as_str v = Some s \<longleftrightarrow> v = JStr s"
  by (cases v) auto

lemma as_int_Some [simp]: "as_int v = Some n \<longleftrightarrow> v = JInt n"
  by (cases v) auto

lemma as_bool_Some [simp]: "as_bool v = Some b \<longleftrightarrow> v = JBool b"
  by (cases v) auto

lemma has_key_dget: "has_key d k \<longleftrightarrow> (\<exists>v. dget d k = Some v)"
  by (metis dget_None_iff has_key_def not_None_eq)

lemma setdefault_get: "dget (setdefault k v d) k' = (if k' = k \<and> dget d k = None then Some v else dget d k')"
  by (cases "dget d k") (auto simp: setdefault_def has_key_dget)

lemma obj_or_empty_simps [simp]:
  "obj_or_empty (JObj d) = d" "obj_or_empty JNull = []" "obj_or_empty (JStr s) = []"
  "obj_or_empty (JList xs) = []" "obj_or_empty (JInt n) = []" "obj_or_empty (JBool b) = []"
  by (simp_all add: obj_or_empty_def)

lemma get_or_dset: "get_or (dset k v d) j w = (if j = k then v else get_or d j w)"
  by (simp add: get_or_def)

lemma get_or_Some: "dget d k = Some v \<Longrightarrow> get_or d k w = v"
  by (simp add: get_or_def)

lemma get_or_None: "dget d k = None \<Longrightarrow> get_or d k w = w"
  by (simp add: get_or_def)

lemma pynorm_JStr [simp]: "pynorm v = JStr s \<longleftrightarrow> v = JStr s"
  by (cases v) auto

lemma pynorm_JNull [simp]: "pynorm v = JNull \<longleftrightarrow> v = JNull"
  by (cases v) auto

lemma py_eq_refl [simp]: "py_eq v v"
  by (simp add: py_eq_def)

lemma py_eq_sym: "py_eq a b \<Longrightarrow> py_eq b a"
  by (simp add: py_eq_def)

lemma py_eq_trans: "py_eq a b \<Longrightarrow> py_eq b c \<Longrightarrow> py_eq a c"
  by (simp add: py_eq_def)

lemma py_eq_JStr [simp]: "py_eq v (JStr s) \<longleftrightarrow> v = JStr s" "py_eq (JStr s) v \<longleftrightarrow> v = JStr s"
  using pynorm_JStr by (auto simp: py_eq_def) (metis pynorm.simps(5) pynorm_JStr)+

text \<open>Integers compare equal only to integers among integers.\<close>

lemma py_eq_JInt [simp]: "py_eq (JInt m) (JInt n) \<longleftrightarrow> m = n"
  by (simp add: py_eq_def)

end
