(* ===== verification/Ipv4.thy ===== *)
theory Ipv4
  imports Prelude
begin

text \<open>
  The part of Python's \<^verbatim>\<open>ipaddress\<close> module the policy uses: \<^verbatim>\<open>IPv4Address(str)\<close>, \<^verbatim>\<open>IPv4Network(str, strict=False)\<close>
  with prefix lengths, netmasks and hostmasks, and membership of an address in a network.  A
  rejected text is \<^verbatim>\<open>None\<close> (every failure is a \<^verbatim>\<open>ValueError\<close>).
\<close>

fun split_on :: "char \<Rightarrow> string \<Rightarrow> string list" where
  \<comment> \<open>\<^verbatim>\<open>s.split(c)\<close>\<close>
  "split_on c [] = [[]]"
| "split_on c (x # xs) =
     (if x = c then [] # split_on c xs
      else (case split_on c xs of [] \<Rightarrow> [[x]] | w # ws \<Rightarrow> (x # w) # ws))"

definition parse_octet :: "string \<Rightarrow> nat option" where
  "parse_octet s =
     (if \<not> isdigit s \<or> length s > 3 then None
      else if s \<noteq> ''0'' \<and> hd s = CHR ''0'' then None
      else if dec_val s > 255 then None else Some (dec_val s))"

definition parse_ipv4 :: "string \<Rightarrow> int option" where
  \<comment> \<open>\<^verbatim>\<open>IPv4Address(s)\<close>; a slash is refused by the octet parser as well\<close>
  "parse_ipv4 s = (case map parse_octet (split_on (CHR ''.'') s) of
       [Some a, Some b, Some c, Some d] \<Rightarrow> Some (((int a * 256 + int b) * 256 + int c) * 256 + int d)
     | _ \<Rightarrow> None)"

definition mask_of_prefix :: "nat \<Rightarrow> int" where
  "mask_of_prefix p = 2 ^ 32 - 2 ^ (32 - p)"

definition prefix_of_mask :: "int \<Rightarrow> nat option" where
  \<comment> \<open>\<^verbatim>\<open>_prefix_from_ip_int\<close>: ones followed by zeros\<close>
  "prefix_of_mask m = List.find (\<lambda>p. mask_of_prefix p = m) [0..<33]"

definition parse_prefix :: "string \<Rightarrow> nat option" where
  "parse_prefix s =
     (if isdigit s \<and> length s \<le> int_max_str_digits \<and> dec_val s \<le> 32 then Some (dec_val s)
      else (case parse_ipv4 s of
          None \<Rightarrow> None
        | Some m \<Rightarrow> (case prefix_of_mask m of
              Some p \<Rightarrow> Some p
            | None \<Rightarrow> prefix_of_mask (2 ^ 32 - 1 - m))))"

definition parse_network :: "string \<Rightarrow> (int \<times> nat) option" where
  \<comment> \<open>\<^verbatim>\<open>IPv4Network(s, strict=False)\<close>: network address and prefix length\<close>
  "parse_network s = (case split_on (CHR ''/'') s of
       [a] \<Rightarrow> map_option (\<lambda>n. (n, 32)) (parse_ipv4 a)
     | [a, m] \<Rightarrow> (case (parse_ipv4 a, parse_prefix m) of
           (Some n, Some p) \<Rightarrow> Some (n div 2 ^ (32 - p) * 2 ^ (32 - p), p)
         | _ \<Rightarrow> None)
     | _ \<Rightarrow> None)"

definition in_network :: "int \<Rightarrow> int \<times> nat \<Rightarrow> bool" where
  \<comment> \<open>\<^verbatim>\<open>address in network\<close>: the masked address is the network address\<close>
  "in_network ip net = (ip div 2 ^ (32 - snd net) * 2 ^ (32 - snd net) = fst net)"

lemma parse_octet_bound: "parse_octet s = Some n \<Longrightarrow> n \<le> 255"
  by (auto simp: parse_octet_def split: if_splits)

lemma parse_ipv4_bound:
  assumes "parse_ipv4 s = Some n" shows "0 \<le> n \<and> n < 2 ^ 32"
proof -
  from assms obtain a b c d where n: "n = ((int a * 256 + int b) * 256 + int c) * 256 + int d"
    and o: "map parse_octet (split_on (CHR ''.'') s) = [Some a, Some b, Some c, Some d]"
    by (auto simp: parse_ipv4_def split: list.splits option.splits)
  then obtain w x y z where "parse_octet w = Some a" "parse_octet x = Some b" "parse_octet y = Some c"
    "parse_octet z = Some d" by (auto simp: map_eq_Cons_conv)
  then have "a \<le> 255" "b \<le> 255" "c \<le> 255" "d \<le> 255" by (simp_all add: parse_octet_bound)
  then have "int a \<le> 255" "int b \<le> 255" "int c \<le> 255" "int d \<le> 255" by simp_all
  with n show ?thesis by simp
qed

text \<open>A network of full length contains exactly its own address, and \<open>/0\<close> contains everything.\<close>

lemma in_network_host: "in_network ip (n, 32) \<longleftrightarrow> ip = n"
  by (simp add: in_network_def)

lemma in_network_all: "0 \<le> ip \<Longrightarrow> ip < 2 ^ 32 \<Longrightarrow> in_network ip (0, 0)"
  by (simp add: in_network_def)

end
