(* ===== verification/Policy_Schema.thy ===== *)
theory Policy_Schema
  imports Json Ipv4
begin

text \<open>
  \<^verbatim>\<open>server/peer_policy.py\<close>, first half: the policy document schema.  A document is a JSON object exactly as
  it is stored; every validator of the module is a definition that returns the error the code
  raises.  \<^verbatim>\<open>PolicyError\<close> keeps its machine code, other exceptions are kept apart because the callers
  treat them differently.  \<^const>\<open>Inl\<close> of \<open>Unmodelled\<close> marks Python operations on operands outside
  the modelled fragment (arithmetic on non-numbers in documents that were never validated).
\<close>

section \<open>Errors and constants\<close>

datatype perr =
    PolicyError string
  | PolicyDegradedError
  | OperationBacklogFull
  | RevisionConflict int
  | RoleInUse string nat "string list" "string list"
  | PyError py_error
  | Unmodelled

type_synonym 'a pres = "perr + 'a"

abbreviation invalid_policy :: perr where
  "invalid_policy \<equiv> PolicyError ''invalid_policy''"

definition SCHEMA :: int where "SCHEMA = 1"
definition MAX_ACLS :: nat where "MAX_ACLS = 64"
definition MAX_RULES_PER_ACL :: nat where "MAX_RULES_PER_ACL = 256"
definition OUTBOX_CAP :: nat where "OUTBOX_CAP = 256"
definition MAX_ROLES :: nat where "MAX_ROLES = 256"
definition MAX_ROLE_PEERS :: nat where "MAX_ROLE_PEERS = 64"
definition MAX_QUARANTINED_DEVICES :: int where "MAX_QUARANTINED_DEVICES = 10000"
definition LKG_RING_SIZE :: nat where "LKG_RING_SIZE = 5"

definition RESERVED_QUARANTINE :: string where
  "RESERVED_QUARANTINE = ''quarantine''"

definition RESERVED_ROLE_NAMES :: "string list" where
  "RESERVED_ROLE_NAMES = [''default'', ''quarantine'', ''origin'', ''seeder'', ''legacy'']"

definition match_types :: "string list" where
  "match_types = [''device'', ''service'', ''host'', ''cidr'', ''any'', ''role'']"

definition PER_TORRENT_RATE_KEYS :: "string list" where
  "PER_TORRENT_RATE_KEYS = [''seed_up_bps'', ''seed_down_bps'', ''leech_up_bps'', ''leech_down_bps'']"

definition QOS_DEFAULTS :: obj where
  "QOS_DEFAULTS =
     [(''max_peers'', JInt 10), (''per_peer_bps'', JInt 12500000), (''fanout'', JInt 1),
      (''seed_up_bps'', JInt 0), (''seed_down_bps'', JInt 0), (''leech_up_bps'', JInt 0),
      (''leech_down_bps'', JInt 0), (''overall_up_bps'', JInt 0), (''overall_down_bps'', JInt 0),
      (''max_concurrent'', JInt 100), (''request_peer_speed_limit_bps'', JInt 51200),
      (''announce_min_interval_s'', JInt 30), (''numwant'', JInt 50), (''handout_budget'', JInt 0),
      (''catalog_tick_s'', JInt 60), (''telemetry_every_ticks'', JInt 1),
      (''peer_telemetry_interval_s'', JInt 60), (''telemetry_pause'', JBool False),
      (''on_stale'', JStr ''defaults''), (''origin_up_bps'', JInt 0),
      (''origin_per_torrent_up_bps'', JInt 0), (''origin_max_peers'', JInt 55)]"

definition rate_keys :: "string list" where
  \<comment> \<open>\<^verbatim>\<open>_RATE_KEYS\<close>: the keys whose unit is bytes per second\<close>
  "rate_keys = [''per_peer_bps'', ''seed_up_bps'', ''seed_down_bps'', ''leech_up_bps'', ''leech_down_bps'',
     ''overall_up_bps'', ''overall_down_bps'', ''request_peer_speed_limit_bps'', ''origin_up_bps'',
     ''origin_per_torrent_up_bps'']"

definition MIN_RATE_BPS :: int where "MIN_RATE_BPS = 8192"

definition qos_ranges :: "(string, int \<times> int) dict" where
  "qos_ranges =
     [(''max_peers'', (1, 1000)), (''per_peer_bps'', (0, 10000000000)), (''fanout'', (1, 1000)),
      (''seed_up_bps'', (0, 10000000000)), (''seed_down_bps'', (0, 10000000000)),
      (''leech_up_bps'', (0, 10000000000)), (''leech_down_bps'', (0, 10000000000)),
      (''overall_up_bps'', (0, 10000000000)), (''overall_down_bps'', (0, 10000000000)),
      (''max_concurrent'', (1, 1000)), (''request_peer_speed_limit_bps'', (0, 1000000000)),
      (''announce_min_interval_s'', (10, 300)), (''numwant'', (4, 200)), (''handout_budget'', (0, 1000)),
      (''catalog_tick_s'', (60, 900)), (''telemetry_every_ticks'', (1, 60)),
      (''peer_telemetry_interval_s'', (10, 60)), (''origin_up_bps'', (0, 10000000000)),
      (''origin_per_torrent_up_bps'', (0, 10000000000)), (''origin_max_peers'', (1, 1000))]"

definition TRACKER_QOS_KEYS :: "string list" where
  "TRACKER_QOS_KEYS = [''announce_min_interval_s'', ''numwant'']"

definition TRACKER_STATES :: "string list" where
  "TRACKER_STATES = [''seeder'', ''leecher'']"

definition qos_scopes :: "(string, string list) dict" where
  "qos_scopes =
     map (\<lambda>k. (k, [''global'', ''role'', ''device'']))
       ([''max_peers'', ''per_peer_bps'', ''fanout''] @ PER_TORRENT_RATE_KEYS @
        [''overall_up_bps'', ''overall_down_bps'', ''max_concurrent'', ''catalog_tick_s'',
         ''telemetry_every_ticks'', ''telemetry_pause''])
     @ [(''peer_telemetry_interval_s'', [''device''])]
     @ map (\<lambda>k. (k, [''global'', ''role'']))
         [''request_peer_speed_limit_bps'', ''announce_min_interval_s'', ''numwant'', ''handout_budget'']
     @ map (\<lambda>k. (k, [''global'']))
         [''on_stale'', ''origin_up_bps'', ''origin_per_torrent_up_bps'', ''origin_max_peers'']"

definition rule_json :: "int \<Rightarrow> string \<Rightarrow> obj \<Rightarrow> json" where
  "rule_json seq action match = JObj [(''seq'', JInt seq), (''action'', JStr action), (''match'', JObj match)]"

definition QUARANTINE_RULES :: json where
  "QUARANTINE_RULES = JList [rule_json 10 ''deny'' [(''type'', JStr ''any'')]]"

definition base_document :: obj where
  "base_document =
     [(''schema'', JInt SCHEMA), (''revision'', JInt 1),
      (''acls'', JObj [(RESERVED_QUARANTINE, JObj [(''reserved'', JBool True),
         (''description'', JStr ''reserved: fully isolate an assigned device''),
         (''rules'', QUARANTINE_RULES)])]),
      (''assignments'', JObj []), (''seeder_assignment'', JNull), (''operation_outbox'', JList [])]"

section \<open>Names, rules and addresses\<close>

definition is_lower :: "char \<Rightarrow> bool" where
  "is_lower c \<longleftrightarrow> 97 \<le> (of_char c :: nat) \<and> (of_char c :: nat) \<le> 122"

definition is_upper :: "char \<Rightarrow> bool" where
  "is_upper c \<longleftrightarrow> 65 \<le> (of_char c :: nat) \<and> (of_char c :: nat) \<le> 90"

definition role_name_ok :: "string \<Rightarrow> bool" where
  \<comment> \<open>\<^verbatim>\<open>_ROLE_NAME_RE.fullmatch\<close>\<close>
  "role_name_ok s \<longleftrightarrow> s \<noteq> [] \<and> length s \<le> 32 \<and> (is_lower (hd s) \<or> is_digit (hd s)) \<and>
     list_all (\<lambda>c. is_lower c \<or> is_digit c \<or> c \<in> set ''._-'') s"

definition acl_name_ok :: "string \<Rightarrow> bool" where
  \<comment> \<open>\<^verbatim>\<open>_ACL_NAME_RE.match\<close>: the final dollar also matches before one trailing newline\<close>
  "acl_name_ok s =
     (let core = (\<lambda>s. 1 \<le> length s \<and> length s \<le> 64 \<and>
            list_all (\<lambda>c. is_lower c \<or> is_upper c \<or> is_digit c \<or> c \<in> set ''._-'') s)
      in core s \<or> (s \<noteq> [] \<and> last s = CHR 0x0A \<and> core (butlast s)))"

definition validate_role_name :: "json \<Rightarrow> string pres" where
  "validate_role_name name = (case as_str name of
      None \<Rightarrow> Inl invalid_policy
    | Some s \<Rightarrow> if \<not> role_name_ok s then Inl invalid_policy
                else if s \<in> set RESERVED_ROLE_NAMES then Inl (PolicyError ''role_reserved_name'')
                else Inr s)"

definition validate_rule :: "json \<Rightarrow> unit pres" where
  "validate_rule rule = (case as_obj rule of
      None \<Rightarrow> Inl invalid_policy
    | Some r \<Rightarrow>
       if as_int (jget r ''seq'') = None then Inl invalid_policy
       else if jget r ''action'' \<notin> {JStr ''permit'', JStr ''deny''} then Inl invalid_policy
       else (case as_obj (jget r ''match'') of
          None \<Rightarrow> Inl invalid_policy
        | Some m \<Rightarrow> (case as_str (jget m ''type'') of
            None \<Rightarrow> Inl invalid_policy
          | Some t \<Rightarrow>
             if t \<notin> set match_types then Inl invalid_policy
             else if t = ''any'' then Inr ()
             else (case as_str (jget m ''value'') of
                None \<Rightarrow> Inl invalid_policy
              | Some v \<Rightarrow>
                 if v = [] then Inl invalid_policy
                 else if t = ''host'' then
                   (if parse_ipv4 v = None then Inl (PyError ValueError) else Inr ())
                 else if t = ''cidr'' then
                   (if parse_network v = None then Inl (PyError ValueError) else Inr ())
                 else if t = ''role'' then rbind (validate_role_name (JStr v)) (\<lambda>_. Inr ())
                 else Inr ()))))"

definition role_net_ok :: "string \<Rightarrow> bool" where
  \<comment> \<open>\<^verbatim>\<open>re.fullmatch(ROLE_NET_PATTERN, value)\<close>: a dotted quad, optionally followed by a zero-padded
      prefix length of at most 32 digits or a dotted netmask or hostmask\<close>
  "role_net_ok s = (case split_on (CHR ''/'') s of
      [a] \<Rightarrow> parse_ipv4 a \<noteq> None
    | [a, m] \<Rightarrow> parse_ipv4 a \<noteq> None \<and>
        ((isdigit m \<and> length m \<le> 32 \<and> dec_val m \<le> 32) \<or>
         (case parse_ipv4 m of None \<Rightarrow> False
          | Some x \<Rightarrow> prefix_of_mask x \<noteq> None \<or> prefix_of_mask (2 ^ 32 - 1 - x) \<noteq> None))
    | _ \<Rightarrow> False)"

definition validate_role_net :: "json \<Rightarrow> (int \<times> nat) pres" where
  "validate_role_net value = (case as_str value of
      None \<Rightarrow> Inl invalid_policy
    | Some s \<Rightarrow> if \<not> role_net_ok s then Inl invalid_policy
                else (case parse_network s of None \<Rightarrow> Inl invalid_policy | Some n \<Rightarrow> Inr n))"

section \<open>QoS values\<close>

definition validate_qos_value :: "string \<Rightarrow> string \<times> json \<Rightarrow> unit pres" where
  \<comment> \<open>the body of the loop of \<^verbatim>\<open>_validate_qos\<close>\<close>
  "validate_qos_value scope kv = (case kv of (key, value) \<Rightarrow>
     (case dget qos_scopes key of
        None \<Rightarrow> Inl (PyError KeyError)
      | Some scopes \<Rightarrow>
         if scope \<notin> set scopes then Inl invalid_policy
         else if key = ''telemetry_pause'' then
           (if as_bool value = None then Inl invalid_policy else Inr ())
         else if key = ''on_stale'' then
           (if value \<notin> {JStr ''keep'', JStr ''defaults''} then Inl invalid_policy else Inr ())
         else (case as_int value of
             None \<Rightarrow> Inl invalid_policy
           | Some n \<Rightarrow> (case dget qos_ranges key of
               None \<Rightarrow> Inl (PyError KeyError)
             | Some (lo, hi) \<Rightarrow>
                if \<not> (lo \<le> n \<and> n \<le> hi) then Inl invalid_policy
                else if key \<in> set rate_keys \<and> n \<noteq> 0 \<and> n < MIN_RATE_BPS then Inl invalid_policy
                else if key = ''catalog_tick_s'' \<and> n mod 60 \<noteq> 0 then Inl invalid_policy
                else if key = ''peer_telemetry_interval_s'' \<and> n \<notin> {10, 60} then Inl invalid_policy
                else Inr ()))))"

definition validate_qos :: "json \<Rightarrow> string \<Rightarrow> unit pres" where
  "validate_qos qos scope = (case as_obj qos of
      None \<Rightarrow> Inl invalid_policy
    | Some d \<Rightarrow> if \<exists>k\<in>set (dkeys d). k \<notin> set (dkeys qos_scopes) then Inl invalid_policy
                else each (validate_qos_value scope) d)"

definition validate_state_values :: "string \<times> json \<Rightarrow> unit pres" where
  "validate_state_values sv = (case as_obj (snd sv) of
      None \<Rightarrow> Inl invalid_policy
    | Some values \<Rightarrow>
       if \<exists>k\<in>set (dkeys values). k \<notin> set TRACKER_QOS_KEYS then Inl invalid_policy
       else each (\<lambda>(key, value). case as_int value of
             None \<Rightarrow> Inl invalid_policy
           | Some n \<Rightarrow> (case dget qos_ranges key of
                None \<Rightarrow> Inl (PyError KeyError)
              | Some (lo, hi) \<Rightarrow> if \<not> (lo \<le> n \<and> n \<le> hi) then Inl invalid_policy else Inr ())) values)"

definition validate_qos_state :: "json \<Rightarrow> unit pres" where
  "validate_qos_state qos_state = (case as_obj qos_state of
      None \<Rightarrow> Inl invalid_policy
    | Some d \<Rightarrow> if \<exists>k\<in>set (dkeys d). k \<notin> set TRACKER_STATES then Inl invalid_policy
                else each validate_state_values d)"

section \<open>Quarantine membership\<close>

definition validate_quarantined_devices :: "json \<Rightarrow> bool \<Rightarrow> unit pres" where
  "validate_quarantined_devices value enforce_limit = (case as_obj value of
      None \<Rightarrow> Inl invalid_policy
    | Some d \<Rightarrow> rbind (each (\<lambda>(_, present). if present \<noteq> JBool True then Inl invalid_policy else Inr ()) d)
        (\<lambda>_. if enforce_limit \<and> int (length d) > MAX_QUARANTINED_DEVICES then Inl invalid_policy else Inr ()))"

definition is_quarantined :: "obj \<Rightarrow> string \<Rightarrow> bool" where
  "is_quarantined doc device_id \<longleftrightarrow>
     (case as_obj (get_or doc ''quarantined_devices'' (JObj [])) of
        Some m \<Rightarrow> jget m device_id = JBool True | None \<Rightarrow> False)
     \<or> (case as_obj (get_or doc ''assignments'' (JObj [])) of
          Some a \<Rightarrow> jget a device_id = JStr RESERVED_QUARANTINE | None \<Rightarrow> False)"

definition ordinary_assignment :: "obj \<Rightarrow> string \<Rightarrow> json" where
  "ordinary_assignment doc device_id = (case as_obj (get_or doc ''assignments'' (JObj [])) of
      None \<Rightarrow> JNull
    | Some a \<Rightarrow> if jget a device_id = JStr RESERVED_QUARANTINE then JNull else jget a device_id)"

definition quarantine_device_ids :: "obj \<Rightarrow> string set" where
  "quarantine_device_ids doc =
     set (map fst (filter (\<lambda>(_, p). p = JBool True) (obj_or_empty (get_or doc ''quarantined_devices'' (JObj [])))))
   \<union> set (map fst (filter (\<lambda>(_, a). a = JStr RESERVED_QUARANTINE) (obj_or_empty (get_or doc ''assignments'' (JObj [])))))"

definition normalize_quarantine :: "obj \<Rightarrow> obj pres" where
  "normalize_quarantine candidate = (case as_obj (jget candidate ''assignments'') of
      None \<Rightarrow> Inl invalid_policy
    | Some assignments \<Rightarrow>
       rbind (case dget candidate ''quarantined_devices'' of
           Some m \<Rightarrow> rbind (validate_quarantined_devices m False) (\<lambda>_. Inr (obj_or_empty m))
         | None \<Rightarrow> Inr []) (\<lambda>membership.
       let legacy_ids = map fst (filter (\<lambda>(_, a). a = JStr RESERVED_QUARANTINE) assignments)
       in if legacy_ids = [] then Inr candidate
          else Inr (dset ''quarantined_devices''
                 (JObj (foldl (\<lambda>m d. dset d (JBool True) m) membership legacy_ids))
                 (dset ''assignments'' (JObj (foldl (\<lambda>a d. ddel d a) assignments legacy_ids)) candidate))))"

definition set_quarantine_membership :: "obj \<Rightarrow> string \<Rightarrow> bool \<Rightarrow> obj" where
  "set_quarantine_membership candidate device_id quarantined =
     (let membership = obj_or_empty (get_or candidate ''quarantined_devices'' (JObj []))
      in if quarantined then dset ''quarantined_devices'' (JObj (dset device_id (JBool True) membership)) candidate
         else let m = ddel device_id membership
              in if m \<noteq> [] then dset ''quarantined_devices'' (JObj m) candidate
                 else ddel ''quarantined_devices'' candidate)"

end
