(* ===== verification/Policy_Qos.thy ===== *)
theory Policy_Qos
  imports Policy_Schema
begin

text \<open>
  \<^verbatim>\<open>server/peer_policy.py\<close>: the layered QoS compiler with its provenance, the role graph (origin
  reachability and pair permission), and the validators of the role section and of the whole
  document, which call the compiler for their cross-field constraints.
\<close>

section \<open>Sections of a document\<close>

definition roles_section :: "obj \<Rightarrow> obj" where
  "roles_section doc = obj_or_empty (get_or doc ''roles'' (JObj []))"

definition role_defs :: "obj \<Rightarrow> obj" where
  "role_defs doc = obj_or_empty (get_or (roles_section doc) ''defs'' (JObj []))"

definition role_of_map :: "obj \<Rightarrow> obj" where
  "role_of_map doc = obj_or_empty (get_or (roles_section doc) ''role_of'' (JObj []))"

definition lookup_json :: "obj \<Rightarrow> json \<Rightarrow> json pres" where
  \<comment> \<open>\<^verbatim>\<open>d.get(k, {})\<close> where the key is itself a JSON value: only strings are ever present, and a list or
      object is unhashable\<close>
  "lookup_json d k = (case k of
      JStr s \<Rightarrow> Inr (get_or d s (JObj []))
    | JList _ \<Rightarrow> Inl (PyError TypeError)
    | JObj _ \<Rightarrow> Inl (PyError TypeError)
    | _ \<Rightarrow> Inr (JObj []))"

definition py_str :: "json \<Rightarrow> string pres" where
  \<comment> \<open>\<^verbatim>\<open>"%s" % v\<close> for the values a role can have\<close>
  "py_str v = (case v of JStr s \<Rightarrow> Inr s | JNull \<Rightarrow> Inr ''None'' | _ \<Rightarrow> Inl Unmodelled)"

section \<open>Compiling QoS\<close>

record qos_row =
  q_value :: json
  q_source :: string
  q_derived :: "(string \<times> json \<times> string) list"

type_synonym effective = "(string, qos_row) dict"

definition qos_layers :: "obj \<Rightarrow> string \<Rightarrow> (json \<times> obj \<times> obj list) pres" where
  "qos_layers doc device_id =
     (let roles = roles_section doc; role = jget (role_of_map doc) device_id
      in rbind (lookup_json (role_defs doc) role) (\<lambda>dv.
         let definition = obj_or_empty dv;
             global_qos = obj_or_empty (get_or roles ''qos_default'' (JObj []));
             role_qos = obj_or_empty (get_or definition ''qos'' (JObj []));
             device_qos = (case as_obj (get_or roles ''qos_device'' (JObj [])) of
                 Some q \<Rightarrow> obj_or_empty (get_or q device_id (JObj [])) | None \<Rightarrow> []);
             stale = (case dget definition ''on_stale'' of Some v \<Rightarrow> [[(''on_stale'', v)]] | None \<Rightarrow> [])
         in Inr (role, definition, [global_qos, role_qos] @ stale @ [device_qos])))"

definition int_value :: "json \<Rightarrow> int option" where
  \<comment> \<open>operands of \<^verbatim>\<open>*\<close> and \<^verbatim>\<open>>\<close>: a bool is an int\<close>
  "int_value v = (case v of JInt n \<Rightarrow> Some n | JBool b \<Rightarrow> Some (if b then 1 else 0) | _ \<Rightarrow> None)"

definition value_of :: "effective \<Rightarrow> string \<Rightarrow> json" where
  "value_of e k = (case dget e k of Some r \<Rightarrow> q_value r | None \<Rightarrow> JNull)"

definition derive_rate :: "string \<Rightarrow> effective \<Rightarrow> qos_row pres" where
  "derive_rate source e =
     (case (int_value (value_of e ''per_peer_bps''), int_value (value_of e ''fanout'')) of
        (Some p, Some f) \<Rightarrow>
          Inr \<lparr>q_value = JInt (p * f), q_source = source,
               q_derived = map (\<lambda>n. (n, value_of e n, (case dget e n of Some r \<Rightarrow> q_source r | None \<Rightarrow> [])))
                             [''per_peer_bps'', ''fanout'']\<rparr>
      | _ \<Rightarrow> Inl Unmodelled)"

fun rate_step :: "obj \<Rightarrow> string \<Rightarrow> string list \<Rightarrow> effective \<times> (string, bool) dict
    \<Rightarrow> (effective \<times> (string, bool) dict) pres" where
  \<comment> \<open>the loop over \<^verbatim>\<open>PER_TORRENT_RATE_KEYS\<close> after one layer\<close>
  "rate_step layer source [] s = Inr s"
| "rate_step layer source (key # ks) (e, derived) =
     (if has_key layer key then rate_step layer source ks (e, dset key False derived)
      else if has_key layer ''per_peer_bps'' \<or>
              (has_key layer ''fanout'' \<and> dget derived key = Some True)
      then rbind (derive_rate source e) (\<lambda>row. rate_step layer source ks (dset key row e, dset key True derived))
      else rate_step layer source ks (e, derived))"

definition apply_layer :: "obj \<Rightarrow> string \<Rightarrow> effective \<times> (string, bool) dict
    \<Rightarrow> (effective \<times> (string, bool) dict) pres" where
  "apply_layer layer source s =
     rate_step layer source PER_TORRENT_RATE_KEYS
       (foldl (\<lambda>e (k, v). dset k \<lparr>q_value = v, q_source = source, q_derived = []\<rparr> e) (fst s) layer, snd s)"

fun apply_layers :: "(obj \<times> string) list \<Rightarrow> effective \<times> (string, bool) dict
    \<Rightarrow> (effective \<times> (string, bool) dict) pres" where
  "apply_layers [] s = Inr s"
| "apply_layers ((layer, source) # ls) s = rbind (apply_layer layer source s) (apply_layers ls)"

definition initial_effective :: "json \<Rightarrow> obj \<Rightarrow> effective pres" where
  "initial_effective role definition =
     (let e0 = map (\<lambda>(k, v). (k, \<lparr>q_value = v, q_source = ''builtin'', q_derived = []\<rparr>)) QOS_DEFAULTS
      in if role \<noteq> JNull \<and> truthy (get_or definition ''restricted'' (JBool False))
         then rbind (py_str role) (\<lambda>r. Inr (dset ''on_stale''
                \<lparr>q_value = JStr ''keep'', q_source = ''role:'' @ r, q_derived = []\<rparr> e0))
         else Inr e0)"

definition compile_qos_layers :: "json \<Rightarrow> obj \<Rightarrow> (obj \<times> string) list \<Rightarrow> effective pres" where
  "compile_qos_layers role definition layers =
     rbind (initial_effective role definition) (\<lambda>e0.
     rbind (apply_layers layers (e0, map (\<lambda>k. (k, False)) PER_TORRENT_RATE_KEYS)) (\<lambda>s. Inr (fst s)))"

definition plain_values :: "effective \<Rightarrow> obj" where
  "plain_values e = map (\<lambda>(k, r). (k, q_value r)) e"

definition unsourced :: "obj list \<Rightarrow> (obj \<times> string) list" where
  "unsourced layers = map (\<lambda>l. (l, ''builtin'')) layers"

definition explain_qos :: "obj \<Rightarrow> string \<Rightarrow> effective pres" where
  "explain_qos doc device_id =
     rbind (qos_layers doc device_id) (\<lambda>(role, definition, layers).
     rbind (py_str role) (\<lambda>r.
       let rs = ''role:'' @ r;
           sources = [''global'', rs] @ (if has_key definition ''on_stale'' then [rs] else []) @ [''device:'' @ device_id]
       in compile_qos_layers role definition (zip layers sources)))"

definition compile_qos :: "obj \<Rightarrow> string \<Rightarrow> obj pres" where
  "compile_qos doc device_id =
     rbind (qos_layers doc device_id) (\<lambda>(role, definition, layers).
     rbind (compile_qos_layers role definition (unsourced layers)) (\<lambda>e. Inr (plain_values e)))"

section \<open>Tracker cadence\<close>

definition selected_state :: "string \<Rightarrow> json \<Rightarrow> obj" where
  "selected_state state values = obj_or_empty (get_or (obj_or_empty values) state (JObj []))"

definition tracker_qos_layers :: "obj \<Rightarrow> string option \<Rightarrow> string \<Rightarrow> (obj \<times> string) list pres" where
  "tracker_qos_layers doc device_id state =
     (if state \<notin> set TRACKER_STATES then Inl invalid_policy
      else let roles = roles_section doc;
               role = (case device_id of Some d \<Rightarrow> jget (role_of_map doc) d | None \<Rightarrow> JNull)
           in rbind (lookup_json (role_defs doc) role) (\<lambda>dv.
              rbind (py_str role) (\<lambda>r.
              let definition = obj_or_empty dv
              in Inr [(obj_or_empty (get_or roles ''qos_default'' (JObj [])), ''global''),
                      (selected_state state (get_or roles ''qos_state_default'' (JObj [])), ''global-state:'' @ state),
                      (obj_or_empty (get_or definition ''qos'' (JObj [])), ''role:'' @ r),
                      (selected_state state (get_or definition ''qos_state'' (JObj [])),
                        ''role-state:'' @ r @ '':'' @ state)])))"

definition tracker_layer :: "(string, json \<times> string) dict \<Rightarrow> obj \<times> string \<Rightarrow> (string, json \<times> string) dict" where
  "tracker_layer e ls = (case ls of (layer, source) \<Rightarrow>
     foldl (\<lambda>e key. case dget layer key of Some v \<Rightarrow> dset key (v, source) e | None \<Rightarrow> e) e TRACKER_QOS_KEYS)"

definition explain_tracker_qos :: "obj \<Rightarrow> string option \<Rightarrow> string \<Rightarrow> (string, json \<times> string) dict pres" where
  "explain_tracker_qos doc device_id state =
     rbind (tracker_qos_layers doc device_id state) (\<lambda>layers.
       Inr (foldl tracker_layer (map (\<lambda>k. (k, (jget QOS_DEFAULTS k, ''builtin''))) TRACKER_QOS_KEYS) layers))"

definition compile_tracker_qos :: "obj \<Rightarrow> string option \<Rightarrow> string \<Rightarrow> obj pres" where
  "compile_tracker_qos doc device_id state =
     rbind (explain_tracker_qos doc device_id state) (\<lambda>e. Inr (map (\<lambda>(k, r). (k, fst r)) e))"

section \<open>The role graph\<close>

definition role_origin_enabled :: "obj \<Rightarrow> string \<Rightarrow> bool" where
  "role_origin_enabled doc role =
     (case as_obj (get_or (role_defs doc) role (JObj [])) of
        None \<Rightarrow> True
      | Some d \<Rightarrow> if \<not> truthy (get_or d ''restricted'' (JBool False)) then True
                  else truthy (get_or d ''origin'' (JBool True)))"

definition json_in :: "string \<Rightarrow> json \<Rightarrow> bool" where
  \<comment> \<open>\<^verbatim>\<open>name in v\<close> for a list; documents reaching this point hold lists\<close>
  "json_in s v = (case as_list v of Some xs \<Rightarrow> JStr s \<in> set xs | None \<Rightarrow> False)"

definition role_permits :: "obj \<Rightarrow> string \<Rightarrow> string \<Rightarrow> bool" where
  "role_permits defs owner subject = (case as_obj (jget defs owner) of
      None \<Rightarrow> True
    | Some d \<Rightarrow> if \<not> truthy (get_or d ''restricted'' (JBool False)) then True
                else json_in subject (get_or d ''peers'' (JList [JStr owner])))"

definition role_pair_permitted :: "obj \<Rightarrow> string \<Rightarrow> string \<Rightarrow> bool" where
  "role_pair_permitted doc left right \<longleftrightarrow>
     role_permits (role_defs doc) left right \<and> role_permits (role_defs doc) right left"

function reach_origin :: "obj \<Rightarrow> string list \<Rightarrow> string list \<Rightarrow> bool" where
  \<comment> \<open>the worklist of \<^verbatim>\<open>_role_reaches_origin\<close>; \<open>pending\<close> is popped from its end, kept reversed here\<close>
  "reach_origin doc pending seen = (case pending of
      [] \<Rightarrow> False
    | role # rest \<Rightarrow>
        if role \<in> set seen then reach_origin doc rest seen
        else if role_origin_enabled doc role then True
        else reach_origin doc
               (rev (filter (\<lambda>c. c \<notin> set (role # seen) \<and> role_pair_permitted doc role c) (dkeys (role_defs doc))) @ rest)
               (role # seen))"
  by pat_completeness auto

termination reach_origin
proof (relation "inv_image (less_than <*lex*> less_than)
    (\<lambda>(doc, pending, seen). (card (set pending \<union> set (dkeys (role_defs doc)) - set seen), length pending))",
    goal_cases)
  case (2 doc pending seen role rest)
  let ?N = "set (dkeys (role_defs doc))"
  have "set rest \<union> ?N - set seen = set pending \<union> ?N - set seen" using 2 by auto
  with 2 show ?case by simp
next
  case (3 doc pending seen role rest)
  let ?N = "set (dkeys (role_defs doc))"
  let ?P = "rev (filter (\<lambda>c. c \<notin> set (role # seen) \<and> role_pair_permitted doc role c) (dkeys (role_defs doc))) @ rest"
  have "set ?P \<union> ?N - set (role # seen) \<subset> set pending \<union> ?N - set seen" using 3 by auto
  then have "card (set ?P \<union> ?N - set (role # seen)) < card (set pending \<union> ?N - set seen)"
    by (rule psubset_card_mono [rotated]) simp
  then show ?case by (simp only: in_inv_image split_conv in_lex_prod less_than_iff) blast
qed (intro wf_inv_image wf_lex_prod wf_less_than)

declare reach_origin.simps [simp del]

definition role_reaches_origin :: "obj \<Rightarrow> string \<Rightarrow> bool" where
  "role_reaches_origin doc start = reach_origin doc [start] []"

definition policy_warnings :: "obj \<Rightarrow> (string \<times> string) list" where
  "policy_warnings doc =
     map (\<lambda>name. (''origin_unreachable'', name))
       (filter (\<lambda>name. case as_obj (jget (role_defs doc) name) of
            None \<Rightarrow> False
          | Some d \<Rightarrow> truthy (get_or d ''restricted'' (JBool False)) \<and> \<not> truthy (get_or d ''origin'' (JBool True))
              \<and> \<not> role_reaches_origin doc name)
          (sort (dkeys (role_defs doc))))"

section \<open>Validating roles and documents\<close>

definition int_gt :: "json \<Rightarrow> json \<Rightarrow> bool pres" where
  "int_gt a b = (case (int_value a, int_value b) of (Some x, Some y) \<Rightarrow> Inr (x > y) | _ \<Rightarrow> Inl Unmodelled)"

definition validate_compiled_qos :: "obj \<Rightarrow> unit pres" where
  "validate_compiled_qos qos =
     rbind (int_gt (jget qos ''fanout'') (jget qos ''max_peers'')) (\<lambda>g.
       if g then Inl invalid_policy
       else each (\<lambda>key. case dget qos_ranges key of
            None \<Rightarrow> Inl (PyError KeyError)
          | Some (_, hi) \<Rightarrow> rbind (int_gt (jget qos key) (JInt hi)) (\<lambda>g. if g then Inl invalid_policy else Inr ()))
          PER_TORRENT_RATE_KEYS)"

fun validate_peers :: "obj \<Rightarrow> json list \<Rightarrow> string list \<Rightarrow> string list pres" where
  \<comment> \<open>the loop over a definition's peers; the result is \<^verbatim>\<open>seen_peers\<close>\<close>
  "validate_peers defs [] seen = Inr seen"
| "validate_peers defs (peer # ps) seen =
     rbind (validate_role_name peer) (\<lambda>p.
       if p \<in> set seen then Inl invalid_policy
       else if \<not> has_key defs p then Inl invalid_policy
       else validate_peers defs ps (p # seen))"

definition role_definition_keys :: "string list" where
  "role_definition_keys = [''restricted'', ''peers'', ''origin'', ''nets'', ''on_stale'', ''qos'', ''qos_state'']"

definition validate_definition :: "obj \<Rightarrow> string \<times> json \<Rightarrow> unit pres" where
  "validate_definition defs nd = (case nd of (name, dv) \<Rightarrow>
     rbind (validate_role_name (JStr name)) (\<lambda>_.
     (case as_obj dv of
        None \<Rightarrow> Inl invalid_policy
      | Some d \<Rightarrow>
         if \<exists>k\<in>set (dkeys d). k \<notin> set role_definition_keys then Inl invalid_policy
         else if as_bool (get_or d ''restricted'' (JBool False)) = None then Inl invalid_policy
         else if as_bool (get_or d ''origin'' (JBool True)) = None then Inl invalid_policy
         else (case as_list (get_or d ''peers'' (JList [JStr name])) of
            None \<Rightarrow> Inl invalid_policy
          | Some ps \<Rightarrow>
             if length ps > MAX_ROLE_PEERS then Inl invalid_policy
             else rbind (validate_peers defs ps []) (\<lambda>seen.
               if name \<notin> set seen then Inl (PolicyError ''role_isolated'')
               else (case as_list (get_or d ''nets'' (JList [])) of
                  None \<Rightarrow> Inl invalid_policy
                | Some nets \<Rightarrow>
                   rbind (each (\<lambda>n. rbind (validate_role_net n) (\<lambda>_. Inr ())) nets) (\<lambda>_.
                   if has_key d ''on_stale'' \<and> jget d ''on_stale'' \<notin> {JStr ''keep'', JStr ''defaults''}
                   then Inl invalid_policy
                   else rbind (validate_qos (get_or d ''qos'' (JObj [])) ''role'') (\<lambda>_.
                        validate_qos_state (get_or d ''qos_state'' (JObj []))))))))))"

definition is_restricted :: "obj \<Rightarrow> bool" where
  "is_restricted d \<longleftrightarrow> truthy (get_or d ''restricted'' (JBool False))"

definition peers_of :: "string \<Rightarrow> obj \<Rightarrow> json" where
  "peers_of name d = get_or d ''peers'' (JList [JStr name])"

definition validate_symmetry :: "obj \<Rightarrow> string \<times> json \<Rightarrow> unit pres" where
  "validate_symmetry defs nd = (case nd of (name, dv) \<Rightarrow>
     let d = obj_or_empty dv
     in if \<not> is_restricted d then Inr ()
        else (case as_list (peers_of name d) of
           None \<Rightarrow> Inl (PyError TypeError)
         | Some ps \<Rightarrow> each (\<lambda>peer. case peer of
               JStr p \<Rightarrow>
                 (case dget defs p of
                    None \<Rightarrow> Inl (PyError KeyError)
                  | Some pv \<Rightarrow>
                     let pd = obj_or_empty pv
                     in if p \<noteq> name \<and> is_restricted pd \<and> \<not> json_in name (peers_of p pd)
                        then Inl (PolicyError ''asymmetric_peers'') else Inr ())
             | _ \<Rightarrow> Inl (PyError KeyError)) ps))"

definition tick_too_long :: "int \<Rightarrow> obj \<Rightarrow> bool pres" where
  \<comment> \<open>\<^verbatim>\<open>qos["catalog_tick_s"] > peer_endpoints.endpoint_ttl() / 3.0\<close>\<close>
  "tick_too_long ttl qos = (case int_value (jget qos ''catalog_tick_s'') of
      None \<Rightarrow> Inl Unmodelled | Some t \<Rightarrow> Inr (3 * t > ttl))"

definition validate_role_qos :: "int \<Rightarrow> obj \<Rightarrow> string \<times> json \<Rightarrow> unit pres" where
  "validate_role_qos ttl global_qos nd = (case nd of (name, dv) \<Rightarrow>
     let d = obj_or_empty dv;
         layers = [global_qos, obj_or_empty (get_or d ''qos'' (JObj []))] @
           (case dget d ''on_stale'' of Some v \<Rightarrow> [[(''on_stale'', v)]] | None \<Rightarrow> [])
     in rbind (compile_qos_layers (JStr name) d (unsourced layers)) (\<lambda>e.
        rbind (validate_compiled_qos (plain_values e)) (\<lambda>_.
        if is_restricted d
        then rbind (tick_too_long ttl (plain_values e)) (\<lambda>g. if g then Inl invalid_policy else Inr ())
        else Inr ())))"

definition validate_device_qos :: "int \<Rightarrow> obj \<Rightarrow> string \<Rightarrow> unit pres" where
  "validate_device_qos ttl roles device_id =
     (let doc = [(''roles'', JObj roles)]
      in rbind (compile_qos doc device_id) (\<lambda>qos.
         rbind (validate_compiled_qos qos) (\<lambda>_.
         rbind (lookup_json (role_defs doc) (jget (role_of_map doc) device_id)) (\<lambda>dv.
           if is_restricted (obj_or_empty dv)
           then rbind (tick_too_long ttl qos) (\<lambda>g. if g then Inl invalid_policy else Inr ())
           else Inr ()))))"

definition validate_assignment :: "obj \<Rightarrow> string \<times> json \<Rightarrow> unit pres" where
  "validate_assignment defs dr = (case dr of (device_id, role) \<Rightarrow>
     if device_id = [] then Inl invalid_policy
     else rbind (validate_role_name role) (\<lambda>r. if has_key defs r then Inr () else Inl invalid_policy))"

definition roles_keys :: "string list" where
  "roles_keys = [''defs'', ''role_of'', ''qos_default'', ''qos_device'', ''qos_state_default'']"

definition validate_roles :: "int \<Rightarrow> json \<Rightarrow> unit pres" where
  "validate_roles ttl rv = (case as_obj rv of
      None \<Rightarrow> Inl invalid_policy
    | Some roles \<Rightarrow>
       if \<exists>k\<in>set (dkeys roles). k \<notin> set roles_keys then Inl invalid_policy
       else (case as_obj (get_or roles ''defs'' (JObj [])) of
          None \<Rightarrow> Inl invalid_policy
        | Some defs \<Rightarrow>
           if length defs > MAX_ROLES then Inl invalid_policy
           else rbind (each (validate_definition defs) defs) (\<lambda>_.
                rbind (each (validate_symmetry defs) defs) (\<lambda>_.
                (case as_obj (get_or roles ''role_of'' (JObj [])) of
                   None \<Rightarrow> Inl invalid_policy
                 | Some role_of \<Rightarrow>
                    rbind (each (validate_assignment defs) role_of) (\<lambda>_.
                    rbind (validate_qos (get_or roles ''qos_default'' (JObj [])) ''global'') (\<lambda>_.
                    rbind (validate_qos_state (get_or roles ''qos_state_default'' (JObj []))) (\<lambda>_.
                    (case as_obj (get_or roles ''qos_device'' (JObj [])) of
                       None \<Rightarrow> Inl invalid_policy
                     | Some qos_device \<Rightarrow>
                        rbind (each (\<lambda>(device_id, qos).
                            if device_id = [] \<or> as_obj qos = None then Inl invalid_policy
                            else validate_qos qos ''device'') qos_device) (\<lambda>_.
                        let global_qos = obj_or_empty (get_or roles ''qos_default'' (JObj []))
                        in rbind (compile_qos_layers JNull [] (unsourced [global_qos, [], []])) (\<lambda>e.
                           rbind (validate_compiled_qos (plain_values e)) (\<lambda>_.
                           rbind (each (validate_role_qos ttl global_qos) defs) (\<lambda>_.
                           each (validate_device_qos ttl roles) (remdups (dkeys qos_device @ dkeys role_of)))))))))))))))"

definition dict_has :: "obj \<Rightarrow> json \<Rightarrow> bool pres" where
  \<comment> \<open>\<^verbatim>\<open>v in d\<close>\<close>
  "dict_has d v = (case v of JStr s \<Rightarrow> Inr (has_key d s)
     | JList _ \<Rightarrow> Inl (PyError TypeError) | JObj _ \<Rightarrow> Inl (PyError TypeError) | _ \<Rightarrow> Inr False)"

fun validate_rules :: "json list \<Rightarrow> int list \<Rightarrow> unit pres" where
  "validate_rules [] seqs = Inr ()"
| "validate_rules (rule # rs) seqs =
     rbind (validate_rule rule) (\<lambda>_.
       (case as_int (jget (obj_or_empty rule) ''seq'') of
          None \<Rightarrow> Inl invalid_policy
        | Some n \<Rightarrow> if n \<in> set seqs then Inl invalid_policy else validate_rules rs (n # seqs)))"

definition validate_acl :: "string \<times> json \<Rightarrow> unit pres" where
  "validate_acl na = (case na of (name, acl) \<Rightarrow>
     if \<not> acl_name_ok name then Inl invalid_policy
     else (case as_obj acl of
        None \<Rightarrow> Inl (PyError AttributeError)
      | Some a \<Rightarrow> (case as_list (jget a ''rules'') of
          None \<Rightarrow> Inl invalid_policy
        | Some rules \<Rightarrow> if length rules > MAX_RULES_PER_ACL then Inl invalid_policy
                        else validate_rules rules [])))"

definition ack_epoch_ok :: "json \<Rightarrow> bool" where
  \<comment> \<open>\<^verbatim>\<open>reconciler_status.validate_ack_epoch\<close>\<close>
  "ack_epoch_ok v = (case v of
      JNull \<Rightarrow> True
    | JStr s \<Rightarrow> length s = 32 \<and> list_all (\<lambda>c. is_digit c \<or> c \<in> set ''abcdef'') s
    | _ \<Rightarrow> False)"

definition known_acl :: "obj \<Rightarrow> json \<Rightarrow> unit pres" where
  "known_acl acls v = rbind (dict_has acls v) (\<lambda>b. if b then Inr () else Inl invalid_policy)"

definition validate_document :: "int \<Rightarrow> json \<Rightarrow> obj pres" where
  "validate_document ttl dv = (case as_obj dv of
      None \<Rightarrow> Inl invalid_policy
    | Some doc \<Rightarrow>
       if \<not> py_eq (jget doc ''schema'') (JInt SCHEMA) then Inl invalid_policy
       else if as_int (jget doc ''revision'') = None then Inl invalid_policy
       else (case as_obj (jget doc ''acls'') of
          None \<Rightarrow> Inl invalid_policy
        | Some acls \<Rightarrow>
           if length acls > MAX_ACLS then Inl invalid_policy
           else if jget acls RESERVED_QUARANTINE = JNull then Inl invalid_policy
           else (case as_obj (jget acls RESERVED_QUARANTINE) of
              None \<Rightarrow> Inl (PyError AttributeError)
            | Some q \<Rightarrow>
               if jget q ''reserved'' \<noteq> JBool True \<or> \<not> py_eq (jget q ''rules'') QUARANTINE_RULES
               then Inl invalid_policy
               else rbind (each validate_acl acls) (\<lambda>_.
               (case as_obj (jget doc ''assignments'') of
                  None \<Rightarrow> Inl invalid_policy
                | Some assignments \<Rightarrow>
                   rbind (each (\<lambda>(_, a). known_acl acls a) assignments) (\<lambda>_.
                   rbind (case dget doc ''quarantined_devices'' of
                       Some v \<Rightarrow> validate_quarantined_devices v True | None \<Rightarrow> Inr ()) (\<lambda>_.
                   rbind (if jget doc ''seeder_assignment'' = JNull then Inr ()
                          else known_acl acls (jget doc ''seeder_assignment'')) (\<lambda>_.
                   (case as_list (jget doc ''operation_outbox'') of
                      None \<Rightarrow> Inl invalid_policy
                    | Some outbox \<Rightarrow>
                       if length outbox > OUTBOX_CAP then Inl invalid_policy
                       else if \<not> ack_epoch_ok (jget doc ''operation_ack_epoch'') then Inl invalid_policy
                       else rbind (case dget doc ''roles'' of Some r \<Rightarrow> validate_roles ttl r | None \<Rightarrow> Inr ())
                              (\<lambda>_. Inr doc))))))))))"

end
