(* ===== verification/Policy_Eval.thy ===== *)
theory Policy_Eval
  imports Policy_Qos
begin

text \<open>
  \<^verbatim>\<open>server/peer_policy.py\<close>: the evaluator.  Roles compile to virtual ACLs, a principal has one effective
  ACL, rules are tried in ascending sequence order and the first match decides, and two principals
  see each other only when both sides permit.
\<close>

section \<open>Compiling roles\<close>

record compiled_policy =
  cr_acl_by_role :: obj
  cr_role_of :: obj
  cr_restricted :: "string list"
  cr_sorted_rules :: "(string, json list) dict"
  cr_members :: "(string, string list) dict"

definition item :: "json \<Rightarrow> string \<Rightarrow> json pres" where
  \<comment> \<open>\<^verbatim>\<open>v[k]\<close>\<close>
  "item v k = (case as_obj v of
      None \<Rightarrow> Inl (PyError TypeError)
    | Some d \<Rightarrow> (case dget d k of Some x \<Rightarrow> Inr x | None \<Rightarrow> Inl (PyError KeyError)))"

definition virtual_rules :: "string \<Rightarrow> bool \<Rightarrow> json list \<Rightarrow> json list" where
  "virtual_rules name origin peers =
     [rule_json 10 ''permit'' [(''type'', JStr ''role''), (''value'', JStr name)]]
   @ (if origin then [rule_json 20 ''permit'' [(''type'', JStr ''service''), (''value'', JStr ''seeder'')]] else [])
   @ map (\<lambda>peer. rule_json 30 ''permit'' [(''type'', JStr ''role''), (''value'', peer)])
       (filter (\<lambda>peer. peer \<noteq> JStr name) peers)
   @ [rule_json 40 ''deny'' [(''type'', JStr ''any'')]]"

definition virtual_role_acl :: "string \<Rightarrow> obj \<Rightarrow> bool \<Rightarrow> json pres" where
  "virtual_role_acl name definition unknown =
     (if unknown
      then Inr (JObj [(''virtual'', JBool True), (''role'', JStr name), (''role_unknown'', JBool True),
             (''rules'', JList [rule_json 40 ''deny'' [(''type'', JStr ''any'')]])])
      else (case as_list (get_or definition ''peers'' (JList [JStr name])) of
          None \<Rightarrow> Inl Unmodelled
        | Some peers \<Rightarrow>
            Inr (JObj [(''virtual'', JBool True), (''role'', JStr name), (''role_unknown'', JBool False),
              (''rules'', JList (virtual_rules name (truthy (get_or definition ''origin'' (JBool True))) peers))])))"

fun compile_defs :: "obj \<Rightarrow> obj \<Rightarrow> string list \<Rightarrow> (obj \<times> string list) pres" where
  \<comment> \<open>the loop over the role definitions\<close>
  "compile_defs [] acls restricted = Inr (acls, restricted)"
| "compile_defs ((name, dv) # ds) acls restricted =
     (case as_obj dv of
        Some d \<Rightarrow>
          if truthy (get_or d ''restricted'' (JBool False))
          then rbind (virtual_role_acl name d False) (\<lambda>a. compile_defs ds (dset name a acls) (restricted @ [name]))
          else compile_defs ds acls restricted
      | None \<Rightarrow> compile_defs ds acls restricted)"

definition unknown_roles :: "obj \<Rightarrow> obj \<Rightarrow> string list" where
  "unknown_roles defs role_of =
     sort (remdups (filter (\<lambda>r. \<not> has_key defs r) (List.map_filter (\<lambda>(_, v). as_str v) role_of)))"

fun compile_unknown :: "string list \<Rightarrow> obj \<Rightarrow> string list \<Rightarrow> (obj \<times> string list) pres" where
  "compile_unknown [] acls restricted = Inr (acls, restricted)"
| "compile_unknown (r # rs) acls restricted =
     rbind (virtual_role_acl r [] True) (\<lambda>a. compile_unknown rs (dset r a acls) (restricted @ [r]))"

definition rule_seq :: "json \<Rightarrow> int pres" where
  \<comment> \<open>\<^verbatim>\<open>rule.get("seq", 0)\<close> as a sort key\<close>
  "rule_seq rule = (case as_obj rule of
      None \<Rightarrow> Inl (PyError AttributeError)
    | Some r \<Rightarrow> (case int_value (get_or r ''seq'' (JInt 0)) of Some n \<Rightarrow> Inr n | None \<Rightarrow> Inl Unmodelled))"

definition sort_rules :: "json list \<Rightarrow> json list pres" where
  "sort_rules rules = rbind (rmap rule_seq rules) (\<lambda>ks. Inr (map snd (sort_key fst (zip ks rules))))"

fun compile_acls :: "obj \<Rightarrow> (string, json list) dict \<Rightarrow> (string, json list) dict pres" where
  "compile_acls [] acc = Inr acc"
| "compile_acls ((name, acl) # as) acc =
     (case as_obj acl of
        Some a \<Rightarrow>
          (case as_list (jget a ''rules'') of
             Some rules \<Rightarrow> rbind (sort_rules rules) (\<lambda>rs. compile_acls as (dset name rs acc))
           | None \<Rightarrow> compile_acls as acc)
      | None \<Rightarrow> compile_acls as acc)"

definition role_members :: "obj \<Rightarrow> obj \<Rightarrow> (string, string list) dict" where
  "role_members defs role_of =
     foldl (\<lambda>m (device_id, role). case as_str role of
          Some r \<Rightarrow> dset r ((case dget m r of Some ds \<Rightarrow> ds | None \<Rightarrow> []) @ [device_id]) m
        | None \<Rightarrow> m)
       (map (\<lambda>n. (n, [])) (dkeys defs)) role_of"

definition compile_roles :: "obj \<Rightarrow> compiled_policy pres" where
  "compile_roles doc =
     (let defs = role_defs doc; role_of = role_of_map doc
      in rbind (compile_defs defs [] []) (\<lambda>(acls1, r1).
         rbind (compile_unknown (unknown_roles defs role_of) acls1 r1) (\<lambda>(acls2, r2).
         rbind (compile_acls (obj_or_empty (get_or doc ''acls'' (JObj []))) []) (\<lambda>sorted_rules.
         Inr \<lparr>cr_acl_by_role = acls2, cr_role_of = role_of, cr_restricted = remdups r2,
              cr_sorted_rules = sorted_rules, cr_members = role_members defs role_of\<rparr>))))"

section \<open>Evaluation\<close>

definition with_compiled :: "obj \<Rightarrow> compiled_policy option \<Rightarrow> compiled_policy pres" where
  "with_compiled doc c = (case c of Some c \<Rightarrow> Inr c | None \<Rightarrow> compile_roles doc)"

definition get_json :: "obj \<Rightarrow> json \<Rightarrow> json pres" where
  \<comment> \<open>\<^verbatim>\<open>d.get(k)\<close> where the key is a JSON value\<close>
  "get_json d k = (case k of
      JStr s \<Rightarrow> Inr (jget d s)
    | JList _ \<Rightarrow> Inl (PyError TypeError)
    | JObj _ \<Rightarrow> Inl (PyError TypeError)
    | _ \<Rightarrow> Inr JNull)"

definition stored_acls :: "obj \<Rightarrow> obj pres" where
  \<comment> \<open>\<^verbatim>\<open>doc.get("acls", {})\<close>, used as a dict\<close>
  "stored_acls doc = (case as_obj (get_or doc ''acls'' (JObj [])) of
      Some a \<Rightarrow> Inr a | None \<Rightarrow> Inl (PyError AttributeError))"

definition assigned_acl :: "obj \<Rightarrow> principal \<Rightarrow> compiled_policy \<Rightarrow> json pres" where
  "assigned_acl doc p c =
     (if ptype p = ''device'' then
        (if is_quarantined doc (pid p)
         then rbind (stored_acls doc) (\<lambda>a. Inr (jget a RESERVED_QUARANTINE))
         else let name = ordinary_assignment doc (pid p)
              in if name \<noteq> JNull then rbind (stored_acls doc) (\<lambda>a. get_json a name)
                 else get_json (cr_acl_by_role c) (jget (cr_role_of c) (pid p)))
      else if ptype p = ''service'' then
        (let name = jget doc ''seeder_assignment''
         in if name = JNull then Inr JNull else rbind (stored_acls doc) (\<lambda>a. get_json a name))
      else Inr JNull)"

definition effective_acl_name :: "obj \<Rightarrow> principal \<Rightarrow> compiled_policy \<Rightarrow> json pres" where
  "effective_acl_name doc p c =
     (if ptype p = ''device'' then
        (if is_quarantined doc (pid p) then Inr (JStr RESERVED_QUARANTINE)
         else let assigned = ordinary_assignment doc (pid p)
              in if assigned \<noteq> JNull
                 then rbind (stored_acls doc) (\<lambda>a. rbind (dict_has a assigned) (\<lambda>b. Inr (if b then assigned else JNull)))
                 else let role = jget (cr_role_of c) (pid p)
                      in rbind (dict_has (cr_acl_by_role c) role) (\<lambda>b.
                           case role of JStr r \<Rightarrow> Inr (if b then JStr (''role:'' @ r) else JNull) | _ \<Rightarrow> Inr JNull))
      else if ptype p = ''service'' then
        (let assigned = jget doc ''seeder_assignment''
         in if assigned \<noteq> JNull
            then rbind (stored_acls doc) (\<lambda>a. rbind (dict_has a assigned) (\<lambda>b. Inr (if b then assigned else JNull)))
            else Inr JNull)
      else Inr JNull)"

definition acl_source :: "obj \<Rightarrow> principal \<Rightarrow> compiled_policy \<Rightarrow> string pres" where
  "acl_source doc p c =
     rbind (effective_acl_name doc p c) (\<lambda>name. case name of
         JStr n \<Rightarrow> Inr (if take 5 n = ''role:'' then n else ''assignment:'' @ n)
       | JNull \<Rightarrow> Inr ''none''
       | _ \<Rightarrow> Inl (PyError AttributeError))"

definition ip_in :: "string option \<Rightarrow> string \<Rightarrow> bool" where
  \<comment> \<open>the CIDR test; anything unparsable does not match\<close>
  "ip_in ipv4 net = (case (ipv4, parse_network net) of
      (Some ip, Some n) \<Rightarrow> (case parse_ipv4 ip of Some a \<Rightarrow> in_network a n | None \<Rightarrow> False)
    | _ \<Rightarrow> False)"

definition rule_matches :: "json \<Rightarrow> principal \<Rightarrow> string option \<Rightarrow> compiled_policy \<Rightarrow> json \<Rightarrow> bool pres" where
  "rule_matches rule p ipv4 c subject_role =
     rbind (item rule ''match'') (\<lambda>match. rbind (item match ''type'') (\<lambda>mtype.
       if mtype = JStr ''any'' then Inr True
       else if mtype = JStr ''device'' then
         (if ptype p = ''device'' then rbind (item match ''value'') (\<lambda>v. Inr (v = JStr (pid p))) else Inr False)
       else if mtype = JStr ''service'' then
         (if ptype p = ''service'' then rbind (item match ''value'') (\<lambda>v. Inr (v = JStr (pid p))) else Inr False)
       else if mtype = JStr ''role'' then
         (if ptype p = ''device''
          then let r = (if subject_role = JNull then jget (cr_role_of c) (pid p) else subject_role)
               in rbind (item match ''value'') (\<lambda>v. Inr (py_eq r v))
          else Inr False)
       else if mtype = JStr ''host'' then
         rbind (item match ''value'') (\<lambda>v. Inr (case ipv4 of Some ip \<Rightarrow> v = JStr ip | None \<Rightarrow> v = JNull))
       else if mtype = JStr ''cidr'' then
         rbind (item match ''value'') (\<lambda>v. case as_str v of Some n \<Rightarrow> Inr (ip_in ipv4 n) | None \<Rightarrow> Inl Unmodelled)
       else Inr False))"

fun first_match :: "json list \<Rightarrow> principal \<Rightarrow> string option \<Rightarrow> compiled_policy \<Rightarrow> json \<Rightarrow> (json \<times> json) pres" where
  "first_match [] p ipv4 c role = Inr (JStr ''permit'', JNull)"
| "first_match (rule # rs) p ipv4 c role =
     rbind (rule_matches rule p ipv4 c role) (\<lambda>b.
       if b then rbind (item rule ''action'') (\<lambda>a. rbind (item rule ''seq'') (\<lambda>s. Inr (a, s)))
       else first_match rs p ipv4 c role)"

definition evaluate_for ::
  "obj \<Rightarrow> principal \<Rightarrow> principal \<Rightarrow> string option \<Rightarrow> compiled_policy option \<Rightarrow> (json \<times> json) pres" where
  "evaluate_for doc owner subject subject_ipv4 compiled =
     rbind (with_compiled doc compiled) (\<lambda>c.
     rbind (assigned_acl doc owner c) (\<lambda>acl.
       if acl = JNull then Inr (JStr ''permit'', JNull)
       else rbind (effective_acl_name doc owner c) (\<lambda>acl_name.
            rbind (item acl ''rules'') (\<lambda>own_rules.
            let rules = (case acl_name of
                    JStr n \<Rightarrow> (case dget (cr_sorted_rules c) n of Some rs \<Rightarrow> Some rs | None \<Rightarrow> as_list own_rules)
                  | _ \<Rightarrow> as_list own_rules);
                subject_role = (if ptype subject = ''device'' then jget (cr_role_of c) (pid subject) else JNull)
            in (case rules of
                  None \<Rightarrow> Inl Unmodelled
                | Some rs \<Rightarrow> first_match rs subject subject_ipv4 c subject_role)))))"

definition evaluate :: "obj \<Rightarrow> principal \<Rightarrow> string option \<Rightarrow> compiled_policy option \<Rightarrow> (json \<times> json) pres" where
  "evaluate doc p ipv4 compiled = evaluate_for doc p p ipv4 compiled"

definition mutual_permit ::
  "obj \<Rightarrow> principal \<Rightarrow> string option \<Rightarrow> principal \<Rightarrow> string option \<Rightarrow> compiled_policy option \<Rightarrow> bool pres" where
  "mutual_permit doc requester requester_ipv4 candidate candidate_ipv4 compiled =
     (if truthy (jget doc ''_fail_closed'') then Inr False
      else rbind (evaluate_for doc requester candidate candidate_ipv4 compiled) (\<lambda>req.
           rbind (evaluate_for doc candidate requester requester_ipv4 compiled) (\<lambda>cand.
           Inr (fst req = JStr ''permit'' \<and> fst cand = JStr ''permit''))))"

end
