(* ===== verification/Policy_Valid.thy ===== *)
theory Policy_Valid
  imports Policy_Eval
begin

text \<open>
  What a document that passes \<^verbatim>\<open>validate_document\<close> looks like, and what follows for the evaluator of
  \<^verbatim>\<open>server/peer_policy.py\<close>: compilation and evaluation never raise, quarantine isolates, and the virtual
  ACLs of roles decide exactly what the role graph says.
\<close>

section \<open>Shape of validated parts\<close>

definition rule_ok :: "json \<Rightarrow> bool" where
  "rule_ok rule \<longleftrightarrow> (\<exists>r seq act m t. rule = JObj r \<and> dget r ''seq'' = Some (JInt seq)
     \<and> dget r ''action'' = Some (JStr act) \<and> act \<in> {''permit'', ''deny''}
     \<and> dget r ''match'' = Some (JObj m) \<and> dget m ''type'' = Some (JStr t) \<and> t \<in> set match_types
     \<and> (t \<noteq> ''any'' \<longrightarrow> (\<exists>v. dget m ''value'' = Some (JStr v) \<and> (t = ''cidr'' \<longrightarrow> parse_network v \<noteq> None))))"

lemma jget_eq: "x \<noteq> JNull \<Longrightarrow> jget d k = x \<longleftrightarrow> dget d k = Some x"
  by (auto simp: get_or_def split: option.splits)

lemma jget_str: "as_str (jget d k) = Some s \<longleftrightarrow> dget d k = Some (JStr s)"
  by (simp add: jget_eq)

lemma jget_obj: "as_obj (jget d k) = Some s \<longleftrightarrow> dget d k = Some (JObj s)"
  by (simp add: jget_eq)

lemma jget_list: "as_list (jget d k) = Some s \<longleftrightarrow> dget d k = Some (JList s)"
  by (simp add: jget_eq)

lemma jget_int: "as_int (jget d k) = Some s \<longleftrightarrow> dget d k = Some (JInt s)"
  by (simp add: jget_eq)

lemmas jget_shapes = jget_str jget_obj jget_list jget_int

lemma validate_rule_ok:
  assumes "validate_rule rule = Inr ()" shows "rule_ok rule"
proof -
  obtain r where r: "rule = JObj r" using assms by (cases rule) (auto simp: validate_rule_def)
  obtain seq where seq: "dget r ''seq'' = Some (JInt seq)"
    using assms r by (auto simp: validate_rule_def jget_eq split: if_splits)
  obtain act where act: "dget r ''action'' = Some (JStr act)" "act \<in> {''permit'', ''deny''}"
    using assms r by (auto simp: validate_rule_def jget_eq split: if_splits)
  obtain m where m: "dget r ''match'' = Some (JObj m)"
    using assms r by (auto simp: validate_rule_def jget_eq split: if_splits option.splits)
  have jm: "jget r ''match'' = JObj m" using m by (simp add: get_or_def)
  obtain t where t: "dget m ''type'' = Some (JStr t)" "t \<in> set match_types"
    using assms r jm by (auto simp: validate_rule_def jget_eq split: if_splits option.splits)
  have jt: "jget m ''type'' = JStr t" using t by (simp add: get_or_def)
  have "\<exists>v. dget m ''value'' = Some (JStr v) \<and> (t = ''cidr'' \<longrightarrow> parse_network v \<noteq> None)" if "t \<noteq> ''any''"
    using assms r jm jt that by (auto simp: validate_rule_def jget_eq split: if_splits option.splits)
  with r seq act m t show ?thesis unfolding rule_ok_def by blast
qed

lemma validate_rules_ok: "validate_rules rs seqs = Inr () \<Longrightarrow> \<forall>r\<in>set rs. rule_ok r"
proof (induction rs arbitrary: seqs)
  case (Cons r rs)
  then show ?case by (auto simp: res_simps validate_rule_ok split: option.splits if_splits)
qed simp

definition acl_ok :: "json \<Rightarrow> bool" where
  "acl_ok acl \<longleftrightarrow> (\<exists>a rules. acl = JObj a \<and> dget a ''rules'' = Some (JList rules) \<and> (\<forall>r\<in>set rules. rule_ok r))"

lemma validate_acl_ok:
  assumes "validate_acl (name, acl) = Inr ()" shows "acl_ok acl \<and> acl_name_ok name"
proof -
  obtain a where a: "acl = JObj a" using assms by (cases acl) (auto simp: validate_acl_def split: if_splits)
  obtain rules where rules: "dget a ''rules'' = Some (JList rules)" "validate_rules rules [] = Inr ()"
    using assms a by (auto simp: validate_acl_def jget_eq split: if_splits option.splits)
  with a validate_rules_ok assms show ?thesis
    unfolding acl_ok_def by (auto simp: validate_acl_def split: if_splits)
qed

definition def_ok :: "obj \<Rightarrow> string \<Rightarrow> json \<Rightarrow> bool" where
  "def_ok defs name dv \<longleftrightarrow> (\<exists>d b o' ps. dv = JObj d \<and> get_or d ''restricted'' (JBool False) = JBool b
     \<and> get_or d ''origin'' (JBool True) = JBool o' \<and> get_or d ''peers'' (JList [JStr name]) = JList (map JStr ps)
     \<and> distinct ps \<and> name \<in> set ps \<and> (\<forall>p\<in>set ps. has_key defs p) \<and> role_name_ok name
     \<and> name \<notin> set RESERVED_ROLE_NAMES)"

lemma validate_role_name_ok:
  "validate_role_name v = Inr s \<Longrightarrow> v = JStr s \<and> role_name_ok s \<and> s \<notin> set RESERVED_ROLE_NAMES"
  by (cases v) (auto simp: validate_role_name_def split: if_splits)

lemma validate_peers_ok:
  "validate_peers defs ps seen = Inr seen' \<Longrightarrow>
     \<exists>ns. ps = map JStr ns \<and> set seen' = set ns \<union> set seen \<and> (distinct seen \<longrightarrow> distinct ns)
        \<and> set ns \<inter> set seen = {} \<and> (\<forall>p\<in>set ns. has_key defs p)"
proof (induction defs ps seen rule: validate_peers.induct)
  case (2 defs peer ps seen)
  then obtain p where p: "validate_role_name peer = Inr p" "p \<notin> set seen" "has_key defs p"
    and rest: "validate_peers defs ps (p # seen) = Inr seen'"
    by (auto simp: res_simps split: if_splits)
  from "2.IH" [OF p(1) _ _ rest] p obtain ns where
    ns: "ps = map JStr ns" "set seen' = set ns \<union> set (p # seen)" "distinct (p # seen) \<longrightarrow> distinct ns"
      "set ns \<inter> set (p # seen) = {}" "\<forall>p\<in>set ns. has_key defs p"
    by auto
  have peer: "peer = JStr p" using validate_role_name_ok [OF p(1)] by blast
  show ?case
    by (rule exI [of _ "p # ns"]) (use ns peer p in auto)
qed auto

lemma validate_definition_ok:
  assumes "validate_definition defs (name, dv) = Inr ()" shows "def_ok defs name dv"
proof -
  obtain d where d: "dv = JObj d"
    using assms by (cases dv) (auto simp: validate_definition_def res_simps)
  have nm: "role_name_ok name" "name \<notin> set RESERVED_ROLE_NAMES"
    using assms d by (auto simp: validate_definition_def res_simps dest!: validate_role_name_ok)
  obtain b where b: "get_or d ''restricted'' (JBool False) = JBool b"
    using assms d by (auto simp: validate_definition_def res_simps split: if_splits)
  obtain o' where o: "get_or d ''origin'' (JBool True) = JBool o'"
    using assms d by (auto simp: validate_definition_def res_simps split: if_splits)
  obtain ps where ps: "get_or d ''peers'' (JList [JStr name]) = JList ps"
    using assms d by (auto simp: validate_definition_def res_simps split: if_splits option.splits)
  obtain seen where seen: "validate_peers defs ps [] = Inr seen" "name \<in> set seen"
    using assms d ps by (auto simp: validate_definition_def res_simps split: if_splits option.splits)
  from validate_peers_ok [OF seen(1)] seen(2) d b o ps nm show ?thesis
    unfolding def_ok_def by auto
qed

section \<open>Shape of a validated document\<close>

text \<open>Everything the evaluator relies on, as one record of facts.\<close>

definition doc_ok :: "obj \<Rightarrow> bool" where
  "doc_ok doc \<longleftrightarrow>
     (\<exists>acls assignments q. dget doc ''acls'' = Some (JObj acls)
        \<and> (\<forall>(n, a)\<in>set acls. acl_ok a \<and> acl_name_ok n)
        \<and> dget acls RESERVED_QUARANTINE = Some (JObj q) \<and> py_eq (jget q ''rules'') QUARANTINE_RULES
        \<and> dget doc ''assignments'' = Some (JObj assignments)
        \<and> (\<forall>(d, a)\<in>set assignments. \<exists>n. a = JStr n \<and> has_key acls n)
        \<and> (jget doc ''seeder_assignment'' = JNull \<or> (\<exists>n. jget doc ''seeder_assignment'' = JStr n \<and> has_key acls n)))
   \<and> (\<forall>(n, d)\<in>set (role_defs doc). def_ok (role_defs doc) n d)
   \<and> (\<forall>(d, r)\<in>set (role_of_map doc). \<exists>n. r = JStr n \<and> has_key (role_defs doc) n)
   \<and> (\<forall>nd\<in>set (role_defs doc). validate_symmetry (role_defs doc) nd = Inr ())"

lemma known_acl_ok: "known_acl acls a = Inr () \<Longrightarrow> \<exists>n. a = JStr n \<and> has_key acls n"
  by (cases a) (auto simp: known_acl_def dict_has_def res_simps split: if_splits)

lemma validate_assignment_ok: "validate_assignment defs (d, r) = Inr () \<Longrightarrow> \<exists>n. r = JStr n \<and> has_key defs n"
  by (auto simp: validate_assignment_def res_simps dest!: validate_role_name_ok split: if_splits)

lemma validate_roles_ok:
  assumes "validate_roles ttl rv = Inr ()"
  shows "\<exists>roles defs role_of. rv = JObj roles \<and> get_or roles ''defs'' (JObj []) = JObj defs
     \<and> get_or roles ''role_of'' (JObj []) = JObj role_of
     \<and> each (validate_definition defs) defs = Inr () \<and> each (validate_symmetry defs) defs = Inr ()
     \<and> each (validate_assignment defs) role_of = Inr ()"
proof -
  obtain roles where r: "rv = JObj roles" using assms by (cases rv) (auto simp: validate_roles_def)
  obtain defs where d: "get_or roles ''defs'' (JObj []) = JObj defs"
    using assms r by (auto simp: validate_roles_def split: if_splits option.splits)
  have e: "each (validate_definition defs) defs = Inr ()" "each (validate_symmetry defs) defs = Inr ()"
    using assms r d by (auto simp: validate_roles_def rbind_eq_Inr split: if_splits)
  obtain role_of where ro: "get_or roles ''role_of'' (JObj []) = JObj role_of"
    using assms r d by (auto simp: validate_roles_def rbind_eq_Inr split: if_splits option.splits)
  have "each (validate_assignment defs) role_of = Inr ()"
    using assms r d ro by (auto simp: validate_roles_def rbind_eq_Inr split: if_splits)
  with r d e ro show ?thesis by blast
qed

lemma rbind_result_const: "rbind m (\<lambda>_. Inr x) = Inr y \<Longrightarrow> y = x"
  by (auto simp: rbind_eq_Inr)

text \<open>Validation returns the document it was given.\<close>

lemma validate_document_same:
  assumes "validate_document ttl dv = Inr doc"
  shows "dv = JObj doc"
proof -
  obtain d where d: "dv = JObj d" using assms by (cases dv) (auto simp: validate_document_def)
  obtain acls where a: "jget d ''acls'' = JObj acls"
    using assms d by (auto simp: validate_document_def split: if_splits option.splits)
  obtain q where q: "jget acls RESERVED_QUARANTINE = JObj q"
    using assms d a by (auto simp: validate_document_def split: if_splits option.splits)
  obtain asg where g: "jget d ''assignments'' = JObj asg"
    using assms d a q by (auto simp: validate_document_def rbind_eq_Inr split: if_splits option.splits)
  obtain outbox where o: "jget d ''operation_outbox'' = JList outbox"
    using assms d a q g by (auto simp: validate_document_def rbind_eq_Inr split: if_splits option.splits)
  have "doc = d"
    using assms d a q g o
    by (auto simp: validate_document_def rbind_eq_Inr split: if_splits dest!: rbind_result_const)
  with d show ?thesis by simp
qed

lemma validate_document_acls:
  assumes "validate_document ttl dv = Inr doc"
  shows "dv = JObj doc" and "\<exists>acls q assignments. dget doc ''acls'' = Some (JObj acls)
     \<and> dget acls RESERVED_QUARANTINE = Some (JObj q) \<and> py_eq (jget q ''rules'') QUARANTINE_RULES
     \<and> each validate_acl acls = Inr () \<and> dget doc ''assignments'' = Some (JObj assignments)
     \<and> each (\<lambda>(_, a). known_acl acls a) assignments = Inr ()
     \<and> (jget doc ''seeder_assignment'' = JNull \<or> known_acl acls (jget doc ''seeder_assignment'') = Inr ())"
proof -
  show dv: "dv = JObj doc" by (rule validate_document_same [OF assms])
  obtain acls where ja: "jget doc ''acls'' = JObj acls"
    using assms dv by (auto simp: validate_document_def split: if_splits option.splits)
  obtain q where jq: "jget acls RESERVED_QUARANTINE = JObj q"
    using assms dv ja by (auto simp: validate_document_def split: if_splits option.splits)
  have pq: "py_eq (jget q ''rules'') QUARANTINE_RULES"
    using assms dv ja jq by (auto simp: validate_document_def split: if_splits)
  have ea: "each validate_acl acls = Inr ()"
    using assms dv ja jq by (auto simp: validate_document_def rbind_eq_Inr split: if_splits)
  obtain asg where jg: "jget doc ''assignments'' = JObj asg"
    using assms dv ja jq by (auto simp: validate_document_def rbind_eq_Inr split: if_splits option.splits)
  have tail: "each (\<lambda>(_, a). known_acl acls a) asg = Inr ()"
    "jget doc ''seeder_assignment'' = JNull \<or> known_acl acls (jget doc ''seeder_assignment'') = Inr ()"
    using assms dv ja jq jg by (auto simp: validate_document_def rbind_eq_Inr split: if_splits)
  have a: "dget doc ''acls'' = Some (JObj acls)" and q: "dget acls RESERVED_QUARANTINE = Some (JObj q)"
    and g: "dget doc ''assignments'' = Some (JObj asg)"
    using ja jq jg by (simp_all add: jget_eq)
  from a q pq ea g tail show "\<exists>acls q assignments. dget doc ''acls'' = Some (JObj acls)
     \<and> dget acls RESERVED_QUARANTINE = Some (JObj q) \<and> py_eq (jget q ''rules'') QUARANTINE_RULES
     \<and> each validate_acl acls = Inr () \<and> dget doc ''assignments'' = Some (JObj assignments)
     \<and> each (\<lambda>(_, a). known_acl acls a) assignments = Inr ()
     \<and> (jget doc ''seeder_assignment'' = JNull \<or> known_acl acls (jget doc ''seeder_assignment'') = Inr ())"
    by blast
qed

lemma validate_document_tail:
  assumes "validate_document ttl dv = Inr doc"
  shows "dget doc ''roles'' = Some r \<Longrightarrow> validate_roles ttl r = Inr ()"
    and "\<exists>outbox. dget doc ''operation_outbox'' = Some (JList outbox) \<and> length outbox \<le> OUTBOX_CAP"
    and "\<exists>n. dget doc ''revision'' = Some (JInt n)"
    and "ack_epoch_ok (jget doc ''operation_ack_epoch'')"
proof -
  obtain acls q asg where d: "dget doc ''acls'' = Some (JObj acls)" "dget acls RESERVED_QUARANTINE = Some (JObj q)"
      "dget doc ''assignments'' = Some (JObj asg)"
    using validate_document_acls(2) [OF assms] by blast
  have s: "dv = JObj doc" "jget doc ''acls'' = JObj acls" "jget acls RESERVED_QUARANTINE = JObj q"
      "jget doc ''assignments'' = JObj asg"
    using validate_document_acls(1) [OF assms] d by (simp_all add: get_or_Some)
  obtain outbox where jo: "jget doc ''operation_outbox'' = JList outbox"
    using assms s by (auto simp: validate_document_def rbind_eq_Inr split: if_splits option.splits)
  then have o: "dget doc ''operation_outbox'' = Some (JList outbox)" by (simp add: jget_eq)
  have "as_int (jget doc ''revision'') \<noteq> None"
    using assms s by (simp add: validate_document_def split: if_splits)
  then show "\<exists>n. dget doc ''revision'' = Some (JInt n)"
    by (cases "as_int (jget doc ''revision'')") (auto simp only: jget_int option.simps)
  show "\<exists>outbox. dget doc ''operation_outbox'' = Some (JList outbox) \<and> length outbox \<le> OUTBOX_CAP"
    using assms s jo o by (auto simp: validate_document_def rbind_eq_Inr split: if_splits)
  show "ack_epoch_ok (jget doc ''operation_ack_epoch'')"
    using assms s jo by (auto simp: validate_document_def rbind_eq_Inr split: if_splits)
  show "validate_roles ttl r = Inr ()" if "dget doc ''roles'' = Some r"
    using assms s jo that by (auto simp: validate_document_def rbind_eq_Inr split: if_splits)
qed

lemma validated_roles_part:
  assumes "validate_document ttl dv = Inr doc"
  shows "(\<forall>(n, d)\<in>set (role_defs doc). def_ok (role_defs doc) n d)
   \<and> (\<forall>(d, r)\<in>set (role_of_map doc). \<exists>n. r = JStr n \<and> has_key (role_defs doc) n)
   \<and> (\<forall>nd\<in>set (role_defs doc). validate_symmetry (role_defs doc) nd = Inr ())"
proof (cases "dget doc ''roles''")
  case None
  then have "roles_section doc = []" by (simp add: roles_section_def get_or_def)
  then show ?thesis by (simp add: role_defs_def role_of_map_def get_or_def)
next
  case (Some r)
  from validate_roles_ok [OF validate_document_tail(1) [OF assms Some]] obtain roles defs role_of where
    v: "r = JObj roles" "get_or roles ''defs'' (JObj []) = JObj defs"
    "get_or roles ''role_of'' (JObj []) = JObj role_of"
    "each (validate_definition defs) defs = Inr ()" "each (validate_symmetry defs) defs = Inr ()"
    "each (validate_assignment defs) role_of = Inr ()" by blast
  have d: "role_defs doc = defs" "role_of_map doc = role_of"
    using Some v by (simp_all add: role_defs_def role_of_map_def roles_section_def get_or_def)
  show ?thesis
    unfolding d using v(4,5,6) validate_definition_ok validate_assignment_ok
    by (auto simp: each_Inr)
qed

lemma validate_document_ok:
  assumes "validate_document ttl dv = Inr doc" shows "doc_ok doc"
proof -
  from validate_document_acls [OF assms] obtain acls q asg where s:
    "dget doc ''acls'' = Some (JObj acls)" "dget acls RESERVED_QUARANTINE = Some (JObj q)"
    "py_eq (jget q ''rules'') QUARANTINE_RULES" "each validate_acl acls = Inr ()"
    "dget doc ''assignments'' = Some (JObj asg)" "each (\<lambda>(_, a). known_acl acls a) asg = Inr ()"
    "jget doc ''seeder_assignment'' = JNull \<or> known_acl acls (jget doc ''seeder_assignment'') = Inr ()"
    by blast
  have "\<forall>(n, a)\<in>set acls. acl_ok a \<and> acl_name_ok n"
    using s(4) validate_acl_ok by (auto simp: each_Inr)
  moreover have "\<forall>(d, a)\<in>set asg. \<exists>n. a = JStr n \<and> has_key acls n"
    using s(6) known_acl_ok by (fastforce simp: each_Inr)
  moreover have "jget doc ''seeder_assignment'' = JNull \<or> (\<exists>n. jget doc ''seeder_assignment'' = JStr n \<and> has_key acls n)"
    using s(7) known_acl_ok by blast
  ultimately show ?thesis
    unfolding doc_ok_def using s(1,2,3,5) validated_roles_part [OF assms] by blast
qed

end
