(* ===== verification/Policy_Properties.thy ===== *)
theory Policy_Properties
  imports Policy_Decision
begin

text \<open>Properties of the policy evaluator of \<^verbatim>\<open>server/peer_policy.py\<close> on validated documents.\<close>

section \<open>Quarantine\<close>

lemma evaluate_for_None: "compile_roles doc = Inr c \<Longrightarrow> evaluate_for doc p s ip None = evaluate_for doc p s ip (Some c)"
  by (simp add: evaluate_for_def with_compiled_def)

lemma quarantine_rule:
  assumes "rule_ok r" and "jwf r" and "pynorm r = pynorm (rule_json 10 ''deny'' [(''type'', JStr ''any'')])"
  shows "rule_matches r s ip c role = Inr True" and "item r ''action'' = Inr (JStr ''deny'')"
    and "item r ''seq'' = Inr (JInt 10)"
proof -
  let ?q = "[(''seq'', JInt 10), (''action'', JStr ''deny''), (''match'', JObj [(''type'', JStr ''any'')])]"
  from assms(1) obtain o' n a m t where o: "r = JObj o'" "dget o' ''seq'' = Some (JInt n)" "dget o' ''action'' = Some (JStr a)"
    "dget o' ''match'' = Some (JObj m)" "dget m ''type'' = Some (JStr t)"
    unfolding rule_ok_def by blast
  have wf: "dwf o'" "dwf m" using assms(2) o jwf_objD by blast+
  have eq: "map_option pynorm (dget o' k) = map_option pynorm (dget ?q k)" for k
    by (rule pynorm_obj_get) (use assms(3) o wf in \<open>simp_all add: rule_json_def dwf_def\<close>)
  have "n = 10" using eq [of "''seq''"] o(2) by simp
  moreover have "a = ''deny''" using eq [of "''action''"] o(3) by simp
  moreover have "pynorm (JObj m) = pynorm (JObj [(''type'', JStr ''any'')])" using eq [of "''match''"] o(4) by simp
  then have "map_option pynorm (dget m ''type'') = map_option pynorm (dget [(''type'', JStr ''any'')] ''type'')"
    by (rule pynorm_obj_get) (use wf in \<open>simp_all add: dwf_def\<close>)
  then have "t = ''any''" using o(5) by simp
  ultimately show "rule_matches r s ip c role = Inr True" "item r ''action'' = Inr (JStr ''deny'')"
    "item r ''seq'' = Inr (JInt 10)"
    using o by (simp_all add: rule_matches_def item_JObj)
qed

lemma evaluate_for_quarantined:
  assumes ok: "doc_ok doc" and wf: "jwf (JObj doc)" and c: "compile_roles doc = Inr c"
    and p: "ptype p = ''device''" "is_quarantined doc (pid p)"
  shows "evaluate_for doc p s ip (Some c) = Inr (JStr ''deny'', JInt 10)"
proof -
  from ok obtain acls q where d: "dget doc ''acls'' = Some (JObj acls)" "\<forall>(n, a)\<in>set acls. acl_ok a \<and> acl_name_ok n"
    "dget acls RESERVED_QUARANTINE = Some (JObj q)" "py_eq (jget q ''rules'') QUARANTINE_RULES"
    unfolding doc_ok_def by blast
  have "acl_ok (JObj q)" using d(2) map_of_SomeD [OF d(3)] by blast
  then obtain rules where rules: "dget q ''rules'' = Some (JList rules)" "\<forall>r\<in>set rules. rule_ok r"
    by (auto simp: acl_ok_def)
  have wfr: "jwf (JList rules)" using wf d(1,3) rules(1) jwf_objD(2) by blast
  from d(4) rules(1) obtain r where r: "rules = [r]" "pynorm r = pynorm (rule_json 10 ''deny'' [(''type'', JStr ''any'')])"
    by (auto simp: py_eq_def QUARANTINE_RULES_def get_or_def)
  have "dget (cr_sorted_rules c) RESERVED_QUARANTINE = Some [r]"
    using sorted_rules_of [OF ok wf c d(1,3) rules(1)] r by simp
  moreover have "stored_acls doc = Inr acls" using d(1) by (simp add: stored_acls_def get_or_def)
  ultimately show ?thesis
    using p d(3) rules r quarantine_rule [of r] jwf_listD [OF wfr]
    by (simp add: evaluate_for_def with_compiled_def assigned_acl_def effective_acl_name_def get_or_Some item_JObj)
qed

lemma mutual_permit_decisions:
  assumes "compile_roles doc = Inr c" and "\<not> truthy (jget doc ''_fail_closed'')"
    and "evaluate_for doc p s ip (Some c) = Inr a" and "evaluate_for doc s p ip' (Some c) = Inr b"
  shows "mutual_permit doc p ip' s ip None = Inr (fst a = JStr ''permit'' \<and> fst b = JStr ''permit'')"
  using assms by (simp add: mutual_permit_def evaluate_for_None)

section \<open>Example documents\<close>

definition demo_role :: "bool \<Rightarrow> string list \<Rightarrow> json" where
  "demo_role restricted peers = JObj [(''restricted'', JBool restricted), (''peers'', JList (map JStr peers))]"

definition demo_doc :: obj where
  "demo_doc =
     [(''schema'', JInt 1), (''revision'', JInt 7),
      (''acls'', JObj [(''quarantine'', JObj [(''reserved'', JBool True), (''rules'', QUARANTINE_RULES)]),
         (''lab'', JObj [(''rules'', JList [rule_json 20 ''deny'' [(''type'', JStr ''cidr''), (''value'', JStr ''10.0.0.0/8'')],
            rule_json 10 ''permit'' [(''type'', JStr ''device''), (''value'', JStr ''sw2'')]])])]),
      (''assignments'', JObj [(''sw9'', JStr ''lab'')]), (''seeder_assignment'', JNull),
      (''quarantined_devices'', JObj [(''bad'', JBool True)]),
      (''operation_outbox'', JList []),
      (''roles'', JObj [(''defs'', JObj [(''core'', demo_role True [''core'', ''edge'']),
           (''edge'', demo_role True [''edge'', ''core'']), (''lone'', demo_role True [''lone''])]),
         (''role_of'', JObj [(''sw1'', JStr ''core''), (''sw2'', JStr ''edge''), (''sw3'', JStr ''lone'')])])]"

definition dev :: "string \<Rightarrow> principal" where
  "dev d = \<lparr>ptype = ''device'', pid = d\<rparr>"

lemma demo_doc_valid: "validate_document 900 (JObj demo_doc) = Inr demo_doc"
  by code_simp

lemma demo_doc_wf: "jwf (JObj demo_doc)"
  by code_simp

section \<open>The rules that decide\<close>

definition stored_rules :: "obj \<Rightarrow> string \<Rightarrow> json list option" where
  "stored_rules doc name =
     (case dget (obj_or_empty (jget doc ''acls'')) name of
        None \<Rightarrow> None | Some acl \<Rightarrow> as_list (jget (obj_or_empty acl) ''rules''))"

definition role_rules :: "obj \<Rightarrow> string \<Rightarrow> json list option" where
  \<comment> \<open>the rules a restricted role stands for; an unrestricted role has none\<close>
  "role_rules doc r =
     (case dget (role_defs doc) r of
        None \<Rightarrow> None
      | Some dv \<Rightarrow>
          if is_restricted (obj_or_empty dv)
          then map_option (virtual_rules r (truthy (get_or (obj_or_empty dv) ''origin'' (JBool True))))
                 (as_list (get_or (obj_or_empty dv) ''peers'' (JList [JStr r])))
          else None)"

text \<open>
  Which rules apply to an owner, read off the document: the quarantine ACL, the owner's own ACL, the
  virtual ACL of its role, the seeder's ACL for a service, or none.
\<close>

definition effective_rules :: "obj \<Rightarrow> principal \<Rightarrow> json list option" where
  "effective_rules doc p =
     (if ptype p = ''device'' then
        (if is_quarantined doc (pid p) then stored_rules doc RESERVED_QUARANTINE
         else case ordinary_assignment doc (pid p) of
             JStr name \<Rightarrow> stored_rules doc name
           | _ \<Rightarrow> (case jget (role_of_map doc) (pid p) of JStr r \<Rightarrow> role_rules doc r | _ \<Rightarrow> None))
      else if ptype p = ''service'' then
        (case jget doc ''seeder_assignment'' of JStr name \<Rightarrow> stored_rules doc name | _ \<Rightarrow> None)
      else None)"

lemma stored_rules_named:
  assumes ok: "doc_ok doc" and wf: "jwf (JObj doc)" and c: "compile_roles doc = Inr c"
    and acls: "dget doc ''acls'' = Some (JObj acls)" "has_key acls n"
  obtains a rules where "dget acls n = Some (JObj a)" "dget a ''rules'' = Some (JList rules)" "stored_rules doc n = Some rules"
    "\<forall>r\<in>set rules. rule_ok r" "dget (cr_sorted_rules c) n = Some (sort_key seq_of rules)"
proof -
  have "\<forall>(n, a)\<in>set acls. acl_ok a \<and> acl_name_ok n" using ok acls(1) unfolding doc_ok_def by auto
  from has_key_acl [OF acls(2) this] obtain v where "dget acls n = Some v" "acl_ok v" by blast
  moreover then obtain a rules where "v = JObj a" "dget a ''rules'' = Some (JList rules)" "\<forall>r\<in>set rules. rule_ok r"
    unfolding acl_ok_def by blast
  moreover from calculation have "dget (cr_sorted_rules c) n = Some (sort_key seq_of rules)"
    by (intro sorted_rules_of [OF ok wf c acls(1)]) simp_all
  ultimately show ?thesis using acls(1) by (intro that) (simp_all add: stored_rules_def get_or_Some)
qed

lemma virtual_rules_sorted: "sorted (map seq_of (virtual_rules r o' ps))"
proof -
  have "seq_of (rule_json n a m) = n" for n a m by (simp add: seq_of_def rule_json_def get_or_def)
  then show ?thesis by (auto simp: virtual_rules_def comp_def sorted_append map_replicate_const)
qed

lemma role_rules_cases:
  assumes ok: "doc_ok doc" and wf: "jwf (JObj doc)" and c: "compile_roles doc = Inr c" and r: "has_key (role_defs doc) r"
  obtains (free) "role_rules doc r = None" "dget (cr_acl_by_role c) r = None"
  | (restricted) a rules where "role_rules doc r = Some rules" "dget (cr_acl_by_role c) r = Some (JObj a)"
      "dget a ''rules'' = Some (JList rules)" "\<forall>x\<in>set rules. rule_ok x" "sorted (map seq_of rules)"
      "dget (cr_sorted_rules c) (''role:'' @ r) = None"
proof -
  from r obtain dv where dv: "dget (role_defs doc) r = Some dv" by (auto simp: has_key_dget)
  have "def_ok (role_defs doc) r dv" using ok map_of_SomeD [OF dv] unfolding doc_ok_def by blast
  then obtain d ps where d: "dv = JObj d" "get_or d ''peers'' (JList [JStr r]) = JList (map JStr ps)" "r \<noteq> []"
    unfolding def_ok_def by (auto simp: role_name_ok_def)
  show ?thesis
  proof (cases "is_restricted d")
    case True
    let ?rules = "virtual_rules r (truthy (get_or d ''origin'' (JBool True))) (map JStr ps)"
    have "dget (cr_acl_by_role c) r = Some (JObj [(''virtual'', JBool True), (''role'', JStr r), (''role_unknown'', JBool False),
              (''rules'', JList ?rules)])"
      using role_acl_get [OF ok wf c, of r] dv d True by (simp add: virtual_role_acl_def)
    then show ?thesis
      by (rule restricted [rotated])
        (use dv d True virtual_rules_ok virtual_name_unused [OF ok wf c d(3)] in \<open>simp_all add: role_rules_def virtual_rules_sorted\<close>)
  next
    case False
    with dv d role_acl_get [OF ok wf c, of r] show ?thesis by (intro free) (simp_all add: role_rules_def)
  qed
qed

lemma evaluate_for_rules:
  assumes ok: "doc_ok doc" and wf: "jwf (JObj doc)" and c: "compile_roles doc = Inr c"
    and role: "role = (if ptype subject = ''device'' then jget (role_of_map doc) (pid subject) else JNull)"
  obtains (none) "effective_rules doc owner = None" "evaluate_for doc owner subject ip (Some c) = Inr (JStr ''permit'', JNull)"
  | (rules) rules rs where "effective_rules doc owner = Some rules" "\<forall>r\<in>set rules. rule_ok r" "set rs = set rules"
      "sorted (map seq_of rs)" "evaluate_for doc owner subject ip (Some c) = first_match rs subject ip c role"
proof -
  obtain acls asg q where d: "dget doc ''acls'' = Some (JObj acls)" "\<forall>(n, a)\<in>set acls. acl_ok a \<and> acl_name_ok n"
    "dget acls RESERVED_QUARANTINE = Some (JObj q)" "py_eq (jget q ''rules'') QUARANTINE_RULES"
    "dget doc ''assignments'' = Some (JObj asg)" "\<forall>(d, a)\<in>set asg. \<exists>n. a = JStr n \<and> has_key acls n"
    "jget doc ''seeder_assignment'' = JNull \<or> (\<exists>n. jget doc ''seeder_assignment'' = JStr n \<and> has_key acls n)"
    by (rule doc_okD [OF ok])
  note parts = evaluate_for_def with_compiled_def compile_roles_parts(1) [OF c] role
  have stored: "stored_acls doc = Inr acls" using d(1) by (simp add: stored_acls_def get_or_def)
  have named: ?thesis
    if n: "has_key acls n" and acl: "assigned_acl doc owner c = Inr (jget acls n)"
      and name: "effective_acl_name doc owner c = Inr (JStr n)" and eff: "effective_rules doc owner = stored_rules doc n" for n
  proof (rule stored_rules_named [OF ok wf c d(1) n])
    fix a rules
    assume a: "dget acls n = Some (JObj a)" "dget a ''rules'' = Some (JList rules)" "stored_rules doc n = Some rules"
      "\<forall>r\<in>set rules. rule_ok r" "dget (cr_sorted_rules c) n = Some (sort_key seq_of rules)"
    have "evaluate_for doc owner subject ip (Some c) = first_match (sort_key seq_of rules) subject ip c role"
      using acl name a by (simp add: parts get_or_Some item_JObj)
    with a eff show ?thesis by (intro rules [of rules "sort_key seq_of rules"]) simp_all
  qed
  have permit: ?thesis if "assigned_acl doc owner c = Inr JNull" "effective_rules doc owner = None"
    by (rule none) (use that in \<open>simp_all add: parts\<close>)
  consider (quar) "ptype owner = ''device''" "is_quarantined doc (pid owner)"
    | (own) n where "ptype owner = ''device''" "\<not> is_quarantined doc (pid owner)" "ordinary_assignment doc (pid owner) = JStr n" "has_key acls n"
    | (role) r where "ptype owner = ''device''" "\<not> is_quarantined doc (pid owner)" "ordinary_assignment doc (pid owner) = JNull"
        "jget (role_of_map doc) (pid owner) = JStr r" "has_key (role_defs doc) r"
    | (plain) "ptype owner = ''device''" "\<not> is_quarantined doc (pid owner)" "ordinary_assignment doc (pid owner) = JNull"
        "jget (role_of_map doc) (pid owner) = JNull"
    | (service) n where "ptype owner = ''service''" "jget doc ''seeder_assignment'' = JStr n" "has_key acls n"
    | (other) "ptype owner \<noteq> ''device''" "ptype owner = ''service'' \<Longrightarrow> jget doc ''seeder_assignment'' = JNull"
    using ordinary_assignment_cases [OF d(5,6), of "pid owner"] role_of_cases [OF ok, of "pid owner"] d(7) by metis
  then show ?thesis
  proof cases
    case quar
    then show ?thesis using d(3) stored
      by (intro named [of RESERVED_QUARANTINE])
        (simp_all add: assigned_acl_def effective_acl_name_def effective_rules_def has_key_dget)
  next
    case (own n)
    then show ?thesis using stored
      by (intro named [of n]) (simp_all add: assigned_acl_def effective_acl_name_def effective_rules_def)
  next
    case (role r)
    have eff: "effective_rules doc owner = role_rules doc r" using role by (simp add: effective_rules_def)
    have acl: "assigned_acl doc owner c = Inr (jget (cr_acl_by_role c) r)"
      using role by (simp add: assigned_acl_def compile_roles_parts(1) [OF c])
    show ?thesis
    proof (cases rule: role_rules_cases [OF ok wf c role(5), case_names free restricted])
      case free
      with eff acl show ?thesis by (intro permit) (simp_all add: get_or_None)
    next
      case (restricted a rl)
      have "effective_acl_name doc owner c = Inr (JStr (''role:'' @ r))"
        using role restricted(2) by (simp add: effective_acl_name_def compile_roles_parts(1) [OF c] has_key_dget)
      with acl restricted have "evaluate_for doc owner subject ip (Some c) = first_match rl subject ip c role"
        by (simp add: parts get_or_Some item_JObj)
      with restricted eff show ?thesis by (intro rules [of rl rl]) simp_all
    qed
  next
    case plain
    then show ?thesis
      by (intro permit) (simp_all add: assigned_acl_def effective_rules_def compile_roles_parts(1) [OF c])
  next
    case (service n)
    then show ?thesis using stored
      by (intro named [of n]) (simp_all add: assigned_acl_def effective_acl_name_def effective_rules_def)
  next
    case other
    then show ?thesis by (intro permit) (auto simp: assigned_acl_def effective_rules_def)
  qed
qed

section \<open>Properties\<close>

text \<open>
  C7. Type safety of the evaluator: a document accepted by \<^verbatim>\<open>validate_document\<close> compiles, and evaluating any
  subject and address against any owner's ACL returns a permit or a deny; no exception can be
  raised on the discovery path.
\<close>

theorem policy_evaluation_total:
  assumes "validate_document ttl dv = Inr doc"
  shows "\<exists>c. compile_roles doc = Inr c \<and>
     (\<forall>owner subject ip. \<exists>d. evaluate_for doc owner subject ip (Some c) = Inr d \<and> decision_ok d)"
  using compile_roles_ok [OF validate_document_ok [OF assms]] evaluate_for_total [OF validate_document_ok [OF assms]]
  by blast

theorem policy_evaluation_total_witness:
  "\<exists>c. compile_roles demo_doc = Inr c \<and>
     (\<forall>owner subject ip. \<exists>d. evaluate_for demo_doc owner subject ip (Some c) = Inr d \<and> decision_ok d)"
  by (rule policy_evaluation_total [OF demo_doc_valid])

text \<open>
  C8. First match wins in ascending sequence order, for every owner: of the rules that apply to it (those of
  the quarantine ACL, its own ACL, the virtual ACL of its role or the seeder's ACL) the matching one with
  the least sequence number decides; when none matches, or none apply, the decision is permit.
\<close>

theorem policy_first_match:
  assumes "validate_document ttl dv = Inr doc" and "jwf (JObj doc)" and "compile_roles doc = Inr c"
    and "role = (if ptype subject = ''device'' then jget (role_of_map doc) (pid subject) else JNull)"
  shows "\<exists>act seq. evaluate_for doc owner subject ip (Some c) = Inr (act, seq) \<and>
     (case effective_rules doc owner of
        None \<Rightarrow> act = JStr ''permit'' \<and> seq = JNull
      | Some rules \<Rightarrow>
          (\<forall>r\<in>set rules. rule_matches r subject ip c role = Inr False) \<and> act = JStr ''permit'' \<and> seq = JNull
          \<or> (\<exists>r\<in>set rules. rule_matches r subject ip c role = Inr True \<and> item r ''action'' = Inr act \<and> seq = JInt (seq_of r)
              \<and> (\<forall>r'\<in>set rules. rule_matches r' subject ip c role = Inr True \<longrightarrow> seq_of r \<le> seq_of r')))"
  using validate_document_ok [OF assms(1)] assms(2-4)
proof (cases rule: evaluate_for_rules [where owner = owner and ip = ip, case_names none rules])
  case (rules rules rs)
  then have rok: "\<forall>r\<in>set rs. rule_ok r" by simp
  then obtain act seq where fm: "first_match rs subject ip c role = Inr (act, seq)"
    using first_match_total [OF rok] by (metis surj_pair)
  from first_match_least [OF rules(4) rok fm] fm rules show ?thesis by auto
qed simp

theorem policy_first_match_witness:
  "\<exists>c. compile_roles demo_doc = Inr c \<and>
     (\<exists>act. evaluate_for demo_doc (dev ''sw9'') (dev ''sw2'') (Some ''10.1.1.1'') (Some c) = Inr (act, JInt 10)) \<and>
     (\<exists>act. evaluate_for demo_doc (dev ''bad'') (dev ''sw2'') None (Some c) = Inr (act, JInt 10)) \<and>
     (\<exists>act. evaluate_for demo_doc (dev ''sw3'') (dev ''sw1'') None (Some c) = Inr (act, JInt 40))"
proof -
  obtain c where c: "compile_roles demo_doc = Inr c"
    using compile_roles_ok [OF validate_document_ok [OF demo_doc_valid]] by blast
  note first = policy_first_match [OF demo_doc_valid demo_doc_wf c refl]
  have role: "jget (role_of_map demo_doc) ''sw2'' = JStr ''edge''" "jget (role_of_map demo_doc) ''sw1'' = JStr ''core''" by code_simp+
  have own: "effective_rules demo_doc (dev ''sw9'') = Some [rule_json 20 ''deny'' [(''type'', JStr ''cidr''), (''value'', JStr ''10.0.0.0/8'')],
      rule_json 10 ''permit'' [(''type'', JStr ''device''), (''value'', JStr ''sw2'')]]" by code_simp
  have bad: "effective_rules demo_doc (dev ''bad'') = Some [rule_json 10 ''deny'' [(''type'', JStr ''any'')]]" by code_simp
  have lone: "effective_rules demo_doc (dev ''sw3'') = Some [rule_json 10 ''permit'' [(''type'', JStr ''role''), (''value'', JStr ''lone'')],
      rule_json 20 ''permit'' [(''type'', JStr ''service''), (''value'', JStr ''seeder'')],
      rule_json 40 ''deny'' [(''type'', JStr ''any'')]]" by code_simp
  have seq: "seq_of (rule_json n a m) = n" for n a m by (simp add: seq_of_def rule_json_def get_or_def)
  have pd: "ptype (dev x) = ''device''" "pid (dev x) = x" for x by (simp_all add: dev_def)
  have "\<exists>act. evaluate_for demo_doc (dev ''sw9'') (dev ''sw2'') (Some ''10.1.1.1'') (Some c) = Inr (act, JInt 10)"
    using first [of "dev ''sw9''" "dev ''sw2''" "Some ''10.1.1.1''"] by (auto simp: own role seq pd rule_matches_def)
  moreover have "\<exists>act. evaluate_for demo_doc (dev ''bad'') (dev ''sw2'') None (Some c) = Inr (act, JInt 10)"
    using first [of "dev ''bad''" "dev ''sw2''" None] by (auto simp: bad seq pd rule_matches_def)
  moreover have "\<exists>act. evaluate_for demo_doc (dev ''sw3'') (dev ''sw1'') None (Some c) = Inr (act, JInt 40)"
    using first [of "dev ''sw3''" "dev ''sw1''" None] by (auto simp: lone role seq pd rule_matches_def)
  ultimately show ?thesis using c by blast
qed

text \<open>
  C9. Quarantine isolates: under a validated policy a quarantined device neither sees nor is seen by any
  other principal, whatever the other side's ACL or address.
\<close>

theorem quarantine_isolates:
  assumes "validate_document ttl dv = Inr doc" and "jwf (JObj doc)"
    and "ptype p = ''device''" and "is_quarantined doc (pid p)"
  shows "mutual_permit doc p ip q ip' None = Inr False \<and> mutual_permit doc q ip' p ip None = Inr False"
proof -
  have ok: "doc_ok doc" by (rule validate_document_ok [OF assms(1)])
  obtain c where c: "compile_roles doc = Inr c" "compiled_ok doc c" using compile_roles_ok [OF ok] by blast
  obtain d where d: "evaluate_for doc q p ip (Some c) = Inr d" using evaluate_for_total [OF ok c(2)] by blast
  have e: "evaluate_for doc p q ip' (Some c) = Inr (JStr ''deny'', JInt 10)"
    by (rule evaluate_for_quarantined [OF ok assms(2) c(1) assms(3,4)])
  show ?thesis
    using mutual_permit_decisions [OF c(1) _ e d] mutual_permit_decisions [OF c(1) _ d e]
    by (cases "truthy (jget doc ''_fail_closed'')") (auto simp: mutual_permit_def)
qed

theorem quarantine_isolates_witness:
  "mutual_permit demo_doc (dev ''bad'') None (dev ''sw1'') None None = Inr False"
  using quarantine_isolates [OF demo_doc_valid demo_doc_wf, of "dev ''bad''" None "dev ''sw1''" None]
  by (simp add: dev_def is_quarantined_def demo_doc_def get_or_def)

text \<open>
  C10. Roles refine the role graph: for two devices that have no ACL of their own and are not quarantined,
  mutual permission computed through compiled virtual ACLs is exactly the pairwise relation of their
  roles, where a device without a role counts as \<^verbatim>\<open>default\<close>.
\<close>

theorem roles_decide_by_graph:
  assumes "validate_document ttl dv = Inr doc" and "jwf (JObj doc)" and "\<not> truthy (jget doc ''_fail_closed'')"
    and "ptype p = ''device''" "\<not> is_quarantined doc (pid p)" "ordinary_assignment doc (pid p) = JNull"
    and "ptype q = ''device''" "\<not> is_quarantined doc (pid q)" "ordinary_assignment doc (pid q) = JNull"
  shows "mutual_permit doc p ip q ip' None =
     Inr (role_pair_permitted doc (role_name_of doc (pid p)) (role_name_of doc (pid q)))"
proof -
  have ok: "doc_ok doc" by (rule validate_document_ok [OF assms(1)])
  obtain c where c: "compile_roles doc = Inr c" using compile_roles_ok [OF ok] by blast
  obtain a n where pq: "evaluate_for doc p q ip' (Some c) = Inr (JStr a, n)"
      "a = ''permit'' \<longleftrightarrow> role_permits (role_defs doc) (role_name_of doc (pid p)) (role_name_of doc (pid q))"
    using evaluate_for_role_graph [OF ok assms(2) c assms(4-7)] by blast
  obtain b m where qp: "evaluate_for doc q p ip (Some c) = Inr (JStr b, m)"
      "b = ''permit'' \<longleftrightarrow> role_permits (role_defs doc) (role_name_of doc (pid q)) (role_name_of doc (pid p))"
    using evaluate_for_role_graph [OF ok assms(2) c assms(7-9) assms(4)] by blast
  show ?thesis
    using mutual_permit_decisions [OF c assms(3) pq(1) qp(1)] pq(2) qp(2) by (simp add: role_pair_permitted_def)
qed

theorem roles_decide_by_graph_witness:
  "mutual_permit demo_doc (dev ''sw1'') None (dev ''sw2'') None None = Inr True \<and>
   mutual_permit demo_doc (dev ''sw1'') None (dev ''sw3'') None None = Inr False"
proof -
  have h: "mutual_permit demo_doc (dev ''sw1'') None (dev d) None None =
      Inr (role_pair_permitted demo_doc (role_name_of demo_doc ''sw1'') (role_name_of demo_doc d))"
    if "d = ''sw2'' \<or> d = ''sw3''" for d
    using roles_decide_by_graph [OF demo_doc_valid demo_doc_wf, of "dev ''sw1''" "dev d" None None] that
    by (auto simp: dev_def is_quarantined_def ordinary_assignment_def demo_doc_def get_or_def RESERVED_QUARANTINE_def)
  have "role_pair_permitted demo_doc (role_name_of demo_doc ''sw1'') (role_name_of demo_doc ''sw2'')"
    "\<not> role_pair_permitted demo_doc (role_name_of demo_doc ''sw1'') (role_name_of demo_doc ''sw3'')" by code_simp+
  then show ?thesis using h [of "''sw2''"] h [of "''sw3''"] by simp
qed

end
