(* ===== verification/Policy_Store.thy ===== *)
theory Policy_Store
  imports Policy_Valid
begin

text \<open>
  \<^verbatim>\<open>server/peer_policy.py\<close>: the durable policy store.  The file system is a record of what the module
  keeps: the authoritative file, the last-known-good file, the ring of prior documents and the
  roles-ever watermark.  Atomic replacement makes each write one step; a commit is the sequence of
  its writes, so an interruption is a prefix of that sequence.  The umbrella lock makes the reads and
  writes of one commit uninterrupted by other commits.  The event id and the hash that turns it into
  an acknowledgement epoch are parameters.
\<close>

section \<open>Files\<close>

record policy_fs =
  fs_auth :: file_state
  fs_lkg :: file_state
  fs_ring :: "(int, obj) dict"
  fs_watermark :: bool

definition read_valid :: "int \<Rightarrow> file_state \<Rightarrow> obj option pres" where
  "read_valid ttl f = (case f of
      Content j \<Rightarrow> (case validate_document ttl j of
          Inr doc \<Rightarrow> Inr (Some doc)
        | Inl (PolicyError _) \<Rightarrow> Inr None
        | Inl e \<Rightarrow> Inl e)
    | _ \<Rightarrow> Inr None)"

definition fail_closed_document :: obj where
  "fail_closed_document = dset ''_fail_closed'' (JBool True) base_document"

section \<open>Writes\<close>

datatype policy_write = WWatermark | WLkg obj | WRing int obj | WAuth obj | WPrune

definition ring_revisions :: "(int, obj) dict \<Rightarrow> int list" where
  \<comment> \<open>\<^verbatim>\<open>lkg_ring_revisions\<close>: twenty digits, at least one, ascending\<close>
  "ring_revisions ring = sort (filter (\<lambda>r. 1 \<le> r \<and> r < 10 ^ 20) (dkeys ring))"

definition prune_ring :: "(int, obj) dict \<Rightarrow> (int, obj) dict" where
  "prune_ring ring =
     (let revs = ring_revisions ring
      in foldl (\<lambda>r k. ddel k r) ring (take (length revs - LKG_RING_SIZE) revs))"

definition apply_write :: "policy_fs \<Rightarrow> policy_write \<Rightarrow> policy_fs" where
  "apply_write fs w = (case w of
      WWatermark \<Rightarrow> fs\<lparr>fs_watermark := True\<rparr>
    | WLkg d \<Rightarrow> fs\<lparr>fs_lkg := Content (JObj d)\<rparr>
    | WRing n d \<Rightarrow> fs\<lparr>fs_ring := dset n d (fs_ring fs)\<rparr>
    | WAuth d \<Rightarrow> fs\<lparr>fs_auth := Content (JObj d)\<rparr>
    | WPrune \<Rightarrow> fs\<lparr>fs_ring := prune_ring (fs_ring fs)\<rparr>)"

definition apply_writes :: "policy_fs \<Rightarrow> policy_write list \<Rightarrow> policy_fs" where
  "apply_writes fs ws = foldl apply_write fs ws"

definition initialize :: "policy_fs \<Rightarrow> policy_fs" where
  "initialize fs = apply_writes fs [WLkg base_document, WAuth base_document]"

section \<open>Read precedence\<close>

record policy_result =
  pr_document :: obj
  pr_degraded :: bool
  pr_fail_closed :: bool
  pr_roles :: compiled_policy

definition mk_result :: "obj \<Rightarrow> bool \<Rightarrow> bool \<Rightarrow> policy_result pres" where
  "mk_result doc degraded shut = rbind (compile_roles doc) (\<lambda>c.
     Inr \<lparr>pr_document = doc, pr_degraded = degraded, pr_fail_closed = shut, pr_roles = c\<rparr>)"

definition load_existing :: "int \<Rightarrow> policy_fs \<Rightarrow> policy_result pres" where
  "load_existing ttl fs =
     rbind (read_valid ttl (fs_auth fs)) (\<lambda>authoritative. case authoritative of
         Some doc \<Rightarrow> mk_result doc
           ((fs_watermark fs \<or> jget doc ''roles_present'' = JBool True) \<and> \<not> has_key doc ''roles'') False
       | None \<Rightarrow> rbind (read_valid ttl (fs_lkg fs)) (\<lambda>lkg. case lkg of
             Some doc \<Rightarrow> mk_result doc True False
           | None \<Rightarrow> mk_result fail_closed_document True True))"

definition load_policy :: "int \<Rightarrow> bool \<Rightarrow> policy_fs \<Rightarrow> policy_fs \<times> policy_result pres" where
  "load_policy ttl initialize_missing fs =
     (if fs_auth fs = Missing \<and> fs_lkg fs = Missing \<and> initialize_missing
      then (initialize fs, mk_result base_document (fs_watermark fs) False)
      else (fs, load_existing ttl fs))"

section \<open>Outbox acknowledgement\<close>

definition hex_ok :: "nat \<Rightarrow> string \<Rightarrow> bool" where
  "hex_ok n s \<longleftrightarrow> length s = n \<and> list_all (\<lambda>c. is_digit c \<or> c \<in> set ''abcdef'') s"

definition ack_parts :: "json \<Rightarrow> json \<times> json" where
  "ack_parts a = (case as_obj a of
      Some d \<Rightarrow> (jget d ''last_operation_exported_revision'', jget d ''operation_ack_epoch'')
    | None \<Rightarrow> (a, JNull))"

definition anchored :: "(string \<Rightarrow> string) \<Rightarrow> json list \<Rightarrow> int \<Rightarrow> string \<Rightarrow> bool" where
  \<comment> \<open>the loop over the retained outbox: some event of that revision hashes to the epoch\<close>
  "anchored epoch_of outbox acked epoch \<longleftrightarrow>
     (\<exists>e\<in>set outbox. case as_obj e of
         Some d \<Rightarrow> py_eq (jget d ''revision'') (JInt acked) \<and>
            (case as_str (jget d ''event_id'') of Some i \<Rightarrow> hex_ok 16 i \<and> epoch = epoch_of i | None \<Rightarrow> False)
       | None \<Rightarrow> False)"

definition effective_acked :: "(string \<Rightarrow> string) \<Rightarrow> obj \<Rightarrow> json \<Rightarrow> int" where
  "effective_acked epoch_of doc acked_revision =
     (let (acked, epoch) = ack_parts acked_revision
      in (case as_int acked of
            None \<Rightarrow> 0
          | Some n \<Rightarrow>
             if n < 0 then 0
             else (case as_int (jget doc ''revision'') of
                None \<Rightarrow> 0
              | Some rvn \<Rightarrow>
                 if n > rvn then 0
                 else if py_eq epoch (jget doc ''operation_ack_epoch'') then n
                 else (case as_str epoch of
                    None \<Rightarrow> 0
                  | Some ep \<Rightarrow>
                     if \<not> hex_ok 32 ep then 0
                     else (case as_list (get_or doc ''operation_outbox'' (JList [])) of
                        None \<Rightarrow> 0
                      | Some outbox \<Rightarrow> if anchored epoch_of outbox n ep then n else 0)))))"

definition entry_revision :: "json \<Rightarrow> int pres" where
  "entry_revision e = rbind (item e ''revision'') (\<lambda>v. case int_value v of Some n \<Rightarrow> Inr n | None \<Rightarrow> Inl Unmodelled)"

definition prune_acked :: "json list \<Rightarrow> int \<Rightarrow> json list pres" where
  "prune_acked outbox acked =
     rbind (rmap entry_revision outbox) (\<lambda>ns. Inr (map snd (filter (\<lambda>(n, e). n > acked) (zip ns outbox))))"

definition pending_exports :: "(string \<Rightarrow> string) \<Rightarrow> obj \<Rightarrow> json \<Rightarrow> json list pres" where
  "pending_exports epoch_of doc exported =
     (case as_list (get_or doc ''operation_outbox'' (JList [])) of
        None \<Rightarrow> Inl (PyError TypeError)
      | Some outbox \<Rightarrow> rbind (rmap entry_revision outbox) (\<lambda>ns.
          Inr (map snd (sort_key fst (filter (\<lambda>(n, e). n > effective_acked epoch_of doc exported) (zip ns outbox))))))"

section \<open>The commit transaction\<close>

record commit_args =
  ca_action :: string
  ca_target :: json
  ca_actor :: json
  ca_now :: rat
  ca_acked :: json
  ca_expected :: "int option"
  ca_dry_run :: bool

type_synonym mutation = "obj \<Rightarrow> obj pres"

definition prior_document :: "int \<Rightarrow> policy_fs \<Rightarrow> obj pres" where
  "prior_document ttl fs =
     rbind (read_valid ttl (fs_auth fs)) (\<lambda>p. case p of
         Some doc \<Rightarrow> Inr doc
       | None \<Rightarrow>
           if fs_auth fs \<noteq> Missing \<or> fs_lkg fs \<noteq> Missing
           then rbind (read_valid ttl (fs_lkg fs)) (\<lambda>l. case l of
                    Some _ \<Rightarrow> Inl PolicyDegradedError | None \<Rightarrow> Inl invalid_policy)
           else Inr base_document)"

definition doc_revision :: "obj \<Rightarrow> int" where
  "doc_revision doc = (case as_int (jget doc ''revision'') of Some n \<Rightarrow> n | None \<Rightarrow> 0)"

definition append_outbox :: "json \<Rightarrow> obj \<Rightarrow> obj pres" where
  \<comment> \<open>\<^verbatim>\<open>candidate["operation_outbox"].append(...)\<close>\<close>
  "append_outbox entry doc = (case dget doc ''operation_outbox'' of
      None \<Rightarrow> Inl (PyError KeyError)
    | Some v \<Rightarrow> (case as_list v of
         None \<Rightarrow> Inl (PyError AttributeError)
       | Some xs \<Rightarrow> Inr (dset ''operation_outbox'' (JList (xs @ [entry])) doc)))"

definition outbox_entry :: "commit_args \<Rightarrow> string \<Rightarrow> int \<Rightarrow> json" where
  "outbox_entry ca event_id rvn = JObj [(''event_id'', JStr event_id), (''revision'', JInt rvn),
     (''action'', JStr (ca_action ca)), (''target'', ca_target ca), (''actor'', ca_actor ca),
     (''created_at'', JFloat (ca_now ca))]"

definition mark_roles :: "obj \<Rightarrow> obj \<Rightarrow> obj" where
  "mark_roles prior c =
     (if has_key c ''roles'' \<or> jget prior ''roles_present'' = JBool True
      then dset ''roles_present'' (JBool True) c else c)"

definition build_candidate :: "int \<Rightarrow> (string \<Rightarrow> string) \<Rightarrow> string \<Rightarrow> commit_args \<Rightarrow> mutation \<Rightarrow> obj \<Rightarrow> obj pres" where
  "build_candidate ttl epoch_of event_id ca mutate prior =
     (if ca_expected ca \<noteq> None \<and> ca_expected ca \<noteq> Some (doc_revision prior)
      then Inl (RevisionConflict (doc_revision prior))
      else (case as_list (get_or prior ''operation_outbox'' (JList [])) of
         None \<Rightarrow> Inl (PyError TypeError)
       | Some old \<Rightarrow>
          rbind (prune_acked old (effective_acked epoch_of prior (ca_acked ca))) (\<lambda>outbox.
          if length outbox \<ge> OUTBOX_CAP then Inl OperationBacklogFull
          else rbind (normalize_quarantine (dset ''operation_outbox'' (JList outbox) prior)) (\<lambda>c1.
               rbind (mutate c1) (\<lambda>c2.
               rbind (normalize_quarantine c2) (\<lambda>c3.
               let rvn = doc_revision prior + 1;
                   c5 = dset ''revision'' (JInt rvn) (mark_roles prior c3)
               in rbind (append_outbox (outbox_entry ca event_id rvn) c5) (\<lambda>c6.
                  validate_document ttl
                    (JObj (dset ''operation_ack_epoch'' (JStr (epoch_of event_id)) c6)))))))))"

definition commit_writes :: "obj \<Rightarrow> obj \<Rightarrow> policy_write list \<times> unit pres" where
  \<comment> \<open>the writes of a commit in order, and the error raised after them if any: a prior revision below
      one has no ring file name\<close>
  "commit_writes prior candidate =
     (let early = (if jget candidate ''roles_present'' = JBool True then [WWatermark] else []) @ [WLkg prior]
      in if doc_revision prior < 1 then (early, Inl invalid_policy)
         else (early @ [WRing (doc_revision prior) prior, WAuth candidate, WPrune], Inr ()))"

definition commit_mutation ::
  "int \<Rightarrow> (string \<Rightarrow> string) \<Rightarrow> string \<Rightarrow> commit_args \<Rightarrow> mutation \<Rightarrow> (obj \<Rightarrow> obj \<Rightarrow> unit pres) option \<Rightarrow> policy_fs
     \<Rightarrow> policy_fs \<times> obj pres" where
  "commit_mutation ttl epoch_of event_id ca mutate precommit fs =
     (case rbind (prior_document ttl fs) (\<lambda>prior.
            rbind (build_candidate ttl epoch_of event_id ca mutate prior) (\<lambda>candidate.
            rbind (case precommit of Some f \<Rightarrow> f prior candidate | None \<Rightarrow> Inr ()) (\<lambda>_. Inr (prior, candidate)))) of
        Inl e \<Rightarrow> (fs, Inl e)
      | Inr (prior, candidate) \<Rightarrow>
          if ca_dry_run ca then (fs, Inr candidate)
          else (case commit_writes prior candidate of (ws, r) \<Rightarrow>
                  (apply_writes fs ws, rbind r (\<lambda>_. Inr candidate))))"

definition read_lkg_revision :: "int \<Rightarrow> int \<Rightarrow> policy_fs \<Rightarrow> obj pres" where
  "read_lkg_revision ttl revision fs =
     (if revision < 1 then Inl invalid_policy
      else rbind (read_valid ttl (case dget (fs_ring fs) revision of Some d \<Rightarrow> Content (JObj d) | None \<Rightarrow> Missing))
             (\<lambda>d. case d of Some doc \<Rightarrow> Inr doc | None \<Rightarrow> Inl (PolicyError ''lkg_revision_unavailable'')))"

section \<open>Role and QoS mutations\<close>

definition need_obj :: "json \<Rightarrow> obj pres" where
  \<comment> \<open>using a value as a dict\<close>
  "need_obj v = (case as_obj v of Some d \<Rightarrow> Inr d | None \<Rightarrow> Inl (PyError AttributeError))"

definition with_roles :: "(obj \<Rightarrow> obj pres) \<Rightarrow> mutation" where
  \<comment> \<open>\<^verbatim>\<open>_ensure_roles(candidate)\<close> followed by in-place changes of the role section\<close>
  "with_roles f candidate = (case as_obj (get_or candidate ''roles'' (JObj [])) of
      None \<Rightarrow> Inl invalid_policy
    | Some roles0 \<Rightarrow>
        let roles = foldl (\<lambda>r k. setdefault k (JObj []) r) roles0 [''defs'', ''role_of'', ''qos_default'', ''qos_device'']
        in rbind (f roles) (\<lambda>roles'.
             Inr (dset ''roles_present'' (JBool True) (dset ''roles'' (JObj roles') candidate))))"

definition ordered_peers :: "string \<Rightarrow> string list \<Rightarrow> json" where
  "ordered_peers name peers = JList (map JStr (name # sort (remdups (filter (\<lambda>p. p \<noteq> name) peers))))"

fun supplied_ok :: "string \<Rightarrow> obj \<Rightarrow> json list \<Rightarrow> string list \<Rightarrow> string list pres" where
  \<comment> \<open>the loop over the supplied peers of \<^verbatim>\<open>_put_role\<close>; the result lists their names\<close>
  "supplied_ok name defs [] seen = Inr []"
| "supplied_ok name defs (peer # ps) seen =
     rbind (validate_role_name peer) (\<lambda>p.
       if p \<in> set seen then Inl invalid_policy
       else if p \<noteq> name \<and> \<not> has_key defs p then Inl invalid_policy
       else rbind (supplied_ok name defs ps (p # seen)) (\<lambda>ns. Inr (p # ns)))"

definition string_items :: "json \<Rightarrow> string list pres" where
  \<comment> \<open>the members of a peer list, which are strings in a validated document\<close>
  "string_items v = (case as_list v of
      None \<Rightarrow> Inl invalid_policy
    | Some xs \<Rightarrow> rmap (\<lambda>x. case as_str x of Some s \<Rightarrow> Inr s | None \<Rightarrow> Inl Unmodelled) xs)"

definition reciprocal :: "string \<Rightarrow> string list \<Rightarrow> string \<times> json \<Rightarrow> (string \<times> json) pres" where
  \<comment> \<open>the reciprocal edit of another role's peers\<close>
  "reciprocal name wanted od = (case od of (other, dv) \<Rightarrow>
     if other = name then Inr od
     else rbind (need_obj dv) (\<lambda>d.
          rbind (string_items (get_or d ''peers'' (JList [JStr other]))) (\<lambda>ps.
          Inr (other, JObj (dset ''peers'' (ordered_peers other
            (if other \<in> set wanted then name # ps else filter (\<lambda>p. p \<noteq> name) ps)) d)))))"

definition put_role_defs :: "string \<Rightarrow> json \<Rightarrow> obj \<Rightarrow> obj pres" where
  "put_role_defs name definition defs = (case as_obj definition of
      None \<Rightarrow> Inl invalid_policy
    | Some d \<Rightarrow> (case as_list (get_or d ''peers'' (JList [JStr name])) of
        None \<Rightarrow> Inl invalid_policy
      | Some supplied \<Rightarrow>
         if JStr name \<notin> set supplied then Inl (PolicyError ''role_isolated'')
         else rbind (supplied_ok name defs supplied []) (\<lambda>ns.
              rmap (reciprocal name ns) (dset name (JObj (dset ''peers'' (ordered_peers name ns) d)) defs))))"

definition put_role :: "string \<Rightarrow> json \<Rightarrow> mutation" where
  "put_role name definition candidate =
     rbind (validate_role_name (JStr name)) (\<lambda>_.
     if as_obj definition = None then Inl invalid_policy
     else with_roles (\<lambda>roles. case as_obj (get_or roles ''defs'' (JObj [])) of
         None \<Rightarrow> Inl invalid_policy
       | Some defs \<Rightarrow> rbind (put_role_defs name definition defs) (\<lambda>defs'. Inr (dset ''defs'' (JObj defs') roles)))
       candidate)"

definition require_known_role :: "obj \<Rightarrow> json \<Rightarrow> string pres" where
  "require_known_role roles role =
     rbind (validate_role_name role) (\<lambda>r.
     rbind (need_obj (get_or roles ''defs'' (JObj []))) (\<lambda>defs.
       if has_key defs r then Inr r else Inl (PolicyError ''role_not_found'')))"

definition update_role_of :: "(obj \<Rightarrow> obj) \<Rightarrow> obj \<Rightarrow> obj pres" where
  "update_role_of f roles = rbind (need_obj (jget roles ''role_of'')) (\<lambda>ro. Inr (dset ''role_of'' (JObj (f ro)) roles))"

definition assign_all :: "string list \<Rightarrow> string \<Rightarrow> obj \<Rightarrow> obj" where
  "assign_all ids r ro = foldl (\<lambda>m d. dset d (JStr r) m) ro ids"

definition set_role_mutation :: "string \<Rightarrow> json \<Rightarrow> mutation" where
  "set_role_mutation device_id role candidate =
     (if device_id = [] then Inl invalid_policy
      else with_roles (\<lambda>roles.
        if role = JNull then update_role_of (ddel device_id) roles
        else rbind (require_known_role roles role) (\<lambda>r. update_role_of (dset device_id (JStr r)) roles)) candidate)"

definition checked_device_ids :: "string list \<Rightarrow> string list pres" where
  "checked_device_ids ids = (if [] \<in> set ids then Inl invalid_policy else Inr (rev (remdups (rev ids))))"

definition set_roles_bulk_mutation :: "json \<Rightarrow> string list \<Rightarrow> mutation" where
  "set_roles_bulk_mutation role ids candidate =
     rbind (checked_device_ids ids) (\<lambda>ids.
     with_roles (\<lambda>roles.
       if role = JNull then update_role_of (\<lambda>ro. foldl (\<lambda>m d. ddel d m) ro ids) roles
       else rbind (require_known_role roles role) (\<lambda>r. update_role_of (assign_all ids r) roles)) candidate)"

definition set_role_members_mutation :: "json \<Rightarrow> string list \<Rightarrow> mutation" where
  "set_role_members_mutation role ids candidate =
     rbind (checked_device_ids ids) (\<lambda>ids.
     with_roles (\<lambda>roles. rbind (require_known_role roles role) (\<lambda>r.
       update_role_of (\<lambda>ro. assign_all ids r (filter (\<lambda>(d, v). v \<noteq> JStr r) ro)) roles)) candidate)"

definition delete_role_mutation :: "string \<Rightarrow> string list \<Rightarrow> mutation" where
  "delete_role_mutation name referring_schedules candidate =
     rbind (validate_role_name (JStr name)) (\<lambda>_.
     with_roles (\<lambda>roles. rbind (require_known_role roles (JStr name)) (\<lambda>_.
       rbind (need_obj (jget roles ''role_of'')) (\<lambda>ro.
       rbind (need_obj (jget roles ''defs'')) (\<lambda>defs.
         let member_count = length (filter (\<lambda>(d, v). v = JStr name) ro);
             referring = map fst (filter (\<lambda>(r, dv). r \<noteq> name \<and>
               json_in name (get_or (obj_or_empty dv) ''peers'' (JList [JStr r]))) defs)
         in if member_count > 0 \<or> referring \<noteq> [] \<or> referring_schedules \<noteq> []
            then Inl (RoleInUse name member_count (sort referring) (sort referring_schedules))
            else Inr (dset ''defs'' (JObj (ddel name defs)) roles))))) candidate)"

text \<open>\<^verbatim>\<open>set_qos\<close>: the scope is a role, a device or global; the tracker-state layer is absent for devices.\<close>

datatype qos_scope = GlobalScope | RoleScope json | DeviceScope string

definition set_state_layer :: "string \<Rightarrow> obj option \<Rightarrow> obj \<Rightarrow> obj" where
  "set_state_layer key st d = (case st of
      None \<Rightarrow> d
    | Some s \<Rightarrow> if s \<noteq> [] then dset key (JObj s) d else ddel key d)"

definition set_qos_mutation :: "obj option \<Rightarrow> obj option \<Rightarrow> qos_scope \<Rightarrow> mutation" where
  "set_qos_mutation qos qos_state scope candidate =
     (if qos = None \<and> qos_state = None then Inl invalid_policy
      else (case scope of
         RoleScope role \<Rightarrow> with_roles (\<lambda>roles.
           rbind (require_known_role roles role) (\<lambda>r.
           rbind (need_obj (jget roles ''defs'')) (\<lambda>defs.
           rbind (need_obj (jget defs r)) (\<lambda>d.
           let d1 = (case qos of Some q \<Rightarrow> dset ''qos'' (JObj q) d | None \<Rightarrow> d);
               d2 = set_state_layer ''qos_state'' qos_state d1
           in Inr (dset ''defs'' (JObj (dset r (JObj d2) defs)) roles))))) candidate
       | DeviceScope device_id \<Rightarrow>
           (if qos_state \<noteq> None then Inl invalid_policy
            else with_roles (\<lambda>roles.
              if device_id = [] then Inl invalid_policy
              else rbind (need_obj (jget roles ''qos_device'')) (\<lambda>q.
                Inr (dset ''qos_device'' (JObj (dset device_id (case qos of Some v \<Rightarrow> JObj v | None \<Rightarrow> JNull) q)) roles))) candidate)
       | GlobalScope \<Rightarrow> with_roles (\<lambda>roles.
           Inr (set_state_layer ''qos_state_default'' qos_state
             (case qos of Some q \<Rightarrow> dset ''qos_default'' (JObj q) roles | None \<Rightarrow> roles))) candidate))"

definition restore_mutation :: "obj \<Rightarrow> mutation" where
  "restore_mutation historical candidate =
     (case (dget candidate ''revision'', dget candidate ''operation_outbox'') of
        (Some rvn, Some outbox) \<Rightarrow>
          Inr (dset ''operation_outbox'' outbox (dset ''revision'' rvn
            (filter (\<lambda>(k, v). k \<noteq> ''revision'' \<and> k \<noteq> ''operation_outbox'' \<and> take 1 k \<noteq> ''_'') historical)))
      | _ \<Rightarrow> Inl (PyError KeyError))"

definition drop_device :: "string \<Rightarrow> string \<Rightarrow> obj \<Rightarrow> obj" where
  "drop_device section device_id roles = (case as_obj (jget roles section) of
      Some d \<Rightarrow> dset section (JObj (ddel device_id d)) roles | None \<Rightarrow> roles)"

definition unassign_mutation :: "string \<Rightarrow> mutation" where
  "unassign_mutation device_id candidate =
     rbind (need_obj (get_or candidate ''assignments'' (JObj []))) (\<lambda>a.
     let c1 = (if has_key candidate ''assignments'' then dset ''assignments'' (JObj (ddel device_id a)) candidate
               else candidate);
         c2 = set_quarantine_membership c1 device_id False
     in Inr (case as_obj (jget c2 ''roles'') of
          Some roles \<Rightarrow> dset ''roles'' (JObj (drop_device ''qos_device'' device_id (drop_device ''role_of'' device_id roles))) c2
        | None \<Rightarrow> c2))"

end
