(* ===== verification/Policy_Store_Properties.thy ===== *)
theory Policy_Store_Properties
  imports Policy_Store Policy_Properties
begin

text \<open>
  Properties of the policy store: read precedence, the commit transaction and what an interruption
  leaves behind, the ring of prior documents, outbox acknowledgement, and the reciprocal role graph
  that role writes maintain.
\<close>

section \<open>Loading\<close>

lemma read_valid_Content: "validate_document ttl j = Inr doc \<Longrightarrow> read_valid ttl (Content j) = Inr (Some doc)"
  by (simp add: read_valid_def)

lemma read_valid_Some: "read_valid ttl f = Inr (Some doc) \<Longrightarrow> f = Content (JObj doc) \<and> validate_document ttl (JObj doc) = Inr doc"
  using validate_document_same
  by (cases f) (auto simp: read_valid_def split: sum.splits perr.splits)

lemma mk_result_valid:
  assumes "validate_document ttl dv = Inr doc"
  shows "\<exists>r. mk_result doc d s = Inr r \<and> pr_document r = doc \<and> pr_degraded r = d \<and> pr_fail_closed r = s"
  using compile_roles_ok [OF validate_document_ok [OF assms]] by (auto simp: mk_result_def)


section \<open>Commit\<close>

lemma append_outbox_ok:
  "append_outbox e d = Inr d' \<Longrightarrow> \<exists>xs. dget d ''operation_outbox'' = Some (JList xs) \<and> d' = dset ''operation_outbox'' (JList (xs @ [e])) d"
  by (auto simp: append_outbox_def split: option.splits)

lemma build_candidate_ok:
  assumes "build_candidate ttl epoch_of event_id ca mutate prior = Inr cand"
  shows "validate_document ttl (JObj cand) = Inr cand" and "doc_revision cand = doc_revision prior + 1"
    and "\<exists>xs. dget cand ''operation_outbox'' = Some (JList (xs @ [outbox_entry ca event_id (doc_revision prior + 1)]))"
    and "dget cand ''operation_ack_epoch'' = Some (JStr (epoch_of event_id))"
    and "ca_expected ca = None \<or> ca_expected ca = Some (doc_revision prior)"
    and "has_key cand ''roles'' \<Longrightarrow> jget cand ''roles_present'' = JBool True"
proof -
  obtain c3 c6 where c6: "append_outbox (outbox_entry ca event_id (doc_revision prior + 1))
      (dset ''revision'' (JInt (doc_revision prior + 1))
        (mark_roles prior c3)) = Inr c6"
    and v: "validate_document ttl (JObj (dset ''operation_ack_epoch'' (JStr (epoch_of event_id)) c6)) = Inr cand"
    and e: "ca_expected ca = None \<or> ca_expected ca = Some (doc_revision prior)"
    using assms by (auto simp: build_candidate_def rbind_eq_Inr Let_def split: if_splits option.splits)
  have same: "cand = dset ''operation_ack_epoch'' (JStr (epoch_of event_id)) c6" using validate_document_same [OF v] by simp
  show "validate_document ttl (JObj cand) = Inr cand" using v same by simp
  show "ca_expected ca = None \<or> ca_expected ca = Some (doc_revision prior)" by (rule e)
  obtain xs where xs: "c6 = dset ''operation_outbox'' (JList (xs @ [outbox_entry ca event_id (doc_revision prior + 1)]))
      (dset ''revision'' (JInt (doc_revision prior + 1))
        (mark_roles prior c3))"
    using append_outbox_ok [OF c6] by blast
  show "doc_revision cand = doc_revision prior + 1" by (simp add: same xs doc_revision_def get_or_def)
  show "\<exists>xs. dget cand ''operation_outbox'' = Some (JList (xs @ [outbox_entry ca event_id (doc_revision prior + 1)]))"
    by (simp add: same xs)
  show "dget cand ''operation_ack_epoch'' = Some (JStr (epoch_of event_id))" by (simp add: same)
  show "jget cand ''roles_present'' = JBool True" if "has_key cand ''roles''"
  proof (cases "has_key c3 ''roles''")
    case True
    then show ?thesis by (simp add: same xs get_or_def mark_roles_def)
  next
    case False
    have "has_key c3 ''roles''"
      using that False by (simp add: same xs has_key_dget mark_roles_def split: if_splits)
    with False show ?thesis by simp
  qed
qed

lemma commit_mutation_ok:
  assumes "commit_mutation ttl epoch_of event_id ca mutate precommit fs = (fs', Inr cand)" and "\<not> ca_dry_run ca"
  obtains prior where "prior_document ttl fs = Inr prior" "build_candidate ttl epoch_of event_id ca mutate prior = Inr cand"
    "1 \<le> doc_revision prior" "fs' = apply_writes fs (fst (commit_writes prior cand))"
proof -
  obtain prior c where p: "prior_document ttl fs = Inr prior" "build_candidate ttl epoch_of event_id ca mutate prior = Inr c"
    and r: "(apply_writes fs (fst (commit_writes prior c)), rbind (snd (commit_writes prior c)) (\<lambda>_. Inr c)) = (fs', Inr cand)"
    using assms by (auto simp: commit_mutation_def case_prod_beta rbind_eq_Inr split: sum.splits)
  then have "c = cand" "1 \<le> doc_revision prior"
    by (auto simp: rbind_eq_Inr commit_writes_def Let_def split: if_splits)
  with p r that show ?thesis by auto
qed

text \<open>The state after every prefix of the writes of a commit.\<close>

lemma commit_prefix:
  assumes "1 \<le> doc_revision prior"
  shows "fs_auth (apply_writes fs (take n (fst (commit_writes prior cand)))) = fs_auth fs
     \<or> fs_auth (apply_writes fs (take n (fst (commit_writes prior cand)))) = Content (JObj cand)
       \<and> fs_lkg (apply_writes fs (take n (fst (commit_writes prior cand)))) = Content (JObj prior)
       \<and> (jget cand ''roles_present'' = JBool True \<longrightarrow>
            fs_watermark (apply_writes fs (take n (fst (commit_writes prior cand)))))"
proof -
  let ?w = "if jget cand ''roles_present'' = JBool True then [WWatermark] else []"
  have ws: "fst (commit_writes prior cand) = ?w @ [WLkg prior, WRing (doc_revision prior) prior, WAuth cand, WPrune]"
    using assms by (simp add: commit_writes_def)
  have "n = 0 \<or> n = 1 \<or> n = 2 \<or> n = 3 \<or> n = 4 \<or> n = 5 \<or> 5 < n" by linarith
  then show ?thesis
    unfolding ws by (elim disjE) (simp_all add: apply_writes_def apply_write_def numeral_eq_Suc)
qed

lemma commit_prefix_lkg:
  assumes "1 \<le> doc_revision prior"
  shows "fs_lkg (apply_writes fs (take n (fst (commit_writes prior cand)))) \<in> {fs_lkg fs, Content (JObj prior)}"
proof -
  let ?w = "if jget cand ''roles_present'' = JBool True then [WWatermark] else []"
  have ws: "fst (commit_writes prior cand) = ?w @ [WLkg prior, WRing (doc_revision prior) prior, WAuth cand, WPrune]"
    using assms by (simp add: commit_writes_def)
  have "n = 0 \<or> n = 1 \<or> n = 2 \<or> n = 3 \<or> n = 4 \<or> n = 5 \<or> 5 < n" by linarith
  then show ?thesis
    unfolding ws by (elim disjE) (simp_all add: apply_writes_def apply_write_def numeral_eq_Suc)
qed

lemma base_document_valid: "validate_document ttl (JObj base_document) = Inr base_document"
proof -
  have "dget base_document ''roles'' = None" by code_simp
  then have "validate_document ttl (JObj base_document) = validate_document 900 (JObj base_document)"
    by (simp only: validate_document_def as_obj.simps option.case)
  also have "\<dots> = Inr base_document" by code_simp
  finally show ?thesis .
qed

lemma prior_document_cases:
  assumes "prior_document ttl fs = Inr prior"
  obtains (stored) "fs_auth fs = Content (JObj prior)" "validate_document ttl (JObj prior) = Inr prior"
  | (fresh) "fs_auth fs = Missing" "fs_lkg fs = Missing" "prior = base_document"
proof (cases "read_valid ttl (fs_auth fs)")
  case (Inr p)
  show ?thesis
  proof (cases p)
    case None
    with Inr assms show ?thesis
      by (intro fresh) (auto simp: prior_document_def rbind_eq_Inr split: if_splits option.splits)
  next
    case (Some doc)
    with Inr assms have "doc = prior" by (simp add: prior_document_def)
    with read_valid_Some [of ttl "fs_auth fs" doc] Inr Some stored show ?thesis by simp
  qed
qed (use assms in \<open>simp add: prior_document_def\<close>)

lemma load_valid:
  assumes "fs_auth g = Content (JObj doc)" and "validate_document ttl (JObj doc) = Inr doc"
  obtains r where "load_policy ttl b g = (g, Inr r)" "pr_document r = doc" "\<not> pr_fail_closed r"
proof -
  let ?d = "(fs_watermark g \<or> jget doc ''roles_present'' = JBool True) \<and> \<not> has_key doc ''roles''"
  obtain r where r: "mk_result doc ?d False = Inr r" "pr_document r = doc" "\<not> pr_fail_closed r"
    using mk_result_valid [OF assms(2), of ?d False] by blast
  have "load_policy ttl b g = (g, Inr r)"
    using assms r(1) by (simp add: load_policy_def load_existing_def read_valid_Content [OF assms(2)])
  with r that show ?thesis by blast
qed

lemma load_fresh:
  assumes "fs_auth g = Missing" and "fs_lkg g \<in> {Missing, Content (JObj base_document)}"
  obtains g' r where "load_policy ttl True g = (g', Inr r)" "pr_document r = base_document" "\<not> pr_fail_closed r"
proof (cases "fs_lkg g = Missing")
  case True
  obtain r where "mk_result base_document (fs_watermark g) False = Inr r" "pr_document r = base_document" "\<not> pr_fail_closed r"
    using mk_result_valid [OF base_document_valid, of "fs_watermark g" False] by blast
  with True assms(1) that show ?thesis by (simp add: load_policy_def)
next
  case False
  obtain r where "mk_result base_document True False = Inr r" "pr_document r = base_document" "\<not> pr_fail_closed r"
    using mk_result_valid [OF base_document_valid, of True False] by blast
  with False assms that show ?thesis
    by (auto simp: load_policy_def load_existing_def read_valid_def base_document_valid)
qed

section \<open>Ring of prior documents\<close>

lemma ring_revisions_prune:
  assumes "dwf ring"
  shows "ring_revisions (prune_ring ring) = drop (length (ring_revisions ring) - LKG_RING_SIZE) (ring_revisions ring)"
proof -
  let ?revs = "ring_revisions ring" and ?k = "length (ring_revisions ring) - LKG_RING_SIZE"
  have dist: "distinct ?revs" using assms by (simp add: ring_revisions_def dwf_def)
  have sorted: "sorted ?revs" by (simp add: ring_revisions_def)
  have keys: "dkeys (prune_ring ring) = filter (\<lambda>r. r \<notin> set (take ?k ?revs)) (dkeys ring)"
    unfolding prune_ring_def Let_def foldl_ddel by (simp add: filter_map comp_def case_prod_beta')
  have "filter (\<lambda>r. 1 \<le> r \<and> r < 10 ^ 20) (dkeys (prune_ring ring)) =
      filter (\<lambda>r. r \<notin> set (take ?k ?revs)) (filter (\<lambda>r. 1 \<le> r \<and> r < 10 ^ 20) (dkeys ring))"
    unfolding keys filter_filter by (rule filter_cong) auto
  then have "ring_revisions (prune_ring ring) = filter (\<lambda>r. r \<notin> set (take ?k ?revs)) ?revs"
    by (simp add: ring_revisions_def filter_sort)
  also have "\<dots> = filter (\<lambda>r. r \<notin> set (take ?k ?revs)) (take ?k ?revs @ drop ?k ?revs)" by simp
  also have "\<dots> = drop ?k ?revs"
  proof -
    have "set (take ?k ?revs) \<inter> set (drop ?k ?revs) = {}"
      using dist by (metis append_take_drop_id distinct_append)
    then have "filter (\<lambda>r. r \<notin> set (take ?k ?revs)) (drop ?k ?revs) = drop ?k ?revs"
      by (auto simp: filter_id_conv)
    then show ?thesis unfolding filter_append by simp
  qed
  finally show ?thesis .
qed

section \<open>The reciprocal role graph\<close>

definition adj :: "obj \<Rightarrow> string \<Rightarrow> string set" where
  \<comment> \<open>the peers a role definition names\<close>
  "adj defs n = (case dget defs n of
      Some dv \<Rightarrow> {s. json_in s (peers_of n (obj_or_empty dv))} | None \<Rightarrow> {})"

definition symmetric_graph :: "obj \<Rightarrow> bool" where
  "symmetric_graph defs \<longleftrightarrow> (\<forall>a b. a \<noteq> b \<longrightarrow> has_key defs a \<longrightarrow> has_key defs b \<longrightarrow> (b \<in> adj defs a \<longleftrightarrow> a \<in> adj defs b))"

lemma json_in_ordered: "json_in s (ordered_peers n ps) \<longleftrightarrow> s = n \<or> s \<in> set ps"
  by (auto simp: json_in_def ordered_peers_def)

lemma string_items_in: "string_items v = Inr ps \<Longrightarrow> json_in s v \<longleftrightarrow> s \<in> set ps"
proof -
  assume h: "string_items v = Inr ps"
  then obtain xs where xs: "v = JList xs" by (auto simp: string_items_def split: option.splits)
  have "rmap (\<lambda>x. case as_str x of Some s \<Rightarrow> Inr s | None \<Rightarrow> Inl Unmodelled) xs = Inr ps \<Longrightarrow> xs = map JStr ps"
    by (induction xs arbitrary: ps) (auto simp: rbind_eq_Inr split: option.splits)
  with h xs have "xs = map JStr ps" by (simp add: string_items_def)
  with xs show ?thesis by (auto simp: json_in_def)
qed

lemma supplied_names: "supplied_ok name defs ps seen = Inr ns \<Longrightarrow> ps = map JStr ns \<and> (\<forall>p\<in>set ns. p = name \<or> has_key defs p)"
proof (induction name defs ps seen arbitrary: ns rule: supplied_ok.induct)
  case (2 name defs peer ps seen)
  then obtain p ms where p: "validate_role_name peer = Inr p" "p \<notin> set seen" "\<not> (p \<noteq> name \<and> \<not> has_key defs p)"
    "supplied_ok name defs ps (p # seen) = Inr ms" "ns = p # ms"
    by (auto simp: rbind_eq_Inr split: if_splits)
  with "2.IH" [OF p(1-3), of ms] validate_role_name_ok [OF p(1)] show ?case by auto
qed simp

lemma reciprocal_adj:
  assumes "reciprocal name ns (k, dv) = Inr (k', dv')" and "k \<noteq> name"
  shows "k' = k \<and> (\<forall>s. json_in s (peers_of k (obj_or_empty dv')) \<longleftrightarrow>
     s = k \<or> (if k \<in> set ns then s = name \<or> json_in s (peers_of k (obj_or_empty dv))
              else s \<noteq> name \<and> json_in s (peers_of k (obj_or_empty dv))))"
proof -
  obtain d ps where d: "dv = JObj d" and ps: "string_items (get_or d ''peers'' (JList [JStr k])) = Inr ps"
    and dv': "k' = k" "dv' = JObj (dset ''peers'' (ordered_peers k
            (if k \<in> set ns then name # ps else filter (\<lambda>p. p \<noteq> name) ps)) d)"
    using assms by (auto simp: reciprocal_def need_obj_def rbind_eq_Inr split: option.splits)
  have old: "json_in s (peers_of k (obj_or_empty dv)) \<longleftrightarrow> s \<in> set ps" for s
    unfolding d obj_or_empty_simps peers_of_def by (rule string_items_in [OF ps])
  show ?thesis
    unfolding old using dv' by (auto simp: peers_of_def get_or_def json_in_ordered)
qed

lemma dget_list_all2:
  assumes "list_all2 (\<lambda>x y. f x = Inr y) xs ys" and "\<And>x y. f x = Inr y \<Longrightarrow> fst y = fst x"
  shows "(dget xs k = None \<longleftrightarrow> dget ys k = None)
    \<and> (\<forall>v. dget xs k = Some v \<longrightarrow> (\<exists>v'. dget ys k = Some v' \<and> f (k, v) = Inr (k, v')))"
  using assms(1)
proof (induction xs ys rule: list_all2_induct)
  case (Cons x xs y ys)
  obtain a v b v' where xy: "x = (a, v)" "y = (b, v')" by (cases x, cases y)
  have "b = a" using assms(2) [OF Cons.hyps(1)] xy by simp
  with Cons xy show ?case by auto
qed simp

text \<open>What a role write does to the graph: the written role gets the supplied peers, every other edge
  not touching it is unchanged, and edges touching it become reciprocal.\<close>

lemma put_role_defs_adj:
  assumes "put_role_defs name definition defs = Inr defs'"
  obtains ns where "\<And>k. has_key defs' k \<longleftrightarrow> k = name \<or> has_key defs k"
    "adj defs' name = insert name (set ns)"
    "\<And>k. k \<noteq> name \<Longrightarrow> has_key defs k \<Longrightarrow>
       adj defs' k = insert k (if k \<in> set ns then insert name (adj defs k) else adj defs k - {name})"
proof -
  obtain d supplied ns where d: "definition = JObj d" "supplied_ok name defs supplied [] = Inr ns"
    and m: "rmap (reciprocal name ns) (dset name (JObj (dset ''peers'' (ordered_peers name ns) d)) defs) = Inr defs'"
    using assms by (auto simp: put_role_defs_def rbind_eq_Inr split: option.splits if_splits)
  let ?defs = "dset name (JObj (dset ''peers'' (ordered_peers name ns) d)) defs"
  have keys: "fst y = fst x" if "reciprocal name ns x = Inr y" for x y
    using that by (cases x) (auto simp: reciprocal_def rbind_eq_Inr split: if_splits)
  have l: "list_all2 (\<lambda>x y. reciprocal name ns x = Inr y) ?defs defs'" using m by (simp add: rmap_eq_Inr)
  note get = dget_list_all2 [OF l keys]
  have k1: "has_key defs' k \<longleftrightarrow> k = name \<or> has_key defs k" for k
    using get [of k] by (cases "k = name"; cases "dget defs k") (auto simp: has_key_dget)
  have self: "dget defs' name = Some (JObj (dset ''peers'' (ordered_peers name ns) d))"
    using get [of name] by (auto simp: reciprocal_def)
  have k2: "adj defs' name = insert name (set ns)"
    by (auto simp: adj_def self peers_of_def get_or_Some json_in_ordered)
  have k3: "adj defs' k = insert k (if k \<in> set ns then insert name (adj defs k) else adj defs k - {name})"
    if kn: "k \<noteq> name" and kh: "has_key defs k" for k
  proof -
    obtain dv where dv: "dget defs k = Some dv" using kh by (auto simp: has_key_dget)
    then have "dget ?defs k = Some dv" using kn by simp
    then obtain dv' where dv': "dget defs' k = Some dv'" "reciprocal name ns (k, dv) = Inr (k, dv')"
      using get [of k] by blast
    show ?thesis
      unfolding adj_def using reciprocal_adj [OF dv'(2) kn] dv dv'(1) kn by auto
  qed
  show ?thesis by (rule that [OF k1 k2 k3])
qed

lemma put_role_defs_symmetric:
  assumes "put_role_defs name definition defs = Inr defs'" and "symmetric_graph defs"
  shows "symmetric_graph defs'"
proof -
  obtain ns where k: "\<And>k. has_key defs' k \<longleftrightarrow> k = name \<or> has_key defs k"
    "adj defs' name = insert name (set ns)"
    "\<And>k. k \<noteq> name \<Longrightarrow> has_key defs k \<Longrightarrow>
       adj defs' k = insert k (if k \<in> set ns then insert name (adj defs k) else adj defs k - {name})"
    by (rule put_role_defs_adj [OF assms(1)]) blast
  show ?thesis
    unfolding symmetric_graph_def
  proof (intro allI impI)
    fix a b
    assume ab: "a \<noteq> b" "has_key defs' a" "has_key defs' b"
    consider "a = name" | "b = name" | "a \<noteq> name" "b \<noteq> name" by blast
    then show "b \<in> adj defs' a \<longleftrightarrow> a \<in> adj defs' b"
    proof cases
      case 1
      then show ?thesis using ab k by auto
    next
      case 2
      then show ?thesis using ab k by auto
    next
      case 3
      then have "b \<in> adj defs a \<longleftrightarrow> a \<in> adj defs b" using assms(2) ab k(1) unfolding symmetric_graph_def by blast
      then show ?thesis using 3 ab k by auto
    qed
  qed
qed

section \<open>Example states\<close>

definition demo_fs :: policy_fs where
  "demo_fs = \<lparr>fs_auth = Content (JObj demo_doc), fs_lkg = Content (JObj base_document), fs_ring = [(6, base_document)],
     fs_watermark = True\<rparr>"

definition demo_commit :: commit_args where
  "demo_commit = \<lparr>ca_action = ''set_role'', ca_target = JStr ''sw3'', ca_actor = JStr ''admin'', ca_now = 5, ca_acked = JInt 0,
     ca_expected = Some 7, ca_dry_run = False\<rparr>"

definition demo_epoch :: "string \<Rightarrow> string" where
  "demo_epoch e = replicate 32 (CHR ''0'')"

definition demo_result :: "policy_fs \<times> obj pres" where
  "demo_result = commit_mutation 900 demo_epoch ''0123456789abcdef'' demo_commit (set_role_mutation ''sw3'' (JStr ''core'')) None demo_fs"

lemma demo_commits: "\<exists>fs' cand. demo_result = (fs', Inr cand)"
proof -
  have "\<not> isl (snd demo_result)" by code_simp
  then show ?thesis by (cases demo_result) (metis isl_def snd_conv sum.collapse(2))
qed

section \<open>Properties\<close>



text \<open>
  C11. A policy commit that returns has installed a valid document: the candidate revalidates, its revision
  is one above the prior document's (which is the expected one when an expectation was given), its
  outbox ends with the new entry, it is what the next load returns, and the prior committed document
  is the last-known-good one.
\<close>

theorem commit_installs_candidate:
  assumes "commit_mutation ttl epoch_of event_id ca mutate precommit fs = (fs', Inr cand)" and "\<not> ca_dry_run ca"
  shows "\<exists>prior xs r. prior_document ttl fs = Inr prior \<and> validate_document ttl (JObj cand) = Inr cand
     \<and> doc_revision cand = doc_revision prior + 1
     \<and> (ca_expected ca = None \<or> ca_expected ca = Some (doc_revision prior))
     \<and> dget cand ''operation_outbox'' = Some (JList (xs @ [outbox_entry ca event_id (doc_revision cand)]))
     \<and> load_policy ttl True fs' = (fs', Inr r) \<and> pr_document r = cand \<and> \<not> pr_fail_closed r
     \<and> (has_key cand ''roles'' \<longrightarrow> \<not> pr_degraded r \<and> fs_watermark fs')
     \<and> fs_lkg fs' = Content (JObj prior)"
proof -
  obtain prior where p: "prior_document ttl fs = Inr prior" "build_candidate ttl epoch_of event_id ca mutate prior = Inr cand"
    "1 \<le> doc_revision prior" "fs' = apply_writes fs (fst (commit_writes prior cand))"
    by (rule commit_mutation_ok [OF assms])
  note b = build_candidate_ok [OF p(2)]
  have fs': "fs_auth fs' = Content (JObj cand)" "fs_lkg fs' = Content (JObj prior)"
    using p(3,4) by (auto simp: commit_writes_def apply_writes_def apply_write_def)
  have wm: "has_key cand ''roles'' \<Longrightarrow> fs_watermark fs'"
    using p(3,4) b(6) by (simp add: commit_writes_def apply_writes_def apply_write_def)
  let ?d = "(fs_watermark fs' \<or> jget cand ''roles_present'' = JBool True) \<and> \<not> has_key cand ''roles''"
  obtain r where r: "mk_result cand ?d False = Inr r" "pr_document r = cand" "pr_degraded r = ?d" "\<not> pr_fail_closed r"
    using mk_result_valid [OF b(1), of ?d False] by blast
  have "load_policy ttl True fs' = (fs', load_existing ttl fs')" using fs' by (simp add: load_policy_def)
  also have "load_existing ttl fs' = mk_result cand ?d False"
    using fs' by (simp add: load_existing_def read_valid_Content [OF b(1)])
  finally have l: "load_policy ttl True fs' = (fs', Inr r)" using r(1) by simp
  obtain xs where xs: "dget cand ''operation_outbox'' = Some (JList (xs @ [outbox_entry ca event_id (doc_revision cand)]))"
    using b(2,3) by auto
  show ?thesis
    using p(1) b(1,2,5) xs l r(2,3,4) wm fs'(2) by blast
qed

theorem commit_installs_candidate_witness:
  "\<exists>fs' cand r. demo_result = (fs', Inr cand) \<and> doc_revision cand = 8 \<and>
     load_policy 900 True fs' = (fs', Inr r) \<and> pr_document r = cand"
proof -
  obtain fs' cand where d: "demo_result = (fs', Inr cand)" using demo_commits by blast
  have "\<exists>prior xs r. prior_document 900 demo_fs = Inr prior \<and> validate_document 900 (JObj cand) = Inr cand
     \<and> doc_revision cand = doc_revision prior + 1
     \<and> (ca_expected demo_commit = None \<or> ca_expected demo_commit = Some (doc_revision prior))
     \<and> dget cand ''operation_outbox'' = Some (JList (xs @ [outbox_entry demo_commit ''0123456789abcdef'' (doc_revision cand)]))
     \<and> load_policy 900 True fs' = (fs', Inr r) \<and> pr_document r = cand \<and> \<not> pr_fail_closed r
     \<and> (has_key cand ''roles'' \<longrightarrow> \<not> pr_degraded r \<and> fs_watermark fs')
     \<and> fs_lkg fs' = Content (JObj prior)"
    by (rule commit_installs_candidate [OF d [unfolded demo_result_def]]) (simp add: demo_commit_def)
  then show ?thesis using d by (fastforce simp: demo_commit_def)
qed

text \<open>
  C12. Crash safety: interrupting a commit after any number of its writes leaves a store that loads without
  failing closed, and what it loads is a valid document: the prior one as long as the authoritative file is
  untouched, the complete candidate once it is replaced.  In the latter case the prior document is the
  last-known-good one and a role-bearing candidate has its watermark.
\<close>

theorem commit_crash_safe:
  assumes "commit_mutation ttl epoch_of event_id ca mutate precommit fs = (fs', Inr cand)" and "\<not> ca_dry_run ca"
  shows "\<exists>prior ws. prior_document ttl fs = Inr prior \<and> ws = fst (commit_writes prior cand) \<and> fs' = apply_writes fs ws
     \<and> (\<forall>n. let g = apply_writes fs (take n ws) in
          (fs_auth g = fs_auth fs
           \<or> fs_auth g = Content (JObj cand) \<and> fs_lkg g = Content (JObj prior) \<and> (has_key cand ''roles'' \<longrightarrow> fs_watermark g))
          \<and> (\<exists>g' r. load_policy ttl True g = (g', Inr r) \<and> \<not> pr_fail_closed r
               \<and> pr_document r = (if fs_auth g = fs_auth fs then prior else cand)
               \<and> validate_document ttl (JObj (pr_document r)) = Inr (pr_document r)))"
proof -
  obtain prior where p: "prior_document ttl fs = Inr prior" "build_candidate ttl epoch_of event_id ca mutate prior = Inr cand"
    "1 \<le> doc_revision prior" "fs' = apply_writes fs (fst (commit_writes prior cand))"
    by (rule commit_mutation_ok [OF assms])
  let ?g = "\<lambda>n. apply_writes fs (take n (fst (commit_writes prior cand)))"
  have state: "fs_auth (?g n) = fs_auth fs \<or> fs_auth (?g n) = Content (JObj cand) \<and> fs_lkg (?g n) = Content (JObj prior)
      \<and> (has_key cand ''roles'' \<longrightarrow> fs_watermark (?g n))" for n
    using commit_prefix [OF p(3), of fs n cand] build_candidate_ok(6) [OF p(2)] by blast
  have "\<exists>g' r. load_policy ttl True (?g n) = (g', Inr r) \<and> \<not> pr_fail_closed r
      \<and> pr_document r = (if fs_auth (?g n) = fs_auth fs then prior else cand)
      \<and> validate_document ttl (JObj (pr_document r)) = Inr (pr_document r)" for n
  proof (cases "fs_auth (?g n) = fs_auth fs")
    case same: True
    from p(1) show ?thesis
    proof (cases rule: prior_document_cases)
      case stored
      with same load_valid [of "?g n" prior ttl True] show ?thesis by metis
    next
      case fresh
      have "fs_lkg (?g n) \<in> {Missing, Content (JObj base_document)}"
        using commit_prefix_lkg [OF p(3), of fs n cand] fresh by auto
      with same fresh base_document_valid load_fresh [of "?g n" ttl] show ?thesis by metis
    qed
  next
    case False
    with state [of n] load_valid [OF _ build_candidate_ok(1) [OF p(2)], of "?g n" True] show ?thesis
      using build_candidate_ok(1) [OF p(2)] by metis
  qed
  with state p(1,4) show ?thesis unfolding Let_def
    by (intro exI [of _ prior] exI [of _ "fst (commit_writes prior cand)"] conjI refl allI) simp_all
qed

theorem commit_crash_safe_witness:
  "\<exists>fs' cand prior ws. demo_result = (fs', Inr cand) \<and> ws = fst (commit_writes prior cand) \<and> fs' = apply_writes demo_fs ws
     \<and> (\<forall>n. \<exists>g' r. load_policy 900 True (apply_writes demo_fs (take n ws)) = (g', Inr r) \<and> \<not> pr_fail_closed r
          \<and> pr_document r \<in> {prior, cand})"
proof -
  obtain fs' cand where d: "demo_result = (fs', Inr cand)" using demo_commits by blast
  have n: "\<not> ca_dry_run demo_commit" by (simp add: demo_commit_def)
  from commit_crash_safe [OF d [unfolded demo_result_def] n] obtain prior ws where
    ws: "ws = fst (commit_writes prior cand)" "fs' = apply_writes demo_fs ws"
    and all: "\<forall>n. let g = apply_writes demo_fs (take n ws) in
      (fs_auth g = fs_auth demo_fs
        \<or> fs_auth g = Content (JObj cand) \<and> fs_lkg g = Content (JObj prior) \<and> (has_key cand ''roles'' \<longrightarrow> fs_watermark g))
      \<and> (\<exists>g' r. load_policy 900 True g = (g', Inr r) \<and> \<not> pr_fail_closed r
           \<and> pr_document r = (if fs_auth g = fs_auth demo_fs then prior else cand)
           \<and> validate_document 900 (JObj (pr_document r)) = Inr (pr_document r))"
    by (elim exE conjE)
  have "\<exists>g' r. load_policy 900 True (apply_writes demo_fs (take n ws)) = (g', Inr r) \<and> \<not> pr_fail_closed r
      \<and> pr_document r \<in> {prior, cand}" for n
    using spec [OF all, of n] unfolding Let_def by (auto split: if_splits)
  with d ws show ?thesis by blast
qed

text \<open>
  After a commit the ring of prior documents lists at most five revisions, and pruning drops only
  revisions older than every one it keeps.
\<close>

theorem lkg_ring_bounded:
  assumes "commit_mutation ttl epoch_of event_id ca mutate precommit fs = (fs', Inr cand)" and "\<not> ca_dry_run ca"
    and "dwf (fs_ring fs)"
  shows "length (ring_revisions (fs_ring fs')) \<le> 5
     \<and> (\<exists>old. old @ ring_revisions (fs_ring fs') = ring_revisions (dset (doc_revision cand - 1) [] (fs_ring fs)))"
proof -
  obtain prior where p: "build_candidate ttl epoch_of event_id ca mutate prior = Inr cand"
    "1 \<le> doc_revision prior" "fs' = apply_writes fs (fst (commit_writes prior cand))"
    by (rule commit_mutation_ok [OF assms(1,2)])
  let ?ring = "dset (doc_revision prior) prior (fs_ring fs)"
  have ring: "fs_ring fs' = prune_ring ?ring"
    using p(2,3) by (auto simp: commit_writes_def apply_writes_def apply_write_def)
  have wf: "dwf ?ring" using assms(3) by (rule dwf_dset)
  have keys: "ring_revisions ?ring = ring_revisions (dset (doc_revision cand - 1) [] (fs_ring fs))"
  proof -
    have same: "dkeys (dset k v d) = dkeys (dset k w d)" for k :: int and v w :: obj and d by (induction d) auto
    have "doc_revision cand - 1 = doc_revision prior" using build_candidate_ok(2) [OF p(1)] by simp
    then show ?thesis unfolding ring_revisions_def using same [of "doc_revision prior" prior "fs_ring fs" "[]"] by simp
  qed
  have len: "length (ring_revisions (fs_ring fs')) \<le> 5"
    unfolding ring ring_revisions_prune [OF wf] by (simp add: LKG_RING_SIZE_def)
  have "take (length (ring_revisions ?ring) - LKG_RING_SIZE) (ring_revisions ?ring) @ ring_revisions (fs_ring fs')
      = ring_revisions ?ring"
    unfolding ring ring_revisions_prune [OF wf] by simp
  with len keys show ?thesis by metis
qed

text \<open>
  C14. Defining or redefining a role keeps the role graph undirected: if the stored peer lists were
  reciprocal before, they are reciprocal afterwards.
\<close>

theorem put_role_keeps_symmetry:
  assumes "put_role name definition candidate = Inr candidate'" and "symmetric_graph (role_defs candidate)"
  shows "symmetric_graph (role_defs candidate') \<and> has_key (role_defs candidate') name"
proof -
  obtain roles0 where r0: "get_or candidate ''roles'' (JObj []) = JObj roles0"
    using assms(1) by (auto simp: put_role_def with_roles_def rbind_eq_Inr split: if_splits option.splits)
  let ?roles = "foldl (\<lambda>r k. setdefault k (JObj []) r) roles0 [''defs'', ''role_of'', ''qos_default'', ''qos_device'']"
  have defs: "get_or ?roles ''defs'' (JObj []) = get_or roles0 ''defs'' (JObj [])"
    unfolding get_or_def foldl.simps setdefault_get by (cases "dget roles0 ''defs''") simp_all
  obtain defs defs' where d: "get_or roles0 ''defs'' (JObj []) = JObj defs" "put_role_defs name definition defs = Inr defs'"
    and c: "candidate' = dset ''roles_present'' (JBool True) (dset ''roles'' (JObj (dset ''defs'' (JObj defs') ?roles)) candidate)"
    using assms(1) r0 defs by (auto simp: put_role_def with_roles_def rbind_eq_Inr Let_def split: if_splits option.splits)
  have "role_defs candidate = defs" using r0 d(1) by (simp add: role_defs_def roles_section_def)
  moreover have "role_defs candidate' = defs'" by (simp add: c role_defs_def roles_section_def get_or_def)
  moreover have "has_key defs' name" using put_role_defs_adj [OF d(2)] by metis
  ultimately show ?thesis using put_role_defs_symmetric [OF d(2)] assms(2) by simp
qed

definition demo_put :: "obj pres" where
  "demo_put = put_role ''lone'' (demo_role True [''lone'', ''core'']) demo_doc"

theorem put_role_keeps_symmetry_witness:
  "\<exists>c. demo_put = Inr c \<and> symmetric_graph (role_defs c) \<and> has_key (role_defs c) ''lone''"
proof -
  have "\<not> isl demo_put" by code_simp
  then obtain c where c: "demo_put = Inr c" by (metis isl_def sum.collapse(2))
  have defs: "role_defs demo_doc = [(''core'', demo_role True [''core'', ''edge'']),
      (''edge'', demo_role True [''edge'', ''core'']), (''lone'', demo_role True [''lone''])]" by code_simp
  have sym: "symmetric_graph (role_defs demo_doc)"
    by (auto simp: defs symmetric_graph_def adj_def peers_of_def demo_role_def json_in_def has_key_def get_or_def)
  show ?thesis using put_role_keeps_symmetry [OF c [unfolded demo_put_def] sym] c by blast
qed

text \<open>
  Outbox acknowledgement never trusts an impossible watermark: the effective watermark is zero or the
  claimed revision, the latter only when it does not exceed the document's revision and its epoch is
  the document's own or that of a retained outbox event of exactly that revision.
\<close>

theorem effective_acked_sound:
  "effective_acked epoch_of doc a = 0
   \<or> (\<exists>n rvn. fst (ack_parts a) = JInt n \<and> effective_acked epoch_of doc a = n \<and> 0 \<le> n \<and> dget doc ''revision'' = Some (JInt rvn) \<and> n \<le> rvn
      \<and> (py_eq (snd (ack_parts a)) (jget doc ''operation_ack_epoch'')
         \<or> (\<exists>ep outbox. snd (ack_parts a) = JStr ep \<and> get_or doc ''operation_outbox'' (JList []) = JList outbox
              \<and> anchored epoch_of outbox n ep)))"
proof (cases "effective_acked epoch_of doc a = 0")
  case False
  obtain k e where ke: "ack_parts a = (k, e)" by (cases "ack_parts a")
  then obtain n where n: "k = JInt n" "0 \<le> n"
    using False by (auto simp: effective_acked_def split: option.splits if_splits)
  obtain rvn where r: "as_int (jget doc ''revision'') = Some rvn" "n \<le> rvn"
    using False ke n by (auto simp: effective_acked_def split: option.splits if_splits)
  have "dget doc ''revision'' = Some (JInt rvn)" using r(1) by (simp only: jget_int)
  then show ?thesis
    using False ke n r by (auto simp: effective_acked_def split: option.splits if_splits)
qed simp


definition bad_address_doc :: obj where
  "bad_address_doc = dset ''acls'' (JObj [(''quarantine'', JObj [(''reserved'', JBool True), (''rules'', QUARANTINE_RULES)]),
     (''lab'', JObj [(''rules'', JList [rule_json 10 ''deny'' [(''type'', JStr ''host''), (''value'', JStr ''10.0.0.256'')]])])]) demo_doc"

definition bad_address_fs :: policy_fs where
  "bad_address_fs = \<lparr>fs_auth = Content (JObj bad_address_doc), fs_lkg = Content (JObj demo_doc), fs_ring = [], fs_watermark = True\<rparr>"

text \<open>
  An authoritative document whose only defect is an unparsable address in a host or CIDR rule is not
  handled like other corruption: the address parser's \<^verbatim>\<open>ValueError\<close> is not a \<^verbatim>\<open>PolicyError\<close>, so
  \<^verbatim>\<open>load_policy\<close> raises instead of falling back to the valid last-known-good document.
\<close>

theorem load_policy_bad_address_raises:
  "load_policy 900 True bad_address_fs = (bad_address_fs, Inl (PyError ValueError))
   \<and> read_valid 900 (fs_lkg bad_address_fs) = Inr (Some demo_doc)"
proof
  have "validate_document 900 (JObj bad_address_doc) = Inl (PyError ValueError)" by code_simp
  then show "load_policy 900 True bad_address_fs = (bad_address_fs, Inl (PyError ValueError))"
    by (simp add: load_policy_def load_existing_def read_valid_def bad_address_fs_def)
  show "read_valid 900 (fs_lkg bad_address_fs) = Inr (Some demo_doc)"
    by (simp add: read_valid_def bad_address_fs_def demo_doc_valid)
qed

end
