(* ===== verification/Bitmask.thy ===== *)
theory Bitmask
  imports Main
begin

unbundle bit_operations_syntax

text \<open>
  Integers used as bit sets over the positions of a list: \<open>mask_of xs P\<close> has bit \<open>i\<close> exactly when the
  element at position \<open>i\<close> satisfies \<open>P\<close>.  Mask algebra then reads as logic on predicates.
\<close>

definition mask_of :: "'a list \<Rightarrow> ('a \<Rightarrow> bool) \<Rightarrow> int" where
  "mask_of xs P = horner_sum of_bool 2 (map P xs)"

lemma bit_mask_of [simp]: "bit (mask_of xs P) i \<longleftrightarrow> i < length xs \<and> P (xs ! i)"
  by (auto simp: mask_of_def bit_horner_sum_bit_iff)

lemma int_bits_eqI: "(\<And>i. bit a i \<longleftrightarrow> bit b i) \<Longrightarrow> a = (b :: int)"
  by (simp add: bit_eq_iff)

lemma mask_of_and: "mask_of xs P AND mask_of xs Q = mask_of xs (\<lambda>x. P x \<and> Q x)"
  by (rule int_bits_eqI) (auto simp: bit_and_iff)

lemma mask_of_or: "mask_of xs P OR mask_of xs Q = mask_of xs (\<lambda>x. P x \<or> Q x)"
  by (rule int_bits_eqI) (auto simp: bit_or_iff)

lemma mask_of_diff: "mask_of xs P AND NOT (mask_of xs Q) = mask_of xs (\<lambda>x. P x \<and> \<not> Q x)"
  by (rule int_bits_eqI) (auto simp: bit_and_iff bit_not_iff)

lemma mask_of_False: "mask_of xs (\<lambda>_. False) = 0"
  by (rule int_bits_eqI) simp

lemma mask_of_eq_0: "mask_of xs P = 0 \<longleftrightarrow> (\<forall>x\<in>set xs. \<not> P x)"
proof
  assume "mask_of xs P = 0"
  then have "\<not> bit (mask_of xs P) i" for i by simp
  then show "\<forall>x\<in>set xs. \<not> P x" by (auto simp: in_set_conv_nth)
next
  assume "\<forall>x\<in>set xs. \<not> P x"
  then show "mask_of xs P = 0" by (intro int_bits_eqI) auto
qed

lemma mask_of_True: "push_bit (length xs) 1 - 1 = mask_of xs (\<lambda>_. True)"
proof -
  have "push_bit (length xs) 1 - 1 = (mask (length xs) :: int)" by (simp add: mask_int_def push_bit_eq_mult)
  also have "\<dots> = mask_of xs (\<lambda>_. True)" by (rule int_bits_eqI) (simp add: bit_mask_iff)
  finally show ?thesis .
qed

lemma mask_of_single:
  assumes "distinct xs" and "i < length xs"
  shows "push_bit i 1 = mask_of xs (\<lambda>x. x = xs ! i)"
  using assms by (intro int_bits_eqI) (auto simp: bit_exp_iff nth_eq_iff_index_eq)

lemma mask_of_cong: "(\<And>x. x \<in> set xs \<Longrightarrow> P x \<longleftrightarrow> Q x) \<Longrightarrow> mask_of xs P = mask_of xs Q"
  by (intro int_bits_eqI) auto

lemmas mask_of_simps = mask_of_and mask_of_or mask_of_diff mask_of_eq_0 mask_of_False

text \<open>\<^verbatim>\<open>m & (m - 1)\<close> is zero exactly when at most one bit is set.\<close>

lemma horner_eq_0: "horner_sum of_bool 2 bs = (0 :: int) \<longleftrightarrow> \<not> (\<exists>b\<in>set bs. b)"
proof (induction bs)
  case (Cons b bs)
  have "horner_sum of_bool 2 bs \<ge> (0 :: int)" by (induction bs) auto
  with Cons show ?case by (cases b) auto
qed simp

lemma clear_lowest_bit:
  "horner_sum of_bool 2 bs AND (horner_sum of_bool 2 bs - 1) = (0 :: int) \<longleftrightarrow> length (filter (\<lambda>b. b) bs) \<le> 1"
proof (induction bs)
  case (Cons b bs)
  let ?h = "horner_sum of_bool 2 bs :: int"
  show ?case
  proof (cases b)
    case True
    have "(1 + 2 * ?h) AND (2 * ?h) = 2 * ?h" by (subst and_rec) simp
    moreover have "?h = 0 \<longleftrightarrow> length (filter (\<lambda>b. b) bs) \<le> 0" unfolding horner_eq_0 by (auto simp: filter_empty_conv)
    ultimately show ?thesis using True by simp
  next
    case False
    have "(2 * ?h) AND (2 * ?h - 1) = 2 * (?h AND (?h - 1))"
    proof -
      have "(2 * ?h - 1) div 2 = ?h - 1" by presburger
      then show ?thesis by (subst and_rec) simp
    qed
    with False Cons.IH show ?thesis by simp
  qed
qed simp

lemma at_most_one_length:
  assumes "distinct xs"
  shows "length (filter P xs) \<le> 1 \<longleftrightarrow> (\<forall>x\<in>set xs. \<forall>y\<in>set xs. P x \<longrightarrow> P y \<longrightarrow> x = y)"
proof -
  have "length (filter P xs) = card {x \<in> set xs. P x}"
    using assms by (metis distinct_card distinct_filter set_filter)
  then show ?thesis by (auto simp: card_le_Suc0_iff_eq)
qed

lemma mask_of_lone:
  assumes "distinct xs"
  shows "mask_of xs P AND (mask_of xs P - 1) = 0 \<longleftrightarrow> (\<forall>x\<in>set xs. \<forall>y\<in>set xs. P x \<longrightarrow> P y \<longrightarrow> x = y)"
proof -
  have "length (filter (\<lambda>b. b) (map P xs)) = length (filter P xs)" by (simp add: filter_map comp_def)
  then show ?thesis unfolding mask_of_def clear_lowest_bit using at_most_one_length [OF assms] by simp
qed

lemma bit_foldl_or: "bit (foldl (\<lambda>acc x. acc OR f x) z xs) i \<longleftrightarrow> bit (z :: int) i \<or> (\<exists>x\<in>set xs. bit (f x) i)"
  by (induction xs arbitrary: z) (auto simp: bit_or_iff)

lemma foldl_or_mask_of:
  "foldl (\<lambda>acc x. acc OR mask_of ds (P x)) (mask_of ds Q) xs = mask_of ds (\<lambda>d. Q d \<or> (\<exists>x\<in>set xs. P x d))"
  by (rule int_bits_eqI) (auto simp: bit_foldl_or)

end
