(* ===== verification/Policy_Blast.thy ===== *)
theory Policy_Blast
  imports Policy_Properties
begin

unbundle bit_operations_syntax

text \<open>
  \<^verbatim>\<open>server/peer_policy.py\<close>: the blast-radius preview of a policy change.  Known devices are bits of a Python
  integer, first-match ACL evaluation is done for all devices at once on those masks, and the impact
  counts and the quality-of-service drift decide whether an operator has to confirm with a token.  The
  token's hash over the canonical JSON text of the payload is a parameter.
\<close>

section \<open>Access to the origin\<close>

definition blast_device :: "string \<Rightarrow> principal" where
  "blast_device d = \<lparr>ptype = ''device'', pid = d\<rparr>"

definition blast_seeder :: principal where
  "blast_seeder = \<lparr>ptype = ''service'', pid = ''seeder''\<rparr>"

definition neutral_ip :: "string option" where
  "neutral_ip = Some ''0.0.0.0''"

definition origin_access :: "obj \<Rightarrow> string \<Rightarrow> compiled_policy \<Rightarrow> bool pres" where
  "origin_access doc device_id compiled =
     mutual_permit doc (blast_device device_id) neutral_ip blast_seeder neutral_ip (Some compiled)"

section \<open>Parallel ACL evaluation\<close>

definition mask_get :: "(string, int) dict \<Rightarrow> json \<Rightarrow> int pres" where
  \<comment> \<open>\<^verbatim>\<open>d.get(value, 0)\<close>\<close>
  "mask_get d v = (case v of
      JStr s \<Rightarrow> Inr (case dget d s of Some m \<Rightarrow> m | None \<Rightarrow> 0)
    | JList _ \<Rightarrow> Inl (PyError TypeError)
    | JObj _ \<Rightarrow> Inl (PyError TypeError)
    | _ \<Rightarrow> Inr 0)"

definition device_rule_mask :: "json \<Rightarrow> int \<Rightarrow> (string, int) dict \<Rightarrow> (string, int) dict \<Rightarrow> int pres" where
  "device_rule_mask match all_mask device_bits role_masks =
     rbind (item match ''type'') (\<lambda>match_type.
       if match_type = JStr ''any'' then Inr all_mask
       else if match_type = JStr ''device'' then rbind (item match ''value'') (mask_get device_bits)
       else if match_type = JStr ''role'' then rbind (item match ''value'') (mask_get role_masks)
       else if match_type = JStr ''service'' then Inr 0
       else if match_type = JStr ''host'' then
         rbind (item match ''value'') (\<lambda>v. Inr (if v = JStr ''0.0.0.0'' then all_mask else 0))
       else if match_type = JStr ''cidr'' then
         rbind (item match ''value'') (\<lambda>v. case as_str v of
             None \<Rightarrow> Inl Unmodelled
           | Some s \<Rightarrow> (case parse_network s of
               None \<Rightarrow> Inl (PyError ValueError)
             | Some n \<Rightarrow> Inr (if in_network 0 n then all_mask else 0)))
       else Inr 0)"

definition effective_acl_rules :: "obj \<Rightarrow> json \<Rightarrow> compiled_policy \<Rightarrow> json list pres" where
  "effective_acl_rules doc acl_name compiled = (case acl_name of
      JNull \<Rightarrow> Inr []
    | JStr n \<Rightarrow>
        if take 5 n = ''role:''
        then (case dget (cr_acl_by_role compiled) (drop 5 n) of
            None \<Rightarrow> Inr []
          | Some acl \<Rightarrow> (case as_obj acl of
               None \<Rightarrow> Inl (PyError AttributeError)
             | Some a \<Rightarrow> (case as_list (get_or a ''rules'' (JList [])) of
                  Some rs \<Rightarrow> Inr rs | None \<Rightarrow> Inl Unmodelled)))
        else Inr (case dget (cr_sorted_rules compiled) n of Some rs \<Rightarrow> rs | None \<Rightarrow> [])
    | _ \<Rightarrow> Inl (PyError AttributeError))"

fun subject_loop :: "json list \<Rightarrow> int \<Rightarrow> (string, int) dict \<Rightarrow> (string, int) dict \<Rightarrow> int \<Rightarrow> int \<Rightarrow> int pres" where
  \<comment> \<open>the loop over the rules, with \<^verbatim>\<open>unresolved\<close> and \<^verbatim>\<open>permitted\<close>\<close>
  "subject_loop [] all_mask device_bits role_masks unresolved permitted = Inr (permitted OR unresolved)"
| "subject_loop (rule # rules) all_mask device_bits role_masks unresolved permitted =
     rbind (item rule ''match'') (\<lambda>m. rbind (device_rule_mask m all_mask device_bits role_masks) (\<lambda>mask.
     let matched = unresolved AND mask
     in rbind (item rule ''action'') (\<lambda>action.
        let permitted' = (if action = JStr ''permit'' then permitted OR matched else permitted);
            unresolved' = unresolved AND NOT matched
        in if unresolved' = 0 then Inr (permitted' OR unresolved')
           else subject_loop rules all_mask device_bits role_masks unresolved' permitted')))"

definition permitted_subject_mask ::
  "obj \<Rightarrow> json \<Rightarrow> compiled_policy \<Rightarrow> int \<Rightarrow> (string, int) dict \<Rightarrow> (string, int) dict \<Rightarrow> int pres" where
  "permitted_subject_mask doc acl_name compiled all_mask device_bits role_masks =
     rbind (effective_acl_rules doc acl_name compiled) (\<lambda>rules.
       subject_loop rules all_mask device_bits role_masks all_mask 0)"

section \<open>Permitted sets\<close>

definition or_at :: "'k \<Rightarrow> int \<Rightarrow> ('k, int) dict \<Rightarrow> ('k, int) dict" where
  \<comment> \<open>\<^verbatim>\<open>d[k] |= bit\<close> on a \<^verbatim>\<open>defaultdict(int)\<close>\<close>
  "or_at k b d = dset k ((case dget d k of Some m \<Rightarrow> m | None \<Rightarrow> 0) OR b) d"

fun owner_loop :: "obj \<Rightarrow> compiled_policy \<Rightarrow> (string \<times> int) list \<Rightarrow> (string, int) dict \<times> (json, int) dict
    \<Rightarrow> ((string, int) dict \<times> (json, int) dict) pres" where
  \<comment> \<open>the loop that groups the device bits by role and by effective ACL\<close>
  "owner_loop doc compiled [] masks = Inr masks"
| "owner_loop doc compiled ((device_id, b) # ds) (role_masks, members) =
     rbind (case jget (cr_role_of compiled) device_id of
         JNull \<Rightarrow> Inr role_masks
       | JStr r \<Rightarrow> Inr (or_at r b role_masks)
       | _ \<Rightarrow> Inl Unmodelled) (\<lambda>role_masks'.
     rbind (effective_acl_name doc (blast_device device_id) compiled) (\<lambda>acl_name.
       owner_loop doc compiled ds (role_masks', or_at acl_name b members)))"

definition accepted_owners :: "int \<Rightarrow> int \<Rightarrow> int \<Rightarrow> int \<Rightarrow> int" where
  \<comment> \<open>one pair of ACLs: a lone candidate does not count for itself\<close>
  "accepted_owners outgoing owners candidate_members candidate_permits =
     (let candidates = outgoing AND candidate_members
      in if candidates = 0 then 0
         else let accepted = owners AND candidate_permits
              in if candidates AND (candidates - 1) = 0 then accepted AND NOT candidates else accepted)"

definition peer_access :: "(json, int) dict \<Rightarrow> (json, int) dict \<Rightarrow> int" where
  "peer_access permitted_by_acl members =
     foldl (\<lambda>acc (acl_name, owners).
        foldl (\<lambda>acc' (candidate_acl, candidate_members).
            acc' OR accepted_owners (the (dget permitted_by_acl acl_name)) owners candidate_members
                      (the (dget permitted_by_acl candidate_acl)))
          acc members)
       0 members"

definition origin_mask :: "(string, int) dict \<Rightarrow> (string, bool) dict \<Rightarrow> int pres" where
  "origin_mask device_bits access =
     rbind (rmap (\<lambda>(d, ok). if \<not> ok then Inr 0 else (case dget device_bits d of
         Some b \<Rightarrow> Inr b | None \<Rightarrow> Inl (PyError KeyError))) access) (\<lambda>bs. Inr (foldl (OR) 0 bs))"

definition bit_table :: "string list \<Rightarrow> (string, int) dict" where
  "bit_table ordered = map (\<lambda>(i, d). (d, push_bit i 1)) (enumerate 0 ordered)"

definition permitted_sets ::
  "obj \<Rightarrow> string list \<Rightarrow> (string, bool) dict \<Rightarrow> compiled_policy \<Rightarrow> (string, bool) dict pres" where
  \<comment> \<open>\<^verbatim>\<open>devices\<close> is a set: a list without repetitions\<close>
  "permitted_sets doc devices access compiled =
     (let ordered = sort devices;
          device_bits = bit_table ordered;
          all_mask = push_bit (length ordered) 1 - 1
      in rbind (owner_loop doc compiled device_bits ([], [])) (\<lambda>(role_masks, members).
         rbind (rmap (\<lambda>(acl_name, _). rbind (permitted_subject_mask doc acl_name compiled all_mask device_bits role_masks)
                   (\<lambda>m. Inr (acl_name, m))) members) (\<lambda>permitted_by_acl.
         rbind (origin_mask device_bits access) (\<lambda>om.
         let permitted_mask = om OR peer_access permitted_by_acl members
         in Inr (map (\<lambda>(d, b). (d, permitted_mask AND b \<noteq> 0)) device_bits)))))"

section \<open>Impact\<close>

definition mutual_role_edges :: "obj \<Rightarrow> (string \<times> string) list" where
  "mutual_role_edges doc =
     (let role_names = sort (remdups (''default'' # dkeys (role_defs doc)))
      in concat (map (\<lambda>(index, left). map (Pair left)
           (filter (role_pair_permitted doc left) (drop (Suc index) role_names))) (enumerate 0 role_names)))"

definition role_qos_entry :: "string \<times> json \<Rightarrow> (string \<times> json) pres" where
  \<comment> \<open>the values of one role; a role without any is dropped below\<close>
  "role_qos_entry nd = (case as_obj (snd nd) of
      None \<Rightarrow> Inl (PyError AttributeError)
    | Some d \<Rightarrow> Inr (fst nd, JObj (
          (if truthy (jget d ''qos'') then [(''qos'', jget d ''qos'')] else [])
        @ (case dget d ''qos_state'' of Some v \<Rightarrow> [(''qos_state'', v)] | None \<Rightarrow> [])
        @ (case dget d ''on_stale'' of Some v \<Rightarrow> [(''on_stale'', v)] | None \<Rightarrow> []))))"

definition qos_policy_content :: "obj \<Rightarrow> json pres" where
  "qos_policy_content doc =
     (let roles = roles_section doc
      in rbind (rmap role_qos_entry (role_defs doc)) (\<lambda>role_qos.
         (case as_obj (get_or roles ''qos_device'' (JObj [])) of
            None \<Rightarrow> Inl (PyError AttributeError)
          | Some qd \<Rightarrow> Inr (JObj (
              [(''qos_default'', get_or roles ''qos_default'' (JObj [])),
               (''qos_device'', JObj (filter (\<lambda>(_, q). truthy q) qd)),
               (''roles'', JObj (filter (\<lambda>(_, v). truthy v) role_qos))]
              @ (case dget roles ''qos_state_default'' of Some v \<Rightarrow> [(''qos_state_default'', v)] | None \<Rightarrow> []))))))"

definition token_policy_content :: "obj \<Rightarrow> obj" where
  "token_policy_content doc =
     filter (\<lambda>(k, _). k \<notin> {''revision'', ''operation_outbox'', ''operation_ack_epoch''}) doc"

record blast_impact =
  br_member_delta :: nat
  br_origin_access_lost :: nat
  br_empty_permitted_sets :: nat
  br_role_pairs_stopped :: nat
  br_qos_changed :: bool
  br_requires_confirmation :: bool
  br_confirm_token :: "string option"

definition count_if :: "('a \<Rightarrow> bool) \<Rightarrow> 'a list \<Rightarrow> nat" where
  "count_if P xs = length (filter P xs)"

definition policy_devices :: "obj \<Rightarrow> obj \<Rightarrow> string list" where
  "policy_devices prior candidate = sorted_list_of_set
     (set (dkeys (role_of_map prior)) \<union> set (dkeys (role_of_map candidate))
      \<union> set (dkeys (obj_or_empty (get_or prior ''assignments'' (JObj []))))
      \<union> set (dkeys (obj_or_empty (get_or candidate ''assignments'' (JObj []))))
      \<union> quarantine_device_ids prior \<union> quarantine_device_ids candidate)"

definition lost :: "(string, bool) dict \<Rightarrow> (string, bool) dict \<Rightarrow> string \<Rightarrow> bool" where
  "lost before after d \<longleftrightarrow> dget before d = Some True \<and> dget after d \<noteq> Some True"

definition access_table :: "obj \<Rightarrow> compiled_policy \<Rightarrow> string list \<Rightarrow> (string, bool) dict pres" where
  "access_table doc c devices = rmap (\<lambda>d. rbind (origin_access doc d c) (\<lambda>b. Inr (d, b))) devices"

definition confirm_payload :: "obj \<Rightarrow> obj \<Rightarrow> nat list \<Rightarrow> bool \<Rightarrow> int \<Rightarrow> json" where
  "confirm_payload prior candidate counts qos_changed threshold =
     JObj [(''prior_revision'', jget prior ''revision''), (''candidate'', JObj (token_policy_content candidate)),
       (''counts'', JList (map (\<lambda>n. JInt (int n)) counts)), (''qos_changed'', JBool qos_changed),
       (''threshold'', JInt threshold)]"

definition blast_radius :: "int \<Rightarrow> (json \<Rightarrow> string) \<Rightarrow> json \<Rightarrow> json \<Rightarrow> json \<Rightarrow> blast_impact pres" where
  "blast_radius ttl digest priorv candidatev threshold = (case as_int threshold of
      None \<Rightarrow> Inl invalid_policy
    | Some t \<Rightarrow>
       if t < 0 then Inl invalid_policy
       else
         rbind (validate_document ttl priorv) (\<lambda>prior.
         rbind (validate_document ttl candidatev) (\<lambda>candidate.
         let prior_roles = role_of_map prior; candidate_roles = role_of_map candidate;
             role_devices = sorted_list_of_set (set (dkeys prior_roles) \<union> set (dkeys candidate_roles));
             member_delta = count_if (\<lambda>d. \<not> py_eq (jget prior_roles d) (jget candidate_roles d)) role_devices;
             devices = policy_devices prior candidate
         in rbind (compile_roles prior) (\<lambda>prior_compiled.
            rbind (compile_roles candidate) (\<lambda>candidate_compiled.
            rbind (access_table prior prior_compiled devices) (\<lambda>prior_origin.
            rbind (access_table candidate candidate_compiled devices) (\<lambda>candidate_origin.
            rbind (permitted_sets prior devices prior_origin prior_compiled) (\<lambda>prior_sets.
            rbind (permitted_sets candidate devices candidate_origin candidate_compiled) (\<lambda>candidate_sets.
            rbind (qos_policy_content prior) (\<lambda>pq. rbind (qos_policy_content candidate) (\<lambda>cq.
            let origin_lost = count_if (lost prior_origin candidate_origin) devices;
                empty_sets = count_if (lost prior_sets candidate_sets) devices;
                stopped = count_if (\<lambda>e. e \<notin> set (mutual_role_edges candidate)) (mutual_role_edges prior);
                counts = [member_delta, origin_lost, empty_sets, stopped];
                qos_changed = (\<not> py_eq pq cq);
                needed = (\<exists>n\<in>set (counts @ [if qos_changed then 1 else 0]). int n > t)
            in Inr \<lparr>br_member_delta = member_delta, br_origin_access_lost = origin_lost,
                    br_empty_permitted_sets = empty_sets, br_role_pairs_stopped = stopped,
                    br_qos_changed = qos_changed, br_requires_confirmation = needed,
                    br_confirm_token = (if needed
                       then Some (digest (confirm_payload prior candidate counts qos_changed t)) else None)\<rparr>)))))))))))"

definition confirm_blast_radius ::
  "int \<Rightarrow> (json \<Rightarrow> string) \<Rightarrow> json \<Rightarrow> json \<Rightarrow> json \<Rightarrow> json \<Rightarrow> bool pres" where
  "confirm_blast_radius ttl digest prior candidate threshold token =
     rbind (blast_radius ttl digest prior candidate threshold) (\<lambda>preview. Inr
       (case br_confirm_token preview of
          None \<Rightarrow> True
        | Some expected \<Rightarrow> as_str token = Some expected))"

end
