(* ===== verification/Policy_Blast_Properties.thy ===== *)
theory Policy_Blast_Properties
  imports Bitmask Policy_Blast
begin

unbundle bit_operations_syntax

text \<open>
  The blast-radius preview computes on bit masks what the evaluator computes pair by pair.
\<close>

section \<open>Device bits and groups\<close>

lemma bit_table_mask:
  assumes "distinct xs"
  shows "bit_table xs = map (\<lambda>d. (d, mask_of xs (\<lambda>x. x = d))) xs"
  unfolding bit_table_def
  by (rule nth_equalityI) (use mask_of_single [OF assms] in \<open>auto simp: nth_enumerate_eq\<close>)

definition mask_at :: "('k, int) dict \<Rightarrow> 'k \<Rightarrow> int" where
  "mask_at d k = (case dget d k of Some m \<Rightarrow> m | None \<Rightarrow> 0)"

definition group_masks :: "('a \<Rightarrow> 'k option) \<Rightarrow> ('a \<Rightarrow> int) \<Rightarrow> 'a list \<Rightarrow> ('k, int) dict" where
  "group_masks key b ds = foldl (\<lambda>m d. case key d of Some k \<Rightarrow> or_at k (b d) m | None \<Rightarrow> m) [] ds"

lemma group_masks_Nil [simp]: "group_masks key b [] = []"
  by (simp add: group_masks_def)

lemma group_masks_snoc [simp]:
  "group_masks key b (ds @ [d]) = (case key d of Some k \<Rightarrow> or_at k (b d) (group_masks key b ds) | None \<Rightarrow> group_masks key b ds)"
  by (simp only: group_masks_def foldl_append foldl.simps)

lemma mask_at_or_at [simp]: "mask_at (or_at k b d) k' = (if k' = k then mask_at d k OR b else mask_at d k')"
  by (simp add: or_at_def mask_at_def)

lemma keys_or_at [simp]: "fst ` set (or_at k b d) = insert k (fst ` set d)"
  by (simp add: or_at_def dom_map_of_conv_image_fst [symmetric] update_conv')

lemma group_masks_mask_at:
  "mask_at (group_masks key (\<lambda>d. mask_of xs (\<lambda>x. x = d)) ds) k = mask_of xs (\<lambda>x. x \<in> set ds \<and> key x = Some k)"
proof (induction ds rule: rev_induct)
  case Nil
  then show ?case by (simp add: mask_at_def mask_of_False)
next
  case (snoc d ds)
  then show ?case
    by (cases "key d") (auto simp: mask_of_or intro!: mask_of_cong)
qed

lemma group_masks_keys: "set (dkeys (group_masks key b ds)) = {k. \<exists>d\<in>set ds. key d = Some k}"
  by (induction ds rule: rev_induct) (auto split: option.split)

lemma dwf_or_at: "dwf d \<Longrightarrow> dwf (or_at k b d)"
  by (simp add: or_at_def dwf_def distinct_update)

lemma group_masks_dwf: "dwf (group_masks key b ds)"
  by (induction ds rule: rev_induct) (auto simp: dwf_or_at dwf_def [of "[]"] split: option.split)

lemma group_masks_entries:
  assumes "set ds = set xs"
  shows "set (group_masks key (\<lambda>d. mask_of xs (\<lambda>x. x = d)) ds) = {(k, mask_of xs (\<lambda>x. key x = Some k)) |k. \<exists>d\<in>set xs. key d = Some k}"
    (is "set ?g = ?R")
proof -
  have m: "mask_of xs (\<lambda>x. x \<in> set ds \<and> key x = Some k) = mask_of xs (\<lambda>x. key x = Some k)" for k
    using assms by (intro mask_of_cong) auto
  have "(k, v) \<in> set ?g \<longleftrightarrow> dget ?g k = Some v" for k v
    using group_masks_dwf [of key _ ds] by (simp add: dwf_def)
  moreover have "dget ?g k = Some v \<longleftrightarrow> k \<in> set (dkeys ?g) \<and> v = mask_at ?g k" for k v
    using dget_None_iff [of ?g k] unfolding mask_at_def
    by (cases "dget ?g k") (simp_all only: option.simps option.inject, blast+)
  moreover have "k \<in> set (dkeys ?g) \<longleftrightarrow> (\<exists>d\<in>set xs. key d = Some k)" for k
    unfolding group_masks_keys assms by blast
  ultimately have mem: "(k, v) \<in> set ?g \<longleftrightarrow> (\<exists>d\<in>set xs. key d = Some k) \<and> v = mask_of xs (\<lambda>x. key x = Some k)" for k v
    unfolding group_masks_mask_at m by (simp only:)
  show ?thesis
  proof (rule set_eqI)
    fix p :: "'b \<times> int"
    obtain k v where p: "p = (k, v)" by (cases p)
    show "p \<in> set ?g \<longleftrightarrow> p \<in> ?R" unfolding p mem by blast
  qed
qed

section \<open>One pair of ACLs\<close>

lemma accepted_owners_mask:
  assumes "distinct xs"
  shows "accepted_owners (mask_of xs out) (mask_of xs owners) (mask_of xs mem) (mask_of xs cand) =
     mask_of xs (\<lambda>x. owners x \<and> cand x \<and> (\<exists>e\<in>set xs. e \<noteq> x \<and> out e \<and> mem e))"
proof -
  let ?C = "\<lambda>x. out x \<and> mem x"
  consider (none) "\<forall>x\<in>set xs. \<not> ?C x"
    | (lone) e where "e \<in> set xs" "?C e" "\<forall>x\<in>set xs. \<forall>y\<in>set xs. ?C x \<longrightarrow> ?C y \<longrightarrow> x = y"
    | (many) e f where "e \<in> set xs" "?C e" "f \<in> set xs" "?C f" "e \<noteq> f"
    by blast
  then show ?thesis
  proof cases
    case none
    then have "mask_of xs (\<lambda>x. owners x \<and> cand x \<and> (\<exists>e\<in>set xs. e \<noteq> x \<and> out e \<and> mem e)) = 0"
      unfolding mask_of_eq_0 by blast
    with none show ?thesis by (simp add: accepted_owners_def mask_of_and mask_of_eq_0)
  next
    case lone
    then have nz: "\<not> (\<forall>x\<in>set xs. \<not> ?C x)" by blast
    have "accepted_owners (mask_of xs out) (mask_of xs owners) (mask_of xs mem) (mask_of xs cand)
        = mask_of xs (\<lambda>x. (owners x \<and> cand x) \<and> \<not> ?C x)"
      unfolding accepted_owners_def Let_def mask_of_and mask_of_lone [OF assms] mask_of_diff mask_of_eq_0
      by (rule trans [OF if_not_P [OF nz] if_P [OF lone(3)]])
    also have "\<dots> = mask_of xs (\<lambda>x. owners x \<and> cand x \<and> (\<exists>e\<in>set xs. e \<noteq> x \<and> out e \<and> mem e))"
    proof (rule mask_of_cong)
      fix x assume x: "x \<in> set xs"
      have "\<not> ?C x \<longleftrightarrow> (\<exists>e\<in>set xs. e \<noteq> x \<and> out e \<and> mem e)" using lone x by metis
      then show "((owners x \<and> cand x) \<and> \<not> ?C x) \<longleftrightarrow> owners x \<and> cand x \<and> (\<exists>e\<in>set xs. e \<noteq> x \<and> out e \<and> mem e)"
        by blast
    qed
    finally show ?thesis .
  next
    case many
    then have nz: "\<not> (\<forall>x\<in>set xs. \<not> ?C x)" and nl: "\<not> (\<forall>x\<in>set xs. \<forall>y\<in>set xs. ?C x \<longrightarrow> ?C y \<longrightarrow> x = y)" by blast+
    have "accepted_owners (mask_of xs out) (mask_of xs owners) (mask_of xs mem) (mask_of xs cand)
        = mask_of xs (\<lambda>x. owners x \<and> cand x)"
      unfolding accepted_owners_def Let_def mask_of_and mask_of_lone [OF assms] mask_of_diff mask_of_eq_0
      by (rule trans [OF if_not_P [OF nz] if_not_P [OF nl]])
    also have "\<dots> = mask_of xs (\<lambda>x. owners x \<and> cand x \<and> (\<exists>e\<in>set xs. e \<noteq> x \<and> out e \<and> mem e))"
      using many by (intro mask_of_cong) metis
    finally show ?thesis .
  qed
qed

lemma peer_access_mask:
  assumes "distinct xs" and "set members = {(k, mask_of xs (\<lambda>x. name x = k)) |k. k \<in> name ` set xs}"
    and "\<And>k. k \<in> name ` set xs \<Longrightarrow> dget permitted k = Some (mask_of xs (permits k))"
  shows "peer_access permitted members =
     mask_of xs (\<lambda>x. \<exists>e\<in>set xs. e \<noteq> x \<and> permits (name x) e \<and> permits (name e) x)"
proof -
  have inner: "foldl (\<lambda>acc' (c, cm). acc' OR accepted_owners (the (dget permitted a)) o' cm (the (dget permitted c))) acc members
      = acc OR foldl (\<lambda>acc' (c, cm). acc' OR accepted_owners (the (dget permitted a)) o' cm (the (dget permitted c))) 0 members"
    for a o' acc
    by (rule int_bits_eqI) (simp add: bit_foldl_or bit_or_iff case_prod_unfold)
  have "bit (peer_access permitted members) i \<longleftrightarrow>
      (\<exists>(a, o')\<in>set members. \<exists>(c, cm)\<in>set members.
         bit (accepted_owners (the (dget permitted a)) o' cm (the (dget permitted c))) i)" for i
    unfolding peer_access_def by (subst inner) (simp add: bit_foldl_or bit_or_iff case_prod_unfold)
  also have "\<dots> i \<longleftrightarrow> (\<exists>a\<in>name ` set xs. \<exists>c\<in>name ` set xs.
      bit (mask_of xs (\<lambda>x. name x = a \<and> permits c x \<and> (\<exists>e\<in>set xs. e \<noteq> x \<and> permits a e \<and> name e = c))) i)" for i
  proof -
    have "bit (accepted_owners (the (dget permitted a)) (mask_of xs (\<lambda>x. name x = a)) (mask_of xs (\<lambda>x. name x = c))
            (the (dget permitted c))) i
        = bit (mask_of xs (\<lambda>x. name x = a \<and> permits c x \<and> (\<exists>e\<in>set xs. e \<noteq> x \<and> permits a e \<and> name e = c))) i"
      if "a \<in> name ` set xs" "c \<in> name ` set xs" for a c
      using that by (simp only: assms(3) option.sel accepted_owners_mask [OF assms(1)])
    then show ?thesis unfolding assms(2) by blast
  qed
  finally show ?thesis by (intro int_bits_eqI) (auto simp: bit_mask_of)
qed

section \<open>Rules as masks\<close>

lemma acl_name_not_virtual: "acl_name_ok n \<Longrightarrow> take 5 n \<noteq> ''role:''"
proof
  assume ok: "acl_name_ok n" and "take 5 n = ''role:''"
  then obtain r where n: "n = ''role:'' @ r" by (metis append_take_drop_id)
  show False using ok unfolding n by (simp add: acl_name_ok_def is_lower_def is_upper_def is_digit_def split: if_splits)
qed

text \<open>
  Whatever ACL a device has, the rules read for its name are the rules its decisions are made with:
  first for a stored ACL, then for a virtual one, then for any device.
\<close>

definition decides_with :: "obj \<Rightarrow> compiled_policy \<Rightarrow> string \<Rightarrow> json \<Rightarrow> json list \<Rightarrow> bool" where
  "decides_with doc c d n rs \<longleftrightarrow> effective_acl_name doc (blast_device d) c = Inr n \<and> effective_acl_rules doc n c = Inr rs
     \<and> (\<forall>r\<in>set rs. rule_ok r)
     \<and> (\<forall>e ip. evaluate_for doc (blast_device d) (blast_device e) ip (Some c) =
           first_match rs (blast_device e) ip c (jget (role_of_map doc) e))"

lemma stored_decides:
  assumes ok: "doc_ok doc" and wf: "jwf (JObj doc)" and c: "compile_roles doc = Inr c"
    and acls: "dget doc ''acls'' = Some (JObj acls)" and n: "effective_acl_name doc (blast_device d) c = Inr (JStr n)"
    and a: "assigned_acl doc (blast_device d) c = Inr (JObj a)" "dget acls n = Some (JObj a)"
  shows "\<exists>rs. decides_with doc c d (JStr n) rs"
proof -
  have "(n, JObj a) \<in> set acls" using a(2) by (rule map_of_SomeD)
  then have "acl_ok (JObj a)" and name: "acl_name_ok n" using ok acls unfolding doc_ok_def by auto
  then obtain rules where rules: "dget a ''rules'' = Some (JList rules)" "\<forall>r\<in>set rules. rule_ok r"
    by (auto simp: acl_ok_def)
  have s: "dget (cr_sorted_rules c) n = Some (sort_key seq_of rules)"
    by (rule sorted_rules_of [OF ok wf c acls a(2) rules(1)])
  have "evaluate_for doc (blast_device d) (blast_device e) ip (Some c) =
         first_match (sort_key seq_of rules) (blast_device e) ip c (jget (role_of_map doc) e)" for e ip
    using n a(1) s rules(1)
    by (simp add: evaluate_for_def with_compiled_def item_JObj compile_roles_parts(1) [OF c]) (simp add: blast_device_def)
  moreover have "effective_acl_rules doc (JStr n) c = Inr (sort_key seq_of rules)"
    using acl_name_not_virtual [OF name] s by (simp add: effective_acl_rules_def)
  ultimately show ?thesis using n rules(2) unfolding decides_with_def by (intro exI [of _ "sort_key seq_of rules"]) simp
qed

lemma virtual_decides:
  assumes ok: "doc_ok doc" and wf: "jwf (JObj doc)" and c: "compile_roles doc = Inr c"
    and d: "\<not> is_quarantined doc d" "ordinary_assignment doc d = JNull"
    and r: "jget (role_of_map doc) d = JStr r" "dget (cr_acl_by_role c) r = Some a"
  shows "\<exists>rs. decides_with doc c d (JStr (''role:'' @ r)) rs"
proof -
  have ro: "cr_role_of c = role_of_map doc" by (rule compile_roles_parts(1) [OF c])
  have "compiled_ok doc c" using compile_roles_ok [OF ok] c by auto
  from compiled_okD(1) [OF this r(2)] obtain a' rules
    where a: "a = JObj a'" "dget a' ''rules'' = Some (JList rules)" "\<forall>x\<in>set rules. rule_ok x"
    by (auto simp: acl_ok_def)
  obtain dv where "dget (role_defs doc) r = Some dv"
    using r(2) role_acl_get [OF ok wf c, of r] by (auto split: option.splits)
  then have "def_ok (role_defs doc) r dv" using ok map_of_SomeD unfolding doc_ok_def by fastforce
  then have "r \<noteq> []" by (auto simp: def_ok_def role_name_ok_def)
  note unused = virtual_name_unused [OF ok wf c this]
  have n: "effective_acl_name doc (blast_device d) c = Inr (JStr (''role:'' @ r))"
    using d r by (simp add: effective_acl_name_def blast_device_def ro has_key_dget)
  have "assigned_acl doc (blast_device d) c = Inr (JObj a')"
    using d r a by (simp add: assigned_acl_def blast_device_def ro get_or_Some)
  then have "evaluate_for doc (blast_device d) (blast_device e) ip (Some c) =
     first_match rules (blast_device e) ip c (jget (role_of_map doc) e)" for e ip
    using n unused a(2) by (simp add: evaluate_for_def with_compiled_def item_JObj ro) (simp add: blast_device_def)
  moreover have "effective_acl_rules doc (JStr (''role:'' @ r)) c = Inr rules"
    using r(2) a by (simp add: effective_acl_rules_def get_or_Some)
  ultimately show ?thesis using n a(3) unfolding decides_with_def by (intro exI [of _ rules]) simp
qed

lemma owner_rules:
  assumes ok: "doc_ok doc" and wf: "jwf (JObj doc)" and c: "compile_roles doc = Inr c"
  shows "\<exists>n rs. decides_with doc c d n rs"
proof -
  from ok obtain acls asg q where dd: "dget doc ''acls'' = Some (JObj acls)" "\<forall>(n, a)\<in>set acls. acl_ok a \<and> acl_name_ok n"
    "dget acls RESERVED_QUARANTINE = Some (JObj q)" "py_eq (jget q ''rules'') QUARANTINE_RULES"
    "dget doc ''assignments'' = Some (JObj asg)" "\<forall>(d, a)\<in>set asg. \<exists>n. a = JStr n \<and> has_key acls n"
    by (rule doc_okD)
  have ro: "cr_role_of c = role_of_map doc" by (rule compile_roles_parts(1) [OF c])
  have st: "stored_acls doc = Inr acls" using dd(1) by (simp add: stored_acls_def get_or_def)
  note defs = effective_acl_name_def assigned_acl_def blast_device_def get_or_Some has_key_dget
  consider (quarantined) "is_quarantined doc d"
    | (assigned) n a where "\<not> is_quarantined doc d" "ordinary_assignment doc d = JStr n" "dget acls n = Some (JObj a)"
    | (none) "\<not> is_quarantined doc d" "ordinary_assignment doc d = JNull"
    using ordinary_assignment_cases [OF dd(5,6), of d] has_key_acl [OF _ dd(2)] unfolding acl_ok_def by blast
  then show ?thesis
  proof cases
    case quarantined
    then have "\<exists>rs. decides_with doc c d (JStr RESERVED_QUARANTINE) rs"
      by (intro stored_decides [OF ok wf c dd(1) _ _ dd(3)]) (use dd(3) st in \<open>simp_all add: defs\<close>)
    then show ?thesis by blast
  next
    case assigned
    then have "\<exists>rs. decides_with doc c d (JStr n) rs"
      by (intro stored_decides [OF ok wf c dd(1) _ _ assigned(3)]) (use st in \<open>simp_all add: defs\<close>)
    then show ?thesis by blast
  next
    case none
    show ?thesis
    proof (cases "\<exists>r a. jget (role_of_map doc) d = JStr r \<and> dget (cr_acl_by_role c) r = Some a")
      case False
      then have "assigned_acl doc (blast_device d) c = Inr JNull" "effective_acl_name doc (blast_device d) c = Inr JNull"
        using none role_of_cases [OF ok, of d] by (auto simp: defs ro get_or_None)
      then show ?thesis unfolding decides_with_def
        by (intro exI [of _ JNull] exI [of _ "[]"]) (simp add: effective_acl_rules_def evaluate_for_def with_compiled_def)
    next
      case True
      then show ?thesis using virtual_decides [OF ok wf c none] by blast
    qed
  qed
qed

definition permits_to :: "compiled_policy \<Rightarrow> obj \<Rightarrow> json list \<Rightarrow> string \<Rightarrow> bool" where
  "permits_to c roles rules e \<longleftrightarrow> (\<exists>s. first_match rules (blast_device e) neutral_ip c (jget roles e) = Inr (JStr ''permit'', s))"

definition rule_hits :: "compiled_policy \<Rightarrow> obj \<Rightarrow> json \<Rightarrow> string \<Rightarrow> bool" where
  "rule_hits c roles rule e \<longleftrightarrow> rule_matches rule (blast_device e) neutral_ip c (jget roles e) = Inr True"

lemma mask_get_JStr [simp]: "mask_get d (JStr s) = Inr (mask_at d s)"
  by (simp add: mask_get_def mask_at_def)

lemma mask_at_bit_table:
  assumes "distinct xs" shows "mask_at (bit_table xs) d = mask_of xs (\<lambda>x. x = d)"
proof (cases "d \<in> set xs")
  case True
  then have "dget (bit_table xs) d = Some (mask_of xs (\<lambda>x. x = d))"
    by (simp add: bit_table_mask [OF assms] map_of_map_restrict)
  then show ?thesis by (simp add: mask_at_def)
next
  case False
  then have "dget (bit_table xs) d = None" by (simp add: bit_table_mask [OF assms] dget_None_iff comp_def)
  moreover have "mask_of xs (\<lambda>x. x = d) = 0" using False by (auto simp: mask_of_eq_0)
  ultimately show ?thesis by (simp add: mask_at_def)
qed

lemma device_rule_mask_hits:
  assumes "rule_ok rule" and "distinct xs" and "cr_role_of c = roles"
    and "\<And>r. mask_at role_masks r = mask_of xs (\<lambda>x. jget roles x = JStr r)"
  shows "\<exists>m. item rule ''match'' = Inr m \<and>
     device_rule_mask m (mask_of xs (\<lambda>_. True)) (bit_table xs) role_masks = Inr (mask_of xs (rule_hits c roles rule))"
proof -
  from assms(1) obtain r m t where r: "rule = JObj r" "dget r ''match'' = Some (JObj m)" "dget m ''type'' = Some (JStr t)"
    "t \<in> set match_types" "t \<noteq> ''any'' \<longrightarrow> (\<exists>v. dget m ''value'' = Some (JStr v) \<and> (t = ''cidr'' \<longrightarrow> parse_network v \<noteq> None))"
    unfolding rule_ok_def by blast
  note it = r(1) item_JObj [OF r(2)] item_JObj [OF r(3)]
  let ?mask = "device_rule_mask (JObj m) (mask_of xs (\<lambda>_. True)) (bit_table xs) role_masks"
  have by_hits: ?thesis if "?mask = Inr (mask_of xs H)" "\<And>e. e \<in> set xs \<Longrightarrow> rule_hits c roles rule e \<longleftrightarrow> H e" for H
    using that it mask_of_cong [of xs "rule_hits c roles rule" H] by (intro exI [of _ "JObj m"]) simp
  have val: "\<exists>v. item (JObj m) ''value'' = Inr (JStr v) \<and> (t = ''cidr'' \<longrightarrow> parse_network v \<noteq> None)" if "t \<noteq> ''any''"
    using r(5) that item_JObj by blast
  note defs = rule_hits_def rule_matches_def device_rule_mask_def blast_device_def
  from r(4) have "t = ''device'' \<or> t = ''service'' \<or> t = ''host'' \<or> t = ''cidr'' \<or> t = ''any'' \<or> t = ''role''"
    unfolding match_types_def by (simp only: list.set insert_iff empty_iff simp_thms)
  then consider "t = ''any''" | "t = ''device''" | "t = ''service''" | "t = ''host''" | "t = ''cidr''" | "t = ''role''"
    by satx
  then show ?thesis
  proof cases
    case 1
    show ?thesis by (rule by_hits [of "\<lambda>_. True"]) (simp_all add: 1 it defs)
  next
    case 2
    then obtain v where "item (JObj m) ''value'' = Inr (JStr v)" using val by auto
    then show ?thesis
      by (intro by_hits [of "\<lambda>e. e = v"]) (auto simp: 2 it defs mask_at_bit_table [OF assms(2)])
  next
    case 3
    then obtain v where "item (JObj m) ''value'' = Inr (JStr v)" using val by auto
    then show ?thesis by (intro by_hits [of "\<lambda>e. False"]) (simp_all add: 3 it defs mask_of_False)
  next
    case 4
    then obtain v where "item (JObj m) ''value'' = Inr (JStr v)" using val by auto
    then show ?thesis
      by (intro by_hits [of "\<lambda>e. v = ''0.0.0.0''"]) (simp_all add: 4 it defs mask_of_False neutral_ip_def)
  next
    case 5
    then obtain v n where v: "item (JObj m) ''value'' = Inr (JStr v)" "parse_network v = Some n" using val by auto
    have "parse_ipv4 ''0.0.0.0'' = Some 0" by code_simp
    then have "ip_in neutral_ip v \<longleftrightarrow> in_network 0 n" using v(2) by (simp add: ip_in_def neutral_ip_def)
    then show ?thesis
      using v by (intro by_hits [of "\<lambda>e. in_network 0 n"]) (simp_all add: 5 it defs mask_of_False)
  next
    case 6
    then obtain v where v: "item (JObj m) ''value'' = Inr (JStr v)" using val by auto
    have "rule_hits c roles rule e \<longleftrightarrow> jget roles e = JStr v" for e
      using v by (simp add: 6 it defs assms(3))
    then show ?thesis
      using v by (intro by_hits [of "\<lambda>e. jget roles e = JStr v"]) (simp_all add: 6 it device_rule_mask_def assms(4))
  qed
qed

text \<open>The loop over the rules decides every device at once.\<close>

lemma subject_loop_permits:
  assumes "\<forall>r\<in>set rules. rule_ok r" and xs: "distinct xs" "cr_role_of c = roles"
    "\<And>r. mask_at role_masks r = mask_of xs (\<lambda>x. jget roles x = JStr r)"
  shows "subject_loop rules (mask_of xs (\<lambda>_. True)) (bit_table xs) role_masks (mask_of xs U) (mask_of xs P) =
     Inr (mask_of xs (\<lambda>e. P e \<or> U e \<and> permits_to c roles rules e))"
  using assms(1)
proof (induction rules arbitrary: U P)
  case Nil
  then show ?case by (simp add: mask_of_or permits_to_def)
next
  case (Cons r rules)
  obtain m where m: "item r ''match'' = Inr m"
    "device_rule_mask m (mask_of xs (\<lambda>_. True)) (bit_table xs) role_masks = Inr (mask_of xs (rule_hits c roles r))"
    using device_rule_mask_hits [OF _ xs] Cons.prems by (meson list.set_intros(1))
  obtain a n where a: "item r ''action'' = Inr (JStr a)" "item r ''seq'' = Inr (JInt n)" "a = ''permit'' \<or> a = ''deny''"
    using rule_ok_items Cons.prems by (meson list.set_intros(1))
  have step: "permits_to c roles (r # rules) e \<longleftrightarrow> (if rule_hits c roles r e then a = ''permit'' else permits_to c roles rules e)" for e
  proof -
    obtain b where "rule_matches r (blast_device e) neutral_ip c (jget roles e) = Inr b"
      using rule_matches_total Cons.prems by (meson list.set_intros(1))
    then show ?thesis using a by (cases b) (auto simp: permits_to_def rule_hits_def)
  qed
  let ?P = "\<lambda>e. P e \<or> (a = ''permit'' \<and> U e \<and> rule_hits c roles r e)"
  let ?U = "\<lambda>e. U e \<and> \<not> (U e \<and> rule_hits c roles r e)"
  have perm: "(if JStr a = JStr ''permit'' then mask_of xs P OR mask_of xs (\<lambda>x. U x \<and> rule_hits c roles r x) else mask_of xs P)
      = mask_of xs ?P"
    using a(3) by (auto simp: mask_of_or intro!: mask_of_cong)
  have eq: "subject_loop (r # rules) (mask_of xs (\<lambda>_. True)) (bit_table xs) role_masks (mask_of xs U) (mask_of xs P) =
      (if mask_of xs ?U = 0 then Inr (mask_of xs ?P OR mask_of xs ?U)
       else subject_loop rules (mask_of xs (\<lambda>_. True)) (bit_table xs) role_masks (mask_of xs ?U) (mask_of xs ?P))"
    by (simp only: subject_loop.simps(2) m a(1) rbind_Inr Let_def mask_of_and mask_of_diff perm)
  have goal: "mask_of xs (\<lambda>e. ?P e \<or> ?U e \<and> permits_to c roles rules e)
      = mask_of xs (\<lambda>e. P e \<or> U e \<and> permits_to c roles (r # rules) e)"
    by (rule mask_of_cong) (use a(3) in \<open>auto simp: step\<close>)
  have "mask_of xs ?P OR mask_of xs ?U = mask_of xs (\<lambda>e. ?P e \<or> ?U e \<and> permits_to c roles rules e)"
    if "mask_of xs ?U = 0"
    unfolding mask_of_or using that by (intro mask_of_cong) (auto simp: mask_of_eq_0)
  moreover have "subject_loop rules (mask_of xs (\<lambda>_. True)) (bit_table xs) role_masks (mask_of xs ?U) (mask_of xs ?P)
      = Inr (mask_of xs (\<lambda>e. ?P e \<or> ?U e \<and> permits_to c roles rules e))"
    by (rule Cons.IH) (use Cons.prems in simp)
  ultimately show ?case unfolding eq goal [symmetric] by (auto split: if_split)
qed


section \<open>The preview agrees with the evaluator\<close>

definition acl_of :: "obj \<Rightarrow> compiled_policy \<Rightarrow> string \<Rightarrow> json" where
  "acl_of doc c d = projr (effective_acl_name doc (blast_device d) c)"

definition acl_permits :: "obj \<Rightarrow> compiled_policy \<Rightarrow> json \<Rightarrow> string \<Rightarrow> bool" where
  "acl_permits doc c k e = permits_to c (role_of_map doc) (projr (effective_acl_rules doc k c)) e"

lemma acl_of_facts:
  assumes "doc_ok doc" and "jwf (JObj doc)" and "compile_roles doc = Inr c"
  shows "effective_acl_name doc (blast_device d) c = Inr (acl_of doc c d)"
    and "effective_acl_rules doc (acl_of doc c d) c = Inr (projr (effective_acl_rules doc (acl_of doc c d) c))"
    and "\<forall>r\<in>set (projr (effective_acl_rules doc (acl_of doc c d) c)). rule_ok r"
    and "acl_permits doc c (acl_of doc c d) e \<longleftrightarrow>
      (\<exists>s. evaluate_for doc (blast_device d) (blast_device e) neutral_ip (Some c) = Inr (JStr ''permit'', s))"
  using owner_rules [OF assms, of d] by (auto simp: decides_with_def acl_of_def acl_permits_def permits_to_def)

lemma owner_loop_groups:
  assumes "doc_ok doc" and "jwf (JObj doc)" and "compile_roles doc = Inr c"
  shows "owner_loop doc c (map (\<lambda>d. (d, b d)) ds) (rm, mb) =
     Inr (foldl (\<lambda>m d. case as_str (jget (role_of_map doc) d) of Some k \<Rightarrow> or_at k (b d) m | None \<Rightarrow> m) rm ds,
          foldl (\<lambda>m d. case Some (acl_of doc c d) of Some k \<Rightarrow> or_at k (b d) m | None \<Rightarrow> m) mb ds)"
proof (induction ds arbitrary: rm mb)
  case (Cons d ds)
  have ro: "cr_role_of c = role_of_map doc" by (rule compile_roles_parts(1) [OF assms(3)])
  show ?case
    using role_of_cases [OF assms(1), of d] Cons.IH by (auto simp: acl_of_facts(1) [OF assms] ro)
qed simp

lemma rmap_Inr: "(\<And>x. x \<in> set xs \<Longrightarrow> f x = Inr (g x)) \<Longrightarrow> rmap f xs = Inr (map g xs)"
  by (induction xs) auto

lemma origin_mask_of:
  assumes "distinct xs" and "set (dkeys access) \<subseteq> set xs" and "dwf access"
  shows "origin_mask (bit_table xs) access = Inr (mask_of xs (\<lambda>x. dget access x = Some True))"
proof -
  let ?f = "\<lambda>(d, ok). if ok then mask_of xs (\<lambda>x. x = d) else mask_of xs (\<lambda>_. False)"
  have "dget (bit_table xs) d = Some (mask_of xs (\<lambda>x. x = d))" if "d \<in> set xs" for d
    using that by (simp add: bit_table_mask [OF assms(1)] map_of_map_restrict)
  moreover have "d \<in> set xs" if "(d, ok) \<in> set access" for d ok using that assms(2) by force
  ultimately have r: "rmap (\<lambda>(d, ok). if \<not> ok then Inr 0 else (case dget (bit_table xs) d of
      Some b \<Rightarrow> Inr b | None \<Rightarrow> Inl (PyError KeyError))) access = Inr (map ?f access)"
    by (intro rmap_Inr) (auto simp: mask_of_False)
  have "foldl (OR) 0 (map ?f access) = foldl (\<lambda>acc p. acc OR ?f p) 0 access" by (simp add: foldl_map)
  also have "\<dots> = mask_of xs (\<lambda>x. dget access x = Some True)"
  proof (rule int_bits_eqI)
    fix i
    have "(\<exists>p\<in>set access. bit (?f p) i) \<longleftrightarrow> i < length xs \<and> (xs ! i, True) \<in> set access"
      by (auto split: if_splits intro!: bexI [of _ "(xs ! i, True)"])
    moreover have "(x, True) \<in> set access \<longleftrightarrow> dget access x = Some True" for x
      using assms(3) by (simp add: dwf_def)
    ultimately show "bit (foldl (\<lambda>acc p. acc OR ?f p) 0 access) i = bit (mask_of xs (\<lambda>x. dget access x = Some True)) i"
      by (simp add: bit_foldl_or)
  qed
  finally show ?thesis unfolding origin_mask_def r by simp
qed

lemma permitted_sets_masks:
  assumes ok: "doc_ok doc" and wf: "jwf (JObj doc)" and c: "compile_roles doc = Inr c"
    and ds: "distinct ds" and acc: "set (dkeys access) \<subseteq> set ds" "dwf access"
  shows "permitted_sets doc ds access c = Inr (map (\<lambda>d. (d, dget access d = Some True \<or>
     (\<exists>e\<in>set ds. e \<noteq> d \<and> acl_permits doc c (acl_of doc c d) e \<and> acl_permits doc c (acl_of doc c e) d))) (sort ds))"
proof -
  let ?xs = "sort ds" let ?b = "\<lambda>d. mask_of ?xs (\<lambda>x. x = d)" let ?acl = "acl_of doc c"
  have xs: "distinct ?xs" using ds by simp
  define rm where "rm = group_masks (\<lambda>d. as_str (jget (role_of_map doc) d)) ?b ?xs"
  define mb where "mb = group_masks (\<lambda>d. Some (?acl d)) ?b ?xs"
  have own: "owner_loop doc c (bit_table ?xs) ([], []) = Inr (rm, mb)"
    unfolding bit_table_mask [OF xs] owner_loop_groups [OF ok wf c] rm_def mb_def group_masks_def ..
  have rmk: "mask_at rm r = mask_of ?xs (\<lambda>x. jget (role_of_map doc) x = JStr r)" for r
    unfolding rm_def group_masks_mask_at by (intro mask_of_cong) simp
  have mbs: "set mb = {(k, mask_of ?xs (\<lambda>x. ?acl x = k)) |k. k \<in> ?acl ` set ?xs}"
    unfolding mb_def group_masks_entries [OF refl] option.inject image_iff Bex_def by blast
  have keys: "k \<in> ?acl ` set ?xs" if "(k, m) \<in> set mb" for k m using that unfolding mbs by blast
  have psm: "permitted_subject_mask doc k c (mask_of ?xs (\<lambda>_. True)) (bit_table ?xs) rm = Inr (mask_of ?xs (acl_permits doc c k))"
    if k: "k \<in> ?acl ` set ?xs" for k
  proof -
    obtain d where d: "k = ?acl d" using k by blast
    note f = acl_of_facts [OF ok wf c, of d, folded d]
    have "subject_loop (projr (effective_acl_rules doc k c)) (mask_of ?xs (\<lambda>_. True)) (bit_table ?xs) rm
        (mask_of ?xs (\<lambda>_. True)) (mask_of ?xs (\<lambda>_. False)) = Inr (mask_of ?xs (acl_permits doc c k))"
      unfolding subject_loop_permits [OF f(3) xs compile_roles_parts(1) [OF c] rmk] acl_permits_def by simp
    then show ?thesis unfolding permitted_subject_mask_def by (subst f(2)) (simp only: rbind_Inr mask_of_False)
  qed
  let ?pba = "map (\<lambda>(k, m). (k, mask_of ?xs (acl_permits doc c k))) mb"
  have pba: "rmap (\<lambda>(k, _). rbind (permitted_subject_mask doc k c (mask_of ?xs (\<lambda>_. True)) (bit_table ?xs) rm)
      (\<lambda>m. Inr (k, m))) mb = Inr ?pba"
    by (rule rmap_Inr) (use psm keys in auto)
  have pget: "dget ?pba k = Some (mask_of ?xs (acl_permits doc c k))" if "k \<in> ?acl ` set ?xs" for k
  proof -
    have "(k, mask_of ?xs (\<lambda>x. ?acl x = k)) \<in> set mb" using that unfolding mbs by blast
    from imageI [OF this, of fst] have "k \<in> set (dkeys mb)" by simp
    then show ?thesis by (induction mb) auto
  qed
  have pa: "peer_access ?pba mb = mask_of ?xs (\<lambda>x. \<exists>e\<in>set ?xs. e \<noteq> x \<and> acl_permits doc c (?acl x) e \<and> acl_permits doc c (?acl e) x)"
    by (rule peer_access_mask [OF xs mbs pget])
  have om: "origin_mask (bit_table ?xs) access = Inr (mask_of ?xs (\<lambda>x. dget access x = Some True))"
    using origin_mask_of [OF xs _ acc(2)] acc(1) by simp
  let ?H = "\<lambda>x. dget access x = Some True \<or> (\<exists>e\<in>set ?xs. e \<noteq> x \<and> acl_permits doc c (?acl x) e \<and> acl_permits doc c (?acl e) x)"
  have "permitted_sets doc ds access c = Inr (map (\<lambda>(d, b). (d, mask_of ?xs ?H AND b \<noteq> 0)) (bit_table ?xs))"
    unfolding permitted_sets_def Let_def own rbind_Inr case_prod_conv mask_of_True pba pa om mask_of_or ..
  also have "map (\<lambda>(d, b). (d, mask_of ?xs ?H AND b \<noteq> 0)) (bit_table ?xs) = map (\<lambda>d. (d, ?H d)) ?xs"
    unfolding bit_table_mask [OF xs] mask_of_and map_map by (rule map_cong) (auto simp: mask_of_and mask_of_eq_0)
  finally show ?thesis by simp
qed


lemma mutual_permit_neutral:
  assumes ok: "doc_ok doc" and wf: "jwf (JObj doc)" and c: "compile_roles doc = Inr c"
    and open': "\<not> truthy (jget doc ''_fail_closed'')"
  shows "mutual_permit doc (blast_device d) neutral_ip (blast_device e) neutral_ip (Some c) = Inr True \<longleftrightarrow>
     acl_permits doc c (acl_of doc c d) e \<and> acl_permits doc c (acl_of doc c e) d"
proof -
  obtain c' where "compile_roles doc = Inr c'" "compiled_ok doc c'" using compile_roles_ok [OF ok] by blast
  then have cok: "compiled_ok doc c" using c by simp
  obtain a b where ab: "evaluate_for doc (blast_device d) (blast_device e) neutral_ip (Some c) = Inr a"
    "evaluate_for doc (blast_device e) (blast_device d) neutral_ip (Some c) = Inr b"
    using evaluate_for_total [OF ok cok] by meson
  then show ?thesis
    unfolding acl_of_facts(4) [OF ok wf c] by (cases a; cases b) (simp add: mutual_permit_def open')
qed

lemma origin_access_total:
  assumes "doc_ok doc" and "compile_roles doc = Inr c" shows "\<exists>b. origin_access doc d c = Inr b"
proof -
  obtain c' where "compile_roles doc = Inr c'" "compiled_ok doc c'" using compile_roles_ok [OF assms(1)] by blast
  then have cok: "compiled_ok doc c" using assms(2) by simp
  obtain a b where "evaluate_for doc (blast_device d) blast_seeder neutral_ip (Some c) = Inr a"
    "evaluate_for doc blast_seeder (blast_device d) neutral_ip (Some c) = Inr b"
    using evaluate_for_total [OF assms(1) cok] by meson
  then show ?thesis by (auto simp: origin_access_def mutual_permit_def)
qed

lemma access_table_total:
  assumes "doc_ok doc" and "compile_roles doc = Inr c" and "distinct ds"
  obtains t where "access_table doc c ds = Inr t" and "dkeys t = ds" and "dwf t"
proof
  let ?t = "map (\<lambda>d. (d, projr (origin_access doc d c))) ds"
  have "origin_access doc d c = Inr (projr (origin_access doc d c))" for d
    using origin_access_total [OF assms(1,2), of d] by auto
  then show "access_table doc c ds = Inr ?t"
    unfolding access_table_def by (intro rmap_Inr) (metis rbind_Inr)
  show "dkeys ?t = ds" "dwf ?t" using assms(3) by (simp_all add: comp_def dwf_def)
qed

lemma validated_qos_device:
  assumes "validate_document ttl dv = Inr doc"
  shows "\<exists>qd. as_obj (get_or (roles_section doc) ''qos_device'' (JObj [])) = Some qd"
proof -
  have d: "dv = JObj doc" using assms by (cases dv) (auto simp: validate_document_def res_simps Let_def split: if_splits option.splits)
  show ?thesis
  proof (cases "dget doc ''roles''")
    case None
    then show ?thesis by (simp add: roles_section_def get_or_def)
  next
    case (Some v)
    have "validate_roles ttl v = Inr ()"
      using assms Some unfolding d validate_document_def by (auto simp: res_simps Let_def split: if_splits option.splits)
    then obtain roles where r: "v = JObj roles" "as_obj (get_or roles ''qos_device'' (JObj [])) \<noteq> None"
      by (cases v) (auto simp: validate_roles_def res_simps Let_def split: if_splits option.splits)
    then show ?thesis using Some by (simp add: roles_section_def get_or_def)
  qed
qed


lemma qos_policy_content_total:
  assumes "validate_document ttl dv = Inr doc" shows "\<exists>q. qos_policy_content doc = Inr q"
proof -
  have "\<forall>(n, d)\<in>set (role_defs doc). def_ok (role_defs doc) n d"
    using validate_document_ok [OF assms] unfolding doc_ok_def by blast
  then have "\<exists>d. snd p = JObj d" if "p \<in> set (role_defs doc)" for p using that by (fastforce simp: def_ok_def)
  then have "role_qos_entry p = Inr (projr (role_qos_entry p))" if "p \<in> set (role_defs doc)" for p
    using that by (fastforce simp: role_qos_entry_def)
  then have "rmap role_qos_entry (role_defs doc) = Inr (map (\<lambda>p. projr (role_qos_entry p)) (role_defs doc))"
    by (rule rmap_Inr)
  moreover obtain qd where "as_obj (get_or (roles_section doc) ''qos_device'' (JObj [])) = Some qd"
    using validated_qos_device [OF assms] by blast
  ultimately show ?thesis by (simp add: qos_policy_content_def Let_def)
qed

lemma lost_same [simp]: "\<not> lost t t d"
  by (simp add: lost_def)

lemma count_if_False [simp]: "(\<And>x. x \<in> set xs \<Longrightarrow> \<not> P x) \<Longrightarrow> count_if P xs = 0"
  by (simp add: count_if_def filter_empty_conv)

section \<open>Properties\<close>

text \<open>
  C15. The parallel evaluation on bit masks is exact: for a validated document, a device is reported as
  having a permitted set exactly when it may reach the origin or when some other known device and it
  permit one another under \<^verbatim>\<open>mutual_permit\<close> at the neutral address.
\<close>

theorem permitted_sets_exact:
  assumes "validate_document ttl dv = Inr doc" and "jwf (JObj doc)" and "\<not> truthy (jget doc ''_fail_closed'')"
    and "compile_roles doc = Inr c" and "distinct ds" and "set (dkeys access) \<subseteq> set ds" and "dwf access"
  shows "\<exists>res. permitted_sets doc ds access c = Inr res \<and> dkeys res = sort ds \<and>
     (\<forall>d\<in>set ds. dget res d = Some (dget access d = Some True \<or>
        (\<exists>e\<in>set ds. e \<noteq> d \<and>
           mutual_permit doc (blast_device d) neutral_ip (blast_device e) neutral_ip (Some c) = Inr True)))"
proof -
  have ok: "doc_ok doc" by (rule validate_document_ok [OF assms(1)])
  note eq = permitted_sets_masks [OF ok assms(2,4-7)]
  show ?thesis
    unfolding eq mutual_permit_neutral [OF ok assms(2,4,3)]
    by (intro exI conjI, rule refl) (simp_all add: comp_def map_of_map_restrict)
qed

theorem permitted_sets_exact_witness:
  "\<exists>c res. compile_roles demo_doc = Inr c \<and> permitted_sets demo_doc [''sw3'', ''sw1'', ''sw2''] [(''sw3'', False)] c = Inr res \<and>
     dget res ''sw1'' = Some True \<and> dget res ''sw3'' = Some False"
proof -
  have "\<not> isl (compile_roles demo_doc)" by code_simp
  then obtain c where c: "compile_roles demo_doc = Inr c" by (metis isl_def sum.collapse(2))
  have nf: "\<not> truthy (jget demo_doc ''_fail_closed'')" by code_simp
  let ?ds = "[''sw3'', ''sw1'', ''sw2'']"
  obtain res where res: "permitted_sets demo_doc ?ds [(''sw3'', False)] c = Inr res"
    using permitted_sets_exact [OF demo_doc_valid demo_doc_wf nf c, of ?ds "[(''sw3'', False)]"] by (auto simp: dwf_def)
  have "case rbind (compile_roles demo_doc) (permitted_sets demo_doc ?ds [(''sw3'', False)]) of
      Inr r \<Rightarrow> dget r ''sw1'' = Some True \<and> dget r ''sw3'' = Some False | Inl _ \<Rightarrow> False" by code_simp
  then show ?thesis using c res by (simp only: rbind_Inr sum.case) blast
qed

text \<open>
  A change that changes nothing needs no confirmation: the preview of a validated document against
  itself succeeds, reports no impact of any kind, asks for no confirmation and issues no token.
\<close>

theorem blast_radius_no_change:
  assumes "validate_document ttl dv = Inr doc" and "jwf (JObj doc)" and "0 \<le> t"
  shows "blast_radius ttl digest dv dv (JInt t) = Inr \<lparr>br_member_delta = 0, br_origin_access_lost = 0,
     br_empty_permitted_sets = 0, br_role_pairs_stopped = 0, br_qos_changed = False,
     br_requires_confirmation = False, br_confirm_token = None\<rparr>"
proof -
  have ok: "doc_ok doc" by (rule validate_document_ok [OF assms(1)])
  obtain c where c: "compile_roles doc = Inr c" using compile_roles_ok [OF ok] by blast
  let ?ds = "policy_devices doc doc"
  have ds: "distinct ?ds" by (simp add: policy_devices_def)
  obtain t' where t': "access_table doc c ?ds = Inr t'" "dkeys t' = ?ds" "dwf t'"
    using access_table_total [OF ok c ds] by blast
  obtain r where r: "permitted_sets doc ?ds t' c = Inr r"
    using permitted_sets_masks [OF ok assms(2) c ds _ t'(3)] t'(2) by auto
  obtain q where q: "qos_policy_content doc = Inr q" using qos_policy_content_total [OF assms(1)] by blast
  show ?thesis using assms(1,3) c t' r q by (simp add: blast_radius_def Let_def)
qed

end
