(* ===== verification/Secrets.thy ===== *)
theory Secrets
  imports Json
begin

text \<open>
  \<^verbatim>\<open>server/secrets_store.py\<close>: the store of per-device credentials and of the seeder's announce credential.
  The store is the JSON document the module keeps; an operation that mutates it in place returns the
  new document, and one that raises returns only the error: its callers persist nothing then.  SHA-256, the random generator and the environment's lifetimes are arguments.  Text
  is a list of bytes, so a string that has no UTF-8 encoding does not occur.
\<close>

section \<open>Errors and types of secrets\<close>

datatype sec_error =
    StoreCorruptError
  | DuplicateCredentialError
  | CredentialMintError
  | InstructionKeyError
  | RotationRefused
  | SecPy py_error
  | SecUnmodelled  \<comment> \<open>a list of previous records that is some other kind of value\<close>

type_synonym 'a sres = "sec_error + 'a"

record secret_type =
  st_scope :: string
  st_ttl :: int
  st_bits :: nat

definition SECRET_TYPES :: "int \<Rightarrow> (string, secret_type) dict" where
  \<comment> \<open>the argument is \<^verbatim>\<open>IRIS_TOKEN_TTL\<close>\<close>
  "SECRET_TYPES default_ttl =
     [(''catalog_token'', \<lparr>st_scope = ''catalog'', st_ttl = default_ttl, st_bits = 128\<rparr>),
      (''announce_token'', \<lparr>st_scope = ''announce'', st_ttl = 0, st_bits = 128\<rparr>),
      (''rpc_secret'', \<lparr>st_scope = ''local'', st_ttl = 0, st_bits = 128\<rparr>),
      (''instr_key'', \<lparr>st_scope = ''instructions'', st_ttl = 2592000, st_bits = 256\<rparr>)]"

definition secret_bits :: "(string, nat) dict" where
  "secret_bits = [(''catalog_token'', 128), (''announce_token'', 128), (''rpc_secret'', 128), (''instr_key'', 256)]"

definition INSTR_KEY_TTL :: int where "INSTR_KEY_TTL = 2592000"
definition INSTR_KEY_PREV_TTL :: int where "INSTR_KEY_PREV_TTL = 604800"
definition SUPPORTED_SECRET_BITS :: "nat list" where "SUPPORTED_SECRET_BITS = [128, 256]"
definition SEEDER_PREV_CAP :: nat where "SEEDER_PREV_CAP = 2"

definition INSTRUCTION_RECORD_FIELDS :: "string list" where
  "INSTRUCTION_RECORD_FIELDS = [''value'', ''key_id'', ''created_at'', ''expires_at'', ''revoked'', ''_scope'']"

section \<open>Validity\<close>

definition valid :: "obj \<Rightarrow> rat \<Rightarrow> rat \<Rightarrow> bool sres" where
  "valid record now grace =
     (if truthy (jget record ''revoked'') then Inr False
      else let expires_at = get_or record ''expires_at'' (JInt 0)
           in if py_eq expires_at (JInt 0) then Inr True
              else (case as_num expires_at of
                  None \<Rightarrow> Inl (SecPy TypeError)
                | Some e \<Rightarrow> Inr (now < e + grace)))"

section \<open>Loading\<close>

definition stamp_previous_expiry :: "int \<Rightarrow> obj \<Rightarrow> obj" where
  "stamp_previous_expiry prev_ttl record =
     (if truthy (jget record ''expires_at'') then record
      else let anchor = (if truthy (jget record ''rotated_at'') then jget record ''rotated_at'' else jget record ''created_at'')
           in (case int_of_json anchor of
                 Inr n \<Rightarrow> dset ''expires_at'' (JInt (max 1 (n + prev_ttl))) record
               | Inl _ \<Rightarrow> dset ''expires_at'' (JInt 1) record))"

definition stamp_json :: "int \<Rightarrow> json \<Rightarrow> json" where
  \<comment> \<open>\<^verbatim>\<open>if isinstance(rec, dict): _stamp_previous_expiry(rec)\<close>\<close>
  "stamp_json prev_ttl rec = (case as_obj rec of Some r \<Rightarrow> JObj (stamp_previous_expiry prev_ttl r) | None \<Rightarrow> rec)"

definition get_section :: "obj \<Rightarrow> string \<Rightarrow> obj sres" where
  \<comment> \<open>\<^verbatim>\<open>store.get(k, {})\<close>, used as a dict\<close>
  "get_section store k = (case as_obj (get_or store k (JObj [])) of
      Some d \<Rightarrow> Inr d | None \<Rightarrow> Inl (SecPy AttributeError))"

definition prune_previous_on_load :: "int \<Rightarrow> obj \<Rightarrow> obj sres" where
  "prune_previous_on_load prev_ttl store =
     rbind (get_section store ''seeder'') (\<lambda>seeder.
       (case as_list (jget seeder ''announce_token_previous'') of
          None \<Rightarrow> Inr store
        | Some prev \<Rightarrow>
            rbind (rmap (\<lambda>r. case as_obj r of Some d \<Rightarrow> Inr d | None \<Rightarrow> Inl (SecPy AttributeError))
                     (map (stamp_json prev_ttl) prev)) (\<lambda>recs.
            Inr (dset ''seeder'' (JObj (dset ''announce_token_previous''
                   (JList (map JObj (filter (\<lambda>r. \<not> truthy (jget r ''revoked'')) recs))) seeder)) store))))"

definition load_store :: "int \<Rightarrow> bool \<Rightarrow> file_state \<Rightarrow> obj sres" where
  "load_store prev_ttl require_existing f = (case f of
      Missing \<Rightarrow> if require_existing then Inl StoreCorruptError
                 else Inr [(''devices'', JObj []), (''seeder'', JObj [])]
    | Corrupt \<Rightarrow> Inl StoreCorruptError
    | Content j \<Rightarrow> (case as_obj j of
         None \<Rightarrow> Inl StoreCorruptError
       | Some data \<Rightarrow>
           if require_existing \<and> \<not> has_key data ''devices'' then Inl StoreCorruptError
           else prune_previous_on_load prev_ttl (setdefault ''seeder'' (JObj []) (setdefault ''devices'' (JObj []) data))))"

fun keep_valid :: "json list \<Rightarrow> rat \<Rightarrow> json list sres" where
  \<comment> \<open>\<^verbatim>\<open>[r for r in prev if isinstance(r, dict) and valid(r, now, 0)]\<close>\<close>
  "keep_valid [] now = Inr []"
| "keep_valid (r # rs) now = (case as_obj r of
      None \<Rightarrow> keep_valid rs now
    | Some d \<Rightarrow> rbind (valid d now 0) (\<lambda>b. rbind (keep_valid rs now) (\<lambda>ks. Inr (if b then r # ks else ks))))"

definition retire_expired_previous :: "int \<Rightarrow> obj \<Rightarrow> rat \<Rightarrow> (obj \<times> nat) sres" where
  "retire_expired_previous prev_ttl store now =
     rbind (get_section store ''seeder'') (\<lambda>seeder.
       (case as_list (jget seeder ''announce_token_previous'') of
          None \<Rightarrow> Inr (store, 0)
        | Some prev \<Rightarrow>
            rbind (keep_valid (map (stamp_json prev_ttl) prev) now) (\<lambda>kept.
            Inr (dset ''seeder'' (JObj (dset ''announce_token_previous'' (JList kept) seeder)) store,
                 length prev - length kept))))"

section \<open>Reverse index\<close>

fun hashable :: "json \<Rightarrow> bool" where
  "hashable (JList _) = False"
| "hashable (JObj _) = False"
| "hashable _ = True"

definition index_record :: "string \<Rightarrow> (json, string \<times> string) dict \<Rightarrow> string \<times> json \<Rightarrow> (json, string \<times> string) dict" where
  \<comment> \<open>equal Python values are one key, so keys are kept in normal form\<close>
  "index_record owner index nr = (case as_obj (snd nr) of
      None \<Rightarrow> index
    | Some r \<Rightarrow> (case dget r ''value'' of
         None \<Rightarrow> index
       | Some v \<Rightarrow> if hashable v then dset (pynorm v) (owner, fst nr) index else index))"

definition build_index :: "obj \<Rightarrow> (json, string \<times> string) dict" where
  "build_index store =
     (let devices = obj_or_empty (get_or store ''devices'' (JObj []));
          seeder = obj_or_empty (get_or store ''seeder'' (JObj []));
          index = foldl (\<lambda>ix (device_id, secrets). foldl (index_record device_id) ix (obj_or_empty secrets)) [] devices
      in foldl (index_record ''seeder'') index seeder)"

section \<open>Strict authorization indexes\<close>

record cred_entry =
  ce_principal :: principal
  ce_name :: string
  ce_record :: obj
  ce_legacy :: bool

type_synonym cred_index = "(string, cred_entry) dict"

definition credential_bytes :: "json \<Rightarrow> string option" where
  "credential_bytes value = (case as_str value of Some s \<Rightarrow> if s = [] then None else Some s | None \<Rightarrow> None)"

definition credential_for :: "(string \<Rightarrow> string) \<Rightarrow> cred_index \<Rightarrow> json \<Rightarrow> cred_entry option" where
  "credential_for sha256 index value = (case credential_bytes value of
      None \<Rightarrow> None
    | Some candidate \<Rightarrow> (case dget index (sha256 candidate) of
         None \<Rightarrow> None
       | Some entry \<Rightarrow> if credential_bytes (jget (ce_record entry) ''value'') = Some candidate then Some entry else None))"

definition strict_set :: "(string \<Rightarrow> string) \<Rightarrow> cred_index \<Rightarrow> json \<Rightarrow> cred_entry \<Rightarrow> cred_index sres" where
  "strict_set sha256 index value entry = (case credential_bytes value of
      None \<Rightarrow> Inr index
    | Some candidate \<Rightarrow>
        if dget index (sha256 candidate) \<noteq> None then Inl DuplicateCredentialError
        else Inr (dset (sha256 candidate) entry index))"

definition contains :: "string \<Rightarrow> string \<Rightarrow> bool" where
  \<comment> \<open>the substring test \<^verbatim>\<open>part in s\<close>\<close>
  "contains part s \<longleftrightarrow> list_ex (\<lambda>i. take (length part) (drop i s) = part) [0..<Suc (length s)]"

definition value_member :: "json \<Rightarrow> (obj \<times> json) option sres" where
  \<comment> \<open>\<^verbatim>\<open>"value" in rec\<close> and then \<^verbatim>\<open>rec["value"]\<close>; only a dict has both\<close>
  "value_member rec = (case rec of
      JObj d \<Rightarrow> Inr (map_option (Pair d) (dget d ''value''))
    | JStr s \<Rightarrow> if contains ''value'' s then Inl (SecPy TypeError) else Inr None
    | JList xs \<Rightarrow> if JStr ''value'' \<in> set xs then Inl (SecPy TypeError) else Inr None
    | _ \<Rightarrow> Inl (SecPy TypeError))"

definition claim_value ::
  "(string \<Rightarrow> string) \<Rightarrow> principal \<Rightarrow> string \<Rightarrow> bool \<Rightarrow> cred_index \<Rightarrow> json \<Rightarrow> cred_index sres" where
  \<comment> \<open>index the value a record holds, if any, for its owner\<close>
  "claim_value sha256 owner name legacy index rec =
     rbind (value_member rec) (\<lambda>m. case m of
         None \<Rightarrow> Inr index
       | Some (d, v) \<Rightarrow> strict_set sha256 index v
           \<lparr>ce_principal = owner, ce_name = name, ce_record = d, ce_legacy = legacy\<rparr>)"

definition claim_if ::
  "(string \<Rightarrow> string) \<Rightarrow> principal \<Rightarrow> string \<Rightarrow> cred_index \<Rightarrow> json \<Rightarrow> cred_index sres" where
  \<comment> \<open>\<^verbatim>\<open>if rec and "value" in rec\<close>\<close>
  "claim_if sha256 owner name index rec =
     (if truthy rec then claim_value sha256 owner name False index rec else Inr index)"

definition device_principal :: "string \<Rightarrow> principal" where
  "device_principal d = \<lparr>ptype = ''device'', pid = d\<rparr>"

definition seeder_principal :: principal where
  "seeder_principal = \<lparr>ptype = ''service'', pid = ''seeder''\<rparr>"

definition claim_device ::
  "(string \<Rightarrow> string) \<Rightarrow> string list \<Rightarrow> cred_index \<Rightarrow> string \<times> json \<Rightarrow> cred_index sres" where
  \<comment> \<open>the named records of one device\<close>
  "claim_device sha256 names index ds = (case as_obj (snd ds) of
      None \<Rightarrow> Inl (SecPy AttributeError)
    | Some secrets \<Rightarrow> rfold (\<lambda>ix name. claim_if sha256 (device_principal (fst ds)) name ix (jget secrets name)) index names)"

definition previous_records :: "json \<Rightarrow> json list sres" where
  \<comment> \<open>iterating \<^verbatim>\<open>v or []\<close>; the keys of a dict and the characters of a string are text\<close>
  "previous_records v =
     (if \<not> truthy v then Inr []
      else (case v of
          JList xs \<Rightarrow> Inr xs
        | JObj d \<Rightarrow> Inr (map (\<lambda>k. JStr k) (dkeys d))
        | JStr s \<Rightarrow> Inr (map (\<lambda>c. JStr [c]) s)
        | _ \<Rightarrow> Inl (SecPy TypeError)))"

definition build_announce_index :: "(string \<Rightarrow> string) \<Rightarrow> obj \<Rightarrow> cred_index sres" where
  "build_announce_index sha256 store =
     rbind (get_section store ''devices'') (\<lambda>devices.
     rbind (rfold (claim_device sha256 [''announce_token'']) [] devices) (\<lambda>index1.
     rbind (get_section store ''seeder'') (\<lambda>seeder.
     rbind (claim_if sha256 seeder_principal ''announce_token'' index1 (jget seeder ''announce_token'')) (\<lambda>index2.
     rbind (previous_records (get_or seeder ''announce_token_previous'' (JList []))) (\<lambda>prev.
     rfold (claim_value sha256 seeder_principal ''announce_token_previous'' True) index2 prev)))))"

definition build_catalog_auth_index :: "(string \<Rightarrow> string) \<Rightarrow> obj \<Rightarrow> cred_index sres" where
  "build_catalog_auth_index sha256 store =
     rbind (get_section store ''devices'') (\<lambda>devices.
     rfold (claim_device sha256 [''catalog_token'', ''catalog_token_prev'']) [] devices)"

definition device_announce_value :: "obj \<Rightarrow> string \<Rightarrow> rat \<Rightarrow> rat \<Rightarrow> json sres" where
  "device_announce_value store device_id now grace =
     rbind (get_section store ''devices'') (\<lambda>devices.
     (case as_obj (get_or devices device_id (JObj [])) of
        None \<Rightarrow> Inl (SecPy AttributeError)
      | Some secrets \<Rightarrow> (case as_obj (jget secrets ''announce_token'') of
           None \<Rightarrow> Inr JNull
         | Some rec \<Rightarrow> rbind (valid rec now grace) (\<lambda>b. Inr (if b then jget rec ''value'' else JNull)))))"

section \<open>Instruction-key records\<close>

definition is_hex :: "char \<Rightarrow> bool" where
  "is_hex c \<longleftrightarrow> is_digit c \<or> c \<in> set ''abcdef''"

definition canonical_hex :: "json \<Rightarrow> nat \<Rightarrow> string option" where
  \<comment> \<open>the text of a value that is lower-case hexadecimal of that length\<close>
  "canonical_hex value n = (case as_str value of
      Some s \<Rightarrow> if length s = n \<and> list_all is_hex s then Some s else None | None \<Rightarrow> None)"

definition validate_instruction_key_record :: "(string \<Rightarrow> string) \<Rightarrow> json \<Rightarrow> bool \<Rightarrow> obj sres" where
  \<comment> \<open>\<^verbatim>\<open>key_hash v\<close> is the hexadecimal SHA-256 of the bytes that \<open>v\<close> spells\<close>
  "validate_instruction_key_record key_hash rec previous = (case as_obj rec of
      None \<Rightarrow> Inl InstructionKeyError
    | Some r \<Rightarrow>
       if set (dkeys r) \<noteq> set INSTRUCTION_RECORD_FIELDS then Inl InstructionKeyError
       else (case (canonical_hex (jget r ''value'') 64, canonical_hex (jget r ''key_id'') 64) of
          (Some v, Some key_id) \<Rightarrow>
            if key_id \<noteq> key_hash v then Inl InstructionKeyError
            else (case (as_int (jget r ''created_at''), as_int (jget r ''expires_at'')) of
               (Some created, Some expires) \<Rightarrow>
                  if created < 0 \<or> expires \<le> created \<or> (\<not> previous \<and> expires \<noteq> created + INSTR_KEY_TTL)
                     \<or> as_bool (jget r ''revoked'') = None \<or> jget r ''_scope'' \<noteq> JStr ''instructions''
                  then Inl InstructionKeyError else Inr r
             | _ \<Rightarrow> Inl InstructionKeyError)
        | _ \<Rightarrow> Inl InstructionKeyError))"

definition validate_instruction_key_pair ::
  "(string \<Rightarrow> string) \<Rightarrow> json \<Rightarrow> json option \<Rightarrow> (obj \<times> obj option) sres" where
  "validate_instruction_key_pair key_hash current previous =
     rbind (validate_instruction_key_record key_hash current False) (\<lambda>cur.
     (case previous of
        None \<Rightarrow> Inr (cur, None)
      | Some p \<Rightarrow> rbind (validate_instruction_key_record key_hash p True) (\<lambda>prev.
          if jget cur ''key_id'' = jget prev ''key_id'' \<or> jget cur ''value'' = jget prev ''value''
          then Inl InstructionKeyError else Inr (cur, Some prev))))"

definition instruction_key_projection :: "(string \<Rightarrow> string) \<Rightarrow> json \<Rightarrow> rat option \<Rightarrow> bool \<Rightarrow> obj option sres" where
  \<comment> \<open>\<^verbatim>\<open>now\<close> may be absent\<close>
  "instruction_key_projection key_hash rec now previous =
     rbind (validate_instruction_key_record key_hash rec previous) (\<lambda>r.
       if truthy (jget r ''revoked'') then Inr None
       else if previous \<and> (case now of None \<Rightarrow> True | Some t \<Rightarrow>
               (case as_int (jget r ''expires_at'') of Some e \<Rightarrow> of_int e \<le> t | None \<Rightarrow> True)) then Inr None
       else Inr (Some [(''value'', jget r ''value''), (''key_id'', jget r ''key_id'')]))"

section \<open>Minting\<close>

definition existing_values :: "obj \<Rightarrow> json list sres" where
  "existing_values store =
     rbind (get_section store ''seeder'') (\<lambda>seeder.
     rbind (previous_records (get_or seeder ''announce_token_previous'' (JList []))) (\<lambda>prev.
     Inr (map fst (build_index store)
        @ map pynorm (filter (\<lambda>v. truthy v \<and> hashable v) (List.map_filter (\<lambda>r. map_option (\<lambda>d. jget d ''value'') (as_obj r)) prev)))))"

definition existing_ids :: "obj \<Rightarrow> string list" where
  "existing_ids store = concat (map (\<lambda>(_, records). List.map_filter (\<lambda>(_, r).
      case as_obj r of Some d \<Rightarrow> as_str (jget d ''key_id'') | None \<Rightarrow> None) (obj_or_empty records))
    (obj_or_empty (get_or store ''devices'' (JObj []))))"

fun mint_loop :: "(string \<Rightarrow> string) \<Rightarrow> bool \<Rightarrow> json list \<Rightarrow> string list \<Rightarrow> string list \<Rightarrow> (string \<times> string option) sres" where
  \<comment> \<open>the attempts, one random value each\<close>
  "mint_loop key_hash instr existing ids [] = Inl CredentialMintError"
| "mint_loop key_hash instr existing ids (v # vs) =
     (if JStr v \<in> set existing then mint_loop key_hash instr existing ids vs
      else if \<not> instr then Inr (v, None)
      else if canonical_hex (JStr v) 64 = None then Inl CredentialMintError
      else if key_hash v \<in> set ids then mint_loop key_hash instr existing ids vs
      else Inr (v, Some (key_hash v)))"

definition put_record :: "obj \<Rightarrow> string \<Rightarrow> string \<Rightarrow> obj \<Rightarrow> obj sres" where
  "put_record store device_id secret_name record =
     (if device_id = ''seeder'' then
        (case dget store ''seeder'' of
           None \<Rightarrow> Inl (SecPy KeyError)
         | Some s \<Rightarrow> (case as_obj s of
              None \<Rightarrow> Inl (SecPy TypeError)
            | Some seeder \<Rightarrow> Inr (dset ''seeder'' (JObj (dset secret_name (JObj record) seeder)) store)))
      else
        (case dget store ''devices'' of
           None \<Rightarrow> Inl (SecPy KeyError)
         | Some d \<Rightarrow> (case as_obj d of
              None \<Rightarrow> Inl (SecPy AttributeError)
            | Some devices \<Rightarrow> (case as_obj (get_or devices device_id (JObj [])) of
                 None \<Rightarrow> Inl (SecPy TypeError)
               | Some secrets \<Rightarrow>
                   Inr (dset ''devices'' (JObj (dset device_id (JObj (dset secret_name (JObj record) secrets)) devices)) store)))))"

definition mint_attempts :: nat where "mint_attempts = 128"

definition mint ::
  "int \<Rightarrow> (string \<Rightarrow> string) \<Rightarrow> (nat \<Rightarrow> string) \<Rightarrow> obj \<Rightarrow> string \<Rightarrow> string \<Rightarrow> rat \<Rightarrow> (obj \<times> string) sres" where
  "mint default_ttl key_hash token_hex store device_id secret_name now =
     (case (dget (SECRET_TYPES default_ttl) secret_name, dget secret_bits secret_name) of
        (Some stype, Some bits) \<Rightarrow>
          if st_bits stype \<noteq> bits \<or> bits \<notin> set SUPPORTED_SECRET_BITS then Inl CredentialMintError
          else rbind (existing_values store) (\<lambda>existing.
               rbind (mint_loop key_hash (secret_name = ''instr_key'') existing (existing_ids store)
                        (map token_hex [0..<mint_attempts])) (\<lambda>(value, key_id).
               let inow = py_trunc now;
                   record = [(''value'', JStr value), (''created_at'', JInt inow),
                      (''expires_at'', JInt (if st_ttl stype \<noteq> 0 then inow + st_ttl stype else 0)), (''revoked'', JBool False)]
                      @ (case key_id of Some k \<Rightarrow> [(''key_id'', JStr k), (''_scope'', JStr ''instructions'')] | None \<Rightarrow> [])
               in rbind (put_record store device_id secret_name record) (\<lambda>store'. Inr (store', value))))
      | _ \<Rightarrow> Inl CredentialMintError)"

section \<open>Lookup\<close>

definition record_for :: "(json, string \<times> string) dict \<Rightarrow> obj \<Rightarrow> string \<Rightarrow> (string \<times> string \<times> json) option sres" where
  "record_for index store value = (case dget index (JStr value) of
      None \<Rightarrow> Inr None
    | Some (device_id, secret_name) \<Rightarrow>
        rbind (if device_id = ''seeder'' then
                 (case dget store ''seeder'' of None \<Rightarrow> Inl (SecPy KeyError)
                  | Some s \<Rightarrow> (case as_obj s of None \<Rightarrow> Inl (SecPy AttributeError) | Some d \<Rightarrow> Inr (jget d secret_name)))
               else
                 (case dget store ''devices'' of None \<Rightarrow> Inl (SecPy KeyError)
                  | Some s \<Rightarrow> (case as_obj s of None \<Rightarrow> Inl (SecPy AttributeError)
                      | Some ds \<Rightarrow> (case as_obj (get_or ds device_id (JObj [])) of
                           None \<Rightarrow> Inl (SecPy AttributeError) | Some d \<Rightarrow> Inr (jget d secret_name)))))
          (\<lambda>record. Inr (if record = JNull then None else Some (device_id, secret_name, record))))"

section \<open>Rotation\<close>

definition rotation_pair :: "(string \<Rightarrow> string) \<Rightarrow> obj \<Rightarrow> string \<Rightarrow> (obj \<times> obj \<times> obj option) sres" where
  \<comment> \<open>the checks of \<^verbatim>\<open>rotate_instruction_key\<close> up to the rotation time: the device's records, its current key
      and its previous key\<close>
  "rotation_pair key_hash store device_id =
     (if device_id = [] \<or> device_id = ''seeder'' then Inl InstructionKeyError
      else (case as_obj (jget store ''devices'') of
         None \<Rightarrow> Inl InstructionKeyError
       | Some devices \<Rightarrow> (case dget devices device_id of
          None \<Rightarrow> Inl InstructionKeyError
        | Some rv \<Rightarrow> (case as_obj rv of
           None \<Rightarrow> Inl InstructionKeyError
         | Some records \<Rightarrow>
            if list_ex (\<lambda>(_, r). case as_obj r of Some d \<Rightarrow> truthy (jget d ''revoked'') | None \<Rightarrow> False) records
            then Inl InstructionKeyError
            else (case dget records ''instr_key'' of
               None \<Rightarrow> Inl InstructionKeyError
             | Some cur \<Rightarrow>
                rbind (validate_instruction_key_pair key_hash cur (dget records ''instr_key_prev'')) (\<lambda>(current, previous).
                if (case previous of Some p \<Rightarrow> truthy (jget p ''revoked'') | None \<Rightarrow> False) then Inl InstructionKeyError
                else Inr (records, current, previous)))))))"

definition int_field :: "obj \<Rightarrow> string \<Rightarrow> int" where
  \<comment> \<open>a field the record validator has found to be an integer\<close>
  "int_field r k = (case as_int (jget r k) of Some n \<Rightarrow> n | None \<Rightarrow> 0)"

definition keep_archived :: "string \<Rightarrow> obj option \<Rightarrow> obj \<Rightarrow> obj \<times> json" where
  \<comment> \<open>after minting: keep the archived key, if any, and return the identity of the new one\<close>
  "keep_archived device_id archived minted =
     (let devices = obj_or_empty (jget minted ''devices'');
          records = obj_or_empty (jget devices device_id);
          records' = (case archived of Some a \<Rightarrow> dset ''instr_key_prev'' (JObj a) records | None \<Rightarrow> records)
      in (dset ''devices'' (JObj (dset device_id (JObj records') devices)) minted,
          jget (obj_or_empty (jget records' ''instr_key'')) ''key_id''))"

definition rotate_instruction_key ::
  "int \<Rightarrow> (string \<Rightarrow> string) \<Rightarrow> (nat \<Rightarrow> string) \<Rightarrow> obj \<Rightarrow> string \<Rightarrow> rat \<Rightarrow> bool \<Rightarrow> (obj \<times> json) sres" where
  "rotate_instruction_key default_ttl key_hash token_hex store device_id now no_overlap =
     rbind (rotation_pair key_hash store device_id) (\<lambda>(records, current, previous).
     let inow = py_trunc now
     in if inow < 0 then Inl InstructionKeyError
        else if \<not> no_overlap \<and> (case previous of Some p \<Rightarrow> inow < int_field p ''expires_at'' | None \<Rightarrow> False)
        then Inl InstructionKeyError
        else if \<not> no_overlap \<and> inow + INSTR_KEY_PREV_TTL \<le> int_field current ''created_at'' then Inl InstructionKeyError
        else
          let archived = dset ''expires_at'' (JInt (inow + INSTR_KEY_PREV_TTL)) current;
              devices = obj_or_empty (jget store ''devices'');
              popped = dset ''devices'' (JObj (dset device_id (JObj (ddel ''instr_key_prev'' records)) devices)) store
          in rbind (mint default_ttl key_hash token_hex popped device_id ''instr_key'' (of_int inow)) (\<lambda>(minted, _).
             Inr (keep_archived device_id (if no_overlap then None else Some archived) minted)))"

definition rotate_catalog ::
  "int \<Rightarrow> (string \<Rightarrow> string) \<Rightarrow> (nat \<Rightarrow> string) \<Rightarrow> obj \<Rightarrow> string \<Rightarrow> rat \<Rightarrow> int \<Rightarrow> (obj \<times> string \<times> obj option) sres" where
  \<comment> \<open>the old record is mutated and then dropped from its slot; a caller that kept a reference to it sees
      the shortened expiry, so it is returned as well\<close>
  "rotate_catalog default_ttl key_hash token_hex store device_id now overlap =
     (case dget store ''devices'' of
        None \<Rightarrow> Inl (SecPy KeyError)
      | Some dv \<Rightarrow> (case as_obj dv of
         None \<Rightarrow> Inl (SecPy AttributeError)
       | Some devices \<Rightarrow> (case as_obj (get_or devices device_id (JObj [])) of
          None \<Rightarrow> Inl (SecPy AttributeError)
        | Some secrets \<Rightarrow>
           let old = jget secrets ''catalog_token''
           in if old = JNull then
                rbind (mint default_ttl key_hash token_hex store device_id ''catalog_token'' now) (\<lambda>(st, v). Inr (st, v, None))
              else (case as_obj old of
                 None \<Rightarrow> Inl (SecPy TypeError)
               | Some old_record \<Rightarrow>
                  let retired = dset ''expires_at'' (JInt (py_trunc now + overlap)) old_record;
                      store' = dset ''devices'' (JObj (dset device_id
                         (JObj (dset ''catalog_token'' (JObj retired) secrets)) devices)) store
                  in rbind (mint default_ttl key_hash token_hex store' device_id ''catalog_token'' now)
                       (\<lambda>(st, v). Inr (st, v, Some retired))))))"

definition rotate_announce ::
  "int \<Rightarrow> int \<Rightarrow> (string \<Rightarrow> string) \<Rightarrow> (nat \<Rightarrow> string) \<Rightarrow> string \<Rightarrow> obj \<Rightarrow> rat \<Rightarrow> (obj \<times> string) sres" where
  "rotate_announce prev_ttl default_ttl key_hash token_hex record_id store now =
     (case as_obj (get_or store ''seeder'' (JObj [])) of
        None \<Rightarrow> Inl (SecPy AttributeError)
      | Some seeder0 \<Rightarrow>
         let store1 = dset ''seeder'' (JObj (setdefault ''announce_token_previous'' (JList []) seeder0)) store
         in rbind (retire_expired_previous prev_ttl store1 now) (\<lambda>(store2, _).
            let seeder = obj_or_empty (jget store2 ''seeder'')
            in (case as_list (jget seeder ''announce_token_previous'') of
                  None \<Rightarrow> Inl SecUnmodelled
                | Some prev \<Rightarrow>
                   rbind (keep_valid prev now) (\<lambda>valid_prev.
                   if length valid_prev \<ge> SEEDER_PREV_CAP then Inl RotationRefused
                   else
                     rbind (if jget seeder ''announce_token'' = JNull then Inr store2
                            else rbind (value_member (jget seeder ''announce_token'')) (\<lambda>m. case m of
                               None \<Rightarrow> Inr store2
                             | Some (current, _) \<Rightarrow>
                                let archived = dset ''expires_at'' (JInt (max 1 (py_trunc now + prev_ttl)))
                                      (setdefault ''revoked'' (JBool False)
                                        (dset ''record_id'' (JStr record_id) (dset ''rotated_at'' (JInt (py_trunc now)) current)))
                                in Inr (dset ''seeder'' (JObj (dset ''announce_token_previous''
                                      (JList (JObj archived # prev)) seeder)) store2)))
                       (\<lambda>store3. mint default_ttl key_hash token_hex store3 ''seeder'' ''announce_token'' now)))))"

section \<open>Revocation\<close>

definition revoke_record :: "json \<Rightarrow> json" where
  "revoke_record r = (case as_obj r of Some d \<Rightarrow> JObj (dset ''revoked'' (JBool True) d) | None \<Rightarrow> r)"

definition revoke :: "obj \<Rightarrow> string \<Rightarrow> obj sres" where
  "revoke store device_id = (case dget store ''devices'' of
      None \<Rightarrow> Inl (SecPy KeyError)
    | Some dv \<Rightarrow> (case as_obj dv of
       None \<Rightarrow> Inl (SecPy AttributeError)
     | Some devices \<Rightarrow>
        if jget devices device_id = JNull then Inr store
        else (case as_obj (jget devices device_id) of
           None \<Rightarrow> Inl (SecPy AttributeError)
         | Some secrets \<Rightarrow> Inr (dset ''devices''
              (JObj (dset device_id (JObj (map (\<lambda>(n, r). (n, revoke_record r)) secrets)) devices)) store))))"

definition revoked_device_principals :: "obj \<Rightarrow> string list" where
  "revoked_device_principals store =
     map (\<lambda>(d, _). ''device:'' @ d)
       (filter (\<lambda>(_, records). case as_obj records of
            None \<Rightarrow> False
          | Some rs \<Rightarrow> rs \<noteq> [] \<and> list_all (\<lambda>(_, rec). case as_obj rec of
                Some r \<Rightarrow> truthy (jget r ''revoked'') | None \<Rightarrow> False) rs)
         (obj_or_empty (get_or store ''devices'' (JObj []))))"

fun revoke_first :: "(obj \<Rightarrow> bool) \<Rightarrow> json list \<Rightarrow> json list sres" where
  \<comment> \<open>set \<^verbatim>\<open>revoked\<close> on the first matching record\<close>
  "revoke_first hit [] = Inr []"
| "revoke_first hit (r # rs) = (case as_obj r of
      None \<Rightarrow> Inl (SecPy AttributeError)
    | Some d \<Rightarrow> if hit d then Inr (JObj (dset ''revoked'' (JBool True) d) # rs)
                else rbind (revoke_first hit rs) (\<lambda>rs'. Inr (r # rs')))"

definition revoke_previous :: "(obj \<Rightarrow> bool) \<Rightarrow> obj \<Rightarrow> obj sres" where
  "revoke_previous hit store =
     rbind (get_section store ''seeder'') (\<lambda>seeder.
     (case as_list (get_or seeder ''announce_token_previous'' (JList [])) of
        None \<Rightarrow> if truthy (jget seeder ''announce_token_previous'') then Inl SecUnmodelled else Inr store
      | Some prev \<Rightarrow>
         rbind (revoke_first hit prev) (\<lambda>prev'.
         Inr (if prev = [] then store
              else dset ''seeder'' (JObj (dset ''announce_token_previous'' (JList prev') seeder)) store))))"

definition revoke_announce_value :: "obj \<Rightarrow> json \<Rightarrow> obj sres" where
  "revoke_announce_value store value =
     rbind (get_section store ''seeder'') (\<lambda>seeder.
     let current = jget seeder ''announce_token''
     in if current = JNull then revoke_previous (\<lambda>d. py_eq (jget d ''value'') value) store
        else (case as_obj current of
           None \<Rightarrow> Inl (SecPy AttributeError)
         | Some c \<Rightarrow>
            if py_eq (jget c ''value'') value
            then Inr (dset ''seeder'' (JObj (dset ''announce_token'' (JObj (dset ''revoked'' (JBool True) c)) seeder)) store)
            else revoke_previous (\<lambda>d. py_eq (jget d ''value'') value) store))"

definition revoke_announce_record :: "obj \<Rightarrow> json \<Rightarrow> obj sres" where
  "revoke_announce_record store record_id = revoke_previous (\<lambda>d. py_eq (jget d ''record_id'') record_id) store"

end
