(* ===== verification/Auth.thy ===== *)
theory Auth
  imports Secrets Ipv4
begin

text \<open>
  \<^verbatim>\<open>server/auth.py\<close>: resolving the credential of an announce or of a catalog request to a typed principal.
  The query-string parser of the standard library is modelled on bytes.
\<close>

section \<open>Query strings\<close>

definition hex_val :: "char \<Rightarrow> nat option" where
  "hex_val c = (let n = of_char c :: nat
     in if 48 \<le> n \<and> n \<le> 57 then Some (n - 48)
        else if 97 \<le> n \<and> n \<le> 102 then Some (n - 87)
        else if 65 \<le> n \<and> n \<le> 70 then Some (n - 55) else None)"

fun unquote :: "string \<Rightarrow> string" where
  \<comment> \<open>percent decoding; anything that is not an escape stays\<close>
  "unquote (c # a # b # s) =
     (if c = CHR ''%'' then
        (case (hex_val a, hex_val b) of
           (Some x, Some y) \<Rightarrow> char_of (16 * x + y) # unquote s
         | _ \<Rightarrow> c # unquote (a # b # s))
      else c # unquote (a # b # s))"
| "unquote (c # s) = c # unquote s"
| "unquote [] = []"

definition plus_to_space :: "string \<Rightarrow> string" where
  "plus_to_space s = map (\<lambda>c. if c = CHR ''+'' then CHR '' '' else c) s"

definition split_pair :: "string \<Rightarrow> string \<times> string" where
  \<comment> \<open>\<^verbatim>\<open>split("=", 1)\<close>, with an absent value read as blank\<close>
  "split_pair s = (case find_in (CHR ''='') s of
      Some i \<Rightarrow> (take i s, drop (Suc i) s) | None \<Rightarrow> (s, []))"

definition parse_qsl :: "string \<Rightarrow> (string \<times> string) list" where
  \<comment> \<open>with \<^verbatim>\<open>keep_blank_values\<close>\<close>
  "parse_qsl query = map (\<lambda>s. case split_pair s of (n, v) \<Rightarrow> (unquote (plus_to_space n), unquote (plus_to_space v)))
     (filter (\<lambda>s. s \<noteq> []) (split_on (CHR ''&'') query))"

section \<open>Contexts\<close>

record auth_context =
  ac_principal :: principal
  ac_secret_name :: string
  ac_scope :: string

datatype auth_error = AnnounceAuthError bool | AuthSec sec_error

type_synonym 'a ares = "auth_error + 'a"

definition lift_sec :: "'a sres \<Rightarrow> 'a ares" where
  "lift_sec m = (case m of Inl e \<Rightarrow> Inl (AuthSec e) | Inr x \<Rightarrow> Inr x)"

definition DEDICATED_PARAM :: string where "DEDICATED_PARAM = ''announce_token''"
definition LEGACY_PARAM :: string where "LEGACY_PARAM = ''key''"

definition raw_pairs :: "string \<Rightarrow> (string \<times> string) list" where
  "raw_pairs query = parse_qsl query"

definition resolve_valid_credential ::
  "(string \<Rightarrow> string) \<Rightarrow> cred_index \<Rightarrow> string \<Rightarrow> rat \<Rightarrow> rat \<Rightarrow> cred_entry option ares" where
  "resolve_valid_credential sha256 index value now grace = (case credential_for sha256 index (JStr value) of
      None \<Rightarrow> Inr None
    | Some entry \<Rightarrow> rbind (lift_sec (valid (ce_record entry) now grace)) (\<lambda>b. Inr (if b then Some entry else None)))"

definition record_expired :: "obj \<Rightarrow> rat \<Rightarrow> rat \<Rightarrow> bool ares" where
  "record_expired record now grace =
     (if truthy (jget record ''revoked'') then Inr False
      else let expires_at = get_or record ''expires_at'' (JInt 0)
           in if py_eq expires_at (JInt 0) then Inr False
              else (case as_num expires_at of
                  None \<Rightarrow> Inl (AuthSec (SecPy TypeError)) | Some e \<Rightarrow> Inr (now \<ge> e + grace)))"

definition known_expired :: "(string \<Rightarrow> string) \<Rightarrow> cred_index \<Rightarrow> string \<Rightarrow> rat \<Rightarrow> rat \<Rightarrow> bool ares" where
  "known_expired sha256 index value now grace = (case credential_for sha256 index (JStr value) of
      None \<Rightarrow> Inr False | Some entry \<Rightarrow> record_expired (ce_record entry) now grace)"

definition context_of :: "cred_entry \<Rightarrow> string option \<Rightarrow> auth_context" where
  "context_of resolved legacy_id =
     \<lparr>ac_principal = (if ce_legacy resolved
        then \<lparr>ptype = ''legacy'', pid = (case legacy_id of Some i \<Rightarrow> i | None \<Rightarrow> [])\<rparr> else ce_principal resolved),
      ac_secret_name = ce_name resolved, ac_scope = ''announce''\<rparr>"

section \<open>Announce credentials\<close>

fun any_expired :: "(string \<Rightarrow> string) \<Rightarrow> cred_index \<Rightarrow> string list \<Rightarrow> rat \<Rightarrow> rat \<Rightarrow> bool ares" where
  "any_expired sha256 index [] now grace = Inr False"
| "any_expired sha256 index (v # vs) now grace =
     rbind (known_expired sha256 index v now grace) (\<lambda>b. if b then Inr True else any_expired sha256 index vs now grace)"

definition legacy_hits :: "(string \<Rightarrow> string) \<Rightarrow> cred_index \<Rightarrow> string list \<Rightarrow> rat \<Rightarrow> rat \<Rightarrow> cred_entry list ares" where
  "legacy_hits sha256 index values now grace =
     rbind (rmap (\<lambda>v. resolve_valid_credential sha256 index v now grace) values) (\<lambda>rs. Inr (List.map_filter id rs))"

definition resolve_announce_principal ::
  "(string \<Rightarrow> string) \<Rightarrow> string \<Rightarrow> cred_index \<Rightarrow> rat \<Rightarrow> rat \<Rightarrow> string option \<Rightarrow> auth_context ares" where
  "resolve_announce_principal sha256 query index now grace legacy_id =
     (let pairs = raw_pairs query;
          dedicated = map snd (filter (\<lambda>(k, _). k = DEDICATED_PARAM) pairs)
      in if length dedicated \<ge> 2 then Inl (AnnounceAuthError False)
         else if length dedicated = 1 \<and> hd dedicated \<noteq> [] then
           rbind (resolve_valid_credential sha256 index (hd dedicated) now grace) (\<lambda>resolved. case resolved of
               None \<Rightarrow> rbind (known_expired sha256 index (hd dedicated) now grace) (\<lambda>x. Inl (AnnounceAuthError x))
             | Some entry \<Rightarrow> Inr (context_of entry legacy_id))
         else
           let legacy_values = remdups (map snd (filter (\<lambda>(k, v). k = LEGACY_PARAM \<and> v \<noteq> []) pairs))
           in rbind (legacy_hits sha256 index legacy_values now grace) (\<lambda>hits. case hits of
                [entry] \<Rightarrow> Inr (context_of entry legacy_id)
              | [] \<Rightarrow> rbind (any_expired sha256 index legacy_values now grace) (\<lambda>x. Inl (AnnounceAuthError x))
              | _ \<Rightarrow> Inl (AnnounceAuthError False)))"

definition resolve_announce_bearer ::
  "(string \<Rightarrow> string) \<Rightarrow> json \<Rightarrow> cred_index \<Rightarrow> rat \<Rightarrow> rat \<Rightarrow> string option \<Rightarrow> auth_context ares" where
  "resolve_announce_bearer sha256 token index now grace legacy_id =
     (if credential_bytes token = None then Inl (AnnounceAuthError False)
      else (case credential_for sha256 index token of
         None \<Rightarrow> Inl (AnnounceAuthError False)
       | Some entry \<Rightarrow> rbind (lift_sec (valid (ce_record entry) now grace)) (\<lambda>ok.
            if ok then Inr (context_of entry legacy_id)
            else rbind (record_expired (ce_record entry) now grace) (\<lambda>x. Inl (AnnounceAuthError x)))))"

section \<open>Catalog credentials\<close>

definition resolve_catalog_auth ::
  "(string \<Rightarrow> string) \<Rightarrow> cred_index \<Rightarrow> json \<Rightarrow> rat \<Rightarrow> rat \<Rightarrow> auth_context option sres" where
  "resolve_catalog_auth sha256 index token now grace = (case credential_for sha256 index token of
      None \<Rightarrow> Inr None
    | Some entry \<Rightarrow> rbind (valid (ce_record entry) now grace) (\<lambda>ok. Inr (if \<not> ok then None
        else Some \<lparr>ac_principal = ce_principal entry, ac_secret_name = ce_name entry, ac_scope = ''catalog''\<rparr>)))"

section \<open>Broad lookups\<close>

definition record_valid :: "json \<Rightarrow> rat \<Rightarrow> rat \<Rightarrow> bool sres" where
  "record_valid record now grace = (case as_obj record of
      Some r \<Rightarrow> valid r now grace | None \<Rightarrow> Inl (SecPy AttributeError))"

definition scope_is :: "int \<Rightarrow> string \<Rightarrow> string \<Rightarrow> bool" where
  "scope_is default_ttl secret_name scope = (case dget (SECRET_TYPES default_ttl) secret_name of
      None \<Rightarrow> False | Some stype \<Rightarrow> st_scope stype = scope)"

definition authorize ::
  "int \<Rightarrow> (json, string \<times> string) dict \<Rightarrow> obj \<Rightarrow> string \<Rightarrow> string \<Rightarrow> string \<Rightarrow> rat \<Rightarrow> rat \<Rightarrow> bool sres" where
  "authorize default_ttl index store token device_id scope now grace =
     rbind (record_for index store token) (\<lambda>res. case res of
         None \<Rightarrow> Inr False
       | Some (rec_device_id, secret_name, record) \<Rightarrow>
           rbind (record_valid record now grace) (\<lambda>ok.
             Inr (ok \<and> rec_device_id = device_id \<and> scope_is default_ttl secret_name scope)))"

definition check_announce_key ::
  "int \<Rightarrow> string \<Rightarrow> (json, string \<times> string) dict \<Rightarrow> obj \<Rightarrow> rat \<Rightarrow> rat \<Rightarrow> bool sres" where
  \<comment> \<open>\<^verbatim>\<open>parse_qs\<close> drops blank values\<close>
  "check_announce_key default_ttl query index store now grace =
     (case filter (\<lambda>(k, v). k = LEGACY_PARAM \<and> v \<noteq> []) (parse_qsl query) of
        [] \<Rightarrow> Inr False
      | (_, key) # _ \<Rightarrow> rbind (record_for index store key) (\<lambda>res. case res of
           None \<Rightarrow> Inr False
         | Some (_, secret_name, record) \<Rightarrow>
             rbind (record_valid record now grace) (\<lambda>ok. Inr (ok \<and> scope_is default_ttl secret_name ''announce''))))"

end
