(* ===== verification/Auth_Properties.thy ===== *)
theory Auth_Properties
  imports Auth
begin

text \<open>
  The strict indexes are exactly the credentials of the store, whatever the hash; what the resolvers
  accept is a live record of the principal they name; revocation takes effect everywhere.
\<close>

section \<open>The claims of a store\<close>

definition entry_bytes :: "cred_entry \<Rightarrow> string option" where
  "entry_bytes e = credential_bytes (jget (ce_record e) ''value'')"

text \<open>
  An index extended by a set of entries: every old entry stays, and each new entry that has a usable
  value is found under the digest of that value.
\<close>

definition extends :: "(string \<Rightarrow> string) \<Rightarrow> cred_index \<Rightarrow> cred_entry set \<Rightarrow> cred_index \<Rightarrow> bool" where
  "extends sha ix C ix' \<longleftrightarrow> (\<forall>k e. dget ix' k = Some e \<longleftrightarrow>
     dget ix k = Some e \<or> e \<in> C \<and> map_option sha (entry_bytes e) = Some k)"

lemma extends_refl: "extends sha ix {} ix"
  by (simp add: extends_def)

lemma extends_trans: "extends sha ix C ix' \<Longrightarrow> extends sha ix' D ix'' \<Longrightarrow> extends sha ix (C \<union> D) ix''"
  by (auto simp: extends_def)

lemma strict_set_extends:
  assumes "strict_set sha ix v e = Inr ix'" and "jget (ce_record e) ''value'' = v"
  shows "extends sha ix {e} ix'"
  using assms by (auto simp: strict_set_def extends_def entry_bytes_def split: option.splits if_splits)

definition claims_of :: "principal \<Rightarrow> string \<Rightarrow> bool \<Rightarrow> json \<Rightarrow> cred_entry set" where
  "claims_of owner name legacy rec =
     {\<lparr>ce_principal = owner, ce_name = name, ce_record = d, ce_legacy = legacy\<rparr> |d. rec = JObj d \<and> has_key d ''value''}"

lemma claim_value_extends:
  assumes "claim_value sha owner name legacy ix rec = Inr ix'"
  shows "extends sha ix (claims_of owner name legacy rec) ix'"
proof (cases "\<exists>d v. rec = JObj d \<and> dget d ''value'' = Some v")
  case True
  then obtain d v where d: "rec = JObj d" "dget d ''value'' = Some v" by blast
  let ?e = "\<lparr>ce_principal = owner, ce_name = name, ce_record = d, ce_legacy = legacy\<rparr>"
  have "claims_of owner name legacy rec = {?e}" using d by (auto simp: claims_of_def has_key_dget)
  moreover have "strict_set sha ix v ?e = Inr ix'"
    using assms d by (simp add: claim_value_def value_member_def)
  ultimately show ?thesis using strict_set_extends [of sha ix v ?e ix'] d by (simp add: get_or_def)
next
  case False
  then have "claims_of owner name legacy rec = {}" by (auto simp: claims_of_def has_key_dget)
  moreover have "ix' = ix"
    using assms False by (auto simp: claim_value_def value_member_def rbind_eq_Inr split: json.splits option.splits if_splits)
  ultimately show ?thesis by (simp add: extends_refl)
qed

lemma claim_if_extends:
  assumes "claim_if sha owner name ix rec = Inr ix'"
  shows "extends sha ix (claims_of owner name False rec) ix'"
proof (cases "truthy rec")
  case True
  then show ?thesis using assms claim_value_extends by (simp add: claim_if_def)
next
  case False
  then have "claims_of owner name False rec = {}" by (cases rec) (auto simp: claims_of_def has_key_def)
  then show ?thesis using assms False by (simp add: claim_if_def extends_refl)
qed

lemma rfold_extends:
  assumes "\<And>ix x ix'. x \<in> set xs \<Longrightarrow> f ix x = Inr ix' \<Longrightarrow> extends sha ix (C x) ix'"
  shows "rfold f ix xs = Inr ix' \<Longrightarrow> extends sha ix (\<Union>x\<in>set xs. C x) ix'"
  using assms
proof (induction xs arbitrary: ix)
  case Nil
  then show ?case by (simp add: extends_refl)
next
  case (Cons x xs)
  then obtain iy where "f ix x = Inr iy" "rfold f iy xs = Inr ix'" by (auto simp: rbind_eq_Inr)
  with Cons extends_trans [of sha ix "C x" iy] show ?case by simp
qed

definition device_claims :: "string list \<Rightarrow> string \<times> json \<Rightarrow> cred_entry set" where
  "device_claims names ds = (\<Union>name\<in>set names. claims_of (device_principal (fst ds)) name False (jget (obj_or_empty (snd ds)) name))"

lemma claim_device_extends:
  assumes "claim_device sha names ix ds = Inr ix'" shows "extends sha ix (device_claims names ds) ix'"
proof -
  obtain secrets where s: "snd ds = JObj secrets"
    "rfold (\<lambda>ix name. claim_if sha (device_principal (fst ds)) name ix (jget secrets name)) ix names = Inr ix'"
    using assms by (auto simp: claim_device_def split: option.splits)
  show ?thesis unfolding device_claims_def s obj_or_empty_simps
    by (rule rfold_extends [OF claim_if_extends s(2)])
qed

definition section_of :: "obj \<Rightarrow> string \<Rightarrow> obj" where
  "section_of store k = obj_or_empty (get_or store k (JObj []))"

lemma get_section_Inr: "get_section store k = Inr d \<Longrightarrow> section_of store k = d"
  by (auto simp: get_section_def section_of_def split: option.splits)

definition previous_of :: "obj \<Rightarrow> json list" where
  "previous_of store = (case get_or (section_of store ''seeder'') ''announce_token_previous'' (JList []) of
     JList xs \<Rightarrow> xs | _ \<Rightarrow> [])"

text \<open>Every record that may authenticate an announce, with its owner.\<close>

definition announce_claims :: "obj \<Rightarrow> cred_entry set" where
  "announce_claims store =
     (\<Union>ds\<in>set (section_of store ''devices''). device_claims [''announce_token''] ds)
     \<union> claims_of seeder_principal ''announce_token'' False (jget (section_of store ''seeder'') ''announce_token'')
     \<union> (\<Union>r\<in>set (previous_of store). claims_of seeder_principal ''announce_token_previous'' True r)"

definition catalog_claims :: "obj \<Rightarrow> cred_entry set" where
  "catalog_claims store =
     (\<Union>ds\<in>set (section_of store ''devices''). device_claims [''catalog_token'', ''catalog_token_prev''] ds)"

lemma previous_claims:
  assumes "previous_records v = Inr prev"
  shows "(\<Union>r\<in>set prev. claims_of p n l r) = (\<Union>r\<in>set (case v of JList xs \<Rightarrow> xs | _ \<Rightarrow> []). claims_of p n l r)"
  using assms by (cases v) (auto simp: previous_records_def claims_of_def split: if_splits)

lemma announce_index_extends:
  assumes "build_announce_index sha store = Inr ix" shows "extends sha [] (announce_claims store) ix"
proof -
  obtain devices i1 seeder i2 prev where s: "get_section store ''devices'' = Inr devices"
    "rfold (claim_device sha [''announce_token'']) [] devices = Inr i1" "get_section store ''seeder'' = Inr seeder"
    "claim_if sha seeder_principal ''announce_token'' i1 (jget seeder ''announce_token'') = Inr i2"
    "previous_records (get_or seeder ''announce_token_previous'' (JList [])) = Inr prev"
    "rfold (claim_value sha seeder_principal ''announce_token_previous'' True) i2 prev = Inr ix"
    using assms by (auto simp: build_announce_index_def rbind_eq_Inr)
  have "extends sha i2 (\<Union>r\<in>set prev. claims_of seeder_principal ''announce_token_previous'' True r) ix"
    by (rule rfold_extends [OF claim_value_extends s(6)])
  moreover have "extends sha [] (\<Union>ds\<in>set devices. device_claims [''announce_token''] ds) i1"
    by (rule rfold_extends [OF claim_device_extends s(2)])
  ultimately show ?thesis
    unfolding announce_claims_def previous_of_def get_section_Inr [OF s(1)] get_section_Inr [OF s(3)]
      previous_claims [OF s(5), symmetric]
    using extends_trans claim_if_extends [OF s(4)] by blast
qed

lemma catalog_index_extends:
  assumes "build_catalog_auth_index sha store = Inr ix" shows "extends sha [] (catalog_claims store) ix"
proof -
  obtain devices where s: "get_section store ''devices'' = Inr devices"
    "rfold (claim_device sha [''catalog_token'', ''catalog_token_prev'']) [] devices = Inr ix"
    using assms by (auto simp: build_catalog_auth_index_def rbind_eq_Inr)
  show ?thesis unfolding catalog_claims_def get_section_Inr [OF s(1)]
    by (rule rfold_extends [OF claim_device_extends s(2)])
qed

text \<open>Looking a token up in an index that holds a set of claims.\<close>

lemma credential_for_exact:
  assumes "extends sha [] C ix"
  shows "credential_for sha ix (JStr v) = Some e \<longleftrightarrow> e \<in> C \<and> entry_bytes e = Some v"
proof -
  have ix: "dget ix k = Some x \<longleftrightarrow> x \<in> C \<and> map_option sha (entry_bytes x) = Some k" for k x
    using assms by (simp add: extends_def)
  have "credential_for sha ix (JStr v) = Some e \<longleftrightarrow> v \<noteq> [] \<and> dget ix (sha v) = Some e \<and> entry_bytes e = Some v"
    by (cases "dget ix (sha v)") (auto simp: credential_for_def credential_bytes_def [of "JStr v"] entry_bytes_def)
  moreover have "entry_bytes e = Some v \<Longrightarrow> v \<noteq> []"
    by (auto simp: entry_bytes_def credential_bytes_def split: option.splits if_splits)
  ultimately show ?thesis unfolding ix by auto
qed

section \<open>The contract of a strict index\<close>

text \<open>
  What the resolvers rely on: an index built from a store holds exactly the claims of that store.
\<close>

locale strict_index =
  fixes sha :: "string \<Rightarrow> string"
    and build :: "obj \<Rightarrow> cred_index sres"
    and claims :: "obj \<Rightarrow> cred_entry set"
  assumes build_extends: "build store = Inr ix \<Longrightarrow> extends sha [] (claims store) ix"
begin

lemma lookup_exact:
  assumes "build store = Inr ix"
  shows "credential_for sha ix (JStr v) = Some e \<longleftrightarrow> e \<in> claims store \<and> entry_bytes e = Some v"
  by (rule credential_for_exact [OF build_extends [OF assms]])

lemma owner_unique:
  assumes "build store = Inr ix" and "e \<in> claims store" and "e' \<in> claims store"
    and "entry_bytes e = Some v" and "entry_bytes e' = Some v"
  shows "e = e'"
  using lookup_exact [OF assms(1), of v e] lookup_exact [OF assms(1), of v e'] assms(2-5) by simp

lemma lookup_claim:
  assumes "build store = Inr ix" and "credential_for sha ix t = Some e"
  shows "e \<in> claims store" and "\<exists>v. t = JStr v \<and> entry_bytes e = Some v"
proof -
  obtain v where t: "t = JStr v" using assms(2) by (cases t) (simp_all add: credential_for_def credential_bytes_def)
  show "e \<in> claims store" "\<exists>v. t = JStr v \<and> entry_bytes e = Some v"
    using lookup_exact [OF assms(1), of v e] assms(2) unfolding t by simp_all
qed

lemma revoked_owner_denied:
  assumes "build store = Inr ix" and "credential_for sha ix t = Some e"
    and "\<forall>e\<in>claims store. ce_principal e = p \<longrightarrow> truthy (jget (ce_record e) ''revoked'')" and "ce_principal e = p"
  shows "valid (ce_record e) now grace = Inr False"
  using lookup_claim(1) [OF assms(1,2)] assms(3,4) by (simp add: valid_def)

end

interpretation announce_ix: strict_index sha "build_announce_index sha" announce_claims for sha
  by unfold_locales (rule announce_index_extends)

interpretation catalog_ix: strict_index sha "build_catalog_auth_index sha" catalog_claims for sha
  by unfold_locales (rule catalog_index_extends)

section \<open>Resolution\<close>

lemma resolve_valid_credential_Some:
  "resolve_valid_credential sha ix v now grace = Inr (Some e) \<longleftrightarrow>
     credential_for sha ix (JStr v) = Some e \<and> valid (ce_record e) now grace = Inr True"
proof (cases "credential_for sha ix (JStr v)")
  case None
  then show ?thesis by (simp add: resolve_valid_credential_def)
next
  case (Some x)
  then show ?thesis
    by (cases "valid (ce_record x) now grace") (auto simp: resolve_valid_credential_def lift_sec_def)
qed

lemma legacy_hits_member:
  assumes "legacy_hits sha ix vs now grace = Inr hits" and "e \<in> set hits"
  shows "\<exists>v\<in>set vs. resolve_valid_credential sha ix v now grace = Inr (Some e)"
proof -
  obtain rs where rs: "list_all2 (\<lambda>v y. resolve_valid_credential sha ix v now grace = Inr y) vs rs" "hits = List.map_filter id rs"
    using assms(1) by (auto simp: legacy_hits_def rbind_eq_Inr rmap_eq_Inr)
  have "Some e \<in> set rs" using assms(2) rs(2) by (auto simp: List.map_filter_def)
  then show ?thesis using rs(1) by (fastforce simp: list_all2_conv_all_nth in_set_conv_nth)
qed

text \<open>What the announce resolver accepts.\<close>

lemma resolve_announce_principal_entry:
  assumes "resolve_announce_principal sha query ix now grace legacy_id = Inr ctx"
  shows "\<exists>e v. resolve_valid_credential sha ix v now grace = Inr (Some e) \<and> ctx = context_of e legacy_id
     \<and> ((DEDICATED_PARAM, v) \<in> set (raw_pairs query)
        \<or> (LEGACY_PARAM, v) \<in> set (raw_pairs query) \<and> (\<forall>w. (DEDICATED_PARAM, w) \<in> set (raw_pairs query) \<longrightarrow> w = []))"
proof -
  let ?pairs = "raw_pairs query"
  define ded where "ded = map snd (filter (\<lambda>(k, _). k = DEDICATED_PARAM) ?pairs)"
  define leg where "leg = remdups (map snd (filter (\<lambda>(k, v). k = LEGACY_PARAM \<and> v \<noteq> []) ?pairs))"
  have ded_iff: "w \<in> set ded \<longleftrightarrow> (DEDICATED_PARAM, w) \<in> set ?pairs" for w by (force simp: ded_def)
  have leg_in: "w \<in> set leg \<Longrightarrow> (LEGACY_PARAM, w) \<in> set ?pairs" for w by (auto simp: leg_def)
  have few: "length ded < 2" using assms unfolding resolve_announce_principal_def Let_def ded_def [symmetric] by (simp split: if_splits)
  show ?thesis
  proof (cases "length ded = 1 \<and> hd ded \<noteq> []")
    case True
    then obtain e where "resolve_valid_credential sha ix (hd ded) now grace = Inr (Some e)" "ctx = context_of e legacy_id"
      using assms few unfolding resolve_announce_principal_def Let_def ded_def [symmetric]
      by (auto simp: rbind_eq_Inr split: option.splits)
    moreover have "hd ded \<in> set ded" using True by (cases ded) auto
    ultimately show ?thesis using ded_iff by blast
  next
    case False
    then have "rbind (legacy_hits sha ix leg now grace) (\<lambda>hits. case hits of
                [entry] \<Rightarrow> Inr (context_of entry legacy_id)
              | [] \<Rightarrow> rbind (any_expired sha ix leg now grace) (\<lambda>x. Inl (AnnounceAuthError x))
              | _ \<Rightarrow> Inl (AnnounceAuthError False)) = Inr ctx"
      using assms few unfolding resolve_announce_principal_def Let_def ded_def [symmetric] leg_def [symmetric] by auto
    then obtain e where e: "legacy_hits sha ix leg now grace = Inr [e]" "ctx = context_of e legacy_id"
      by (elim rbind_eq_Inr [THEN iffD1, elim_format] exE conjE, rename_tac hits, case_tac hits rule: remdups_adj.cases)
        (auto simp: rbind_eq_Inr)
    have "w = []" if "w \<in> set ded" for w using that False few by (cases ded) auto
    then show ?thesis using legacy_hits_member [OF e(1), of e] e(2) ded_iff leg_in by fastforce
  qed
qed

section \<open>Revocation\<close>

lemma revoke_record_get:
  "jget (map (\<lambda>(n, r). (n, revoke_record r)) secrets) name = (case dget secrets name of Some r \<Rightarrow> revoke_record r | None \<Rightarrow> JNull)"
  by (induction secrets) (auto simp: get_or_def)

lemma revoked_claims:
  "e \<in> claims_of p n l (revoke_record r) \<Longrightarrow> truthy (jget (ce_record e) ''revoked'')"
  by (cases r) (auto simp: claims_of_def revoke_record_def get_or_def)

lemma device_claims_revoked:
  assumes "e \<in> device_claims names (d, JObj (map (\<lambda>(n, r). (n, revoke_record r)) secrets))"
  shows "truthy (jget (ce_record e) ''revoked'')"
proof -
  obtain name where "e \<in> claims_of (device_principal d) name False (jget (map (\<lambda>(n, r). (n, revoke_record r)) secrets) name)"
    using assms by (auto simp: device_claims_def)
  then show ?thesis unfolding revoke_record_get
    by (cases "dget secrets name") (auto simp: revoked_claims claims_of_def)
qed

lemma device_claims_owner: "e \<in> device_claims names ds \<Longrightarrow> ce_principal e = device_principal (fst ds)"
  by (auto simp: device_claims_def claims_of_def)

lemma revoke_devices:
  assumes "revoke store d = Inr store'" and "dwf (section_of store ''devices'')"
    and "ds \<in> set (section_of store' ''devices'')" and "fst ds = d" and "e \<in> device_claims names ds"
  shows "truthy (jget (ce_record e) ''revoked'')"
proof -
  obtain devices where devs: "dget store ''devices'' = Some (JObj devices)"
    using assms(1) by (auto simp: revoke_def split: option.splits)
  then have sec: "section_of store ''devices'' = devices" by (simp add: section_of_def get_or_def)
  show ?thesis
  proof (cases "jget devices d = JNull")
    case True
    then have st: "store' = store" using assms(1) devs by (simp add: revoke_def)
    have "dget devices d = Some (snd ds)"
      using assms(2,3,4) sec st by (auto simp: dwf_def)
    then have "snd ds = JNull" using True by (simp add: get_or_def)
    then show ?thesis using assms(5) by (auto simp: device_claims_def claims_of_def get_or_def)
  next
    case False
    then obtain secrets where s: "jget devices d = JObj secrets"
      "store' = dset ''devices'' (JObj (dset d (JObj (map (\<lambda>(n, r). (n, revoke_record r)) secrets)) devices)) store"
      using assms(1) devs by (auto simp: revoke_def split: option.splits)
    let ?new = "dset d (JObj (map (\<lambda>(n, r). (n, revoke_record r)) secrets)) devices"
    have "section_of store' ''devices'' = ?new" by (simp add: s section_of_def get_or_def)
    moreover have "distinct (map fst ?new)" using assms(2) sec by (simp add: dwf_def distinct_update)
    ultimately have "dget ?new d = Some (snd ds)" using assms(3,4) by (metis map_of_is_SomeI prod.collapse)
    then have "ds = (d, JObj (map (\<lambda>(n, r). (n, revoke_record r)) secrets))" using assms(4) by (cases ds) simp
    then show ?thesis using assms(5) device_claims_revoked by blast
  qed
qed

lemma revoke_claims:
  assumes "revoke store d = Inr store'" and "dwf (section_of store ''devices'')"
    and "e \<in> announce_claims store' \<union> catalog_claims store'" and "ce_principal e = device_principal d"
  shows "truthy (jget (ce_record e) ''revoked'')"
proof -
  have "\<not> e \<in> claims_of seeder_principal n l r" for n l r
    using assms(4) by (auto simp: claims_of_def seeder_principal_def device_principal_def)
  then obtain ds names where ds: "ds \<in> set (section_of store' ''devices'')" "e \<in> device_claims names ds"
    using assms(3) unfolding announce_claims_def catalog_claims_def by blast
  then have "fst ds = d" using device_claims_owner [OF ds(2)] assms(4) by (simp add: device_principal_def)
  then show ?thesis using revoke_devices [OF assms(1,2) ds(1) _ ds(2)] by blast
qed

section \<open>Example store\<close>

definition demo_secret :: "string \<Rightarrow> int \<Rightarrow> json" where
  "demo_secret v expires = JObj [(''value'', JStr v), (''created_at'', JInt 100), (''expires_at'', JInt expires), (''revoked'', JBool False)]"

definition demo_store :: obj where
  "demo_store =
     [(''devices'', JObj [(''sw1'', JObj [(''announce_token'', demo_secret ''a1'' 0), (''catalog_token'', demo_secret ''c1'' 900)]),
        (''sw2'', JObj [(''announce_token'', demo_secret ''a2'' 0)])]),
      (''seeder'', JObj [(''announce_token'', demo_secret ''s1'' 0),
         (''announce_token_previous'', JList [demo_secret ''s0'' 500])])]"

definition demo_index :: "obj \<Rightarrow> cred_index" where
  "demo_index store = (case build_announce_index (\<lambda>s. s) store of Inr ix \<Rightarrow> ix | Inl _ \<Rightarrow> [])"

lemma demo_index_ok: "build_announce_index (\<lambda>s. s) demo_store = Inr (demo_index demo_store)"
proof -
  have "\<not> isl (build_announce_index (\<lambda>s. s) demo_store)" by code_simp
  then show ?thesis unfolding demo_index_def by (cases "build_announce_index (\<lambda>s. s) demo_store") simp_all
qed

section \<open>Properties\<close>

text \<open>
  C16. The strict announce index is exact whatever the hash function, collisions included: if it can be
  built at all, a token is found exactly when some credential of the store has that value, the entry
  found is that credential with its owner, and no two credentials share a value.
\<close>

theorem announce_index_exact:
  assumes "build_announce_index sha store = Inr ix"
  shows "(credential_for sha ix (JStr v) = Some e \<longleftrightarrow> e \<in> announce_claims store \<and> entry_bytes e = Some v)
     \<and> (e \<in> announce_claims store \<and> e' \<in> announce_claims store \<and> entry_bytes e = Some v \<and> entry_bytes e' = Some v \<longrightarrow> e = e')"
  using announce_ix.lookup_exact [OF assms] announce_ix.owner_unique [OF assms] by blast

theorem announce_index_exact_witness:
  "\<exists>e. credential_for (\<lambda>s. s) (demo_index demo_store) (JStr ''a1'') = Some e \<and> e \<in> announce_claims demo_store
     \<and> ce_principal e = device_principal ''sw1''"
proof -
  have "map_option ce_principal (credential_for (\<lambda>s. s) (demo_index demo_store) (JStr ''a1'')) = Some (device_principal ''sw1'')"
    by code_simp
  then obtain e where e: "credential_for (\<lambda>s. s) (demo_index demo_store) (JStr ''a1'') = Some e" "ce_principal e = device_principal ''sw1''"
    by auto
  then show ?thesis using announce_index_exact [OF demo_index_ok, of "''a1''" e e] by blast
qed

lemma announce_claims_cases:
  assumes "e \<in> announce_claims store"
  obtains (device) d secrets where "(d, JObj secrets) \<in> set (section_of store ''devices'')"
      "jget secrets ''announce_token'' = JObj (ce_record e)" "ce_principal e = device_principal d" "ce_name e = ''announce_token''" "\<not> ce_legacy e"
  | (seeder) "jget (section_of store ''seeder'') ''announce_token'' = JObj (ce_record e)" "ce_principal e = seeder_principal"
      "ce_name e = ''announce_token''" "\<not> ce_legacy e"
  | (previous) "JObj (ce_record e) \<in> set (previous_of store)" "ce_name e = ''announce_token_previous''" "ce_legacy e"
proof -
  consider ds where "ds \<in> set (section_of store ''devices'')" "e \<in> device_claims [''announce_token''] ds"
    | "e \<in> claims_of seeder_principal ''announce_token'' False (jget (section_of store ''seeder'') ''announce_token'')"
    | r where "r \<in> set (previous_of store)" "e \<in> claims_of seeder_principal ''announce_token_previous'' True r"
    using assms unfolding announce_claims_def by blast
  then show ?thesis
  proof cases
    case 1
    obtain d v where ds: "ds = (d, v)" by (cases ds)
    from 1(2) have c: "e \<in> claims_of (device_principal d) ''announce_token'' False (jget (obj_or_empty v) ''announce_token'')"
      by (simp add: device_claims_def ds)
    then obtain secrets where "v = JObj secrets"
      by (cases v) (auto simp: claims_of_def obj_or_empty_def get_or_def)
    with c 1(1) ds show ?thesis by (intro device [of d secrets]) (auto simp: claims_of_def)
  next
    case 2
    then show ?thesis by (intro seeder) (auto simp: claims_of_def)
  next
    case 3
    then show ?thesis by (intro previous) (auto simp: claims_of_def)
  qed
qed

lemma valid_live:
  assumes "valid rec now grace = Inr True"
  shows "\<not> truthy (jget rec ''revoked'')"
    and "py_eq (get_or rec ''expires_at'' (JInt 0)) (JInt 0) \<or> (\<exists>t. as_num (get_or rec ''expires_at'' (JInt 0)) = Some t \<and> now < t + grace)"
  using assms by (auto simp: valid_def Let_def split: if_splits option.splits)

text \<open>
  C17. Announce authentication is sound: what the resolver accepts is a record of the store that is neither
  revoked nor expired and whose value the query presents, in the dedicated parameter or, when that is absent
  or blank, in the legacy one.  A device's own announce token makes the announce that device's, the seeder's
  current token makes it the seeder's, and a previous seeder token makes it a legacy principal named by
  the endpoint, never a device or the seeder.
\<close>

theorem announce_auth_sound:
  assumes "build_announce_index sha store = Inr ix"
    and "resolve_announce_principal sha query ix now grace legacy_id = Inr ctx"
  shows "\<exists>rec v. credential_bytes (jget rec ''value'') = Some v
     \<and> ((''announce_token'', v) \<in> set (raw_pairs query)
        \<or> (''key'', v) \<in> set (raw_pairs query) \<and> (\<forall>w. (''announce_token'', w) \<in> set (raw_pairs query) \<longrightarrow> w = []))
     \<and> \<not> truthy (jget rec ''revoked'')
     \<and> (py_eq (get_or rec ''expires_at'' (JInt 0)) (JInt 0)
        \<or> (\<exists>t. as_num (get_or rec ''expires_at'' (JInt 0)) = Some t \<and> now < t + grace))
     \<and> ac_scope ctx = ''announce''
     \<and> ((\<exists>d secrets. ac_principal ctx = \<lparr>ptype = ''device'', pid = d\<rparr> \<and> ac_secret_name ctx = ''announce_token''
           \<and> (d, JObj secrets) \<in> set (section_of store ''devices'') \<and> jget secrets ''announce_token'' = JObj rec)
        \<or> ac_principal ctx = \<lparr>ptype = ''service'', pid = ''seeder''\<rparr> \<and> ac_secret_name ctx = ''announce_token''
           \<and> jget (section_of store ''seeder'') ''announce_token'' = JObj rec
        \<or> ac_principal ctx = \<lparr>ptype = ''legacy'', pid = (case legacy_id of Some i \<Rightarrow> i | None \<Rightarrow> [])\<rparr>
           \<and> ac_secret_name ctx = ''announce_token_previous'' \<and> JObj rec \<in> set (previous_of store))"
proof -
  obtain e v where e: "credential_for sha ix (JStr v) = Some e" "valid (ce_record e) now grace = Inr True" "ctx = context_of e legacy_id"
    and q: "(''announce_token'', v) \<in> set (raw_pairs query)
        \<or> (''key'', v) \<in> set (raw_pairs query) \<and> (\<forall>w. (''announce_token'', w) \<in> set (raw_pairs query) \<longrightarrow> w = [])"
    using resolve_announce_principal_entry [OF assms(2)]
    unfolding resolve_valid_credential_Some DEDICATED_PARAM_def LEGACY_PARAM_def by blast
  then have c: "e \<in> announce_claims store" "entry_bytes e = Some v"
    using announce_ix.lookup_exact [OF assms(1), of v e] by blast+
  from c(1) have "(\<exists>d secrets. ac_principal ctx = \<lparr>ptype = ''device'', pid = d\<rparr> \<and> ac_secret_name ctx = ''announce_token''
        \<and> (d, JObj secrets) \<in> set (section_of store ''devices'') \<and> jget secrets ''announce_token'' = JObj (ce_record e))
     \<or> ac_principal ctx = \<lparr>ptype = ''service'', pid = ''seeder''\<rparr> \<and> ac_secret_name ctx = ''announce_token''
        \<and> jget (section_of store ''seeder'') ''announce_token'' = JObj (ce_record e)
     \<or> ac_principal ctx = \<lparr>ptype = ''legacy'', pid = (case legacy_id of Some i \<Rightarrow> i | None \<Rightarrow> [])\<rparr>
        \<and> ac_secret_name ctx = ''announce_token_previous'' \<and> JObj (ce_record e) \<in> set (previous_of store)"
    by (cases rule: announce_claims_cases)
      (auto simp: e(3) context_of_def device_principal_def seeder_principal_def)
  moreover have "ac_scope ctx = ''announce''" by (simp add: e(3) context_of_def)
  moreover have "credential_bytes (jget (ce_record e) ''value'') = Some v" using c(2) by (simp add: entry_bytes_def)
  ultimately show ?thesis using q valid_live [OF e(2)] by blast
qed

theorem announce_auth_sound_witness:
  "\<exists>ctx. resolve_announce_principal (\<lambda>s. s) ''port=1&announce_token=a1'' (demo_index demo_store) 300 0 (Some ''ep'') = Inr ctx
     \<and> ac_principal ctx = \<lparr>ptype = ''device'', pid = ''sw1''\<rparr>
     \<and> (\<exists>rec secrets. (''sw1'', JObj secrets) \<in> set (section_of demo_store ''devices'')
          \<and> jget secrets ''announce_token'' = JObj rec \<and> \<not> truthy (jget rec ''revoked''))"
proof -
  let ?r = "resolve_announce_principal (\<lambda>s. s) ''port=1&announce_token=a1'' (demo_index demo_store) 300 0 (Some ''ep'')"
  have "case ?r of Inr ctx \<Rightarrow> ac_principal ctx = \<lparr>ptype = ''device'', pid = ''sw1''\<rparr> | Inl _ \<Rightarrow> False" by code_simp
  then obtain ctx where ctx: "?r = Inr ctx" "ac_principal ctx = \<lparr>ptype = ''device'', pid = ''sw1''\<rparr>"
    by (cases ?r) simp_all
  with announce_auth_sound [OF demo_index_ok ctx(1)] show ?thesis by auto
qed

text \<open>
  C18. Revocation is complete: once a device is revoked in a store, no announce and no catalog credential
  of that device is accepted any more, by query, by bearer header or by catalog token, at any time
  and with any grace.
\<close>

theorem revoke_denies:
  assumes "revoke store d = Inr store'" and "dwf (section_of store ''devices'')"
    and "build_announce_index sha store' = Inr ix" and "build_catalog_auth_index sha store' = Inr cx"
  shows "(resolve_announce_principal sha query ix now grace legacy_id = Inr ctx \<longrightarrow> ac_principal ctx \<noteq> device_principal d)
     \<and> (resolve_announce_bearer sha token ix now grace legacy_id = Inr ctx \<longrightarrow> ac_principal ctx \<noteq> device_principal d)
     \<and> (resolve_catalog_auth sha cx token now grace = Inr (Some ctx) \<longrightarrow> ac_principal ctx \<noteq> device_principal d)"
proof -
  have rev_ann: "\<forall>e\<in>announce_claims store'. ce_principal e = device_principal d \<longrightarrow> truthy (jget (ce_record e) ''revoked'')"
    and rev_cat: "\<forall>e\<in>catalog_claims store'. ce_principal e = device_principal d \<longrightarrow> truthy (jget (ce_record e) ''revoked'')"
    using revoke_claims [OF assms(1,2)] by blast+
  note ann = announce_ix.revoked_owner_denied [OF assms(3) _ rev_ann]
  note cat = catalog_ix.revoked_owner_denied [OF assms(4) _ rev_cat]
  have ctx_owner: "ac_principal (context_of e legacy_id) = device_principal d \<Longrightarrow> ce_principal e = device_principal d" for e
    by (simp add: context_of_def device_principal_def split: if_splits)
  have "ac_principal ctx \<noteq> device_principal d" if r: "resolve_announce_principal sha query ix now grace legacy_id = Inr ctx"
  proof -
    obtain e v where "credential_for sha ix (JStr v) = Some e" "valid (ce_record e) now grace = Inr True" "ctx = context_of e legacy_id"
      using resolve_announce_principal_entry [OF r] unfolding resolve_valid_credential_Some by blast
    then show ?thesis using ann [of "JStr v" e now grace] ctx_owner by auto
  qed
  moreover have "ac_principal ctx \<noteq> device_principal d" if r: "resolve_announce_bearer sha token ix now grace legacy_id = Inr ctx"
  proof -
    obtain e where "credential_for sha ix token = Some e" "valid (ce_record e) now grace = Inr True" "ctx = context_of e legacy_id"
      using r by (auto simp: resolve_announce_bearer_def rbind_eq_Inr lift_sec_def split: option.splits if_splits sum.splits)
    then show ?thesis using ann [of token e now grace] ctx_owner by auto
  qed
  moreover have "ac_principal ctx \<noteq> device_principal d" if r: "resolve_catalog_auth sha cx token now grace = Inr (Some ctx)"
  proof -
    obtain e where "credential_for sha cx token = Some e" "valid (ce_record e) now grace = Inr True" "ac_principal ctx = ce_principal e"
      using r by (auto simp: resolve_catalog_auth_def rbind_eq_Inr split: option.splits if_splits)
    then show ?thesis using cat [of token e now grace] by auto
  qed
  ultimately show ?thesis by blast
qed

theorem revoke_denies_witness:
  "\<exists>store' ix cx. revoke demo_store ''sw1'' = Inr store' \<and> build_announce_index (\<lambda>s. s) store' = Inr ix
     \<and> build_catalog_auth_index (\<lambda>s. s) store' = Inr cx
     \<and> (\<forall>query ctx. resolve_announce_principal (\<lambda>s. s) query ix 300 0 None = Inr ctx \<longrightarrow> ac_principal ctx \<noteq> device_principal ''sw1'')"
proof -
  have ok: "case revoke demo_store ''sw1'' of Inr st \<Rightarrow> \<not> isl (build_announce_index (\<lambda>s. s) st) \<and> \<not> isl (build_catalog_auth_index (\<lambda>s. s) st) | Inl _ \<Rightarrow> False"
    by code_simp
  then obtain st where st: "revoke demo_store ''sw1'' = Inr st" by (cases "revoke demo_store ''sw1''") simp_all
  with ok obtain ix cx where ix: "build_announce_index (\<lambda>s. s) st = Inr ix" "build_catalog_auth_index (\<lambda>s. s) st = Inr cx"
    by (simp add: isl_def) (metis sum.exhaust_sel)
  have wf: "dwf (section_of demo_store ''devices'')" by code_simp
  show ?thesis using st ix revoke_denies [OF st wf ix] by blast
qed

end
