(* ===== verification/Secrets_Properties.thy ===== *)
theory Secrets_Properties
  imports Auth_Properties
begin

text \<open>
  Minting never reuses a value, every rotation keeps its overlap bounded, and a loaded store has no
  credential that outlives its rotation for ever.
\<close>

section \<open>Previous seeder credentials\<close>

lemma stamp_expires: "truthy (jget (stamp_previous_expiry ttl r) ''expires_at'')"
  by (auto simp: stamp_previous_expiry_def Let_def get_or_def split: sum.split option.split)

lemma stamp_keeps: "k \<noteq> ''expires_at'' \<Longrightarrow> jget (stamp_previous_expiry ttl r) k = jget r k"
  by (auto simp: stamp_previous_expiry_def Let_def get_or_def split: sum.split option.split)

lemma stamp_json_obj: "stamp_json ttl r = JObj d \<Longrightarrow> truthy (jget d ''expires_at'')"
  using stamp_expires by (auto simp: stamp_json_def split: option.splits)

lemma keep_valid_subset: "keep_valid rs now = Inr ks \<Longrightarrow> set ks \<subseteq> {r \<in> set rs. \<exists>d. r = JObj d \<and> valid d now 0 = Inr True}"
proof (induction rs arbitrary: ks)
  case (Cons r rs)
  show ?case
  proof (cases "as_obj r")
    case None
    then show ?thesis using Cons by auto
  next
    case (Some d)
    then obtain b ks' where "valid d now 0 = Inr b" "keep_valid rs now = Inr ks'" "ks = (if b then r # ks' else ks')"
      using Cons.prems by (auto simp: rbind_eq_Inr)
    then show ?thesis using Cons.IH [of ks'] Some by (cases b) auto
  qed
qed simp

lemma keep_valid_all: "\<forall>r\<in>set ks. \<exists>d. r = JObj d \<and> valid d now 0 = Inr True \<Longrightarrow> keep_valid ks now = Inr ks"
  by (induction ks) auto

lemma retire_expired_previous_list:
  assumes "retire_expired_previous ttl store now = Inr (store', n)" and "get_section store ''seeder'' = Inr seeder"
    and "jget seeder ''announce_token_previous'' = JList prev"
  obtains kept where "store' = dset ''seeder'' (JObj (dset ''announce_token_previous'' (JList kept) seeder)) store"
    and "\<forall>r\<in>set kept. \<exists>d. r = JObj d \<and> valid d now 0 = Inr True \<and> truthy (jget d ''expires_at'')"
proof -
  obtain kept where k: "keep_valid (map (stamp_json ttl) prev) now = Inr kept"
    "store' = dset ''seeder'' (JObj (dset ''announce_token_previous'' (JList kept) seeder)) store"
    using assms by (auto simp: retire_expired_previous_def rbind_eq_Inr)
  have "\<exists>d. r = JObj d \<and> valid d now 0 = Inr True \<and> truthy (jget d ''expires_at'')" if "r \<in> set kept" for r
    using keep_valid_subset [OF k(1)] that stamp_json_obj by fastforce
  with k(2) show ?thesis by (intro that) blast+
qed

section \<open>Minting\<close>

lemma mint_loop_Inr:
  "mint_loop h instr ex ids vs = Inr (v, k) \<Longrightarrow> v \<in> set vs \<and> JStr v \<notin> set ex \<and>
     (if instr then k = Some (h v) \<and> h v \<notin> set ids \<and> canonical_hex (JStr v) 64 \<noteq> None else k = None)"
  by (induction vs) (auto split: if_splits)

definition minted_record :: "int \<Rightarrow> int \<Rightarrow> string \<Rightarrow> string option \<Rightarrow> obj" where
  "minted_record ttl inow v k =
     [(''value'', JStr v), (''created_at'', JInt inow), (''expires_at'', JInt (if ttl \<noteq> 0 then inow + ttl else 0)), (''revoked'', JBool False)]
     @ (case k of Some i \<Rightarrow> [(''key_id'', JStr i), (''_scope'', JStr ''instructions'')] | None \<Rightarrow> [])"

lemma mint_Inr:
  assumes "mint default_ttl h rand store device name now = Inr (store', v)"
  obtains stype existing k where "dget (SECRET_TYPES default_ttl) name = Some stype" "existing_values store = Inr existing"
    "JStr v \<notin> set existing" "\<exists>i<128. v = rand i"
    "if name = ''instr_key'' then k = Some (h v) \<and> h v \<notin> set (existing_ids store) \<and> canonical_hex (JStr v) 64 \<noteq> None else k = None"
    "put_record store device name (minted_record (st_ttl stype) (py_trunc now) v k) = Inr store'"
proof -
  obtain stype bits where t: "dget (SECRET_TYPES default_ttl) name = Some stype" "dget secret_bits name = Some bits"
    using assms by (auto simp: mint_def split: option.splits)
  then obtain existing k where m: "existing_values store = Inr existing"
    "mint_loop h (name = ''instr_key'') existing (existing_ids store) (map rand [0..<mint_attempts]) = Inr (v, k)"
    "put_record store device name (minted_record (st_ttl stype) (py_trunc now) v k) = Inr store'"
    using assms by (auto simp: mint_def minted_record_def rbind_eq_Inr Let_def split: if_splits)
  have "\<exists>i<128. v = rand i" using mint_loop_Inr [OF m(2)] by (auto simp: mint_attempts_def)
  with t m mint_loop_Inr [OF m(2)] show ?thesis by (intro that [of stype existing k]) auto
qed

lemma mint_put:
  assumes "mint default_ttl h rand store device name now = Inr (store', v)"
  shows "\<exists>ttl k. put_record store device name (minted_record ttl (py_trunc now) v k) = Inr store'"
  by (rule mint_Inr [OF assms]) blast

lemma index_record_keys:
  "set (dkeys (index_record o' ix nr)) \<supseteq> set (dkeys ix)"
  "snd nr = JObj r \<Longrightarrow> dget r ''value'' = Some (JStr v) \<Longrightarrow> JStr v \<in> set (dkeys (index_record o' ix nr))"
proof -
  have u: "set (dkeys (dset k x ix)) = insert k (set (dkeys ix))" for k x
    by (simp add: dom_map_of_conv_image_fst [symmetric] update_conv')
  show "set (dkeys (index_record o' ix nr)) \<supseteq> set (dkeys ix)"
    using u by (auto simp: index_record_def split: option.split simp del: set_map)
  show "snd nr = JObj r \<Longrightarrow> dget r ''value'' = Some (JStr v) \<Longrightarrow> JStr v \<in> set (dkeys (index_record o' ix nr))"
    using u by (simp add: index_record_def del: set_map)
qed

lemma foldl_index_keys:
  "set (dkeys (foldl (index_record o') ix recs)) \<supseteq> set (dkeys ix)"
  "nr \<in> set recs \<Longrightarrow> snd nr = JObj r \<Longrightarrow> dget r ''value'' = Some (JStr v) \<Longrightarrow> JStr v \<in> set (dkeys (foldl (index_record o') ix recs))"
proof -
  show mono: "set (dkeys (foldl (index_record o') ix recs)) \<supseteq> set (dkeys ix)" for ix recs
    by (induction recs arbitrary: ix) (simp, use index_record_keys(1) in \<open>fastforce simp del: set_map\<close>)
  show "nr \<in> set recs \<Longrightarrow> snd nr = JObj r \<Longrightarrow> dget r ''value'' = Some (JStr v) \<Longrightarrow> JStr v \<in> set (dkeys (foldl (index_record o') ix recs))"
  proof (induction recs arbitrary: ix)
    case (Cons x recs)
    show ?case
    proof (cases "nr = x")
      case True
      then have "JStr v \<in> set (dkeys (index_record o' ix x))" using index_record_keys(2) Cons.prems by blast
      then show ?thesis using mono [where recs = recs and ix = "index_record o' ix x"] by (auto simp del: set_map)
    next
      case False
      then show ?thesis using Cons by simp
    qed
  qed simp
qed

lemma build_index_device:
  assumes "ds \<in> set (section_of store ''devices'')" and "nr \<in> set (obj_or_empty (snd ds))"
    and "snd nr = JObj r" and "dget r ''value'' = Some (JStr v)"
  shows "JStr v \<in> set (dkeys (build_index store))"
proof -
  let ?step = "\<lambda>ix (device_id, secrets). foldl (index_record device_id) ix (obj_or_empty secrets)"
  have mono: "set (dkeys (foldl ?step ix dss)) \<supseteq> set (dkeys ix)" for ix and dss :: obj
  proof (induction dss arbitrary: ix)
    case (Cons x dss)
    have "set (dkeys ix) \<subseteq> set (dkeys (?step ix x))" using foldl_index_keys(1) by (cases x) (simp del: set_map)
    with Cons [of "?step ix x"] show ?case by (simp del: set_map)
  qed simp
  have "JStr v \<in> set (dkeys (foldl ?step ix dss))" if "ds \<in> set dss" for ix and dss :: obj
    using that
  proof (induction dss arbitrary: ix)
    case (Cons x dss)
    show ?case
    proof (cases "ds = x")
      case True
      have "JStr v \<in> set (dkeys (?step ix x))"
        using foldl_index_keys(2) [OF assms(2-4)] True by (cases x) (simp del: set_map)
      then show ?thesis using mono [of "?step ix x" dss] by (auto simp del: set_map)
    next
      case False
      then show ?thesis using Cons by simp
    qed
  qed simp
  then show ?thesis using assms(1) foldl_index_keys(1) unfolding build_index_def Let_def section_of_def by blast
qed

lemma build_index_seeder:
  assumes "nr \<in> set (section_of store ''seeder'')" and "snd nr = JObj r" and "dget r ''value'' = Some (JStr v)"
  shows "JStr v \<in> set (dkeys (build_index store))"
  using foldl_index_keys(2) [OF assms(1) [unfolded section_of_def] assms(2,3)] unfolding build_index_def Let_def .

lemma claims_of_value:
  assumes "e \<in> claims_of p n l (jget secrets name)" and "entry_bytes e = Some v"
  shows "\<exists>r. (name, JObj r) \<in> set secrets \<and> dget r ''value'' = Some (JStr v)"
proof -
  obtain r where r: "jget secrets name = JObj r" "ce_record e = r" using assms(1) by (auto simp: claims_of_def)
  then have "(name, JObj r) \<in> set secrets" by (auto simp: get_or_def dest: map_of_SomeD split: option.splits)
  moreover have "dget r ''value'' = Some (JStr v)"
    using assms(2) r(2) by (auto simp: entry_bytes_def credential_bytes_def get_or_def split: option.splits if_splits)
  ultimately show ?thesis by blast
qed

lemma existing_values_cover:
  assumes "existing_values store = Inr existing" and "e \<in> announce_claims store \<union> catalog_claims store"
    and "entry_bytes e = Some v"
  shows "JStr v \<in> set existing"
proof -
  obtain seeder prev where s: "get_section store ''seeder'' = Inr seeder"
    "previous_records (get_or seeder ''announce_token_previous'' (JList [])) = Inr prev"
    "existing = map fst (build_index store)
        @ map pynorm (filter (\<lambda>v. truthy v \<and> hashable v) (List.map_filter (\<lambda>r. map_option (\<lambda>d. jget d ''value'') (as_obj r)) prev))"
    using assms(1) by (auto simp: existing_values_def rbind_eq_Inr)
  note sec = get_section_Inr [OF s(1)]
  consider (device) ds names where "ds \<in> set (section_of store ''devices'')" "e \<in> device_claims names ds"
    | (current) "e \<in> claims_of seeder_principal ''announce_token'' False (jget (section_of store ''seeder'') ''announce_token'')"
    | (previous) r where "r \<in> set (previous_of store)" "e \<in> claims_of seeder_principal ''announce_token_previous'' True r"
    using assms(2) unfolding announce_claims_def catalog_claims_def by blast
  then show ?thesis
  proof cases
    case device
    then obtain name where "e \<in> claims_of (device_principal (fst ds)) name False (jget (obj_or_empty (snd ds)) name)"
      by (auto simp: device_claims_def)
    from claims_of_value [OF this assms(3)] show ?thesis
      using build_index_device [OF device(1)] s(3) by fastforce
  next
    case current
    from claims_of_value [OF this assms(3)] show ?thesis using build_index_seeder s(3) by fastforce
  next
    case previous
    then obtain d where d: "r = JObj d" "ce_record e = d" by (auto simp: claims_of_def)
    have v: "jget d ''value'' = JStr v" "v \<noteq> []"
      using assms(3) d(2) by (auto simp: entry_bytes_def credential_bytes_def split: option.splits if_splits)
    have "r \<in> set prev"
      using previous(1) s(2) sec by (auto simp: previous_of_def previous_records_def split: json.splits if_splits)
    then have "JStr v \<in> set (List.map_filter (\<lambda>r. map_option (\<lambda>d. jget d ''value'') (as_obj r)) prev)"
      using d v by (force simp: List.map_filter_def)
    then show ?thesis using s(3) v(2) by (force intro!: image_eqI [of _ pynorm "JStr v"])
  qed
qed

lemma put_record_device:
  assumes "put_record store d name rec = Inr store'" and "d \<noteq> ''seeder''"
  obtains devices secrets where "dget store ''devices'' = Some (JObj devices)" "get_or devices d (JObj []) = JObj secrets"
    "store' = dset ''devices'' (JObj (dset d (JObj (dset name (JObj rec) secrets)) devices)) store"
  using assms by (auto simp: put_record_def split: option.splits)

lemma put_record_seeder:
  assumes "put_record store ''seeder'' name rec = Inr store'"
  obtains seeder where "dget store ''seeder'' = Some (JObj seeder)"
    "store' = dset ''seeder'' (JObj (dset name (JObj rec) seeder)) store"
  using assms by (auto simp: put_record_def split: option.splits)

lemma minted_get [simp]:
  "jget (minted_record ttl inow v k) ''value'' = JStr v"
  "jget (minted_record ttl inow v k) ''created_at'' = JInt inow"
  "jget (minted_record ttl inow v k) ''expires_at'' = JInt (if ttl \<noteq> 0 then inow + ttl else 0)"
  "jget (minted_record ttl inow v k) ''revoked'' = JBool False"
  by (simp_all add: minted_record_def get_or_def)

lemma minted_valid:
  assumes "ttl = 0 \<or> 0 < ttl \<and> 0 \<le> now" and "0 \<le> grace"
  shows "valid (minted_record ttl (py_trunc now) v k) now grace = Inr True"
proof -
  have e: "get_or (minted_record ttl n v k) ''expires_at'' (JInt 0) = JInt (if ttl \<noteq> 0 then n + ttl else 0)" for n
    by (simp add: minted_record_def get_or_def)
  show ?thesis
  proof (cases "ttl = 0")
    case True
    then show ?thesis unfolding valid_def e by simp
  next
    case False
    then have t: "0 < ttl" "0 \<le> now" "py_trunc now = \<lfloor>now\<rfloor>" "0 \<le> \<lfloor>now\<rfloor>" using assms(1) by (auto simp: py_trunc_def)
    have "now < of_int \<lfloor>now\<rfloor> + 1" by linarith
    also have "(of_int \<lfloor>now\<rfloor> :: rat) + 1 \<le> of_int (\<lfloor>now\<rfloor> + ttl)" using t(1) by simp
    finally have "now < of_int (\<lfloor>now\<rfloor> + ttl) + grace" using assms(2) by linarith
    then show ?thesis unfolding valid_def e using t False by simp
  qed
qed

lemma secret_ttl:
  "dget (SECRET_TYPES default_ttl) name = Some stype \<Longrightarrow> 0 < default_ttl \<Longrightarrow> 0 \<le> st_ttl stype"
  by (auto simp: SECRET_TYPES_def split: if_splits)

section \<open>Properties\<close>

text \<open>
  C19. Minting is fresh and effective: the new value is owned by no announce or catalog credential of the
  store, it is recorded for the device under the requested name as a credential that is valid from
  then on, and no other device's records change.
\<close>

theorem mint_fresh:
  assumes "mint default_ttl h rand store device name now = Inr (store', v)" and "device \<noteq> ''seeder''"
    and "0 \<le> now" and "0 < default_ttl" and "0 \<le> grace"
  shows "(\<forall>e\<in>announce_claims store \<union> catalog_claims store. entry_bytes e \<noteq> Some v)
     \<and> (\<exists>rec. jget (obj_or_empty (jget (section_of store' ''devices'') device)) name = JObj rec
          \<and> jget rec ''value'' = JStr v \<and> valid rec now grace = Inr True)
     \<and> (\<forall>d. d \<noteq> device \<longrightarrow> dget (section_of store' ''devices'') d = dget (section_of store ''devices'') d)"
proof -
  obtain stype existing k where m: "dget (SECRET_TYPES default_ttl) name = Some stype" "existing_values store = Inr existing"
    "JStr v \<notin> set existing" "put_record store device name (minted_record (st_ttl stype) (py_trunc now) v k) = Inr store'"
    using mint_Inr [OF assms(1)] by metis
  obtain devices secrets where p: "dget store ''devices'' = Some (JObj devices)"
    "store' = dset ''devices'' (JObj (dset device (JObj (dset name (JObj (minted_record (st_ttl stype) (py_trunc now) v k)) secrets)) devices)) store"
    using put_record_device [OF m(4) assms(2)] by metis
  have "st_ttl stype = 0 \<or> 0 < st_ttl stype \<and> 0 \<le> now" using secret_ttl [OF m(1) assms(4)] assms(3) by linarith
  note ok = minted_valid [OF this assms(5), of v k]
  have s: "section_of store ''devices'' = devices" "section_of store' ''devices'' =
      dset device (JObj (dset name (JObj (minted_record (st_ttl stype) (py_trunc now) v k)) secrets)) devices"
    by (simp_all add: p section_of_def get_or_def)
  have "jget (obj_or_empty (jget (section_of store' ''devices'') device)) name = JObj (minted_record (st_ttl stype) (py_trunc now) v k)"
    by (simp add: s get_or_Some)
  moreover have "\<forall>d. d \<noteq> device \<longrightarrow> dget (section_of store' ''devices'') d = dget (section_of store ''devices'') d" by (simp add: s)
  ultimately show ?thesis using existing_values_cover [OF m(2)] m(3) ok minted_get(1) by blast
qed

theorem mint_fresh_witness:
  "\<exists>store'. mint 604800 (\<lambda>s. s) (\<lambda>i. if i = 0 then ''a2'' else ''n1'') demo_store ''sw1'' ''announce_token'' 1000 = Inr (store', ''n1'')
     \<and> (\<exists>rec. jget (obj_or_empty (jget (section_of store' ''devices'') ''sw1'')) ''announce_token'' = JObj rec
          \<and> jget rec ''value'' = JStr ''n1'' \<and> valid rec 1000 0 = Inr True)"
proof -
  let ?m = "mint 604800 (\<lambda>s. s) (\<lambda>i. if i = 0 then ''a2'' else ''n1'') demo_store ''sw1'' ''announce_token'' 1000"
  have "case ?m of Inr (_, v) \<Rightarrow> v = ''n1'' | Inl _ \<Rightarrow> False" by code_simp
  then obtain st where st: "?m = Inr (st, ''n1'')" by (cases ?m) auto
  show ?thesis using st mint_fresh [OF st, of 0] by fastforce
qed

text \<open>
  Loading bounds every retired seeder credential: in a store that loads, each previous announce
  record is unrevoked and carries an expiry, so none is honoured for ever, whatever an older version
  wrote.
\<close>

theorem load_previous_bounded:
  assumes "load_store ttl require_existing f = Inr store" and "r \<in> set (previous_of store)"
  shows "\<exists>d. r = JObj d \<and> \<not> truthy (jget d ''revoked'') \<and> truthy (jget d ''expires_at'')"
proof -
  obtain data where p: "prune_previous_on_load ttl data = Inr store"
    using assms by (auto simp: load_store_def previous_of_def section_of_def get_or_def split: file_state.splits option.splits if_splits)
  obtain seeder where sd: "get_section data ''seeder'' = Inr seeder"
    using p by (auto simp: prune_previous_on_load_def rbind_eq_Inr)
  show ?thesis
  proof (cases "as_list (jget seeder ''announce_token_previous'')")
    case None
    then have "store = data" using p sd by (simp add: prune_previous_on_load_def)
    then have "previous_of store = []"
      using None get_section_Inr [OF sd]
      by (auto simp: previous_of_def get_or_def split: option.splits json.splits)
    then show ?thesis using assms(2) by simp
  next
    case (Some prev)
    then obtain recs where recs: "list_all2 (\<lambda>x y. (case as_obj x of Some d \<Rightarrow> Inr d | None \<Rightarrow> Inl (SecPy AttributeError)) = Inr y)
        (map (stamp_json ttl) prev) recs"
      "store = dset ''seeder'' (JObj (dset ''announce_token_previous''
         (JList (map JObj (filter (\<lambda>r. \<not> truthy (jget r ''revoked'')) recs))) seeder)) data"
      using p sd by (auto simp: prune_previous_on_load_def rbind_eq_Inr rmap_eq_Inr split: option.splits)
    have "previous_of store = map JObj (filter (\<lambda>r. \<not> truthy (jget r ''revoked'')) recs)"
      by (simp add: recs(2) previous_of_def section_of_def get_or_def)
    then obtain d where d: "r = JObj d" "d \<in> set recs" "\<not> truthy (jget d ''revoked'')" using assms(2) by auto
    then obtain x where "(case as_obj (stamp_json ttl x) of Some d \<Rightarrow> Inr d | None \<Rightarrow> Inl (SecPy AttributeError)) = Inr d"
      using recs(1) by (auto simp: list_all2_conv_all_nth in_set_conv_nth)
    then have "stamp_json ttl x = JObj d" by (cases "as_obj (stamp_json ttl x)") auto
    then show ?thesis using d stamp_json_obj by blast
  qed
qed

lemma rotate_announce_parts:
  assumes "rotate_announce prev_ttl default_ttl h rand rid store now = Inr (store', v)"
  obtains seeder1 kept store3 where
    "seeder1 = setdefault ''announce_token_previous'' (JList []) (section_of store ''seeder'')"
    "length kept < SEEDER_PREV_CAP" "\<forall>r\<in>set kept. \<exists>d. r = JObj d \<and> truthy (jget d ''expires_at'')"
    "mint default_ttl h rand store3 ''seeder'' ''announce_token'' now = Inr (store', v)"
    "section_of store3 ''seeder'' = dset ''announce_token_previous'' (JList kept) seeder1 \<and>
        (\<forall>cur. jget seeder1 ''announce_token'' = JObj cur \<longrightarrow> \<not> has_key cur ''value'')
     \<or> (\<exists>cur archived. jget seeder1 ''announce_token'' = JObj cur \<and> jget archived ''value'' = jget cur ''value''
        \<and> jget archived ''expires_at'' = JInt (max 1 (py_trunc now + prev_ttl))
        \<and> section_of store3 ''seeder'' = dset ''announce_token_previous'' (JList (JObj archived # kept))
             (dset ''announce_token_previous'' (JList kept) seeder1))"
proof -
  let ?p = "''announce_token_previous''"
  obtain seeder0 where s0: "get_or store ''seeder'' (JObj []) = JObj seeder0"
    using assms by (auto simp: rotate_announce_def split: option.splits)
  define seeder1 where "seeder1 = setdefault ?p (JList []) seeder0"
  define store1 where "store1 = dset ''seeder'' (JObj seeder1) store"
  have sec1: "get_section store1 ''seeder'' = Inr seeder1" by (simp add: store1_def get_section_def get_or_def)
  obtain store2 n where r: "retire_expired_previous prev_ttl store1 now = Inr (store2, n)"
    using assms s0 by (auto simp: rotate_announce_def Let_def rbind_eq_Inr seeder1_def store1_def)
  note body = assms [unfolded rotate_announce_def s0 as_obj.simps option.case Let_def, folded seeder1_def, folded store1_def,
      unfolded r rbind_Inr case_prod_conv]
  obtain prev where prev: "jget seeder1 ?p = JList prev"
  proof (cases "as_list (jget seeder1 ?p)")
    case None
    then have "store2 = store1" using r sec1 by (simp add: retire_expired_previous_def)
    then show ?thesis using body None by (simp add: store1_def get_or_Some)
  qed (use that in simp)
  obtain kept where k: "store2 = dset ''seeder'' (JObj (dset ?p (JList kept) seeder1)) store1"
    "\<forall>r\<in>set kept. \<exists>d. r = JObj d \<and> valid d now 0 = Inr True \<and> truthy (jget d ''expires_at'')"
    by (rule retire_expired_previous_list [OF r sec1 prev]) blast
  have kv: "keep_valid kept now = Inr kept" using k(2) by (intro keep_valid_all) blast
  define seeder2 where "seeder2 = dset ?p (JList kept) seeder1"
  have sd: "jget store2 ''seeder'' = JObj seeder2" "jget seeder2 ?p = JList kept"
    "jget seeder2 ''announce_token'' = jget seeder1 ''announce_token''"
    by (simp_all add: k(1) seeder2_def get_or_def)
  note body2 = body [unfolded sd obj_or_empty_simps as_list.simps option.case kv rbind_Inr]
  have len: "length kept < SEEDER_PREV_CAP" using body2 by (simp split: if_splits)
  then obtain store3 where st3: "(if jget seeder1 ''announce_token'' = JNull then Inr store2
        else rbind (value_member (jget seeder1 ''announce_token'')) (\<lambda>m. case m of
           None \<Rightarrow> Inr store2
         | Some (current, _) \<Rightarrow> Inr (dset ''seeder'' (JObj (dset ?p (JList (JObj (dset ''expires_at'' (JInt (max 1 (py_trunc now + prev_ttl)))
                  (setdefault ''revoked'' (JBool False) (dset ''record_id'' (JStr rid) (dset ''rotated_at'' (JInt (py_trunc now)) current)))) # kept)) seeder2)) store2))) = Inr store3"
      "mint default_ttl h rand store3 ''seeder'' ''announce_token'' now = Inr (store', v)"
    using body2 by (auto simp: rbind_eq_Inr)
  have sec: "section_of store2 ''seeder'' = seeder2" by (simp add: section_of_def k(1) seeder2_def get_or_def)
  have "section_of store ''seeder'' = seeder0" by (simp add: section_of_def s0)
  moreover have "section_of store3 ''seeder'' = seeder2 \<and> (\<forall>cur. jget seeder1 ''announce_token'' = JObj cur \<longrightarrow> \<not> has_key cur ''value'')
     \<or> (\<exists>cur archived. jget seeder1 ''announce_token'' = JObj cur \<and> jget archived ''value'' = jget cur ''value''
        \<and> jget archived ''expires_at'' = JInt (max 1 (py_trunc now + prev_ttl))
        \<and> section_of store3 ''seeder'' = dset ?p (JList (JObj archived # kept)) seeder2)"
  proof (cases "\<exists>cur w. jget seeder1 ''announce_token'' = JObj cur \<and> dget cur ''value'' = Some w")
    case True
    then obtain cur w where c: "jget seeder1 ''announce_token'' = JObj cur" "dget cur ''value'' = Some w" by blast
    show ?thesis
      using st3(1) c by (intro disjI2 exI [of _ cur] exI [of _ "dset ''expires_at'' (JInt (max 1 (py_trunc now + prev_ttl)))
                  (setdefault ''revoked'' (JBool False) (dset ''record_id'' (JStr rid) (dset ''rotated_at'' (JInt (py_trunc now)) cur)))"])
        (auto simp: value_member_def section_of_def get_or_def setdefault_get)
  next
    case False
    then have "store3 = store2"
      using st3(1) by (auto simp: value_member_def rbind_eq_Inr split: if_splits json.splits option.splits)
    then show ?thesis using False sec by (auto simp: has_key_dget)
  qed
  ultimately show ?thesis
    using that [of seeder1 kept store3] len k(2) st3(2) unfolding seeder1_def seeder2_def by blast
qed

text \<open>
  Seeder rotation keeps a bounded recovery window: after a successful rotation at most
  \<^verbatim>\<open>SEEDER_PREV_CAP\<close> previous credentials remain, each with an expiry; the credential just replaced is the
  newest of them, keeps its value and expires \<^verbatim>\<open>SEEDER_PREV_TTL\<close> after the rotation; the new current
  credential has the value returned.
\<close>

theorem rotate_announce_bounded:
  assumes "rotate_announce prev_ttl default_ttl h rand rid store now = Inr (store', v)"
  shows "length (previous_of store') \<le> SEEDER_PREV_CAP
     \<and> (\<forall>r\<in>set (previous_of store'). \<exists>d. r = JObj d \<and> truthy (jget d ''expires_at''))
     \<and> (\<forall>cur. jget (section_of store ''seeder'') ''announce_token'' = JObj cur \<and> has_key cur ''value'' \<longrightarrow>
          (\<exists>d ps. previous_of store' = JObj d # ps \<and> jget d ''value'' = jget cur ''value''
             \<and> jget d ''expires_at'' = JInt (max 1 (py_trunc now + prev_ttl))))
     \<and> (\<exists>rec. jget (section_of store' ''seeder'') ''announce_token'' = JObj rec \<and> jget rec ''value'' = JStr v)"
proof -
  obtain seeder1 kept store3 where p:
    "seeder1 = setdefault ''announce_token_previous'' (JList []) (section_of store ''seeder'')"
    "length kept < SEEDER_PREV_CAP" "\<forall>r\<in>set kept. \<exists>d. r = JObj d \<and> truthy (jget d ''expires_at'')"
    "mint default_ttl h rand store3 ''seeder'' ''announce_token'' now = Inr (store', v)"
    and cases: "section_of store3 ''seeder'' = dset ''announce_token_previous'' (JList kept) seeder1 \<and>
        (\<forall>cur. jget seeder1 ''announce_token'' = JObj cur \<longrightarrow> \<not> has_key cur ''value'')
     \<or> (\<exists>cur archived. jget seeder1 ''announce_token'' = JObj cur \<and> jget archived ''value'' = jget cur ''value''
        \<and> jget archived ''expires_at'' = JInt (max 1 (py_trunc now + prev_ttl))
        \<and> section_of store3 ''seeder'' = dset ''announce_token_previous'' (JList (JObj archived # kept))
             (dset ''announce_token_previous'' (JList kept) seeder1))"
    by (rule rotate_announce_parts [OF assms])
  have same: "jget seeder1 ''announce_token'' = jget (section_of store ''seeder'') ''announce_token''"
    by (simp add: p(1) get_or_def setdefault_get)
  obtain ttl k where "put_record store3 ''seeder'' ''announce_token'' (minted_record ttl (py_trunc now) v k) = Inr store'"
    using mint_put [OF p(4)] by blast
  then obtain seeder3 where s3: "dget store3 ''seeder'' = Some (JObj seeder3)"
    "store' = dset ''seeder'' (JObj (dset ''announce_token'' (JObj (minted_record ttl (py_trunc now) v k)) seeder3)) store3"
    using put_record_seeder by metis
  have sec3: "section_of store3 ''seeder'' = seeder3" by (simp add: section_of_def get_or_def s3)
  have sec': "section_of store' ''seeder'' = dset ''announce_token'' (JObj (minted_record ttl (py_trunc now) v k)) seeder3"
    by (simp add: section_of_def get_or_def s3)
  have cur: "\<exists>rec. jget (section_of store' ''seeder'') ''announce_token'' = JObj rec \<and> jget rec ''value'' = JStr v"
    by (rule exI [of _ "minted_record ttl (py_trunc now) v k"]) (simp add: sec' get_or_Some)
  have prev: "previous_of store' = (case get_or seeder3 ''announce_token_previous'' (JList []) of JList xs \<Rightarrow> xs | _ \<Rightarrow> [])"
    by (simp add: previous_of_def sec' get_or_def)
  from cases show ?thesis
  proof
    assume c: "section_of store3 ''seeder'' = dset ''announce_token_previous'' (JList kept) seeder1 \<and>
        (\<forall>cur. jget seeder1 ''announce_token'' = JObj cur \<longrightarrow> \<not> has_key cur ''value'')"
    then have "previous_of store' = kept" unfolding prev sec3 [symmetric] by (simp add: get_or_def)
    then show ?thesis using p(2,3) c cur same by auto
  next
    assume "\<exists>cur archived. jget seeder1 ''announce_token'' = JObj cur \<and> jget archived ''value'' = jget cur ''value''
        \<and> jget archived ''expires_at'' = JInt (max 1 (py_trunc now + prev_ttl))
        \<and> section_of store3 ''seeder'' = dset ''announce_token_previous'' (JList (JObj archived # kept))
             (dset ''announce_token_previous'' (JList kept) seeder1)"
    then obtain c archived where c: "jget seeder1 ''announce_token'' = JObj c" "jget archived ''value'' = jget c ''value''"
      "jget archived ''expires_at'' = JInt (max 1 (py_trunc now + prev_ttl))"
      "section_of store3 ''seeder'' = dset ''announce_token_previous'' (JList (JObj archived # kept))
             (dset ''announce_token_previous'' (JList kept) seeder1)" by blast
    then have "previous_of store' = JObj archived # kept" unfolding prev sec3 [symmetric] by (simp add: get_or_def)
    then show ?thesis using p(2,3) c cur same by auto
  qed
qed

section \<open>Instruction keys\<close>

lemma validate_instruction_key_record_Inr:
  "validate_instruction_key_record h rec previous = Inr r \<longleftrightarrow> rec = JObj r \<and> set (dkeys r) = set INSTRUCTION_RECORD_FIELDS
     \<and> (\<exists>v created expires b. jget r ''value'' = JStr v \<and> canonical_hex (JStr v) 64 \<noteq> None
        \<and> jget r ''key_id'' = JStr (h v) \<and> canonical_hex (JStr (h v)) 64 \<noteq> None
        \<and> jget r ''created_at'' = JInt created \<and> jget r ''expires_at'' = JInt expires \<and> 0 \<le> created \<and> created < expires
        \<and> (\<not> previous \<longrightarrow> expires = created + INSTR_KEY_TTL) \<and> jget r ''revoked'' = JBool b \<and> jget r ''_scope'' = JStr ''instructions'')"
  (is "?L \<longleftrightarrow> ?R")
proof
  have hex: "canonical_hex x n = Some s \<longleftrightarrow> x = JStr s \<and> canonical_hex (JStr s) n \<noteq> None" for x n s
    by (cases x) (auto simp: canonical_hex_def)
  assume L: ?L
  then have r: "rec = JObj r" "set (dkeys r) = set INSTRUCTION_RECORD_FIELDS"
    by (auto simp: validate_instruction_key_record_def split: option.splits if_splits prod.splits)
  then obtain v k created expires b where
    "canonical_hex (jget r ''value'') 64 = Some v" "canonical_hex (jget r ''key_id'') 64 = Some k" "k = h v"
    "as_int (jget r ''created_at'') = Some created" "as_int (jget r ''expires_at'') = Some expires" "0 \<le> created" "created < expires"
    "\<not> previous \<longrightarrow> expires = created + INSTR_KEY_TTL" "as_bool (jget r ''revoked'') = Some b" "jget r ''_scope'' = JStr ''instructions''"
    using L by (auto simp: validate_instruction_key_record_def simp del: as_int_Some as_bool_Some split: option.splits if_splits prod.splits)
  then show ?R using r unfolding hex as_int_Some as_bool_Some by blast
next
  assume ?R
  then obtain v created expires b where r: "rec = JObj r" "set (dkeys r) = set INSTRUCTION_RECORD_FIELDS"
    "jget r ''value'' = JStr v" "canonical_hex (JStr v) 64 \<noteq> None" "jget r ''key_id'' = JStr (h v)" "canonical_hex (JStr (h v)) 64 \<noteq> None"
    "jget r ''created_at'' = JInt created" "jget r ''expires_at'' = JInt expires" "0 \<le> created" "created < expires"
    "\<not> previous \<longrightarrow> expires = created + INSTR_KEY_TTL" "jget r ''revoked'' = JBool b" "jget r ''_scope'' = JStr ''instructions''" by blast
  have "canonical_hex (JStr v) 64 = Some v" "canonical_hex (JStr (h v)) 64 = Some (h v)"
    using r(4,6) by (auto simp: canonical_hex_def split: if_splits)
  then show ?L using r by (auto simp: validate_instruction_key_record_def)
qed

lemma minted_key_valid:
  assumes "canonical_hex (JStr v) 64 \<noteq> None" and "canonical_hex (JStr (h v)) 64 \<noteq> None" and "0 \<le> n"
  shows "validate_instruction_key_record h (JObj (minted_record INSTR_KEY_TTL n v (Some (h v)))) False
     = Inr (minted_record INSTR_KEY_TTL n v (Some (h v)))"
  unfolding validate_instruction_key_record_Inr
  using assms by (auto simp: minted_record_def INSTRUCTION_RECORD_FIELDS_def INSTR_KEY_TTL_def get_or_def)

lemma archived_key_valid:
  assumes "validate_instruction_key_record h rec False = Inr r" and "int_field r ''created_at'' < n"
  shows "validate_instruction_key_record h (JObj (dset ''expires_at'' (JInt n) r)) True = Inr (dset ''expires_at'' (JInt n) r)"
proof -
  have r: "rec = JObj r" "set (dkeys r) = set INSTRUCTION_RECORD_FIELDS" and
    "\<exists>v created expires b. jget r ''value'' = JStr v \<and> canonical_hex (JStr v) 64 \<noteq> None
        \<and> jget r ''key_id'' = JStr (h v) \<and> canonical_hex (JStr (h v)) 64 \<noteq> None
        \<and> jget r ''created_at'' = JInt created \<and> jget r ''expires_at'' = JInt expires \<and> 0 \<le> created \<and> created < expires
        \<and> jget r ''revoked'' = JBool b \<and> jget r ''_scope'' = JStr ''instructions''"
    using assms(1) unfolding validate_instruction_key_record_Inr by blast+
  moreover have "set (dkeys (dset ''expires_at'' (JInt n) r)) = set (dkeys r)"
  proof -
    have "''expires_at'' \<in> set (dkeys r)" unfolding r by (simp add: INSTRUCTION_RECORD_FIELDS_def)
    then show ?thesis by (auto simp: dom_map_of_conv_image_fst [symmetric] update_conv')
  qed
  moreover have "k \<noteq> ''expires_at'' \<Longrightarrow> jget (dset ''expires_at'' (JInt n) r) k = jget r k"
    "jget (dset ''expires_at'' (JInt n) r) ''expires_at'' = JInt n" for k by (simp_all add: get_or_def)
  ultimately show ?thesis
    unfolding validate_instruction_key_record_Inr using assms(2) by (auto simp: int_field_def)
qed

lemma existing_ids_member:
  assumes "dget (section_of store ''devices'') d = Some (JObj records)" and "dget records name = Some (JObj r)"
    and "jget r ''key_id'' = JStr k"
  shows "k \<in> set (existing_ids store)"
proof -
  have "(d, JObj records) \<in> set (section_of store ''devices'')" "(name, JObj r) \<in> set records"
    using assms(1,2) by (auto dest: map_of_SomeD)
  then show ?thesis
    using assms(3) unfolding existing_ids_def section_of_def
    by (force simp: List.map_filter_def intro!: bexI [of _ "(d, JObj records)"] image_eqI [of _ _ "(name, JObj r)"])
qed

lemma rotation_pair_Inr:
  assumes "rotation_pair h store d = Inr (records, current, previous)"
  obtains devices where "d \<noteq> ''seeder''" "dget store ''devices'' = Some (JObj devices)" "dget devices d = Some (JObj records)"
    "dget records ''instr_key'' = Some (JObj current)" "validate_instruction_key_record h (JObj current) False = Inr current"
proof -
  obtain devices where d: "d \<noteq> ''seeder''" "jget store ''devices'' = JObj devices" "dget devices d = Some (JObj records)"
    using assms by (auto simp: rotation_pair_def rbind_eq_Inr split: if_splits option.splits)
  obtain cur where c: "dget records ''instr_key'' = Some cur"
    "validate_instruction_key_pair h cur (dget records ''instr_key_prev'') = Inr (current, previous)"
    using assms d by (auto simp: rotation_pair_def rbind_eq_Inr split: if_splits option.splits)
  have v: "validate_instruction_key_record h cur False = Inr current"
    using c(2) by (auto simp: validate_instruction_key_pair_def rbind_eq_Inr split: option.splits if_splits)
  then have "cur = JObj current" unfolding validate_instruction_key_record_Inr by blast
  moreover have "dget store ''devices'' = Some (JObj devices)" using d(2) by (auto simp: get_or_def split: option.splits)
  ultimately show ?thesis using d c v by (intro that) auto
qed

lemma py_trunc_of_int [simp]: "py_trunc (of_int n) = n"
  by (simp add: py_trunc_def)

text \<open>The store and the records after a rotation.\<close>

lemma rotate_instruction_key_records:
  assumes "rotate_instruction_key ttl h rand store d now no_overlap = Inr (store', kid)"
  obtains current v where "jget (obj_or_empty (jget (section_of store ''devices'') d)) ''instr_key'' = JObj current"
    "validate_instruction_key_record h (JObj current) False = Inr current" "0 \<le> py_trunc now"
    "no_overlap \<or> int_field current ''created_at'' < py_trunc now + INSTR_KEY_PREV_TTL"
    "canonical_hex (JStr v) 64 \<noteq> None" "jget current ''key_id'' \<noteq> JStr (h v)" "jget current ''value'' \<noteq> JStr v" "kid = JStr (h v)"
    "\<exists>records. dget (section_of store' ''devices'') d = Some (JObj records)
       \<and> dget records ''instr_key'' = Some (JObj (minted_record INSTR_KEY_TTL (py_trunc now) v (Some (h v))))
       \<and> dget records ''instr_key_prev'' = (if no_overlap then None
           else Some (JObj (dset ''expires_at'' (JInt (py_trunc now + INSTR_KEY_PREV_TTL)) current)))"
proof -
  obtain records current previous where rp: "rotation_pair h store d = Inr (records, current, previous)"
    using assms by (auto simp: rotate_instruction_key_def rbind_eq_Inr)
  obtain devices where dv: "d \<noteq> ''seeder''" "dget store ''devices'' = Some (JObj devices)" "dget devices d = Some (JObj records)"
    "dget records ''instr_key'' = Some (JObj current)" "validate_instruction_key_record h (JObj current) False = Inr current"
    by (rule rotation_pair_Inr [OF rp])
  let ?n = "py_trunc now"
  let ?rest = "ddel ''instr_key_prev'' records"
  let ?popped = "dset ''devices'' (JObj (dset d (JObj ?rest) devices)) store"
  let ?arch = "dset ''expires_at'' (JInt (?n + INSTR_KEY_PREV_TTL)) current"
  have jd: "jget store ''devices'' = JObj devices" using dv(2) by (simp add: get_or_Some)
  note body = assms [unfolded rotate_instruction_key_def rp rbind_Inr case_prod_conv Let_def jd obj_or_empty_simps]
  have m: "0 \<le> ?n" "no_overlap \<or> int_field current ''created_at'' < ?n + INSTR_KEY_PREV_TTL"
    using body by (auto split: if_splits)
  obtain minted v where m3: "mint ttl h rand ?popped d ''instr_key'' (of_int ?n) = Inr (minted, v)"
    and kept: "keep_archived d (if no_overlap then None else Some ?arch) minted = (store', kid)"
    using body by (auto simp: rbind_eq_Inr split: if_splits)
  obtain stype existing k where mt: "dget (SECRET_TYPES ttl) ''instr_key'' = Some stype" "existing_values ?popped = Inr existing"
    "JStr v \<notin> set existing" "\<exists>i<128. v = rand i"
    "if ''instr_key'' = ''instr_key'' then k = Some (h v) \<and> h v \<notin> set (existing_ids ?popped) \<and> canonical_hex (JStr v) 64 \<noteq> None else k = None"
    "put_record ?popped d ''instr_key'' (minted_record (st_ttl stype) (py_trunc (of_int ?n)) v k) = Inr minted"
    by (rule mint_Inr [OF m3])
  have ttl: "st_ttl stype = INSTR_KEY_TTL" using mt(1) by (auto simp: SECRET_TYPES_def INSTR_KEY_TTL_def)
  let ?rec = "minted_record INSTR_KEY_TTL ?n v (Some (h v))"
  have put: "put_record ?popped d ''instr_key'' ?rec = Inr minted" using mt(5,6) ttl by simp
  have sp: "section_of ?popped ''devices'' = dset d (JObj ?rest) devices" by (simp add: section_of_def get_or_def)
  have minted: "minted = dset ''devices'' (JObj (dset d (JObj (dset ''instr_key'' (JObj ?rec) ?rest)) (dset d (JObj ?rest) devices))) ?popped"
    using put dv(1) by (simp add: put_record_def get_or_def)
  have recs: "obj_or_empty (jget (obj_or_empty (jget minted ''devices'')) d) = dset ''instr_key'' (JObj ?rec) ?rest"
    by (simp add: minted get_or_def)
  have old: "dget ?rest ''instr_key'' = Some (JObj current)" using dv(4) by simp
  have g: "dget (section_of ?popped ''devices'') d = Some (JObj ?rest)" by (simp add: sp)
  have "jget current ''key_id'' \<noteq> JStr (h v)" using existing_ids_member [OF g old] mt(5) by auto
  moreover have "jget current ''value'' \<noteq> JStr v"
  proof
    assume v: "jget current ''value'' = JStr v"
    have "dget current ''value'' = Some (JStr v)" using v by (auto simp: get_or_def split: option.splits)
    then have "JStr v \<in> set (dkeys (build_index ?popped))"
      using build_index_device [OF map_of_SomeD [OF g], of "(''instr_key'', JObj current)" current v] map_of_SomeD [OF old] by simp
    moreover have "set (dkeys (build_index ?popped)) \<subseteq> set existing"
      using mt(2) by (auto simp: existing_values_def rbind_eq_Inr simp del: set_map)
    ultimately show False using mt(3) by blast
  qed
  moreover have "kid = JStr (h v)"
    using kept unfolding keep_archived_def recs Let_def by (auto simp: get_or_def minted_record_def split: if_splits)
  moreover have "\<exists>records. dget (section_of store' ''devices'') d = Some (JObj records)
       \<and> dget records ''instr_key'' = Some (JObj ?rec)
       \<and> dget records ''instr_key_prev'' = (if no_overlap then None
           else Some (JObj (dset ''expires_at'' (JInt (?n + INSTR_KEY_PREV_TTL)) current)))"
    using kept unfolding keep_archived_def recs Let_def by (auto simp: section_of_def get_or_def split: if_splits)
  moreover have "jget (obj_or_empty (jget (section_of store ''devices'') d)) ''instr_key'' = JObj current"
    using dv(2-4) by (simp add: section_of_def get_or_def)
  ultimately show ?thesis using that [of current v] dv(5) m(1,2) mt(5) by auto
qed

text \<open>
  Instruction-key rotation leaves the device with a valid pair of keys: the new current key validates,
  it differs from the one it replaces in value and identity, the replaced key stays as the previous
  key with a seven-day deadline unless no overlap was asked for, and the identity returned is that of
  the new key.  The hash is assumed to yield 64 lower-case hexadecimal digits, as SHA-256 does.
\<close>

theorem rotate_instruction_key_pair:
  assumes "\<forall>x. canonical_hex (JStr (h x)) 64 \<noteq> None"
    and "rotate_instruction_key ttl h rand store d now no_overlap = Inr (store', kid)"
  shows "\<exists>records cur pair. dget (section_of store' ''devices'') d = Some (JObj records)
     \<and> dget records ''instr_key'' = Some (JObj cur) \<and> jget cur ''key_id'' = kid
     \<and> validate_instruction_key_pair h (JObj cur) (dget records ''instr_key_prev'') = Inr pair
     \<and> dget records ''instr_key_prev'' = (if no_overlap then None
         else Some (JObj (dset ''expires_at'' (JInt (py_trunc now + INSTR_KEY_PREV_TTL))
            (obj_or_empty (jget (obj_or_empty (jget (section_of store ''devices'') d)) ''instr_key'')))))"
proof -
  obtain current v where r: "jget (obj_or_empty (jget (section_of store ''devices'') d)) ''instr_key'' = JObj current"
    "validate_instruction_key_record h (JObj current) False = Inr current" "0 \<le> py_trunc now"
    "no_overlap \<or> int_field current ''created_at'' < py_trunc now + INSTR_KEY_PREV_TTL"
    "canonical_hex (JStr v) 64 \<noteq> None" "jget current ''key_id'' \<noteq> JStr (h v)" "jget current ''value'' \<noteq> JStr v" "kid = JStr (h v)"
    "\<exists>records. dget (section_of store' ''devices'') d = Some (JObj records)
       \<and> dget records ''instr_key'' = Some (JObj (minted_record INSTR_KEY_TTL (py_trunc now) v (Some (h v))))
       \<and> dget records ''instr_key_prev'' = (if no_overlap then None
           else Some (JObj (dset ''expires_at'' (JInt (py_trunc now + INSTR_KEY_PREV_TTL)) current)))"
    by (rule rotate_instruction_key_records [OF assms(2)])
  let ?rec = "minted_record INSTR_KEY_TTL (py_trunc now) v (Some (h v))"
  have new: "validate_instruction_key_record h (JObj ?rec) False = Inr ?rec"
    using minted_key_valid [of v h "py_trunc now"] r(3,5) assms(1) by blast
  have ids: "jget ?rec ''key_id'' = JStr (h v)" "jget ?rec ''value'' = JStr v" by (simp_all add: minted_record_def get_or_def)
  have "\<exists>pair. validate_instruction_key_pair h (JObj ?rec) (if no_overlap then None
           else Some (JObj (dset ''expires_at'' (JInt (py_trunc now + INSTR_KEY_PREV_TTL)) current))) = Inr pair"
  proof (cases no_overlap)
    case True
    then show ?thesis using new by (simp add: validate_instruction_key_pair_def)
  next
    case False
    then have "validate_instruction_key_record h (JObj (dset ''expires_at'' (JInt (py_trunc now + INSTR_KEY_PREV_TTL)) current)) True
        = Inr (dset ''expires_at'' (JInt (py_trunc now + INSTR_KEY_PREV_TTL)) current)"
      using archived_key_valid [OF r(2)] r(4) by blast
    moreover have "jget (dset ''expires_at'' (JInt (py_trunc now + INSTR_KEY_PREV_TTL)) current) k = jget current k"
      if "k \<noteq> ''expires_at''" for k using that by (simp add: get_or_def)
    ultimately show ?thesis using False new ids r(6,7) by (simp add: validate_instruction_key_pair_def)
  qed
  then show ?thesis using r(1,8,9) ids by (auto simp del: validate_instruction_key_record_Inr)
qed

definition demo_key_hash :: "string \<Rightarrow> string" where
  \<comment> \<open>some function into 64 hexadecimal digits that depends on its argument\<close>
  "demo_key_hash s = (if s \<noteq> [] \<and> hd s = CHR ''1'' then replicate 64 (CHR ''a'') else replicate 64 (CHR ''b''))"

definition demo_key :: "char \<Rightarrow> string" where
  "demo_key c = replicate 64 c"

definition demo_key_store :: obj where
  "demo_key_store = [(''devices'', JObj [(''sw1'', JObj [(''instr_key'',
     JObj (minted_record INSTR_KEY_TTL 1000 (demo_key (CHR ''1'')) (Some (demo_key_hash (demo_key (CHR ''1''))))))])]), (''seeder'', JObj [])]"

end
