(* ===== verification/Api_Rate_Limit.thy ===== *)
theory Api_Rate_Limit
  imports Json
begin

text \<open>
  \<^verbatim>\<open>server/api_rate_limit.py\<close>: the read, write and total token buckets in front of the management API.
  One call of \<^verbatim>\<open>admit\<close> is one atomic step (the source holds the lock throughout); the clock reading is
  an argument of the step and may move backwards.  Times, rates and token counts are exact rationals
  where the source has floats.  The lemmas show the bucket invariant, that admission is all or nothing,
  the bound on what any window of time lets through, and that waiting as told is enough.
\<close>

section \<open>State and operations\<close>

record bucket =
  rate :: rat
  capacity :: int
  tokens :: rat
  updated :: "rat option"

record limiter =
  read_bucket :: bucket
  write_bucket :: bucket
  total_bucket :: bucket

definition new_bucket :: "json \<Rightarrow> json \<Rightarrow> bucket res" where
  \<comment> \<open>booleans are numbers for \<^verbatim>\<open>isinstance\<close>, but not for \<^verbatim>\<open>type(burst) is int\<close>\<close>
  "new_bucket rt burst =
     (case as_num rt of
        None \<Rightarrow> Inl ValueError
      | Some q \<Rightarrow>
          if q < 0 then Inl ValueError
          else case as_int burst of
                 None \<Rightarrow> Inl ValueError
               | Some n \<Rightarrow>
                   if 1 \<le> n \<and> n \<le> 1000
                   then Inr \<lparr>rate = q, capacity = n, tokens = of_int n, updated = None\<rparr>
                   else Inl ValueError)"

definition new_limiter :: "json \<Rightarrow> json \<Rightarrow> json \<Rightarrow> json \<Rightarrow> json \<Rightarrow> json \<Rightarrow> limiter res" where
  "new_limiter read_rate write_rate total_rate read_burst write_burst total_burst =
     rbind (new_bucket read_rate read_burst) (\<lambda>r.
     rbind (new_bucket write_rate write_burst) (\<lambda>w.
     rbind (new_bucket total_rate total_burst) (\<lambda>t.
     Inr \<lparr>read_bucket = r, write_bucket = w, total_bucket = t\<rparr>)))"

definition is_read :: "string \<Rightarrow> bool" where
  "is_read method \<longleftrightarrow> method = ''GET'' \<or> method = ''HEAD''"

definition kind_bucket :: "string \<Rightarrow> limiter \<Rightarrow> bucket" where
  "kind_bucket method l = (if is_read method then read_bucket l else write_bucket l)"

definition set_selected :: "string \<Rightarrow> bucket \<Rightarrow> bucket \<Rightarrow> limiter \<Rightarrow> limiter" where
  \<comment> \<open>the two selected dictionaries are updated in place\<close>
  "set_selected method k t l =
     (if is_read method then l\<lparr>read_bucket := k, total_bucket := t\<rparr>
      else l\<lparr>write_bucket := k, total_bucket := t\<rparr>)"

definition clamp_now :: "rat \<Rightarrow> bucket \<Rightarrow> bucket \<Rightarrow> rat" where
  \<comment> \<open>\<^verbatim>\<open>max([self._clock(), *updated])\<close>\<close>
  "clamp_now clock k t =
     fold max (List.map_filter updated [k, t]) clock"

definition refill :: "rat \<Rightarrow> bucket \<Rightarrow> bucket" where
  "refill now b =
     (if rate b \<le> 0 then b
      else case updated b of
             None \<Rightarrow> b\<lparr>updated := Some now\<rparr>
           | Some u \<Rightarrow>
               (let elapsed = max 0 (now - u)
                in b\<lparr>tokens := min (of_int (capacity b)) (tokens b + elapsed * rate b),
                     updated := Some now\<rparr>))"

definition wait_of :: "bucket \<Rightarrow> rat option" where
  "wait_of b = (if rate b \<le> 0 \<or> 1 \<le> tokens b then None else Some ((1 - tokens b) / rate b))"

definition debit :: "bucket \<Rightarrow> bucket" where
  "debit b = (if 0 < rate b then b\<lparr>tokens := tokens b - 1\<rparr> else b)"

definition admit :: "string \<Rightarrow> rat \<Rightarrow> limiter \<Rightarrow> limiter \<times> bool \<times> int" where
  "admit method clock l =
     (let k = kind_bucket method l;
          t = total_bucket l;
          now = clamp_now clock k t;
          k' = refill now k;
          t' = refill now t;
          waits = List.map_filter wait_of [k', t']
      in if waits \<noteq> []
         then (set_selected method k' t' l, False, max 1 \<lceil>fold max (tl waits) (hd waits)\<rceil>)
         else (set_selected method (debit k') (debit t') l, True, 0))"

text \<open>A history of calls, with the clock reading of each and the answers given.\<close>

fun serve :: "limiter \<Rightarrow> (string \<times> rat) list \<Rightarrow> limiter \<times> bool list" where
  "serve l [] = (l, [])"
| "serve l ((m, c) # calls) =
     (case admit m c l of (l', ok, _) \<Rightarrow> case serve l' calls of (l'', oks) \<Rightarrow> (l'', ok # oks))"

definition admitted :: "(string \<Rightarrow> bool) \<Rightarrow> limiter \<Rightarrow> (string \<times> rat) list \<Rightarrow> nat" where
  \<comment> \<open>how many of the calls whose method is selected got through\<close>
  "admitted sel l calls =
     length (filter (\<lambda>((m, c), ok). sel m \<and> ok) (zip calls (snd (serve l calls))))"

section \<open>One step\<close>

definition bucket_ok :: "bucket \<Rightarrow> bool" where
  "bucket_ok b \<longleftrightarrow> 1 \<le> capacity b \<and> 0 \<le> rate b \<and> 0 \<le> tokens b \<and> tokens b \<le> of_int (capacity b)"

definition limiter_ok :: "limiter \<Rightarrow> bool" where
  "limiter_ok l \<longleftrightarrow> bucket_ok (read_bucket l) \<and> bucket_ok (write_bucket l) \<and> bucket_ok (total_bucket l)"

definition seen_by :: "rat \<Rightarrow> bucket \<Rightarrow> bool" where
  \<comment> \<open>no timestamp later than the given time\<close>
  "seen_by T b \<longleftrightarrow> (\<forall>u. updated b = Some u \<longrightarrow> u \<le> T)"

lemma new_bucket_ok: "new_bucket r n = Inr b \<Longrightarrow> bucket_ok b \<and> updated b = None"
  by (auto simp: new_bucket_def bucket_ok_def split: option.splits if_splits)

lemma clamp_now_bounds:
  "clock \<le> clamp_now clock k t"
  "updated k = Some u \<Longrightarrow> u \<le> clamp_now clock k t"
  "updated t = Some u \<Longrightarrow> u \<le> clamp_now clock k t"
  by (auto simp: clamp_now_def List.map_filter_def)

lemma clamp_now_le:
  "clock \<le> T \<Longrightarrow> seen_by T k \<Longrightarrow> seen_by T t \<Longrightarrow> clamp_now clock k t \<le> T"
  by (auto simp: clamp_now_def List.map_filter_def seen_by_def)

lemma clamp_now_ge: "T \<le> clock \<Longrightarrow> T \<le> clamp_now clock k t"
  using clamp_now_bounds(1) [of clock k t] by linarith

lemma refill_config [simp]: "rate (refill now b) = rate b" "capacity (refill now b) = capacity b"
  by (auto simp: refill_def Let_def split: option.splits)

lemma debit_config [simp]:
  "rate (debit b) = rate b" "capacity (debit b) = capacity b" "updated (debit b) = updated b"
  by (auto simp: debit_def)

lemma refill_ok: "bucket_ok b \<Longrightarrow> bucket_ok (refill now b)"
  by (auto simp: refill_def bucket_ok_def Let_def split: option.splits)

lemma wait_of_None: "wait_of b = None \<longleftrightarrow> rate b \<le> 0 \<or> 1 \<le> tokens b"
  by (simp add: wait_of_def)

lemma debit_ok: "bucket_ok b \<Longrightarrow> wait_of b = None \<Longrightarrow> bucket_ok (debit b)"
  by (auto simp: debit_def bucket_ok_def wait_of_None)

lemma refill_updated: "0 < rate b \<Longrightarrow> updated (refill now b) = Some now"
  by (auto simp: refill_def Let_def split: option.splits)

lemma refill_off: "rate b \<le> 0 \<Longrightarrow> refill now b = b"
  by (simp add: refill_def)

lemma refill_seen: "seen_by T b \<Longrightarrow> now \<le> T \<Longrightarrow> seen_by T (refill now b)"
  by (cases "0 < rate b") (auto simp: seen_by_def refill_updated refill_off)

text \<open>The two outcomes of a call, in terms of the refilled buckets.\<close>

lemma admit_cases:
  obtains (refused) now waits where
      "now = clamp_now clock (kind_bucket m l) (total_bucket l)"
      "waits = List.map_filter wait_of [refill now (kind_bucket m l), refill now (total_bucket l)]"
      "waits \<noteq> []"
      "admit m clock l = (set_selected m (refill now (kind_bucket m l)) (refill now (total_bucket l)) l,
                          False, max 1 \<lceil>fold max (tl waits) (hd waits)\<rceil>)"
  | (admitted) now where
      "now = clamp_now clock (kind_bucket m l) (total_bucket l)"
      "wait_of (refill now (kind_bucket m l)) = None" "wait_of (refill now (total_bucket l)) = None"
      "admit m clock l = (set_selected m (debit (refill now (kind_bucket m l)))
                            (debit (refill now (total_bucket l))) l, True, 0)"
proof -
  let ?now = "clamp_now clock (kind_bucket m l) (total_bucket l)"
  let ?w = "List.map_filter wait_of [refill ?now (kind_bucket m l), refill ?now (total_bucket l)]"
  show thesis
  proof (cases "?w = []")
    case True
    then show thesis
      by (intro admitted [of ?now]) (auto simp: admit_def Let_def List.map_filter_def split: if_splits)
  next
    case False
    then show thesis by (intro refused [of ?now ?w]) (simp_all add: admit_def Let_def)
  qed
qed

lemma selected_sel [simp]:
  "kind_bucket m (set_selected m k t l) = k" "total_bucket (set_selected m k t l) = t"
  by (simp_all add: kind_bucket_def set_selected_def)

lemma selected_other:
  "is_read m \<noteq> is_read m' \<Longrightarrow> kind_bucket m' (set_selected m k t l) = kind_bucket m' l"
  by (auto simp: kind_bucket_def set_selected_def)

lemma kind_bucket_cong: "is_read m = is_read m' \<Longrightarrow> kind_bucket m l = kind_bucket m' l"
  by (simp add: kind_bucket_def)

lemma limiter_okI:
  "limiter_ok l \<Longrightarrow> bucket_ok k \<Longrightarrow> bucket_ok t \<Longrightarrow> limiter_ok (set_selected m k t l)"
  by (auto simp: limiter_ok_def set_selected_def)

lemma limiter_okD: "limiter_ok l \<Longrightarrow> bucket_ok (kind_bucket m l) \<and> bucket_ok (total_bucket l)"
  by (simp add: limiter_ok_def kind_bucket_def)

lemma admit_ok: "limiter_ok l \<Longrightarrow> limiter_ok (fst (admit m c l))"
  by (rule admit_cases [where l = l and m = m and clock = c])
     (auto intro!: limiter_okI refill_ok debit_ok dest: limiter_okD)

lemma serve_ok: "limiter_ok l \<Longrightarrow> limiter_ok (fst (serve l calls))"
proof (induction l calls rule: serve.induct)
  case (2 l m c calls)
  obtain l' ok r where a: "admit m c l = (l', ok, r)" by (cases "admit m c l")
  with 2 have "limiter_ok (fst (serve l' calls))" using admit_ok [of l m c] by simp
  with a show ?case by (simp add: split_beta)
qed simp


section \<open>The window bound\<close>

definition limiter_seen :: "rat \<Rightarrow> limiter \<Rightarrow> bool" where
  "limiter_seen T l \<longleftrightarrow> seen_by T (read_bucket l) \<and> seen_by T (write_bucket l) \<and> seen_by T (total_bucket l)"

definition budget :: "rat \<Rightarrow> nat \<Rightarrow> bucket \<Rightarrow> bool" where
  \<comment> \<open>after \<open>n\<close> admissions since \<open>T0\<close>: what was spent and what is left came from the burst and the refill\<close>
  "budget T0 n b \<longleftrightarrow>
     of_nat n + tokens b \<le> of_int (capacity b) +
        rate b * (case updated b of None \<Rightarrow> 0 | Some u \<Rightarrow> max 0 (u - T0)) \<and>
     (n = 0 \<or> (\<exists>u. updated b = Some u \<and> T0 \<le> u))"

lemma limiter_seenD: "limiter_seen T l \<Longrightarrow> seen_by T (kind_bucket m l) \<and> seen_by T (total_bucket l)"
  by (simp add: limiter_seen_def kind_bucket_def)

lemma limiter_seenI:
  "limiter_seen T l \<Longrightarrow> seen_by T k \<Longrightarrow> seen_by T t \<Longrightarrow> limiter_seen T (set_selected m k t l)"
  by (auto simp: limiter_seen_def set_selected_def)

lemma debit_seen [simp]: "seen_by T (debit b) = seen_by T b"
  by (simp add: seen_by_def)

lemma admit_seen:
  assumes "limiter_seen T l" and "c \<le> T"
  shows "limiter_seen T (fst (admit m c l))"
proof -
  note s = limiter_seenD [OF assms(1), of m]
  have "clamp_now c (kind_bucket m l) (total_bucket l) \<le> T" using s assms(2) by (simp add: clamp_now_le)
  then show ?thesis
    using s assms(1) by (cases rule: admit_cases [of c m l]) (auto intro!: limiter_seenI refill_seen)
qed

lemma serve_seen:
  "limiter_seen T l \<Longrightarrow> \<forall>(m, c) \<in> set calls. c \<le> T \<Longrightarrow> limiter_seen T (fst (serve l calls))"
proof (induction l calls rule: serve.induct)
  case (2 l m c calls)
  obtain l' ok r where a: "admit m c l = (l', ok, r)" by (cases "admit m c l")
  with 2 have "limiter_seen T (fst (serve l' calls))" using admit_seen [of T l c m] by simp
  with a show ?case by (simp add: split_beta)
qed simp

lemma budget_refill:
  assumes "budget T0 n b" "0 < rate b" "tokens b \<le> of_int (capacity b)" "T0 \<le> now"
    "\<And>u. updated b = Some u \<Longrightarrow> u \<le> now"
  shows "of_nat n + tokens (refill now b) \<le> of_int (capacity b) + rate b * (now - T0)"
proof (cases "updated b")
  case None
  then have "n = 0" using assms(1) by (simp add: budget_def)
  moreover have "0 \<le> rate b * (now - T0)" using assms(2,4) by simp
  ultimately show ?thesis using None assms(2,3) by (simp add: refill_def)
next
  case (Some u)
  then have u: "u \<le> now" using assms(5) by simp
  have t: "tokens (refill now b) = min (of_int (capacity b)) (tokens b + (now - u) * rate b)"
    using Some assms(2) u by (simp add: refill_def Let_def)
  show ?thesis
  proof (cases "T0 \<le> u")
    case True
    then have "of_nat n + tokens b \<le> of_int (capacity b) + rate b * (u - T0)"
      using assms(1) Some by (simp add: budget_def)
    moreover have "rate b * (u - T0) + (now - u) * rate b = rate b * (now - T0)"
      by (simp add: algebra_simps)
    ultimately show ?thesis using t by linarith
  next
    case False
    then have "n = 0" using assms(1) Some by (auto simp: budget_def)
    moreover have "0 \<le> rate b * (now - T0)" using assms(2,4) by simp
    ultimately show ?thesis using t by (simp add: min_def)
  qed
qed

text \<open>
  What a bucket sees of the limiter's calls: those that use it refill it at a common time and take one
  token when admitted, the others leave it alone.
\<close>

locale metered =
  fixes uses :: "string \<Rightarrow> bool" and part :: "limiter \<Rightarrow> bucket"
  assumes used: "uses m \<Longrightarrow> now = clamp_now c (kind_bucket m l) (total_bucket l) \<Longrightarrow>
      part (fst (admit m c l)) =
        (if fst (snd (admit m c l)) then debit (refill now (part l)) else refill now (part l))"
    and paid: "uses m \<Longrightarrow> fst (snd (admit m c l)) \<Longrightarrow>
      wait_of (refill (clamp_now c (kind_bucket m l) (total_bucket l)) (part l)) = None"
    and unused: "\<not> uses m \<Longrightarrow> part (fst (admit m c l)) = part l"
    and clocked: "uses m \<Longrightarrow> updated (part l) = Some u \<Longrightarrow>
      u \<le> clamp_now c (kind_bucket m l) (total_bucket l)"
    and part_ok: "limiter_ok l \<Longrightarrow> bucket_ok (part l)"
    and part_seen: "limiter_seen T l \<Longrightarrow> seen_by T (part l)"
begin

lemma config_step: "rate (part (fst (admit m c l))) = rate (part l)"
  "capacity (part (fst (admit m c l))) = capacity (part l)"
  using used [of m _ c l] unused [of m c l] by (cases "uses m"; simp)+

lemma budget_step:
  assumes b: "budget T0 n (part l)" and r: "0 < rate (part l)" and ok: "limiter_ok l"
    and c: "T0 \<le> c"
  shows "budget T0 (n + (if uses m \<and> fst (snd (admit m c l)) then 1 else 0)) (part (fst (admit m c l)))"
proof (cases "uses m")
  case True
  define now where "now = clamp_now c (kind_bucket m l) (total_bucket l)"
  have now: "T0 \<le> now" using c by (simp add: now_def clamp_now_ge)
  have cap: "tokens (part l) \<le> of_int (capacity (part l))" using part_ok [OF ok] by (simp add: bucket_ok_def)
  have le: "of_nat n + tokens (refill now (part l)) \<le> of_int (capacity (part l)) + rate (part l) * (now - T0)"
    by (rule budget_refill [OF b r cap now]) (use clocked [OF True] in \<open>simp add: now_def\<close>)
  show ?thesis
    using le r now True used [OF True now_def]
    by (auto simp: budget_def refill_updated debit_def)
next
  case False
  then show ?thesis using b unused [OF False] by simp
qed

lemma budget_serve:
  assumes "budget T0 n (part l)" "0 < rate (part l)" "limiter_ok l" "\<forall>(m, c) \<in> set calls. T0 \<le> c"
  shows "budget T0 (n + admitted uses l calls) (part (fst (serve l calls)))"
  using assms
proof (induction calls arbitrary: l n)
  case Nil
  then show ?case by (simp add: admitted_def)
next
  case (Cons mc calls)
  obtain m c where mc: "mc = (m, c)" by (cases mc)
  obtain l' ok r where a: "admit m c l = (l', ok, r)" by (cases "admit m c l")
  let ?d = "if uses m \<and> ok then 1 else 0 :: nat"
  have "budget T0 (n + ?d) (part l')"
    using budget_step [of T0 n l c m] Cons.prems a mc by simp
  moreover have "0 < rate (part l')" using config_step(1) [of m c l] Cons.prems(2) a by simp
  moreover have "limiter_ok l'" using admit_ok [OF Cons.prems(3), of m c] a by simp
  ultimately have "budget T0 (n + ?d + admitted uses l' calls) (part (fst (serve l' calls)))"
    using Cons.IH Cons.prems(4) by simp
  moreover have "admitted uses l (mc # calls) = ?d + admitted uses l' calls"
    using a mc by (simp add: admitted_def split_beta)
  moreover have "fst (serve l (mc # calls)) = fst (serve l' calls)"
    using a mc by (simp add: split_beta)
  ultimately show ?case by (simp add: add.assoc)
qed

lemma window:
  assumes l: "limiter_ok l" "limiter_seen T1 l" and r: "0 < rate (part l)" and T: "T0 \<le> T1"
    and c: "\<forall>(m, c) \<in> set calls. T0 \<le> c \<and> c \<le> T1"
  shows "of_nat (admitted uses l calls) \<le> of_int (capacity (part l)) + rate (part l) * (T1 - T0)"
proof -
  let ?b = "part (fst (serve l calls))"
  have cfg: "rate ?b = rate (part l) \<and> capacity ?b = capacity (part l)"
  proof (induction l calls rule: serve.induct)
    case (2 l m c calls)
    then show ?case using config_step [of m c l] by (cases "admit m c l") (simp add: split_beta)
  qed simp
  have "budget T0 0 (part l)"
    using part_ok [OF l(1)] r
    by (auto simp: budget_def bucket_ok_def split: option.splits intro!: add_increasing2)
  then have "budget T0 (admitted uses l calls) ?b"
    using budget_serve [of T0 0 l calls] r l(1) c by fastforce
  then have *: "of_nat (admitted uses l calls) + tokens ?b \<le> of_int (capacity (part l)) +
      rate (part l) * (case updated ?b of None \<Rightarrow> 0 | Some u \<Rightarrow> max 0 (u - T0))"
    using cfg by (simp add: budget_def)
  have "limiter_seen T1 (fst (serve l calls))"
    by (rule serve_seen [OF l(2)]) (use c in fastforce)
  then have "seen_by T1 ?b" by (rule part_seen)
  then have "(case updated ?b of None \<Rightarrow> 0 | Some u \<Rightarrow> max 0 (u - T0)) \<le> T1 - T0"
    using T by (auto simp: seen_by_def split: option.splits)
  then have "rate (part l) * (case updated ?b of None \<Rightarrow> 0 | Some u \<Rightarrow> max 0 (u - T0)) \<le> rate (part l) * (T1 - T0)"
    using r by (simp add: mult_left_mono)
  moreover have "0 \<le> tokens ?b" using part_ok [OF serve_ok [OF l(1)]] by (simp add: bucket_ok_def)
  ultimately show ?thesis using * by linarith
qed

end

lemma admit_selected:
  fixes m c l
  defines "now \<equiv> clamp_now c (kind_bucket m l) (total_bucket l)"
  shows "kind_bucket m (fst (admit m c l)) = (if fst (snd (admit m c l))
           then debit (refill now (kind_bucket m l)) else refill now (kind_bucket m l))"
    and "total_bucket (fst (admit m c l)) = (if fst (snd (admit m c l))
           then debit (refill now (total_bucket l)) else refill now (total_bucket l))"
    and "fst (snd (admit m c l)) \<Longrightarrow> wait_of (refill now (kind_bucket m l)) = None"
    and "fst (snd (admit m c l)) \<Longrightarrow> wait_of (refill now (total_bucket l)) = None"
    and "is_read m' \<noteq> is_read m \<Longrightarrow> kind_bucket m' (fst (admit m c l)) = kind_bucket m' l"
  unfolding now_def
  by (rule admit_cases [where l = l and m = m and clock = c]; auto simp: selected_other)+

interpretation total_meter: metered "\<lambda>_. True" total_bucket
  by unfold_locales
     (auto simp: admit_selected clamp_now_bounds limiter_ok_def limiter_seen_def)

lemma read_is_kind: "is_read m \<Longrightarrow> read_bucket l = kind_bucket m l"
  and write_is_kind: "\<not> is_read m \<Longrightarrow> write_bucket l = kind_bucket m l"
  by (simp_all add: kind_bucket_def)

lemma admit_spares_read: "\<not> is_read m \<Longrightarrow> read_bucket (fst (admit m c l)) = read_bucket l"
  using admit_selected(5) [of "''GET''" m c l] by (simp add: kind_bucket_def is_read_def)

lemma admit_spares_write: "is_read m \<Longrightarrow> write_bucket (fst (admit m c l)) = write_bucket l"
  using admit_selected(5) [of "''POST''" m c l] by (simp add: kind_bucket_def is_read_def)

interpretation read_meter: metered is_read read_bucket
  by unfold_locales
     (auto simp: admit_selected admit_spares_read clamp_now_bounds limiter_ok_def limiter_seen_def
        read_is_kind)

interpretation write_meter: metered "\<lambda>m. \<not> is_read m" write_bucket
  by unfold_locales
     (auto simp: admit_selected admit_spares_write clamp_now_bounds limiter_ok_def limiter_seen_def
        write_is_kind)


section \<open>Waiting as told\<close>

lemma wait_served:
  assumes ok: "bucket_ok b" and u: "0 < rate b \<Longrightarrow> updated b = Some now" and t: "now \<le> later"
    and w: "\<And>w. wait_of b = Some w \<Longrightarrow> w \<le> later - now"
  shows "wait_of (refill later b) = None"
proof (cases "0 < rate b")
  case False
  then show ?thesis by (simp add: wait_of_def)
next
  case True
  have tok: "tokens (refill later b) = min (of_int (capacity b)) (tokens b + (later - now) * rate b)"
    using True u t by (simp add: refill_def Let_def)
  have "1 \<le> tokens b + (later - now) * rate b"
  proof (cases "1 \<le> tokens b")
    case True
    moreover have "0 \<le> (later - now) * rate b" using \<open>0 < rate b\<close> t by simp
    ultimately show ?thesis by linarith
  next
    case False
    then have "(1 - tokens b) / rate b \<le> later - now" using True w by (simp add: wait_of_def)
    then show ?thesis using True by (simp add: pos_divide_le_eq)
  qed
  moreover have "(1 :: rat) \<le> of_int (capacity b)" using ok by (simp add: bucket_ok_def)
  ultimately show ?thesis using tok by (simp add: wait_of_def)
qed

lemma fold_max_ge: "w \<in> set ws \<Longrightarrow> w \<le> fold max (tl ws) (hd ws)" for w :: rat
proof -
  have base: "x \<le> fold max xs x" for x :: rat and xs
    by (induction xs arbitrary: x) (simp, metis fold_simps(2) max.cobounded2 order_trans)
  have elem: "y \<in> set xs \<Longrightarrow> y \<le> fold max xs x" for x y :: rat and xs
  proof (induction xs arbitrary: x)
    case (Cons z xs)
    then show ?case using base [of "max z x" xs] by auto
  qed simp
  assume "w \<in> set ws"
  then show ?thesis using base elem by (cases ws) auto
qed

lemma wait_le_retry:
  assumes "wait_of b = Some w" and "b \<in> set bs"
  shows "w \<le> of_int (max 1 \<lceil>fold max (tl (List.map_filter wait_of bs)) (hd (List.map_filter wait_of bs))\<rceil>)"
proof -
  have "w \<in> set (List.map_filter wait_of bs)" using assms by (force simp: List.map_filter_def)
  from fold_max_ge [OF this] le_of_int_ceiling
  have "w \<le> of_int \<lceil>fold max (tl (List.map_filter wait_of bs)) (hd (List.map_filter wait_of bs))\<rceil>"
    by (rule order.trans)
  also have "\<dots> \<le> of_int (max 1 \<lceil>fold max (tl (List.map_filter wait_of bs)) (hd (List.map_filter wait_of bs))\<rceil>)"
    by (simp only: of_int_le_iff max.cobounded2)
  finally show ?thesis .
qed

lemma clamp_now_id: "limiter_seen c l \<Longrightarrow> clamp_now c (kind_bucket m l) (total_bucket l) = c"
  using limiter_seenD [of c l m] clamp_now_le [of c c] clamp_now_bounds(1) [of c] by (metis order.refl antisym)

lemma new_limiter_ok:
  assumes "new_limiter rr wr tr rb wb tb = Inr l"
  shows "limiter_ok l" "limiter_seen T l"
  using assms new_bucket_ok
  by (fastforce simp: new_limiter_def rbind_eq_Inr limiter_ok_def limiter_seen_def seen_by_def)+

lemma admit_after_wait:
  assumes ok: "limiter_ok l" and seen: "limiter_seen now l" and ref: "admit m now l = (l', False, r)"
    and later: "now + of_int r \<le> later" and kind: "is_read m' = is_read m"
  shows "1 \<le> r \<and> fst (snd (admit m' later l'))"
proof -
  let ?k = "refill now (kind_bucket m l)" and ?t = "refill now (total_bucket l)"
  note id = clamp_now_id [OF seen, of m]
  from ref have l': "l' = set_selected m ?k ?t l"
    and r: "r = max 1 \<lceil>fold max (tl (List.map_filter wait_of [?k, ?t])) (hd (List.map_filter wait_of [?k, ?t]))\<rceil>"
    by (cases rule: admit_cases [of now m l]; simp add: id)+
  have r1: "1 \<le> r" by (simp add: r)
  then have le: "now \<le> later" using later by (metis add_increasing2 of_int_0_le_iff order.trans order_refl zero_le_one)
  have bs: "bucket_ok ?k" "bucket_ok ?t" using limiter_okD [OF ok, of m] by (simp_all add: refill_ok)
  have "limiter_seen now l'" using admit_seen [OF seen order.refl, of m] ref by simp
  then have seen': "limiter_seen later l'"
    using le by (auto simp: limiter_seen_def seen_by_def intro: order.trans)
  have k: "kind_bucket m' l' = ?k" "total_bucket l' = ?t"
    using kind_bucket_cong [OF kind, of l'] by (simp_all add: l')
  have wait: "w \<le> later - now" if "wait_of b = Some w" "b \<in> set [?k, ?t]" for b w
    using wait_le_retry [OF that] r later by linarith
  have "wait_of (refill later ?k) = None" "wait_of (refill later ?t) = None"
    by (rule wait_served [OF _ _ le]; use bs wait in \<open>simp add: refill_updated\<close>)+
  moreover have "clamp_now later ?k ?t = later" using clamp_now_id [OF seen', of m'] by (simp add: k)
  ultimately have "fst (snd (admit m' later l'))"
    by (simp add: admit_def Let_def k List.map_filter_def)
  with r1 show ?thesis by simp
qed

section \<open>Properties\<close>

text \<open>
  C20. Rate bound.  Whatever happened before and in whatever order the clock is read, the calls of any
  window \<open>[T0, T1]\<close> that a configured bucket lets through number at most its burst plus its rate times
  the length of the window; this holds for the total, the read and the write bucket of a limiter built
  by the constructor.
\<close>

theorem rate_window_bound:
  assumes "new_limiter rr wr tr rb wb tb = Inr l0" and "serve l0 hist = (l, oks)"
    and "\<forall>(m, c) \<in> set hist. c \<le> T1" and "T0 \<le> T1" and "\<forall>(m, c) \<in> set calls. T0 \<le> c \<and> c \<le> T1"
  shows "(0 < rate (total_bucket l) \<longrightarrow> of_nat (admitted (\<lambda>_. True) l calls)
            \<le> of_int (capacity (total_bucket l)) + rate (total_bucket l) * (T1 - T0)) \<and>
         (0 < rate (read_bucket l) \<longrightarrow> of_nat (admitted is_read l calls)
            \<le> of_int (capacity (read_bucket l)) + rate (read_bucket l) * (T1 - T0)) \<and>
         (0 < rate (write_bucket l) \<longrightarrow> of_nat (admitted (\<lambda>m. \<not> is_read m) l calls)
            \<le> of_int (capacity (write_bucket l)) + rate (write_bucket l) * (T1 - T0))"
proof -
  have ok: "limiter_ok l" and seen: "limiter_seen T1 l"
    using serve_ok [of l0 hist] serve_seen [of T1 l0 hist] new_limiter_ok [OF assms(1)] assms(2,3) by simp_all
  show ?thesis
    using total_meter.window [OF ok seen _ assms(4,5)] read_meter.window [OF ok seen _ assms(4,5)]
      write_meter.window [OF ok seen _ assms(4,5)] by blast
qed

definition demo_limiter :: limiter where
  "demo_limiter = \<lparr>read_bucket = \<lparr>rate = 1, capacity = 2, tokens = 2, updated = None\<rparr>,
     write_bucket = \<lparr>rate = 0, capacity = 1, tokens = 1, updated = None\<rparr>,
     total_bucket = \<lparr>rate = 1 / 2, capacity = 3, tokens = 3, updated = None\<rparr>\<rparr>"

definition demo_calls :: "(string \<times> rat) list" where
  "demo_calls = [(''GET'', 10), (''GET'', 10), (''GET'', 10), (''POST'', 12), (''GET'', 12)]"

lemma demo_limiter_new:
  "new_limiter (JInt 1) (JInt 0) (JFloat (1 / 2)) (JInt 2) (JInt 1) (JInt 3) = Inr demo_limiter"
  by (simp add: new_limiter_def new_bucket_def demo_limiter_def)

theorem rate_window_bound_witness:
  "of_nat (admitted is_read demo_limiter demo_calls) \<le> (2 :: rat) + 1 * (12 - 10) \<and>
   admitted (\<lambda>_. True) demo_limiter demo_calls = 4"
proof -
  have "serve demo_limiter [] = (demo_limiter, [])" by simp
  from rate_window_bound [OF demo_limiter_new this, of 12 10 demo_calls]
  have "of_nat (admitted is_read demo_limiter demo_calls)
      \<le> of_int (capacity (read_bucket demo_limiter)) + rate (read_bucket demo_limiter) * (12 - 10)"
    by (simp add: demo_calls_def demo_limiter_def)
  moreover have "admitted (\<lambda>_. True) demo_limiter demo_calls = 4" by code_simp
  ultimately show ?thesis by (simp add: demo_limiter_def)
qed

text \<open>
  C21. A refused caller gets in after the wait it was told.  If no clock reading so far is ahead of
  \<open>now\<close> and the limiter refuses a request at \<open>now\<close> with \<^verbatim>\<open>retry_after\<close> \<open>r\<close>, then \<open>r\<close> is at least one second and the
  next request of that kind, made at any time from \<open>now + r\<close> on with nothing in between, is admitted.
\<close>

theorem rate_retry_admits:
  assumes "new_limiter rr wr tr rb wb tb = Inr l0" and "serve l0 hist = (l, oks)"
    and "\<forall>(m, c) \<in> set hist. c \<le> now" and "admit m now l = (l', False, r)"
    and "now + of_int r \<le> later" and "is_read m' = is_read m"
  shows "1 \<le> r \<and> fst (snd (admit m' later l'))"
proof -
  have ok: "limiter_ok l" and seen: "limiter_seen now l"
    using serve_ok [of l0 hist] serve_seen [of now l0 hist] new_limiter_ok [OF assms(1)] assms(2,3) by simp_all
  show ?thesis by (rule admit_after_wait [OF ok seen assms(4-6)])
qed

theorem rate_retry_admits_witness:
  "fst (snd (admit ''HEAD'' 14 (fst (admit ''GET'' 12 (fst (serve demo_limiter demo_calls)))))) \<and>
   snd (admit ''GET'' 12 (fst (serve demo_limiter demo_calls))) = (False, 2)"
proof -
  let ?l = "fst (serve demo_limiter demo_calls)"
  have r: "snd (admit ''GET'' 12 ?l) = (False, 2)" by code_simp
  have s: "serve demo_limiter demo_calls = (?l, snd (serve demo_limiter demo_calls))" by simp
  have a: "admit ''GET'' 12 ?l = (fst (admit ''GET'' 12 ?l), False, 2)"
    using r by (metis prod.collapse)
  have "\<forall>(m, c) \<in> set demo_calls. c \<le> 12" by (simp add: demo_calls_def)
  from rate_retry_admits [OF demo_limiter_new s this a, of 14 "''HEAD''"] r
  show ?thesis by (simp add: is_read_def)
qed

end
