(* ===== verification/Keyed_State.thy ===== *)
theory Keyed_State
  imports Json
begin

text \<open>
  \<^verbatim>\<open>server/keyed_state.py\<close>: the sharded \<^verbatim>\<open>{key: row}\<close> store behind every per-device document.  A store is
  its files: the legacy whole-fleet document, its retired copy and one JSON file per bucket, where the
  bucket of a key is the CRC-32 of its UTF-8 text modulo the number of shards.  Each operation returns
  the files it leaves and either its result or the exception it raises; which writes the operating
  system refuses is an argument, so that an operation can fail half-way; so is a failing directory
  sync, by which a write to a durable store raises although its content is in place.  Operations run under the
  shard locks of the source and are atomic per shard; a whole-fleet pass is modelled without another
  writer between its shards.  The opt-in snapshot cache, \<^verbatim>\<open>change_key\<close> and the lock-free readers
  \<^verbatim>\<open>read_all\<close> are not modelled.
\<close>

unbundle bit_operations_syntax

section \<open>Placement\<close>

text \<open>The reflected CRC-32: the register only ever shifts right, so it stays below \<open>2 ^ 32\<close>.\<close>

definition crc_step :: "int \<Rightarrow> int" where
  "crc_step c = (if odd c then c div 2 XOR 0xEDB88320 else c div 2)"

definition crc_byte :: "int \<Rightarrow> char \<Rightarrow> int" where
  "crc_byte c b = (crc_step ^^ 8) (c XOR of_char b)"

definition crc32 :: "bytes \<Rightarrow> int" where
  \<comment> \<open>\<^verbatim>\<open>zlib.crc32\<close>\<close>
  "crc32 s = foldl crc_byte 0xFFFFFFFF s XOR 0xFFFFFFFF"

definition utf8_text :: "string \<Rightarrow> bytes" where
  \<comment> \<open>\<^verbatim>\<open>key.encode("utf-8")\<close> of a Latin-1 text, which cannot fail\<close>
  "utf8_text s = concat (map (\<lambda>c. case utf8_char (of_char c) of Inr bs \<Rightarrow> bs | Inl _ \<Rightarrow> []) s)"

definition SHARD_COUNT :: nat where
  "SHARD_COUNT = 256"

definition bucket_of :: "string \<Rightarrow> nat \<Rightarrow> nat" where
  "bucket_of key n = nat (crc32 (utf8_text key) mod int n)"

section \<open>Files\<close>

datatype kerror =
    StoreError            \<comment> \<open>the owner's error type: state unreadable or corrupt\<close>
  | OSError               \<comment> \<open>the file system refused a write\<close>
  | Raised py_error       \<comment> \<open>an exception of a callback\<close>

datatype upd =
    Keep                  \<comment> \<open>the callback returned \<^verbatim>\<open>None\<close>\<close>
  | Delete                \<comment> \<open>\<^verbatim>\<open>DELETE\<close>\<close>
  | Put json

record kconfig =
  shards :: nat
  durable :: bool                       \<comment> \<open>\<^verbatim>\<open>self.durable\<close>: sync the directory after every change\<close>
  validate :: "(string \<Rightarrow> json \<Rightarrow> unit res) option"
  legacy_extract :: "(obj \<Rightarrow> kerror + json) option"

record kstore =
  legacy :: file_state                  \<comment> \<open>\<^verbatim>\<open>legacy_path\<close>\<close>
  retired :: file_state                 \<comment> \<open>\<^verbatim>\<open>legacy_path + ".migrated"\<close>\<close>
  shard_files :: "nat \<Rightarrow> file_state"
  migrated :: bool                      \<comment> \<open>\<^verbatim>\<open>self._migrated\<close>\<close>

text \<open>
  How the operating system answers a write: it is done, it is refused before the old file is touched, or
  the new file is in place and only the sync of its directory fails.
\<close>

datatype write_outcome = Synced | Refused | Unsynced

record faults =
  shard_io :: "nat \<Rightarrow> write_outcome"      \<comment> \<open>the write of this shard\<close>
  rename_ok :: bool
  guard_ok :: bool

definition shard_ok :: "faults \<Rightarrow> nat \<Rightarrow> bool" where
  "shard_ok io b \<longleftrightarrow> shard_io io b = Synced"

text \<open>
  JSON \<^verbatim>\<open>null\<close> is Python's \<^verbatim>\<open>None\<close>: a callback that returns it leaves the row alone, and a row that holds it
  looks absent to \<^verbatim>\<open>rows.get(key)\<close> and \<^verbatim>\<open>rows.pop(key, None)\<close>.
\<close>

definition returned :: "upd \<Rightarrow> upd" where
  "returned u = (if u = Put JNull then Keep else u)"

definition row_get :: "obj \<Rightarrow> string \<Rightarrow> json option" where
  "row_get rows key = (if dget rows key = Some JNull then None else dget rows key)"

type_synonym 'a kres = "kstore \<times> (kerror + 'a)"

definition kbind :: "'a kres \<Rightarrow> (kstore \<Rightarrow> 'a \<Rightarrow> 'b kres) \<Rightarrow> 'b kres" where
  "kbind m f = (case m of (s, Inl e) \<Rightarrow> (s, Inl e) | (s, Inr x) \<Rightarrow> f s x)"

definition lift_res :: "py_error + 'a \<Rightarrow> kerror + 'a" where
  "lift_res r = (case r of Inl e \<Rightarrow> Inl (Raised e) | Inr x \<Rightarrow> Inr x)"

primrec canon :: "json \<Rightarrow> json" where
  \<comment> \<open>what \<^verbatim>\<open>json.dump(sort_keys=True)\<close> followed by \<^verbatim>\<open>json.load\<close> gives back\<close>
  "canon JNull = JNull"
| "canon (JBool b) = JBool b"
| "canon (JInt n) = JInt n"
| "canon (JFloat r) = JFloat r"
| "canon (JStr s) = JStr s"
| "canon (JList xs) = JList (map canon xs)"
| "canon (JObj kvs) = JObj (sort_key fst (map (map_prod id canon) kvs))"

definition canon_rows :: "obj \<Rightarrow> obj" where
  "canon_rows rows = sort_key fst (map (map_prod id canon) rows)"

definition read_json :: "file_state \<Rightarrow> kerror + obj option" where
  "read_json f =
     (case f of
        Missing \<Rightarrow> Inr None
      | Corrupt \<Rightarrow> Inl StoreError
      | Content v \<Rightarrow> (case as_obj v of Some d \<Rightarrow> Inr (Some d) | None \<Rightarrow> Inl StoreError))"

definition validate_row :: "kconfig \<Rightarrow> string \<times> json \<Rightarrow> kerror + unit" where
  "validate_row cfg kv =
     (case validate cfg of
        None \<Rightarrow> Inr ()
      | Some f \<Rightarrow> (case f (fst kv) (snd kv) of
                    Inr _ \<Rightarrow> Inr ()
                  | Inl ValueError \<Rightarrow> Inl StoreError
                  | Inl e \<Rightarrow> Inl (Raised e)))"

definition read_shard :: "kconfig \<Rightarrow> kstore \<Rightarrow> nat \<Rightarrow> kerror + obj" where
  "read_shard cfg s b =
     rbind (read_json (shard_files s b)) (\<lambda>data.
       case data of
         None \<Rightarrow> Inr []
       | Some rows \<Rightarrow> rbind (each (validate_row cfg) rows) (\<lambda>_. Inr rows))"

definition stored :: "nat \<Rightarrow> obj \<Rightarrow> kstore \<Rightarrow> kstore" where
  \<comment> \<open>the shard once its rows are in place; a shard without rows has no file\<close>
  "stored b rows s =
     s\<lparr>shard_files := (shard_files s)(b := if rows = [] then Missing else Content (JObj (canon_rows rows)))\<rparr>"

definition write_shard :: "kconfig \<Rightarrow> faults \<Rightarrow> nat \<Rightarrow> obj \<Rightarrow> kstore \<Rightarrow> unit kres" where
  \<comment> \<open>the temporary file replaces the shard in one rename, and \<^verbatim>\<open>_fsync_directory\<close> comes after it\<close>
  "write_shard cfg io b rows s =
     (if rows = [] \<and> shard_files s b = Missing then (s, Inr ())
      else case shard_io io b of
             Refused \<Rightarrow> (s, Inl OSError)
           | Unsynced \<Rightarrow> (stored b rows s, if durable cfg then Inl OSError else Inr ())
           | Synced \<Rightarrow> (stored b rows s, Inr ()))"

section \<open>Migration\<close>

definition add_to_bucket :: "nat \<Rightarrow> (nat, obj) dict \<Rightarrow> string \<times> json \<Rightarrow> (nat, obj) dict" where
  \<comment> \<open>\<^verbatim>\<open>by_bucket.setdefault(bucket_of(key), {})[key] = row\<close>\<close>
  "add_to_bucket n d kv =
     (let b = bucket_of (fst kv) n;
          rows = (case dget d b of Some r \<Rightarrow> r | None \<Rightarrow> [])
      in dset b (dset (fst kv) (snd kv) rows) d)"

definition group_rows :: "kconfig \<Rightarrow> obj \<Rightarrow> kerror + (nat, obj) dict" where
  "group_rows cfg rows =
     rfold (\<lambda>d kv. rbind (validate_row cfg kv) (\<lambda>_. Inr (add_to_bucket (shards cfg) d kv))) [] rows"

definition merge_rows :: "obj \<Rightarrow> obj \<Rightarrow> obj" where
  \<comment> \<open>\<^verbatim>\<open>merged = dict(incoming); merged.update(current)\<close>\<close>
  "merge_rows incoming current = foldl (\<lambda>d (k, v). dset k v d) incoming current"

fun migrate_buckets :: "kconfig \<Rightarrow> faults \<Rightarrow> (nat \<times> obj) list \<Rightarrow> kstore \<Rightarrow> unit kres" where
  "migrate_buckets cfg io [] s = (s, Inr ())"
| "migrate_buckets cfg io ((b, incoming) # rest) s =
     (case read_shard cfg s b of
        Inl e \<Rightarrow> (s, Inl e)
      | Inr current \<Rightarrow>
          kbind (write_shard cfg io b (merge_rows incoming current) s) (\<lambda>s' _.
            migrate_buckets cfg io rest s'))"

definition legacy_rows :: "kconfig \<Rightarrow> file_state \<Rightarrow> kerror + obj" where
  "legacy_rows cfg f =
     rbind (read_json f) (\<lambda>doc.
       let rows = (case doc of Some d \<Rightarrow> d | None \<Rightarrow> [])
       in rbind (case legacy_extract cfg of None \<Rightarrow> Inr (JObj rows) | Some g \<Rightarrow> g rows) (\<lambda>v.
            case as_obj v of Some d \<Rightarrow> Inr d | None \<Rightarrow> Inl StoreError))"

definition leave_rollback_guard :: "faults \<Rightarrow> kstore \<Rightarrow> kstore" where
  \<comment> \<open>a text that is not JSON at the retired path; best effort\<close>
  "leave_rollback_guard io s = (if guard_ok io then s\<lparr>legacy := Corrupt\<rparr> else s)"

definition ensure_migrated :: "kconfig \<Rightarrow> faults \<Rightarrow> kstore \<Rightarrow> unit kres" where
  "ensure_migrated cfg io s =
     (if migrated s then (s, Inr ())
      else if retired s \<noteq> Missing then (s\<lparr>migrated := True\<rparr>, Inr ())
      else if legacy s = Missing then (s\<lparr>migrated := True\<rparr>, Inr ())
      else case rbind (legacy_rows cfg (legacy s)) (group_rows cfg) of
             Inl e \<Rightarrow> (s, Inl e)
           | Inr by_bucket \<Rightarrow>
               kbind (migrate_buckets cfg io by_bucket s) (\<lambda>s' _.
                 if rename_ok io
                 then ((leave_rollback_guard io
                          (s'\<lparr>retired := legacy s', legacy := Missing\<rparr>))\<lparr>migrated := True\<rparr>, Inr ())
                 else (s', Inl OSError)))"

section \<open>Keyed operations\<close>

definition get :: "kconfig \<Rightarrow> faults \<Rightarrow> string \<Rightarrow> kstore \<Rightarrow> json option kres" where
  "get cfg io key s =
     kbind (ensure_migrated cfg io s) (\<lambda>s' _.
       (s', rbind (read_shard cfg s' (bucket_of key (shards cfg))) (\<lambda>rows. Inr (row_get rows key))))"

definition update ::
  "kconfig \<Rightarrow> faults \<Rightarrow> string \<Rightarrow> (json option \<Rightarrow> upd res) \<Rightarrow> kstore \<Rightarrow> upd kres" where
  "update cfg io key fn s =
     kbind (ensure_migrated cfg io s) (\<lambda>s1 _.
       let b = bucket_of key (shards cfg)
       in case rbind (read_shard cfg s1 b) (\<lambda>rows.
                rbind (lift_res (fn (row_get rows key))) (\<lambda>u. Inr (rows, returned u))) of
            Inl e \<Rightarrow> (s1, Inl e)
          | Inr (rows, Keep) \<Rightarrow> (s1, Inr Keep)
          | Inr (rows, Delete) \<Rightarrow>
              if row_get rows key = None then (s1, Inr Delete)
              else kbind (write_shard cfg io b (ddel key rows) s1) (\<lambda>s2 _. (s2, Inr Delete))
          | Inr (rows, Put v) \<Rightarrow>
              kbind (write_shard cfg io b (dset key v rows) s1) (\<lambda>s2 _. (s2, Inr (Put v))))"

definition put :: "kconfig \<Rightarrow> faults \<Rightarrow> string \<Rightarrow> json \<Rightarrow> kstore \<Rightarrow> unit kres" where
  "put cfg io key value s =
     kbind (update cfg io key (\<lambda>_. Inr (Put value)) s) (\<lambda>s' _. (s', Inr ()))"

definition delete :: "kconfig \<Rightarrow> faults \<Rightarrow> string \<Rightarrow> kstore \<Rightarrow> bool kres" where
  "delete cfg io key s =
     kbind (ensure_migrated cfg io s) (\<lambda>s1 _.
       let b = bucket_of key (shards cfg)
       in case read_shard cfg s1 b of
            Inl e \<Rightarrow> (s1, Inl e)
          | Inr rows \<Rightarrow>
              if dget rows key = None then (s1, Inr False)
              else kbind (write_shard cfg io b (ddel key rows) s1) (\<lambda>s2 _. (s2, Inr True)))"

type_synonym batch = "obj \<times> bool \<times> (string, upd) dict"

definition batch_key :: "(string \<Rightarrow> json option \<Rightarrow> upd res) \<Rightarrow> batch \<Rightarrow> string \<Rightarrow> kerror + batch" where
  \<comment> \<open>one round of the inner loop of \<^verbatim>\<open>update_many\<close>: rows, dirty flag, results\<close>
  "batch_key fn st key =
     (case st of (rows, dirty, results) \<Rightarrow>
        rbind (lift_res (fn key (row_get rows key))) (\<lambda>u.
          case returned u of
            Keep \<Rightarrow> Inr (rows, dirty, results)
          | Delete \<Rightarrow> Inr (ddel key rows, dirty \<or> row_get rows key \<noteq> None, dset key Delete results)
          | Put v \<Rightarrow> Inr (dset key v rows, True, dset key (Put v) results)))"

fun update_buckets ::
  "kconfig \<Rightarrow> faults \<Rightarrow> (string \<Rightarrow> json option \<Rightarrow> upd res) \<Rightarrow> (nat \<times> string list) list \<Rightarrow>
   (string, upd) dict \<Rightarrow> kstore \<Rightarrow> (string, upd) dict kres" where
  "update_buckets cfg io fn [] results s = (s, Inr results)"
| "update_buckets cfg io fn ((b, keys) # rest) results s =
     (case rbind (read_shard cfg s b) (\<lambda>rows. rfold (batch_key fn) (rows, False, results) keys) of
        Inl e \<Rightarrow> (s, Inl e)
      | Inr (rows, dirty, results') \<Rightarrow>
          kbind (if dirty then write_shard cfg io b rows s else (s, Inr ())) (\<lambda>s' _.
            update_buckets cfg io fn rest results' s'))"

definition group_keys :: "nat \<Rightarrow> string list \<Rightarrow> (nat, string list) dict" where
  "group_keys n keys =
     foldl (\<lambda>d k. let b = bucket_of k n
                  in dset b ((case dget d b of Some ks \<Rightarrow> ks | None \<Rightarrow> []) @ [k]) d) [] keys"

definition update_many ::
  "kconfig \<Rightarrow> faults \<Rightarrow> string list \<Rightarrow> (string \<Rightarrow> json option \<Rightarrow> upd res) \<Rightarrow> kstore \<Rightarrow>
   (string, upd) dict kres" where
  "update_many cfg io keys fn s =
     kbind (ensure_migrated cfg io s) (\<lambda>s' _.
       update_buckets cfg io fn (group_keys (shards cfg) keys) [] s')"

section \<open>Whole-fleet operations\<close>

definition buckets :: "kconfig \<Rightarrow> kstore \<Rightarrow> nat list" where
  \<comment> \<open>the shard files that exist, in order\<close>
  "buckets cfg s = filter (\<lambda>b. shard_files s b \<noteq> Missing) [0..<shards cfg]"

definition snapshot :: "kconfig \<Rightarrow> faults \<Rightarrow> kstore \<Rightarrow> obj kres" where
  "snapshot cfg io s =
     kbind (ensure_migrated cfg io s) (\<lambda>s' _.
       (s', rfold (\<lambda>out b. rbind (read_shard cfg s' b) (\<lambda>rows. Inr (merge_rows out rows))) []
              (buckets cfg s')))"

type_synonym 'a sweep_fn = "'a \<Rightarrow> string \<Rightarrow> json \<Rightarrow> py_error + 'a \<times> upd"

definition sweep_key :: "'a sweep_fn \<Rightarrow> 'a \<times> obj \<times> nat \<Rightarrow> string \<times> json \<Rightarrow> kerror + ('a \<times> obj \<times> nat)" where
  \<comment> \<open>one row of a sweep; the callback may keep notes in \<open>'a\<close>\<close>
  "sweep_key fn st kv =
     (case st of (acc, rows, changed) \<Rightarrow>
        rbind (lift_res (fn acc (fst kv) (snd kv))) (\<lambda>(acc', u).
          case returned u of
            Keep \<Rightarrow> Inr (acc', rows, changed)
          | Delete \<Rightarrow> Inr (acc', ddel (fst kv) rows, Suc changed)
          | Put v \<Rightarrow> Inr (acc', dset (fst kv) v rows, Suc changed)))"

fun sweep_buckets ::
  "kconfig \<Rightarrow> faults \<Rightarrow> 'a sweep_fn \<Rightarrow> nat list \<Rightarrow> 'a \<times> nat \<Rightarrow> kstore \<Rightarrow> ('a \<times> nat) kres" where
  "sweep_buckets cfg io fn [] acc s = (s, Inr acc)"
| "sweep_buckets cfg io fn (b # rest) (acc, n) s =
     (case rbind (read_shard cfg s b) (\<lambda>rows. rfold (sweep_key fn) (acc, rows, 0) rows) of
        Inl e \<Rightarrow> (s, Inl e)
      | Inr (acc', rows', changed) \<Rightarrow>
          kbind (if 0 < changed then write_shard cfg io b rows' s else (s, Inr ())) (\<lambda>s' _.
            sweep_buckets cfg io fn rest (acc', n + changed) s'))"

definition sweep :: "kconfig \<Rightarrow> faults \<Rightarrow> 'a sweep_fn \<Rightarrow> 'a \<Rightarrow> kstore \<Rightarrow> ('a \<times> nat) kres" where
  "sweep cfg io fn acc s =
     kbind (ensure_migrated cfg io s) (\<lambda>s' _.
       sweep_buckets cfg io fn (buckets cfg s') (acc, 0) s')"

lemma crc32_check: "crc32 ''123456789'' = 0xCBF43926"
  by code_simp

end
