(* ===== verification/Peer_Endpoints.thy ===== *)
theory Peer_Endpoints
  imports Keyed_State Ipv4
begin

text \<open>
  \<^verbatim>\<open>server/peer_endpoints.py\<close>: the durable map from principals to the addresses they announced from, kept
  in a keyed store, and the tracker's queue of endpoint writes that have not succeeded yet.  Times are
  rationals; the effective TTL comes in as an argument.  The entry a queue holds is an object with an
  identity, because \<^verbatim>\<open>_drop_key\<close> compares with \<^verbatim>\<open>is\<close>.
\<close>

definition ENDPOINT_CAP :: nat where
  "ENDPOINT_CAP = 4"

definition ENDPOINT_TTL :: int where
  "ENDPOINT_TTL = 900"

definition SUPPORTED_DEVICES :: int where
  "SUPPORTED_DEVICES = 10000"

definition SERVICE_PRINCIPAL_HEADROOM :: int where
  "SERVICE_PRINCIPAL_HEADROOM = 256"

definition MAX_PRINCIPALS :: int where
  "MAX_PRINCIPALS = SUPPORTED_DEVICES + SERVICE_PRINCIPAL_HEADROOM"

definition endpoint_ttl :: "string option \<Rightarrow> int" where
  \<comment> \<open>the argument is the \<^verbatim>\<open>IRIS_ENDPOINT_TTL\<close> variable\<close>
  "endpoint_ttl raw =
     (case raw of
        None \<Rightarrow> ENDPOINT_TTL
      | Some t \<Rightarrow> (case py_int t of
                     Inl _ \<Rightarrow> ENDPOINT_TTL
                   | Inr v \<Rightarrow> if 1 \<le> v then v else ENDPOINT_TTL))"

definition principal_key :: "principal \<Rightarrow> string" where
  "principal_key p = ptype p @ '':'' @ pid p"

definition attributable :: "principal \<Rightarrow> bool" where
  "attributable p \<longleftrightarrow> ptype p = ''device'' \<or> ptype p = ''service''"

section \<open>Rows\<close>

fun ipv4_value :: "json \<Rightarrow> bool" where
  \<comment> \<open>what \<^verbatim>\<open>IPv4Address\<close> accepts: dotted text, or an integer in range (booleans are integers)\<close>
  "ipv4_value (JStr s) = (parse_ipv4 s \<noteq> None)"
| "ipv4_value (JInt n) = (0 \<le> n \<and> n < 2 ^ 32)"
| "ipv4_value (JBool b) = True"
| "ipv4_value _ = False"

fun port_value :: "json \<Rightarrow> bool" where
  "port_value (JInt n) = (1 \<le> n \<and> n \<le> 65535)"
| "port_value _ = False"

fun time_value :: "json \<Rightarrow> bool" where
  "time_value (JInt n) = True"
| "time_value (JFloat r) = True"
| "time_value _ = False"

definition endpoint_valid :: "json \<Rightarrow> bool" where
  "endpoint_valid ep =
     (case as_obj ep of
        None \<Rightarrow> False
      | Some d \<Rightarrow> ipv4_value (jget d ''ipv4'') \<and> port_value (jget d ''port'') \<and>
                  time_value (jget d ''observed_at''))"

definition validate_entry :: "string \<Rightarrow> json \<Rightarrow> unit res" where
  "validate_entry key entry =
     (case as_obj entry of
        None \<Rightarrow> Inl ValueError
      | Some d \<Rightarrow>
          (case as_list (jget d ''endpoints'') of
             None \<Rightarrow> Inl ValueError
           | Some eps \<Rightarrow>
               if as_str (jget d ''principal_type'') = None \<or> as_str (jget d ''principal_id'') = None
               then Inl ValueError
               else if list_all endpoint_valid eps then Inr () else Inl ValueError))"

definition legacy_principals :: "obj \<Rightarrow> kerror + json" where
  "legacy_principals doc =
     (if \<not> py_eq (jget doc ''schema'') (JInt 1) then Inl StoreError
      else case as_obj (jget doc ''principals'') of
             None \<Rightarrow> Inl StoreError
           | Some d \<Rightarrow> Inr (JObj d))"

definition endpoint_cfg :: kconfig where
  "endpoint_cfg = \<lparr>shards = SHARD_COUNT, durable = False, validate = Some validate_entry,
     legacy_extract = Some legacy_principals\<rparr>"

definition endpoint :: "string \<Rightarrow> int \<Rightarrow> rat \<Rightarrow> json" where
  "endpoint ipv4 port now =
     JObj [(''ipv4'', JStr ipv4), (''port'', JInt port), (''observed_at'', JFloat now),
           (''source'', JStr ''announce'')]"

definition row_endpoints :: "obj \<Rightarrow> json list res" where
  \<comment> \<open>\<^verbatim>\<open>entry["endpoints"]\<close> of a validated row\<close>
  "row_endpoints d = (case dget d ''endpoints'' of
       None \<Rightarrow> Inl KeyError
     | Some v \<Rightarrow> (case as_list v of Some eps \<Rightarrow> Inr eps | None \<Rightarrow> Inl TypeError))"

definition ep_get :: "json \<Rightarrow> string \<Rightarrow> json" where
  \<comment> \<open>\<^verbatim>\<open>e.get(k)\<close> of a validated endpoint\<close>
  "ep_get ep k = (case as_obj ep of Some d \<Rightarrow> jget d k | None \<Rightarrow> JNull)"

section \<open>Mutations\<close>

definition mutate :: "principal \<Rightarrow> string \<Rightarrow> int \<Rightarrow> rat \<Rightarrow> json option \<Rightarrow> upd res" where
  "mutate p ipv4 port now entry =
     (let d0 = (case entry of
            None \<Rightarrow> [(''principal_type'', JStr (ptype p)), (''principal_id'', JStr (pid p)),
                     (''updated_at'', JFloat now), (''endpoints'', JList [])]
          | Some e \<Rightarrow> obj_or_empty e)
      in rbind (row_endpoints d0) (\<lambda>eps.
         let kept = filter (\<lambda>e. \<not> py_eq (ep_get e ''ipv4'') (JStr ipv4)) eps;
             d1 = dset ''endpoints'' (JList (take ENDPOINT_CAP (endpoint ipv4 port now # kept))) d0
         in Inr (Put (JObj (dset ''updated_at'' (JFloat now) d1)))))"

definition record_endpoint :: "faults \<Rightarrow> principal \<Rightarrow> string \<Rightarrow> int \<Rightarrow> rat \<Rightarrow> kstore \<Rightarrow> bool kres" where
  "record_endpoint io p ipv4 port now s =
     (if \<not> attributable p then (s, Inr False)
      else kbind (update endpoint_cfg io (principal_key p) (mutate p ipv4 port now) s) (\<lambda>s' _. (s', Inr True)))"

definition clear_principal :: "faults \<Rightarrow> principal \<Rightarrow> kstore \<Rightarrow> unit kres" where
  "clear_principal io p s =
     kbind (delete endpoint_cfg io (principal_key p) s) (\<lambda>s' _. (s', Inr ()))"

type_synonym keep_pred = "(json \<Rightarrow> json \<Rightarrow> json \<Rightarrow> bool res) option"

definition is_fresh :: "obj \<Rightarrow> rat \<Rightarrow> int \<Rightarrow> keep_pred \<Rightarrow> json \<Rightarrow> bool" where
  \<comment> \<open>an exception of the predicate keeps the row\<close>
  "is_fresh entry now ttl keep ep =
     (let observed = (case as_obj ep of Some d \<Rightarrow> get_or d ''observed_at'' (JFloat 0) | None \<Rightarrow> JFloat 0)
      in (case as_num observed of Some t \<Rightarrow> now - t \<le> of_int ttl | None \<Rightarrow> False) \<or>
         (case keep of
            None \<Rightarrow> False
          | Some f \<Rightarrow>
              (case f (jget entry ''principal_type'') (jget entry ''principal_id'') (ep_get ep ''ipv4'') of
                 Inr b \<Rightarrow> b | Inl _ \<Rightarrow> True)))"

definition fresh_of :: "rat \<Rightarrow> int \<Rightarrow> keep_pred \<Rightarrow> obj \<Rightarrow> json list res" where
  "fresh_of now ttl keep d =
     rbind (row_endpoints d) (\<lambda>eps. Inr (filter (is_fresh d now ttl keep) eps))"

definition prune_visit :: "rat \<Rightarrow> int \<Rightarrow> keep_pred \<Rightarrow> (string, json) dict sweep_fn" where
  "prune_visit now ttl keep updated_at key entry =
     (let d = obj_or_empty entry
      in rbind (fresh_of now ttl keep d) (\<lambda>fresh.
         rbind (row_endpoints d) (\<lambda>eps.
         if fresh = [] then Inr (updated_at, Delete)
         else let notes = dset key (get_or d ''updated_at'' (JFloat 0)) updated_at
              in if length fresh = length eps then Inr (notes, Keep)
                 else Inr (notes, Put (JObj (dset ''endpoints'' (JList fresh) d))))))"

definition oldest_first :: "(string, json) dict \<Rightarrow> string list res" where
  \<comment> \<open>\<^verbatim>\<open>sorted(rows, key=lambda k: rows[k])\<close>; every row this module writes carries a float\<close>
  "oldest_first rows =
     (if list_all (\<lambda>(k, v). as_num v \<noteq> None) rows
      then Inr (map fst (sort_key (\<lambda>(k, v). the (as_num v)) rows))
      else Inl TypeError)"

fun delete_all :: "faults \<Rightarrow> string list \<Rightarrow> kstore \<Rightarrow> unit kres" where
  "delete_all io [] s = (s, Inr ())"
| "delete_all io (k # ks) s = kbind (delete endpoint_cfg io k s) (\<lambda>s' _. delete_all io ks s')"

definition enforce_principal_cap :: "faults \<Rightarrow> (string, json) dict \<Rightarrow> kstore \<Rightarrow> unit kres" where
  "enforce_principal_cap io rows s =
     (if int (length rows) \<le> MAX_PRINCIPALS then (s, Inr ())
      else case oldest_first rows of
             Inl e \<Rightarrow> (s, Inl (Raised e))
           | Inr ks \<Rightarrow> delete_all io (take (length rows - nat MAX_PRINCIPALS) ks) s)"

definition prune_endpoints :: "faults \<Rightarrow> int \<Rightarrow> rat \<Rightarrow> keep_pred \<Rightarrow> kstore \<Rightarrow> unit kres" where
  "prune_endpoints io ttl now keep s =
     kbind (sweep endpoint_cfg io (prune_visit now ttl keep) [] s) (\<lambda>s' res.
       enforce_principal_cap io (fst res) s')"

definition fresh_entry :: "rat \<Rightarrow> int \<Rightarrow> keep_pred \<Rightarrow> json \<Rightarrow> json option res" where
  "fresh_entry now ttl keep entry =
     (let d = obj_or_empty entry
      in rbind (fresh_of now ttl keep d) (\<lambda>fresh.
         Inr (if fresh = [] then None
              else Some (JObj [(''principal_type'', jget d ''principal_type''),
                               (''principal_id'', jget d ''principal_id''), (''endpoints'', JList fresh)]))))"

definition fresh_endpoints :: "faults \<Rightarrow> int \<Rightarrow> rat \<Rightarrow> keep_pred \<Rightarrow> kstore \<Rightarrow> obj kres" where
  "fresh_endpoints io ttl now keep s =
     kbind (snapshot endpoint_cfg io s) (\<lambda>s' rows.
       (s', lift_res (rfold (\<lambda>out kv. rbind (fresh_entry now ttl keep (snd kv)) (\<lambda>e.
              Inr (case e of None \<Rightarrow> out | Some v \<Rightarrow> dset (fst kv) v out))) [] rows)))"

section \<open>The pending queue\<close>

record pending_item =
  item_type :: string
  item_id :: string
  item_ipv4 :: string
  item_port :: int
  item_observed :: rat
  item_ref :: nat          \<comment> \<open>identity of the endpoint object\<close>

record pending_queue =
  queue_cap :: nat
  queue_items :: "(string, pending_item) dict"
  next_ref :: nat          \<comment> \<open>objects allocated so far\<close>

definition new_queue :: "nat \<Rightarrow> pending_queue" where
  "new_queue c = \<lparr>queue_cap = c, queue_items = [], next_ref = 0\<rparr>"

fun evict_oldest :: "nat \<Rightarrow> (string, pending_item) dict \<Rightarrow> (string, pending_item) dict" where
  \<comment> \<open>\<^verbatim>\<open>while len(items) > cap: del items[next(iter(items))]\<close>\<close>
  "evict_oldest c [] = []"
| "evict_oldest c (kv # items) = (if length (kv # items) > c then evict_oldest c items else kv # items)"

definition enqueue :: "principal \<Rightarrow> string \<Rightarrow> int \<Rightarrow> rat \<Rightarrow> pending_queue \<Rightarrow> pending_queue" where
  "enqueue p ipv4 port now q =
     (let item = \<lparr>item_type = ptype p, item_id = pid p, item_ipv4 = ipv4, item_port = port,
                  item_observed = now, item_ref = next_ref q\<rparr>
      in q\<lparr>queue_items := evict_oldest (queue_cap q) (dset (principal_key p) item (queue_items q)),
           next_ref := Suc (next_ref q)\<rparr>)"

definition resolve :: "principal \<Rightarrow> pending_queue \<Rightarrow> pending_queue" where
  "resolve p q = q\<lparr>queue_items := ddel (principal_key p) (queue_items q)\<rparr>"

definition item_row :: "pending_item \<Rightarrow> json" where
  "item_row it =
     JObj [(''principal_type'', JStr (item_type it)), (''principal_id'', JStr (item_id it)),
           (''endpoints'', JList [endpoint (item_ipv4 it) (item_port it) (item_observed it)])]"

definition queue_snapshot :: "pending_queue \<Rightarrow> obj" where
  "queue_snapshot q = map (\<lambda>(k, it). (k, item_row it)) (queue_items q)"

definition drop_key :: "string \<Rightarrow> nat option \<Rightarrow> pending_queue \<Rightarrow> pending_queue \<times> bool" where
  "drop_key key ref q =
     (case dget (queue_items q) key of
        None \<Rightarrow> (q, False)
      | Some it \<Rightarrow> if ref = None \<or> ref = Some (item_ref it)
                   then (q\<lparr>queue_items := ddel key (queue_items q)\<rparr>, True) else (q, False))"

text \<open>
  One retry pass over the items the queue held when it started.  \<open>env\<close> is what announces do to the queue
  while the write of a key is under way.
\<close>

type_synonym writer = "principal \<Rightarrow> string \<Rightarrow> int \<Rightarrow> rat \<Rightarrow> kstore \<Rightarrow> bool kres"

fun retry_items ::
  "writer \<Rightarrow> (string \<Rightarrow> pending_queue \<Rightarrow> pending_queue) \<Rightarrow> (string \<times> pending_item) list \<Rightarrow>
   string list \<Rightarrow> kstore \<times> pending_queue \<Rightarrow> (kstore \<times> pending_queue) \<times> (kerror + string list)" where
  "retry_items write env [] resolved (s, q) = ((s, q), Inr resolved)"
| "retry_items write env ((key, it) # items) resolved (s, q) =
     (case write \<lparr>ptype = item_type it, pid = item_id it\<rparr> (item_ipv4 it) (item_port it) (item_observed it) s of
        (s', Inl (Raised e)) \<Rightarrow> ((s', env key q), Inl (Raised e))
      | (s', Inl _) \<Rightarrow> retry_items write env items resolved (s', env key q)
      | (s', Inr _) \<Rightarrow>
          (case drop_key key (Some (item_ref it)) (env key q) of
             (q', dropped) \<Rightarrow>
               retry_items write env items (if dropped then resolved @ [key] else resolved) (s', q')))"

definition retry_pending ::
  "writer \<Rightarrow> (string \<Rightarrow> pending_queue \<Rightarrow> pending_queue) \<Rightarrow> kstore \<times> pending_queue \<Rightarrow>
   (kstore \<times> pending_queue) \<times> (kerror + string list)" where
  "retry_pending write env sq = retry_items write env (queue_items (snd sq)) [] sq"

end
