(* ===== verification/Keyed_Store.thy ===== *)
theory Keyed_Store
  imports Keyed_State
begin

text \<open>
  The sharded store against the map it stands for.  \<^verbatim>\<open>view\<close> reads a store as one \<^verbatim>\<open>{key: row}\<close> map, the
  rows of a legacy document that still waits for migration included; \<^verbatim>\<open>store_wf\<close> says that the
  shards are readable and every row is where its key belongs.  The lemmas follow the files through each
  operation, failed writes included.
\<close>

section \<open>Canonical rows\<close>

lemma sort_key_sorted_id: "sorted (map f xs) \<Longrightarrow> sort_key f xs = xs"
  by (rule sort_key_id_if_sorted)

lemma map_fst_map_prod [simp]: "map fst (map (map_prod id g) xs) = map fst xs"
  by (induction xs) auto

lemma sort_map_prod_idem:
  assumes "\<And>k v. (k, v) \<in> set xs \<Longrightarrow> g (g v) = g v"
  shows "sort_key fst (map (map_prod id g) (sort_key fst (map (map_prod id g) xs))) =
         sort_key fst (map (map_prod id g) xs)"
proof -
  let ?ys = "sort_key fst (map (map_prod id g) xs)"
  have "map (map_prod id g) ?ys = map id ?ys"
    using assms by (intro map_cong) auto
  then show ?thesis by (simp add: sort_key_id_if_sorted)
qed

lemma canon_idem [simp]: "canon (canon v) = canon v"
proof (induction v)
  case (JObj kvs)
  have "g2 \<in> set kvs \<Longrightarrow> canon (canon (snd g2)) = canon (snd g2)" for g2
    using JObj [of g2 "snd g2"] by (cases g2) (auto simp: snds.simps)
  then show ?case by (auto intro!: sort_map_prod_idem)
qed simp_all

lemma canon_JNull [simp]: "canon v = JNull \<longleftrightarrow> v = JNull"
  by (cases v) auto

lemma canon_rows_idem: "canon_rows (canon_rows rows) = canon_rows rows"
  unfolding canon_rows_def by (rule sort_map_prod_idem) simp

lemma canon_rows_Nil [simp]: "canon_rows rows = [] \<longleftrightarrow> rows = []"
  by (metis canon_rows_def length_0_conv length_map length_sort)

lemma canon_rows_empty [simp]: "canon_rows [] = []"
  by simp

lemma dwf_sort: "dwf (sort_key fst d) = dwf d"
  by (metis dwf_def distinct_map distinct_sort set_sort)

lemma dget_map_prod: "dget (map (map_prod id g) d) k = map_option g (dget d k)"
  by (induction d) auto

lemma dwf_canon_rows [simp]: "dwf (canon_rows rows) = dwf rows"
  by (simp add: canon_rows_def dwf_sort) (simp add: dwf_def)

lemma in_canon_rows: "(k, v) \<in> set (canon_rows rows) \<longleftrightarrow> (\<exists>w. (k, w) \<in> set rows \<and> v = canon w)"
  by (force simp: canon_rows_def)

lemma dget_filter: "dget d k = dget (filter (\<lambda>kv. fst kv = k) d) k"
  by (induction d) auto

lemma dget_sort_stable: "dget (sort_key fst d) k = dget d k"
  using dget_filter [of "sort_key fst d" k] dget_filter [of d k] sort_key_stable [of fst k d] by simp

lemma dget_canon: "dget (canon_rows d) k = map_option canon (dget d k)"
  by (simp add: canon_rows_def dget_sort_stable dget_map_prod)

lemma canon_obj: "canon (JObj d) = JObj (canon_rows d)"
  by (simp add: canon_rows_def)

lemma get_or_canon: "get_or (canon_rows d) k (canon v) = canon (get_or d k v)"
  by (cases "dget d k") (simp_all add: get_or_def dget_canon)

lemma jget_canon: "jget (canon_rows d) k = canon (jget d k)"
  using get_or_canon [of d k JNull] by simp

lemma as_str_canon [simp]: "as_str (canon v) = as_str v"
  by (cases v) auto

lemma as_num_canon [simp]: "as_num (canon v) = as_num v"
  by (cases v) auto

lemma as_list_canon [simp]: "as_list (canon v) = map_option (map canon) (as_list v)"
  by (cases v) auto

lemma as_obj_canon: "as_obj (canon v) = map_option canon_rows (as_obj v)"
  by (cases v) (auto simp: canon_rows_def)

lemma obj_or_empty_canon: "obj_or_empty (canon v) = canon_rows (obj_or_empty v)"
  by (cases v) (simp_all add: obj_or_empty_def canon_rows_def)

section \<open>Well-formed stores\<close>

fun orelse :: "'a option \<Rightarrow> 'a option \<Rightarrow> 'a option" where
  "orelse (Some v) y = Some v"
| "orelse None y = y"

lemma orelse_None [simp]: "orelse x None = x"
  by (cases x) auto

lemma orelse_canon: "map_option f (orelse x y) = (if x = None then map_option f y else map_option f x)"
  by (cases x) simp_all

lemma orelse_eq_None [simp]: "orelse x y = None \<longleftrightarrow> x = None \<and> y = None"
  by (cases x) auto

definition row_ok :: "kconfig \<Rightarrow> string \<times> json \<Rightarrow> bool" where
  "row_ok cfg kv \<longleftrightarrow> validate_row cfg kv = Inr () \<and> snd kv \<noteq> JNull"

definition rows_ok :: "kconfig \<Rightarrow> nat \<Rightarrow> obj \<Rightarrow> bool" where
  "rows_ok cfg b rows \<longleftrightarrow>
     dwf rows \<and> (\<forall>kv \<in> set rows. row_ok cfg kv \<and> bucket_of (fst kv) (shards cfg) = b)"

definition pending :: "kconfig \<Rightarrow> kstore \<Rightarrow> obj" where
  \<comment> \<open>rows of a legacy document that is still the source of truth\<close>
  "pending cfg s =
     (if migrated s \<or> retired s \<noteq> Missing \<or> legacy s = Missing then []
      else case legacy_rows cfg (legacy s) of Inr d \<Rightarrow> d | Inl _ \<Rightarrow> [])"

definition store_wf :: "kconfig \<Rightarrow> kstore \<Rightarrow> bool" where
  "store_wf cfg s \<longleftrightarrow>
     (\<forall>b. shard_files s b \<noteq> Missing \<longrightarrow> b < shards cfg) \<and>
     (\<forall>b. \<exists>rows. read_shard cfg s b = Inr rows \<and> rows_ok cfg b rows) \<and>
     dwf (pending cfg s) \<and> JNull \<notin> snd ` set (pending cfg s)"

definition config_ok :: "kconfig \<Rightarrow> bool" where
  \<comment> \<open>there is a shard, and the validator does not look at the order of keys\<close>
  "config_ok cfg \<longleftrightarrow> 0 < shards cfg \<and>
     (\<forall>k v. validate_row cfg (k, v) = Inr () \<longrightarrow> validate_row cfg (k, canon v) = Inr ())"

definition rows_of :: "kconfig \<Rightarrow> kstore \<Rightarrow> nat \<Rightarrow> obj" where
  "rows_of cfg s b = (case read_shard cfg s b of Inr rows \<Rightarrow> rows | Inl _ \<Rightarrow> [])"

definition shard_get :: "kconfig \<Rightarrow> kstore \<Rightarrow> string \<Rightarrow> json option" where
  "shard_get cfg s k = dget (rows_of cfg s (bucket_of k (shards cfg))) k"

definition view :: "kconfig \<Rightarrow> kstore \<Rightarrow> string \<Rightarrow> json option" where
  "view cfg s k =
     map_option canon (orelse (shard_get cfg s k) (dget (pending cfg s) k))"

lemma bucket_of_less: "config_ok cfg \<Longrightarrow> bucket_of k (shards cfg) < shards cfg"
  unfolding config_ok_def bucket_of_def
  by (metis nat_less_iff of_nat_0_less_iff pos_mod_bound pos_mod_sign)

lemma store_wf_read: "store_wf cfg s \<Longrightarrow> read_shard cfg s b = Inr (rows_of cfg s b)"
  unfolding store_wf_def rows_of_def by (metis sum.case(2))

lemma store_wf_rows: "store_wf cfg s \<Longrightarrow> rows_ok cfg b (rows_of cfg s b)"
  unfolding store_wf_def rows_of_def by (metis sum.case(2))

lemma rows_ok_dwf: "rows_ok cfg b rows \<Longrightarrow> dwf rows"
  by (simp add: rows_ok_def)

lemma rows_ok_get: "rows_ok cfg b rows \<Longrightarrow> dget rows k = Some v \<Longrightarrow> row_ok cfg (k, v) \<and> bucket_of k (shards cfg) = b"
  by (fastforce simp: rows_ok_def dwf_dget_iff)

lemma rows_ok_row_get: "rows_ok cfg b rows \<Longrightarrow> row_get rows k = dget rows k"
  using rows_ok_get [of cfg b rows k JNull] by (auto simp: row_get_def row_ok_def)

lemma rows_ok_Nil [simp]: "rows_ok cfg b []"
  by (simp add: rows_ok_def)

lemma rows_ok_single [simp]: "rows_ok cfg b [kv] \<longleftrightarrow> row_ok cfg kv \<and> bucket_of (fst kv) (shards cfg) = b"
  by (auto simp: rows_ok_def dwf_def)

lemma rows_ok_iff:
  "rows_ok cfg b rows \<longleftrightarrow>
     dwf rows \<and> (\<forall>k v. dget rows k = Some v \<longrightarrow> row_ok cfg (k, v) \<and> bucket_of k (shards cfg) = b)"
  by (fastforce simp: rows_ok_def dwf_dget_iff)

lemma rows_ok_dset:
  "rows_ok cfg b rows \<Longrightarrow> row_ok cfg (k, v) \<Longrightarrow> bucket_of k (shards cfg) = b \<Longrightarrow> rows_ok cfg b (dset k v rows)"
  by (auto simp: rows_ok_iff intro: dwf_dset)

lemma rows_ok_ddel: "rows_ok cfg b rows \<Longrightarrow> rows_ok cfg b (ddel k rows)"
  by (auto simp: rows_ok_iff intro: dwf_ddel)

lemma rows_ok_canon: "config_ok cfg \<Longrightarrow> rows_ok cfg b rows \<Longrightarrow> rows_ok cfg b (canon_rows rows)"
  by (auto simp: rows_ok_iff dget_canon row_ok_def config_ok_def)

lemma merge_rows_get: "dwf current \<Longrightarrow> dget (merge_rows incoming current) k =
    orelse (dget current k) (dget incoming k)"
proof (induction current arbitrary: incoming)
  case (Cons kv current)
  then have "dwf current" "fst kv \<notin> set (dkeys current)" by (auto simp: dwf_def)
  then show ?case
    using Cons.IH [of "dset (fst kv) (snd kv) incoming"] dget_None_iff [of current "fst kv"]
    by (cases "dget current k") (auto simp: merge_rows_def split_beta)
qed (simp add: merge_rows_def)

lemma merge_rows_dwf: "dwf incoming \<Longrightarrow> dwf (merge_rows incoming current)"
  by (induction current arbitrary: incoming) (auto simp: merge_rows_def intro: dwf_dset)

lemma merge_rows_ok:
  assumes "rows_ok cfg b incoming" "rows_ok cfg b current"
  shows "rows_ok cfg b (merge_rows incoming current)"
proof -
  have "row_ok cfg (k, v) \<and> bucket_of k (shards cfg) = b" if "dget (merge_rows incoming current) k = Some v" for k v
    using that assms merge_rows_get [OF rows_ok_dwf [OF assms(2)], of incoming k]
    by (cases "dget current k") (auto simp: rows_ok_iff)
  then show ?thesis using merge_rows_dwf [OF rows_ok_dwf [OF assms(1)]] by (simp add: rows_ok_iff)
qed

section \<open>One shard write\<close>

lemma read_json_Content_obj [simp]: "read_json (Content (JObj d)) = Inr (Some d)"
  by (simp add: read_json_def)

lemma read_json_Missing [simp]: "read_json Missing = Inr None"
  by (simp add: read_json_def)

lemma read_shard_cong: "shard_files s b = shard_files t b \<Longrightarrow> read_shard cfg s b = read_shard cfg t b"
  by (simp add: read_shard_def)

lemma rows_of_cong: "shard_files s b = shard_files t b \<Longrightarrow> rows_of cfg s b = rows_of cfg t b"
  using read_shard_cong [of s b t cfg] by (simp add: rows_of_def)

lemma each_validate_ok: "\<forall>kv \<in> set rows. row_ok cfg kv \<Longrightarrow> each (validate_row cfg) rows = Inr ()"
  by (simp add: each_Inr row_ok_def)

lemma write_shard_cases:
  assumes "write_shard cfg io b rows s = (s', r)"
  obtains (written) "s' = stored b rows s" "r = Inr () \<or> r = Inl OSError \<and> durable cfg \<and> shard_io io b = Unsynced"
  | (refused) "r = Inl OSError" "s' = s" "\<not> shard_ok io b"
proof -
  have *: "stored b [] s = s" if "shard_files s b = Missing"
    using that by (cases s) (simp add: stored_def fun_upd_idem)
  show thesis
    using assms * written refused
    by (auto simp: write_shard_def shard_ok_def split: if_splits write_outcome.splits)
qed

lemma write_shard_Inr: "write_shard cfg io b rows s = (s', Inr ()) \<Longrightarrow> s' = stored b rows s"
  by (erule write_shard_cases) simp_all

lemma write_shard_ok: "shard_ok io b \<Longrightarrow> write_shard cfg io b rows s = (stored b rows s, Inr ())"
  by (cases s) (auto simp: write_shard_def shard_ok_def stored_def fun_upd_idem)

lemma stored_frame [simp]:
  "legacy (stored b rows s) = legacy s" "retired (stored b rows s) = retired s"
  "migrated (stored b rows s) = migrated s" "pending cfg (stored b rows s) = pending cfg s"
  "b' \<noteq> b \<Longrightarrow> shard_files (stored b rows s) b' = shard_files s b'"
  by (simp_all add: stored_def pending_def)

lemma write_shard_frame:
  assumes "write_shard cfg io b rows s = (s', r)"
  shows "legacy s' = legacy s" "retired s' = retired s" "migrated s' = migrated s"
    "pending cfg s' = pending cfg s" "b' \<noteq> b \<Longrightarrow> shard_files s' b' = shard_files s b'"
  using assms by (cases rule: write_shard_cases; simp)+

lemma stored_rows:
  assumes "config_ok cfg" "rows_ok cfg b rows"
  shows "read_shard cfg (stored b rows s) b = Inr (canon_rows rows)" "rows_of cfg (stored b rows s) b = canon_rows rows"
proof -
  have "each (validate_row cfg) (canon_rows rows) = Inr ()"
    using rows_ok_canon [OF assms] by (intro each_validate_ok) (simp add: rows_ok_def)
  then show r: "read_shard cfg (stored b rows s) b = Inr (canon_rows rows)"
    by (auto simp: read_shard_def stored_def)
  show "rows_of cfg (stored b rows s) b = canon_rows rows" by (simp add: rows_of_def r)
qed

lemma stored_wf:
  assumes "config_ok cfg" "store_wf cfg s" "rows_ok cfg b rows" "b < shards cfg"
  shows "store_wf cfg (stored b rows s)"
proof -
  let ?s = "stored b rows s"
  have "\<exists>rows. read_shard cfg ?s b' = Inr rows \<and> rows_ok cfg b' rows" for b'
  proof (cases "b' = b")
    case True
    then show ?thesis using stored_rows(1) [OF assms(1,3)] rows_ok_canon [OF assms(1,3)] by blast
  next
    case False
    then show ?thesis
      using assms(2) read_shard_cong [of ?s b' s cfg] by (simp add: store_wf_def)
  qed
  moreover have "shard_files ?s b' \<noteq> Missing \<longrightarrow> b' < shards cfg" for b'
    using assms(2,4) by (cases "b' = b") (auto simp: store_wf_def)
  ultimately show ?thesis using assms(2) by (simp add: store_wf_def)
qed

lemma write_shard_wf:
  assumes "config_ok cfg" "store_wf cfg s" "rows_ok cfg b rows" "b < shards cfg"
    "write_shard cfg io b rows s = (s', r)"
  shows "store_wf cfg s'"
  using assms(5) stored_wf [OF assms(1-4)] assms(2) by (cases rule: write_shard_cases) simp_all

lemma stored_get:
  assumes "config_ok cfg" "rows_ok cfg b rows"
  shows "shard_get cfg (stored b rows s) k =
    (if bucket_of k (shards cfg) = b then map_option canon (dget rows k) else shard_get cfg s k)"
  using stored_rows(2) [OF assms] rows_of_cong [of "stored b rows s" "bucket_of k (shards cfg)" s cfg] dget_canon
  by (auto simp: shard_get_def)

lemma write_shard_get:
  assumes "config_ok cfg" "rows_ok cfg b rows" "write_shard cfg io b rows s = (s', Inr ())"
  shows "shard_get cfg s' k =
    (if bucket_of k (shards cfg) = b then map_option canon (dget rows k) else shard_get cfg s k)"
  using stored_get [OF assms(1,2)] write_shard_Inr [OF assms(3)] by simp


section \<open>Migration\<close>

definition grouped :: "nat \<Rightarrow> (nat, obj) dict \<Rightarrow> string \<Rightarrow> json option" where
  "grouped n d k = (case dget d (bucket_of k n) of Some rows \<Rightarrow> dget rows k | None \<Rightarrow> None)"

definition groups_ok :: "kconfig \<Rightarrow> (nat, obj) dict \<Rightarrow> bool" where
  "groups_ok cfg d \<longleftrightarrow> dwf d \<and> (\<forall>b rows. dget d b = Some rows \<longrightarrow> rows_ok cfg b rows \<and> b < shards cfg)"

lemma grouped_add:
  "grouped n (add_to_bucket n d kv) k = (if k = fst kv then Some (snd kv) else grouped n d k)"
  by (auto simp: grouped_def add_to_bucket_def Let_def split: option.splits)

lemma groups_ok_add:
  assumes "config_ok cfg" "groups_ok cfg d" "row_ok cfg kv"
  shows "groups_ok cfg (add_to_bucket (shards cfg) d kv)"
  using assms bucket_of_less [OF assms(1), of "fst kv"]
  by (auto simp: groups_ok_def add_to_bucket_def Let_def intro!: dwf_dset rows_ok_dset split: option.splits if_splits)

lemma group_rows_aux:
  assumes "config_ok cfg"
  shows "rfold (\<lambda>d kv. rbind (validate_row cfg kv) (\<lambda>_. Inr (add_to_bucket (shards cfg) d kv))) d0 rows = Inr d \<Longrightarrow>
    groups_ok cfg d0 \<Longrightarrow> dwf rows \<Longrightarrow> JNull \<notin> snd ` set rows \<Longrightarrow>
    groups_ok cfg d \<and> (\<forall>k. grouped (shards cfg) d k = orelse (dget rows k) (grouped (shards cfg) d0 k))"
proof (induction rows arbitrary: d0)
  case (Cons kv rows)
  let ?d = "add_to_bucket (shards cfg) d0 kv"
  from Cons.prems(1) have v: "validate_row cfg kv = Inr ()"
    and r: "rfold (\<lambda>d kv. rbind (validate_row cfg kv) (\<lambda>_. Inr (add_to_bucket (shards cfg) d kv))) ?d rows = Inr d"
    by (auto simp: rbind_eq_Inr)
  have ok: "groups_ok cfg ?d" by (rule groups_ok_add [OF assms Cons.prems(2)]) (use v Cons.prems(4) in \<open>auto simp: row_ok_def\<close>)
  have "dget rows (fst kv) = None" using Cons.prems(3) by (simp add: dwf_def dget_None_iff)
  then show ?case
    using Cons.IH [OF r ok] Cons.prems(3,4) by (auto simp: grouped_add dwf_def)
qed simp

lemma group_rows_ok:
  assumes "config_ok cfg" "group_rows cfg rows = Inr d" "dwf rows" "JNull \<notin> snd ` set rows"
  shows "groups_ok cfg d" "grouped (shards cfg) d k = dget rows k"
  using group_rows_aux [OF assms(1), of "[]" rows d] assms
  by (auto simp: group_rows_def groups_ok_def grouped_def split: option.splits)

definition moved :: "kconfig \<Rightarrow> (nat, obj) dict \<Rightarrow> kstore \<Rightarrow> kstore \<Rightarrow> bool \<Rightarrow> bool" where
  \<comment> \<open>rows only ever come in where there was none; on success all have\<close>
  "moved cfg bs s s' full \<longleftrightarrow>
     (\<forall>k. map_option canon (shard_get cfg s' k) = map_option canon (shard_get cfg s k) \<or>
          shard_get cfg s k = None \<and>
          map_option canon (shard_get cfg s' k) = map_option canon (grouped (shards cfg) bs k)) \<and>
     (full \<longrightarrow> (\<forall>k. map_option canon (shard_get cfg s' k) =
        map_option canon (orelse (shard_get cfg s k) (grouped (shards cfg) bs k))))"

lemma kbind_cases:
  assumes "kbind m f = (s', r)"
  obtains (stop) e where "m = (s', Inl e)" "r = Inl e" | (go) s x where "m = (s, Inr x)" "f s x = (s', r)"
  using assms by (cases m; cases "snd m") (auto simp: kbind_def)

lemma migrate_buckets_moved:
  assumes "config_ok cfg"
  shows "migrate_buckets cfg io bs s = (s', r) \<Longrightarrow> store_wf cfg s \<Longrightarrow> groups_ok cfg bs \<Longrightarrow>
    store_wf cfg s' \<and> legacy s' = legacy s \<and> retired s' = retired s \<and> migrated s' = migrated s \<and>
    moved cfg bs s s' (r = Inr ())"
proof (induction bs arbitrary: s)
  case Nil
  then show ?case by (auto simp: moved_def grouped_def)
next
  case (Cons bi rest)
  obtain b inc where bi: "bi = (b, inc)" by (cases bi)
  have inc: "rows_ok cfg b inc" "b < shards cfg" and rest: "groups_ok cfg rest" and nb: "dget rest b = None"
    using Cons.prems(3) unfolding bi by (auto simp: groups_ok_def dwf_def map_of_eq_None_iff split: if_splits dest: map_of_SomeD)
  let ?cur = "rows_of cfg s b"
  have cur: "rows_ok cfg b ?cur" by (rule store_wf_rows [OF Cons.prems(2)])
  have m: "rows_ok cfg b (merge_rows inc ?cur)" by (rule merge_rows_ok [OF inc(1) cur])
  have step: "kbind (write_shard cfg io b (merge_rows inc ?cur) s) (\<lambda>s' _. migrate_buckets cfg io rest s') = (s', r)"
    using Cons.prems(1) store_wf_read [OF Cons.prems(2), of b] by (simp add: bi)
  have g: "grouped (shards cfg) (bi # rest) k =
      (if bucket_of k (shards cfg) = b then dget inc k else grouped (shards cfg) rest k)" for k
    by (simp add: grouped_def bi)
  have g1: "shard_get cfg (stored b (merge_rows inc ?cur) s) k = (if bucket_of k (shards cfg) = b
      then map_option canon (orelse (shard_get cfg s k) (dget inc k)) else shard_get cfg s k)" for k
    using stored_get [OF assms m] merge_rows_get [OF rows_ok_dwf [OF cur]]
    by (auto simp: shard_get_def)
  from step show ?case
  proof (cases rule: kbind_cases)
    case (stop e)
    show ?thesis
    proof (cases rule: write_shard_cases [OF stop(1)])
      case 1
      then have "moved cfg (bi # rest) s s' (r = Inr ())"
        using g1 stop(2) by (auto simp: moved_def g option.map_comp comp_def orelse_canon)
      then show ?thesis using 1 stored_wf [OF assms Cons.prems(2) m inc(2)] by simp
    qed (use Cons.prems(2) stop(2) in \<open>auto simp: moved_def\<close>)
  next
    case (go s1 x)
    then have w: "write_shard cfg io b (merge_rows inc ?cur) s = (s1, Inr ())" by simp
    note s1 = write_shard_Inr [OF w]
    have wf1: "store_wf cfg s1" by (rule write_shard_wf [OF assms Cons.prems(2) m inc(2) w])
    note IH = Cons.IH [OF go(2) wf1 rest] and g1 = g1 [folded s1]
    have gr: "grouped (shards cfg) rest k = None" if "bucket_of k (shards cfg) = b" for k
      using nb that by (simp add: grouped_def)
    have mv: "moved cfg rest s1 s' (r = Inr ())" using IH by blast
    have "moved cfg (bi # rest) s s' (r = Inr ())"
      unfolding moved_def
    proof (intro conjI allI impI, goal_cases)
      case (1 k)
      then show ?case
        using mv [unfolded moved_def, THEN conjunct1, rule_format, of k] gr [of k]
        by (cases "shard_get cfg s k"; cases "bucket_of k (shards cfg) = b") (auto simp: g g1 option.map_comp comp_def)
    next
      case (2 k)
      then show ?case
        using mv [unfolded moved_def, THEN conjunct2, rule_format, of k] gr [of k]
        by (cases "shard_get cfg s k"; cases "bucket_of k (shards cfg) = b"; cases "dget inc k") (auto simp: g g1)
    qed
    then show ?thesis using IH write_shard_frame [OF w] by simp
  qed
qed

lemma moved_view:
  assumes "moved cfg bs s s' full" "\<And>k. grouped (shards cfg) bs k = dget (pending cfg s) k"
    "pending cfg s' = pending cfg s"
  shows "view cfg s' = view cfg s"
proof
  fix k
  show "view cfg s' k = view cfg s k"
    using assms(1) [unfolded moved_def, THEN conjunct1, rule_format, of k] assms(2,3)
    by (cases "shard_get cfg s k"; cases "shard_get cfg s' k") (auto simp: view_def)
qed

lemma moved_view_full:
  assumes "moved cfg bs s s' True" "\<And>k. grouped (shards cfg) bs k = dget (pending cfg s) k"
    "pending cfg s'' = []" "\<And>k. shard_get cfg s'' k = shard_get cfg s' k"
  shows "view cfg s'' = view cfg s"
proof
  fix k
  show "view cfg s'' k = view cfg s k"
    using assms(1) [unfolded moved_def, THEN conjunct2, rule_format, OF TrueI, of k]
    by (simp add: view_def assms(2-4))
qed

lemma store_wf_settle:
  assumes "store_wf cfg s" "shard_files t = shard_files s" "pending cfg t = []"
  shows "store_wf cfg t"
  using assms read_shard_cong [of t _ s cfg] by (simp add: store_wf_def)

lemma ensure_migrated_view:
  assumes c: "config_ok cfg" and wf: "store_wf cfg s" and e: "ensure_migrated cfg io s = (s', r)"
  shows "store_wf cfg s' \<and> view cfg s' = view cfg s \<and> (r = Inr () \<longrightarrow> pending cfg s' = [] \<and> migrated s')"
proof (cases "migrated s \<or> retired s \<noteq> Missing \<or> legacy s = Missing")
  case True
  then have p: "pending cfg s = []" by (auto simp: pending_def)
  have s': "s' = s\<lparr>migrated := True\<rparr>"
    using e True by (auto simp: ensure_migrated_def split: if_splits)
  then have "pending cfg s' = []" by (simp add: pending_def)
  then show ?thesis
    using p s' store_wf_settle [OF wf, of s'] rows_of_cong [of s' _ s cfg]
    by (auto simp: view_def shard_get_def fun_eq_iff)
next
  case False
  show ?thesis
  proof (cases "rbind (legacy_rows cfg (legacy s)) (group_rows cfg)")
    case (Inl x)
    then show ?thesis using e False wf by (auto simp: ensure_migrated_def)
  next
    case (Inr bs)
    then have lr: "legacy_rows cfg (legacy s) = Inr (pending cfg s)" and gr: "group_rows cfg (pending cfg s) = Inr bs"
      using False by (auto simp: rbind_eq_Inr pending_def)
    have pok: "dwf (pending cfg s)" "JNull \<notin> snd ` set (pending cfg s)" using wf by (simp_all add: store_wf_def)
    note ok = group_rows_ok [OF c gr pok]
    have "kbind (migrate_buckets cfg io bs s) (\<lambda>s' _.
        if rename_ok io then ((leave_rollback_guard io (s'\<lparr>retired := legacy s', legacy := Missing\<rparr>))\<lparr>migrated := True\<rparr>, Inr ())
        else (s', Inl OSError)) = (s', r)"
      using e False Inr by (simp add: ensure_migrated_def)
    then show ?thesis
    proof (cases rule: kbind_cases)
      case (stop x)
      note m = migrate_buckets_moved [OF c stop(1) wf ok(1)]
      then have "pending cfg s' = pending cfg s" by (simp add: pending_def)
      then show ?thesis using m moved_view [of cfg bs s s'] ok(2) stop(2) by auto
    next
      case (go s1 x)
      note m = migrate_buckets_moved [OF c go(1) wf ok(1)]
      then have p1: "pending cfg s1 = pending cfg s" by (simp add: pending_def)
      show ?thesis
      proof (cases "rename_ok io")
        case False
        then show ?thesis using go(2) m p1 moved_view [of cfg bs s s1] ok(2) by auto
      next
        case True
        then have r: "r = Inr ()" and s': "shard_files s' = shard_files s1" "migrated s'" "pending cfg s' = []"
          using go(2) by (auto simp: leave_rollback_guard_def pending_def split: if_splits)
        moreover have "shard_get cfg s' k = shard_get cfg s1 k" for k
          using rows_of_cong [of s' _ s1 cfg] s'(1) by (simp add: shard_get_def)
        moreover have "moved cfg bs s s1 True" using m by simp
        ultimately show ?thesis
          using store_wf_settle [of cfg s1 s'] m moved_view_full [of cfg bs s s1 s'] ok(2) by simp
      qed
    qed
  qed
qed


section \<open>Keyed operations\<close>

fun apply_upd :: "string \<Rightarrow> upd \<Rightarrow> (string \<Rightarrow> json option) \<Rightarrow> string \<Rightarrow> json option" where
  \<comment> \<open>the effect of a callback's answer on the map\<close>
  "apply_upd k Keep m = m"
| "apply_upd k Delete m = m(k := None)"
| "apply_upd k (Put v) m = m(k := Some (canon v))"

lemma view_settled: "pending cfg s = [] \<Longrightarrow> view cfg s k = map_option canon (shard_get cfg s k)"
  by (simp add: view_def)

definition old_row :: "kconfig \<Rightarrow> kstore \<Rightarrow> string \<Rightarrow> json option \<Rightarrow> bool" where
  \<comment> \<open>a row as a callback may see it: valid, and the map's row up to the order of keys\<close>
  "old_row cfg s key old \<longleftrightarrow>
     map_option canon old = view cfg s key \<and> (\<forall>v. old = Some v \<longrightarrow> row_ok cfg (key, v))"

lemma shard_get_old:
  assumes "store_wf cfg s" "pending cfg s = []"
  shows "old_row cfg s key (shard_get cfg s key)"
  using rows_ok_get [OF store_wf_rows [OF assms(1)]] assms(2)
  by (auto simp: old_row_def view_settled shard_get_def)

lemma row_get_shard: "store_wf cfg s \<Longrightarrow> row_get (rows_of cfg s (bucket_of key (shards cfg))) key = shard_get cfg s key"
  by (simp add: shard_get_def rows_ok_row_get [OF store_wf_rows])

definition late_fault :: "kconfig \<Rightarrow> faults \<Rightarrow> string \<Rightarrow> bool" where
  \<comment> \<open>the directory sync after the write of the key's shard fails\<close>
  "late_fault cfg io key \<longleftrightarrow> durable cfg \<and> shard_io io (bucket_of key (shards cfg)) = Unsynced"

lemma late_fault_not_ok: "late_fault cfg io key \<Longrightarrow> \<not> shard_ok io (bucket_of key (shards cfg))"
  by (simp add: late_fault_def shard_ok_def)

text \<open>Writing a shard whose rows changed at one key only.\<close>

lemma write_one:
  assumes c: "config_ok cfg" and wf: "store_wf cfg s" and p: "pending cfg s = []"
    and ok: "rows_ok cfg (bucket_of key (shards cfg)) rows"
    and at: "map_option canon (dget rows key) = x"
    and others: "\<And>k. k \<noteq> key \<Longrightarrow> dget rows k = dget (rows_of cfg s (bucket_of key (shards cfg))) k"
    and w: "write_shard cfg io (bucket_of key (shards cfg)) rows s = (s', r)"
  shows "store_wf cfg s'" "pending cfg s' = []"
    "r = Inr () \<and> view cfg s' = (view cfg s)(key := x) \<or>
     r = Inl OSError \<and> (view cfg s' = view cfg s \<or> late_fault cfg io key \<and> view cfg s' = (view cfg s)(key := x))"
proof -
  let ?s = "stored (bucket_of key (shards cfg)) rows s"
  show "store_wf cfg s'" by (rule write_shard_wf [OF c wf ok bucket_of_less [OF c] w])
  show p': "pending cfg s' = []" using write_shard_frame(4) [OF w] p by simp
  have ps: "pending cfg ?s = []" using p by simp
  have "view cfg ?s k = ((view cfg s)(key := x)) k" for k
    using stored_get [OF c ok, of s k] at others [of k]
    by (auto simp: view_settled [OF p] view_settled [OF ps] shard_get_def option.map_comp comp_def)
  then have "view cfg ?s = (view cfg s)(key := x)" by blast
  with w show "r = Inr () \<and> view cfg s' = (view cfg s)(key := x) \<or>
     r = Inl OSError \<and> (view cfg s' = view cfg s \<or> late_fault cfg io key \<and> view cfg s' = (view cfg s)(key := x))"
    by (cases rule: write_shard_cases) (auto simp: late_fault_def)
qed

definition decided :: "kconfig \<Rightarrow> kstore \<Rightarrow> string \<Rightarrow> (json option \<Rightarrow> upd res) \<Rightarrow> upd \<Rightarrow> kstore \<Rightarrow> bool" where
  \<comment> \<open>the map after the callback's answer \<open>w\<close> on the key's row\<close>
  "decided cfg s key fn w s' \<longleftrightarrow>
     (\<exists>old u0. old_row cfg s key old \<and> fn old = Inr u0 \<and> w = returned u0 \<and> view cfg s' = apply_upd key w (view cfg s))"

lemma get_view:
  assumes c: "config_ok cfg" and wf: "store_wf cfg s" and g: "get cfg io key s = (s', r)"
  shows "store_wf cfg s' \<and> view cfg s' = view cfg s \<and>
    (\<forall>v. r = Inr v \<longrightarrow> map_option canon v = view cfg s key)"
proof -
  from g have "kbind (ensure_migrated cfg io s) (\<lambda>s' _.
     (s', rbind (read_shard cfg s' (bucket_of key (shards cfg))) (\<lambda>rows. Inr (row_get rows key)))) = (s', r)"
    by (simp add: get_def)
  then show ?thesis
  proof (cases rule: kbind_cases)
    case (stop e)
    then show ?thesis using ensure_migrated_view [OF c wf stop(1)] by simp
  next
    case (go s1 x)
    note m = ensure_migrated_view [OF c wf go(1)]
    then show ?thesis
      using go(2) shard_get_old [of cfg s1 key] row_get_shard [of cfg s1 key] store_wf_read [of cfg s1]
      by (auto simp: old_row_def)
  qed
qed

lemma update_view:
  assumes c: "config_ok cfg" and wf: "store_wf cfg s" and u: "update cfg io key fn s = (s', r)"
    and legit: "\<And>old v. old_row cfg s key old \<Longrightarrow> fn old = Inr (Put v) \<Longrightarrow> v \<noteq> JNull \<Longrightarrow> row_ok cfg (key, v)"
  shows "store_wf cfg s'" and "r = Inr w \<Longrightarrow> decided cfg s key fn w s'"
    and "r = Inl e \<Longrightarrow> view cfg s' = view cfg s \<or> late_fault cfg io key \<and> e = OSError \<and> (\<exists>w. decided cfg s key fn w s')"
proof -
  have u: "kbind (ensure_migrated cfg io s) (\<lambda>s1 _.
       let b = bucket_of key (shards cfg)
       in case rbind (read_shard cfg s1 b) (\<lambda>rows.
                rbind (lift_res (fn (row_get rows key))) (\<lambda>u. Inr (rows, returned u))) of
            Inl e \<Rightarrow> (s1, Inl e)
          | Inr (rows, Keep) \<Rightarrow> (s1, Inr Keep)
          | Inr (rows, Delete) \<Rightarrow>
              if row_get rows key = None then (s1, Inr Delete)
              else kbind (write_shard cfg io b (ddel key rows) s1) (\<lambda>s2 _. (s2, Inr Delete))
          | Inr (rows, Put v) \<Rightarrow>
              kbind (write_shard cfg io b (dset key v rows) s1) (\<lambda>s2 _. (s2, Inr (Put v)))) = (s', r)"
    using u by (simp add: update_def)
  have "store_wf cfg s' \<and> (case r of Inr w \<Rightarrow> decided cfg s key fn w s'
     | Inl e \<Rightarrow> view cfg s' = view cfg s \<or> late_fault cfg io key \<and> e = OSError \<and> (\<exists>w. decided cfg s key fn w s'))"
    using u
  proof (cases rule: kbind_cases)
    case (stop e)
    then show ?thesis using ensure_migrated_view [OF c wf stop(1)] by simp
  next
    case (go s1 x)
    let ?b = "bucket_of key (shards cfg)"
    let ?rows = "rows_of cfg s1 ?b"
    have wf1: "store_wf cfg s1" and v1: "view cfg s1 = view cfg s" and p1: "pending cfg s1 = []"
      using ensure_migrated_view [OF c wf go(1)] by simp_all
    have old: "old_row cfg s key (shard_get cfg s1 key)"
      using shard_get_old [OF wf1 p1, of key] v1 by (simp add: old_row_def)
    note ok = store_wf_rows [OF wf1, of ?b]
    note step = go(2) [unfolded Let_def store_wf_read [OF wf1] rbind_Inr row_get_shard [OF wf1]]
    show ?thesis
    proof (cases "fn (shard_get cfg s1 key)")
      case (Inl e)
      then show ?thesis using step wf1 v1 by (auto simp: lift_res_def)
    next
      case (Inr u0)
      then have dec: "decided cfg s key fn w t" if "w = returned u0" "view cfg t = apply_upd key w (view cfg s)" for w t
        using old that unfolding decided_def by blast
      show ?thesis
      proof (cases "returned u0")
        case Keep
        then show ?thesis using step wf1 v1 Inr dec by (auto simp: lift_res_def)
      next
        case Delete
        show ?thesis
        proof (cases "shard_get cfg s1 key")
          case None
          then have "view cfg s key = None" using old by (simp add: old_row_def)
          then have "(view cfg s)(key := None) = view cfg s" by (simp add: fun_upd_idem)
          then show ?thesis using step wf1 v1 Inr Delete None dec
            by (auto simp: lift_res_def row_get_shard)
        next
          case (Some y)
          obtain s2 r2 where w: "write_shard cfg io ?b (ddel key ?rows) s1 = (s2, r2)" by fastforce
          note one = write_one [OF c wf1 p1 rows_ok_ddel [OF ok] _ _ w, of None]
          show ?thesis
            using step one v1 Inr Delete Some w wf1 dec [of Delete s2]
            by (cases r2) (auto simp: lift_res_def kbind_def row_get_shard)
        qed
      next
        case (Put v)
        then have u0: "u0 = Put v" "v \<noteq> JNull" by (auto simp: returned_def split: if_splits)
        then have rv: "row_ok cfg (key, v)" using legit [OF old] Inr by simp
        obtain s2 r2 where w: "write_shard cfg io ?b (dset key v ?rows) s1 = (s2, r2)" by fastforce
        note one = write_one [OF c wf1 p1 rows_ok_dset [OF ok rv refl] _ _ w, of "Some (canon v)"]
        show ?thesis
          using step one v1 Inr Put u0 w wf1 dec [of "Put v" s2]
          by (cases r2) (auto simp: lift_res_def kbind_def)
      qed
    qed
  qed
  then show "store_wf cfg s'" and "r = Inr w \<Longrightarrow> decided cfg s key fn w s'"
    and "r = Inl e \<Longrightarrow> view cfg s' = view cfg s \<or> late_fault cfg io key \<and> e = OSError \<and> (\<exists>w. decided cfg s key fn w s')"
    by (auto split: sum.splits)
qed

lemma delete_view:
  assumes c: "config_ok cfg" and wf: "store_wf cfg s" and d: "delete cfg io key s = (s', r)"
  shows "store_wf cfg s' \<and>
    (case r of
       Inr b \<Rightarrow> view cfg s' = (view cfg s)(key := None) \<and> b = (view cfg s key \<noteq> None)
     | Inl e \<Rightarrow> view cfg s' = view cfg s \<or> late_fault cfg io key \<and> e = OSError \<and> view cfg s' = (view cfg s)(key := None))"
proof -
  let ?b = "bucket_of key (shards cfg)"
  from d have "kbind (ensure_migrated cfg io s) (\<lambda>s1 _.
     case read_shard cfg s1 ?b of
            Inl e \<Rightarrow> (s1, Inl e)
          | Inr rows \<Rightarrow>
              if dget rows key = None then (s1, Inr False)
              else kbind (write_shard cfg io ?b (ddel key rows) s1) (\<lambda>s2 _. (s2, Inr True))) = (s', r)"
    by (simp add: delete_def Let_def)
  then show ?thesis
  proof (cases rule: kbind_cases)
    case (stop e)
    then show ?thesis using ensure_migrated_view [OF c wf stop(1)] by simp
  next
    case (go s1 x)
    let ?rows = "rows_of cfg s1 ?b"
    have wf1: "store_wf cfg s1" and v1: "view cfg s1 = view cfg s" and p1: "pending cfg s1 = []"
      using ensure_migrated_view [OF c wf go(1)] by simp_all
    have vk: "view cfg s key = map_option canon (dget ?rows key)"
      using view_settled [OF p1, of key] v1 by (simp add: shard_get_def)
    obtain s2 r2 where w: "write_shard cfg io ?b (ddel key ?rows) s1 = (s2, r2)" by fastforce
    note one = write_one [OF c wf1 p1 rows_ok_ddel [OF store_wf_rows [OF wf1]] _ _ w, of None]
    have none: "(view cfg s)(key := None) = view cfg s" if "dget ?rows key = None"
      using vk that by (simp add: fun_upd_idem)
    show ?thesis
      using go(2) [unfolded store_wf_read [OF wf1]] one v1 vk w none wf1
      by (cases "dget ?rows key"; cases r2) (auto simp: kbind_def)
  qed
qed


section \<open>Whole-fleet operations\<close>

definition all_rows :: "kconfig \<Rightarrow> kstore \<Rightarrow> obj" where
  "all_rows cfg s = concat (map (rows_of cfg s) (buckets cfg s))"

lemma rows_of_Missing: "shard_files s b = Missing \<Longrightarrow> rows_of cfg s b = []"
  by (simp add: rows_of_def read_shard_def)

lemma bucket_listed:
  assumes "store_wf cfg s" "shard_get cfg s k = Some v"
  shows "bucket_of k (shards cfg) \<in> set (buckets cfg s)"
proof -
  let ?b = "bucket_of k (shards cfg)"
  have "shard_files s ?b \<noteq> Missing"
    using assms(2) rows_of_Missing [of s ?b cfg] by (auto simp: shard_get_def)
  then show ?thesis using assms(1) by (simp add: buckets_def store_wf_def)
qed

lemma distinct_buckets [simp]: "distinct (buckets cfg s)"
  by (simp add: buckets_def)

lemma rows_of_get:
  "store_wf cfg s \<Longrightarrow> dget (rows_of cfg s b) k = (if bucket_of k (shards cfg) = b then shard_get cfg s k else None)"
  using rows_ok_get [OF store_wf_rows, of cfg s b k] by (cases "dget (rows_of cfg s b) k") (auto simp: shard_get_def)

lemma dget_concat_rows:
  assumes "store_wf cfg s"
  shows "dget (concat (map (rows_of cfg s) bs)) k =
    (if bucket_of k (shards cfg) \<in> set bs then shard_get cfg s k else None)"
  by (induction bs) (auto simp: map_add_def rows_of_get [OF assms] split: option.splits)

lemma dwf_concat_rows:
  assumes "store_wf cfg s" "distinct bs"
  shows "dwf (concat (map (rows_of cfg s) bs))"
  using assms(2)
proof (induction bs)
  case (Cons b bs)
  have "fst ` set (rows_of cfg s b) \<inter> fst ` set (concat (map (rows_of cfg s) bs)) = {}"
  proof -
    have "False" if "k \<in> fst ` set (rows_of cfg s b)" "k \<in> fst ` set (concat (map (rows_of cfg s) bs))" for k
    proof -
      from that(1) have "dget (rows_of cfg s b) k \<noteq> None" by (simp add: map_of_eq_None_iff)
      then have "bucket_of k (shards cfg) = b" using rows_of_get [OF assms(1), of b k] by (auto split: if_splits)
      moreover have "dget (concat (map (rows_of cfg s) bs)) k \<noteq> None"
        using that(2) by (simp only: map_of_eq_None_iff not_not)
      then have "bucket_of k (shards cfg) \<in> set bs" using dget_concat_rows [OF assms(1), of bs k] by (auto split: if_splits)
      ultimately show False using Cons.prems by simp
    qed
    then show ?thesis by blast
  qed
  moreover have "distinct (map fst (concat (map (rows_of cfg s) bs)))" using Cons by (simp add: dwf_def)
  moreover have "distinct (map fst (rows_of cfg s b))"
    using store_wf_rows [OF assms(1), of b] by (simp add: rows_ok_def dwf_def)
  ultimately show ?case by (simp add: dwf_def del: set_concat)
qed simp

lemma all_rows_get: "store_wf cfg s \<Longrightarrow> dget (all_rows cfg s) k = shard_get cfg s k"
  using bucket_listed [of cfg s k] by (cases "shard_get cfg s k") (auto simp: all_rows_def dget_concat_rows)

lemma all_rows_dwf: "store_wf cfg s \<Longrightarrow> dwf (all_rows cfg s)"
  by (simp add: all_rows_def dwf_concat_rows)

lemma all_rows_ok: "store_wf cfg s \<Longrightarrow> (k, v) \<in> set (all_rows cfg s) \<Longrightarrow> row_ok cfg (k, v)"
  using store_wf_rows [of cfg s] by (force simp: all_rows_def rows_ok_def)

lemma snapshot_fold:
  assumes wf: "store_wf cfg s"
  shows "dwf out \<Longrightarrow> \<exists>out'. rfold (\<lambda>out b. rbind (read_shard cfg s b) (\<lambda>rows. Inr (merge_rows out rows))) out bs = Inr out' \<and>
    dwf out' \<and> (\<forall>k. dget out' k = (if bucket_of k (shards cfg) \<in> set bs then orelse (shard_get cfg s k) (dget out k) else dget out k))"
proof (induction bs arbitrary: out)
  case (Cons b bs)
  let ?o = "merge_rows out (rows_of cfg s b)"
  have "dget ?o k = orelse (dget (rows_of cfg s b) k) (dget out k)" for k
    by (rule merge_rows_get [OF rows_ok_dwf [OF store_wf_rows [OF wf]]])
  then have g: "dget ?o k = (if bucket_of k (shards cfg) = b then orelse (shard_get cfg s k) (dget out k) else dget out k)" for k
    by (simp add: rows_of_get [OF wf])
  obtain out' where o: "rfold (\<lambda>out b. rbind (read_shard cfg s b) (\<lambda>rows. Inr (merge_rows out rows))) ?o bs = Inr out'"
    "dwf out'" and g': "\<forall>k. dget out' k = (if bucket_of k (shards cfg) \<in> set bs then orelse (shard_get cfg s k) (dget ?o k) else dget ?o k)"
    using Cons.IH [OF merge_rows_dwf [OF Cons.prems]] by blast
  have "dget out' k = (if bucket_of k (shards cfg) \<in> set (b # bs) then orelse (shard_get cfg s k) (dget out k) else dget out k)" for k
    using g' g [of k] by (cases "shard_get cfg s k") auto
  then show ?case using o by (simp add: store_wf_read [OF wf])
qed simp

lemma snapshot_view:
  assumes c: "config_ok cfg" and wf: "store_wf cfg s" and sn: "snapshot cfg io s = (s', r)"
  shows "store_wf cfg s' \<and> view cfg s' = view cfg s \<and>
    (\<forall>rows. r = Inr rows \<longrightarrow> dwf rows \<and> (\<forall>k. old_row cfg s k (dget rows k)))"
proof -
  from sn have "kbind (ensure_migrated cfg io s) (\<lambda>s' _.
     (s', rfold (\<lambda>out b. rbind (read_shard cfg s' b) (\<lambda>rows. Inr (merge_rows out rows))) [] (buckets cfg s'))) = (s', r)"
    by (simp add: snapshot_def)
  then show ?thesis
  proof (cases rule: kbind_cases)
    case (stop e)
    then show ?thesis using ensure_migrated_view [OF c wf stop(1)] by simp
  next
    case (go s1 x)
    have wf1: "store_wf cfg s1" and v1: "view cfg s1 = view cfg s" and p1: "pending cfg s1 = []"
      using ensure_migrated_view [OF c wf go(1)] by simp_all
    obtain out where out: "rfold (\<lambda>out b. rbind (read_shard cfg s1 b) (\<lambda>rows. Inr (merge_rows out rows))) [] (buckets cfg s1) = Inr out"
      "dwf out" and g: "\<forall>k. dget out k = (if bucket_of k (shards cfg) \<in> set (buckets cfg s1) then orelse (shard_get cfg s1 k) None else None)"
      using snapshot_fold [OF wf1, of "[]" "buckets cfg s1"] by auto
    have "dget out k = shard_get cfg s1 k" for k
      using g bucket_listed [OF wf1, of k] by (cases "shard_get cfg s1 k") auto
    then have "old_row cfg s k (dget out k)" for k
      using shard_get_old [OF wf1 p1, of k] v1 by (simp add: old_row_def)
    then show ?thesis using go(2) out wf1 v1 by auto
  qed
qed

subsection \<open>Sweeps\<close>

fun upd_value :: "upd \<Rightarrow> json \<Rightarrow> json option" where
  "upd_value Keep v = Some v"
| "upd_value Delete v = None"
| "upd_value (Put w) v = Some w"

definition swept :: "(string \<Rightarrow> json \<Rightarrow> upd) \<Rightarrow> string \<Rightarrow> json option \<Rightarrow> json option" where
  "swept dec k old = Option.bind old (\<lambda>v. upd_value (returned (dec k v)) v)"

definition sweep_fn_ok ::
  "kconfig \<Rightarrow> 'a sweep_fn \<Rightarrow> ('a \<Rightarrow> string \<Rightarrow> json \<Rightarrow> 'a) \<Rightarrow> (string \<Rightarrow> json \<Rightarrow> upd) \<Rightarrow> bool" where
  \<comment> \<open>on valid rows the callback does not raise, decides by the row alone and puts valid rows\<close>
  "sweep_fn_ok cfg fn note dec \<longleftrightarrow>
     (\<forall>acc k v. row_ok cfg (k, v) \<longrightarrow> fn acc k v = Inr (note acc k v, dec k v) \<and>
        (\<forall>w. dec k v = Put w \<longrightarrow> w \<noteq> JNull \<longrightarrow> row_ok cfg (k, w)))"

lemma sweep_rows:
  assumes fn: "sweep_fn_ok cfg fn note dec"
  shows "rows_ok cfg b todo \<Longrightarrow> rows_ok cfg b rows \<Longrightarrow>
    (\<And>k v. dget todo k = Some v \<Longrightarrow> dget rows k = Some v) \<Longrightarrow>
    \<exists>rows' n'. rfold (sweep_key fn) (acc, rows, n) todo =
        Inr (foldl (\<lambda>a (k, v). note a k v) acc todo, rows', n') \<and>
      rows_ok cfg b rows' \<and> n \<le> n' \<and> (n' = n \<longrightarrow> rows' = rows) \<and>
      (\<forall>k. dget rows' k = (if k \<in> fst ` set todo then swept dec k (dget rows k) else dget rows k))"
proof (induction todo arbitrary: acc rows n)
  case Nil
  then show ?case by simp
next
  case (Cons kv todo)
  obtain k v where kv: "kv = (k, v)" by (cases kv)
  have rk: "row_ok cfg (k, v)" "bucket_of k (shards cfg) = b" and todo: "rows_ok cfg b todo" and nk: "k \<notin> fst ` set todo"
    using Cons.prems(1) unfolding kv by (auto simp: rows_ok_def dwf_def)
  have f: "fn acc k v = Inr (note acc k v, dec k v)" using fn rk(1) by (simp add: sweep_fn_ok_def)
  have at: "dget rows k = Some v" using Cons.prems(3) [of k v] by (simp add: kv)
  define rows1 n1 where "rows1 = (case returned (dec k v) of Keep \<Rightarrow> rows | Delete \<Rightarrow> ddel k rows | Put w \<Rightarrow> dset k w rows)"
    and "n1 = (if returned (dec k v) = Keep then n else Suc n)"
  have one: "sweep_key fn (acc, rows, n) kv = Inr (note acc k v, rows1, n1)"
    by (auto simp: sweep_key_def kv f lift_res_def rows1_def n1_def split: upd.splits)
  have ok1: "rows_ok cfg b rows1"
    using Cons.prems(2) rk fn
    by (auto simp: rows1_def returned_def sweep_fn_ok_def split: upd.splits if_splits intro!: rows_ok_ddel rows_ok_dset)
  have get1: "dget rows1 j = (if j = k then upd_value (returned (dec k v)) v else dget rows j)" for j
    using at by (auto simp: rows1_def split: upd.splits)
  have keep: "n1 = n \<Longrightarrow> rows1 = rows" "n \<le> n1" by (auto simp: rows1_def n1_def split: if_splits)
  have sub: "dget rows1 j = Some w" if "dget todo j = Some w" for j w
    using that Cons.prems(3) [of j w] nk map_of_SomeD [OF that] get1 [of j] by (force simp: kv)
  obtain rows' n' where r: "rfold (sweep_key fn) (note acc k v, rows1, n1) todo =
        Inr (foldl (\<lambda>a (k, v). note a k v) (note acc k v) todo, rows', n')"
      "rows_ok cfg b rows'" "n1 \<le> n'" "n' = n1 \<longrightarrow> rows' = rows1"
      and g: "\<forall>j. dget rows' j = (if j \<in> fst ` set todo then swept dec j (dget rows1 j) else dget rows1 j)"
    using Cons.IH [OF todo ok1 sub] by blast
  have "dget rows' j = (if j \<in> fst ` set (kv # todo) then swept dec j (dget rows j) else dget rows j)" for j
    using g get1 [of j] nk at by (auto simp: kv swept_def)
  moreover have "n' = n \<longrightarrow> rows' = rows" "n \<le> n'" using r(3,4) keep by auto
  ultimately show ?case using r(1,2) one by (auto simp: kv)
qed

lemma sweep_shard:
  assumes "sweep_fn_ok cfg fn note dec" "store_wf cfg s"
  obtains rows' n' where "rfold (sweep_key fn) (acc, rows_of cfg s b, 0) (rows_of cfg s b) =
        Inr (foldl (\<lambda>a (k, v). note a k v) acc (rows_of cfg s b), rows', n')"
      "rows_ok cfg b rows'" "n' = 0 \<longrightarrow> rows' = rows_of cfg s b"
      "\<forall>k. dget rows' k = swept dec k (dget (rows_of cfg s b) k)"
proof -
  have sw: "swept dec k (dget (rows_of cfg s b) k) = dget (rows_of cfg s b) k" if "k \<notin> fst ` set (rows_of cfg s b)" for k
    using that dget_None_iff [of "rows_of cfg s b" k] by (simp add: swept_def)
  let ?R = "rows_of cfg s b"
  obtain rows' n' where "rfold (sweep_key fn) (acc, ?R, 0) ?R = Inr (foldl (\<lambda>a (k, v). note a k v) acc ?R, rows', n')"
      "rows_ok cfg b rows'" "n' = 0 \<longrightarrow> rows' = ?R"
      and g: "\<forall>k. dget rows' k = (if k \<in> fst ` set ?R then swept dec k (dget ?R k) else dget ?R k)"
    using sweep_rows [OF assms(1) store_wf_rows [OF assms(2), of b] store_wf_rows [OF assms(2), of b], of acc 0] by blast
  then show thesis using that [of rows' n'] sw by simp
qed

definition view_swept :: "kconfig \<Rightarrow> (string \<Rightarrow> json \<Rightarrow> upd) \<Rightarrow> kstore \<Rightarrow> string \<Rightarrow> json option" where
  "view_swept cfg dec s k = map_option canon (swept dec k (shard_get cfg s k))"

lemma sweep_buckets_view:
  assumes c: "config_ok cfg" and fn: "sweep_fn_ok cfg fn note dec"
  shows "sweep_buckets cfg io fn bs (acc, n) s = (s', r) \<Longrightarrow> store_wf cfg s \<Longrightarrow> pending cfg s = [] \<Longrightarrow>
    distinct bs \<Longrightarrow> set bs \<subseteq> {..<shards cfg} \<Longrightarrow>
    store_wf cfg s' \<and> pending cfg s' = [] \<and>
    (\<forall>k. view cfg s' k = view cfg s k \<or> view cfg s' k = view_swept cfg dec s k) \<and>
    (\<forall>k. bucket_of k (shards cfg) \<notin> set bs \<longrightarrow> shard_get cfg s' k = shard_get cfg s k) \<and>
    (\<forall>x. r = Inr x \<longrightarrow> fst x = foldl (\<lambda>a (k, v). note a k v) acc (concat (map (rows_of cfg s) bs)) \<and>
       (\<forall>k. bucket_of k (shards cfg) \<in> set bs \<longrightarrow> view cfg s' k = view_swept cfg dec s k))"
proof (induction bs arbitrary: acc n s)
  case Nil
  then show ?case by auto
next
  case (Cons b bs)
  note wf = Cons.prems(2) and p = Cons.prems(3)
  obtain rows' n' where rf: "rfold (sweep_key fn) (acc, rows_of cfg s b, 0) (rows_of cfg s b) =
        Inr (foldl (\<lambda>a (k, v). note a k v) acc (rows_of cfg s b), rows', n')"
      and ok: "rows_ok cfg b rows'" and z: "n' = 0 \<longrightarrow> rows' = rows_of cfg s b"
      and g: "\<forall>k. dget rows' k = swept dec k (dget (rows_of cfg s b) k)"
    using sweep_shard [OF fn wf, where acc = acc and b = b] by blast
  let ?acc = "foldl (\<lambda>a (k, v). note a k v) acc (rows_of cfg s b)"
  have b: "b < shards cfg" using Cons.prems(5) by simp
  have "kbind (if 0 < n' then write_shard cfg io b rows' s else (s, Inr ()))
     (\<lambda>s' _. sweep_buckets cfg io fn bs (?acc, n + n') s') = (s', r)"
    using Cons.prems(1) by (simp add: store_wf_read [OF wf] rf)
  then show ?case
  proof (cases rule: kbind_cases)
    case (stop e)
    then have "write_shard cfg io b rows' s = (s', Inl e)" by (auto split: if_splits)
    then show ?thesis
    proof (cases rule: write_shard_cases)
      case written
      note st = stored_get [OF c ok, of s, folded written(1)]
      have p': "pending cfg s' = []" using written(1) p by simp
      have "view cfg s' k = (if bucket_of k (shards cfg) = b then view_swept cfg dec s k else view cfg s k)" for k
        using st [of k] g by (auto simp: view_settled [OF p] view_settled [OF p'] view_swept_def shard_get_def option.map_comp comp_def)
      then show ?thesis
        using stored_wf [OF c wf ok b] written(1) p' st stop(2) by auto
    qed (use wf p stop(2) in auto)
  next
    case (go s1 x)
    have s1: "store_wf cfg s1 \<and> pending cfg s1 = [] \<and> (\<forall>b'. b' \<noteq> b \<longrightarrow> shard_files s1 b' = shard_files s b') \<and>
      (\<forall>k. bucket_of k (shards cfg) = b \<longrightarrow> map_option canon (shard_get cfg s1 k) = view_swept cfg dec s k)"
    proof (cases "0 < n'")
      case True
      then have w: "write_shard cfg io b rows' s = (s1, Inr ())" using go(1) by simp
      show ?thesis
        using write_shard_wf [OF c wf ok b w] write_shard_frame [OF w] p write_shard_get [OF c ok w] g
        by (auto simp: view_swept_def shard_get_def option.map_comp comp_def)
    next
      case False
      then have "s1 = s" "rows' = rows_of cfg s b" using go(1) z by auto
      then show ?thesis using wf p g by (auto simp: view_swept_def shard_get_def)
    qed
    have same: "shard_get cfg s1 k = shard_get cfg s k" if "bucket_of k (shards cfg) \<noteq> b" for k
      using s1 that rows_of_cong [of s1 "bucket_of k (shards cfg)" s cfg] by (simp add: shard_get_def)
    have rows: "map (rows_of cfg s1) bs = map (rows_of cfg s) bs"
      using s1 Cons.prems(4) by (auto intro!: rows_of_cong)
    have wf1: "store_wf cfg s1" and p1: "pending cfg s1 = []" using s1 by simp_all
    note IH = Cons.IH [OF go(2) wf1 p1]
    have db: "distinct bs" "set bs \<subseteq> {..<shards cfg}" "b \<notin> set bs" using Cons.prems(4,5) by auto
    note IH' = IH [OF db(1,2)]
    have at: "view cfg s' k = view_swept cfg dec s k" if "bucket_of k (shards cfg) = b" for k
      using IH' that db(3) s1 view_settled [of cfg s' k] by auto
    have off: "view_swept cfg dec s1 k = view_swept cfg dec s k" "view cfg s1 k = view cfg s k"
      if "bucket_of k (shards cfg) \<noteq> b" for k
      using same [OF that] by (simp_all add: view_swept_def view_settled [OF p] view_settled [OF p1])
    show ?thesis
    proof (intro conjI allI impI)
      show "store_wf cfg s'" "pending cfg s' = []" using IH' by blast+
      show "view cfg s' k = view cfg s k \<or> view cfg s' k = view_swept cfg dec s k" for k
        using IH' [THEN conjunct2, THEN conjunct2, THEN conjunct1, rule_format, of k] at [of k] off [of k]
        by (cases "bucket_of k (shards cfg) = b") auto
      show "shard_get cfg s' k = shard_get cfg s k" if "bucket_of k (shards cfg) \<notin> set (b # bs)" for k
        using IH' same [of k] that by auto
      show "fst x = foldl (\<lambda>a (k, v). note a k v) acc (concat (map (rows_of cfg s) (b # bs)))" if "r = Inr x" for x
        using IH' that rows by simp
      show "view cfg s' k = view_swept cfg dec s k" if "r = Inr x" "bucket_of k (shards cfg) \<in> set (b # bs)" for x k
        using IH' that at [of k] off [of k] by (cases "bucket_of k (shards cfg) = b") auto
    qed
  qed
qed

lemma sweep_view:
  assumes c: "config_ok cfg" and fn: "sweep_fn_ok cfg fn note dec" and wf: "store_wf cfg s"
    and sw: "sweep cfg io fn acc s = (s', r)"
  shows "store_wf cfg s' \<and> (isl r \<and> view cfg s' = view cfg s \<or> (\<exists>rows. dwf rows \<and> (\<forall>k. old_row cfg s k (dget rows k)) \<and>
    (\<forall>k. view cfg s' k = view cfg s k \<or> view cfg s' k = map_option canon (swept dec k (dget rows k))) \<and>
    (\<forall>x. r = Inr x \<longrightarrow> fst x = foldl (\<lambda>a (k, v). note a k v) acc rows \<and>
       (\<forall>k. view cfg s' k = map_option canon (swept dec k (dget rows k))))))"
proof -
  from sw have "kbind (ensure_migrated cfg io s) (\<lambda>s' _.
       sweep_buckets cfg io fn (buckets cfg s') (acc, 0) s') = (s', r)"
    by (simp add: sweep_def)
  then show ?thesis
  proof (cases rule: kbind_cases)
    case (stop e)
    then show ?thesis using ensure_migrated_view [OF c wf stop(1)] by simp
  next
    case (go s1 x)
    have wf1: "store_wf cfg s1" and v1: "view cfg s1 = view cfg s" and p1: "pending cfg s1 = []"
      using ensure_migrated_view [OF c wf go(1)] by simp_all
    note sb = sweep_buckets_view [OF c fn go(2) wf1 p1 distinct_buckets]
    have "set (buckets cfg s1) \<subseteq> {..<shards cfg}" by (auto simp: buckets_def)
    note sb = sb [OF this]
    have off: "view_swept cfg dec s1 k = view cfg s' k" if "bucket_of k (shards cfg) \<notin> set (buckets cfg s1)" for k
      using that bucket_listed [OF wf1, of k] sb view_settled [of cfg s' k]
      by (cases "shard_get cfg s1 k") (auto simp: view_swept_def swept_def)
    let ?rows = "all_rows cfg s1"
    have vs: "view_swept cfg dec s1 k = map_option canon (swept dec k (dget ?rows k))" for k
      by (simp add: view_swept_def all_rows_get [OF wf1])
    have "dwf ?rows" by (rule all_rows_dwf [OF wf1])
    moreover have "old_row cfg s k (dget ?rows k)" for k
      using shard_get_old [OF wf1 p1, of k] v1 by (simp add: old_row_def all_rows_get [OF wf1])
    moreover have "view cfg s' k = map_option canon (swept dec k (dget ?rows k))" if "r = Inr x" for x k
      using sb off [of k] vs [of k] that by (cases "bucket_of k (shards cfg) \<in> set (buckets cfg s1)") auto
    ultimately show ?thesis
      using sb v1 vs by (intro conjI disjI2 exI [of _ ?rows]) (auto simp: all_rows_def)
  qed
qed

end
