(* ===== verification/Keyed_Batch.thy ===== *)
theory Keyed_Batch
  imports Keyed_Store
begin

text \<open>
  \<^verbatim>\<open>KeyedState.update_many\<close> against one update per requested key.  The batch groups the keys by shard,
  so it visits them in another order and writes each shard once; since a key's row is only ever touched
  by its own updates, the outcome is the one of the updates in the order requested.
\<close>

fun canon_upd :: "upd \<Rightarrow> upd" where
  "canon_upd (Put v) = Put (canon v)"
| "canon_upd u = u"

type_synonym batch_fn = "string \<Rightarrow> json option \<Rightarrow> upd res"

definition order_blind :: "batch_fn \<Rightarrow> bool" where
  \<comment> \<open>the callback's answer does not depend on the order of keys in the row it is given\<close>
  "order_blind fn \<longleftrightarrow>
     (\<forall>k old. map_sum id canon_upd (fn k (map_option canon old)) = map_sum id canon_upd (fn k old))"

definition batch_fn_ok :: "kconfig \<Rightarrow> batch_fn \<Rightarrow> bool" where
  "batch_fn_ok cfg fn \<longleftrightarrow> order_blind fn \<and>
     (\<forall>k old v. (\<forall>w. old = Some w \<longrightarrow> row_ok cfg (k, w)) \<longrightarrow> fn k old = Inr (Put v) \<longrightarrow> v \<noteq> JNull \<longrightarrow>
        row_ok cfg (k, v))"

definition flat_update :: "batch_fn \<Rightarrow> string \<Rightarrow> (string \<Rightarrow> json option) \<Rightarrow> string \<Rightarrow> json option" where
  \<comment> \<open>one update on the map; a callback that raises changes nothing\<close>
  "flat_update fn k m = (case fn k (m k) of Inr u \<Rightarrow> apply_upd k (returned u) m | Inl _ \<Rightarrow> m)"

definition flat_update_many :: "batch_fn \<Rightarrow> string list \<Rightarrow> (string \<Rightarrow> json option) \<Rightarrow> string \<Rightarrow> json option" where
  "flat_update_many fn keys m = fold (flat_update fn) keys m"

section \<open>One key at a time\<close>

definition point :: "batch_fn \<Rightarrow> string \<Rightarrow> json option \<Rightarrow> json option" where
  "point fn k old = flat_update fn k (\<lambda>_. old) k"

lemma flat_update_at: "flat_update fn j m k = (if k = j then point fn k (m k) else m k)"
  by (cases "fn j (m j)") (auto simp: flat_update_def point_def split: upd.splits; cases "returned (projr (fn j (m j)))"; simp)+

lemma flat_many_at: "flat_update_many fn keys m k = (point fn k ^^ count_list keys k) (m k)"
proof (induction keys arbitrary: m)
  case (Cons j keys)
  then show ?case
    by (simp add: flat_update_many_def flat_update_at funpow_swap1)
qed (simp add: flat_update_many_def)

lemma canon_upd_Null: "canon_upd u = Put JNull \<longleftrightarrow> u = Put JNull"
  by (cases u) auto

lemma point_blind:
  assumes "order_blind fn" "fn k old = Inr u"
  shows "point fn k (map_option canon old) = apply_upd k (returned u) (\<lambda>_. map_option canon old) k"
proof -
  have "map_sum id canon_upd (fn k (map_option canon old)) = Inr (canon_upd u)"
    using assms by (simp add: order_blind_def)
  then obtain u' where u': "fn k (map_option canon old) = Inr u'" "canon_upd u' = canon_upd u"
    by (cases "fn k (map_option canon old)") auto
  have "(u' = Put JNull) = (u = Put JNull)" using u'(2) canon_upd_Null by metis
  then show ?thesis
    using u' by (cases u; cases u') (auto simp: point_def flat_update_def returned_def)
qed

section \<open>One shard\<close>

lemma batch_key_step:
  assumes fn: "batch_fn_ok cfg fn" and ok: "rows_ok cfg b rows" and j: "bucket_of j (shards cfg) = b"
    and st: "batch_key fn (rows, dirty, res) j = Inr (rows', dirty', res')"
  shows "rows_ok cfg b rows'" "dirty \<Longrightarrow> dirty'" "\<not> dirty' \<Longrightarrow> rows' = rows"
    "map_option canon (dget rows' k) = (if k = j then point fn k (map_option canon (dget rows k)) else map_option canon (dget rows k))"
proof -
  have rg: "row_get rows j = dget rows j" by (rule rows_ok_row_get [OF ok])
  obtain u where u: "fn j (dget rows j) = Inr u"
    using st by (auto simp: batch_key_def rg lift_res_def split: sum.splits)
  have legit: "row_ok cfg (j, v)" if "returned u = Put v" for v
  proof -
    from that have "u = Put v" "v \<noteq> JNull" by (auto simp: returned_def split: if_splits)
    moreover have "\<forall>w. dget rows j = Some w \<longrightarrow> row_ok cfg (j, w)" using rows_ok_get [OF ok, of j] by blast
    ultimately show ?thesis using fn u unfolding batch_fn_ok_def by blast
  qed
  have p: "point fn j (map_option canon (dget rows j)) = apply_upd j (returned u) (\<lambda>_. map_option canon (dget rows j)) j"
    by (rule point_blind) (use fn u in \<open>simp_all add: batch_fn_ok_def\<close>)
  have del: "ddel j rows = rows" if "dget rows j = None"
    using that by (simp add: dget_None_iff delete_idem)
  show "rows_ok cfg b rows'" "dirty \<Longrightarrow> dirty'" "\<not> dirty' \<Longrightarrow> rows' = rows"
    "map_option canon (dget rows' k) = (if k = j then point fn k (map_option canon (dget rows k)) else map_option canon (dget rows k))"
    using st ok j p legit del
    by (auto simp: batch_key_def rg u lift_res_def split: upd.splits intro!: rows_ok_ddel rows_ok_dset)
qed

lemma batch_shard:
  assumes fn: "batch_fn_ok cfg fn"
  shows "rfold (batch_key fn) (rows, dirty, res) keys = Inr (rows', dirty', res') \<Longrightarrow> rows_ok cfg b rows \<Longrightarrow>
    \<forall>j \<in> set keys. bucket_of j (shards cfg) = b \<Longrightarrow>
    rows_ok cfg b rows' \<and> (dirty \<longrightarrow> dirty') \<and> (\<not> dirty' \<longrightarrow> rows' = rows) \<and>
    (\<forall>k. map_option canon (dget rows' k) = (point fn k ^^ count_list keys k) (map_option canon (dget rows k)))"
proof (induction keys arbitrary: rows dirty res)
  case (Cons j keys)
  from Cons.prems(1) obtain rows1 dirty1 res1 where one: "batch_key fn (rows, dirty, res) j = Inr (rows1, dirty1, res1)"
    and rest: "rfold (batch_key fn) (rows1, dirty1, res1) keys = Inr (rows', dirty', res')"
    by (auto simp: rbind_eq_Inr)
  have j: "bucket_of j (shards cfg) = b" using Cons.prems(3) by simp
  note step = batch_key_step [OF fn Cons.prems(2) j one]
  have "rows_ok cfg b rows' \<and> (dirty1 \<longrightarrow> dirty') \<and> (\<not> dirty' \<longrightarrow> rows' = rows1) \<and>
    (\<forall>k. map_option canon (dget rows' k) = (point fn k ^^ count_list keys k) (map_option canon (dget rows1 k)))"
    using Cons.IH [OF rest step(1)] Cons.prems(3) by simp
  then show ?case using step(2,3,4) by (auto simp: funpow_swap1)
qed simp

section \<open>All shards\<close>

definition keys_in :: "(nat, string list) dict \<Rightarrow> nat \<Rightarrow> string list" where
  "keys_in d b = (case dget d b of Some ks \<Rightarrow> ks | None \<Rightarrow> [])"

definition key_groups_ok :: "nat \<Rightarrow> (nat, string list) dict \<Rightarrow> bool" where
  "key_groups_ok n d \<longleftrightarrow> dwf d \<and> (\<forall>b ks. dget d b = Some ks \<longrightarrow> b < n \<and> (\<forall>k \<in> set ks. bucket_of k n = b))"

lemma group_keys_ok:
  assumes "\<And>k. bucket_of k n < n"
  shows "key_groups_ok n (group_keys n keys) \<and>
    (\<forall>b. keys_in (group_keys n keys) b = filter (\<lambda>k. bucket_of k n = b) keys)"
proof (induction keys rule: rev_induct)
  case Nil
  then show ?case by (simp add: group_keys_def key_groups_ok_def keys_in_def)
next
  case (snoc k keys)
  let ?d = "group_keys n keys" and ?b = "bucket_of k n"
  have g: "group_keys n (keys @ [k]) = dset ?b (keys_in ?d ?b @ [k]) ?d"
    by (simp add: group_keys_def keys_in_def Let_def)
  have "\<forall>j \<in> set (keys_in ?d ?b). bucket_of j n = ?b" using snoc by simp
  then have "key_groups_ok n (group_keys n (keys @ [k]))"
    using snoc assms unfolding g key_groups_ok_def by (auto intro: dwf_dset split: if_splits)
  moreover have "keys_in (group_keys n (keys @ [k])) b = filter (\<lambda>k. bucket_of k n = b) (keys @ [k])" for b
    unfolding g using snoc by (auto simp: keys_in_def)
  ultimately show ?case by blast
qed

lemma count_filter: "P k \<Longrightarrow> count_list (filter P keys) k = count_list keys k"
  by (induction keys) auto

lemma update_buckets_view:
  assumes c: "config_ok cfg" and fn: "batch_fn_ok cfg fn"
  shows "update_buckets cfg io fn groups res s = (s', r) \<Longrightarrow> store_wf cfg s \<Longrightarrow> pending cfg s = [] \<Longrightarrow>
    key_groups_ok (shards cfg) groups \<Longrightarrow>
    store_wf cfg s' \<and> pending cfg s' = [] \<and>
    (\<forall>x k. r = Inr x \<longrightarrow> view cfg s' k =
       (point fn k ^^ count_list (keys_in groups (bucket_of k (shards cfg))) k) (view cfg s k))"
proof (induction groups arbitrary: res s)
  case Nil
  then show ?case by (auto simp: keys_in_def)
next
  case (Cons bk groups)
  obtain b keys where bk: "bk = (b, keys)" by (cases bk)
  note wf = Cons.prems(2) and p = Cons.prems(3)
  have kb: "b < shards cfg" "\<forall>j \<in> set keys. bucket_of j (shards cfg) = b" and gs: "key_groups_ok (shards cfg) groups"
    and nb: "dget groups b = None"
    using Cons.prems(4) unfolding bk
    by (auto simp: key_groups_ok_def dwf_def map_of_eq_None_iff split: if_splits dest: map_of_SomeD)
  show ?case
  proof (cases "rfold (batch_key fn) (rows_of cfg s b, False, res) keys")
    case (Inl e)
    then show ?thesis using Cons.prems(1) wf p by (auto simp: bk store_wf_read [OF wf])
  next
    case (Inr x)
    then obtain rows' dirty res' where x: "rfold (batch_key fn) (rows_of cfg s b, False, res) keys = Inr (rows', dirty, res')"
      by (cases x) auto
    note sh = batch_shard [OF fn x store_wf_rows [OF wf] kb(2)]
    have "kbind (if dirty then write_shard cfg io b rows' s else (s, Inr ()))
        (\<lambda>s' _. update_buckets cfg io fn groups res' s') = (s', r)"
      using Cons.prems(1) x by (simp add: bk store_wf_read [OF wf])
    then show ?thesis
    proof (cases rule: kbind_cases)
      case (stop e)
      then have w: "write_shard cfg io b rows' s = (s', Inl e)" by (auto split: if_splits)
      have "rows_ok cfg b rows'" using sh by simp
      then show ?thesis
        using write_shard_wf [OF c wf _ kb(1) w] write_shard_frame(4) [OF w] p stop(2) by simp
    next
      case (go s1 y)
      have s1: "store_wf cfg s1 \<and> pending cfg s1 = [] \<and>
        (\<forall>k. view cfg s1 k = (if bucket_of k (shards cfg) = b then (point fn k ^^ count_list keys k) (view cfg s k) else view cfg s k))"
      proof (cases dirty)
        case True
        then have w: "write_shard cfg io b rows' s = (s1, Inr ())" using go(1) by simp
        have ok: "rows_ok cfg b rows'" using sh by simp
        have p1: "pending cfg s1 = []" using write_shard_frame(4) [OF w] p by simp
        have "map_option canon (shard_get cfg s1 k) = (if bucket_of k (shards cfg) = b
            then map_option canon (dget rows' k) else view cfg s k)" for k
          using write_shard_get [OF c ok w, of k] view_settled [OF p, of k] by (simp add: option.map_comp comp_def)
        then show ?thesis
          using write_shard_wf [OF c wf ok kb(1) w] p1 sh
          by (auto simp: view_settled [OF p] view_settled [OF p1] shard_get_def)
      next
        case False
        then have "s1 = s" "rows' = rows_of cfg s b" using go(1) sh by auto
        then show ?thesis using wf p sh by (auto simp: view_settled [OF p] shard_get_def)
      qed
      have wf1: "store_wf cfg s1" and p1: "pending cfg s1 = []" using s1 by simp_all
      note IH = Cons.IH [OF go(2) wf1 p1 gs]
      have "view cfg s' k = (point fn k ^^ count_list (keys_in (bk # groups) (bucket_of k (shards cfg))) k) (view cfg s k)"
        if "r = Inr z" for z k
        using IH s1 nb that by (auto simp: keys_in_def bk)
      then show ?thesis using IH by simp
    qed
  qed
qed

lemma update_many_view:
  assumes c: "config_ok cfg" and fn: "batch_fn_ok cfg fn" and wf: "store_wf cfg s"
    and u: "update_many cfg io keys fn s = (s', r)"
  shows "store_wf cfg s' \<and> (\<forall>x. r = Inr x \<longrightarrow> view cfg s' = flat_update_many fn keys (view cfg s))"
proof -
  from u have "kbind (ensure_migrated cfg io s) (\<lambda>s' _.
       update_buckets cfg io fn (group_keys (shards cfg) keys) [] s') = (s', r)"
    by (simp add: update_many_def)
  then show ?thesis
  proof (cases rule: kbind_cases)
    case (stop e)
    then show ?thesis using ensure_migrated_view [OF c wf stop(1)] by simp
  next
    case (go s1 x)
    have wf1: "store_wf cfg s1" and v1: "view cfg s1 = view cfg s" and p1: "pending cfg s1 = []"
      using ensure_migrated_view [OF c wf go(1)] by simp_all
    note g = group_keys_ok [of "shards cfg" keys, OF bucket_of_less [OF c]]
    note ub = update_buckets_view [OF c fn go(2) wf1 p1 g [THEN conjunct1]]
    have "view cfg s' k = flat_update_many fn keys (view cfg s) k" if "r = Inr y" for y k
      using ub that g v1 by (simp add: flat_many_at count_filter)
    with ub show ?thesis by (simp add: fun_eq_iff)
  qed
qed

end
