(* ===== verification/Keyed_Contract.thy ===== *)
theory Keyed_Contract
  imports Keyed_Batch
begin

text \<open>
  The contract a keyed store gives its clients, as a locale over an abstract store: an update or a
  deletion changes the map at its own key only, as the callback decides, and a failed one changes
  nothing, or, where the store syncs its directory and only that fails, has its whole effect.  The lemmas are what the owners of such a store use.  The properties of the sharded
  implementation that do not depend on an owner follow.
\<close>

definition answers ::
  "(string \<Rightarrow> json \<Rightarrow> bool) \<Rightarrow> (string \<Rightarrow> json option) \<Rightarrow> string \<Rightarrow> json option \<Rightarrow> bool" where
  \<comment> \<open>what a callback may be given for a key: the map's row up to the order of keys, and legitimate\<close>
  "answers legit m k old \<longleftrightarrow> map_option canon old = m k \<and> (\<forall>v. old = Some v \<longrightarrow> legit k v)"

lemma old_row_answers: "old_row cfg s k = answers (\<lambda>k v. row_ok cfg (k, v)) (view cfg s) k"
  by (rule ext) (simp add: old_row_def answers_def)

locale keyed_map =
  fixes inv :: "'s \<Rightarrow> bool" and rows :: "'s \<Rightarrow> string \<Rightarrow> json option" and legit :: "string \<Rightarrow> json \<Rightarrow> bool"
    and late :: "string \<Rightarrow> bool"
    and upd :: "string \<Rightarrow> (json option \<Rightarrow> upd res) \<Rightarrow> 's \<Rightarrow> 's \<times> (kerror + upd)"
    and del :: "string \<Rightarrow> 's \<Rightarrow> 's \<times> (kerror + bool)"
  assumes upd_inv: "inv s \<Longrightarrow> upd k fn s = (s', r) \<Longrightarrow>
      (\<And>old v. answers legit (rows s) k old \<Longrightarrow> fn old = Inr (Put v) \<Longrightarrow> v \<noteq> JNull \<Longrightarrow> legit k v) \<Longrightarrow> inv s'"
    and upd_err: "inv s \<Longrightarrow> upd k fn s = (s', Inl e) \<Longrightarrow>
      (\<And>old v. answers legit (rows s) k old \<Longrightarrow> fn old = Inr (Put v) \<Longrightarrow> v \<noteq> JNull \<Longrightarrow> legit k v) \<Longrightarrow>
      rows s' = rows s \<or> late k \<and> e = OSError \<and>
        (\<exists>old u0. answers legit (rows s) k old \<and> fn old = Inr u0 \<and> rows s' = apply_upd k (returned u0) (rows s))"
    and upd_ok: "inv s \<Longrightarrow> upd k fn s = (s', Inr w) \<Longrightarrow>
      (\<And>old v. answers legit (rows s) k old \<Longrightarrow> fn old = Inr (Put v) \<Longrightarrow> v \<noteq> JNull \<Longrightarrow> legit k v) \<Longrightarrow>
      \<exists>old u0. answers legit (rows s) k old \<and> fn old = Inr u0 \<and> w = returned u0 \<and> rows s' = apply_upd k w (rows s)"
    and del_inv: "inv s \<Longrightarrow> del k s = (s', d) \<Longrightarrow> inv s'"
    and del_err: "inv s \<Longrightarrow> del k s = (s', Inl e) \<Longrightarrow>
      rows s' = rows s \<or> late k \<and> e = OSError \<and> rows s' = (rows s)(k := None)"
    and del_ok: "inv s \<Longrightarrow> del k s = (s', Inr b) \<Longrightarrow> rows s' = (rows s)(k := None) \<and> b = (rows s k \<noteq> None)"
begin

text \<open>A callback that always answers with a legitimate row.\<close>

lemma upd_put:
  assumes "inv s" "upd k fn s = (s', r)"
    and f: "\<And>old. answers legit (rows s) k old \<Longrightarrow> fn old = Inr (Put (f old)) \<and> f old \<noteq> JNull \<and> legit k (f old)"
  shows "inv s'" "r = Inl e \<Longrightarrow> rows s' = rows s \<or> late k \<and> e = OSError \<and>
      (\<exists>old. answers legit (rows s) k old \<and> rows s' = (rows s)(k := Some (canon (f old))))"
    "r = Inr w \<Longrightarrow> \<exists>old. answers legit (rows s) k old \<and> rows s' = (rows s)(k := Some (canon (f old)))"
proof -
  have l: "legit k v" if "answers legit (rows s) k old" "fn old = Inr (Put v)" "v \<noteq> JNull" for old v
    using f [OF that(1)] that(2) by simp
  show "inv s'" by (rule upd_inv [OF assms(1,2) l])
  show "rows s' = rows s \<or> late k \<and> e = OSError \<and>
      (\<exists>old. answers legit (rows s) k old \<and> rows s' = (rows s)(k := Some (canon (f old))))" if "r = Inl e"
  proof -
    have "upd k fn s = (s', Inl e)" using assms(2) that by simp
    then have "rows s' = rows s \<or> late k \<and> e = OSError \<and>
        (\<exists>old u0. answers legit (rows s) k old \<and> fn old = Inr u0 \<and> rows s' = apply_upd k (returned u0) (rows s))"
      by (rule upd_err [OF assms(1)]) (rule l)
    with f show ?thesis by (fastforce simp: returned_def)
  qed
  show "\<exists>old. answers legit (rows s) k old \<and> rows s' = (rows s)(k := Some (canon (f old)))" if "r = Inr w"
  proof -
    have "upd k fn s = (s', Inr w)" using assms(2) that by simp
    then have "\<exists>old u0. answers legit (rows s) k old \<and> fn old = Inr u0 \<and> w = returned u0 \<and>
        rows s' = apply_upd k w (rows s)"
      by (rule upd_ok [OF assms(1)]) (rule l)
    then obtain old u0 where o: "answers legit (rows s) k old"
      "fn old = Inr u0" "w = returned u0" "rows s' = apply_upd k w (rows s)" by blast
    with f [OF o(1)] have "w = Put (f old)" by (simp add: returned_def)
    with o(4) have "rows s' = (rows s)(k := Some (canon (f old)))" by simp
    with o(1) show ?thesis by blast
  qed
qed

lemma upd_put_frame:
  assumes "inv s" "upd k fn s = (s', r)" "j \<noteq> k"
    and f: "\<And>old. answers legit (rows s) k old \<Longrightarrow> fn old = Inr (Put (f old)) \<and> f old \<noteq> JNull \<and> legit k (f old)"
  shows "rows s' j = rows s j"
  using upd_put [OF assms(1,2) f] assms(3) by (cases r) auto

lemma del_rows: "inv s \<Longrightarrow> del k s = (s', r) \<Longrightarrow> rows s' j = rows s j \<or> rows s' j = None"
proof (cases r)
  case (Inl e)
  moreover assume "inv s" "del k s = (s', r)"
  ultimately have "rows s' = rows s \<or> rows s' = (rows s)(k := None)" using del_err [of s k s' e] by blast
  then show ?thesis by (cases "j = k") auto
next
  case (Inr b)
  moreover assume "inv s" "del k s = (s', r)"
  ultimately have "rows s' = (rows s)(k := None)" using del_ok [of s k s' b] by blast
  then show ?thesis by simp
qed

end

section \<open>The sharded store\<close>

text \<open>Every configuration of the sharded store honours the contract; its owners interpret it on theirs.\<close>

lemma sharded_keyed_map:
  assumes "config_ok cfg"
  shows "keyed_map (store_wf cfg) (view cfg) (\<lambda>k v. row_ok cfg (k, v)) (late_fault cfg io) (update cfg io) (delete cfg io)"
proof unfold_locales
  fix s s' :: kstore and k and fn :: "json option \<Rightarrow> upd res" and r d and e :: kerror and w and b :: bool
  assume wf: "store_wf cfg s"
  note del = delete_view [OF assms wf]
  show "store_wf cfg s'" if "delete cfg io k s = (s', d)" using del [OF that] by simp
  show "view cfg s' = view cfg s \<or> late_fault cfg io k \<and> e = OSError \<and> view cfg s' = (view cfg s)(k := None)"
    if "delete cfg io k s = (s', Inl e)" using del [OF that] by simp
  show "view cfg s' = (view cfg s)(k := None) \<and> b = (view cfg s k \<noteq> None)" if "delete cfg io k s = (s', Inr b)"
    using del [OF that] by simp
  assume legit: "\<And>old v. answers (\<lambda>k v. row_ok cfg (k, v)) (view cfg s) k old \<Longrightarrow>
    fn old = Inr (Put v) \<Longrightarrow> v \<noteq> JNull \<Longrightarrow> row_ok cfg (k, v)"
  note upd = update_view [OF assms wf, unfolded decided_def old_row_answers, OF _ legit]
  show "store_wf cfg s'" if "update cfg io k fn s = (s', r)" by (rule upd(1) [OF that])
  show "view cfg s' = view cfg s \<or> late_fault cfg io k \<and> e = OSError \<and>
      (\<exists>old u0. answers (\<lambda>k v. row_ok cfg (k, v)) (view cfg s) k old \<and> fn old = Inr u0 \<and>
         view cfg s' = apply_upd k (returned u0) (view cfg s))"
    if "update cfg io k fn s = (s', Inl e)" 
  proof -
    have "view cfg s' = view cfg s \<or> late_fault cfg io k \<and> e = OSError \<and>
        (\<exists>w old u0. answers (\<lambda>k v. row_ok cfg (k, v)) (view cfg s) k old \<and> fn old = Inr u0 \<and> w = returned u0 \<and>
           view cfg s' = apply_upd k w (view cfg s))"
      by (rule upd(3) [OF that]) simp_all
    then show ?thesis by blast
  qed
  show "\<exists>old u0. answers (\<lambda>k v. row_ok cfg (k, v)) (view cfg s) k old \<and> fn old = Inr u0 \<and>
      w = returned u0 \<and> view cfg s' = apply_upd k w (view cfg s)"
    if "update cfg io k fn s = (s', Inr w)"
    by (rule upd(2) [OF that]) simp_all
qed

definition no_faults :: faults where
  "no_faults = \<lparr>shard_io = (\<lambda>_. Synced), rename_ok = True, guard_ok = True\<rparr>"

lemma no_faults_ok [simp]: "shard_ok no_faults b"
  by (simp add: no_faults_def shard_ok_def)

lemma ensure_migrated_done: "migrated s \<Longrightarrow> ensure_migrated cfg io s = (s, Inr ())"
  by (simp add: ensure_migrated_def)

text \<open>On a migrated store a write that the file system accepts and a callback that answers succeed.\<close>

lemma update_succeeds:
  assumes "store_wf cfg s" "migrated s" "shard_ok io (bucket_of key (shards cfg))"
    "\<And>old. old_row cfg s key old \<Longrightarrow> \<not> isl (fn old)"
  shows "\<exists>s' w. update cfg io key fn s = (s', Inr w) \<and> migrated s'"
proof -
  let ?b = "bucket_of key (shards cfg)"
  have "pending cfg s = []" using assms(2) by (simp add: pending_def)
  then have "\<not> isl (fn (row_get (rows_of cfg s ?b) key))"
    using assms(4) shard_get_old [OF assms(1)] by (simp add: row_get_shard [OF assms(1)])
  then obtain u where u: "fn (row_get (rows_of cfg s ?b) key) = Inr u"
    by (cases "fn (row_get (rows_of cfg s ?b) key)") auto
  have w: "\<exists>s'. write_shard cfg io ?b rows s = (s', Inr ()) \<and> migrated s'" for rows
    using assms(2) write_shard_ok [OF assms(3)] by simp
  show ?thesis
    using assms(2) w [of "ddel key (rows_of cfg s ?b)"] w [of "dset key (case returned u of Put v \<Rightarrow> v | _ \<Rightarrow> JNull) (rows_of cfg s ?b)"]
    by (cases "returned u")
       (auto simp: update_def ensure_migrated_done [OF assms(2)] kbind_def store_wf_read [OF assms(1)] u lift_res_def Let_def)
qed

text \<open>
  C22. Refinement.  The 256 files behave as one map.  Whatever writes the operating system refuses and
  whatever directory syncs fail, a keyed update on a well-formed store leaves a well-formed store.  If it
  returns, the map differs at the key only, and there as the callback decided from the key's row.  If it
  raises, every row of the map is as before, with one exception: on a durable store whose directory sync
  fails after the shard is in place, it raises \<^verbatim>\<open>OSError\<close> and the map is exactly what the same update would
  have made of it by returning.  Reading back gives the map's row.  On a migrated store whose shard can
  be written and synced, a callback that does not raise is carried out.
\<close>

theorem keyed_update_refines:
  assumes "config_ok cfg" and "store_wf cfg s" and "update cfg io key fn s = (s', r)"
    and "\<And>old v. old_row cfg s key old \<Longrightarrow> fn old = Inr (Put v) \<Longrightarrow> v \<noteq> JNull \<Longrightarrow> row_ok cfg (key, v)"
  shows "store_wf cfg s' \<and>
    (case r of
       Inl e \<Rightarrow> view cfg s' = view cfg s \<or>
                durable cfg \<and> shard_io io (bucket_of key (shards cfg)) = Unsynced \<and> e = OSError \<and>
                (\<exists>old u. old_row cfg s key old \<and> fn old = Inr u \<and>
                   view cfg s' = apply_upd key (returned u) (view cfg s))
     | Inr w \<Rightarrow> \<exists>old u. old_row cfg s key old \<and> fn old = Inr u \<and> w = returned u \<and>
                 view cfg s' = apply_upd key w (view cfg s)) \<and>
    (\<forall>io' k s'' v. get cfg io' k s' = (s'', Inr v) \<longrightarrow> map_option canon v = view cfg s' k) \<and>
    (migrated s \<and> shard_ok io (bucket_of key (shards cfg)) \<and> (\<forall>old. \<not> isl (fn old)) \<longrightarrow> \<not> isl r)"
proof -
  have wf: "store_wf cfg s'" by (rule update_view(1) [OF assms])
  have ok: "decided cfg s key fn w s'" if "r = Inr w" for w
    by (rule update_view(2) [OF assms(1-3) _ that]) (rule assms(4))
  have bad: "view cfg s' = view cfg s \<or> late_fault cfg io key \<and> e = OSError \<and> (\<exists>w. decided cfg s key fn w s')"
    if "r = Inl e" for e
    by (rule update_view(3) [OF assms(1-3) _ that]) (rule assms(4))
  have "\<not> isl r" if "migrated s" "shard_ok io (bucket_of key (shards cfg))" "\<forall>old. \<not> isl (fn old)"
    using update_succeeds [OF assms(2) that(1,2), of fn] that(3) assms(3) by auto
  moreover have "map_option canon v = view cfg s' k" if "get cfg io' k s' = (s'', Inr v)" for io' k s'' v
    using get_view [OF assms(1) wf that] by simp
  ultimately show ?thesis
    using wf ok bad unfolding decided_def late_fault_def by (cases r) (simp_all, blast+)
qed

definition demo_cfg :: kconfig where
  "demo_cfg = \<lparr>shards = SHARD_COUNT, durable = True, validate = None, legacy_extract = None\<rparr>"

definition demo_legacy :: kstore where
  "demo_legacy = \<lparr>legacy = Content (JObj [(''a'', JInt 1), (''b'', JInt 2)]), retired = Missing,
     shard_files = (\<lambda>_. Missing), migrated = False\<rparr>"

lemma demo_cfg_ok: "config_ok demo_cfg"
  by (simp add: config_ok_def demo_cfg_def SHARD_COUNT_def validate_row_def)

lemma demo_pending: "pending demo_cfg demo_legacy = [(''a'', JInt 1), (''b'', JInt 2)]"
  by code_simp

lemma demo_legacy_wf: "store_wf demo_cfg demo_legacy"
  unfolding store_wf_def demo_pending
  by (simp add: demo_legacy_def read_shard_def dwf_def)

text \<open>
  An update carried out on the legacy fleet, and one on the store it leaves whose directory sync fails:
  it raises and its row is there, the other row is untouched.
\<close>

theorem keyed_update_refines_witness:
  "view demo_cfg (fst (update demo_cfg no_faults ''b'' (\<lambda>_. Inr (Put (JInt 7))) demo_legacy)) ''b'' = Some (JInt 7) \<and>
   view demo_cfg (fst (update demo_cfg no_faults ''b'' (\<lambda>_. Inr (Put (JInt 7))) demo_legacy)) ''a'' = Some (JInt 1) \<and>
   (let t = update demo_cfg (no_faults\<lparr>shard_io := (\<lambda>_. Unsynced)\<rparr>) ''b'' (\<lambda>_. Inr (Put (JInt 8)))
              (fst (update demo_cfg no_faults ''b'' (\<lambda>_. Inr (Put (JInt 7))) demo_legacy))
    in snd t = Inl OSError \<and> view demo_cfg (fst t) ''b'' = Some (JInt 8) \<and> view demo_cfg (fst t) ''a'' = Some (JInt 1))"
proof -
  let ?r = "update demo_cfg no_faults ''b'' (\<lambda>_. Inr (Put (JInt 7))) demo_legacy"
  obtain s' r where e: "?r = (s', r)" by (cases ?r)
  have "snd ?r = Inr (Put (JInt 7))" by code_simp
  with e have r: "r = Inr (Put (JInt 7))" by simp
  have "row_ok demo_cfg (k, JInt 7)" for k by (simp add: row_ok_def validate_row_def demo_cfg_def)
  then have v: "store_wf demo_cfg s'" "view demo_cfg s' = apply_upd ''b'' (Put (JInt 7)) (view demo_cfg demo_legacy)"
    using keyed_update_refines [OF demo_cfg_ok demo_legacy_wf e] r by auto
  have a: "view demo_cfg demo_legacy ''a'' = Some (JInt 1)" by code_simp
  let ?t = "update demo_cfg (no_faults\<lparr>shard_io := (\<lambda>_. Unsynced)\<rparr>) ''b'' (\<lambda>_. Inr (Put (JInt 8))) (fst ?r)"
  obtain t q where t: "?t = (t, q)" by (cases ?t)
  have q: "snd ?t = Inl OSError" "view demo_cfg (fst ?t) ''b'' = Some (JInt 8)" by code_simp+
  have "view demo_cfg t ''a'' = view demo_cfg s' ''a''"
    using keyed_update_refines [OF demo_cfg_ok v(1) t [unfolded e, simplified]] q(1) t
    by (auto simp: row_ok_def validate_row_def demo_cfg_def returned_def)
  with v(2) a q t e show ?thesis by (simp add: Let_def)
qed

text \<open>
  C23. Migration loses nothing.  Folding the legacy document into the shards never changes the map,
  however many of its writes or its final rename fail; an interrupted migration can be run again with
  the same outcome, and once it returns the legacy document is no longer read.
\<close>

theorem migration_preserves_rows:
  assumes "config_ok cfg" and "store_wf cfg s"
    and "ensure_migrated cfg io s = (s1, r1)" and "ensure_migrated cfg io' s1 = (s2, r2)"
  shows "view cfg s1 = view cfg s \<and> view cfg s2 = view cfg s \<and> store_wf cfg s2 \<and>
    (\<not> isl r2 \<longrightarrow> migrated s2 \<and> pending cfg s2 = [] \<and>
       (\<forall>k. view cfg s2 k = map_option canon (shard_get cfg s2 k)))"
proof -
  note a = ensure_migrated_view [OF assms(1,2,3)]
  note b = ensure_migrated_view [OF assms(1) a [THEN conjunct1] assms(4)]
  from a b view_settled [of cfg s2] show ?thesis by (cases r2) auto
qed

theorem migration_preserves_rows_witness:
  "let io = \<lparr>shard_io = (\<lambda>b. if b = bucket_of ''b'' SHARD_COUNT then Refused else Synced), rename_ok = True, guard_ok = False\<rparr>;
       s1 = fst (ensure_migrated demo_cfg io demo_legacy);
       s2 = fst (ensure_migrated demo_cfg no_faults s1)
   in isl (snd (ensure_migrated demo_cfg io demo_legacy)) \<and> view demo_cfg s2 = view demo_cfg demo_legacy \<and>
      migrated s2"
proof -
  let ?io = "\<lparr>shard_io = (\<lambda>b. if b = bucket_of ''b'' SHARD_COUNT then Refused else Synced), rename_ok = True, guard_ok = False\<rparr>"
  obtain s1 r1 where e1: "ensure_migrated demo_cfg ?io demo_legacy = (s1, r1)" by fastforce
  obtain s2 r2 where e2: "ensure_migrated demo_cfg no_faults s1 = (s2, r2)" by fastforce
  have "isl (snd (ensure_migrated demo_cfg ?io demo_legacy))" by code_simp
  moreover have "\<not> isl (snd (ensure_migrated demo_cfg no_faults (fst (ensure_migrated demo_cfg ?io demo_legacy))))"
    by code_simp
  ultimately show ?thesis
    using migration_preserves_rows [OF demo_cfg_ok demo_legacy_wf e1 e2] e1 e2 by (simp add: Let_def)
qed

text \<open>
  C24. Batch updates.  When \<^verbatim>\<open>update_many\<close> returns, the map is what one update per requested key, in the order
  requested and repeated keys included, makes of it, although the batch visits the keys shard by shard.
\<close>

theorem update_many_sequential:
  assumes "config_ok cfg" and "store_wf cfg s" and "batch_fn_ok cfg fn"
    and "update_many cfg io keys fn s = (s', Inr results)"
  shows "store_wf cfg s' \<and> view cfg s' = fold (\<lambda>k m. case fn k (m k) of
      Inr u \<Rightarrow> apply_upd k (returned u) m | Inl _ \<Rightarrow> m) keys (view cfg s)"
  using update_many_view [OF assms(1,3,2,4)] by (simp add: flat_update_many_def flat_update_def [abs_def])

definition bump :: batch_fn where
  "bump k old = (case old of Some (JInt n) \<Rightarrow> if n < 9 then Inr (Put (JInt (n + 1))) else Inr Delete | _ \<Rightarrow> Inr Keep)"

lemma bump_ok: "batch_fn_ok demo_cfg bump"
proof -
  have "bump k (map_option canon old) = bump k old" for k old
  proof (cases old)
    case (Some v)
    then show ?thesis by (cases v) (simp_all add: bump_def)
  qed simp
  then show ?thesis
    by (simp add: batch_fn_ok_def order_blind_def row_ok_def validate_row_def demo_cfg_def)
qed

theorem update_many_sequential_witness:
  "view demo_cfg (fst (update_many demo_cfg no_faults [''b'', ''a'', ''b''] bump demo_legacy)) ''b'' = Some (JInt 4)"
proof -
  let ?r = "update_many demo_cfg no_faults [''b'', ''a'', ''b''] bump demo_legacy"
  obtain s' r where e: "?r = (s', r)" by (cases ?r)
  have "\<not> isl (snd ?r)" by code_simp
  with e obtain results where r: "r = Inr results" by (cases r) auto
  have v: "view demo_cfg demo_legacy ''b'' = Some (JInt 2)" "view demo_cfg demo_legacy ''a'' = Some (JInt 1)"
    by code_simp+
  show ?thesis
    using update_many_sequential [OF demo_cfg_ok demo_legacy_wf bump_ok, of no_faults "[''b'', ''a'', ''b'']" s' results] e r v
    by (simp add: bump_def returned_def)
qed

end
