(* ===== verification/Keyed_Fresh.thy ===== *)
theory Keyed_Fresh
  imports Keyed_Contract
begin

text \<open>
  Stores that never had a legacy document, as every store created by this version: nothing is left to
  migrate, reading never fails, and a restart of the process changes nothing.
\<close>

lemma ensure_migrated_none:
  assumes "legacy s = Missing"
  obtains s1 where "ensure_migrated cfg io s = (s1, Inr ())" "legacy s1 = Missing" "shard_files s1 = shard_files s"
  using assms that by (cases "migrated s"; cases "retired s = Missing") (auto simp: ensure_migrated_def)

lemma kbind_Inr: "kbind (s, Inr x) f = f s x"
  by (simp add: kbind_def)

lemma written_legacy: "legacy (fst (kbind (write_shard cfg io b rows s) (\<lambda>s2 _. (s2, Inr x)))) = legacy s"
  by (simp add: kbind_def write_shard_def stored_def split: write_outcome.split)

lemma update_legacy:
  assumes "legacy s = Missing"
  shows "legacy (fst (update cfg io key fn s)) = Missing"
proof -
  obtain s1 where s1: "ensure_migrated cfg io s = (s1, Inr ())" "legacy s1 = Missing"
    by (rule ensure_migrated_none [OF assms, of cfg io])
  then show ?thesis
    by (simp add: update_def s1(1) kbind_Inr Let_def written_legacy split: sum.split prod.split upd.split)
qed

lemma update_errors:
  assumes "store_wf cfg s" and "legacy s = Missing" and "update cfg io key fn s = (s', Inl e)"
  shows "e = OSError \<and> \<not> shard_ok io (bucket_of key (shards cfg)) \<and> \<not> (\<forall>old. \<forall>v. fn old \<noteq> Inr (Put v) \<and> fn old \<noteq> Inr Delete) \<or>
    (\<exists>old x. answers (\<lambda>k v. row_ok cfg (k, v)) (view cfg s) key old \<and> fn old = Inl x \<and> e = Raised x)"
proof -
  obtain s1 where s1: "ensure_migrated cfg io s = (s1, Inr ())" "legacy s1 = Missing" "shard_files s1 = shard_files s"
    by (rule ensure_migrated_none [OF assms(2), of cfg io])
  let ?b = "bucket_of key (shards cfg)" and ?old = "row_get (rows_of cfg s (bucket_of key (shards cfg))) key"
  have rd: "read_shard cfg s1 ?b = Inr (rows_of cfg s ?b)"
    using read_shard_cong [of s1 ?b s cfg] s1(3) store_wf_read [OF assms(1)] by simp
  have pend: "pending cfg s = []" using assms(2) by (simp add: pending_def)
  have old: "answers (\<lambda>k v. row_ok cfg (k, v)) (view cfg s) key ?old"
    using shard_get_old [OF assms(1) pend, of key] row_get_shard [OF assms(1)] by (simp add: old_row_answers)
  have os: "snd (write_shard cfg io b rows s2) = Inl e2 \<Longrightarrow> e2 = OSError \<and> \<not> shard_ok io b" for b rows s2 e2
    by (auto simp: write_shard_def shard_ok_def split: if_splits write_outcome.splits)
  show ?thesis
  proof (cases "fn ?old")
    case (Inl x)
    with assms(3) have "e = Raised x" by (simp add: update_def kbind_def s1(1) rd lift_res_def Let_def)
    with Inl old show ?thesis by blast
  next
    case (Inr u)
    with assms(3) os have "e = OSError \<and> \<not> shard_ok io ?b \<and> returned u \<noteq> Keep"
      by (cases "returned u") (auto simp: update_def kbind_def s1(1) rd lift_res_def Let_def split: prod.splits sum.splits if_splits,
          (metis snd_conv)+)
    moreover from this have "u = Delete \<or> (\<exists>v. u = Put v)" by (cases u) (auto simp: returned_def)
    ultimately show ?thesis using Inr by blast
  qed
qed

lemma get_legacy:
  assumes "store_wf cfg s" and "legacy s = Missing"
  shows "legacy (fst (get cfg io k s)) = Missing" and "\<exists>v. snd (get cfg io k s) = Inr v"
proof -
  obtain s1 where s1: "ensure_migrated cfg io s = (s1, Inr ())" "legacy s1 = Missing" "shard_files s1 = shard_files s"
    by (rule ensure_migrated_none [OF assms(2), of cfg io])
  have "read_shard cfg s1 b = Inr (rows_of cfg s b)" for b
    using read_shard_cong [of s1 b s cfg] s1(3) store_wf_read [OF assms(1)] by simp
  with s1 show "legacy (fst (get cfg io k s)) = Missing" "\<exists>v. snd (get cfg io k s) = Inr v"
    by (simp_all add: get_def kbind_Inr)
qed

lemma snapshot_legacy:
  assumes "store_wf cfg s" and "legacy s = Missing"
  shows "legacy (fst (snapshot cfg io s)) = Missing" and "\<exists>rows. snd (snapshot cfg io s) = Inr rows"
proof -
  obtain s1 where s1: "ensure_migrated cfg io s = (s1, Inr ())" "legacy s1 = Missing" "shard_files s1 = shard_files s"
    by (rule ensure_migrated_none [OF assms(2), of cfg io])
  have rd: "read_shard cfg s1 b = Inr (rows_of cfg s b)" for b
    using read_shard_cong [of s1 b s cfg] s1(3) store_wf_read [OF assms(1)] by simp
  have "\<exists>y. rfold (\<lambda>out b. rbind (read_shard cfg s1 b) (\<lambda>rows. Inr (merge_rows out rows))) z bs = Inr y" for z bs
    by (induction bs arbitrary: z) (simp_all add: rd)
  with s1 show "legacy (fst (snapshot cfg io s)) = Missing" "\<exists>rows. snd (snapshot cfg io s) = Inr rows"
    by (simp_all add: snapshot_def kbind_Inr)
qed

lemma view_restart:
  assumes "legacy s = Missing"
  shows "view cfg (s\<lparr>migrated := False\<rparr>) = view cfg s" "store_wf cfg (s\<lparr>migrated := False\<rparr>) = store_wf cfg s"
proof -
  have rd: "read_shard cfg (s\<lparr>migrated := False\<rparr>) b = read_shard cfg s b" for b by (rule read_shard_cong) simp
  have p: "pending cfg (s\<lparr>migrated := False\<rparr>) = []" "pending cfg s = []" using assms by (simp_all add: pending_def)
  show "view cfg (s\<lparr>migrated := False\<rparr>) = view cfg s" by (rule ext) (simp add: view_def shard_get_def rows_of_def rd p)
  show "store_wf cfg (s\<lparr>migrated := False\<rparr>) = store_wf cfg s" by (simp add: store_wf_def rd p)
qed

definition empty_store :: kstore where
  "empty_store = \<lparr>legacy = Missing, retired = Missing, shard_files = (\<lambda>_. Missing), migrated = False\<rparr>"

definition fresh_ok :: "kconfig \<Rightarrow> kstore \<Rightarrow> bool" where
  "fresh_ok cfg s \<longleftrightarrow> store_wf cfg s \<and> legacy s = Missing"

lemma empty_fresh: "fresh_ok cfg empty_store"
  by (simp add: fresh_ok_def store_wf_def empty_store_def pending_def read_shard_def)

lemma get_fresh:
  assumes c: "config_ok cfg" and ok: "fresh_ok cfg s" and g: "get cfg io key s = (s', r)"
  shows "fresh_ok cfg s' \<and> view cfg s' = view cfg s \<and> (\<exists>v. r = Inr v \<and> old_row cfg s key v)"
proof -
  have wf: "store_wf cfg s" and leg: "legacy s = Missing" using ok by (auto simp: fresh_ok_def)
  note v = get_view [OF c wf g]
  from get_legacy [OF wf leg, of io key] g obtain x where l: "legacy s' = Missing" "r = Inr x" by auto
  obtain s1 where s1: "ensure_migrated cfg io s = (s1, Inr ())" "shard_files s1 = shard_files s"
    by (rule ensure_migrated_none [OF leg, of cfg io])
  have "read_shard cfg s1 b = Inr (rows_of cfg s b)" for b
    using read_shard_cong [of s1 b s cfg] s1(2) store_wf_read [OF wf] by simp
  with g l(2) s1(1) have "x = row_get (rows_of cfg s (bucket_of key (shards cfg))) key"
    by (auto simp: get_def kbind_Inr)
  then have "x = shard_get cfg s key" by (simp add: row_get_shard [OF wf])
  moreover have "pending cfg s = []" using leg by (simp add: pending_def)
  ultimately have "old_row cfg s key x" using shard_get_old [OF wf] by simp
  with v l show ?thesis by (auto simp: fresh_ok_def)
qed

lemma update_fresh:
  assumes c: "config_ok cfg" and ok: "fresh_ok cfg s" and u: "update cfg io key (\<lambda>_. Inr x) s = (s', r)"
    and legit: "\<And>v. x = Put v \<Longrightarrow> v \<noteq> JNull \<Longrightarrow> row_ok cfg (key, v)"
  shows "fresh_ok cfg s' \<and> (r = Inl OSError \<and> \<not> (\<forall>b. shard_ok io b) \<and>
        (view cfg s' = view cfg s \<or> durable cfg \<and> view cfg s' = apply_upd key (returned x) (view cfg s)) \<or>
      r = Inr (returned x) \<and> view cfg s' = apply_upd key (returned x) (view cfg s))"
proof -
  have wf: "store_wf cfg s" and leg: "legacy s = Missing" using ok by (auto simp: fresh_ok_def)
  have l: "row_ok cfg (key, v)" if "(Inr x :: upd res) = Inr (Put v)" "v \<noteq> JNull" for old :: "json option" and v
    using legit that by simp
  note v = update_view [OF c wf u l]
  have "legacy s' = Missing" using update_legacy [OF leg, of cfg io key "\<lambda>_. Inr x"] u by simp
  moreover have "e = OSError" "\<not> (\<forall>b. shard_ok io b)" if "r = Inl e" for e
    using update_errors [OF wf leg, of io key "\<lambda>_. Inr x" s' e] u that by auto
  ultimately show ?thesis using v unfolding decided_def late_fault_def by (cases r) (auto simp: fresh_ok_def)
qed

lemma snapshot_fresh:
  assumes c: "config_ok cfg" and ok: "fresh_ok cfg s" and sn: "snapshot cfg io s = (s', r)"
  shows "fresh_ok cfg s' \<and> view cfg s' = view cfg s \<and>
    (\<exists>rows. r = Inr rows \<and> dwf rows \<and> (\<forall>k. old_row cfg s k (dget rows k)))"
proof -
  have wf: "store_wf cfg s" and leg: "legacy s = Missing" using ok by (auto simp: fresh_ok_def)
  show ?thesis using snapshot_view [OF c wf sn] snapshot_legacy [OF wf leg, of io] sn by (auto simp: fresh_ok_def)
qed

lemma restart_fresh: "fresh_ok cfg s \<Longrightarrow> fresh_ok cfg (s\<lparr>migrated := False\<rparr>) \<and> view cfg (s\<lparr>migrated := False\<rparr>) = view cfg s"
  by (auto simp: fresh_ok_def view_restart)

end
