(* ===== verification/Endpoint_Properties.thy ===== *)
theory Endpoint_Properties
  imports Peer_Endpoints Keyed_Fresh
begin

text \<open>
  The endpoint map on top of the keyed-store contract: the interpretation of the contract on the
  sharded store with the endpoint validator, the effect of an announce, of the maintenance pass and of
  a retry pass over the pending queue.
\<close>

section \<open>Rows and the order of keys\<close>

declare canon.simps(7) [simp del] canon_obj [simp]

lemma scalar_canon [simp]:
  "ipv4_value (canon v) = ipv4_value v" "port_value (canon v) = port_value v" "time_value (canon v) = time_value v"
  by (cases v; simp)+

lemma ipv4_value_canon: "ipv4_value v \<Longrightarrow> canon v = v"
  by (cases v) auto

lemma endpoint_valid_canon [simp]: "endpoint_valid (canon e) = endpoint_valid e"
  by (cases "as_obj e") (auto simp: endpoint_valid_def as_obj_canon canon_obj jget_canon)

lemma validate_entry_canon: "validate_entry k (canon v) = validate_entry k v"
  by (cases "as_obj v") (auto simp: validate_entry_def as_obj_canon canon_obj jget_canon list_all_iff split: option.splits)

lemma endpoint_cfg_sel [simp]:
  "shards endpoint_cfg = SHARD_COUNT" "validate endpoint_cfg = Some validate_entry" "\<not> durable endpoint_cfg"
  by (simp_all add: endpoint_cfg_def)

lemma endpoint_cfg_ok: "config_ok endpoint_cfg"
  by (simp add: config_ok_def validate_row_def validate_entry_canon SHARD_COUNT_def)

lemma endpoint_not_late: "\<not> late_fault endpoint_cfg io k"
  by (simp add: late_fault_def)

section \<open>The contract\<close>

text \<open>The endpoint store does not sync its directory, so a write that raises has left no trace.\<close>

interpretation endpoint_map: keyed_map "store_wf endpoint_cfg" "view endpoint_cfg" "\<lambda>k v. row_ok endpoint_cfg (k, v)"
  "late_fault endpoint_cfg io" "update endpoint_cfg io" "delete endpoint_cfg io" for io
  by (rule sharded_keyed_map [OF endpoint_cfg_ok])

section \<open>Validated rows\<close>

definition entry_eps :: "json \<Rightarrow> json list" where
  \<comment> \<open>the endpoints of a row\<close>
  "entry_eps v = (case as_list (jget (obj_or_empty v) ''endpoints'') of Some eps \<Rightarrow> eps | None \<Rightarrow> [])"

lemma entry_eps_canon: "entry_eps (canon v) = map canon (entry_eps v)"
  by (auto simp: entry_eps_def obj_or_empty_canon jget_canon split: option.splits)

lemma ep_get_canon: "ep_get (canon e) k = canon (ep_get e k)"
  by (cases "as_obj e") (auto simp: ep_get_def as_obj_canon canon_obj jget_canon)

lemma row_ok_endpoint: "row_ok endpoint_cfg (k, v) \<longleftrightarrow> validate_entry k v = Inr ()"
proof -
  have "validate_row endpoint_cfg (k, v) = Inr () \<longleftrightarrow> validate_entry k v = Inr ()"
    by (auto simp: validate_row_def split: sum.splits py_error.splits)
  moreover have "validate_entry k JNull \<noteq> Inr ()" by (simp add: validate_entry_def)
  ultimately show ?thesis by (auto simp: row_ok_def)
qed

lemma validate_entry_iff:
  "validate_entry k (JObj d) = Inr () \<longleftrightarrow>
     (\<exists>eps. jget d ''endpoints'' = JList eps \<and> list_all endpoint_valid eps) \<and>
     (\<exists>pt. jget d ''principal_type'' = JStr pt) \<and> (\<exists>pi. jget d ''principal_id'' = JStr pi)"
  by (auto simp: validate_entry_def split: option.splits if_splits)

lemma validate_entryD:
  assumes "validate_entry k v = Inr ()"
  obtains d eps pt pi where "v = JObj d" "dget d ''endpoints'' = Some (JList eps)" "list_all endpoint_valid eps"
    "jget d ''principal_type'' = JStr pt" "jget d ''principal_id'' = JStr pi"
proof -
  obtain d where d: "v = JObj d" using assms by (auto simp: validate_entry_def split: option.splits)
  with assms obtain eps pt pi where e: "jget d ''endpoints'' = JList eps" "list_all endpoint_valid eps"
      "jget d ''principal_type'' = JStr pt" "jget d ''principal_id'' = JStr pi"
    by (auto simp: validate_entry_iff)
  then have "dget d ''endpoints'' = Some (JList eps)"
    by (cases "dget d ''endpoints''") (simp_all add: get_or_def)
  then show thesis using that d e by blast
qed

lemma row_endpoints_valid: "validate_entry k v = Inr () \<Longrightarrow> row_endpoints (obj_or_empty v) = Inr (entry_eps v)"
  by (auto elim!: validate_entryD simp: row_endpoints_def entry_eps_def get_or_def)

lemma entry_eps_valid: "validate_entry k v = Inr () \<Longrightarrow> list_all endpoint_valid (entry_eps v)"
  by (auto elim!: validate_entryD simp: entry_eps_def get_or_def)

lemma validate_set_endpoints:
  "validate_entry k (JObj d) = Inr () \<Longrightarrow> list_all endpoint_valid eps \<Longrightarrow>
   validate_entry k (JObj (dset ''endpoints'' (JList eps) d)) = Inr ()"
  by (auto simp: validate_entry_iff get_or_dset)

lemma validate_set_updated:
  "validate_entry k (JObj (dset ''updated_at'' v d)) = Inr () \<longleftrightarrow> validate_entry k (JObj d) = Inr ()"
  by (simp add: validate_entry_iff get_or_dset)


section \<open>Announces\<close>

definition base_row :: "principal \<Rightarrow> rat \<Rightarrow> json option \<Rightarrow> obj" where
  "base_row p now old = (case old of
       None \<Rightarrow> [(''principal_type'', JStr (ptype p)), (''principal_id'', JStr (pid p)),
                (''updated_at'', JFloat now), (''endpoints'', JList [])]
     | Some e \<Rightarrow> obj_or_empty e)"

definition old_eps :: "json option \<Rightarrow> json list" where
  "old_eps old = (case old of None \<Rightarrow> [] | Some v \<Rightarrow> entry_eps v)"

definition latest_first :: "string \<Rightarrow> json \<Rightarrow> json list \<Rightarrow> json list" where
  \<comment> \<open>the new endpoint in front of those of other addresses, at most \<^verbatim>\<open>ENDPOINT_CAP\<close>\<close>
  "latest_first ipv4 ep eps = take ENDPOINT_CAP (ep # filter (\<lambda>e. \<not> py_eq (ep_get e ''ipv4'') (JStr ipv4)) eps)"

definition new_row :: "principal \<Rightarrow> string \<Rightarrow> int \<Rightarrow> rat \<Rightarrow> json option \<Rightarrow> json" where
  "new_row p ipv4 port now old =
     JObj (dset ''updated_at'' (JFloat now) (dset ''endpoints''
       (JList (latest_first ipv4 (endpoint ipv4 port now) (old_eps old))) (base_row p now old)))"

definition sane_endpoint :: "string \<Rightarrow> int \<Rightarrow> bool" where
  \<comment> \<open>what the tracker lets through: an IPv4 peer address and a port in range\<close>
  "sane_endpoint ipv4 port \<longleftrightarrow> parse_ipv4 ipv4 \<noteq> None \<and> 1 \<le> port \<and> port \<le> 65535"

lemma endpoint_valid_endpoint: "sane_endpoint ipv4 port \<Longrightarrow> endpoint_valid (endpoint ipv4 port now)"
  by (auto simp: sane_endpoint_def endpoint_valid_def endpoint_def get_or_def)

lemma base_row_eps:
  assumes "\<And>v. old = Some v \<Longrightarrow> validate_entry k v = Inr ()"
  shows "row_endpoints (base_row p now old) = Inr (old_eps old)" "list_all endpoint_valid (old_eps old)"
    "validate_entry k (JObj (base_row p now old)) = Inr ()"
proof -
  show "row_endpoints (base_row p now old) = Inr (old_eps old)"
    using assms by (cases old) (simp_all add: base_row_def old_eps_def row_endpoints_def [of "_ # _"] row_endpoints_valid)
  show "list_all endpoint_valid (old_eps old)"
    using assms by (cases old) (simp_all add: old_eps_def entry_eps_valid)
  show "validate_entry k (JObj (base_row p now old)) = Inr ()"
  proof (cases old)
    case None
    then show ?thesis by (simp add: base_row_def validate_entry_iff get_or_def)
  next
    case (Some v)
    with assms obtain d where "v = JObj d" by (metis validate_entryD)
    then show ?thesis using Some assms by (simp add: base_row_def)
  qed
qed

lemma latest_first_valid:
  "sane_endpoint ipv4 port \<Longrightarrow> list_all endpoint_valid eps \<Longrightarrow>
   list_all endpoint_valid (latest_first ipv4 (endpoint ipv4 port now) eps)"
  using endpoint_valid_endpoint [of ipv4 port now]
  by (auto simp: latest_first_def list_all_iff dest!: in_set_takeD)

lemma mutate_row:
  assumes "\<And>v. old = Some v \<Longrightarrow> validate_entry k v = Inr ()" "sane_endpoint ipv4 port"
  shows "mutate p ipv4 port now old = Inr (Put (new_row p ipv4 port now old))"
    "validate_entry k (new_row p ipv4 port now old) = Inr ()"
proof -
  note b = base_row_eps [OF assms(1)]
  show "mutate p ipv4 port now old = Inr (Put (new_row p ipv4 port now old))"
    using b(1) [where p = p and now = now] unfolding mutate_def new_row_def latest_first_def base_row_def [symmetric] by simp
  show "validate_entry k (new_row p ipv4 port now old) = Inr ()"
    unfolding new_row_def validate_set_updated
    by (rule validate_set_endpoints) (use b(2,3) assms(2) in \<open>simp_all add: latest_first_valid\<close>)
qed

lemma entry_eps_new_row: "entry_eps (new_row p ipv4 port now old) = latest_first ipv4 (endpoint ipv4 port now) (old_eps old)"
  by (simp add: entry_eps_def new_row_def get_or_dset)

lemma latest_first_canon: "map canon (latest_first ipv4 ep eps) = latest_first ipv4 (canon ep) (map canon eps)"
proof -
  have "py_eq (canon (ep_get e ''ipv4'')) (JStr ipv4) = py_eq (ep_get e ''ipv4'') (JStr ipv4)" for e
    by (cases "ep_get e ''ipv4''") simp_all
  then show ?thesis by (simp add: latest_first_def take_map [symmetric] filter_map comp_def ep_get_canon del: py_eq_JStr)
qed

lemma answers_eps: "answers legit m k old \<Longrightarrow> map canon (old_eps old) = old_eps (m k)"
  by (cases old) (auto simp: answers_def old_eps_def entry_eps_canon dest: sym)

lemma record_endpoint_row:
  assumes wf: "store_wf endpoint_cfg s" and sane: "sane_endpoint ipv4 port"
    and r: "record_endpoint io p ipv4 port now s = (s', r)"
  shows "store_wf endpoint_cfg s' \<and> (isl r \<longrightarrow> view endpoint_cfg s' = view endpoint_cfg s) \<and>
    (\<forall>k. k \<noteq> principal_key p \<longrightarrow> view endpoint_cfg s' k = view endpoint_cfg s k) \<and>
    (\<forall>b. r = Inr b \<longrightarrow> b = attributable p \<and> (if b
       then \<exists>v. view endpoint_cfg s' (principal_key p) = Some v \<and>
          entry_eps v = latest_first ipv4 (canon (endpoint ipv4 port now)) (old_eps (view endpoint_cfg s (principal_key p)))
       else s' = s))"
proof (cases "attributable p")
  case False
  then show ?thesis using wf r by (auto simp: record_endpoint_def)
next
  case True
  let ?k = "principal_key p" and ?fn = "mutate p ipv4 port now"
  obtain r0 where u: "update endpoint_cfg io ?k ?fn s = (s', r0)" and rr: "r = (case r0 of Inl e \<Rightarrow> Inl e | Inr _ \<Rightarrow> Inr True)"
    using r True by (auto simp: record_endpoint_def kbind_def split: prod.splits sum.splits)
  have f: "?fn old = Inr (Put (new_row p ipv4 port now old)) \<and> new_row p ipv4 port now old \<noteq> JNull \<and>
      row_ok endpoint_cfg (?k, new_row p ipv4 port now old)"
    if "answers (\<lambda>k v. row_ok endpoint_cfg (k, v)) (view endpoint_cfg s) ?k old" for old
    using mutate_row [of old ?k ipv4 port p now] that sane by (auto simp: answers_def row_ok_endpoint new_row_def)
  have wf': "store_wf endpoint_cfg s'" by (rule endpoint_map.upd_put(1) [OF wf u f])
  show ?thesis
  proof (cases r0)
    case (Inl e)
    have "view endpoint_cfg s' = view endpoint_cfg s \<or> late_fault endpoint_cfg io ?k \<and> e = OSError \<and>
        (\<exists>old. answers (\<lambda>k v. row_ok endpoint_cfg (k, v)) (view endpoint_cfg s) ?k old \<and>
           view endpoint_cfg s' = (view endpoint_cfg s)(?k := Some (canon (new_row p ipv4 port now old))))"
      by (rule endpoint_map.upd_put(2) [OF wf u f Inl])
    with wf' show ?thesis by (simp add: rr Inl endpoint_not_late)
  next
    case (Inr w)
    have "\<exists>old. answers (\<lambda>k v. row_ok endpoint_cfg (k, v)) (view endpoint_cfg s) ?k old \<and>
        view endpoint_cfg s' = (view endpoint_cfg s)(?k := Some (canon (new_row p ipv4 port now old)))"
      by (rule endpoint_map.upd_put(3) [OF wf u f Inr])
    then obtain old where o: "answers (\<lambda>k v. row_ok endpoint_cfg (k, v)) (view endpoint_cfg s) ?k old"
      "view endpoint_cfg s' = (view endpoint_cfg s)(?k := Some (canon (new_row p ipv4 port now old)))" by blast
    have "entry_eps (canon (new_row p ipv4 port now old)) =
        latest_first ipv4 (canon (endpoint ipv4 port now)) (old_eps (view endpoint_cfg s ?k))"
      by (simp only: entry_eps_canon entry_eps_new_row latest_first_canon answers_eps [OF o(1)])
    with wf' o(2) True show ?thesis by (simp add: rr Inr)
  qed
qed

lemma latest_first_eq: "latest_first ipv4 ep eps = take 4 (ep # filter (\<lambda>e. ep_get e ''ipv4'' \<noteq> JStr ipv4) eps)"
proof -
  have "py_eq (ep_get e ''ipv4'') (JStr ipv4) \<longleftrightarrow> ep_get e ''ipv4'' = JStr ipv4" for e
    by (cases "ep_get e ''ipv4''") auto
  then show ?thesis by (simp add: latest_first_def ENDPOINT_CAP_def)
qed

lemma latest_first_distinct:
  assumes "distinct (map (\<lambda>e. ep_get e ''ipv4'') eps)" "ep_get ep ''ipv4'' = JStr ipv4"
  shows "distinct (map (\<lambda>e. ep_get e ''ipv4'') (latest_first ipv4 ep eps))"
proof -
  have "distinct (map (\<lambda>e. ep_get e ''ipv4'') (ep # filter (\<lambda>e. ep_get e ''ipv4'' \<noteq> JStr ipv4) eps))"
    using assms by (auto intro: distinct_map_filter)
  then show ?thesis by (simp only: latest_first_eq take_map [symmetric] distinct_take)
qed

lemma ep_get_endpoint: "ep_get (canon (endpoint ipv4 port now)) ''ipv4'' = JStr ipv4"
  unfolding ep_get_canon by (simp add: ep_get_def endpoint_def get_or_def)

text \<open>
  C25. Announce endpoints.  Recording an announce from a device or a service leaves a well-formed store
  in which only that principal's row changed, and its endpoints are exactly the first four of: the new
  endpoint, then the endpoints the row held, in their order, without those of the same address.  So the
  newest comes first, no address is listed twice where none was before, and the oldest are given up.  A
  legacy principal writes nothing, and a write that raises leaves every row as it was (this store does
  not sync its directory, so nothing can fail once the row is in place).
\<close>

theorem record_endpoint_effect:
  assumes "store_wf endpoint_cfg s" and "sane_endpoint ipv4 port"
    and "record_endpoint io p ipv4 port now s = (s', r)"
  shows "store_wf endpoint_cfg s' \<and>
    (\<forall>k. k \<noteq> principal_key p \<longrightarrow> view endpoint_cfg s' k = view endpoint_cfg s k) \<and>
    (case r of
       Inl e \<Rightarrow> view endpoint_cfg s' = view endpoint_cfg s
     | Inr wrote \<Rightarrow> wrote = attributable p \<and> (if wrote
         then \<exists>v. view endpoint_cfg s' (principal_key p) = Some v \<and>
            (let old = (case view endpoint_cfg s (principal_key p) of None \<Rightarrow> [] | Some v \<Rightarrow> entry_eps v)
             in entry_eps v = take 4 (canon (endpoint ipv4 port now) # filter (\<lambda>e. ep_get e ''ipv4'' \<noteq> JStr ipv4) old) \<and>
                (distinct (map (\<lambda>e. ep_get e ''ipv4'') old) \<longrightarrow> distinct (map (\<lambda>e. ep_get e ''ipv4'') (entry_eps v))))
         else s' = s))"
  using record_endpoint_row [OF assms] latest_first_distinct [OF _ ep_get_endpoint [of ipv4 port now]]
  unfolding old_eps_def [symmetric] latest_first_eq [symmetric] Let_def
  by (cases r) (auto simp del: canon.simps canon_obj split: if_splits)

definition demo_device :: principal where
  "demo_device = \<lparr>ptype = ''device'', pid = ''r1''\<rparr>"

lemma empty_store_wf: "store_wf endpoint_cfg empty_store"
  by (simp add: store_wf_def empty_store_def pending_def read_shard_def)

definition demo_announced :: kstore where
  "demo_announced = fst (record_endpoint no_faults demo_device ''10.0.0.8'' 6881 2000
     (fst (record_endpoint no_faults demo_device ''10.0.0.7'' 6881 100 empty_store)))"

lemma record_endpoint_wf:
  "store_wf endpoint_cfg s \<Longrightarrow> sane_endpoint ipv4 port \<Longrightarrow> store_wf endpoint_cfg (fst (record_endpoint io p ipv4 port now s))"
  using record_endpoint_row [of s ipv4 port io p now] by (cases "record_endpoint io p ipv4 port now s") simp

lemma demo_announced_wf: "store_wf endpoint_cfg demo_announced"
proof -
  have "sane_endpoint ''10.0.0.7'' 6881" "sane_endpoint ''10.0.0.8'' 6881" by code_simp+
  then show ?thesis
    unfolding demo_announced_def by (intro record_endpoint_wf empty_store_wf)
qed

text \<open>The first address announces again: it moves to the front and keeps no second place.\<close>

theorem record_endpoint_effect_witness:
  "\<exists>v. view endpoint_cfg (fst (record_endpoint no_faults demo_device ''10.0.0.7'' 6881 3000 demo_announced)) ''device:r1'' = Some v \<and>
     entry_eps v = [canon (endpoint ''10.0.0.7'' 6881 3000), canon (endpoint ''10.0.0.8'' 6881 2000)]"
proof -
  let ?x = "record_endpoint no_faults demo_device ''10.0.0.7'' 6881 3000 demo_announced"
  obtain s' r where e: "?x = (s', r)" by (cases ?x)
  have "\<not> isl (snd ?x)" by code_simp
  with e obtain b where r: "r = Inr b" by (cases r) auto
  have "sane_endpoint ''10.0.0.7'' 6881" by code_simp
  note eff = record_endpoint_effect [OF demo_announced_wf this e]
  have k: "principal_key demo_device = ''device:r1''" "attributable demo_device"
    by (simp_all add: demo_device_def principal_key_def attributable_def)
  have old: "(case view endpoint_cfg demo_announced ''device:r1'' of None \<Rightarrow> [] | Some v \<Rightarrow> entry_eps v) =
      [canon (endpoint ''10.0.0.8'' 6881 2000), canon (endpoint ''10.0.0.7'' 6881 100)]" by code_simp
  have "\<exists>v. view endpoint_cfg s' ''device:r1'' = Some v \<and>
      entry_eps v = [canon (endpoint ''10.0.0.7'' 6881 3000), canon (endpoint ''10.0.0.8'' 6881 2000)]"
    using eff [unfolded r k sum.case old Let_def] k(2)
    by (auto simp: ep_get_endpoint simp del: canon.simps canon_obj)
  then show ?thesis by (simp only: e fst_conv)
qed


section \<open>The maintenance pass\<close>

definition fresh_eps :: "rat \<Rightarrow> int \<Rightarrow> keep_pred \<Rightarrow> json \<Rightarrow> json list" where
  "fresh_eps now ttl keep v = filter (is_fresh (obj_or_empty v) now ttl keep) (entry_eps v)"

definition prune_dec :: "rat \<Rightarrow> int \<Rightarrow> keep_pred \<Rightarrow> string \<Rightarrow> json \<Rightarrow> upd" where
  "prune_dec now ttl keep k v =
     (if fresh_eps now ttl keep v = [] then Delete
      else if length (fresh_eps now ttl keep v) = length (entry_eps v) then Keep
      else Put (JObj (dset ''endpoints'' (JList (fresh_eps now ttl keep v)) (obj_or_empty v))))"

definition prune_note :: "rat \<Rightarrow> int \<Rightarrow> keep_pred \<Rightarrow> (string, json) dict \<Rightarrow> string \<Rightarrow> json \<Rightarrow> (string, json) dict" where
  "prune_note now ttl keep acc k v =
     (if fresh_eps now ttl keep v = [] then acc
      else dset k (get_or (obj_or_empty v) ''updated_at'' (JFloat 0)) acc)"

lemma prune_visit_ok:
  "sweep_fn_ok endpoint_cfg (prune_visit now ttl keep) (prune_note now ttl keep) (prune_dec now ttl keep)"
  unfolding sweep_fn_ok_def row_ok_endpoint
proof (intro allI impI conjI)
  fix acc k v w
  assume v: "validate_entry k v = Inr ()"
  then show "prune_visit now ttl keep acc k v = Inr (prune_note now ttl keep acc k v, prune_dec now ttl keep k v)"
    by (simp add: prune_visit_def fresh_of_def row_endpoints_valid fresh_eps_def [symmetric] prune_note_def prune_dec_def Let_def)
  assume "prune_dec now ttl keep k v = Put w" "w \<noteq> JNull"
  then have w: "w = JObj (dset ''endpoints'' (JList (fresh_eps now ttl keep v)) (obj_or_empty v))"
    by (auto simp: prune_dec_def split: if_splits)
  obtain d where d: "v = JObj d" using v by (rule validate_entryD)
  show "validate_entry k w = Inr ()"
    unfolding w by (rule validate_set_endpoints)
      (use v d entry_eps_valid [OF v] in \<open>auto simp: fresh_eps_def list_all_iff\<close>)
qed

lemma filter_full: "length (filter P xs) = length xs \<Longrightarrow> filter P xs = xs"
  by (metis filter_True length_filter_less less_irrefl)

lemma pruned_row:
  shows "swept (prune_dec now ttl keep) k (Some v) = None \<longleftrightarrow> fresh_eps now ttl keep v = []"
    and "swept (prune_dec now ttl keep) k (Some v) = Some v' \<Longrightarrow> entry_eps v' = fresh_eps now ttl keep v"
  using filter_full [of "is_fresh (obj_or_empty v) now ttl keep" "entry_eps v"]
  by (auto simp: swept_def prune_dec_def returned_def fresh_eps_def [symmetric] entry_eps_def [of "JObj _"] get_or_dset
      split: if_splits)

lemma is_fresh_canon:
  assumes "validate_entry k v = Inr ()" "endpoint_valid e"
  shows "is_fresh (obj_or_empty (canon v)) now ttl keep (canon e) = is_fresh (obj_or_empty v) now ttl keep e"
proof -
  obtain d pt pi where v: "v = JObj d" "jget d ''principal_type'' = JStr pt" "jget d ''principal_id'' = JStr pi"
    using assms(1) by (auto elim: validate_entryD)
  obtain f where e: "e = JObj f" "ipv4_value (jget f ''ipv4'')"
    using assms(2) by (auto simp: endpoint_valid_def split: option.splits)
  have ip: "canon (ep_get e ''ipv4'') = ep_get e ''ipv4''" using e by (simp add: ep_get_def ipv4_value_canon)
  have ob: "as_num (get_or (canon_rows f) ''observed_at'' (JFloat 0)) = as_num (get_or f ''observed_at'' (JFloat 0))"
    using get_or_canon [of f "''observed_at''" "JFloat 0"] by simp
  show ?thesis
    using v e(1) ip ob
    by (cases keep) (simp_all add: is_fresh_def Let_def jget_canon ep_get_canon [of "JObj f", simplified])
qed

lemma fresh_eps_canon:
  assumes "validate_entry k v = Inr ()"
  shows "fresh_eps now ttl keep (canon v) = map canon (fresh_eps now ttl keep v)"
proof -
  have "filter (is_fresh (obj_or_empty (canon v)) now ttl keep \<circ> canon) (entry_eps v) =
        filter (is_fresh (obj_or_empty v) now ttl keep) (entry_eps v)"
    using entry_eps_valid [OF assms] is_fresh_canon [OF assms] by (intro filter_cong) (auto simp: list_all_iff)
  then show ?thesis by (simp add: fresh_eps_def entry_eps_canon filter_map)
qed

definition live :: "rat \<Rightarrow> int \<Rightarrow> keep_pred \<Rightarrow> (string \<Rightarrow> json option) \<Rightarrow> string set" where
  \<comment> \<open>the principals with an endpoint to keep\<close>
  "live now ttl keep m = {k. \<exists>v. m k = Some v \<and> fresh_eps now ttl keep v \<noteq> []}"

lemma notes_keys:
  "set (dkeys (foldl (\<lambda>a (k, v). prune_note now ttl keep a k v) acc rows)) =
     set (dkeys acc) \<union> {k. \<exists>v. (k, v) \<in> set rows \<and> fresh_eps now ttl keep v \<noteq> []} \<and>
   (dwf acc \<longrightarrow> dwf (foldl (\<lambda>a (k, v). prune_note now ttl keep a k v) acc rows))"
proof (induction rows arbitrary: acc)
  case (Cons kv rows)
  obtain k v where kv: "kv = (k, v)" by (cases kv)
  show ?case
    using Cons.IH [of "prune_note now ttl keep acc k v"]
    by (auto simp: kv prune_note_def set_dkeys_dset simp del: set_map split: if_splits intro: dwf_dset)
qed simp

lemma delete_all_view:
  "delete_all io ks s = (s', Inr ()) \<Longrightarrow> store_wf endpoint_cfg s \<Longrightarrow>
   store_wf endpoint_cfg s' \<and> view endpoint_cfg s' = (\<lambda>k. if k \<in> set ks then None else view endpoint_cfg s k)"
proof (induction ks arbitrary: s)
  case (Cons k ks)
  from Cons.prems(1) have "kbind (delete endpoint_cfg io k s) (\<lambda>s' _. delete_all io ks s') = (s', Inr ())" by simp
  then show ?case
  proof (cases rule: kbind_cases)
    case (go s1 b)
    note d = endpoint_map.del_inv [OF Cons.prems(2) go(1)] endpoint_map.del_ok [OF Cons.prems(2) go(1)]
    show ?thesis using Cons.IH [OF go(2) d(1)] d(2) by auto
  qed simp
qed simp

lemma oldest_first_keys:
  "oldest_first rows = Inr ks \<Longrightarrow> dwf rows \<Longrightarrow> distinct ks \<and> set ks = set (dkeys rows) \<and> length ks = length rows"
proof -
  assume o: "oldest_first rows = Inr ks" and d: "dwf rows"
  let ?s = "sort_key (\<lambda>(k, v). the (as_num v)) rows"
  have ks: "ks = map fst ?s" using o by (simp add: oldest_first_def split: if_splits)
  have "distinct ?s" using d by (simp add: dwf_def distinct_map)
  moreover have "inj_on fst (set ?s)" using d by (simp add: dwf_def distinct_map)
  ultimately have "distinct ks" by (simp add: ks distinct_map)
  then show ?thesis by (simp add: ks)
qed

lemma prune_sweep:
  assumes wf: "store_wf endpoint_cfg s"
    and sw: "sweep endpoint_cfg io (prune_visit now ttl keep) [] s = (s1, Inr x)"
  shows "store_wf endpoint_cfg s1" "dwf (fst x)"
    "set (dkeys (fst x)) = live now ttl keep (view endpoint_cfg s)"
    "dom (view endpoint_cfg s1) = live now ttl keep (view endpoint_cfg s)"
    "view endpoint_cfg s1 k = Some v' \<Longrightarrow>
       \<exists>v. view endpoint_cfg s k = Some v \<and> entry_eps v' = fresh_eps now ttl keep v \<and> entry_eps v' \<noteq> []"
proof -
  let ?dec = "prune_dec now ttl keep" and ?V = "view endpoint_cfg"
  note sv = sweep_view [OF endpoint_cfg_ok prune_visit_ok wf sw]
  then show "store_wf endpoint_cfg s1" by simp
  from sv obtain rows where dw: "dwf rows" and old: "\<And>k. old_row endpoint_cfg s k (dget rows k)"
    and fx: "fst x = foldl (\<lambda>a (k, v). prune_note now ttl keep a k v) [] rows"
    and vw: "\<And>k. ?V s1 k = map_option canon (swept ?dec k (dget rows k))" by auto
  have vs: "?V s k = map_option canon (dget rows k)" for k using old [of k] by (simp add: old_row_def)
  have ok: "validate_entry k v = Inr ()" if "dget rows k = Some v" for k v
    using old [of k] that by (simp add: old_row_def row_ok_endpoint)
  have fc: "fresh_eps now ttl keep (canon v) = map canon (fresh_eps now ttl keep v)" if "dget rows k = Some v" for k v
    by (rule fresh_eps_canon [OF ok [OF that]])
  have live: "k \<in> live now ttl keep (?V s) \<longleftrightarrow> (\<exists>v. dget rows k = Some v \<and> fresh_eps now ttl keep v \<noteq> [])" for k
    using fc [of k] by (auto simp: live_def vs)
  show "dwf (fst x)" using notes_keys [of now ttl keep "[]" rows] fx by simp
  show "set (dkeys (fst x)) = live now ttl keep (?V s)"
    unfolding fx notes_keys [THEN conjunct1] using live dwf_dget_iff [OF dw] by auto
  have sn: "swept ?dec k None = None" for k by (simp add: swept_def)
  show "dom (?V s1) = live now ttl keep (?V s)"
  proof (rule set_eqI)
    fix k
    show "k \<in> dom (?V s1) \<longleftrightarrow> k \<in> live now ttl keep (?V s)"
    proof (cases "dget rows k")
      case (Some a)
      then show ?thesis
        using pruned_row(1) [of now ttl keep k a] by (cases "swept ?dec k (Some a)") (auto simp: live vw)
    qed (auto simp: live vw sn)
  qed
  show "\<exists>v. ?V s k = Some v \<and> entry_eps v' = fresh_eps now ttl keep v \<and> entry_eps v' \<noteq> []" if v': "?V s1 k = Some v'"
  proof (cases "dget rows k")
    case None
    then show ?thesis using v' by (simp add: vw sn)
  next
    case (Some v)
    then obtain w where w: "swept ?dec k (Some v) = Some w" "v' = canon w" using v' by (auto simp: vw)
    then have "entry_eps v' = fresh_eps now ttl keep (canon v)"
      using pruned_row(2) fc [OF Some] by (simp add: entry_eps_canon)
    moreover have "fresh_eps now ttl keep v \<noteq> []" using pruned_row(1) [of now ttl keep k v] w by auto
    ultimately show ?thesis using Some fc [OF Some] by (simp add: vs)
  qed
qed

text \<open>
  C26. Retention.  After a successful maintenance pass no row holds anything but the endpoints that are
  within the TTL or claimed by the caller's predicate, in their order, and no row is empty; the map holds
  at most \<^verbatim>\<open>MAX_PRINCIPALS\<close> principals; and while no more than that many have an endpoint to keep, each of
  them is kept.
\<close>

theorem prune_endpoints_exact:
  assumes "store_wf endpoint_cfg s" and "prune_endpoints io ttl now keep s = (s', Inr ())"
  shows "store_wf endpoint_cfg s' \<and>
    (\<forall>k v'. view endpoint_cfg s' k = Some v' \<longrightarrow> (\<exists>v. view endpoint_cfg s k = Some v \<and>
       entry_eps v' = filter (is_fresh (obj_or_empty v) now ttl keep) (entry_eps v) \<and> entry_eps v' \<noteq> [])) \<and>
    finite (dom (view endpoint_cfg s')) \<and> int (card (dom (view endpoint_cfg s'))) \<le> MAX_PRINCIPALS \<and>
    (int (card (live now ttl keep (view endpoint_cfg s))) \<le> MAX_PRINCIPALS \<longrightarrow>
       dom (view endpoint_cfg s') = live now ttl keep (view endpoint_cfg s))"
proof -
  let ?V = "view endpoint_cfg"
  from assms(2) have "kbind (sweep endpoint_cfg io (prune_visit now ttl keep) [] s)
     (\<lambda>s' res. enforce_principal_cap io (fst res) s') = (s', Inr ())" by (simp add: prune_endpoints_def)
  then show ?thesis
  proof (cases rule: kbind_cases)
    case (go s1 x)
    note sw = prune_sweep [OF assms(1) go(1)]
    have n: "length (fst x) = card (live now ttl keep (?V s))"
      using sw(2,3) by (metis distinct_card dwf_def length_map)
    have fin: "finite (live now ttl keep (?V s))" unfolding sw(3) [symmetric] by simp
    show ?thesis
    proof (cases "int (length (fst x)) \<le> MAX_PRINCIPALS")
      case True
      then have "s' = s1" using go(2) by (simp add: enforce_principal_cap_def)
      then show ?thesis using sw n fin True by (auto simp: fresh_eps_def)
    next
      case False
      then obtain ks where ks: "oldest_first (fst x) = Inr ks"
        and del: "delete_all io (take (length (fst x) - nat MAX_PRINCIPALS) ks) s1 = (s', Inr ())"
        using go(2) by (auto simp: enforce_principal_cap_def split: sum.splits)
      let ?vs = "take (length (fst x) - nat MAX_PRINCIPALS) ks"
      note dv = delete_all_view [OF del sw(1)] and ok = oldest_first_keys [OF ks sw(2)]
      have dom: "dom (?V s') = live now ttl keep (?V s) - set ?vs"
        using dv sw(4) by (auto simp: dom_def split: if_splits)
      have sub: "set ?vs \<subseteq> live now ttl keep (?V s)" using ok sw(3) set_take_subset by fastforce
      have "card (set ?vs) = length ?vs" using ok by (simp add: distinct_card distinct_take)
      also have "\<dots> = length (fst x) - nat MAX_PRINCIPALS" using ok by simp
      finally have "card (dom (?V s')) = nat MAX_PRINCIPALS"
        unfolding dom using card_Diff_subset [OF finite_set sub] n False by linarith
      moreover have "0 \<le> MAX_PRINCIPALS" by (simp add: MAX_PRINCIPALS_def SUPPORTED_DEVICES_def SERVICE_PRINCIPAL_HEADROOM_def)
      moreover have "?V s1 k = Some v" if "?V s' k = Some v" for k v
        using that dv by (simp split: if_splits)
      ultimately show ?thesis using dv sw(5) fin dom n False by (auto simp: fresh_eps_def)
    qed
  qed simp
qed

theorem prune_endpoints_exact_witness:
  "\<exists>v v'. view endpoint_cfg demo_announced ''device:r1'' = Some v \<and>
     view endpoint_cfg (fst (prune_endpoints no_faults 900 2100 None demo_announced)) ''device:r1'' = Some v' \<and>
     entry_eps v' = filter (is_fresh (obj_or_empty v) 2100 900 None) (entry_eps v)"
proof -
  let ?x = "prune_endpoints no_faults 900 2100 None demo_announced"
  obtain s' r where e: "?x = (s', r)" by (cases ?x)
  have "case ?x of (s, r) \<Rightarrow> r = Inr () \<and> view endpoint_cfg s ''device:r1'' \<noteq> None" by code_simp
  then have x: "?x = (s', Inr ())" and "view endpoint_cfg s' ''device:r1'' \<noteq> None" unfolding e by simp_all
  then obtain v' where v': "view endpoint_cfg s' ''device:r1'' = Some v'" by blast
  from prune_endpoints_exact [OF demo_announced_wf x] v' show ?thesis
    by (simp only: x fst_conv) blast
qed


section \<open>The pending queue\<close>

definition item_ok :: "string \<times> pending_item \<Rightarrow> bool" where
  \<comment> \<open>what the tracker enqueues: an attributable principal under its own key, with a sane endpoint\<close>
  "item_ok kv \<longleftrightarrow>
     (let p = \<lparr>ptype = item_type (snd kv), pid = item_id (snd kv)\<rparr>
      in fst kv = principal_key p \<and> attributable p \<and> sane_endpoint (item_ipv4 (snd kv)) (item_port (snd kv)))"

definition queue_ok :: "pending_queue \<Rightarrow> bool" where
  "queue_ok q \<longleftrightarrow> dwf (queue_items q) \<and> list_all item_ok (queue_items q) \<and> length (queue_items q) \<le> queue_cap q \<and>
     list_all (\<lambda>(k, it). item_ref it < next_ref q) (queue_items q)"

definition on_disk :: "kstore \<Rightarrow> string \<Rightarrow> pending_item \<Rightarrow> bool" where
  \<comment> \<open>the principal's newest stored endpoint is the item's, with the time it was first observed\<close>
  "on_disk s key it \<longleftrightarrow> (\<exists>v. view endpoint_cfg s key = Some v \<and>
     hd (entry_eps v) = canon (endpoint (item_ipv4 it) (item_port it) (item_observed it)))"

lemma evict_oldest_drop: "evict_oldest c items = drop (length items - c) items"
  by (induction items) (auto simp: Suc_diff_le)

lemma enqueue_ok:
  assumes "queue_ok q" "attributable p" "sane_endpoint ipv4 port"
  shows "queue_ok (enqueue p ipv4 port now q)"
proof -
  let ?it = "\<lparr>item_type = ptype p, item_id = pid p, item_ipv4 = ipv4, item_port = port, item_observed = now, item_ref = next_ref q\<rparr>"
  let ?d = "dset (principal_key p) ?it (queue_items q)"
  have "item_ok (principal_key p, ?it)" using assms(2,3) by (cases p) (simp add: item_ok_def)
  moreover have d: "dwf ?d" using assms(1) by (auto simp: queue_ok_def intro: dwf_dset)
  moreover have "item_ref b < Suc (next_ref q)" if "(a, b) \<in> set (queue_items q)" for a b
    using assms(1) that by (fastforce simp: queue_ok_def list_all_iff)
  ultimately have i: "\<forall>kv \<in> set ?d. item_ok kv \<and> item_ref (snd kv) < Suc (next_ref q)"
    using assms(1)
    by (auto simp: queue_ok_def list_all_iff dwf_dget_iff [OF d, symmetric] dwf_dget_iff split: if_splits)
  then have "\<forall>kv \<in> set (drop n ?d). item_ok kv \<and> item_ref (snd kv) < Suc (next_ref q)" for n by (meson in_set_dropD)
  moreover have "dwf (drop n ?d)" for n using d by (simp add: dwf_def drop_map [symmetric])
  ultimately show ?thesis
    by (fastforce simp: queue_ok_def enqueue_def Let_def evict_oldest_drop list_all_iff)
qed

lemma drop_key_same:
  "dget (queue_items q) key = Some it \<Longrightarrow>
   drop_key key (Some (item_ref it)) q = (q\<lparr>queue_items := ddel key (queue_items q)\<rparr>, True)"
  by (simp add: drop_key_def)

lemma item_written:
  assumes "item_ok (key, it)" "store_wf endpoint_cfg s"
    "record_endpoint io \<lparr>ptype = item_type it, pid = item_id it\<rparr> (item_ipv4 it) (item_port it) (item_observed it) s = (s', r)"
  shows "store_wf endpoint_cfg s'" "k \<noteq> key \<Longrightarrow> view endpoint_cfg s' k = view endpoint_cfg s k"
    "r = Inr b \<Longrightarrow> on_disk s' key it"
proof -
  have sane: "sane_endpoint (item_ipv4 it) (item_port it)" using assms(1) by (simp add: item_ok_def Let_def)
  note row = record_endpoint_row [OF assms(2) sane assms(3)]
  show "store_wf endpoint_cfg s'" "k \<noteq> key \<Longrightarrow> view endpoint_cfg s' k = view endpoint_cfg s k"
    using row assms(1) by (auto simp: item_ok_def Let_def)
  have hd: "hd (latest_first ip ep eps) = ep" for ip ep eps by (simp add: latest_first_def ENDPOINT_CAP_def take_Cons')
  show "on_disk s' key it" if "r = Inr b"
    using row that assms(1) hd by (auto simp: item_ok_def Let_def on_disk_def simp del: canon_obj)
qed

lemma on_disk_cong: "view endpoint_cfg s' key = view endpoint_cfg s key \<Longrightarrow> on_disk s' key it = on_disk s key it"
  by (simp add: on_disk_def)

lemma retry_items_durable:
  "retry_items (record_endpoint io) env items res (s, q) = ((s', q'), Inr resolved) \<Longrightarrow>
   list_all item_ok items \<Longrightarrow> dwf items \<Longrightarrow> store_wf endpoint_cfg s \<Longrightarrow>
   store_wf endpoint_cfg s' \<and> set res \<subseteq> set resolved \<and>
   (\<forall>k. k \<notin> fst ` set items \<longrightarrow> view endpoint_cfg s' k = view endpoint_cfg s k) \<and>
   (\<forall>k \<in> set resolved. k \<in> set res \<or> (\<exists>it. (k, it) \<in> set items \<and> on_disk s' k it))"
proof (induction items arbitrary: res s q)
  case (Cons kv items)
  obtain key it where kv: "kv = (key, it)" by (cases kv)
  let ?p = "\<lparr>ptype = item_type it, pid = item_id it\<rparr>"
  obtain s1 r1 where w: "record_endpoint io ?p (item_ipv4 it) (item_port it) (item_observed it) s = (s1, r1)" by fastforce
  have ok: "item_ok (key, it)" "list_all item_ok items" "dwf items" "key \<notin> fst ` set items"
    using Cons.prems(2,3) by (auto simp: kv dwf_def)
  note wr = item_written [OF ok(1) Cons.prems(4) w]
  obtain res1 q1 where rest: "retry_items (record_endpoint io) env items res1 (s1, q1) = ((s', q'), Inr resolved)"
    and res1: "res1 = res \<or> res1 = res @ [key] \<and> (\<exists>b. r1 = Inr b)"
  proof (cases r1)
    case (Inl e)
    then show thesis using Cons.prems(1) w that [of res "env key q"] by (cases e) (auto simp: kv)
  next
    case (Inr b)
    obtain q1 dr where "drop_key key (Some (item_ref it)) (env key q) = (q1, dr)" by fastforce
    then show thesis using Cons.prems(1) w Inr that [of "if dr then res @ [key] else res" q1] by (auto simp: kv)
  qed
  note IH = Cons.IH [OF rest ok(2,3) wr(1)]
  have dk: "on_disk s' key it = on_disk s1 key it" using IH ok(4) by (intro on_disk_cong) simp
  have sub: "set res \<subseteq> set res1" using res1 by (elim disjE conjE) auto
  have new: "k \<in> set res \<or> (\<exists>i. (k, i) \<in> set (kv # items) \<and> on_disk s' k i)" if k: "k \<in> set res1" for k
    using res1
  proof (elim disjE conjE exE)
    fix b
    assume "res1 = res @ [key]" "r1 = Inr b"
    then have "k \<in> set res \<or> k = key" "on_disk s' key it" using k wr(3) dk by auto
    then show ?thesis by (auto simp: kv)
  qed (use k in simp)
  have "k \<in> set res \<or> (\<exists>i. (k, i) \<in> set (kv # items) \<and> on_disk s' k i)" if "k \<in> set resolved" for k
    using IH that new [of k] by (meson list.set_intros(2))
  moreover have "set res \<subseteq> set resolved" using IH sub by blast
  moreover have "view endpoint_cfg s' k = view endpoint_cfg s k" if "k \<notin> fst ` set (kv # items)" for k
    using IH wr(2) [of k] that by (simp add: kv)
  ultimately show ?case using IH by blast
qed simp

lemma retry_items_alone:
  "retry_items write (\<lambda>_ q. q) items res (s, q) = ((s', q'), Inr resolved) \<Longrightarrow>
   dwf items \<Longrightarrow> dwf (queue_items q) \<Longrightarrow> (\<And>k it. (k, it) \<in> set items \<Longrightarrow> dget (queue_items q) k = Some it) \<Longrightarrow>
   set res \<inter> set (dkeys (queue_items q)) = {} \<Longrightarrow>
   set res \<subseteq> set resolved \<and> queue_items q' = filter (\<lambda>kv. fst kv \<notin> set resolved) (queue_items q)"
proof (induction items arbitrary: res s q)
  case Nil
  then have "set res \<inter> fst ` set (queue_items q) = {}" by simp
  then have "\<forall>kv \<in> set (queue_items q). fst kv \<notin> set res" by (metis disjoint_iff imageI)
  then have "filter (\<lambda>kv. fst kv \<notin> set res) (queue_items q) = queue_items q" by simp
  with Nil show ?case by auto
next
  case (Cons kv items)
  obtain key it where kv: "kv = (key, it)" by (cases kv)
  let ?p = "\<lparr>ptype = item_type it, pid = item_id it\<rparr>"
  obtain s1 r1 where w: "write ?p (item_ipv4 it) (item_port it) (item_observed it) s = (s1, r1)" by fastforce
  have di: "dwf items" "key \<notin> fst ` set items" using Cons.prems(2) by (auto simp: kv dwf_def)
  have at: "dget (queue_items q) key = Some it" using Cons.prems(4) by (simp add: kv)
  show ?case
  proof (cases r1)
    case (Inl e)
    then have "retry_items write (\<lambda>_ q. q) items res (s1, q) = ((s', q'), Inr resolved)"
      using Cons.prems(1) w by (cases e) (auto simp: kv)
    then show ?thesis using Cons.IH [OF _ di(1) Cons.prems(3) _ Cons.prems(5)] Cons.prems(4) by (simp add: kv)
  next
    case (Inr b)
    let ?q = "q\<lparr>queue_items := ddel key (queue_items q)\<rparr>"
    have rest: "retry_items write (\<lambda>_ q. q) items (res @ [key]) (s1, ?q) = ((s', q'), Inr resolved)"
      using Cons.prems(1) w Inr drop_key_same [OF at] by (simp add: kv)
    have "set (res @ [key]) \<inter> set (dkeys (queue_items ?q)) = {}"
      using Cons.prems(5) by (auto simp: set_dkeys_ddel simp del: set_map)
    moreover have "dget (queue_items ?q) k = Some i" if "(k, i) \<in> set items" for k i
      using that di(2) Cons.prems(4) [of k i] by (force simp: kv)
    ultimately have IH: "set (res @ [key]) \<subseteq> set resolved \<and>
        queue_items q' = filter (\<lambda>kv. fst kv \<notin> set resolved) (queue_items ?q)"
      using Cons.IH [OF rest di(1)] Cons.prems(3) by (simp add: dwf_ddel)
    then have "filter (\<lambda>kv. fst kv \<notin> set resolved) (ddel key (queue_items q)) =
        filter (\<lambda>kv. fst kv \<notin> set resolved) (queue_items q)"
      by (auto simp: AList.delete_eq intro!: filter_cong)
    then show ?thesis using IH by simp
  qed
qed

lemma record_succeeds:
  assumes "store_wf endpoint_cfg s" "migrated s" "\<And>b. shard_ok io b" "sane_endpoint ipv4 port"
  shows "\<exists>s' b. record_endpoint io p ipv4 port now s = (s', Inr b) \<and> migrated s'"
proof (cases "attributable p")
  case True
  have "\<not> isl (mutate p ipv4 port now old)" if "old_row endpoint_cfg s (principal_key p) old" for old
    using mutate_row(1) [of old "principal_key p" ipv4 port p now] that assms(4) by (auto simp: old_row_def row_ok_endpoint)
  then show ?thesis
    using update_succeeds [OF assms(1,2,3), of "principal_key p" "mutate p ipv4 port now"] True
    by (auto simp: record_endpoint_def kbind_def)
next
  case False
  then show ?thesis using assms(2) by (intro exI [of _ s] exI [of _ False]) (simp add: record_endpoint_def)
qed

lemma retry_items_all:
  assumes "\<And>b. shard_ok io b"
  shows "list_all item_ok items \<Longrightarrow> dwf items \<Longrightarrow> store_wf endpoint_cfg s \<Longrightarrow> migrated s \<Longrightarrow>
    (\<And>k it. (k, it) \<in> set items \<Longrightarrow> dget (queue_items q) k = Some it) \<Longrightarrow>
    \<exists>s' q'. retry_items (record_endpoint io) (\<lambda>_ q. q) items res (s, q) = ((s', q'), Inr (res @ map fst items))"
proof (induction items arbitrary: res s q)
  case (Cons kv items)
  obtain key it where kv: "kv = (key, it)" by (cases kv)
  have ok: "item_ok (key, it)" "list_all item_ok items" "dwf items" "key \<notin> fst ` set items"
    using Cons.prems(1,2) by (auto simp: kv dwf_def)
  then have sane: "sane_endpoint (item_ipv4 it) (item_port it)" by (simp add: item_ok_def Let_def)
  obtain s1 b where w: "record_endpoint io \<lparr>ptype = item_type it, pid = item_id it\<rparr> (item_ipv4 it) (item_port it) (item_observed it) s = (s1, Inr b)"
    and m: "migrated s1" using record_succeeds [OF Cons.prems(3,4) assms sane] by blast
  let ?q = "q\<lparr>queue_items := ddel key (queue_items q)\<rparr>"
  have at: "dget (queue_items q) key = Some it" using Cons.prems(5) by (simp add: kv)
  have "dget (queue_items ?q) k = Some i" if "(k, i) \<in> set items" for k i
    using that ok(4) Cons.prems(5) [of k i] by (force simp: kv)
  from Cons.IH [OF ok(2,3) item_written(1) [OF ok(1) Cons.prems(3) w] m this, of "res @ [key]"]
  show ?case using w drop_key_same [OF at] by (simp add: kv)
qed simp

subsection \<open>Announces during a pass\<close>

type_synonym announce_event = "principal \<times> string \<times> int \<times> rat"

definition queued :: "announce_event \<Rightarrow> nat \<Rightarrow> pending_item" where
  \<comment> \<open>the item an announce puts on the queue\<close>
  "queued a ref = (case a of (p, ipv4, port, now) \<Rightarrow>
     \<lparr>item_type = ptype p, item_id = pid p, item_ipv4 = ipv4, item_port = port, item_observed = now, item_ref = ref\<rparr>)"

definition announced :: "announce_event list \<Rightarrow> pending_queue \<Rightarrow> pending_queue" where
  "announced as q = foldl (\<lambda>q (p, ipv4, port, now). enqueue p ipv4 port now q) q as"

definition last_announce :: "announce_event list \<Rightarrow> string \<Rightarrow> announce_event option" where
  "last_announce as k = find (\<lambda>a. principal_key (fst a) = k) (rev as)"

lemma last_announce_append: "last_announce (as @ bs) k =
    (case last_announce bs k of Some a \<Rightarrow> Some a | None \<Rightarrow> last_announce as k)"
proof -
  have "find P (xs @ ys) = (case find P xs of Some x \<Rightarrow> Some x | None \<Rightarrow> find P ys)" for P and xs ys :: "announce_event list"
    by (induction xs) auto
  then show ?thesis unfolding last_announce_def by simp
qed

text \<open>While the queue has room, announces add or replace and evict nothing.\<close>

lemma enqueue_room:
  assumes "length (queue_items q) < queue_cap q"
  shows "enqueue p ipv4 port now q =
    q\<lparr>queue_items := dset (principal_key p) (queued (p, ipv4, port, now) (next_ref q)) (queue_items q), next_ref := Suc (next_ref q)\<rparr>"
  using assms length_dset_le [of "principal_key p" "queued (p, ipv4, port, now) (next_ref q)" "queue_items q"]
  by (simp add: enqueue_def Let_def evict_oldest_drop queued_def)

lemma announced_room:
  "length (queue_items q) + length as \<le> queue_cap q \<Longrightarrow> dwf (queue_items q) \<Longrightarrow>
   queue_cap (announced as q) = queue_cap q \<and> length (queue_items (announced as q)) \<le> length (queue_items q) + length as \<and>
   dwf (queue_items (announced as q)) \<and> next_ref q \<le> next_ref (announced as q) \<and>
   (\<forall>k. case last_announce as k of
          Some a \<Rightarrow> \<exists>ref \<ge> next_ref q. dget (queue_items (announced as q)) k = Some (queued a ref)
        | None \<Rightarrow> dget (queue_items (announced as q)) k = dget (queue_items q) k)"
proof (induction as rule: rev_induct)
  case Nil
  then show ?case by (simp add: announced_def last_announce_def)
next
  case (snoc a as)
  let ?q = "announced as q"
  have IH: "queue_cap ?q = queue_cap q" "length (queue_items ?q) \<le> length (queue_items q) + length as"
    "dwf (queue_items ?q)" "next_ref q \<le> next_ref ?q"
    "case last_announce as k of
       Some a \<Rightarrow> \<exists>ref \<ge> next_ref q. dget (queue_items ?q) k = Some (queued a ref)
     | None \<Rightarrow> dget (queue_items ?q) k = dget (queue_items q) k" for k
    using snoc by auto
  obtain p ipv4 port now where a: "a = (p, ipv4, port, now)" by (cases a)
  have room: "length (queue_items ?q) < queue_cap ?q" using IH(1,2) snoc.prems(1) by simp
  have e: "announced (as @ [a]) q =
      ?q\<lparr>queue_items := dset (principal_key p) (queued a (next_ref ?q)) (queue_items ?q), next_ref := Suc (next_ref ?q)\<rparr>"
    using enqueue_room [OF room, of p ipv4 port now] by (simp add: announced_def a)
  have la: "last_announce (as @ [a]) k = (if k = principal_key p then Some a else last_announce as k)" for k
    by (auto simp: last_announce_append) (simp_all add: last_announce_def a)
  have "length (dset (principal_key p) (queued a (next_ref ?q)) (queue_items ?q)) \<le> length (queue_items q) + length (as @ [a])"
    using length_dset_le [of "principal_key p" "queued a (next_ref ?q)" "queue_items ?q"] IH(2) by simp
  moreover have "case last_announce (as @ [a]) k of
      Some b \<Rightarrow> \<exists>ref \<ge> next_ref q. dget (queue_items (announced (as @ [a]) q)) k = Some (queued b ref)
    | None \<Rightarrow> dget (queue_items (announced (as @ [a]) q)) k = dget (queue_items q) k" for k
  proof (cases "k = principal_key p")
    case True
    then show ?thesis using IH(4) by (auto simp: e la)
  next
    case False
    then have d: "dget (queue_items (announced (as @ [a]) q)) k = dget (queue_items ?q) k" by (simp add: e)
    show ?thesis using IH(5) [of k] False unfolding la d by simp
  qed
  ultimately show ?case using IH(1,3,4) by (simp add: e dwf_dset)
qed

lemma retry_items_concurrent:
  "retry_items write (\<lambda>k. announced (evs k)) items res (s, q) = ((s', q'), Inr resolved) \<Longrightarrow>
   length (queue_items q) + length (concat (map evs (map fst items))) \<le> queue_cap q \<Longrightarrow>
   dwf items \<Longrightarrow> dwf (queue_items q) \<Longrightarrow> \<forall>(k, it) \<in> set items. item_ref it < next_ref q \<Longrightarrow>
   \<exists>new. resolved = res @ new \<and>
     (\<forall>k \<in> set new. \<exists>it j. (k, it) \<in> set items \<and> dget (queue_items q) k = Some j \<and> item_ref j = item_ref it) \<and>
     (\<forall>k. case last_announce (concat (map evs (map fst items))) k of
            Some a \<Rightarrow> \<exists>ref. dget (queue_items q') k = Some (queued a ref)
          | None \<Rightarrow> dget (queue_items q') k = (if k \<in> set new then None else dget (queue_items q) k))"
proof (induction items arbitrary: res s q)
  case Nil
  then show ?case by (simp add: last_announce_def)
next
  case (Cons kv items)
  obtain key it where kv: "kv = (key, it)" by (cases kv)
  let ?as = "concat (map evs (map fst items))" and ?q = "announced (evs key) q"
  have di: "dwf items" "key \<notin> fst ` set items" using Cons.prems(3) by (auto simp: kv dwf_def)
  have room: "length (queue_items q) + length (evs key) \<le> queue_cap q" using Cons.prems(2) by (simp add: kv)
  have an: "queue_cap ?q = queue_cap q" "length (queue_items ?q) \<le> length (queue_items q) + length (evs key)"
    "dwf (queue_items ?q)" "next_ref q \<le> next_ref ?q"
    "case last_announce (evs key) k of
       Some a \<Rightarrow> \<exists>ref \<ge> next_ref q. dget (queue_items ?q) k = Some (queued a ref)
     | None \<Rightarrow> dget (queue_items ?q) k = dget (queue_items q) k" for k
    using announced_room [OF room Cons.prems(4)] by auto
  have ref: "item_ref it < next_ref q" using Cons.prems(5) by (simp add: kv)
  have fresh: "item_ref (queued a r) \<noteq> item_ref i" if "(k, i) \<in> set (kv # items)" "next_ref q \<le> r" for a r k i
    using that Cons.prems(5) by (cases a) (auto simp: queued_def)
  have refs: "\<forall>(k, i) \<in> set items. item_ref i < next_ref ?q" using Cons.prems(5) an(4) by (auto simp: kv)
  have room': "length (queue_items ?q) + length ?as \<le> queue_cap ?q" using Cons.prems(2) an(1,2) by (simp add: kv)
  have held: "dget (queue_items q) k = Some j \<and> last_announce (evs key) k = None"
    if "dget (queue_items ?q) k = Some j" "(k, i) \<in> set (kv # items)" "item_ref j = item_ref i" for k i j
    using an(5) [of k] that fresh [of k i] by (auto split: option.splits)
  have la: "last_announce (concat (map evs (map fst (kv # items)))) k =
      (case last_announce ?as k of Some a \<Rightarrow> Some a | None \<Rightarrow> last_announce (evs key) k)" for k
    by (simp add: kv last_announce_append)
  \<comment> \<open>the rest of the pass on the queue \<open>q1\<close>, which lacks the key if it was dropped\<close>
  have fin: ?case if rest: "retry_items write (\<lambda>k. announced (evs k)) items (res @ dropped) (s1, q1) = ((s', q'), Inr resolved)"
    and q1: "dropped = [] \<and> q1 = ?q \<or> dropped = [key] \<and> q1 = ?q\<lparr>queue_items := ddel key (queue_items ?q)\<rparr> \<and>
        (\<exists>j. dget (queue_items ?q) key = Some j \<and> item_ref j = item_ref it)" for s1 q1 dropped
  proof -
    have len: "length (queue_items q1) \<le> length (queue_items ?q)"
      using q1 length_delete_le [of key "queue_items ?q"] by auto
    have p1: "length (queue_items q1) + length ?as \<le> queue_cap q1" "dwf (queue_items q1)"
      "\<forall>(k, i) \<in> set items. item_ref i < next_ref q1"
      using q1 room' an(3) refs len by (auto simp: dwf_ddel)
    obtain new where new: "resolved = res @ dropped @ new"
      "\<forall>k \<in> set new. \<exists>i j. (k, i) \<in> set items \<and> dget (queue_items q1) k = Some j \<and> item_ref j = item_ref i"
      "\<forall>k. case last_announce ?as k of
            Some a \<Rightarrow> \<exists>ref. dget (queue_items q') k = Some (queued a ref)
          | None \<Rightarrow> dget (queue_items q') k = (if k \<in> set new then None else dget (queue_items q1) k)"
      using Cons.IH [OF rest p1(1) di(1) p1(2,3)] by auto
    have at: "dget (queue_items ?q) k = Some j" if "dget (queue_items q1) k = Some j" for k j
      using q1 that by (auto split: if_splits)
    have mem: "\<exists>i j. (k, i) \<in> set (kv # items) \<and> dget (queue_items ?q) k = Some j \<and> item_ref j = item_ref i"
      if "k \<in> set (dropped @ new)" for k
      using that new(2) q1 at by (fastforce simp: kv)
    have gone: "dget (queue_items q) k \<noteq> None \<and> last_announce (evs key) k = None \<and>
        (\<exists>i j. (k, i) \<in> set (kv # items) \<and> dget (queue_items q) k = Some j \<and> item_ref j = item_ref i)"
      if "k \<in> set (dropped @ new)" for k
      using mem [OF that] held by blast
    have "case last_announce (concat (map evs (map fst (kv # items)))) k of
            Some a \<Rightarrow> \<exists>ref. dget (queue_items q') k = Some (queued a ref)
          | None \<Rightarrow> dget (queue_items q') k = (if k \<in> set (dropped @ new) then None else dget (queue_items q) k)" for k
    proof (cases "last_announce ?as k")
      case None
      then have d: "dget (queue_items q') k = (if k \<in> set new then None else dget (queue_items q1) k)"
        using spec [OF new(3), of k] by simp
      show ?thesis
      proof (cases "k \<in> set (dropped @ new)")
        case True
        have "dget (queue_items q1) k = None" if "k \<in> set dropped" using q1 that by auto
        then show ?thesis using None d gone [OF True] True unfolding la by auto
      next
        case False
        then have "dget (queue_items q') k = dget (queue_items ?q) k" using d q1 by auto
        then show ?thesis using an(5) [of k] False unfolding la None by (auto split: option.splits)
      qed
    next
      case (Some a)
      then show ?thesis using spec [OF new(3), of k] unfolding la by simp
    qed
    moreover have "\<exists>i j. (k, i) \<in> set (kv # items) \<and> dget (queue_items q) k = Some j \<and> item_ref j = item_ref i"
      if "k \<in> set (dropped @ new)" for k using gone [OF that] by blast
    ultimately show ?thesis using new(1) by (intro exI [of _ "dropped @ new"]) simp
  qed
  obtain s1 r1 where w: "write \<lparr>ptype = item_type it, pid = item_id it\<rparr> (item_ipv4 it) (item_port it) (item_observed it) s = (s1, r1)"
    by fastforce
  show ?case
  proof (cases r1)
    case (Inl e)
    then have "retry_items write (\<lambda>k. announced (evs k)) items (res @ []) (s1, ?q) = ((s', q'), Inr resolved)"
      using Cons.prems(1) w by (cases e) (auto simp: kv)
    then show ?thesis by (rule fin) simp
  next
    case (Inr b)
    show ?thesis
    proof (cases "\<exists>j. dget (queue_items ?q) key = Some j \<and> item_ref j = item_ref it")
      case True
      let ?q1 = "?q\<lparr>queue_items := ddel key (queue_items ?q)\<rparr>"
      have "retry_items write (\<lambda>k. announced (evs k)) items (res @ [key]) (s1, ?q1) = ((s', q'), Inr resolved)"
        using Cons.prems(1) w Inr True by (auto simp: kv drop_key_def)
      then show ?thesis by (rule fin) (use True in simp)
    next
      case False
      then have "retry_items write (\<lambda>k. announced (evs k)) items (res @ []) (s1, ?q) = ((s', q'), Inr resolved)"
        using Cons.prems(1) w Inr by (auto simp: kv drop_key_def split: option.splits if_splits)
      then show ?thesis by (rule fin) simp
    qed
  qed
qed

text \<open>
  C27. Endpoints in the retry queue are not lost.  Whatever announces do to the queue meanwhile, a key that a retry
  pass reports as resolved has its queued endpoint as the newest one on disk, with the time it was first
  observed and not the time of the pass.  Announces may come in during any write of the pass, also for
  the principal whose endpoint is being written: as long as the queue has room for them, the queue at the end
  holds for each principal that announced its last announce of the pass, and for every other principal
  the item it had, unless that was resolved; so a newer endpoint is not taken out for the older one just
  written.  With no announce in between, exactly the resolved keys leave the queue and the others stay,
  in order.  Once the store is migrated and the file system accepts writes, one pass returns and empties
  the queue.
\<close>

theorem retry_pending_durable:
  assumes "store_wf endpoint_cfg s" and "queue_ok q"
  shows "(\<forall>env s' q' resolved. retry_pending (record_endpoint io) env (s, q) = ((s', q'), Inr resolved) \<longrightarrow>
      store_wf endpoint_cfg s' \<and>
      (\<forall>k \<in> set resolved. \<exists>it v. dget (queue_items q) k = Some it \<and> view endpoint_cfg s' k = Some v \<and>
         hd (entry_eps v) = canon (endpoint (item_ipv4 it) (item_port it) (item_observed it)))) \<and>
    (\<forall>evs as s' q' resolved.
      retry_pending (record_endpoint io) (\<lambda>k. announced (evs k)) (s, q) = ((s', q'), Inr resolved) \<and>
      as = concat (map evs (map fst (queue_items q))) \<and> length (queue_items q) + length as \<le> queue_cap q \<longrightarrow>
      (\<forall>k. case last_announce as k of
             Some a \<Rightarrow> \<exists>ref. dget (queue_items q') k = Some (queued a ref)
           | None \<Rightarrow> dget (queue_items q') k = (if k \<in> set resolved then None else dget (queue_items q) k))) \<and>
    (\<forall>s' q' resolved. retry_pending (record_endpoint io) (\<lambda>_ q. q) (s, q) = ((s', q'), Inr resolved) \<longrightarrow>
      queue_items q' = filter (\<lambda>kv. fst kv \<notin> set resolved) (queue_items q)) \<and>
    (migrated s \<and> (\<forall>b. shard_ok io b) \<longrightarrow>
      (\<exists>s' q' resolved. retry_pending (record_endpoint io) (\<lambda>_ q. q) (s, q) = ((s', q'), Inr resolved) \<and>
         resolved = map fst (queue_items q) \<and> queue_items q' = []))"
proof (intro conjI allI impI)
  have q: "dwf (queue_items q)" "list_all item_ok (queue_items q)" "\<forall>(k, it) \<in> set (queue_items q). item_ref it < next_ref q"
    using assms(2) by (simp_all add: queue_ok_def list_all_iff)
  have mem: "\<And>k it. (k, it) \<in> set (queue_items q) \<Longrightarrow> dget (queue_items q) k = Some it"
    using dwf_dget_iff [OF q(1)] by simp
  note alone = retry_items_alone [of "record_endpoint io" "queue_items q" "[]" s q, OF _ q(1) q(1) mem]
  {
    fix env s' q' resolved
    assume r: "retry_pending (record_endpoint io) env (s, q) = ((s', q'), Inr resolved)"
    note d = retry_items_durable [OF r [unfolded retry_pending_def snd_conv] q(2,1) assms(1)]
    show "store_wf endpoint_cfg s'" using d by simp
    show "\<forall>k \<in> set resolved. \<exists>it v. dget (queue_items q) k = Some it \<and> view endpoint_cfg s' k = Some v \<and>
         hd (entry_eps v) = canon (endpoint (item_ipv4 it) (item_port it) (item_observed it))"
      using d mem unfolding on_disk_def by fastforce
  }
  show "case last_announce as k of
      Some a \<Rightarrow> \<exists>ref. dget (queue_items q') k = Some (queued a ref)
    | None \<Rightarrow> dget (queue_items q') k = (if k \<in> set resolved then None else dget (queue_items q) k)"
    if r: "retry_pending (record_endpoint io) (\<lambda>k. announced (evs k)) (s, q) = ((s', q'), Inr resolved) \<and>
      as = concat (map evs (map fst (queue_items q))) \<and> length (queue_items q) + length as \<le> queue_cap q"
    for evs as s' q' resolved k
  proof -
    have "retry_items (record_endpoint io) (\<lambda>k. announced (evs k)) (queue_items q) [] (s, q) = ((s', q'), Inr resolved)"
      using r by (simp add: retry_pending_def)
    moreover have as: "as = concat (map evs (map fst (queue_items q)))"
      and "length (queue_items q) + length (concat (map evs (map fst (queue_items q)))) \<le> queue_cap q" using r by auto
    ultimately obtain new where "resolved = [] @ new"
      "\<forall>k. case last_announce (concat (map evs (map fst (queue_items q)))) k of
         Some a \<Rightarrow> \<exists>ref. dget (queue_items q') k = Some (queued a ref)
       | None \<Rightarrow> dget (queue_items q') k = (if k \<in> set new then None else dget (queue_items q) k)"
      using retry_items_concurrent [OF _ _ q(1,1,3)] by blast
    then show ?thesis unfolding as by (metis append_Nil)
  qed
  show "queue_items q' = filter (\<lambda>kv. fst kv \<notin> set resolved) (queue_items q)"
    if "retry_pending (record_endpoint io) (\<lambda>_ q. q) (s, q) = ((s', q'), Inr resolved)" for s' q' resolved
    using alone that by (simp add: retry_pending_def)
  show "\<exists>s' q' resolved. retry_pending (record_endpoint io) (\<lambda>_ q. q) (s, q) = ((s', q'), Inr resolved) \<and>
         resolved = map fst (queue_items q) \<and> queue_items q' = []"
    if m: "migrated s \<and> (\<forall>b. shard_ok io b)"
  proof -
    obtain s' q' where r: "retry_pending (record_endpoint io) (\<lambda>_ q. q) (s, q) = ((s', q'), Inr (map fst (queue_items q)))"
      using retry_items_all [of io "queue_items q" s q "[]"] q m assms(1) mem by (auto simp: retry_pending_def)
    then have "queue_items q' = filter (\<lambda>kv. fst kv \<notin> set (map fst (queue_items q))) (queue_items q)"
      using alone by (simp add: retry_pending_def)
    also have "\<dots> = []" by (auto simp: filter_empty_conv)
    finally show ?thesis using r by blast
  qed
qed

definition demo_queue :: pending_queue where
  "demo_queue = enqueue demo_device ''10.0.0.7'' 6881 100 (new_queue 3)"

definition demo_newer :: announce_event where
  "demo_newer = (demo_device, ''10.0.0.9'', 6881, 200)"

lemma demo_queue_ok: "queue_ok demo_queue"
proof -
  have "sane_endpoint ''10.0.0.7'' 6881" by code_simp
  then show ?thesis
    unfolding demo_queue_def
    by (intro enqueue_ok) (simp_all add: queue_ok_def new_queue_def demo_device_def attributable_def)
qed

text \<open>A pass without announces empties the queue; one during whose write the device announces a newer address keeps that.\<close>

theorem retry_pending_durable_witness:
  "(\<exists>s' q'. retry_pending (record_endpoint no_faults) (\<lambda>_ q. q) (empty_store\<lparr>migrated := True\<rparr>, demo_queue) =
      ((s', q'), Inr [''device:r1'']) \<and> queue_items q' = []) \<and>
   (\<exists>s' q' resolved ref. retry_pending (record_endpoint no_faults) (\<lambda>_. announced [demo_newer]) (empty_store\<lparr>migrated := True\<rparr>, demo_queue) =
      ((s', q'), Inr resolved) \<and> dget (queue_items q') ''device:r1'' = Some (queued demo_newer ref))"
proof -
  let ?s = "empty_store\<lparr>migrated := True\<rparr>"
  have wf: "store_wf endpoint_cfg ?s"
    by (simp add: store_wf_def empty_store_def pending_def read_shard_def)
  note main = retry_pending_durable [OF wf demo_queue_ok, of no_faults]
  have k: "map fst (queue_items demo_queue) = [''device:r1'']" "length (queue_items demo_queue) + 1 \<le> queue_cap demo_queue"
    by code_simp+
  have "migrated ?s \<and> (\<forall>b. shard_ok no_faults b)" by simp
  with main [THEN conjunct2, THEN conjunct2] k(1)
  have one: "\<exists>s' q'. retry_pending (record_endpoint no_faults) (\<lambda>_ q. q) (?s, demo_queue) =
      ((s', q'), Inr [''device:r1'']) \<and> queue_items q' = []" by metis
  let ?x = "retry_pending (record_endpoint no_faults) (\<lambda>_. announced [demo_newer]) (?s, demo_queue)"
  obtain s' q' r where x: "?x = ((s', q'), r)" by (metis surj_pair)
  have "\<not> isl (snd ?x)" by code_simp
  with x obtain resolved where r: "r = Inr resolved" by (cases r) auto
  have la: "last_announce [demo_newer] ''device:r1'' = Some demo_newer" by code_simp
  from main [THEN conjunct2, THEN conjunct1, rule_format, of "\<lambda>_. [demo_newer]" s' q' resolved "[demo_newer]" "''device:r1''"]
  have "\<exists>ref. dget (queue_items q') ''device:r1'' = Some (queued demo_newer ref)"
    using x r k la by simp
  with x r one show ?thesis by blast
qed

end
