(* ===== verification/Transfer_Lifecycle.thy ===== *)
theory Transfer_Lifecycle
  imports Keyed_State "HOL-Library.Product_Lexorder"
begin

text \<open>
  \<^verbatim>\<open>server/transfer_lifecycle.py\<close>: the decision that a planned transfer has become a seeding one, and the
  markers of which lifecycle records were queued and delivered.  The pure decision functions work on the
  JSON documents of the catalog and on the registry's snapshot; the store is one JSON file whose rows
  are read as suspiciously as the source reads them.  A read sees a missing, unparsable or parsed file.
  Timestamps are exact rationals (a number too large for a float is not modelled).  A stored \<^verbatim>\<open>updated_at\<close> or
  \<^verbatim>\<open>planned_at\<close> that is not a number raises \<^verbatim>\<open>TypeError\<close> where the code compares it, and so does looking up a list
  or a dictionary in a set.
\<close>

definition MAX_PLANS :: int where
  "MAX_PLANS = 4096"

definition PLAN_RETENTION :: rat where
  "PLAN_RETENTION = 7 * 24 * 3600"

section \<open>Values\<close>

definition member_of :: "string list \<Rightarrow> json \<Rightarrow> bool res" where
  \<comment> \<open>\<^verbatim>\<open>v in frozenset(names)\<close>: lists and dictionaries are unhashable\<close>
  "member_of names v = (case v of JList _ \<Rightarrow> Inl TypeError | JObj _ \<Rightarrow> Inl TypeError | _ \<Rightarrow> Inr (v \<in> JStr ` set names))"

definition is_hex_lower :: "char \<Rightarrow> bool" where
  "is_hex_lower c \<longleftrightarrow> is_digit c \<or> (97 \<le> (of_char c :: nat) \<and> (of_char c :: nat) \<le> 102)"

definition strip_final_newline :: "string \<Rightarrow> string" where
  \<comment> \<open>\<^verbatim>\<open>$\<close> also matches before a final newline\<close>
  "strip_final_newline s = (if s \<noteq> [] \<and> last s = CHR 0x0A then butlast s else s)"

definition hex32 :: "json \<Rightarrow> string option" where
  "hex32 v = (case as_str v of
       None \<Rightarrow> None
     | Some s \<Rightarrow> (let t = strip_final_newline s
                  in if length t = 32 \<and> list_all is_hex_lower t then Some s else None))"

definition lower_char :: "char \<Rightarrow> char" where
  \<comment> \<open>ASCII only: any other letter fails the pattern whatever its case\<close>
  "lower_char c = (let n = (of_char c :: nat) in if 65 \<le> n \<and> n \<le> 90 then char_of (n + 32) else c)"

definition is_space_text :: "char \<Rightarrow> bool" where
  \<comment> \<open>the white space of \<^verbatim>\<open>str.strip\<close>\<close>
  "is_space_text c \<longleftrightarrow> is_space c \<or> (let n = (of_char c :: nat) in (28 \<le> n \<and> n \<le> 31) \<or> n = 133 \<or> n = 160)"

definition strip_text :: "string \<Rightarrow> string" where
  "strip_text s = rev (dropWhile is_space_text (rev (dropWhile is_space_text s)))"

definition info_hash_of :: "json \<Rightarrow> string option" where
  \<comment> \<open>\<^verbatim>\<open>_info_hash\<close>\<close>
  "info_hash_of v = (case as_str v of
       None \<Rightarrow> None
     | Some s \<Rightarrow> (let t = map lower_char (strip_text s)
                  in if length t = 40 \<and> list_all is_hex_lower t then Some t else None))"

text \<open>\<^verbatim>\<open>float(s)\<close> of a text; the infinities and NaN, which \<^verbatim>\<open>_ts\<close> refuses, are left out.\<close>

definition split_at :: "(char \<Rightarrow> bool) \<Rightarrow> string \<Rightarrow> string \<times> string option" where
  "split_at P s = (let a = takeWhile (\<lambda>c. \<not> P c) s
                   in (a, if length a = length s then None else Some (drop (Suc (length a)) s)))"

definition digits_value :: "string \<Rightarrow> (nat \<times> nat) option" where
  \<comment> \<open>the value of underscored digits and how many there are; nothing counts as no digits\<close>
  "digits_value s = (if s = [] then Some (0, 0)
     else map_option (\<lambda>ds. (dec_val ds, length ds)) (underscored s))"

definition signed :: "string \<Rightarrow> bool \<times> string" where
  "signed s = (case s of c # t \<Rightarrow> if c = CHR ''-'' then (True, t) else if c = CHR ''+'' then (False, t) else (False, s)
                       | [] \<Rightarrow> (False, s))"

definition exponent_value :: "string option \<Rightarrow> int option" where
  "exponent_value e = (case e of
       None \<Rightarrow> Some 0
     | Some t \<Rightarrow> (case signed t of (neg, ds) \<Rightarrow>
         (case underscored ds of None \<Rightarrow> None
          | Some x \<Rightarrow> Some (if neg then - int (dec_val x) else int (dec_val x)))))"

definition py_float :: "string \<Rightarrow> rat option" where
  "py_float s0 =
     (case signed (strip_text s0) of (neg, body) \<Rightarrow>
      case split_at (\<lambda>c. c = CHR ''e'' \<or> c = CHR ''E'') body of (mant, e) \<Rightarrow>
      case split_at (\<lambda>c. c = CHR ''.'') mant of (ip, fp) \<Rightarrow>
      (case (digits_value ip, digits_value (case fp of None \<Rightarrow> [] | Some t \<Rightarrow> t), exponent_value e) of
         (Some (a, na), Some (b, nb), Some x) \<Rightarrow>
           if na + nb = 0 then None
           else (let m = (of_nat a + of_nat b / 10 ^ nb) * (if 0 \<le> x then 10 ^ nat x else 1 / 10 ^ nat (- x))
                 in Some (if neg then - m else m))
       | _ \<Rightarrow> None))"

definition ts :: "json \<Rightarrow> rat option" where
  \<comment> \<open>\<^verbatim>\<open>_ts\<close>: a non-negative time, or nothing\<close>
  "ts v = (case (case v of JInt n \<Rightarrow> Some (of_int n) | JFloat r \<Rightarrow> Some r | JStr s \<Rightarrow> py_float s | _ \<Rightarrow> None) of
       None \<Rightarrow> None
     | Some r \<Rightarrow> if r < 0 then None else Some r)"

section \<open>Pure decisions\<close>

record plan =
  plan_id :: string
  transfer_id :: string
  device_id :: string
  image_id :: string
  planned_at :: rat
  plan_info_hash :: "string option"

definition plan_of_row :: "string \<Rightarrow> string \<Rightarrow> json \<Rightarrow> plan option" where
  "plan_of_row dev img row =
     (case as_obj row of
        None \<Rightarrow> None
      | Some d \<Rightarrow>
          (case (hex32 (jget d ''plan_id''), hex32 (jget d ''transfer_id''), ts (jget d ''planned_at'')) of
             (Some p, Some t, Some tm) \<Rightarrow>
               Some \<lparr>plan_id = p, transfer_id = t, device_id = dev, image_id = img, planned_at = tm,
                     plan_info_hash = info_hash_of (jget d ''info_hash'')\<rparr>
           | _ \<Rightarrow> None))"

definition add_plan :: "(string, plan) dict \<Rightarrow> plan \<Rightarrow> (string, plan) dict" where
  "add_plan out p = (if dget out (plan_id p) \<noteq> None then out else dset (plan_id p) p out)"

definition device_plans :: "string \<times> json \<Rightarrow> plan list" where
  \<comment> \<open>the candidate plans of one device's policy row, in order\<close>
  "device_plans kv =
     (case as_obj (snd kv) of
        None \<Rightarrow> []
      | Some rec \<Rightarrow>
          (case (as_list (jget rec ''approved_image_ids''), as_obj (jget rec ''plans'')) of
             (Some ids, Some plans) \<Rightarrow>
               List.map_filter (\<lambda>v. case as_str v of
                   Some img \<Rightarrow> if img = [] then None else plan_of_row (fst kv) img (jget plans img)
                 | None \<Rightarrow> None) ids
           | _ \<Rightarrow> []))"

definition live_plans_from_policy :: "obj \<Rightarrow> (string, plan) dict" where
  "live_plans_from_policy doc = foldl add_plan [] (concat (map device_plans (sort_key fst doc)))"

record attestation =
  att_transfer_id :: string
  att_image_id :: string
  att_received_at :: rat
  att_observed_at :: "rat option"
  att_report_created_at :: "rat option"

definition terminal_report_events :: "string list" where
  "terminal_report_events = [''staging-complete'', ''seeding-only'']"

definition attestation_fields :: "obj \<Rightarrow> json \<Rightarrow> attestation option" where
  \<comment> \<open>the shared tail: binding ids and the server's instant, all or nothing\<close>
  "attestation_fields d observed =
     (case (hex32 (jget d ''transfer_id''), ts (jget d ''received_at''), as_str (jget d ''image_id'')) of
        (Some t, Some tm, Some img) \<Rightarrow>
          if img = [] then None
          else Some \<lparr>att_transfer_id = t, att_image_id = img, att_received_at = tm,
                     att_observed_at = ts observed, att_report_created_at = ts (jget d ''report_created_at'')\<rparr>
      | _ \<Rightarrow> None)"

definition attestation_from_report :: "json \<Rightarrow> attestation option res" where
  "attestation_from_report report =
     (case as_obj report of
        None \<Rightarrow> Inr None
      | Some d \<Rightarrow>
          rbind (member_of terminal_report_events (jget d ''event'')) (\<lambda>attesting.
          if \<not> attesting then Inr None
          else (case as_obj (jget d ''content_sha256'') of
                  None \<Rightarrow> Inr None
                | Some c \<Rightarrow>
                    if jget c ''state'' \<noteq> JStr ''verified'' then Inr None
                    else Inr (attestation_fields d
                      (case as_obj (jget d ''window'') of Some w \<Rightarrow> jget w ''end'' | None \<Rightarrow> JNull)))))"

definition stored_attestation :: "json \<Rightarrow> attestation option res" where
  "stored_attestation row =
     (case as_obj row of None \<Rightarrow> Inr None | Some d \<Rightarrow> Inr (attestation_fields d (jget d ''observed_at'')))"

record verified_fact =
  vf_verified_at :: rat
  vf_observed_at :: "rat option"
  vf_report_created_at :: "rat option"

type_synonym binding = "string \<times> string \<times> string"

definition wanted_plans :: "(string, plan) dict \<Rightarrow> (binding, string) dict" where
  "wanted_plans live = foldl (\<lambda>d (pl, p). dset (device_id p, transfer_id p, image_id p) pl d) [] live"

definition fold_fact ::
  "(binding, string) dict \<Rightarrow> (string, verified_fact) dict \<Rightarrow> string \<times> attestation \<Rightarrow> (string, verified_fact) dict" where
  "fold_fact wanted out da =
     (case da of (dev, att) \<Rightarrow>
      (case dget wanted (dev, att_transfer_id att, att_image_id att) of
         None \<Rightarrow> out
       | Some pl \<Rightarrow>
           if (case dget out pl of Some prev \<Rightarrow> vf_verified_at prev \<le> att_received_at att | None \<Rightarrow> False)
           then out
           else dset pl \<lparr>vf_verified_at = att_received_at att, vf_observed_at = att_observed_at att,
                          vf_report_created_at = att_report_created_at att\<rparr> out))"

definition ring_facts :: "(json \<Rightarrow> attestation option res) \<Rightarrow> string \<times> json \<Rightarrow> (string \<times> attestation) list res" where
  "ring_facts f kv =
     (case as_list (snd kv) of
        None \<Rightarrow> Inr []
      | Some rows \<Rightarrow> rbind (rmap f rows) (\<lambda>facts. Inr (map (Pair (fst kv)) (List.map_filter id facts))))"

definition facts_of :: "(json \<Rightarrow> attestation option res) \<Rightarrow> obj \<Rightarrow> (string \<times> attestation) list res" where
  "facts_of f doc = rbind (rmap (ring_facts f) doc) (\<lambda>rings. Inr (concat rings))"

definition verified_facts :: "(string, plan) dict \<Rightarrow> obj \<Rightarrow> obj \<Rightarrow> (string, verified_fact) dict res" where
  "verified_facts live reports attestations =
     rbind (facts_of attestation_from_report reports) (\<lambda>from_ring.
     rbind (facts_of stored_attestation attestations) (\<lambda>from_ledger.
     Inr (foldl (fold_fact (wanted_plans live)) [] (from_ring @ from_ledger))))"

definition by_image :: "obj \<Rightarrow> (string, string) dict" where
  "by_image images =
     foldl (\<lambda>d (img, entry). case as_obj entry of
         None \<Rightarrow> d
       | Some e \<Rightarrow> (case info_hash_of (jget e ''info_hash_hex'') of None \<Rightarrow> d | Some h \<Rightarrow> dset img h d)) [] images"

definition seeding_row :: "plan \<Rightarrow> obj \<Rightarrow> bool" where
  \<comment> \<open>\<^verbatim>\<open>str(principal_id)\<close> of the registry's text ids\<close>
  "seeding_row p row \<longleftrightarrow> jget row ''principal_type'' = JStr ''device'' \<and>
     jget row ''principal_id'' = JStr (device_id p) \<and> jget row ''is_seeder'' = JBool True"

definition seeder_instant :: "plan \<Rightarrow> rat \<Rightarrow> obj \<Rightarrow> rat option" where
  \<comment> \<open>the first usable candidate that does not predate the plan\<close>
  "seeder_instant p now row =
     (let usable = List.map_filter (\<lambda>v. case ts v of Some tm \<Rightarrow> if planned_at p \<le> tm then Some tm else None | None \<Rightarrow> None)
            [jget row ''completed_at'', jget row ''last_seen'', JFloat now]
      in case usable of [] \<Rightarrow> None | tm # _ \<Rightarrow> Some tm)"

definition plan_seeder_fact :: "plan \<Rightarrow> rat \<Rightarrow> json list \<Rightarrow> rat option" where
  "plan_seeder_fact p now rows =
     (let tms = List.map_filter (\<lambda>row. case as_obj row of
            None \<Rightarrow> None | Some d \<Rightarrow> if seeding_row p d then seeder_instant p now d else None) rows
      in case tms of [] \<Rightarrow> None | tm # tms1 \<Rightarrow> Some (fold min tms1 tm))"

definition join_hash :: "obj \<Rightarrow> plan \<Rightarrow> string option" where
  "join_hash images p = (case dget (by_image images) (image_id p) of Some h \<Rightarrow> Some h | None \<Rightarrow> plan_info_hash p)"

definition swarm_fact :: "obj \<Rightarrow> obj \<Rightarrow> rat \<Rightarrow> plan \<Rightarrow> rat option" where
  "swarm_fact snap images now p =
     (case join_hash images p of
        None \<Rightarrow> None
      | Some h \<Rightarrow> (case as_list (jget snap h) of None \<Rightarrow> None | Some rows \<Rightarrow> plan_seeder_fact p now rows))"

definition seeder_facts :: "(string, plan) dict \<Rightarrow> obj \<Rightarrow> obj \<Rightarrow> rat \<Rightarrow> (string, rat) dict" where
  "seeder_facts live snap images now =
     foldl (\<lambda>out (pl, p). case swarm_fact snap images now p of None \<Rightarrow> out | Some tm \<Rightarrow> dset pl tm out) [] live"

section \<open>The store\<close>

record tl_state =
  tl_file :: file_state
  seen_store :: bool

record tl_data =
  tl_plans :: obj
  tl_counters :: obj

definition read_doc :: "tl_state \<Rightarrow> tl_state \<times> tl_data \<times> bool" where
  "read_doc st =
     (let present = (tl_file st \<noteq> Missing);
          data = (case tl_file st of Content v \<Rightarrow> as_obj v | _ \<Rightarrow> None)
      in case data of
           None \<Rightarrow> (st, \<lparr>tl_plans = [], tl_counters = []\<rparr>, present \<or> seen_store st)
         | Some d \<Rightarrow> (st\<lparr>seen_store := True\<rparr>,
                      \<lparr>tl_plans = obj_or_empty (jget d ''plans''), tl_counters = obj_or_empty (jget d ''counters'')\<rparr>,
                      False))"

definition write_doc :: "bool \<Rightarrow> tl_data \<Rightarrow> tl_state \<Rightarrow> tl_state \<times> unit res" where
  \<comment> \<open>\<^verbatim>\<open>json.dump(sort_keys=True)\<close> into a file that replaces the old one as the last step; \<^verbatim>\<open>io\<close> says whether
      the file system accepts the write, and a refused one leaves the old file\<close>
  "write_doc io data st =
     (if io
      then (\<lparr>tl_file = Content (canon (JObj [(''plans'', JObj (tl_plans data)), (''counters'', JObj (tl_counters data))])),
             seen_store = True\<rparr>, Inr ())
      else (st, Inl OSFailure))"

definition save :: "bool \<Rightarrow> bool \<Rightarrow> tl_data \<Rightarrow> 'a \<Rightarrow> tl_state \<Rightarrow> tl_state \<times> 'a res" where
  \<comment> \<open>\<^verbatim>\<open>if dirty: self._write(data)\<close>, then the result\<close>
  "save io dirty data x st =
     (if dirty then (case write_doc io data st of (st', w) \<Rightarrow> (st', rbind w (\<lambda>_. Inr x))) else (st, Inr x))"

definition bump_counter :: "string \<Rightarrow> int \<Rightarrow> tl_data \<Rightarrow> tl_data" where
  "bump_counter name delta data =
     (let old = (case jget (tl_counters data) name of JInt n \<Rightarrow> n | JBool b \<Rightarrow> (if b then 1 else 0) | _ \<Rightarrow> 0)
      in data\<lparr>tl_counters := dset name (JInt (old + delta)) (tl_counters data)\<rparr>)"

definition markers :: "obj \<Rightarrow> string \<Rightarrow> obj" where
  "markers row name = obj_or_empty (jget row name)"

definition wanted_events :: "obj \<Rightarrow> string list" where
  "wanted_events row = (if jget row ''state'' = JStr ''seeding'' then [''planned'', ''seeding_started''] else [''planned''])"

definition fully_emitted :: "obj \<Rightarrow> bool" where
  "fully_emitted row \<longleftrightarrow> list_all (\<lambda>e. has_key (markers row ''emitted'') e) (wanted_events row)"

definition undelivered :: "obj \<Rightarrow> string list" where
  "undelivered row =
     filter (\<lambda>e. has_key (markers row ''emitted'') e \<and> \<not> has_key (markers row ''delivered'') e) (wanted_events row)"

definition note_dropped :: "obj \<Rightarrow> tl_data \<Rightarrow> tl_data" where
  "note_dropped row data =
     (if undelivered row \<noteq> [] then bump_counter ''events_retired_undelivered'' (int (length (undelivered row))) data
      else data)"

definition terminal_states :: "string list" where
  "terminal_states = [''seeding'', ''cancelled'']"

definition retirable :: "obj \<Rightarrow> bool res" where
  "retirable row = rbind (member_of terminal_states (jget row ''state'')) (\<lambda>t. Inr (t \<and> fully_emitted row))"

definition num_or_zero :: "json \<Rightarrow> rat res" where
  \<comment> \<open>\<^verbatim>\<open>v or 0\<close> where it is compared\<close>
  "num_or_zero v = (if \<not> truthy v then Inr 0 else case as_num v of Some r \<Rightarrow> Inr r | None \<Rightarrow> Inl TypeError)"

section \<open>The observation pass\<close>

definition opt_str :: "string option \<Rightarrow> json" where
  "opt_str x = (case x of None \<Rightarrow> JNull | Some s \<Rightarrow> JStr s)"

definition opt_num :: "rat option \<Rightarrow> json" where
  "opt_num x = (case x of None \<Rightarrow> JNull | Some r \<Rightarrow> JFloat r)"

definition open_row :: "plan \<Rightarrow> rat \<Rightarrow> obj" where
  "open_row p now =
     [(''plan_id'', JStr (plan_id p)), (''transfer_id'', JStr (transfer_id p)), (''device_id'', JStr (device_id p)),
      (''image_id'', JStr (image_id p)), (''info_hash'', opt_str (plan_info_hash p)),
      (''planned_at'', JFloat (planned_at p)), (''state'', JStr ''planned''), (''checksum_verified_at'', JNull),
      (''tracker_seeder_at'', JNull), (''seeding_started_at'', JNull), (''observed_at'', JNull),
      (''report_created_at'', JNull), (''updated_at'', JFloat now), (''emitted'', JObj []), (''delivered'', JObj [])]"

definition reseat :: "string \<Rightarrow> json \<Rightarrow> obj \<times> bool \<Rightarrow> obj \<times> bool" where
  "reseat field v rc = (if py_eq (jget (fst rc) field) v then rc else (dset field v (fst rc), True))"

definition refresh :: "obj \<Rightarrow> plan \<Rightarrow> obj \<times> bool" where
  "refresh row p =
     (let (row1, changed) =
        reseat ''planned_at'' (JFloat (planned_at p)) (reseat ''image_id'' (JStr (image_id p))
          (reseat ''device_id'' (JStr (device_id p)) (reseat ''transfer_id'' (JStr (transfer_id p)) (row, False))))
      in case plan_info_hash p of
           Some h \<Rightarrow> if h \<noteq> [] \<and> \<not> truthy (jget row1 ''info_hash'')
                     then (dset ''info_hash'' (JStr h) row1, True) else (row1, changed)
         | None \<Rightarrow> (row1, changed))"

definition touch :: "string \<Rightarrow> json \<Rightarrow> rat \<Rightarrow> obj \<Rightarrow> obj" where
  "touch field v now row = dset ''updated_at'' (JFloat now) (dset field v row)"

definition open_live :: "rat \<Rightarrow> obj \<times> string list \<times> bool \<Rightarrow> string \<times> plan \<Rightarrow> obj \<times> string list \<times> bool" where
  \<comment> \<open>one live plan: open, refresh or reopen its row\<close>
  "open_live now st kv =
     (case (st, kv) of ((plans, opened, dirty), (pl, p)) \<Rightarrow>
        (case as_obj (jget plans pl) of
           None \<Rightarrow> (dset pl (JObj (open_row p now)) plans, opened @ [pl], True)
         | Some row \<Rightarrow>
             (case refresh row p of (row1, changed) \<Rightarrow>
                if jget row1 ''state'' = JStr ''cancelled''
                then (dset pl (JObj (touch ''state'' (JStr ''planned'') now row1)) plans, opened, True)
                else (dset pl (JObj row1) plans, opened, dirty \<or> changed))))"

definition cancel_row :: "(string, plan) dict \<Rightarrow> rat \<Rightarrow> string \<times> json \<Rightarrow> (string \<times> json) \<times> bool" where
  "cancel_row live now kv =
     (case as_obj (snd kv) of
        None \<Rightarrow> (kv, False)
      | Some row \<Rightarrow>
          if dget live (fst kv) = None \<and> jget row ''state'' = JStr ''planned''
          then ((fst kv, JObj (touch ''state'' (JStr ''cancelled'') now row)), True) else (kv, False))"

definition cancel_gone :: "(string, plan) dict \<Rightarrow> rat \<Rightarrow> obj \<times> bool \<Rightarrow> obj \<times> bool" where
  "cancel_gone live now st =
     (map (fst \<circ> cancel_row live now) (fst st), snd st \<or> list_ex (snd \<circ> cancel_row live now) (fst st))"

definition nonneg :: "rat \<Rightarrow> rat option" where
  \<comment> \<open>\<^verbatim>\<open>_ts\<close> of a time that is a float already\<close>
  "nonneg r = (if r < 0 then None else Some r)"

definition latch_verified :: "rat \<Rightarrow> obj \<times> bool \<Rightarrow> string \<times> verified_fact \<Rightarrow> obj \<times> bool" where
  "latch_verified now st kv =
     (case (as_obj (jget (fst st) (fst kv)), nonneg (vf_verified_at (snd kv))) of
        (Some row, Some tm) \<Rightarrow>
          if jget row ''checksum_verified_at'' = JNull
          then (dset (fst kv) (JObj (dset ''updated_at'' (JFloat now)
                  (dset ''report_created_at'' (opt_num (Option.bind (vf_report_created_at (snd kv)) nonneg))
                  (dset ''observed_at'' (opt_num (Option.bind (vf_observed_at (snd kv)) nonneg))
                  (dset ''checksum_verified_at'' (JFloat tm) row))))) (fst st), True)
          else st
      | _ \<Rightarrow> st)"

definition latch_seeder :: "rat \<Rightarrow> obj \<times> bool \<Rightarrow> string \<times> rat \<Rightarrow> obj \<times> bool" where
  "latch_seeder now st kv =
     (case (as_obj (jget (fst st) (fst kv)), nonneg (snd kv)) of
        (Some row, Some tm) \<Rightarrow>
          if jget row ''tracker_seeder_at'' = JNull
          then (dset (fst kv) (JObj (touch ''tracker_seeder_at'' (JFloat tm) now row)) (fst st), True)
          else st
      | _ \<Rightarrow> st)"

definition need_num :: "json \<Rightarrow> rat res" where
  "need_num v = (case as_num v of Some r \<Rightarrow> Inr r | None \<Rightarrow> Inl TypeError)"

definition started_at :: "bool \<Rightarrow> obj \<Rightarrow> rat res" where
  \<comment> \<open>the instant of the last precondition, not before the plan; a recovered promotion leaves out the
      volatile one\<close>
  "started_at recovered row =
     rbind (need_num (jget row ''checksum_verified_at'')) (\<lambda>v.
     rbind (if recovered then Inr v
            else rbind (need_num (jget row ''tracker_seeder_at'')) (\<lambda>s. Inr (max v s))) (\<lambda>last.
     rbind (num_or_zero (jget row ''planned_at'')) (\<lambda>p0. Inr (max last p0))))"

definition promote_one ::
  "bool \<Rightarrow> string list \<Rightarrow> rat \<Rightarrow> tl_data \<times> string list \<Rightarrow> string \<Rightarrow> (tl_data \<times> string list) res" where
  "promote_one lost opened now st pl =
     (case as_obj (jget (tl_plans (fst st)) pl) of
        None \<Rightarrow> Inr st
      | Some row \<Rightarrow>
          if jget row ''state'' \<noteq> JStr ''planned'' \<or> jget row ''checksum_verified_at'' = JNull \<or>
             jget row ''tracker_seeder_at'' = JNull then Inr st
          else
            let row1 = dset ''state'' (JStr ''seeding'') row;
                recovered = (lost \<and> pl \<in> set opened)
            in rbind (if jget row1 ''seeding_started_at'' = JNull
                      then rbind (started_at recovered row1) (\<lambda>tm.
                        let row2 = (if recovered then dset ''recovered_promotion'' (JBool True) row1 else row1)
                        in Inr (dset ''seeding_started_at'' (JFloat tm) row2,
                                if recovered then bump_counter ''plans_promoted_recovered'' 1 (fst st) else fst st))
                      else Inr (row1, fst st)) (\<lambda>(row3, data).
               Inr (data\<lparr>tl_plans := dset pl (JObj (dset ''updated_at'' (JFloat now) row3)) (tl_plans data)\<rparr>,
                    snd st @ [pl])))"

definition aged :: "obj \<Rightarrow> rat \<Rightarrow> bool res" where
  \<comment> \<open>owes nothing and was last touched before the cutoff\<close>
  "aged row cutoff =
     rbind (retirable row) (\<lambda>r.
     if r then rbind (num_or_zero (jget row ''updated_at'')) (\<lambda>u. Inr (u < cutoff)) else Inr False)"

definition retain_one :: "string set \<Rightarrow> rat \<Rightarrow> tl_data \<times> bool \<Rightarrow> string \<times> json \<Rightarrow> (tl_data \<times> bool) res" where
  "retain_one live cutoff st kv =
     (let data = fst st; drop = (\<lambda>d. d\<lparr>tl_plans := ddel (fst kv) (tl_plans d)\<rparr>)
      in case as_obj (snd kv) of
           None \<Rightarrow> Inr (drop data, True)
         | Some row \<Rightarrow>
             if fst kv \<in> live then Inr st
             else rbind (aged row cutoff) (\<lambda>old.
               if old then Inr (bump_counter ''plans_pruned'' 1 (drop (note_dropped row data)), True)
               else Inr st))"

definition retain :: "string set \<Rightarrow> rat \<Rightarrow> tl_data \<Rightarrow> (tl_data \<times> bool) res" where
  "retain live now data = rfold (retain_one live (now - PLAN_RETENTION)) (data, False) (tl_plans data)"

definition evict_class :: "string set \<Rightarrow> string \<Rightarrow> obj \<Rightarrow> int res" where
  "evict_class live pl row =
     (if pl \<in> live then Inr 2 else rbind (retirable row) (\<lambda>r. Inr (if r then 0 else 1)))"

definition evict_key :: "string set \<Rightarrow> string \<times> json \<Rightarrow> (int \<times> rat \<times> string) res" where
  "evict_key live kv =
     rbind (evict_class live (fst kv) (obj_or_empty (snd kv))) (\<lambda>c.
     rbind (num_or_zero (jget (obj_or_empty (snd kv)) ''updated_at'')) (\<lambda>u.
     Inr (c, u, fst kv)))"

definition evict_one :: "string set \<Rightarrow> tl_data \<Rightarrow> string \<times> json \<Rightarrow> tl_data res" where
  "evict_one live data kv =
     (let row = obj_or_empty (snd kv);
          d1 = (if fst kv \<in> live then data else note_dropped row data);
          d2 = d1\<lparr>tl_plans := ddel (fst kv) (tl_plans d1)\<rparr>;
          d3 = (if fst kv \<in> live then bump_counter ''plans_live_evicted'' 1 d2 else d2)
      in rbind (retirable row) (\<lambda>r.
         Inr (bump_counter (if r then ''plans_pruned'' else ''plans_dropped_unemitted'') 1 d3)))"

definition bound :: "string set \<Rightarrow> tl_data \<Rightarrow> (tl_data \<times> bool) res" where
  \<comment> \<open>rows are dictionaries here: the retention pass removed all others\<close>
  "bound live data =
     (let excess = int (length (tl_plans data)) - MAX_PLANS
      in if excess \<le> 0 then Inr (data, False)
         else rbind (rmap (\<lambda>kv. rbind (evict_key live kv) (\<lambda>k. Inr (k, kv))) (tl_plans data)) (\<lambda>keyed.
           rbind (rfold (evict_one live) data (map snd (take (nat excess) (sort_key fst keyed)))) (\<lambda>d.
           Inr (d, True))))"

definition observe ::
  "bool \<Rightarrow> (string, plan) dict \<Rightarrow> (string, verified_fact) dict \<Rightarrow> (string, rat) dict \<Rightarrow> rat \<Rightarrow> tl_state \<Rightarrow>
   tl_state \<times> string list res" where
  "observe io live verified seeder now st0 =
     (case read_doc st0 of (st, data, lost) \<Rightarrow>
      let (plans1, opened, dirty1) = foldl (open_live now) (tl_plans data, [], False) (sort_key fst live);
          (plans2, dirty2) = cancel_gone live now (plans1, dirty1);
          (plans3, dirty3) = foldl (latch_verified now) (plans2, dirty2) verified;
          (plans4, dirty4) = foldl (latch_seeder now) (plans3, dirty3) seeder;
          live_ids = set (dkeys live)
      in case rbind (rfold (promote_one lost opened now) (data\<lparr>tl_plans := plans4\<rparr>, []) (sort (dkeys plans4))) (\<lambda>(d5, promoted).
              rbind (retain live_ids now d5) (\<lambda>(d6, removed).
              rbind (bound live_ids d6) (\<lambda>(d7, evicted).
              Inr (d7, promoted, dirty4 \<or> promoted \<noteq> [] \<or> removed \<or> evicted)))) of
           Inl e \<Rightarrow> (st, Inl e)
         | Inr (d7, promoted, dirty) \<Rightarrow> save io dirty d7 promoted st)"

section \<open>Emission\<close>

definition all_events :: "string list" where
  "all_events = [''planned'', ''seeding_started'']"

definition emission_rows :: "obj \<Rightarrow> ((rat \<times> string) \<times> obj) list res" where
  "emission_rows plans =
     rmap (\<lambda>(pl, row). rbind (num_or_zero (jget row ''planned_at'')) (\<lambda>u. Inr ((u, pl), row)))
       (List.map_filter (\<lambda>(pl, v). map_option (Pair pl) (as_obj v)) plans)"

definition emissions :: "(obj \<Rightarrow> obj \<Rightarrow> string \<Rightarrow> bool) \<Rightarrow> tl_state \<Rightarrow> (string \<times> obj \<times> string) list res" where
  "emissions due st =
     rbind (emission_rows (tl_plans (fst (snd (read_doc st))))) (\<lambda>rows.
     Inr (concat (map (\<lambda>((_, pl), row).
        map (\<lambda>e. (pl, row, e))
          (filter (due (markers row ''emitted'') (markers row ''delivered'')) (wanted_events row)))
        (sort_key fst rows))))"

definition pending_emissions :: "tl_state \<Rightarrow> (string \<times> obj \<times> string) list res" where
  "pending_emissions = emissions (\<lambda>em de e. \<not> has_key em e)"

definition unconfirmed_emissions :: "tl_state \<Rightarrow> (string \<times> obj \<times> string) list res" where
  "unconfirmed_emissions = emissions (\<lambda>em de e. has_key em e \<and> \<not> has_key de e)"

definition outstanding_emissions :: "tl_state \<Rightarrow> (string \<times> obj \<times> string) list res" where
  "outstanding_emissions = emissions (\<lambda>em de e. \<not> has_key de e)"

type_synonym mark_item = "string \<times> string \<times> string option"

definition mark_map :: "string \<Rightarrow> string \<Rightarrow> rat \<Rightarrow> obj \<times> bool \<Rightarrow> obj \<times> bool" where
  "mark_map name event now rc =
     (if has_key (markers (fst rc) name) event then rc
      else (dset name (JObj (dset event (JFloat now) (markers (fst rc) name))) (fst rc), True))"

definition mark :: "rat \<Rightarrow> bool \<Rightarrow> obj \<Rightarrow> mark_item \<Rightarrow> obj \<times> bool \<times> bool" where
  \<comment> \<open>the plans, \<^verbatim>\<open>ok\<close> and \<^verbatim>\<open>changed\<close>\<close>
  "mark now confirm plans item =
     (case item of (pl, event, expect) \<Rightarrow>
        if event \<notin> set all_events then (plans, False, False)
        else (case as_obj (jget plans pl) of
                None \<Rightarrow> (plans, False, False)
              | Some row \<Rightarrow>
                  if expect \<noteq> None \<and> jget row ''transfer_id'' \<noteq> opt_str expect then (plans, False, False)
                  else
                    let r1 = mark_map ''emitted'' event now (row, False);
                        (row2, changed) = (if confirm then mark_map ''delivered'' event now r1 else r1)
                    in if changed then (dset pl (JObj (dset ''updated_at'' (JFloat now) row2)) plans, True, True)
                       else (plans, True, False)))"

fun mark_items :: "rat \<Rightarrow> bool \<Rightarrow> obj \<Rightarrow> mark_item list \<Rightarrow> obj \<times> bool list \<times> bool" where
  "mark_items now confirm plans [] = (plans, [], False)"
| "mark_items now confirm plans (item # items) =
     (case mark now confirm plans item of (plans1, ok, changed) \<Rightarrow>
      case mark_items now confirm plans1 items of (plans2, oks, dirty) \<Rightarrow> (plans2, ok # oks, changed \<or> dirty))"

definition mark_many :: "bool \<Rightarrow> mark_item list \<Rightarrow> rat \<Rightarrow> bool \<Rightarrow> tl_state \<Rightarrow> tl_state \<times> bool list res" where
  "mark_many io items now confirm st0 =
     (if items = [] then (st0, Inr [])
      else case read_doc st0 of (st, data, lost) \<Rightarrow>
           case mark_items now confirm (tl_plans data) items of (plans, oks, dirty) \<Rightarrow>
             save io dirty (data\<lparr>tl_plans := plans\<rparr>) oks st)"

definition mark_emitted_many :: "bool \<Rightarrow> mark_item list \<Rightarrow> rat \<Rightarrow> tl_state \<Rightarrow> tl_state \<times> bool list res" where
  "mark_emitted_many io items now = mark_many io items now False"

definition mark_emitted :: "bool \<Rightarrow> string \<Rightarrow> string \<Rightarrow> string option \<Rightarrow> rat \<Rightarrow> tl_state \<Rightarrow> tl_state \<times> bool res" where
  "mark_emitted io pl event expect now st =
     (case mark_many io [(pl, event, expect)] now False st of (st', r) \<Rightarrow> (st', rbind r (\<lambda>oks. Inr (hd oks))))"

definition mark_delivered_many :: "bool \<Rightarrow> mark_item list \<Rightarrow> rat \<Rightarrow> tl_state \<Rightarrow> tl_state \<times> bool list res" where
  "mark_delivered_many io items now = mark_many io items now True"

section \<open>Readers and explicit pruning\<close>

definition tl_get :: "string \<Rightarrow> tl_state \<Rightarrow> obj option" where
  "tl_get pl st = as_obj (jget (tl_plans (fst (snd (read_doc st)))) pl)"

definition tl_rows :: "tl_state \<Rightarrow> obj" where
  "tl_rows st = filter (\<lambda>(_, v). as_obj v \<noteq> None) (tl_plans (fst (snd (read_doc st))))"

record tl_stats =
  n_plans :: nat
  plan_cap :: int
  plans_open :: nat
  plans_seeding :: nat
  plans_cancelled :: nat
  plans_awaiting_report :: nat
  plans_unconfirmed :: nat
  plans_pruned :: int
  plans_promoted_recovered :: int
  plans_live_evicted :: int
  plans_dropped_unemitted :: int
  events_retired_undelivered :: int

definition counter_value :: "obj \<Rightarrow> string \<Rightarrow> int res" where
  \<comment> \<open>\<^verbatim>\<open>int(counters.get(name) or 0)\<close>\<close>
  "counter_value counters name =
     (if truthy (jget counters name) then int_of_json (jget counters name) else Inr 0)"

definition in_state :: "string \<Rightarrow> obj \<Rightarrow> bool" where
  "in_state s row \<longleftrightarrow> jget row ''state'' = JStr s"

definition lifecycle_stats :: "tl_state \<Rightarrow> tl_stats res" where
  "lifecycle_stats st =
     (let data = fst (snd (read_doc st));
          plans = List.map_filter (as_obj \<circ> snd) (tl_plans data);
          count = (\<lambda>P. length (filter P plans));
          counter = counter_value (tl_counters data)
      in rbind (counter ''plans_pruned'') (\<lambda>c1.
         rbind (counter ''plans_promoted_recovered'') (\<lambda>c2.
         rbind (counter ''plans_live_evicted'') (\<lambda>c3.
         rbind (counter ''plans_dropped_unemitted'') (\<lambda>c4.
         rbind (counter ''events_retired_undelivered'') (\<lambda>c5.
         Inr \<lparr>n_plans = length plans, plan_cap = MAX_PLANS,
              plans_open = count (in_state ''planned''), plans_seeding = count (in_state ''seeding''),
              plans_cancelled = count (in_state ''cancelled''),
              plans_awaiting_report = count (\<lambda>row. in_state ''planned'' row \<and>
                jget row ''tracker_seeder_at'' \<noteq> JNull \<and> jget row ''checksum_verified_at'' = JNull),
              plans_unconfirmed = sum_list (map (length \<circ> undelivered) plans),
              plans_pruned = c1, plans_promoted_recovered = c2, plans_live_evicted = c3,
              plans_dropped_unemitted = c4, events_retired_undelivered = c5\<rparr>))))))"

definition prune_one :: "string set \<Rightarrow> rat \<Rightarrow> tl_data \<times> string list \<Rightarrow> string \<times> json \<Rightarrow> (tl_data \<times> string list) res" where
  "prune_one live before st kv =
     (case as_obj (snd kv) of
        None \<Rightarrow> Inr st
      | Some row \<Rightarrow>
          if fst kv \<in> live then Inr st
          else rbind (aged row before) (\<lambda>old.
            if old
            then (let d1 = note_dropped row (fst st)
                  in Inr (bump_counter ''plans_pruned'' 1 (d1\<lparr>tl_plans := ddel (fst kv) (tl_plans d1)\<rparr>), snd st @ [fst kv]))
            else Inr st))"

definition prune_plans :: "bool \<Rightarrow> rat \<Rightarrow> string set \<Rightarrow> tl_state \<Rightarrow> tl_state \<times> string list res" where
  "prune_plans io before live st0 =
     (case read_doc st0 of (st, data, lost) \<Rightarrow>
        (case rfold (prune_one live before) (data, []) (tl_plans data) of
           Inl e \<Rightarrow> (st, Inl e)
         | Inr (d, dropped) \<Rightarrow> save io (dropped \<noteq> []) d (sort dropped) st))"

end
