(* ===== verification/Transfer_Steps.thy ===== *)
theory Transfer_Steps
  imports Transfer_Lifecycle Keyed_Store
begin

text \<open>
  What an operation of the lifecycle store may do to one row.  \<^verbatim>\<open>row_step\<close> lists the elementary changes
  together with the evidence each of them needs, and every pass of the store is shown to change each row by
  such steps only.  Invariants of rows are then proved once, by rule induction over the steps.
\<close>

section \<open>Rows of a document\<close>

definition row_at :: "obj \<Rightarrow> string \<Rightarrow> obj option" where
  "row_at plans pl = as_obj (jget plans pl)"

definition data_of :: "tl_state \<Rightarrow> tl_data" where
  "data_of st = fst (snd (read_doc st))"

lemma row_at_dset [simp]: "row_at (dset pl (JObj row) plans) x = (if x = pl then Some row else row_at plans x)"
  by (simp add: row_at_def get_or_dset)

lemma row_at_ddel [simp]: "row_at (ddel pl plans) x = (if x = pl then None else row_at plans x)"
  by (simp add: row_at_def get_or_def)

lemma row_at_canon: "row_at (canon_rows plans) pl = map_option canon_rows (row_at plans pl)"
  by (simp add: row_at_def jget_canon as_obj_canon)

lemma row_at_Nil [simp]: "row_at [] pl = None"
  by (simp add: row_at_def get_or_def)

lemma row_at_map:
  assumes "\<And>kv. fst (f kv) = fst kv" and "\<And>kv. as_obj (snd kv) = None \<Longrightarrow> f kv = kv"
  shows "row_at (map f plans) pl = (case dget plans pl of None \<Rightarrow> None | Some v \<Rightarrow> as_obj (snd (f (pl, v))))"
  using assms by (induction plans) (auto simp: row_at_def get_or_def)

lemma row_at_eq: "row_at plans pl = (case dget plans pl of None \<Rightarrow> None | Some v \<Rightarrow> as_obj v)"
  by (simp add: row_at_def get_or_def split: option.split)

lemma read_doc_eq: "read_doc st = (fst (read_doc st), data_of st, snd (snd (read_doc st)))"
  by (simp add: data_of_def)

lemma data_of_read_doc [simp]: "data_of (fst (read_doc st)) = data_of st"
  by (simp add: data_of_def read_doc_def split: file_state.split option.split)

lemma data_of_write [simp]:
  "data_of (fst (write_doc io d st)) =
     (if io then \<lparr>tl_plans = canon_rows (tl_plans d), tl_counters = canon_rows (tl_counters d)\<rparr> else data_of st)"
proof -
  have "jget (canon_rows [(''plans'', JObj (tl_plans d)), (''counters'', JObj (tl_counters d))]) ''plans'' =
      JObj (canon_rows (tl_plans d))" for d :: tl_data
    by (simp add: jget_canon) (simp add: get_or_def canon_rows_def)
  moreover have "jget (canon_rows [(''plans'', JObj (tl_plans d)), (''counters'', JObj (tl_counters d))]) ''counters'' =
      JObj (canon_rows (tl_counters d))" for d :: tl_data
    by (simp add: jget_canon) (simp add: get_or_def canon_rows_def)
  ultimately show ?thesis
    by (cases io) (simp_all add: data_of_def read_doc_def write_doc_def canon_obj del: canon.simps)
qed

lemma data_of_save [simp]:
  "data_of (fst (save io dirty d x st)) =
     (if dirty \<and> io then \<lparr>tl_plans = canon_rows (tl_plans d), tl_counters = canon_rows (tl_counters d)\<rparr> else data_of st)"
  using data_of_write [of io d st] by (simp add: save_def split_beta)

lemma save_result:
  "snd (save io dirty d x st) = (if dirty \<and> \<not> io then Inl OSFailure else Inr x)"
  "dirty \<and> \<not> io \<Longrightarrow> fst (save io dirty d x st) = st"
  by (simp_all add: save_def write_doc_def)

lemma data_of_lost: "tl_file st = Missing \<or> tl_file st = Corrupt \<Longrightarrow> data_of st = \<lparr>tl_plans = [], tl_counters = []\<rparr>"
  by (auto simp: data_of_def read_doc_def)

lemma bump_counter_plans [simp]: "tl_plans (bump_counter n k d) = tl_plans d"
  by (simp add: bump_counter_def Let_def)

lemma note_dropped_plans [simp]: "tl_plans (note_dropped row d) = tl_plans d"
  by (simp add: note_dropped_def)

section \<open>Elementary changes\<close>

definition verified_row :: "verified_fact \<Rightarrow> rat \<Rightarrow> rat \<Rightarrow> obj \<Rightarrow> obj" where
  "verified_row f tm now row =
     dset ''updated_at'' (JFloat now)
       (dset ''report_created_at'' (opt_num (Option.bind (vf_report_created_at f) nonneg))
       (dset ''observed_at'' (opt_num (Option.bind (vf_observed_at f) nonneg))
       (dset ''checksum_verified_at'' (JFloat tm) row)))"

definition ready :: "obj \<Rightarrow> bool" where
  "ready row \<longleftrightarrow> jget row ''state'' = JStr ''planned'' \<and> jget row ''checksum_verified_at'' \<noteq> JNull \<and>
     jget row ''tracker_seeder_at'' \<noteq> JNull"

inductive row_step :: "plan set \<Rightarrow> verified_fact set \<Rightarrow> rat set \<Rightarrow> obj \<Rightarrow> obj \<Rightarrow> bool"
  for lps vfs sfs where
  refreshed: "p \<in> lps \<Longrightarrow> row_step lps vfs sfs row (fst (refresh row p))"
| reopened: "p \<in> lps \<Longrightarrow> jget row ''state'' = JStr ''cancelled'' \<Longrightarrow>
    row_step lps vfs sfs row (touch ''state'' (JStr ''planned'') now row)"
| gone: "lps = {} \<Longrightarrow> jget row ''state'' = JStr ''planned'' \<Longrightarrow>
    row_step lps vfs sfs row (touch ''state'' (JStr ''cancelled'') now row)"
| verified: "f \<in> vfs \<Longrightarrow> nonneg (vf_verified_at f) = Some tm \<Longrightarrow> jget row ''checksum_verified_at'' = JNull \<Longrightarrow>
    row_step lps vfs sfs row (verified_row f tm now row)"
| seeder: "s \<in> sfs \<Longrightarrow> nonneg s = Some tm \<Longrightarrow> jget row ''tracker_seeder_at'' = JNull \<Longrightarrow>
    row_step lps vfs sfs row (touch ''tracker_seeder_at'' (JFloat tm) now row)"
| resumed: "ready row \<Longrightarrow> jget row ''seeding_started_at'' \<noteq> JNull \<Longrightarrow>
    row_step lps vfs sfs row (touch ''state'' (JStr ''seeding'') now row)"
| promoted: "ready row \<Longrightarrow> jget row ''seeding_started_at'' = JNull \<Longrightarrow>
    started_at rec (dset ''state'' (JStr ''seeding'') row) = Inr tm \<Longrightarrow>
    row_step lps vfs sfs row (touch ''seeding_started_at'' (JFloat tm) now
      (if rec then dset ''recovered_promotion'' (JBool True) (dset ''state'' (JStr ''seeding'') row)
       else dset ''state'' (JStr ''seeding'') row))"
| marked: "name = ''emitted'' \<or> name = ''delivered'' \<Longrightarrow> row_step lps vfs sfs row (dset name v row)"
| stamped: "row_step lps vfs sfs row (dset ''updated_at'' (JFloat now) row)"
| stored: "row_step lps vfs sfs row (canon_rows row)"

abbreviation row_steps :: "plan set \<Rightarrow> verified_fact set \<Rightarrow> rat set \<Rightarrow> obj \<Rightarrow> obj \<Rightarrow> bool" where
  "row_steps lps vfs sfs \<equiv> (row_step lps vfs sfs)\<^sup>*\<^sup>*"

text \<open>A row comes from the row before, or was opened for a live plan where that is allowed.\<close>

definition evolves :: "bool \<Rightarrow> plan set \<Rightarrow> verified_fact set \<Rightarrow> rat set \<Rightarrow> obj option \<Rightarrow> obj option \<Rightarrow> bool" where
  "evolves opening lps vfs sfs old new \<longleftrightarrow>
     (\<forall>row'. new = Some row' \<longrightarrow>
        (\<exists>row. (old = Some row \<or> old = None \<and> opening \<and> (\<exists>p\<in>lps. \<exists>now. row = open_row p now)) \<and>
               row_steps lps vfs sfs row row'))"

lemma evolves_refl [simp, intro]: "evolves b lps vfs sfs old old"
  by (auto simp: evolves_def)

lemma evolves_None [simp, intro]: "evolves b lps vfs sfs old None"
  by (simp add: evolves_def)

lemma evolves_step: "row_step lps vfs sfs row row' \<Longrightarrow> evolves b lps vfs sfs (Some row) (Some row')"
  by (auto simp: evolves_def)

lemma evolves_open: "p \<in> lps \<Longrightarrow> evolves True lps vfs sfs None (Some (open_row p now))"
  by (auto simp: evolves_def)

lemma evolves_trans:
  assumes "evolves b lps vfs sfs x y" and "evolves False lps vfs sfs y z"
  shows "evolves b lps vfs sfs x z"
  unfolding evolves_def
proof (intro allI impI)
  fix r3 assume "z = Some r3"
  with assms(2) obtain r2 where y: "y = Some r2" and s: "row_steps lps vfs sfs r2 r3"
    by (auto simp: evolves_def)
  from assms(1) y obtain r1 where "x = Some r1 \<or> x = None \<and> b \<and> (\<exists>p\<in>lps. \<exists>now. r1 = open_row p now)"
    and "row_steps lps vfs sfs r1 r2" by (auto simp: evolves_def)
  with s show "\<exists>row. (x = Some row \<or> x = None \<and> b \<and> (\<exists>p\<in>lps. \<exists>now. row = open_row p now)) \<and>
      row_steps lps vfs sfs row r3" using rtranclp_trans [of "row_step lps vfs sfs" r1 r2 r3] by blast
qed

lemma evolves_weaken: "evolves False lps vfs sfs x y \<Longrightarrow> evolves b lps vfs sfs x y"
  by (auto simp: evolves_def)

lemma evolves_canon: "evolves b lps vfs sfs old (map_option canon_rows old)"
  by (cases old) (auto intro: evolves_step stored)

text \<open>Opening passes do not remove rows, so their changes compose too.\<close>

definition grows :: "plan set \<Rightarrow> verified_fact set \<Rightarrow> rat set \<Rightarrow> obj option \<Rightarrow> obj option \<Rightarrow> bool" where
  "grows lps vfs sfs old new \<longleftrightarrow> evolves True lps vfs sfs old new \<and> (old \<noteq> None \<longrightarrow> new \<noteq> None)"

lemma grows_trans:
  assumes "grows lps vfs sfs x y" and "grows lps vfs sfs y z"
  shows "grows lps vfs sfs x z"
proof (cases y)
  case None
  with assms show ?thesis by (auto simp: grows_def)
next
  case (Some r)
  with assms(2) have "evolves False lps vfs sfs y z" by (auto simp: grows_def evolves_def)
  with assms show ?thesis by (auto simp: grows_def intro: evolves_trans)
qed

lemma grows_refl [simp]: "grows lps vfs sfs x x"
  by (simp add: grows_def)

lemma grows_step: "row_step lps vfs sfs row row' \<Longrightarrow> grows lps vfs sfs (Some row) (Some row')"
  by (simp add: grows_def evolves_step)

lemma foldl_relates:
  assumes "\<And>s. R s s" and "\<And>x y z. R x y \<Longrightarrow> R y z \<Longrightarrow> R x z" and "\<And>s x. x \<in> set xs \<Longrightarrow> R s (f s x)"
  shows "R s (foldl f s xs)"
  using assms(3) by (induction xs arbitrary: s) (auto intro: assms(1,2))

lemma rfold_relates:
  assumes "\<And>s. R s s" and "\<And>x y z. R x y \<Longrightarrow> R y z \<Longrightarrow> R x z"
    and "\<And>s x s'. x \<in> set xs \<Longrightarrow> f s x = Inr s' \<Longrightarrow> R s s'" and "rfold f s xs = Inr s'"
  shows "R s s'"
  using assms(3,4)
proof (induction xs arbitrary: s)
  case Nil
  then show ?case by (simp add: assms(1))
next
  case (Cons x xs)
  from Cons.prems(2) obtain t where t: "f s x = Inr t" "rfold f t xs = Inr s'" by (auto simp: rbind_eq_Inr)
  have "R s t" by (rule Cons.prems(1) [OF _ t(1)]) simp
  moreover have "R t s'" by (rule Cons.IH [OF _ t(2)]) (auto intro: Cons.prems(1))
  ultimately show ?case by (rule assms(2))
qed

section \<open>The phases of a pass\<close>

abbreviation facts :: "(string \<times> 'a) list \<Rightarrow> string \<Rightarrow> 'a set" where
  "facts xs pl \<equiv> {x. (pl, x) \<in> set xs}"

lemma open_live_grows:
  assumes "kv \<in> set live"
  shows "grows (facts live pl) vfs sfs (row_at (fst st) pl) (row_at (fst (open_live now st kv)) pl)"
proof -
  obtain plans opened dirty x p where st: "st = (plans, opened, dirty)" "kv = (x, p)" by (cases st, cases kv)
  show ?thesis
  proof (cases "row_at plans x")
    case None
    with assms st show ?thesis
      by (auto simp: open_live_def row_at_def [symmetric] grows_def evolves_open)
  next
    case (Some row)
    have p: "x = pl \<Longrightarrow> p \<in> facts live pl" using assms st by simp
    have "x = pl \<Longrightarrow> grows (facts live pl) vfs sfs (Some row) (Some (fst (refresh row p)))"
      using p by (intro grows_step refreshed)
    moreover have "x = pl \<Longrightarrow> jget (fst (refresh row p)) ''state'' = JStr ''cancelled'' \<Longrightarrow>
        grows (facts live pl) vfs sfs (Some (fst (refresh row p)))
          (Some (touch ''state'' (JStr ''planned'') now (fst (refresh row p))))"
      using p by (intro grows_step reopened)
    ultimately show ?thesis using st Some
      by (auto simp: open_live_def row_at_def [symmetric] Let_def split: prod.split intro: grows_trans)
  qed
qed

lemma open_phase:
  assumes "foldl (open_live now) (plans, opened, dirty) xs = (plans', opened', dirty')" and "set xs \<subseteq> set live"
  shows "grows (facts live pl) vfs sfs (row_at plans pl) (row_at plans' pl)"
proof -
  have "grows (facts live pl) vfs sfs (row_at (fst (plans, opened, dirty)) pl)
      (row_at (fst (foldl (open_live now) (plans, opened, dirty) xs)) pl)"
    by (rule foldl_relates [where R = "\<lambda>s t. grows (facts live pl) vfs sfs (row_at (fst s) pl) (row_at (fst t) pl)"])
      (use assms(2) in \<open>auto intro: grows_trans open_live_grows\<close>)
  with assms(1) show ?thesis by simp
qed

lemma cancel_row_fst [simp]: "fst (fst (cancel_row live now kv)) = fst kv"
  by (simp add: cancel_row_def split: option.split)

lemma cancel_row_other: "as_obj (snd kv) = None \<Longrightarrow> cancel_row live now kv = (kv, False)"
  by (simp add: cancel_row_def)

lemma facts_empty: "dget live pl = None \<longleftrightarrow> facts live pl = {}"
  by (force simp: dget_None_iff)

lemma cancel_phase:
  shows "evolves False (facts live pl) vfs sfs (row_at plans pl) (row_at (fst (cancel_gone live now (plans, d))) pl)"
proof -
  have "row_at (fst (cancel_gone live now (plans, d))) pl =
      (case dget plans pl of None \<Rightarrow> None | Some v \<Rightarrow> as_obj (snd (fst (cancel_row live now (pl, v)))))"
    unfolding cancel_gone_def fst_conv by (subst row_at_map) (simp_all add: cancel_row_other split: option.split)
  then show ?thesis
    by (cases "dget plans pl")
      (auto simp: row_at_eq cancel_row_def facts_empty split: option.split intro!: evolves_step gone)
qed

lemma latch_verified_row:
  assumes "kv \<in> set verified"
  shows "evolves False lps (facts verified pl) sfs (row_at (fst st) pl) (row_at (fst (latch_verified now st kv)) pl)"
proof -
  obtain x f where kv: "kv = (x, f)" by (cases kv)
  with assms have "x = pl \<Longrightarrow> f \<in> facts verified pl" by simp
  then show ?thesis unfolding kv
    by (auto simp: latch_verified_def row_at_def [symmetric] verified_row_def [symmetric] split: option.split
        intro!: evolves_step verified)
qed

lemma verified_phase:
  "evolves False lps (facts verified pl) sfs (row_at (fst st) pl) (row_at (fst (foldl (latch_verified now) st verified)) pl)"
  by (rule foldl_relates [where R = "\<lambda>s t. evolves False lps (facts verified pl) sfs (row_at (fst s) pl) (row_at (fst t) pl)"])
    (auto intro: evolves_trans latch_verified_row)

lemma latch_seeder_row:
  assumes "kv \<in> set seeder"
  shows "evolves False lps vfs (facts seeder pl) (row_at (fst st) pl) (row_at (fst (latch_seeder now st kv)) pl)"
proof -
  obtain x s where kv: "kv = (x, s)" by (cases kv)
  with assms have "x = pl \<Longrightarrow> s \<in> facts seeder pl" by simp
  then show ?thesis unfolding kv
    by (auto simp: latch_seeder_def row_at_def [symmetric] split: option.split intro!: evolves_step row_step.seeder)
qed

lemma seeder_phase:
  "evolves False lps vfs (facts seeder pl) (row_at (fst st) pl) (row_at (fst (foldl (latch_seeder now) st seeder)) pl)"
  by (rule foldl_relates [where R = "\<lambda>s t. evolves False lps vfs (facts seeder pl) (row_at (fst s) pl) (row_at (fst t) pl)"])
    (auto intro: evolves_trans latch_seeder_row)

lemma promote_one_cases:
  assumes "promote_one lost opened now st x = Inr st'"
  obtains (skip) "st' = st" "\<And>row. row_at (tl_plans (fst st)) x = Some row \<Longrightarrow> \<not> ready row"
  | (promote) row row' where "row_at (tl_plans (fst st)) x = Some row" "ready row"
      "tl_plans (fst st') = dset x (JObj row') (tl_plans (fst st))" "snd st' = snd st @ [x]"
      "\<And>lps vfs sfs. row_step lps vfs sfs row row'" "jget row' ''state'' = JStr ''seeding''"
proof (cases "\<exists>row. row_at (tl_plans (fst st)) x = Some row \<and> ready row")
  case False
  with assms have "st' = st" by (auto simp: promote_one_def row_at_def [symmetric] ready_def split: option.splits if_splits)
  with False show ?thesis by (intro skip) auto
next
  case True
  then obtain row where row: "row_at (tl_plans (fst st)) x = Some row" "ready row" by blast
  show ?thesis
  proof (cases "jget row ''seeding_started_at'' = JNull")
    case True
    with assms row obtain tm where tm: "started_at (lost \<and> x \<in> set opened) (dset ''state'' (JStr ''seeding'') row) = Inr tm"
      and st': "tl_plans (fst st') = dset x (JObj (touch ''seeding_started_at'' (JFloat tm) now
        (if lost \<and> x \<in> set opened then dset ''recovered_promotion'' (JBool True) (dset ''state'' (JStr ''seeding'') row)
         else dset ''state'' (JStr ''seeding'') row))) (tl_plans (fst st))" "snd st' = snd st @ [x]"
      by (auto simp: promote_one_def row_at_def [symmetric] ready_def Let_def rbind_eq_Inr touch_def get_or_dset)
    show ?thesis
      by (rule promote [OF row st' row_step.promoted [OF row(2) True tm]]) (simp add: touch_def get_or_dset)
  next
    case False
    with assms row have st': "tl_plans (fst st') = dset x (JObj (touch ''state'' (JStr ''seeding'') now row)) (tl_plans (fst st))"
      "snd st' = snd st @ [x]"
      by (auto simp: promote_one_def row_at_def [symmetric] ready_def Let_def rbind_eq_Inr touch_def get_or_dset)
    show ?thesis
      by (rule promote [OF row st' row_step.resumed [OF row(2) False]]) (simp add: touch_def get_or_dset)
  qed
qed

lemma promote_row:
  assumes "promote_one lost opened now st x = Inr st'"
  shows "evolves False lps vfs sfs (row_at (tl_plans (fst st)) pl) (row_at (tl_plans (fst st')) pl)"
  using assms by (cases rule: promote_one_cases) (auto intro: evolves_step)

lemma promote_phase:
  assumes "rfold (promote_one lost opened now) st xs = Inr st'"
  shows "evolves False lps vfs sfs (row_at (tl_plans (fst st)) pl) (row_at (tl_plans (fst st')) pl)"
  by (rule rfold_relates [where R = "\<lambda>s t. evolves False lps vfs sfs (row_at (tl_plans (fst s)) pl) (row_at (tl_plans (fst t)) pl)",
        OF _ _ _ assms])
    (auto intro: evolves_trans promote_row)

lemma retain_row:
  assumes "retain_one live cutoff st kv = Inr st'"
  shows "evolves False lps vfs sfs (row_at (tl_plans (fst st)) pl) (row_at (tl_plans (fst st')) pl)"
  using assms by (auto simp: retain_one_def Let_def rbind_eq_Inr split: option.splits if_splits)

lemma retain_phase:
  assumes "retain live now d = Inr (d', b)"
  shows "evolves False lps vfs sfs (row_at (tl_plans d) pl) (row_at (tl_plans d') pl)"
  using rfold_relates [where R = "\<lambda>s t. evolves False lps vfs sfs (row_at (tl_plans (fst s)) pl) (row_at (tl_plans (fst t)) pl)",
      OF _ _ _ assms [unfolded retain_def]]
  by (auto intro: evolves_trans retain_row)

lemma evict_one_plans: "evict_one live d kv = Inr d' \<Longrightarrow> tl_plans d' = ddel (fst kv) (tl_plans d)"
  by (auto simp: evict_one_def Let_def rbind_eq_Inr)

lemma evict_plans: "rfold (evict_one live) d kvs = Inr d' \<Longrightarrow> tl_plans d' = foldl (\<lambda>d k. ddel k d) (tl_plans d) (map fst kvs)"
  by (induction kvs arbitrary: d) (auto simp: rbind_eq_Inr dest!: evict_one_plans)

lemma row_at_filter: "row_at (filter (\<lambda>(k, v). k \<notin> K) plans) pl = (if pl \<in> K then None else row_at plans pl)"
  by (induction plans) (auto simp: row_at_eq)

lemma bound_cases:
  assumes "bound live d = Inr (d', b)"
  obtains (fits) "d' = d" "\<not> b" "int (length (tl_plans d)) \<le> MAX_PLANS"
  | (evicts) keyed where "MAX_PLANS < int (length (tl_plans d))" "b"
      "rmap (\<lambda>kv. rbind (evict_key live kv) (\<lambda>k. Inr (k, kv))) (tl_plans d) = Inr keyed"
      "tl_plans d' = filter (\<lambda>(k, v). k \<notin> (fst \<circ> snd) ` set (take (nat (int (length (tl_plans d)) - MAX_PLANS)) (sort_key fst keyed)))
         (tl_plans d)"
proof (cases "int (length (tl_plans d)) \<le> MAX_PLANS")
  case True
  with assms show ?thesis by (intro fits) (auto simp: bound_def Let_def)
next
  case False
  with assms obtain keyed d1 where k: "rmap (\<lambda>kv. rbind (evict_key live kv) (\<lambda>k. Inr (k, kv))) (tl_plans d) = Inr keyed"
    and d1: "rfold (evict_one live) d (map snd (take (nat (int (length (tl_plans d)) - MAX_PLANS)) (sort_key fst keyed))) = Inr d1"
    and "d' = d1" "b"
    by (auto simp: bound_def Let_def rbind_eq_Inr)
  with evict_plans [OF d1] False show ?thesis
    by (intro evicts [OF _ _ k]) (auto simp: foldl_ddel image_image comp_def)
qed

lemma bound_row:
  assumes "bound live d = Inr (d', b)"
  shows "evolves False lps vfs sfs (row_at (tl_plans d) pl) (row_at (tl_plans d') pl)"
  using assms by (cases rule: bound_cases) (simp_all add: row_at_filter)

section \<open>Whole operations\<close>

text \<open>The intermediate values of a successful pass.\<close>

lemma observe_cases:
  assumes "observe io live verified seeder now st = (st', r)"
  obtains (raised) e where "r = Inl e" "st' = fst (read_doc st)"
  | (ok) plans1 opened dirty1 plans2 dirty2 plans3 dirty3 plans4 dirty4 d5 promoted d6 removed d7 evicted where
      "foldl (open_live now) (tl_plans (data_of st), [], False) (sort_key fst live) = (plans1, opened, dirty1)"
      "cancel_gone live now (plans1, dirty1) = (plans2, dirty2)"
      "foldl (latch_verified now) (plans2, dirty2) verified = (plans3, dirty3)"
      "foldl (latch_seeder now) (plans3, dirty3) seeder = (plans4, dirty4)"
      "rfold (promote_one (snd (snd (read_doc st))) opened now) ((data_of st)\<lparr>tl_plans := plans4\<rparr>, []) (sort (dkeys plans4)) = Inr (d5, promoted)"
      "retain (set (dkeys live)) now d5 = Inr (d6, removed)"
      "bound (set (dkeys live)) d6 = Inr (d7, evicted)"
      "(st', r) = save io (dirty4 \<or> promoted \<noteq> [] \<or> removed \<or> evicted) d7 promoted (fst (read_doc st))"
proof -
  obtain plans1 opened dirty1 where 1: "foldl (open_live now) (tl_plans (data_of st), [], False) (sort_key fst live) = (plans1, opened, dirty1)"
    by (cases "foldl (open_live now) (tl_plans (data_of st), [], False) (sort_key fst live)")
  obtain plans2 dirty2 where 2: "cancel_gone live now (plans1, dirty1) = (plans2, dirty2)" by fastforce
  obtain plans3 dirty3 where 3: "foldl (latch_verified now) (plans2, dirty2) verified = (plans3, dirty3)" by fastforce
  obtain plans4 dirty4 where 4: "foldl (latch_seeder now) (plans3, dirty3) seeder = (plans4, dirty4)" by fastforce
  let ?m = "rbind (rfold (promote_one (snd (snd (read_doc st))) opened now) ((data_of st)\<lparr>tl_plans := plans4\<rparr>, []) (sort (dkeys plans4))) (\<lambda>(d5, promoted).
      rbind (retain (set (dkeys live)) now d5) (\<lambda>(d6, removed).
      rbind (bound (set (dkeys live)) d6) (\<lambda>(d7, evicted).
      Inr (d7, promoted, dirty4 \<or> promoted \<noteq> [] \<or> removed \<or> evicted))))"
  have obs: "(st', r) = (case ?m of Inl e \<Rightarrow> (fst (read_doc st), Inl e)
      | Inr (d7, promoted, dirty) \<Rightarrow> save io dirty d7 promoted (fst (read_doc st)))"
    using assms unfolding observe_def
    by (subst (asm) read_doc_eq) (simp only: prod.case Let_def 1 2 3 4)
  show ?thesis
  proof (cases ?m)
    case (Inl e)
    with obs show ?thesis by (intro raised) simp_all
  next
    case (Inr q)
    then obtain d5 promoted d6 removed d7 evicted where
      5: "rfold (promote_one (snd (snd (read_doc st))) opened now) ((data_of st)\<lparr>tl_plans := plans4\<rparr>, []) (sort (dkeys plans4)) = Inr (d5, promoted)"
      and 6: "retain (set (dkeys live)) now d5 = Inr (d6, removed)"
      and 7: "bound (set (dkeys live)) d6 = Inr (d7, evicted)"
      and q: "q = (d7, promoted, dirty4 \<or> promoted \<noteq> [] \<or> removed \<or> evicted)"
      by (auto simp: rbind_eq_Inr)
    show ?thesis by (rule ok [OF 1 2 3 4 5 6 7]) (use obs Inr q in \<open>simp_all\<close>)
  qed
qed

lemma observe_evolves:
  assumes "observe io live verified seeder now st = (st', r)"
  shows "evolves True (facts live pl) (facts verified pl) (facts seeder pl)
    (row_at (tl_plans (data_of st)) pl) (row_at (tl_plans (data_of st')) pl)"
  using assms
proof (cases rule: observe_cases)
  case raised
  then show ?thesis by simp
next
  case (ok plans1 opened dirty1 plans2 dirty2 plans3 dirty3 plans4 dirty4 d5 promoted d6 removed d7 evicted)
  let ?e = "\<lambda>b x y. evolves b (facts live pl) (facts verified pl) (facts seeder pl) (row_at x pl) (row_at y pl)"
  have "?e True (tl_plans (data_of st)) plans1"
    using open_phase [OF ok(1), where live = live] by (simp add: grows_def)
  moreover have "?e False plans1 plans2" using cancel_phase [where live = live and pl = pl and plans = plans1 and now = now and d = dirty1] ok(2) by simp
  moreover have "?e False plans2 plans3" using verified_phase [where verified = verified and pl = pl and st = "(plans2, dirty2)" and now = now] ok(3) by simp
  moreover have "?e False plans3 plans4" using seeder_phase [where seeder = seeder and pl = pl and st = "(plans3, dirty3)" and now = now] ok(4) by simp
  moreover have "?e False plans4 (tl_plans d5)" using promote_phase [OF ok(5)] by simp
  moreover have "?e False (tl_plans d5) (tl_plans d6)" by (rule retain_phase [OF ok(6)])
  moreover have "?e False (tl_plans d6) (tl_plans d7)" by (rule bound_row [OF ok(7)])
  moreover have "?e False (tl_plans d7) (canon_rows (tl_plans d7))" by (simp add: row_at_canon evolves_canon)
  ultimately have "?e True (tl_plans (data_of st)) (canon_rows (tl_plans d7))" by (blast intro: evolves_trans)
  moreover have "data_of st' = data_of (fst (save io (dirty4 \<or> promoted \<noteq> [] \<or> removed \<or> evicted) d7 promoted (fst (read_doc st))))"
    using ok(8) by (metis fst_conv)
  ultimately show ?thesis by simp
qed

lemma mark_map_step: "row_steps lps vfs sfs (fst rc) (fst (mark_map name event now rc))"
  if "name = ''emitted'' \<or> name = ''delivered''"
  using that by (auto simp: mark_map_def intro: marked)

lemma mark_row: "evolves False lps vfs sfs (row_at plans pl) (row_at (fst (mark now confirm plans item)) pl)"
proof -
  obtain x event expect where item: "item = (x, event, expect)" by (cases item)
  show ?thesis
  proof (cases "row_at plans x")
    case None
    then show ?thesis by (simp add: item mark_def row_at_def [symmetric])
  next
    case (Some row)
    let ?r1 = "mark_map ''emitted'' event now (row, False)"
    let ?r2 = "if confirm then mark_map ''delivered'' event now ?r1 else ?r1"
    have 1: "row_steps lps vfs sfs row (fst ?r1)" using mark_map_step [of "''emitted''" lps vfs sfs "(row, False)"] by simp
    have "row_steps lps vfs sfs (fst ?r1) (fst ?r2)" using mark_map_step [of "''delivered''" lps vfs sfs ?r1] by simp
    with 1 have "row_steps lps vfs sfs row (dset ''updated_at'' (JFloat now) (fst ?r2))"
      by (meson rtranclp.rtrancl_into_rtrancl rtranclp_trans stamped)
    then have "evolves False lps vfs sfs (Some row) (Some (dset ''updated_at'' (JFloat now) (fst ?r2)))"
      by (auto simp: evolves_def)
    with Some show ?thesis
      by (auto simp: item mark_def row_at_def [symmetric] Let_def split: prod.splits if_splits)
  qed
qed

lemma mark_items_rows:
  "evolves False lps vfs sfs (row_at plans pl) (row_at (fst (mark_items now confirm plans items)) pl)"
proof (induction items arbitrary: plans)
  case (Cons item items)
  show ?case
    using evolves_trans [OF mark_row [of lps vfs sfs plans pl now confirm item] Cons.IH]
    by (auto split: prod.splits)
qed simp

lemma mark_many_evolves:
  "evolves False lps vfs sfs (row_at (tl_plans (data_of st)) pl) (row_at (tl_plans (data_of (fst (mark_many io items now confirm st)))) pl)"
proof (cases "items = []")
  case False
  obtain plans oks dirty where m: "mark_items now confirm (tl_plans (data_of st)) items = (plans, oks, dirty)"
    by (cases "mark_items now confirm (tl_plans (data_of st)) items")
  have "evolves False lps vfs sfs (row_at (tl_plans (data_of st)) pl) (row_at plans pl)"
    using mark_items_rows [of lps vfs sfs "tl_plans (data_of st)" pl now confirm items] m by simp
  moreover have "evolves False lps vfs sfs (row_at plans pl) (row_at (canon_rows plans) pl)"
    by (simp add: row_at_canon evolves_canon)
  ultimately have "evolves False lps vfs sfs (row_at (tl_plans (data_of st)) pl) (row_at (canon_rows plans) pl)"
    by (rule evolves_trans)
  moreover have "data_of (fst (mark_many io items now confirm st)) =
      (if dirty \<and> io then \<lparr>tl_plans = canon_rows plans, tl_counters = canon_rows (tl_counters (data_of st))\<rparr> else data_of st)"
    using False unfolding mark_many_def by (subst read_doc_eq) (simp add: m)
  ultimately show ?thesis by simp
qed (simp add: mark_many_def)

lemma prune_row:
  assumes "prune_one live before st kv = Inr st'"
  shows "evolves False lps vfs sfs (row_at (tl_plans (fst st)) pl) (row_at (tl_plans (fst st')) pl)"
  using assms by (auto simp: prune_one_def Let_def rbind_eq_Inr split: option.splits if_splits)

lemma prune_plans_cases:
  obtains (raised) e where "prune_plans io before live st = (fst (read_doc st), Inl e)"
  | (ok) d dropped where "rfold (prune_one live before) (data_of st, []) (tl_plans (data_of st)) = Inr (d, dropped)"
      "prune_plans io before live st = save io (dropped \<noteq> []) d (sort dropped) (fst (read_doc st))"
proof (cases "rfold (prune_one live before) (data_of st, []) (tl_plans (data_of st))")
  case (Inl e)
  show ?thesis by (rule raised [of e]) (subst prune_plans_def, subst read_doc_eq, simp add: Inl)
next
  case (Inr q)
  then obtain d dropped where q: "q = (d, dropped)" by (cases q)
  show ?thesis by (rule ok [OF Inr [unfolded q]]) (subst prune_plans_def, subst read_doc_eq, simp add: Inr q)
qed

lemma prune_plans_evolves:
  "evolves False lps vfs sfs (row_at (tl_plans (data_of st)) pl) (row_at (tl_plans (data_of (fst (prune_plans io before live st)))) pl)"
proof (cases rule: prune_plans_cases [of io before live st])
  case (ok d dropped)
  have "evolves False lps vfs sfs (row_at (tl_plans (data_of st)) pl) (row_at (tl_plans d) pl)"
    using rfold_relates [where R = "\<lambda>s t. evolves False lps vfs sfs (row_at (tl_plans (fst s)) pl) (row_at (tl_plans (fst t)) pl)",
        OF _ _ _ ok(1)]
    by (auto intro: evolves_trans prune_row)
  then have "evolves False lps vfs sfs (row_at (tl_plans (data_of st)) pl) (row_at (canon_rows (tl_plans d)) pl)"
    by (rule evolves_trans) (simp add: row_at_canon evolves_canon)
  with ok(2) show ?thesis by simp
qed simp

end
