(* ===== verification/Transfer_Properties.thy ===== *)
theory Transfer_Properties
  imports Transfer_Steps
begin

text \<open>
  The lifecycle store as it can be reached from an empty state directory by passes over arbitrary catalog
  documents and registry snapshots, marker writes, explicit pruning, restarts and losses of the file.  Rows
  of reachable stores are well formed, their latches are stable, a seeding row is backed by recorded
  evidence.  Any write may be refused by the file system.
\<close>

section \<open>Well-formed rows\<close>

definition is_time :: "json \<Rightarrow> bool" where
  "is_time v \<longleftrightarrow> (\<exists>r. v = JFloat r)"

lemma is_time_simps [simp]: "is_time (JFloat r)" "\<not> is_time JNull" "is_time (canon v) = is_time v"
  by (simp_all add: is_time_def) (cases v; simp)

lemma canon_time: "is_time v \<Longrightarrow> canon v = v"
  by (auto simp: is_time_def)

lemma canon_JStr [simp]: "canon v = JStr s \<longleftrightarrow> v = JStr s"
  by (cases v) auto

definition time_or_null :: "json \<Rightarrow> bool" where
  "time_or_null v \<longleftrightarrow> v = JNull \<or> is_time v"

lemma time_or_null_simps [simp]: "time_or_null JNull" "time_or_null (JFloat r)" "time_or_null (canon v) = time_or_null v"
  by (simp_all add: time_or_null_def)

definition row_wf :: "obj \<Rightarrow> bool" where
  "row_wf row \<longleftrightarrow>
     (jget row ''state'' = JStr ''planned'' \<or> jget row ''state'' = JStr ''seeding'' \<or> jget row ''state'' = JStr ''cancelled'') \<and>
     time_or_null (jget row ''checksum_verified_at'') \<and> time_or_null (jget row ''tracker_seeder_at'') \<and>
     time_or_null (jget row ''seeding_started_at'') \<and>
     is_time (jget row ''planned_at'') \<and> is_time (jget row ''updated_at'') \<and>
     (jget row ''state'' = JStr ''seeding'' \<longleftrightarrow> jget row ''seeding_started_at'' \<noteq> JNull) \<and>
     (jget row ''state'' = JStr ''seeding'' \<longrightarrow>
        jget row ''checksum_verified_at'' \<noteq> JNull \<and> jget row ''tracker_seeder_at'' \<noteq> JNull)"

definition keeps :: "obj \<Rightarrow> obj \<Rightarrow> bool" where
  "keeps row row' \<longleftrightarrow>
     (\<forall>f\<in>{''checksum_verified_at'', ''tracker_seeder_at'', ''seeding_started_at''}.
        jget row f \<noteq> JNull \<longrightarrow> jget row' f = jget row f) \<and>
     (jget row ''state'' = JStr ''seeding'' \<longrightarrow> jget row' ''state'' = JStr ''seeding'')"

definition backed :: "bool \<Rightarrow> bool \<Rightarrow> obj \<Rightarrow> bool" where
  "backed V S row \<longleftrightarrow> (jget row ''checksum_verified_at'' \<noteq> JNull \<longrightarrow> V) \<and> (jget row ''tracker_seeder_at'' \<noteq> JNull \<longrightarrow> S)"

lemma keeps_refl [simp]: "keeps row row"
  by (simp add: keeps_def)

lemma keeps_trans: "keeps a b \<Longrightarrow> keeps b c \<Longrightarrow> keeps a c"
  by (simp add: keeps_def)

definition policy_fields :: "string list" where
  "policy_fields = [''transfer_id'', ''device_id'', ''image_id'', ''planned_at'', ''info_hash'']"

lemma reseat_frame: "g \<noteq> f \<Longrightarrow> jget (fst (reseat f v rc)) g = jget (fst rc) g"
  by (simp add: reseat_def get_or_dset)

definition reseated :: "obj \<Rightarrow> plan \<Rightarrow> obj \<times> bool" where
  "reseated row p =
     reseat ''planned_at'' (JFloat (planned_at p)) (reseat ''image_id'' (JStr (image_id p))
       (reseat ''device_id'' (JStr (device_id p)) (reseat ''transfer_id'' (JStr (transfer_id p)) (row, False))))"

lemma refresh_reseated:
  "fst (refresh row p) = fst (reseated row p) \<or> (\<exists>h. fst (refresh row p) = dset ''info_hash'' (JStr h) (fst (reseated row p)))"
  unfolding refresh_def reseated_def [symmetric] by (auto split: prod.split option.split)

lemma refresh_frame:
  assumes "g \<notin> set policy_fields"
  shows "jget (fst (refresh row p)) g = jget row g"
proof -
  have "jget (fst (reseated row p)) g = jget row g"
    using assms by (simp add: reseated_def reseat_frame policy_fields_def)
  with refresh_reseated [of row p] assms show ?thesis by (auto simp: get_or_dset policy_fields_def)
qed

lemma refresh_planned:
  assumes "is_time (jget row ''planned_at'')"
  shows "is_time (jget (fst (refresh row p)) ''planned_at'')"
proof -
  have "is_time (jget (fst rc) ''planned_at'') \<Longrightarrow> is_time (jget (fst (reseat f (JFloat t) rc)) ''planned_at'')" for f t rc
    by (simp add: reseat_def get_or_dset)
  then have "is_time (jget (fst (reseated row p)) ''planned_at'')"
    using assms by (simp add: reseated_def reseat_frame)
  with refresh_reseated [of row p] show ?thesis by (auto simp: get_or_dset)
qed

lemmas field_simps = touch_def verified_row_def get_or_dset

lemma open_row_wf [simp]: "row_wf (open_row p now)"
  by (simp add: row_wf_def open_row_def get_or_def)

lemma open_row_backed [simp]: "backed V S (open_row p now)"
  by (simp add: backed_def open_row_def get_or_def)

lemma row_step_wf:
  assumes "row_step lps vfs sfs row row'" and "row_wf row"
  shows "row_wf row' \<and> keeps row row'"
  using assms
proof (cases rule: row_step.cases)
  case (refreshed p)
  then show ?thesis using assms(2)
    by (simp add: row_wf_def keeps_def refresh_frame refresh_planned policy_fields_def) blast
next
  case (marked name v)
  then have "jget row' g = jget row g" if "g \<noteq> ''emitted''" "g \<noteq> ''delivered''" for g
    using that by (auto simp: get_or_dset)
  then show ?thesis using assms(2) by (simp add: row_wf_def keeps_def) blast
next
  case stored
  then show ?thesis using assms(2)
    by (auto simp: row_wf_def keeps_def jget_canon time_or_null_def canon_time)
qed (use assms(2) in \<open>auto simp: row_wf_def keeps_def field_simps ready_def\<close>)

lemma row_step_backed:
  assumes "row_step lps vfs sfs row row'" and "backed V S row" and "vfs \<noteq> {} \<Longrightarrow> V" and "sfs \<noteq> {} \<Longrightarrow> S"
  shows "backed V S row'"
  using assms(1)
proof (cases rule: row_step.cases)
  case (refreshed p)
  then show ?thesis using assms(2) by (simp add: backed_def refresh_frame policy_fields_def)
next
  case stored
  then show ?thesis using assms(2) by (simp add: backed_def jget_canon)
qed (use assms(2-) in \<open>auto simp: backed_def field_simps\<close>)

lemma row_steps_wf:
  assumes "row_steps lps vfs sfs row row'" and "row_wf row"
  shows "row_wf row' \<and> keeps row row'"
  using assms by (induction rule: rtranclp_induct) (auto dest: row_step_wf intro: keeps_trans)

lemma row_steps_backed:
  assumes "row_steps lps vfs sfs row row'" and "backed V S row" and "vfs \<noteq> {} \<Longrightarrow> V" and "sfs \<noteq> {} \<Longrightarrow> S"
  shows "backed V S row'"
  using assms(1,2) by (induction rule: rtranclp_induct) (auto intro: row_step_backed [OF _ _ assms(3,4)])

text \<open>While its plan is live a row is not cancelled.\<close>

lemma row_steps_open:
  assumes "row_steps lps vfs sfs row row'" and "lps \<noteq> {}" and "jget row ''state'' \<noteq> JStr ''cancelled''"
  shows "jget row' ''state'' \<noteq> JStr ''cancelled''"
  using assms(1,3)
proof (induction rule: rtranclp_induct)
  case (step y z)
  from step.hyps(2) show ?case
  proof (cases rule: row_step.cases)
    case (refreshed p)
    then show ?thesis using step.IH step.prems by (simp add: refresh_frame policy_fields_def)
  next
    case stored
    then show ?thesis using step.IH step.prems by (simp add: jget_canon)
  qed (use step.IH step.prems assms(2) in \<open>auto simp: field_simps\<close>)
qed

section \<open>Reachable stores\<close>

text \<open>One sample pass of \<^verbatim>\<open>telemetry.py\<close>: the documents it read (a failed read gives an empty one) and its clocks.\<close>

record tl_pass =
  ps_policy :: obj
  ps_reports :: obj
  ps_ledger :: obj
  ps_snapshot :: obj
  ps_images :: obj
  ps_clock :: rat
  ps_now :: rat

definition ps_live :: "tl_pass \<Rightarrow> (string, plan) dict" where
  "ps_live ps = live_plans_from_policy (ps_policy ps)"

definition ps_seeder :: "tl_pass \<Rightarrow> (string, rat) dict" where
  "ps_seeder ps = seeder_facts (ps_live ps) (ps_snapshot ps) (ps_images ps) (ps_clock ps)"

definition run_pass :: "bool \<Rightarrow> tl_pass \<Rightarrow> tl_state \<Rightarrow> tl_state \<times> string list res" where
  \<comment> \<open>\<^verbatim>\<open>_observe_transfer_lifecycle\<close>: derive the facts, then observe\<close>
  "run_pass io ps st =
     (case verified_facts (ps_live ps) (ps_reports ps) (ps_ledger ps) of
        Inl e \<Rightarrow> (st, Inl e)
      | Inr verified \<Rightarrow> observe io (ps_live ps) verified (ps_seeder ps) (ps_now ps) st)"

inductive tl_reach :: "tl_pass list \<Rightarrow> tl_state \<Rightarrow> bool" where
  start: "tl_reach [] \<lparr>tl_file = Missing, seen_store = False\<rparr>"
| observed: "tl_reach h st \<Longrightarrow> tl_reach (ps # h) (fst (run_pass io ps st))"
| marking: "tl_reach h st \<Longrightarrow> tl_reach h (fst (mark_many io items now confirm st))"
| pruning: "tl_reach h st \<Longrightarrow> tl_reach h (fst (prune_plans io before live st))"
| restarted: "tl_reach h st \<Longrightarrow> tl_reach h (st\<lparr>seen_store := False\<rparr>)"
| damaged: "tl_reach h st \<Longrightarrow> f = Missing \<or> f = Corrupt \<Longrightarrow> tl_reach h (st\<lparr>tl_file := f\<rparr>)"

text \<open>The evidence a pass holds for a plan.\<close>

definition attests :: "attestation \<Rightarrow> plan \<Rightarrow> bool" where
  "attests att p \<longleftrightarrow> att_transfer_id att = transfer_id p \<and> att_image_id att = image_id p"

definition attested :: "tl_pass \<Rightarrow> plan \<Rightarrow> bool" where
  "attested ps p \<longleftrightarrow>
     (\<exists>ring v att. attests att p \<and> v \<in> set ring \<and>
        ((device_id p, JList ring) \<in> set (ps_reports ps) \<and> attestation_from_report v = Inr (Some att) \<or>
         (device_id p, JList ring) \<in> set (ps_ledger ps) \<and> stored_attestation v = Inr (Some att)))"

definition seen_seeding :: "tl_pass \<Rightarrow> plan \<Rightarrow> bool" where
  "seen_seeding ps p \<longleftrightarrow>
     (\<exists>h rows row. join_hash (ps_images ps) p = Some h \<and> jget (ps_snapshot ps) h = JList rows \<and>
        JObj row \<in> set rows \<and> seeding_row p row)"

definition evidence :: "(tl_pass \<Rightarrow> plan \<Rightarrow> bool) \<Rightarrow> tl_pass list \<Rightarrow> string \<Rightarrow> bool" where
  "evidence E h pl \<longleftrightarrow> (\<exists>ps\<in>set h. \<exists>p. dget (ps_live ps) pl = Some p \<and> E ps p)"

lemma set_dset: "set (dset k v d) \<subseteq> insert (k, v) (set d)"
  by (induction d) auto

lemma rmap_in: "rmap f xs = Inr ys \<Longrightarrow> y \<in> set ys \<Longrightarrow> \<exists>x\<in>set xs. f x = Inr y"
  by (induction xs arbitrary: ys) (auto simp: rbind_eq_Inr)

lemma foldl_dset_in:
  assumes "x \<in> set (foldl f d xs)" and "\<And>d y. y \<in> set xs \<Longrightarrow> set (f d y) \<subseteq> set d \<union> G y"
  shows "x \<in> set d \<or> (\<exists>y\<in>set xs. x \<in> G y)"
  using assms by (induction xs arbitrary: d) fastforce+

lemma wanted_plans_in:
  assumes "dget (wanted_plans live) b = Some pl"
  shows "\<exists>p. (pl, p) \<in> set live \<and> b = (device_id p, transfer_id p, image_id p)"
proof -
  have "(b, pl) \<in> set (wanted_plans live)" using assms by (rule map_of_SomeD)
  then have "(b, pl) \<in> set [] \<or> (\<exists>y\<in>set live. (b, pl) \<in> {((device_id (snd y), transfer_id (snd y), image_id (snd y)), fst y)})"
    unfolding wanted_plans_def by (rule foldl_dset_in) (auto dest!: set_dset [THEN subsetD])
  then show ?thesis by force
qed

lemma facts_of_in:
  assumes "facts_of f doc = Inr xs" and "(dev, att) \<in> set xs"
  shows "\<exists>ring v. (dev, JList ring) \<in> set doc \<and> v \<in> set ring \<and> f v = Inr (Some att)"
proof -
  from assms obtain rings r where "rmap (ring_facts f) doc = Inr rings" and r: "r \<in> set rings" "(dev, att) \<in> set r"
    by (auto simp: facts_of_def rbind_eq_Inr)
  then obtain kv where kv: "kv \<in> set doc" "ring_facts f kv = Inr r"
    by (blast dest: rmap_in)
  then obtain rows fs where "snd kv = JList rows" and fs: "rmap f rows = Inr fs"
    and "dev = fst kv" and att: "Some att \<in> set fs"
    using r(2) by (auto simp: ring_facts_def rbind_eq_Inr map_filter_def split: option.splits)
  moreover from fs att obtain v where "v \<in> set rows" "f v = Inr (Some att)"
    by (blast dest: rmap_in)
  ultimately show ?thesis using kv(1) by (metis prod.collapse)
qed

lemma fold_fact_in:
  "set (fold_fact wanted out da) \<subseteq> set out \<union>
     {(pl, f). dget wanted (fst da, att_transfer_id (snd da), att_image_id (snd da)) = Some pl \<and> vf_verified_at f = att_received_at (snd da)}"
  by (cases da) (auto simp: fold_fact_def split: option.split dest!: set_dset [THEN subsetD])

lemma live_plans_dwf [simp]: "dwf (live_plans_from_policy doc)"
proof -
  have "dwf d \<Longrightarrow> dwf (foldl add_plan d ps)" for d ps
    by (induction ps arbitrary: d) (auto simp: add_plan_def)
  then show ?thesis by (simp add: live_plans_from_policy_def dwf_def)
qed

lemma ps_live_dget: "(pl, p) \<in> set (ps_live ps) \<longleftrightarrow> dget (ps_live ps) pl = Some p"
  by (simp add: ps_live_def dwf_dget_iff)

lemma attestation_time: 
  "attestation_from_report v = Inr (Some att) \<or> stored_attestation v = Inr (Some att) \<Longrightarrow> 0 \<le> att_received_at att"
proof -
  have "attestation_fields d ob = Some att \<Longrightarrow> 0 \<le> att_received_at att" for d ob
    by (auto simp: attestation_fields_def ts_def split: option.splits if_splits)
  then show "attestation_from_report v = Inr (Some att) \<or> stored_attestation v = Inr (Some att) \<Longrightarrow> ?thesis"
    by (auto simp: attestation_from_report_def stored_attestation_def rbind_eq_Inr split: option.splits if_splits)
qed

lemma verified_facts_sound:
  assumes "verified_facts (ps_live ps) (ps_reports ps) (ps_ledger ps) = Inr v" and "(pl, f) \<in> set v"
  shows "\<exists>p. dget (ps_live ps) pl = Some p \<and> attested ps p" and "0 \<le> vf_verified_at f"
proof -
  from assms(1) obtain xs ys where x: "facts_of attestation_from_report (ps_reports ps) = Inr xs"
    and y: "facts_of stored_attestation (ps_ledger ps) = Inr ys"
    and v: "v = foldl (fold_fact (wanted_plans (ps_live ps))) [] (xs @ ys)"
    by (auto simp: verified_facts_def rbind_eq_Inr)
  from assms(2) have "(pl, f) \<in> set [] \<or> (\<exists>da\<in>set (xs @ ys). (pl, f) \<in>
      {(pl, f). dget (wanted_plans (ps_live ps)) (fst da, att_transfer_id (snd da), att_image_id (snd da)) = Some pl \<and>
         vf_verified_at f = att_received_at (snd da)})"
    unfolding v by (rule foldl_dset_in) (rule fold_fact_in)
  then obtain da where "da \<in> set (xs @ ys)" "dget (wanted_plans (ps_live ps)) (fst da, att_transfer_id (snd da), att_image_id (snd da)) = Some pl"
    "vf_verified_at f = att_received_at (snd da)" by auto
  then obtain dev att where da: "(dev, att) \<in> set (xs @ ys)"
    and w: "dget (wanted_plans (ps_live ps)) (dev, att_transfer_id att, att_image_id att) = Some pl"
    and tm: "vf_verified_at f = att_received_at att" by (metis prod.collapse)
  from wanted_plans_in [OF w] obtain p where p: "(pl, p) \<in> set (ps_live ps)" "dev = device_id p" "attests att p"
    by (auto simp: attests_def)
  from da facts_of_in [OF x, of dev att] facts_of_in [OF y, of dev att]
  obtain ring r where r: "r \<in> set ring"
    "(dev, JList ring) \<in> set (ps_reports ps) \<and> attestation_from_report r = Inr (Some att) \<or>
     (dev, JList ring) \<in> set (ps_ledger ps) \<and> stored_attestation r = Inr (Some att)" by auto
  with p have "attested ps p" unfolding attested_def by blast
  with p(1) show "\<exists>p. dget (ps_live ps) pl = Some p \<and> attested ps p" by (auto simp: ps_live_dget)
  from r(2) attestation_time [of r att] show "0 \<le> vf_verified_at f" by (auto simp: tm)
qed

lemma plan_seeder_fact_sound:
  assumes "plan_seeder_fact p now rows = Some tm"
  shows "\<exists>row. JObj row \<in> set rows \<and> seeding_row p row" and "0 \<le> tm"
proof -
  let ?f = "\<lambda>row. case as_obj row of None \<Rightarrow> None | Some d \<Rightarrow> if seeding_row p d then seeder_instant p now d else None"
  obtain tm0 tms where tms: "List.map_filter ?f rows = tm0 # tms" and tm: "tm = fold min tms tm0"
    using assms by (auto simp: plan_seeder_fact_def Let_def split: list.splits)
  have mem: "x \<in> set (List.map_filter ?f rows) \<Longrightarrow> \<exists>row. JObj row \<in> set rows \<and> seeding_row p row \<and> seeder_instant p now row = Some x" for x
    by (force simp: map_filter_def split: option.splits if_splits)
  from mem [of tm0] tms show "\<exists>row. JObj row \<in> set rows \<and> seeding_row p row" by auto
  have nn: "seeder_instant p now row = Some x \<Longrightarrow> 0 \<le> x" for row x
    by (auto simp: seeder_instant_def Let_def map_filter_simps ts_def split: option.splits if_splits json.splits)
  have "\<forall>x\<in>set (tm0 # tms). 0 \<le> x" using mem nn unfolding tms by blast
  then show "0 \<le> tm" unfolding tm by (induction tms arbitrary: tm0) auto
qed

lemma seeder_facts_sound:
  assumes "(pl, tm) \<in> set (ps_seeder ps)"
  shows "\<exists>p. dget (ps_live ps) pl = Some p \<and> seen_seeding ps p" and "0 \<le> tm"
proof -
  from assms have "(pl, tm) \<in> set [] \<or> (\<exists>y\<in>set (ps_live ps). (pl, tm) \<in>
      {(x, t). x = fst y \<and> swarm_fact (ps_snapshot ps) (ps_images ps) (ps_clock ps) (snd y) = Some t})"
    unfolding ps_seeder_def seeder_facts_def
    by (rule foldl_dset_in) (auto split: option.split dest!: set_dset [THEN subsetD])
  then obtain p h rows where p: "(pl, p) \<in> set (ps_live ps)" and h: "jget (ps_snapshot ps) h = JList rows"
    and f: "plan_seeder_fact p (ps_clock ps) rows = Some tm" and hash: "join_hash (ps_images ps) p = Some h"
    by (auto simp: swarm_fact_def split: option.splits)
  from plan_seeder_fact_sound [OF f] h hash have "seen_seeding ps p" unfolding seen_seeding_def by blast
  with p show "\<exists>p. dget (ps_live ps) pl = Some p \<and> seen_seeding ps p" by (auto simp: ps_live_dget)
  show "0 \<le> tm" by (rule plan_seeder_fact_sound(2) [OF f])
qed

section \<open>Distinct keys\<close>

lemma foldl_keeps:
  assumes "P z" and "\<And>z x. P z \<Longrightarrow> P (f z x)"
  shows "P (foldl f z xs)"
  using assms by (induction xs arbitrary: z) auto

lemma open_live_dwf: "dwf (fst st) \<Longrightarrow> dwf (fst (open_live now st kv))"
  by (cases st; cases kv) (auto simp: open_live_def split: option.split prod.split)

lemma cancel_gone_dwf: "dwf (fst st) \<Longrightarrow> dwf (fst (cancel_gone live now st))"
  by (simp add: cancel_gone_def dwf_def comp_def)

lemma latch_dwf:
  "dwf (fst st) \<Longrightarrow> dwf (fst (latch_verified now st kv))" "dwf (fst st) \<Longrightarrow> dwf (fst (latch_seeder now st kw))"
  by (auto simp: latch_verified_def latch_seeder_def split: option.split)

lemma promote_dwf:
  assumes "promote_one lost opened now st x = Inr st'" and "dwf (tl_plans (fst st))"
  shows "dwf (tl_plans (fst st'))"
  using assms(1) by (cases rule: promote_one_cases) (use assms(2) in auto)

lemma retain_dwf: "retain_one live cutoff st kv = Inr st' \<Longrightarrow> dwf (tl_plans (fst st)) \<Longrightarrow> dwf (tl_plans (fst st'))"
  by (auto simp: retain_one_def Let_def rbind_eq_Inr split: option.splits if_splits)

lemma dwf_filter: "dwf d \<Longrightarrow> dwf (filter P d)"
  by (simp add: dwf_def distinct_map_filter)

lemma bound_dwf:
  assumes "bound live d = Inr (d', b)" and "dwf (tl_plans d)"
  shows "dwf (tl_plans d')"
  using assms(1) by (cases rule: bound_cases) (use assms(2) in \<open>auto simp: dwf_filter\<close>)

lemma fold_dwf:
  assumes "dwf (fst s)"
  shows "dwf (fst (foldl (open_live now) (fst s, t) xs))" "dwf (fst (foldl (latch_verified now) s ys))"
    "dwf (fst (foldl (latch_seeder now) s zs))"
  by (rule foldl_keeps [where P = "\<lambda>s. dwf (fst s)"]; simp add: assms open_live_dwf latch_dwf)+

lemma observe_dwf:
  assumes "observe io live verified seeder now st = (st', r)" and "dwf (tl_plans (data_of st))"
  shows "dwf (tl_plans (data_of st'))"
  using assms(1)
proof (cases rule: observe_cases)
  case raised
  with assms(2) show ?thesis by simp
next
  case (ok plans1 opened dirty1 plans2 dirty2 plans3 dirty3 plans4 dirty4 d5 promoted d6 removed d7 evicted)
  have "dwf plans1" using fold_dwf(1) [of "(tl_plans (data_of st), False)" now "([], False)"] ok(1) assms(2) by (metis fst_conv)
  then have "dwf plans2" using cancel_gone_dwf [of "(plans1, dirty1)" live now] ok(2) by simp
  then have "dwf plans3" using fold_dwf(2) [of "(plans2, dirty2)" now verified] ok(3) by simp
  then have "dwf plans4" using fold_dwf(3) [of "(plans3, dirty3)" now seeder] ok(4) by simp
  then have "dwf (tl_plans d5)" using rfold_invariant [OF ok(5), where P = "\<lambda>s. dwf (tl_plans (fst s))"] promote_dwf by fastforce
  then have "dwf (tl_plans d6)"
    using rfold_invariant [OF ok(6) [unfolded retain_def], where P = "\<lambda>s. dwf (tl_plans (fst s))"] retain_dwf by fastforce
  then have "dwf (tl_plans d7)" by (rule bound_dwf [OF ok(7)])
  moreover have "data_of st' = data_of (fst (save io (dirty4 \<or> promoted \<noteq> [] \<or> removed \<or> evicted) d7 promoted (fst (read_doc st))))"
    using ok(8) by (metis fst_conv)
  ultimately show ?thesis using assms(2) by simp
qed

lemma mark_dwf: "dwf plans \<Longrightarrow> dwf (fst (mark now confirm plans item))"
  by (cases item) (simp add: mark_def Let_def split_beta dwf_dset split: option.split)

lemma mark_many_dwf:
  assumes "dwf (tl_plans (data_of st))"
  shows "dwf (tl_plans (data_of (fst (mark_many io items now confirm st))))"
proof -
  have items: "dwf plans \<Longrightarrow> dwf (fst (mark_items now confirm plans items))" for plans
  proof (induction items arbitrary: plans)
    case (Cons item items)
    have "dwf (fst (mark now confirm plans item))" by (rule mark_dwf [OF Cons.prems])
    from Cons.IH [OF this] show ?case by (simp add: split_beta)
  qed simp
  have "dwf (fst (mark_items now confirm (tl_plans (data_of st)) items))" by (rule items [OF assms])
  then show ?thesis unfolding mark_many_def
    by (subst read_doc_eq) (simp add: assms split_beta)
qed

lemma prune_plans_dwf:
  assumes "dwf (tl_plans (data_of st))"
  shows "dwf (tl_plans (data_of (fst (prune_plans io before live st))))"
proof (cases rule: prune_plans_cases [of io before live st])
  case (ok d dropped)
  have "dwf (tl_plans (fst (d, dropped)))"
    by (rule rfold_invariant [OF ok(1)])
      (use assms in \<open>auto simp: prune_one_def Let_def rbind_eq_Inr split: option.splits if_splits\<close>)
  with ok(2) assms show ?thesis by simp
qed (simp add: assms)

section \<open>The invariant of reachable stores\<close>

definition store_ok :: "tl_pass list \<Rightarrow> tl_state \<Rightarrow> bool" where
  "store_ok h st \<longleftrightarrow> dwf (tl_plans (data_of st)) \<and>
     (\<forall>pl row. row_at (tl_plans (data_of st)) pl = Some row \<longrightarrow>
        row_wf row \<and> backed (evidence attested h pl) (evidence seen_seeding h pl) row)"

lemma evidence_Cons: "evidence E (ps # h) pl \<longleftrightarrow> (\<exists>p. dget (ps_live ps) pl = Some p \<and> E ps p) \<or> evidence E h pl"
  by (auto simp: evidence_def)

lemma evidence_mono: "evidence E h pl \<Longrightarrow> evidence E (ps # h) pl"
  by (simp add: evidence_Cons)

lemma backed_mono: "backed V S row \<Longrightarrow> (V \<Longrightarrow> V') \<Longrightarrow> (S \<Longrightarrow> S') \<Longrightarrow> backed V' S' row"
  by (auto simp: backed_def)

lemma evolves_ok:
  assumes "evolves b lps vfs sfs old new" and "new = Some row'"
    and "\<And>row. old = Some row \<Longrightarrow> row_wf row \<and> backed V S row"
    and "vfs \<noteq> {} \<Longrightarrow> V" and "sfs \<noteq> {} \<Longrightarrow> S"
  shows "row_wf row' \<and> backed V S row'"
proof -
  from assms(1,2) obtain row where row: "old = Some row \<or> (\<exists>p now. row = open_row p now)"
    and steps: "row_steps lps vfs sfs row row'" by (auto simp: evolves_def)
  from row have "row_wf row \<and> backed V S row" using assms(3) by auto
  with row_steps_wf [OF steps] row_steps_backed [OF steps _ assms(4,5)] show ?thesis by blast
qed

lemma store_ok_evolves:
  assumes "store_ok h st" and "dwf (tl_plans (data_of st'))"
    and "\<And>pl. \<exists>b lps. evolves b lps {} {} (row_at (tl_plans (data_of st)) pl) (row_at (tl_plans (data_of st')) pl)"
  shows "store_ok h st'"
  unfolding store_ok_def
proof (intro conjI allI impI, rule assms(2))
  fix pl row' assume row': "row_at (tl_plans (data_of st')) pl = Some row'"
  from assms(3) obtain b lps where e: "evolves b lps {} {} (row_at (tl_plans (data_of st)) pl) (row_at (tl_plans (data_of st')) pl)"
    by blast
  have "row_wf row' \<and> backed (evidence attested h pl) (evidence seen_seeding h pl) row'"
    by (rule evolves_ok [OF e row']) (use assms(1) in \<open>auto simp: store_ok_def\<close>)
  then show "row_wf row'" "backed (evidence attested h pl) (evidence seen_seeding h pl) row'" by auto
qed

lemma store_ok_pass:
  assumes "store_ok h st"
  shows "store_ok (ps # h) (fst (run_pass io ps st))"
proof (cases "verified_facts (ps_live ps) (ps_reports ps) (ps_ledger ps)")
  case (Inl e)
  with assms show ?thesis by (auto simp: run_pass_def store_ok_def elim!: backed_mono evidence_mono)
next
  case (Inr v)
  obtain st' r where obs: "observe io (ps_live ps) v (ps_seeder ps) (ps_now ps) st = (st', r)" by fastforce
  have "row_wf row' \<and> backed (evidence attested (ps # h) pl) (evidence seen_seeding (ps # h) pl) row'"
    if "row_at (tl_plans (data_of st')) pl = Some row'" for pl row'
  proof (rule evolves_ok [OF observe_evolves [OF obs] that])
    show "row_wf row \<and> backed (evidence attested (ps # h) pl) (evidence seen_seeding (ps # h) pl) row"
      if "row_at (tl_plans (data_of st)) pl = Some row" for row
      using assms that by (auto simp: store_ok_def elim!: backed_mono evidence_mono)
    show "facts v pl \<noteq> {} \<Longrightarrow> evidence attested (ps # h) pl"
      using verified_facts_sound(1) [OF Inr, of pl] by (auto simp: evidence_Cons)
    show "facts (ps_seeder ps) pl \<noteq> {} \<Longrightarrow> evidence seen_seeding (ps # h) pl"
      using seeder_facts_sound(1) [of pl _ ps] by (auto simp: evidence_Cons)
  qed
  moreover have "dwf (tl_plans (data_of st'))" using observe_dwf [OF obs] assms by (simp add: store_ok_def)
  ultimately show ?thesis using Inr obs by (auto simp: run_pass_def store_ok_def)
qed

lemma data_of_seen [simp]: "data_of (st\<lparr>seen_store := b\<rparr>) = data_of st"
  by (simp add: data_of_def read_doc_def split: file_state.split option.split)

theorem reach_ok: "tl_reach h st \<Longrightarrow> store_ok h st"
proof (induction rule: tl_reach.induct)
  case start
  show ?case by (simp add: store_ok_def data_of_lost dwf_def)
next
  case (observed h st ps io)
  then show ?case by (rule_tac store_ok_pass)
next
  case (marking h st io items now confirm)
  then show ?case
    by (intro store_ok_evolves [OF marking.IH]) (auto simp: store_ok_def intro: mark_many_dwf mark_many_evolves)
next
  case (pruning h st io before live)
  then show ?case
    by (intro store_ok_evolves [OF pruning.IH]) (auto simp: store_ok_def intro: prune_plans_dwf prune_plans_evolves)
next
  case (restarted h st)
  then show ?case by (simp add: store_ok_def)
next
  case (damaged h st f)
  then show ?case by (auto simp: store_ok_def data_of_lost dwf_def)
qed

section \<open>Evidence and stability\<close>

lemma tl_get_row: "tl_get pl st = row_at (tl_plans (data_of st)) pl"
  by (simp add: tl_get_def row_at_def data_of_def)

text \<open>
  C28.  No plan is ever shown as seeding without the two observations the module promises: in every store
  that passes, marker writes, pruning, restarts and losses of the file can produce, a row in state
  \<^verbatim>\<open>seeding\<close> was preceded by a pass in which a report or ledger entry of the plan's own device attested verified
  content for the plan's own transfer and image, and by a pass in which the registry showed that device,
  authenticated, seeding the plan's torrent.
\<close>

theorem seeding_attested:
  assumes "tl_reach h st" and "tl_get pl st = Some row" and "jget row ''state'' = JStr ''seeding''"
  shows "(\<exists>ps\<in>set h. \<exists>p. dget (ps_live ps) pl = Some p \<and> attested ps p) \<and>
         (\<exists>ps\<in>set h. \<exists>p. dget (ps_live ps) pl = Some p \<and> seen_seeding ps p)"
proof -
  from assms(2) have row: "row_at (tl_plans (data_of st)) pl = Some row" by (simp add: tl_get_row)
  with reach_ok [OF assms(1)] have "row_wf row" "backed (evidence attested h pl) (evidence seen_seeding h pl) row"
    by (auto simp: store_ok_def)
  with assms(3) show ?thesis by (simp add: row_wf_def backed_def evidence_def)
qed

lemma evolves_keeps:
  assumes "evolves b lps vfs sfs (Some row) (Some row')" and "row_wf row"
  shows "keeps row row'"
  using assms by (auto simp: evolves_def dest: row_steps_wf)

lemma run_pass_evolves:
  "\<exists>b vfs. evolves b (facts (ps_live ps) pl) vfs (facts (ps_seeder ps) pl)
     (row_at (tl_plans (data_of st)) pl) (row_at (tl_plans (data_of (fst (run_pass io ps st)))) pl)"
proof (cases "verified_facts (ps_live ps) (ps_reports ps) (ps_ledger ps)")
  case (Inl e)
  then show ?thesis by (auto simp: run_pass_def)
next
  case (Inr v)
  obtain st' r where "observe io (ps_live ps) v (ps_seeder ps) (ps_now ps) st = (st', r)" by fastforce
  from observe_evolves [OF this, of pl] this Inr show ?thesis by (auto simp: run_pass_def)
qed

text \<open>
  C29.  The latches are final: whatever a pass, a marker write or a prune does to a reachable store, a row
  that is still there keeps its verification instant, its seeder instant and its \<^verbatim>\<open>seeding_started_at\<close> once they
  are set, a seeding row stays seeding, and \<^verbatim>\<open>seeding_started_at\<close> is set exactly in the rows that are seeding.
\<close>

theorem latches_stable:
  assumes "tl_reach h st" and "tl_get pl st = Some row" and "tl_get pl st' = Some row'"
    and "st' = fst (run_pass io ps st) \<or> st' = fst (mark_many io items now confirm st) \<or> st' = fst (prune_plans io before live st)"
    and "field \<in> {''checksum_verified_at'', ''tracker_seeder_at'', ''seeding_started_at''}"
  shows "(jget row field \<noteq> JNull \<longrightarrow> jget row' field = jget row field) \<and>
    (jget row ''state'' = JStr ''seeding'' \<longrightarrow> jget row' ''state'' = JStr ''seeding'') \<and>
    (jget row ''state'' = JStr ''seeding'' \<longleftrightarrow> jget row ''seeding_started_at'' \<noteq> JNull)"
proof -
  have wf: "row_wf row" using reach_ok [OF assms(1)] assms(2) by (simp add: store_ok_def tl_get_row)
  have "\<exists>b lps vfs sfs. evolves b lps vfs sfs (row_at (tl_plans (data_of st)) pl) (row_at (tl_plans (data_of st')) pl)"
    using assms(4) run_pass_evolves mark_many_evolves prune_plans_evolves by metis
  with assms(2,3) have "keeps row row'" using evolves_keeps [OF _ wf] by (auto simp: tl_get_row)
  with assms(5) have "jget row field \<noteq> JNull \<longrightarrow> jget row' field = jget row field"
    and "jget row ''state'' = JStr ''seeding'' \<longrightarrow> jget row' ''state'' = JStr ''seeding''"
    unfolding keeps_def by blast+
  moreover have "jget row ''state'' = JStr ''seeding'' \<longleftrightarrow> jget row ''seeding_started_at'' \<noteq> JNull"
    using wf by (simp add: row_wf_def)
  ultimately show ?thesis by blast
qed

section \<open>A concrete pass\<close>

definition example_id :: "char \<Rightarrow> string" where
  "example_id c = replicate 32 c"

definition example_pass :: tl_pass where
  "example_pass =
     \<lparr>ps_policy = [(''r1'', JObj [(''approved_image_ids'', JList [JStr ''img'']),
         (''plans'', JObj [(''img'', JObj [(''plan_id'', JStr (example_id CHR ''a'')), (''transfer_id'', JStr (example_id CHR ''b'')),
            (''planned_at'', JInt 10), (''info_hash'', JStr (replicate 40 CHR ''c''))])])])],
      ps_reports = [(''r1'', JList [JObj [(''event'', JStr ''staging-complete''), (''content_sha256'', JObj [(''state'', JStr ''verified'')]),
         (''transfer_id'', JStr (example_id CHR ''b'')), (''image_id'', JStr ''img''), (''received_at'', JInt 30)]])],
      ps_ledger = [],
      ps_snapshot = [(replicate 40 CHR ''c'', JList [JObj [(''principal_type'', JStr ''device''), (''principal_id'', JStr ''r1''),
         (''is_seeder'', JBool True), (''completed_at'', JInt 20)]])],
      ps_images = [], ps_clock = 39, ps_now = 40\<rparr>"

definition example_store :: tl_state where
  "example_store = fst (run_pass True example_pass \<lparr>tl_file = Missing, seen_store = False\<rparr>)"

lemma example_reach: "tl_reach [example_pass] example_store"
  unfolding example_store_def by (rule tl_reach.observed [OF tl_reach.start])

definition example_row :: obj where
  "example_row = [(''checksum_verified_at'', JFloat 30), (''delivered'', JObj []), (''device_id'', JStr ''r1''), (''emitted'', JObj []),
     (''image_id'', JStr ''img''), (''info_hash'', JStr (replicate 40 CHR ''c'')), (''observed_at'', JNull), (''plan_id'', JStr (example_id CHR ''a'')),
     (''planned_at'', JFloat 10), (''report_created_at'', JNull), (''seeding_started_at'', JFloat 30), (''state'', JStr ''seeding''),
     (''tracker_seeder_at'', JFloat 20), (''transfer_id'', JStr (example_id CHR ''b'')), (''updated_at'', JFloat 40)]"

lemma example_get: "tl_get (example_id CHR ''a'') example_store = Some example_row"
  by code_simp

theorem seeding_attested_witness:
  "(\<exists>p. dget (ps_live example_pass) (example_id CHR ''a'') = Some p \<and> attested example_pass p) \<and>
   (\<exists>p. dget (ps_live example_pass) (example_id CHR ''a'') = Some p \<and> seen_seeding example_pass p)"
  using seeding_attested [OF example_reach example_get] by (simp add: example_row_def get_or_def)

definition example_marked :: tl_state where
  "example_marked = fst (mark_many True [(example_id CHR ''a'', ''planned'', None)] 50 False example_store)"

lemma example_marked_get:
  "tl_get (example_id CHR ''a'') example_marked =
     Some (canon_rows (dset ''updated_at'' (JFloat 50) (dset ''emitted'' (JObj [(''planned'', JFloat 50)]) example_row)))"
  by code_simp

theorem latches_stable_witness:
  "jget (the (tl_get (example_id CHR ''a'') example_marked)) ''seeding_started_at'' = JFloat 30 \<and>
   jget (the (tl_get (example_id CHR ''a'') example_marked)) ''state'' = JStr ''seeding''"
  using latches_stable [OF example_reach example_get example_marked_get, of True _ "[(example_id CHR ''a'', ''planned'', None)]" 50 False
      0 "{}" "''seeding_started_at''"]
  by (simp add: example_marked_def example_marked_get [unfolded example_marked_def]) (simp add: example_row_def get_or_def)

end
