(* ===== verification/Transfer_Progress.thy ===== *)
theory Transfer_Progress
  imports Transfer_Properties
begin

text \<open>
  That a pass of the lifecycle store does its work: on a reachable store it raises only for a report whose
  event no set can hold or for a refused write, the file holds at most \<^verbatim>\<open>MAX_PLANS\<close> rows, rows of live plans
  are kept, and a live plan with both facts seeds.
\<close>

section \<open>No stage of a pass raises\<close>

lemma rfold_succeeds:
  assumes "I z" and "\<And>z x. x \<in> set xs \<Longrightarrow> I z \<Longrightarrow> \<exists>z'. f z x = Inr z' \<and> I z'"
  shows "\<exists>y. rfold f z xs = Inr y"
  using assms
proof (induction xs arbitrary: z)
  case (Cons x xs)
  then obtain z' where "f z x = Inr z'" "I z'" by (metis list.set_intros(1))
  moreover from this obtain y where "rfold f z' xs = Inr y" using Cons by (metis list.set_intros(2))
  ultimately show ?case by simp
qed simp

definition rows_wf :: "obj \<Rightarrow> bool" where
  "rows_wf plans \<longleftrightarrow> (\<forall>pl row. row_at plans pl = Some row \<longrightarrow> row_wf row)"

lemma rows_wf_evolves:
  assumes "\<And>pl. \<exists>b lps vfs sfs. evolves b lps vfs sfs (row_at plans pl) (row_at plans' pl)" and "rows_wf plans"
  shows "rows_wf plans'"
  unfolding rows_wf_def
proof (intro allI impI)
  fix pl row' assume row': "row_at plans' pl = Some row'"
  from assms(1) [of pl] obtain b lps vfs sfs where "evolves b lps vfs sfs (row_at plans pl) (row_at plans' pl)" by blast
  with row' obtain row where "row_steps lps vfs sfs row row'"
    "row_at plans pl = Some row \<or> (\<exists>p now. row = open_row p now)" unfolding evolves_def by blast
  with assms(2) show "row_wf row'" by (auto simp: rows_wf_def dest: row_steps_wf)
qed

lemma row_wf_started:
  assumes "row_wf row" and "ready row"
  shows "\<exists>tm. started_at rec (dset ''state'' (JStr ''seeding'') row) = Inr tm"
proof -
  from assms obtain v s p0 where "jget row ''checksum_verified_at'' = JFloat v" "jget row ''tracker_seeder_at'' = JFloat s"
    "jget row ''planned_at'' = JFloat p0" by (auto simp: row_wf_def ready_def time_or_null_def is_time_def)
  then show ?thesis
    by (simp add: started_at_def get_or_dset need_num_def num_or_zero_def)
qed

lemma promote_succeeds:
  assumes "rows_wf (tl_plans (fst st))"
  shows "\<exists>st'. promote_one lost opened now st x = Inr st' \<and> rows_wf (tl_plans (fst st'))"
proof -
  have "\<exists>st'. promote_one lost opened now st x = Inr st'"
  proof (cases "row_at (tl_plans (fst st)) x")
    case None
    then show ?thesis by (simp add: promote_one_def row_at_def)
  next
    case (Some row)
    show ?thesis
    proof (cases "ready row")
      case False
      with Some show ?thesis by (auto simp: promote_one_def row_at_def ready_def)
    next
      case True
      from Some assms have "row_wf row" by (simp add: rows_wf_def)
      from row_wf_started [OF this True] obtain tm
        where "started_at (lost \<and> x \<in> set opened) (dset ''state'' (JStr ''seeding'') row) = Inr tm" by blast
      with Some True show ?thesis by (auto simp: promote_one_def row_at_def ready_def Let_def)
    qed
  qed
  then obtain st' where st': "promote_one lost opened now st x = Inr st'" by blast
  then have "rows_wf (tl_plans (fst st'))"
    using rows_wf_evolves [OF _ assms, of "tl_plans (fst st')"] promote_row [OF st'] by blast
  with st' show ?thesis by blast
qed

lemma retirable_succeeds: "row_wf row \<or> row = [] \<Longrightarrow> \<exists>b. retirable row = Inr b"
  by (auto simp: retirable_def member_of_def row_wf_def get_or_def)

lemma stamp_succeeds: "row_wf row \<or> row = [] \<Longrightarrow> \<exists>u. num_or_zero (jget row ''updated_at'') = Inr u"
  by (auto simp: num_or_zero_def row_wf_def is_time_def get_or_def)

lemma entry_wf:
  assumes "dwf plans" and "rows_wf plans" and "kv \<in> set plans"
  shows "as_obj (snd kv) = Some row \<Longrightarrow> row_wf row" and "row_wf (obj_or_empty (snd kv)) \<or> obj_or_empty (snd kv) = []"
proof -
  from assms(1,3) have "dget plans (fst kv) = Some (snd kv)" by (simp add: dwf_dget_iff)
  then have "row_at plans (fst kv) = as_obj (snd kv)" by (simp add: row_at_eq)
  with assms(2) have wf: "as_obj (snd kv) = Some row \<Longrightarrow> row_wf row" for row unfolding rows_wf_def by metis
  then show "as_obj (snd kv) = Some row \<Longrightarrow> row_wf row" .
  show "row_wf (obj_or_empty (snd kv)) \<or> obj_or_empty (snd kv) = []"
    using wf by (auto simp: obj_or_empty_def split: option.split)
qed

lemma retain_succeeds:
  assumes "dwf (tl_plans d)" and "rows_wf (tl_plans d)"
  shows "\<exists>y. retain live now d = Inr y"
  unfolding retain_def
proof (rule rfold_succeeds [where I = "\<lambda>_. True"])
  fix st kv assume kv: "kv \<in> set (tl_plans d)"
  show "\<exists>z'. retain_one live (now - PLAN_RETENTION) st kv = Inr z' \<and> True"
  proof (cases "as_obj (snd kv)")
    case None
    then show ?thesis by (auto simp: retain_one_def Let_def)
  next
    case (Some row)
    with entry_wf(1) [OF assms kv] have "row_wf row" by blast
    with retirable_succeeds [of row] stamp_succeeds [of row] obtain b u
      where "retirable row = Inr b" "num_or_zero (jget row ''updated_at'') = Inr u" by blast
    with Some show ?thesis by (auto simp: retain_one_def Let_def aged_def)
  qed
qed simp

lemma rmap_succeeds: "(\<And>x. x \<in> set xs \<Longrightarrow> \<exists>y. f x = Inr y) \<Longrightarrow> \<exists>ys. rmap f xs = Inr ys"
proof (induction xs)
  case (Cons x xs)
  then obtain y ys where "f x = Inr y" "rmap f xs = Inr ys" by (metis list.set_intros)
  then show ?case by simp
qed simp

lemma keyed_plans:
  assumes "rmap (\<lambda>kv. rbind (evict_key live kv) (\<lambda>k. Inr (k, kv))) plans = Inr keyed"
  shows "map snd keyed = plans" and "e \<in> set keyed \<Longrightarrow> evict_key live (snd e) = Inr (fst e)"
  using assms by (induction plans arbitrary: keyed) (auto simp: rbind_eq_Inr)

lemma bound_succeeds:
  assumes "dwf (tl_plans d)" and "rows_wf (tl_plans d)"
  shows "\<exists>y. bound live d = Inr y"
proof -
  have ret: "\<exists>b. retirable (obj_or_empty (snd kv)) = Inr b" if "kv \<in> set (tl_plans d)" for kv
    by (rule retirable_succeeds [OF entry_wf(2) [OF assms that]])
  have "\<exists>k. evict_key live kv = Inr k" if "kv \<in> set (tl_plans d)" for kv
    using ret [OF that] stamp_succeeds [OF entry_wf(2) [OF assms that]] by (auto simp: evict_key_def evict_class_def)
  then have "\<exists>keyed. rmap (\<lambda>kv. rbind (evict_key live kv) (\<lambda>k. Inr (k, kv))) (tl_plans d) = Inr keyed"
    by (intro rmap_succeeds) (metis rbind_Inr)
  then obtain keyed where k: "rmap (\<lambda>kv. rbind (evict_key live kv) (\<lambda>k. Inr (k, kv))) (tl_plans d) = Inr keyed" by blast
  have "\<exists>y. rfold (evict_one live) d (map snd (take n (sort_key fst keyed))) = Inr y" for n
  proof (rule rfold_succeeds [where I = "\<lambda>_. True"])
    fix z kv assume "kv \<in> set (map snd (take n (sort_key fst keyed)))"
    then obtain e where "e \<in> set (take n (sort_key fst keyed))" "kv = snd e" by auto
    then have "kv \<in> set (map snd keyed)" using in_set_takeD [of e n "sort_key fst keyed"] by simp
    then have "kv \<in> set (tl_plans d)" using keyed_plans(1) [OF k] by simp
    from ret [OF this] show "\<exists>z'. evict_one live z kv = Inr z' \<and> True" by (auto simp: evict_one_def Let_def)
  qed simp
  then show ?thesis using k by (simp add: bound_def Let_def) (metis rbind_Inr)
qed

lemma phases_dwf:
  assumes "dwf (tl_plans (data_of st))"
    and "foldl (open_live now) (tl_plans (data_of st), [], False) (sort_key fst live) = (plans1, opened, dirty1)"
    and "cancel_gone live now (plans1, dirty1) = (plans2, dirty2)"
    and "foldl (latch_verified now) (plans2, dirty2) verified = (plans3, dirty3)"
    and "foldl (latch_seeder now) (plans3, dirty3) seeder = (plans4, dirty4)"
    and "rfold (promote_one lost opened now) ((data_of st)\<lparr>tl_plans := plans4\<rparr>, []) (sort (dkeys plans4)) = Inr (d5, promoted)"
    and "retain lv now d5 = Inr (d6, removed)"
  shows "dwf (tl_plans d5)" and "dwf (tl_plans d6)"
proof -
  have "dwf plans1" using fold_dwf(1) [of "(tl_plans (data_of st), False)" now "([], False)"] assms(1,2) by (metis fst_conv)
  then have "dwf plans2" using cancel_gone_dwf [of "(plans1, dirty1)" live now] assms(3) by simp
  then have "dwf plans3" using fold_dwf(2) [of "(plans2, dirty2)" now verified] assms(4) by simp
  then have "dwf plans4" using fold_dwf(3) [of "(plans3, dirty3)" now seeder] assms(5) by simp
  then show 5: "dwf (tl_plans d5)" using rfold_invariant [OF assms(6), where P = "\<lambda>s. dwf (tl_plans (fst s))"] promote_dwf by fastforce
  then show "dwf (tl_plans d6)"
    using rfold_invariant [OF assms(7) [unfolded retain_def], where P = "\<lambda>s. dwf (tl_plans (fst s))"] retain_dwf by fastforce
qed

lemma observe_succeeds:
  assumes "dwf (tl_plans (data_of st))" and "rows_wf (tl_plans (data_of st))"
  shows "(\<exists>st' promoted. observe io live verified seeder now st = (st', Inr promoted)) \<or>
    \<not> io \<and> observe io live verified seeder now st = (fst (read_doc st), Inl OSFailure)"
proof -
  obtain plans1 opened dirty1 where 1: "foldl (open_live now) (tl_plans (data_of st), [], False) (sort_key fst live) = (plans1, opened, dirty1)"
    by (cases "foldl (open_live now) (tl_plans (data_of st), [], False) (sort_key fst live)")
  obtain plans2 dirty2 where 2: "cancel_gone live now (plans1, dirty1) = (plans2, dirty2)" by fastforce
  obtain plans3 dirty3 where 3: "foldl (latch_verified now) (plans2, dirty2) verified = (plans3, dirty3)" by fastforce
  obtain plans4 dirty4 where 4: "foldl (latch_seeder now) (plans3, dirty3) seeder = (plans4, dirty4)" by fastforce
  have "grows (facts live pl) {} {} (row_at (tl_plans (data_of st)) pl) (row_at plans1 pl)" for pl
    by (rule open_phase [OF 1]) simp
  then have "rows_wf plans1" unfolding grows_def by (intro rows_wf_evolves [OF _ assms(2)]) blast
  then have "rows_wf plans2" by (rule rows_wf_evolves [rotated]) (metis 2 cancel_phase fst_conv)
  then have "rows_wf plans3" by (rule rows_wf_evolves [rotated]) (metis 3 verified_phase fst_conv)
  then have wf4: "rows_wf plans4" by (rule rows_wf_evolves [rotated]) (metis 4 seeder_phase fst_conv)
  have "dwf plans1" using fold_dwf(1) [of "(tl_plans (data_of st), False)" now "([], False)"] 1 assms(1) by (metis fst_conv)
  then have "dwf plans2" using cancel_gone_dwf [of "(plans1, dirty1)" live now] 2 by simp
  then have "dwf plans3" using fold_dwf(2) [of "(plans2, dirty2)" now verified] 3 by simp
  then have dwf4: "dwf plans4" using fold_dwf(3) [of "(plans3, dirty3)" now seeder] 4 by simp
  let ?lost = "snd (snd (read_doc st))"
  obtain d5 promoted where 5: "rfold (promote_one ?lost opened now) ((data_of st)\<lparr>tl_plans := plans4\<rparr>, []) (sort (dkeys plans4)) = Inr (d5, promoted)"
    using rfold_succeeds [where I = "\<lambda>s. rows_wf (tl_plans (fst s))" and f = "promote_one ?lost opened now"
        and z = "((data_of st)\<lparr>tl_plans := plans4\<rparr>, [])" and xs = "sort (dkeys plans4)"] promote_succeeds wf4
    by fastforce
  have "evolves False {} {} {} (row_at plans4 pl) (row_at (tl_plans d5) pl)" for pl using promote_phase [OF 5] by simp
  then have wf5: "rows_wf (tl_plans d5)" by (intro rows_wf_evolves [OF _ wf4]) blast
  have dwf5: "dwf (tl_plans d5)" using rfold_invariant [OF 5, where P = "\<lambda>s. dwf (tl_plans (fst s))"] promote_dwf dwf4 by fastforce
  obtain d6 removed where 6: "retain (set (dkeys live)) now d5 = Inr (d6, removed)"
    using retain_succeeds [OF dwf5 wf5] by fastforce
  have wf6: "rows_wf (tl_plans d6)" by (rule rows_wf_evolves [OF _ wf5]) (use retain_phase [OF 6] in blast)
  have dwf6: "dwf (tl_plans d6)"
    using rfold_invariant [OF 6 [unfolded retain_def], where P = "\<lambda>s. dwf (tl_plans (fst s))"] retain_dwf dwf5 by fastforce
  obtain d7 evicted where 7: "bound (set (dkeys live)) d6 = Inr (d7, evicted)"
    using bound_succeeds [OF dwf6 wf6] by fastforce
  have "observe io live verified seeder now st = save io (dirty4 \<or> promoted \<noteq> [] \<or> removed \<or> evicted) d7 promoted (fst (read_doc st))"
    unfolding observe_def
    by (subst read_doc_eq) (simp add: Let_def 1 2 3 4 5 6 [unfolded list.set_map] 7 [unfolded list.set_map])
  then show ?thesis by (auto simp: save_def write_doc_def)
qed

section \<open>A pass that writes nothing changes nothing\<close>

lemma dset_same: "dget d k = Some v \<Longrightarrow> dset k v d = d"
  by (induction d) auto

lemma row_at_dset_same: "row_at plans pl = Some row \<Longrightarrow> dset pl (JObj row) plans = plans"
  by (rule dset_same) (auto simp: row_at_eq split: option.splits)

lemma reseat_clean: "\<not> snd (reseat f v rc) \<Longrightarrow> reseat f v rc = rc"
  by (auto simp: reseat_def split: if_splits)

lemma reseated_clean: "\<not> snd (reseated row p) \<Longrightarrow> fst (reseated row p) = row"
  unfolding reseated_def by (metis fst_conv reseat_clean)

lemma refresh_clean: "\<not> snd (refresh row p) \<Longrightarrow> fst (refresh row p) = row"
  unfolding refresh_def reseated_def [symmetric] using reseated_clean [of row p]
  by (auto split: prod.splits option.splits if_splits)

lemma open_live_clean:
  assumes "\<not> snd (snd (open_live now st kv))"
  shows "fst (open_live now st kv) = fst st" and "\<not> snd (snd st)"
proof -
  obtain plans opened dirty x p where st: "st = (plans, opened, dirty)" "kv = (x, p)" by (cases st, cases kv)
  show "fst (open_live now st kv) = fst st" "\<not> snd (snd st)"
    using assms refresh_clean [of "the (row_at plans x)" p] row_at_dset_same [of plans x]
    by (auto simp: st open_live_def row_at_def [symmetric] split: option.splits prod.splits if_splits)
qed

lemma foldl_clean:
  assumes "\<not> D (foldl f s xs)" and "\<And>s x. \<not> D (f s x) \<Longrightarrow> fst (f s x) = fst s \<and> \<not> D s"
  shows "fst (foldl f s xs) = fst s \<and> \<not> D s"
  using assms(1)
proof (induction xs arbitrary: s)
  case (Cons x xs)
  from Cons.IH [of "f s x"] Cons.prems have "fst (foldl f (f s x) xs) = fst (f s x)" "\<not> D (f s x)" by auto
  with assms(2) [of s x] show ?case by simp
qed simp

lemma cancel_gone_clean:
  assumes "\<not> snd (cancel_gone live now st)"
  shows "fst (cancel_gone live now st) = fst st \<and> \<not> snd st"
proof -
  have same: "\<not> snd (cancel_row live now kv) \<Longrightarrow> fst (cancel_row live now kv) = kv" for kv
    by (auto simp: cancel_row_def split: option.splits if_splits)
  from assms have "\<forall>kv\<in>set (fst st). \<not> snd (cancel_row live now kv)" by (auto simp: cancel_gone_def list_ex_iff)
  with same have "map (fst \<circ> cancel_row live now) (fst st) = map id (fst st)"
    by (intro map_cong refl) (simp only: comp_def id_apply, blast)
  with assms show ?thesis by (simp add: cancel_gone_def)
qed

lemma latch_clean:
  "\<not> snd (latch_verified now st kv) \<Longrightarrow> fst (latch_verified now st kv) = fst st \<and> \<not> snd st"
  "\<not> snd (latch_seeder now st kw) \<Longrightarrow> fst (latch_seeder now st kw) = fst st \<and> \<not> snd st"
  by (auto simp: latch_verified_def latch_seeder_def split: option.splits if_splits)

lemma promote_clean:
  assumes "rfold (promote_one lost opened now) st xs = Inr st'" and "snd st' = []"
  shows "st' = st"
  using assms
proof (induction xs arbitrary: st)
  case (Cons x xs)
  from Cons.prems(1) obtain t where t: "promote_one lost opened now st x = Inr t" "rfold (promote_one lost opened now) t xs = Inr st'"
    by (auto simp: rbind_eq_Inr)
  with Cons have "st' = t" by blast
  with t(1) Cons.prems(2) show ?case by (cases rule: promote_one_cases) auto
qed simp

lemma retain_clean:
  assumes "retain live now d = Inr (d', b)"
  shows "\<not> b \<Longrightarrow> d' = d"
proof -
  have "rfold (retain_one live cut) s xs = Inr s' \<Longrightarrow> \<not> snd s' \<Longrightarrow> s' = s" for cut s s' xs
  proof (induction xs arbitrary: s)
    case (Cons x xs)
    from Cons.prems(1) obtain t where t: "retain_one live cut s x = Inr t" "rfold (retain_one live cut) t xs = Inr s'"
      by (auto simp: rbind_eq_Inr)
    with Cons have "s' = t" by blast
    with t(1) Cons.prems(2) show ?case
      by (auto simp: retain_one_def Let_def rbind_eq_Inr split: option.splits if_splits)
  qed simp
  from this [OF assms [unfolded retain_def]] show "\<not> b \<Longrightarrow> d' = d" by simp
qed

text \<open>The document a pass leaves is the one it computed, up to the canonical form of a written file.\<close>

lemma observe_result:
  assumes "observe io live verified seeder now st = (st', Inr promoted)"
  obtains plans1 opened dirty1 plans2 dirty2 plans3 dirty3 plans4 dirty4 d5 d6 removed d7 evicted where
      "foldl (open_live now) (tl_plans (data_of st), [], False) (sort_key fst live) = (plans1, opened, dirty1)"
      "cancel_gone live now (plans1, dirty1) = (plans2, dirty2)"
      "foldl (latch_verified now) (plans2, dirty2) verified = (plans3, dirty3)"
      "foldl (latch_seeder now) (plans3, dirty3) seeder = (plans4, dirty4)"
      "rfold (promote_one (snd (snd (read_doc st))) opened now) ((data_of st)\<lparr>tl_plans := plans4\<rparr>, []) (sort (dkeys plans4)) = Inr (d5, promoted)"
      "retain (set (dkeys live)) now d5 = Inr (d6, removed)"
      "bound (set (dkeys live)) d6 = Inr (d7, evicted)"
      "tl_plans (data_of st') = canon_rows (tl_plans d7) \<or> tl_plans (data_of st') = tl_plans d7"
  using assms
proof (cases rule: observe_cases)
  case (ok plans1 opened dirty1 plans2 dirty2 plans3 dirty3 plans4 dirty4 d5 promoted' d6 removed d7 evicted)
  have saved: "data_of st' = data_of (fst (save io (dirty4 \<or> promoted' \<noteq> [] \<or> removed \<or> evicted) d7 promoted' (fst (read_doc st))))"
    "snd (save io (dirty4 \<or> promoted' \<noteq> [] \<or> removed \<or> evicted) d7 promoted' (fst (read_doc st))) = Inr promoted"
    using ok(8) by (metis fst_conv snd_conv)+
  then have p: "promoted' = promoted" "dirty4 \<or> promoted' \<noteq> [] \<or> removed \<or> evicted \<Longrightarrow> io"
    by (auto simp: save_result split: if_splits)
  have "tl_plans (data_of st') = canon_rows (tl_plans d7) \<or> tl_plans (data_of st') = tl_plans d7"
  proof (cases "dirty4 \<or> promoted' \<noteq> [] \<or> removed \<or> evicted")
    case True
    with saved(1) p(2) show ?thesis by simp
  next
    case False
    then have "plans4 = plans3" "\<not> dirty3"
      using foldl_clean [of snd "latch_seeder now" "(plans3, dirty3)" seeder] latch_clean(2) by (auto simp: ok(4))
    moreover from this have "plans3 = plans2" "\<not> dirty2"
      using foldl_clean [of snd "latch_verified now" "(plans2, dirty2)" verified] latch_clean(1) by (auto simp: ok(3))
    moreover from this have "plans2 = plans1" "\<not> dirty1"
      using cancel_gone_clean [of live now "(plans1, dirty1)"] by (auto simp: ok(2))
    moreover from this have "plans1 = tl_plans (data_of st)"
      using foldl_clean [of "snd \<circ> snd" "open_live now" "(tl_plans (data_of st), [], False)" "sort_key fst live"] open_live_clean
      by (auto simp: ok(1))
    moreover have "d5 = (data_of st)\<lparr>tl_plans := plans4\<rparr>" using promote_clean [OF ok(5)] False by simp
    moreover have "d6 = d5" using retain_clean [OF ok(6)] False by simp
    moreover have "d7 = d6" using ok(7) False by (cases rule: bound_cases) auto
    ultimately show ?thesis using saved(1) False by simp
  qed
  with ok that p(1) show ?thesis by blast
qed auto

section \<open>The bound and the rows of live plans\<close>

lemma evict_key_live:
  assumes "evict_key live kv = Inr k"
  shows "fst k \<le> 2" and "fst k = 2 \<longleftrightarrow> fst kv \<in> live"
  using assms by (auto simp: evict_key_def evict_class_def rbind_eq_Inr split: if_splits)

lemma length_filter_keys:
  assumes "dwf d" and "K \<subseteq> set (dkeys d)"
  shows "length (filter (\<lambda>(k, v). k \<notin> K) d) + card K = length d"
proof -
  have d: "distinct (dkeys d)" using assms(1) by (simp add: dwf_def)
  have "K = set (filter (\<lambda>k. k \<in> K) (dkeys d))" using assms(2) by auto
  then have "card K = length (filter (\<lambda>k. k \<in> K) (dkeys d))"
    using distinct_card [of "filter (\<lambda>k. k \<in> K) (dkeys d)"] distinct_filter [OF d, of "\<lambda>k. k \<in> K"] by argo
  also have "\<dots> = length (filter (\<lambda>(k, v). k \<in> K) d)" by (simp add: filter_map comp_def case_prod_unfold)
  finally show ?thesis
    using sum_length_filter_compl [of "\<lambda>(k, v). k \<in> K" d] by (simp add: case_prod_unfold)
qed

lemma distinct_split:
  assumes "distinct (map f xs)"
  shows "card (f ` set (take n xs)) = length (take n xs)" "card (f ` set (drop n xs)) = length (drop n xs)"
    "f ` set (take n xs) \<inter> f ` set (drop n xs) = {}"
proof -
  have "map f (take n xs) @ map f (drop n xs) = map f xs" by (metis append_take_drop_id map_append)
  with assms have d: "distinct (map f (take n xs) @ map f (drop n xs))" by simp
  then show "card (f ` set (take n xs)) = length (take n xs)" "card (f ` set (drop n xs)) = length (drop n xs)"
    by (metis distinct_append distinct_card length_map list.set_map)+
  from d show "f ` set (take n xs) \<inter> f ` set (drop n xs) = {}" unfolding distinct_append list.set_map by blast
qed

lemma bound_effect:
  assumes "bound (set (dkeys live)) d = Inr (d', b)" and "dwf (tl_plans d)"
  shows "int (length (tl_plans d')) \<le> MAX_PLANS"
    and "int (length live) \<le> MAX_PLANS \<Longrightarrow> pl \<in> set (dkeys live) \<Longrightarrow> row_at (tl_plans d') pl = row_at (tl_plans d) pl"
proof -
  show "int (length (tl_plans d')) \<le> MAX_PLANS" and
    "int (length live) \<le> MAX_PLANS \<Longrightarrow> pl \<in> set (dkeys live) \<Longrightarrow> row_at (tl_plans d') pl = row_at (tl_plans d) pl"
    using assms(1)
  proof (atomize (full), cases rule: bound_cases)
    case fits
    then show "int (length (tl_plans d')) \<le> MAX_PLANS \<and>
      (int (length live) \<le> MAX_PLANS \<longrightarrow> pl \<in> set (dkeys live) \<longrightarrow> row_at (tl_plans d') pl = row_at (tl_plans d) pl)" by simp
  next
    case (evicts keyed)
    let ?S = "sort_key fst keyed" and ?n = "nat (int (length (tl_plans d)) - MAX_PLANS)"
    let ?K = "(fst \<circ> snd) ` set (take ?n ?S)"
    have ms: "map snd keyed = tl_plans d" by (rule keyed_plans(1) [OF evicts(3)])
    then have "map (fst \<circ> snd) keyed = dkeys (tl_plans d)" by (metis map_map)
    then have "distinct (map (fst \<circ> snd) keyed)" using assms(2) by (simp add: dwf_def)
    then have dist: "distinct (map (fst \<circ> snd) ?S)"
      by (metis distinct_map distinct_sort set_sort)
    have len: "length ?S = length (tl_plans d)" using ms by (metis length_map length_sort)
    have sub: "?K \<subseteq> set (dkeys (tl_plans d))" using ms set_take_subset [of ?n ?S] by (force simp flip: ms)
    have "card ?K = length (take ?n ?S)" by (rule distinct_split(1) [OF dist])
    then have cK: "card ?K = ?n" using len evicts(1) by (simp add: MAX_PLANS_def)
    have "length (tl_plans d') + card ?K = length (tl_plans d)"
      unfolding evicts(4) by (rule length_filter_keys [OF assms(2) sub])
    then have 1: "int (length (tl_plans d')) \<le> MAX_PLANS" using cK by (simp add: MAX_PLANS_def)
    have "pl \<notin> ?K" if small: "int (length live) \<le> MAX_PLANS" and pl: "pl \<in> set (dkeys live)"
    proof
      assume "pl \<in> ?K"
      then obtain e where e: "e \<in> set (take ?n ?S)" "fst (snd e) = pl" by auto
      have cls: "x \<in> set ?S \<Longrightarrow> fst (fst x) \<le> 2 \<and> (fst (fst x) = 2 \<longleftrightarrow> fst (snd x) \<in> set (dkeys live))" for x
        using evict_key_live [OF keyed_plans(2) [OF evicts(3)], of x] by simp
      have "fst (snd x) \<in> set (dkeys live)" if x: "x \<in> set (drop ?n ?S)" for x
      proof -
        have "sorted (map fst (take ?n ?S @ drop ?n ?S))" by (simp del: take_append drop_append)
        then have "fst e \<le> fst x" using e(1) x unfolding map_append sorted_append by simp
        then have "fst (fst e) \<le> fst (fst x)" by (auto simp: less_eq_prod_def)
        with cls [of e] cls [of x] e pl x show ?thesis by (metis dual_order.antisym in_set_dropD in_set_takeD)
      qed
      then have "(fst \<circ> snd) ` set (drop ?n ?S) \<subseteq> set (dkeys live) - {pl}"
        using distinct_split(3) [OF dist, of ?n] e by auto
      then have "card ((fst \<circ> snd) ` set (drop ?n ?S)) \<le> card (set (dkeys live) - {pl})" by (intro card_mono) auto
      also have "\<dots> < card (set (dkeys live))" using pl by (intro psubset_card_mono) auto
      also have "\<dots> \<le> length live" by (metis card_length length_map)
      finally have "card ((fst \<circ> snd) ` set (drop ?n ?S)) < length live" .
      moreover have "card ((fst \<circ> snd) ` set (drop ?n ?S)) = length (drop ?n ?S)" by (rule distinct_split(2) [OF dist])
      ultimately show False using small len evicts(1) by (simp add: MAX_PLANS_def)
    qed
    with 1 show "int (length (tl_plans d')) \<le> MAX_PLANS \<and>
      (int (length live) \<le> MAX_PLANS \<longrightarrow> pl \<in> set (dkeys live) \<longrightarrow> row_at (tl_plans d') pl = row_at (tl_plans d) pl)"
      unfolding evicts(4) row_at_filter by simp
  qed
qed

section \<open>Progress of a live plan\<close>

definition live_row :: "bool \<Rightarrow> bool \<Rightarrow> bool \<Rightarrow> obj option \<Rightarrow> bool" where
  \<comment> \<open>an open row with the latches (and the state) asked for\<close>
  "live_row V S D x \<longleftrightarrow>
     (\<exists>row. x = Some row \<and> row_wf row \<and> jget row ''state'' \<noteq> JStr ''cancelled'' \<and>
        (V \<longrightarrow> jget row ''checksum_verified_at'' \<noteq> JNull) \<and> (S \<longrightarrow> jget row ''tracker_seeder_at'' \<noteq> JNull) \<and>
        (D \<longrightarrow> jget row ''state'' = JStr ''seeding''))"

lemma live_row_evolves:
  assumes "evolves b lps vfs sfs old new" and "lps \<noteq> {}" and "live_row V S D old" and "new \<noteq> None"
  shows "live_row V S D new"
proof -
  from assms(3) obtain row where row: "old = Some row" "row_wf row" "jget row ''state'' \<noteq> JStr ''cancelled''"
    and VSD: "V \<longrightarrow> jget row ''checksum_verified_at'' \<noteq> JNull" "S \<longrightarrow> jget row ''tracker_seeder_at'' \<noteq> JNull"
      "D \<longrightarrow> jget row ''state'' = JStr ''seeding''" unfolding live_row_def by blast
  from assms(1,4) row(1) obtain row' where row': "new = Some row'" "row_steps lps vfs sfs row row'" by (auto simp: evolves_def)
  have "row_wf row'" "keeps row row'" using row_steps_wf [OF row'(2) row(2)] by auto
  moreover have "jget row' ''state'' \<noteq> JStr ''cancelled''" by (rule row_steps_open [OF row'(2) assms(2) row(3)])
  ultimately show ?thesis using row'(1) VSD unfolding live_row_def keeps_def by simp
qed

lemma foldl_establish:
  assumes "x \<in> set xs" and "I z" and "\<And>z y. y \<in> set xs \<Longrightarrow> I z \<Longrightarrow> I (f z y)" and "\<And>z. I z \<Longrightarrow> Q (f z x)"
    and "\<And>z y. y \<in> set xs \<Longrightarrow> I z \<Longrightarrow> Q z \<Longrightarrow> Q (f z y)"
  shows "Q (foldl f z xs)"
proof -
  have keep: "set ys \<subseteq> set xs \<Longrightarrow> I z \<Longrightarrow> Q z \<Longrightarrow> Q (foldl f z ys)" for ys z
    using assms(3,5) by (induction ys arbitrary: z) auto
  have pre: "set ys \<subseteq> set xs \<Longrightarrow> I z \<Longrightarrow> I (foldl f z ys)" for ys z
    using assms(3) by (induction ys arbitrary: z) auto
  from assms(1) obtain us vs where xs: "xs = us @ x # vs" by (meson split_list)
  have "I (foldl f z us)" by (rule pre) (use assms(2) xs in auto)
  then have "I (f (foldl f z us) x)" "Q (f (foldl f z us) x)" using assms(3,4) xs by auto
  then have "Q (foldl f (f (foldl f z us) x) vs)" by (intro keep) (use xs in auto)
  then show ?thesis by (simp add: xs)
qed

lemma rfold_establish:
  assumes "rfold f z xs = Inr z'" and "x \<in> set xs" and "I z" and "\<And>z y t. f z y = Inr t \<Longrightarrow> I z \<Longrightarrow> I t"
    and "\<And>z t. f z x = Inr t \<Longrightarrow> I z \<Longrightarrow> Q t" and "\<And>z y t. f z y = Inr t \<Longrightarrow> Q z \<Longrightarrow> Q t"
  shows "Q z'"
proof -
  have keep: "rfold f z ys = Inr t \<Longrightarrow> Q z \<Longrightarrow> Q t" for ys z t
    using assms(6) by (induction ys arbitrary: z) (auto simp: rbind_eq_Inr)
  have pre: "rfold f z ys = Inr t \<Longrightarrow> I z \<Longrightarrow> I t" for ys z t
    using assms(4) by (induction ys arbitrary: z) (auto simp: rbind_eq_Inr)
  from assms(2) obtain us vs where xs: "xs = us @ x # vs" by (meson split_list)
  from assms(1) obtain a b where "rfold f z us = Inr a" "f a x = Inr b" "rfold f b vs = Inr z'"
    by (auto simp: xs rfold_append rbind_eq_Inr)
  with assms(3,5) pre keep show ?thesis by blast
qed

lemma open_live_establish:
  assumes "rows_wf (fst st)" and "p \<in> lps"
  shows "live_row False False False (row_at (fst (open_live now st (pl, p))) pl)"
proof -
  obtain plans opened dirty where st: "st = (plans, opened, dirty)" by (cases st)
  show ?thesis
  proof (cases "row_at plans pl")
    case None
    then show ?thesis
      by (simp add: st open_live_def row_at_def [symmetric] live_row_def) (simp add: open_row_def get_or_def)
  next
    case (Some row)
    then have wf: "row_wf row" using assms(1) by (simp add: st rows_wf_def)
    let ?r = "fst (refresh row p)"
    have 1: "row_wf ?r" using row_step_wf [OF refreshed [OF assms(2)] wf] by blast
    have "jget ?r ''state'' = JStr ''cancelled'' \<Longrightarrow> row_wf (touch ''state'' (JStr ''planned'') now ?r)"
      using row_step_wf [OF reopened [OF assms(2)] 1] by blast
    with 1 show ?thesis using Some
      by (simp add: st open_live_def row_at_def [symmetric] live_row_def split_beta) (simp add: touch_def get_or_dset)
  qed
qed

lemma row_at_dkeys: "row_at plans pl = Some row \<Longrightarrow> pl \<in> set (dkeys plans)"
  by (metis dget_None_iff option.distinct(1) option.simps(4) row_at_eq)

lemma latch_present:
  "row_at (fst st) pl \<noteq> None \<Longrightarrow> row_at (fst (latch_verified now st kv)) pl \<noteq> None"
  "row_at (fst st) pl \<noteq> None \<Longrightarrow> row_at (fst (latch_seeder now st kw)) pl \<noteq> None"
  by (auto simp: latch_verified_def latch_seeder_def split: option.split)

lemma cancel_present:
  "row_at plans pl \<noteq> None \<Longrightarrow> row_at (fst (cancel_gone live now (plans, d))) pl \<noteq> None"
  unfolding cancel_gone_def fst_conv
  by (subst row_at_map) (auto simp: row_at_eq cancel_row_other cancel_row_def split: option.splits)

lemma latch_verified_establish:
  assumes "live_row False False False (row_at (fst st) pl)" and "0 \<le> vf_verified_at f" and "f \<in> vfs"
  shows "live_row True False False (row_at (fst (latch_verified now st (pl, f))) pl)"
proof -
  from assms(1) obtain row where row: "row_at (fst st) pl = Some row" "row_wf row" "jget row ''state'' \<noteq> JStr ''cancelled''"
    by (auto simp: live_row_def)
  have nn: "nonneg (vf_verified_at f) = Some (vf_verified_at f)" using assms(2) by (simp add: nonneg_def)
  have wf: "jget row ''checksum_verified_at'' = JNull \<Longrightarrow> row_wf (verified_row f (vf_verified_at f) now row)"
    using row_step_wf [OF row_step.verified [OF assms(3) nn] row(2)] by blast
  show ?thesis
  proof (cases "jget row ''checksum_verified_at'' = JNull")
    case True
    then show ?thesis
      using wf row(3) by (simp add: latch_verified_def row_at_def [symmetric] row(1) nn live_row_def verified_row_def [symmetric])
        (simp add: verified_row_def get_or_dset)
  next
    case False
    then show ?thesis using row by (simp add: latch_verified_def row_at_def [symmetric] nn live_row_def)
  qed
qed

lemma latch_seeder_establish:
  assumes "live_row V False False (row_at (fst st) pl)" and "0 \<le> s" and "s \<in> sfs"
  shows "live_row V True False (row_at (fst (latch_seeder now st (pl, s))) pl)"
proof -
  from assms(1) obtain row where row: "row_at (fst st) pl = Some row" "row_wf row" "jget row ''state'' \<noteq> JStr ''cancelled''"
    "V \<longrightarrow> jget row ''checksum_verified_at'' \<noteq> JNull" unfolding live_row_def by blast
  have nn: "nonneg s = Some s" using assms(2) by (simp add: nonneg_def)
  have wf: "jget row ''tracker_seeder_at'' = JNull \<Longrightarrow> row_wf (touch ''tracker_seeder_at'' (JFloat s) now row)"
    using row_step_wf [OF row_step.seeder [OF assms(3) nn] row(2)] by blast
  show ?thesis
  proof (cases "jget row ''tracker_seeder_at'' = JNull")
    case True
    then show ?thesis
      using wf row(3,4) by (simp add: latch_seeder_def row_at_def [symmetric] row(1) nn live_row_def) (simp add: touch_def get_or_dset)
  next
    case False
    then show ?thesis using row by (simp add: latch_seeder_def row_at_def [symmetric] nn live_row_def)
  qed
qed

lemma promote_present:
  assumes "promote_one lost opened now st x = Inr st'"
  shows "row_at (tl_plans (fst st)) pl \<noteq> None \<Longrightarrow> row_at (tl_plans (fst st')) pl \<noteq> None"
  using assms by (cases rule: promote_one_cases) auto

lemma promote_establish:
  assumes "promote_one lost opened now st pl = Inr st'" and "live_row True True False (row_at (tl_plans (fst st)) pl)"
  shows "live_row True True True (row_at (tl_plans (fst st')) pl)"
proof -
  from assms(2) obtain row where row: "row_at (tl_plans (fst st)) pl = Some row" "row_wf row" "jget row ''state'' \<noteq> JStr ''cancelled''"
    "jget row ''checksum_verified_at'' \<noteq> JNull" "jget row ''tracker_seeder_at'' \<noteq> JNull" unfolding live_row_def by blast
  from assms(1) show ?thesis
  proof (cases rule: promote_one_cases)
    case skip
    from skip(2) [OF row(1)] row have "jget row ''state'' = JStr ''seeding''" by (auto simp: ready_def row_wf_def)
    with row skip(1) show ?thesis by (simp add: live_row_def)
  next
    case (promote r row')
    with row(1) have "r = row" by simp
    then have "row_wf row'" "keeps row row'" using row_step_wf [OF promote(5)] row(2) by auto
    with promote row show ?thesis by (simp add: live_row_def keeps_def)
  qed
qed

lemma retain_present:
  assumes "retain live now d = Inr (d', b)" and "pl \<in> live" and "row_at (tl_plans d) pl \<noteq> None" and "dwf (tl_plans d)"
  shows "row_at (tl_plans d') pl = row_at (tl_plans d) pl"
proof -
  have "retain_one live cut s kv = Inr t \<Longrightarrow> kv \<in> set (tl_plans d) \<Longrightarrow> row_at (tl_plans (fst t)) pl = row_at (tl_plans (fst s)) pl" for cut s t kv
  proof (cases "fst kv = pl")
    case True
    moreover assume "kv \<in> set (tl_plans d)"
    ultimately have "dget (tl_plans d) pl = Some (snd kv)" using assms(4) by (metis dwf_dget_iff prod.collapse)
    then have "as_obj (snd kv) = row_at (tl_plans d) pl" by (simp add: row_at_eq)
    with assms(2,3) True show "retain_one live cut s kv = Inr t \<Longrightarrow> ?thesis" by (auto simp: retain_one_def Let_def)
  qed (auto simp: retain_one_def Let_def rbind_eq_Inr split: option.splits if_splits)
  then have "rfold (retain_one live cut) s xs = Inr t \<Longrightarrow> set xs \<subseteq> set (tl_plans d) \<Longrightarrow>
      row_at (tl_plans (fst t)) pl = row_at (tl_plans (fst s)) pl" for cut s t xs
    by (induction xs arbitrary: s) (auto simp: rbind_eq_Inr)
  from this [OF assms(1) [unfolded retain_def]] show ?thesis by simp
qed

lemma live_row_present: "live_row A B C x \<Longrightarrow> x \<noteq> None"
  by (auto simp: live_row_def)

lemma open_progress:
  assumes "rows_wf (fst s)" and "(pl, p) \<in> set live"
  shows "live_row False False False (row_at (fst (foldl (open_live now) s (sort_key fst live))) pl)"
proof (rule foldl_establish [where x = "(pl, p)" and I = "\<lambda>s. rows_wf (fst s)"])
  have lps: "facts live pl \<noteq> {}" using assms(2) by blast
  have grow: "grows (facts live x) {} {} (row_at (fst z) x) (row_at (fst (open_live now z y)) x)"
    if "y \<in> set (sort_key fst live)" for z y x
    using open_live_grows [of y live] that by simp
  show "rows_wf (fst (open_live now z y))" if "y \<in> set (sort_key fst live)" "rows_wf (fst z)" for z y
    using rows_wf_evolves [OF _ that(2)] grow [OF that(1), of _ z] unfolding grows_def by blast
  show "live_row False False False (row_at (fst (open_live now z (pl, p))) pl)" if "rows_wf (fst z)" for z
    by (rule open_live_establish [OF that, of _ UNIV]) blast
  show "live_row False False False (row_at (fst (open_live now z y)) pl)"
    if "y \<in> set (sort_key fst live)" "rows_wf (fst z)" "live_row False False False (row_at (fst z) pl)" for z y
    using grow [OF that(1), of pl z] live_row_evolves [OF _ lps that(3)] live_row_present [OF that(3)]
    unfolding grows_def by blast
qed (use assms in auto)

lemma verified_progress:
  assumes "live_row False False False (row_at (fst s) pl)"
    and "V \<Longrightarrow> \<exists>f. (pl, f) \<in> set verified \<and> 0 \<le> vf_verified_at f"
  shows "live_row V False False (row_at (fst (foldl (latch_verified now) s verified)) pl)"
proof (cases V)
  case True
  have keep: "live_row A B C (row_at (fst (latch_verified now z y)) pl)"
    if "y \<in> set verified" "live_row A B C (row_at (fst z) pl)" for A B C z y
    by (rule live_row_evolves [OF latch_verified_row [OF that(1), of UNIV] _ that(2) latch_present(1) [OF live_row_present [OF that(2)]]]) simp
  from True obtain f where f: "(pl, f) \<in> set verified" "0 \<le> vf_verified_at f" using assms(2) by blast
  show ?thesis
    by (rule foldl_establish [where x = "(pl, f)" and I = "\<lambda>s. live_row False False False (row_at (fst s) pl)"])
      (use f assms(1) True keep latch_verified_establish [where vfs = UNIV] in auto)
next
  case False
  have "row_at (fst (foldl (latch_verified now) s verified)) pl \<noteq> None"
    by (rule foldl_keeps [where P = "\<lambda>s. row_at (fst s) pl \<noteq> None"])
      (use live_row_present [OF assms(1)] latch_present(1) in blast)+
  from live_row_evolves [OF verified_phase [of UNIV] _ assms(1) this] False show ?thesis by simp
qed

lemma seeder_progress:
  assumes "live_row V False False (row_at (fst z) pl)" and "S \<Longrightarrow> \<exists>s. (pl, s) \<in> set seeder \<and> 0 \<le> s"
  shows "live_row V S False (row_at (fst (foldl (latch_seeder now) z seeder)) pl)"
proof (cases S)
  case True
  have keep: "live_row A B C (row_at (fst (latch_seeder now z y)) pl)"
    if "y \<in> set seeder" "live_row A B C (row_at (fst z) pl)" for A B C z y
    by (rule live_row_evolves [OF latch_seeder_row [OF that(1), of UNIV] _ that(2) latch_present(2) [OF live_row_present [OF that(2)]]]) simp
  from True obtain s where s: "(pl, s) \<in> set seeder" "0 \<le> s" using assms(2) by blast
  show ?thesis
    by (rule foldl_establish [where x = "(pl, s)" and I = "\<lambda>s. live_row V False False (row_at (fst s) pl)"])
      (use s assms(1) True keep latch_seeder_establish [where sfs = UNIV] in auto)
next
  case False
  have "row_at (fst (foldl (latch_seeder now) z seeder)) pl \<noteq> None"
    by (rule foldl_keeps [where P = "\<lambda>s. row_at (fst s) pl \<noteq> None"])
      (use live_row_present [OF assms(1)] latch_present(2) in blast)+
  from live_row_evolves [OF seeder_phase [of UNIV] _ assms(1) this] False show ?thesis by simp
qed

lemma promote_progress:
  assumes "rfold (promote_one lost opened now) z xs = Inr z'" and "pl \<in> set xs"
    and "live_row V S False (row_at (tl_plans (fst z)) pl)"
  shows "live_row V S (V \<and> S) (row_at (tl_plans (fst z')) pl)"
proof -
  have keep: "live_row A B C (row_at (tl_plans (fst t)) pl)"
    if "promote_one lost opened now s y = Inr t" "live_row A B C (row_at (tl_plans (fst s)) pl)" for A B C s y t
    by (rule live_row_evolves [OF promote_row [OF that(1), of UNIV] _ that(2) promote_present [OF that(1) live_row_present [OF that(2)]]]) simp
  show ?thesis
  proof (cases "V \<and> S")
    case True
    have "live_row True True True (row_at (tl_plans (fst z')) pl)"
      by (rule rfold_establish [OF assms(1,2), where I = "\<lambda>s. live_row True True False (row_at (tl_plans (fst s)) pl)"])
        (use True assms(3) keep promote_establish in auto)
    with True show ?thesis by simp
  next
    case False
    have "live_row V S False (row_at (tl_plans (fst z')) pl)"
      by (rule rfold_invariant [OF assms(1)]) (use assms(3) keep in auto)
    moreover from False have "(V \<and> S) = False" by blast
    ultimately show ?thesis by metis
  qed
qed

text \<open>What a pass leaves of a live plan.\<close>

lemma observe_live:
  assumes obs: "observe io live verified seeder now st = (st', Inr promoted)"
    and wf: "dwf (tl_plans (data_of st))" "rows_wf (tl_plans (data_of st))"
    and small: "int (length live) \<le> MAX_PLANS" and p: "(pl, p) \<in> set live"
    and V: "V \<Longrightarrow> \<exists>f. (pl, f) \<in> set verified \<and> 0 \<le> vf_verified_at f"
    and S: "S \<Longrightarrow> \<exists>s. (pl, s) \<in> set seeder \<and> 0 \<le> s"
  shows "live_row V S (V \<and> S) (row_at (tl_plans (data_of st')) pl)"
  using obs
proof (rule observe_result)
  fix plans1 opened dirty1 plans2 dirty2 plans3 dirty3 plans4 dirty4 d5 d6 removed d7 evicted
  assume 1: "foldl (open_live now) (tl_plans (data_of st), [], False) (sort_key fst live) = (plans1, opened, dirty1)"
    and 2: "cancel_gone live now (plans1, dirty1) = (plans2, dirty2)"
    and 3: "foldl (latch_verified now) (plans2, dirty2) verified = (plans3, dirty3)"
    and 4: "foldl (latch_seeder now) (plans3, dirty3) seeder = (plans4, dirty4)"
    and 5: "rfold (promote_one (snd (snd (read_doc st))) opened now) ((data_of st)\<lparr>tl_plans := plans4\<rparr>, []) (sort (dkeys plans4)) = Inr (d5, promoted)"
    and 6: "retain (set (dkeys live)) now d5 = Inr (d6, removed)"
    and 7: "bound (set (dkeys live)) d6 = Inr (d7, evicted)"
    and res: "tl_plans (data_of st') = canon_rows (tl_plans d7) \<or> tl_plans (data_of st') = tl_plans d7"
  have lps: "facts live pl \<noteq> {}" and pl: "pl \<in> set (dkeys live)" using p by force+
  have L1: "live_row False False False (row_at plans1 pl)"
    using open_progress [of "(tl_plans (data_of st), [], False)" pl p live now] wf(2) p 1 by simp
  then have "live_row False False False (row_at plans2 pl)"
    using live_row_evolves [OF cancel_phase [where plans = plans1 and now = now and d = dirty1] lps L1]
      cancel_present [OF live_row_present [OF L1], of live now dirty1] by (simp add: 2)
  then have "live_row V False False (row_at plans3 pl)" using verified_progress [of "(plans2, dirty2)" pl V] V 3 by (metis fst_conv)
  then have L4: "live_row V S False (row_at plans4 pl)" using seeder_progress [of V "(plans3, dirty3)" pl S] S 4 by (metis fst_conv)
  then have "pl \<in> set (sort (dkeys plans4))" using live_row_present row_at_dkeys by (metis not_None_eq set_sort)
  from promote_progress [OF 5 this] L4 have L5: "live_row V S (V \<and> S) (row_at (tl_plans d5) pl)" by simp
  have dwf5: "dwf (tl_plans d5)" and dwf6: "dwf (tl_plans d6)" by (rule phases_dwf [OF wf(1) 1 2 3 4 5 6])+
  have "row_at (tl_plans d7) pl = row_at (tl_plans d5) pl"
    using bound_effect(2) [OF 7 dwf6 small pl] retain_present [OF 6 pl live_row_present [OF L5] dwf5] by simp
  with L5 have L7: "live_row V S (V \<and> S) (row_at (tl_plans d7) pl)" by simp
  then have "live_row V S (V \<and> S) (row_at (canon_rows (tl_plans d7)) pl)"
    using live_row_evolves [OF evolves_canon _ L7, of UNIV] by (auto simp: row_at_canon live_row_def)
  with L7 res show "live_row V S (V \<and> S) (row_at (tl_plans (data_of st')) pl)" by auto
qed

section \<open>Properties\<close>

lemma store_ok_rows: "store_ok h st \<Longrightarrow> dwf (tl_plans (data_of st)) \<and> rows_wf (tl_plans (data_of st))"
  by (simp add: store_ok_def rows_wf_def)

lemma length_canon_rows [simp]: "length (canon_rows rows) = length rows"
  by (simp add: canon_rows_def)









lemma tl_file_read_doc [simp]: "tl_file (fst (read_doc st)) = tl_file st"
  by (simp add: read_doc_def split: file_state.split option.split)











text \<open>
  C31.  Promotion is live: when the live plans fit, one pass that derives both facts for a plan and whose write
  is accepted leaves its row seeding with its start instant set, whatever earlier passes, marker writes, restarts or losses of the
  file did.
\<close>

theorem lifecycle_promotes:
  assumes "tl_reach h st" and "verified_facts (ps_live ps) (ps_reports ps) (ps_ledger ps) = Inr v"
    and "length (ps_live ps) \<le> 4096" and "dget (ps_live ps) pl = Some p"
    and "dget v pl = Some f" and "dget (ps_seeder ps) pl = Some s"
  shows "\<exists>row. tl_get pl (fst (run_pass True ps st)) = Some row \<and> jget row ''state'' = JStr ''seeding'' \<and>
    jget row ''seeding_started_at'' \<noteq> JNull"
proof -
  have ok: "dwf (tl_plans (data_of st))" "rows_wf (tl_plans (data_of st))" using store_ok_rows [OF reach_ok [OF assms(1)]] by auto
  obtain st' promoted where obs: "observe True (ps_live ps) v (ps_seeder ps) (ps_now ps) st = (st', Inr promoted)"
    using observe_succeeds [OF ok, of True] by blast
  have f: "(pl, f) \<in> set v" and s: "(pl, s) \<in> set (ps_seeder ps)" using assms(5,6) by (auto dest: map_of_SomeD)
  have small: "int (length (ps_live ps)) \<le> MAX_PLANS" using assms(3) by (simp add: MAX_PLANS_def)
  have p: "(pl, p) \<in> set (ps_live ps)" using assms(4) by (simp add: ps_live_dget)
  have "live_row True True (True \<and> True) (row_at (tl_plans (data_of st')) pl)"
    by (rule observe_live [OF obs ok small p])
      (use f s verified_facts_sound(2) [OF assms(2) f] seeder_facts_sound(2) [OF s] in blast)+
  then show ?thesis by (auto simp: run_pass_def assms(2) obs tl_get_row live_row_def row_wf_def)
qed


theorem lifecycle_promotes_witness:
  "\<exists>row. tl_get (example_id CHR ''a'') example_store = Some row \<and> jget row ''state'' = JStr ''seeding''"
proof -
  have v: "verified_facts (ps_live example_pass) (ps_reports example_pass) (ps_ledger example_pass) =
      Inr [(example_id CHR ''a'', \<lparr>vf_verified_at = 30, vf_observed_at = None, vf_report_created_at = None\<rparr>)]" by code_simp
  have l: "ps_live example_pass = [(example_id CHR ''a'', \<lparr>plan_id = example_id CHR ''a'', transfer_id = example_id CHR ''b'',
      device_id = ''r1'', image_id = ''img'', planned_at = 10, plan_info_hash = Some (replicate 40 CHR ''c'')\<rparr>)]" by code_simp
  have s: "ps_seeder example_pass = [(example_id CHR ''a'', 20)]" by code_simp
  show ?thesis
    using lifecycle_promotes [OF tl_reach.start v, of "example_id CHR ''a''"] unfolding example_store_def by (simp add: l s) blast
qed

end
