(* ===== verification/Peer_Handouts.thy ===== *)
theory Peer_Handouts
  imports Peer_Endpoints
begin

text \<open>
  \<^verbatim>\<open>server/peer_handouts.py\<close>: the durable evidence of which peer addresses the tracker disclosed to which
  device.  The ledger is a keyed store of rows and one admissions document; a device is admitted in steps,
  each under one lock: reserve it as pending, create its row, mark it active, confirm the row.  Every
  step is an atomic definition of its own, so that steps of several callers can be interleaved and a
  caller can stop after any of them.  Writing the admissions document or a row succeeds, is refused, or
  becomes visible and then fails to sync.  A \<^verbatim>\<open>HandoutStoreError\<close> raised inside a callback of the keyed store is a
  \<open>StateError\<close> with its message, so that missing evidence, a row that does not validate and a cap are three
  different errors.  The size limit of the admissions file is part of reading a corrupt file.  The syncs
  that only confirm a file another call has already put in place change nothing, and that one of them may
  itself fail is not modelled.
\<close>

definition MAX_RECIPIENTS :: nat where
  "MAX_RECIPIENTS = 10256"

definition MAX_ADDRESSES :: nat where
  "MAX_ADDRESSES = 4096"

definition ADMISSIONS_SCHEMA :: string where
  "ADMISSIONS_SCHEMA = ''iris-peer-handout-admissions/v1''"

definition MAX_I63 :: int where
  "MAX_I63 = 2 ^ 63 - 1"

datatype herror =
    AdmissionsUnavailable     \<comment> \<open>missing, unreadable or corrupt admissions document\<close>
  | AdmissionMissing          \<comment> \<open>a row without an admission\<close>
  | RowMissing                \<comment> \<open>an active admission without a row\<close>
  | AdmissionChanged
  | AdmissionPending
  | RecipientCap
  | BadInput
  | WriteFailed               \<comment> \<open>\<^verbatim>\<open>OSError\<close> on the admissions document\<close>
  | RowStore kerror           \<comment> \<open>an error of the keyed store of rows\<close>

section \<open>Values and rows\<close>

definition is_word :: "char \<Rightarrow> bool" where
  "is_word c \<longleftrightarrow> is_digit c \<or> (65 \<le> (of_char c :: nat) \<and> (of_char c :: nat) \<le> 90) \<or>
     (97 \<le> (of_char c :: nat) \<and> (of_char c :: nat) \<le> 122)"

definition device_id_ok :: "string \<Rightarrow> bool" where
  \<comment> \<open>\<^verbatim>\<open>_device_id\<close>: the pattern, and not the reserved name\<close>
  "device_id_ok s \<longleftrightarrow> s \<noteq> [] \<and> length s \<le> 64 \<and> is_word (hd s) \<and>
     list_all (\<lambda>c. is_word c \<or> c = CHR ''.'' \<or> c = CHR ''_'' \<or> c = CHR ''-'') s \<and> s \<noteq> ''seeder''"

definition hex40_ok :: "string \<Rightarrow> bool" where
  "hex40_ok s \<longleftrightarrow> length s = 40 \<and> list_all (\<lambda>c. is_digit c \<or> (97 \<le> (of_char c :: nat) \<and> (of_char c :: nat) \<le> 102)) s"

definition integer_time :: "json \<Rightarrow> int option" where
  "integer_time v = (case v of
       JInt n \<Rightarrow> if 0 \<le> n \<and> n \<le> MAX_I63 then Some n else None
     | JFloat r \<Rightarrow> if 0 \<le> r \<and> r \<le> of_int MAX_I63 then Some (py_trunc r) else None
     | _ \<Rightarrow> None)"

definition stored_time :: "json \<Rightarrow> bool" where
  "stored_time v = (case v of JInt n \<Rightarrow> 0 \<le> n \<and> n \<le> MAX_I63 | _ \<Rightarrow> False)"

definition address_of :: "json \<Rightarrow> string option" where
  \<comment> \<open>\<^verbatim>\<open>_address\<close>: the parser takes canonical dotted text only, and an integer is not canonical\<close>
  "address_of v = (case as_str v of None \<Rightarrow> None | Some s \<Rightarrow> if parse_ipv4 s = None then None else Some s)"

definition item_ok :: "json \<Rightarrow> bool" where
  "item_ok item =
     (case as_obj item of
        None \<Rightarrow> False
      | Some d \<Rightarrow> set (dkeys d) = {''address'', ''info_hash'', ''expires_at''} \<and> address_of (jget d ''address'') \<noteq> None \<and>
          (case as_str (jget d ''info_hash'') of None \<Rightarrow> False | Some h \<Rightarrow> hex40_ok h) \<and> stored_time (jget d ''expires_at''))"

definition item_address :: "json \<Rightarrow> string" where
  \<comment> \<open>of a valid item\<close>
  "item_address item = (case address_of (jget (obj_or_empty item) ''address'') of Some a \<Rightarrow> a | None \<Rightarrow> [])"

definition handout_row_ok :: "string \<Rightarrow> json \<Rightarrow> bool" where
  "handout_row_ok key row =
     (case as_obj row of
        None \<Rightarrow> False
      | Some d \<Rightarrow>
          set (dkeys d) = {''v'', ''principal_type'', ''principal_id'', ''updated_at'', ''handouts''} \<and>
          jget d ''v'' = JInt 1 \<and> jget d ''principal_type'' = JStr ''device'' \<and> jget d ''principal_id'' = JStr key \<and>
          device_id_ok key \<and> stored_time (jget d ''updated_at'') \<and>
          (case as_list (jget d ''handouts'') of
             None \<Rightarrow> False
           | Some items \<Rightarrow> length items \<le> MAX_ADDRESSES \<and> list_all item_ok items \<and>
               sorted_wrt (<) (map item_address items)))"

definition validate_handouts :: "string \<Rightarrow> json \<Rightarrow> unit res" where
  "validate_handouts key row = (if handout_row_ok key row then Inr () else Inl ValueError)"

definition handout_cfg :: kconfig where
  "handout_cfg = \<lparr>shards = SHARD_COUNT, durable = True, validate = Some validate_handouts, legacy_extract = None\<rparr>"

section \<open>The admissions document\<close>

record ledger =
  admissions :: file_state
  hrows :: kstore

definition validate_admissions :: "json \<Rightarrow> herror + obj" where
  \<comment> \<open>returns the devices\<close>
  "validate_admissions v =
     (case as_obj v of
        None \<Rightarrow> Inl AdmissionsUnavailable
      | Some doc \<Rightarrow>
          if set (dkeys doc) \<noteq> {''schema'', ''devices''} \<or> jget doc ''schema'' \<noteq> JStr ADMISSIONS_SCHEMA
          then Inl AdmissionsUnavailable
          else (case as_obj (jget doc ''devices'') of
                  None \<Rightarrow> Inl AdmissionsUnavailable
                | Some devices \<Rightarrow>
                    if MAX_RECIPIENTS < length devices then Inl AdmissionsUnavailable
                    else if list_all (\<lambda>(k, s). device_id_ok k \<and> (s = JStr ''pending'' \<or> s = JStr ''active'')) devices
                    then Inr devices else Inl AdmissionsUnavailable))"

definition read_admissions :: "file_state \<Rightarrow> herror + obj option" where
  \<comment> \<open>with \<^verbatim>\<open>missing_ok\<close>\<close>
  "read_admissions f =
     (case f of
        Missing \<Rightarrow> Inr None
      | Corrupt \<Rightarrow> Inl AdmissionsUnavailable
      | Content v \<Rightarrow> rbind (validate_admissions v) (\<lambda>d. Inr (Some d)))"

definition require_admissions :: "file_state \<Rightarrow> herror + obj" where
  "require_admissions f =
     rbind (read_admissions f) (\<lambda>d. case d of None \<Rightarrow> Inl AdmissionsUnavailable | Some devices \<Rightarrow> Inr devices)"

definition admissions_document :: "obj \<Rightarrow> json" where
  "admissions_document devices = JObj [(''schema'', JStr ADMISSIONS_SCHEMA), (''devices'', JObj devices)]"

definition write_document :: "write_outcome \<Rightarrow> obj \<Rightarrow> ledger \<Rightarrow> ledger \<times> (herror + unit)" where
  "write_document w devices l =
     (case w of
        Refused \<Rightarrow> (l, Inl WriteFailed)
      | Unsynced \<Rightarrow> (l\<lparr>admissions := Content (canon (admissions_document devices))\<rparr>, Inl WriteFailed)
      | Synced \<Rightarrow> (l\<lparr>admissions := Content (canon (admissions_document devices))\<rparr>, Inr ()))"

definition ledger_ttl :: "int \<Rightarrow> herror + int" where
  \<comment> \<open>the constructor's check\<close>
  "ledger_ttl ttl = (if ttl < 1 then Inl BadInput else Inr ttl)"

section \<open>Rows under the keyed store\<close>

definition lift_rows :: "'a kres \<Rightarrow> ledger \<Rightarrow> ledger \<times> (herror + 'a)" where
  "lift_rows kr l =
     (l\<lparr>hrows := fst kr\<rparr>, case snd kr of Inl e \<Rightarrow> Inl (RowStore e) | Inr x \<Rightarrow> Inr x)"

definition lbind :: "ledger \<times> (herror + 'a) \<Rightarrow> (ledger \<Rightarrow> 'a \<Rightarrow> ledger \<times> (herror + 'b)) \<Rightarrow> ledger \<times> (herror + 'b)" where
  "lbind m f = (case m of (l, Inl e) \<Rightarrow> (l, Inl e) | (l, Inr x) \<Rightarrow> f l x)"

definition empty_row :: "string \<Rightarrow> int \<Rightarrow> json" where
  \<comment> \<open>\<^verbatim>\<open>_empty\<close>\<close>
  "empty_row dev now =
     JObj [(''v'', JInt 1), (''principal_type'', JStr ''device''), (''principal_id'', JStr dev),
           (''updated_at'', JInt now), (''handouts'', JList [])]"

text \<open>The messages that tell missing evidence from a cap.\<close>

definition ROW_MISSING :: string where
  "ROW_MISSING = ''established handout row is missing''"

definition ADDRESS_CAP :: string where
  "ADDRESS_CAP = ''handout address cap reached''"

section \<open>Admission\<close>

definition admit_look :: "faults \<Rightarrow> string \<Rightarrow> ledger \<Rightarrow> ledger \<times> (herror + bool)" where
  \<comment> \<open>\<^verbatim>\<open>observed_row = self.rows.get(device_id)\<close>: whether there is one\<close>
  "admit_look io dev l =
     lbind (lift_rows (get handout_cfg io dev (hrows l)) l) (\<lambda>l' row. (l', Inr (row \<noteq> None)))"

definition admit_reserve :: "write_outcome \<Rightarrow> string \<Rightarrow> bool \<Rightarrow> ledger \<Rightarrow> ledger \<times> (herror + string)" where
  \<comment> \<open>the first locked section; returns the state it saw or wrote\<close>
  "admit_reserve w dev observed l =
     (case require_admissions (admissions l) of
        Inl e \<Rightarrow> (l, Inl e)
      | Inr devices \<Rightarrow>
          (case dget devices dev of
             None \<Rightarrow>
               if observed then (l, Inl AdmissionMissing)
               else if MAX_RECIPIENTS \<le> length devices then (l, Inl RecipientCap)
               else lbind (write_document w (dset dev (JStr ''pending'') devices) l) (\<lambda>l' _. (l', Inr ''pending''))
           | Some s \<Rightarrow> (l, Inr (if s = JStr ''active'' then ''active'' else ''pending''))))"

definition ensure_row :: "string \<Rightarrow> int \<Rightarrow> string \<Rightarrow> json option \<Rightarrow> upd res" where
  "ensure_row dev now state row =
     (case row of
        None \<Rightarrow> if state = ''active'' then Inl (StateError ROW_MISSING) else Inr (Put (empty_row dev now))
      | Some v \<Rightarrow> rbind (validate_handouts dev v) (\<lambda>_. Inr Keep))"

definition admit_ensure :: "faults \<Rightarrow> string \<Rightarrow> int \<Rightarrow> string \<Rightarrow> ledger \<Rightarrow> ledger \<times> (herror + upd)" where
  "admit_ensure io dev now state l = lift_rows (update handout_cfg io dev (ensure_row dev now state) (hrows l)) l"

definition admit_activate :: "write_outcome \<Rightarrow> string \<Rightarrow> ledger \<Rightarrow> ledger \<times> (herror + unit)" where
  "admit_activate w dev l =
     (case require_admissions (admissions l) of
        Inl e \<Rightarrow> (l, Inl e)
      | Inr devices \<Rightarrow>
          (case dget devices dev of
             None \<Rightarrow> (l, Inl AdmissionChanged)
           | Some s \<Rightarrow>
               if s = JStr ''pending'' then write_document w (dset dev (JStr ''active'') devices) l else (l, Inr ())))"

definition confirm_row :: "string \<Rightarrow> string \<Rightarrow> json option \<Rightarrow> upd res" where
  "confirm_row missing dev row =
     (case row of None \<Rightarrow> Inl (StateError missing) | Some v \<Rightarrow> rbind (validate_handouts dev v) (\<lambda>_. Inr Keep))"

definition admit_confirm :: "faults \<Rightarrow> string \<Rightarrow> ledger \<Rightarrow> ledger \<times> (herror + upd)" where
  "admit_confirm io dev l = lift_rows (update handout_cfg io dev (confirm_row ''pending handout row is missing'' dev) (hrows l)) l"

record admit_faults =
  io_look :: faults
  w_reserve :: write_outcome
  io_ensure :: faults
  w_activate :: write_outcome
  io_confirm :: faults

definition admit_device :: "admit_faults \<Rightarrow> string \<Rightarrow> int \<Rightarrow> ledger \<Rightarrow> ledger \<times> (herror + unit)" where
  \<comment> \<open>\<^verbatim>\<open>_admit\<close> without another caller in between\<close>
  "admit_device f dev now l =
     lbind (admit_look (io_look f) dev l) (\<lambda>l1 observed.
     lbind (admit_reserve (w_reserve f) dev observed l1) (\<lambda>l2 state.
     lbind (admit_ensure (io_ensure f) dev now state l2) (\<lambda>l3 _.
     lbind (admit_activate (w_activate f) dev l3) (\<lambda>l4 _.
     lbind (admit_confirm (io_confirm f) dev l4) (\<lambda>l5 _. (l5, Inr ()))))))"

section \<open>Recording and reading\<close>

definition expires_of :: "obj \<Rightarrow> int" where
  \<comment> \<open>of a valid item\<close>
  "expires_of d = (case jget d ''expires_at'' of JInt n \<Rightarrow> n | _ \<Rightarrow> 0)"

definition row_items :: "json \<Rightarrow> obj list" where
  \<comment> \<open>\<^verbatim>\<open>row["handouts"]\<close> of a valid row\<close>
  "row_items row = (case as_list (jget (obj_or_empty row) ''handouts'') of
       Some items \<Rightarrow> map obj_or_empty items | None \<Rightarrow> [])"

definition current_items :: "int \<Rightarrow> obj list \<Rightarrow> (string, obj) dict" where
  "current_items disclosed items =
     foldl (\<lambda>d it. dset (item_address (JObj it)) it d) [] (filter (\<lambda>it. disclosed < expires_of it) items)"

definition renewal_margin :: "int \<Rightarrow> int" where
  "renewal_margin ttl = max 1 (min 120 (ttl div 3))"

definition disclose_one ::
  "string \<Rightarrow> int \<Rightarrow> int \<Rightarrow> (string, obj) dict \<times> bool \<Rightarrow> string \<Rightarrow> (string, obj) dict \<times> bool" where
  "disclose_one info_hash disclosed ttl st address =
     (case dget (fst st) address of
        None \<Rightarrow> (dset address [(''address'', JStr address), (''info_hash'', JStr info_hash),
                   (''expires_at'', JInt (disclosed + ttl))] (fst st), True)
      | Some old \<Rightarrow>
          let moved = (jget old ''info_hash'' \<noteq> JStr info_hash);
              due = (expires_of old - disclosed \<le> renewal_margin ttl);
              it1 = (if moved then dset ''info_hash'' (JStr info_hash) old else old);
              it2 = (if due then dset ''expires_at'' (JInt (disclosed + ttl)) it1 else it1)
          in (dset address it2 (fst st), snd st \<or> moved \<or> due))"

definition disclose_row :: "string \<Rightarrow> string \<Rightarrow> int \<Rightarrow> int \<Rightarrow> string list \<Rightarrow> json option \<Rightarrow> upd res" where
  "disclose_row dev info_hash disclosed ttl addresses row =
     (case row of
        None \<Rightarrow> Inl (StateError ROW_MISSING)
      | Some v \<Rightarrow>
          rbind (validate_handouts dev v) (\<lambda>_.
          let items = row_items v;
              held = current_items disclosed items;
              (held', changed) = foldl (disclose_one info_hash disclosed ttl) (held, length held \<noteq> length items) addresses
          in if MAX_ADDRESSES < length held' then Inl (StateError ADDRESS_CAP)
             else if \<not> changed then Inr Keep
             else Inr (Put (JObj [(''v'', JInt 1), (''principal_type'', JStr ''device''), (''principal_id'', JStr dev),
                    (''updated_at'', JInt disclosed),
                    (''handouts'', JList (map (JObj \<circ> snd) (sort_key fst held')))]))))"

definition peer_address :: "json \<Rightarrow> string option" where
  "peer_address p = (case as_obj p of None \<Rightarrow> None | Some d \<Rightarrow> address_of (jget d ''ip''))"

definition peer_addresses :: "json list \<Rightarrow> string list option" where
  \<comment> \<open>\<^verbatim>\<open>sorted(set(...))\<close> of the peers' addresses, or nothing when one is invalid\<close>
  "peer_addresses peers = map_option (\<lambda>xs. sort (remdups xs)) (those (map peer_address peers))"

definition record_handout ::
  "int \<Rightarrow> admit_faults \<Rightarrow> faults \<Rightarrow> principal \<Rightarrow> json list \<Rightarrow> json \<Rightarrow> json \<Rightarrow> ledger \<Rightarrow> ledger \<times> (herror + bool)" where
  "record_handout ttl f io p peers info_hash now l =
     (if ptype p \<noteq> ''device'' then (l, Inr True)
      else if \<not> device_id_ok (pid p) then (l, Inl BadInput)
      else case as_str info_hash of
             None \<Rightarrow> (l, Inl BadInput)
           | Some h \<Rightarrow>
               if \<not> hex40_ok h then (l, Inl BadInput)
               else case integer_time now of
                      None \<Rightarrow> (l, Inl BadInput)
                    | Some disclosed \<Rightarrow>
                        (case peer_addresses peers of
                           None \<Rightarrow> (l, Inl BadInput)
                         | Some addresses \<Rightarrow>
                             if addresses = [] then (l, Inr True)
                             else if MAX_I63 - ttl < disclosed then (l, Inl BadInput)
                             else lbind (admit_device f (pid p) disclosed l) (\<lambda>l1 _.
                                  lbind (lift_rows (update handout_cfg io (pid p)
                                    (disclose_row (pid p) h disclosed ttl addresses) (hrows l1)) l1) (\<lambda>l2 _.
                                  (l2, Inr True)))))"

definition inspect_orphan :: "string \<Rightarrow> json option \<Rightarrow> upd res" where
  "inspect_orphan dev row = (case row of None \<Rightarrow> Inr Keep | Some v \<Rightarrow> rbind (validate_handouts dev v) (\<lambda>_. Inr Keep))"

definition row_of_update :: "string \<Rightarrow> kstore \<Rightarrow> json option" where
  \<comment> \<open>the row a callback on this key saw, when the update was accepted\<close>
  "row_of_update dev s =
     (case read_shard handout_cfg s (bucket_of dev (shards handout_cfg)) of Inr rows \<Rightarrow> row_get rows dev | Inl _ \<Rightarrow> None)"

definition current_handouts :: "faults \<Rightarrow> json \<Rightarrow> json \<Rightarrow> ledger \<Rightarrow> ledger \<times> (herror + obj list)" where
  \<comment> \<open>without another caller between its locked sections, so the recheck of the admission is idle\<close>
  "current_handouts io device now l =
     (case as_str device of
        None \<Rightarrow> (l, Inl BadInput)
      | Some dev \<Rightarrow>
          if \<not> device_id_ok dev then (l, Inl BadInput)
          else case integer_time now of
                 None \<Rightarrow> (l, Inl BadInput)
               | Some t \<Rightarrow>
                   (case require_admissions (admissions l) of
                      Inl e \<Rightarrow> (l, Inl e)
                    | Inr devices \<Rightarrow>
                        (case dget devices dev of
                           None \<Rightarrow>
                             lbind (lift_rows (update handout_cfg io dev (inspect_orphan dev) (hrows l)) l) (\<lambda>l1 _.
                             if row_of_update dev (hrows l1) \<noteq> None then (l1, Inl AdmissionMissing) else (l1, Inr []))
                         | Some s \<Rightarrow>
                             if s \<noteq> JStr ''active'' then (l, Inl AdmissionPending)
                             else lbind (lift_rows (update handout_cfg io dev (confirm_row ROW_MISSING dev) (hrows l)) l) (\<lambda>l1 _.
                                  (l1, Inr (filter (\<lambda>it. t < expires_of it)
                                     (case row_of_update dev (hrows l1) of Some v \<Rightarrow> row_items v | None \<Rightarrow> [])))))))"

section \<open>Start-up\<close>

definition check_established :: "obj \<Rightarrow> obj \<Rightarrow> herror + bool" where
  "check_established devices rows =
     (if \<not> list_all (\<lambda>k. has_key devices k) (dkeys rows) then Inl AdmissionMissing
      else if list_ex (\<lambda>(k, s). s = JStr ''active'' \<and> \<not> has_key rows k) devices then Inl RowMissing
      else Inr False)"

definition initialize_ledger :: "faults \<Rightarrow> write_outcome \<Rightarrow> bool \<Rightarrow> ledger \<Rightarrow> ledger \<times> (herror + bool)" where
  \<comment> \<open>\<^verbatim>\<open>initialize\<close> without a concurrent initializer\<close>
  "initialize_ledger io w create l =
     (case read_admissions (admissions l) of
        Inl e \<Rightarrow> (l, Inl e)
      | Inr (Some devices) \<Rightarrow>
          lbind (lift_rows (snapshot handout_cfg io (hrows l)) l) (\<lambda>l1 rows. (l1, check_established devices rows))
      | Inr None \<Rightarrow>
          lbind (lift_rows (snapshot handout_cfg io (hrows l)) l) (\<lambda>l1 rows.
          if \<not> create then (l1, Inl AdmissionsUnavailable)
          else if rows \<noteq> [] then (l1, Inl AdmissionMissing)
          else lbind (write_document w [] l1) (\<lambda>l2 _. (l2, Inr True))))"

end
