(* ===== verification/Handout_Rows.thy ===== *)
theory Handout_Rows
  imports Peer_Handouts Keyed_Contract
begin

text \<open>
  Rows of the handout ledger: the validator does not look at the order of keys, so the keyed store with it
  honours the contract of keyed maps; and what recording a disclosure makes of a row.
\<close>

declare canon.simps(7) [simp del] canon_obj [simp]

section \<open>Validation and the order of keys\<close>

lemma set_dkeys_canon [simp]: "fst ` set (canon_rows d) = fst ` set d"
proof -
  have "set (canon_rows d) = map_prod id canon ` set d" by (simp add: canon_rows_def)
  then show ?thesis by (simp add: image_image)
qed

lemma canon_scalar [simp]:
  "canon v = JInt n \<longleftrightarrow> v = JInt n" "stored_time (canon v) = stored_time v" "address_of (canon v) = address_of v"
  by (cases v; simp add: stored_time_def address_of_def)+

lemma canon_JStr_eq [simp]: "canon v = JStr s \<longleftrightarrow> v = JStr s"
  by (cases v) auto

lemma item_ok_canon [simp]: "item_ok (canon it) = item_ok it"
  by (cases "as_obj it") (simp_all add: item_ok_def as_obj_canon jget_canon)

lemma obj_or_empty_canon_rows: "obj_or_empty (canon it) = canon_rows (obj_or_empty it)"
  by (rule obj_or_empty_canon)

lemma item_address_canon [simp]: "item_address (canon it) = item_address it"
  by (simp add: item_address_def obj_or_empty_canon jget_canon)

lemma handout_row_ok_canon [simp]: "handout_row_ok k (canon row) = handout_row_ok k row"
proof (cases "as_obj row")
  case (Some d)
  then show ?thesis
    by (cases "as_list (jget d ''handouts'')")
      (simp_all add: handout_row_ok_def as_obj_canon jget_canon list_all_iff comp_def)
qed (simp add: handout_row_ok_def as_obj_canon)

lemma handout_cfg_sel [simp]: "shards handout_cfg = SHARD_COUNT" "validate handout_cfg = Some validate_handouts"
  by (simp_all add: handout_cfg_def)

lemma handout_cfg_ok: "config_ok handout_cfg"
  by (auto simp: config_ok_def validate_row_def validate_handouts_def SHARD_COUNT_def split: if_splits)

lemma handout_row_ok_iff: "row_ok handout_cfg (k, v) \<longleftrightarrow> handout_row_ok k v"
  by (cases v) (auto simp: row_ok_def validate_row_def validate_handouts_def handout_row_ok_def)

interpretation handout_map: keyed_map "store_wf handout_cfg" "view handout_cfg" "\<lambda>k v. row_ok handout_cfg (k, v)"
  "late_fault handout_cfg io" "update handout_cfg io" "delete handout_cfg io" for io
  by (rule sharded_keyed_map [OF handout_cfg_ok])

section \<open>Disclosures\<close>

lemma row_items_parts:
  assumes "handout_row_ok dev v"
  obtains d items where "v = JObj d" "jget d ''handouts'' = JList (map JObj items)" "row_items v = items"
    "length items \<le> MAX_ADDRESSES" "\<forall>it\<in>set items. item_ok (JObj it)"
    "sorted_wrt (<) (map (item_address \<circ> JObj) items)"
proof -
  from assms obtain d js where v: "v = JObj d" "jget d ''handouts'' = JList js" and l: "length js \<le> MAX_ADDRESSES"
    and ok: "list_all item_ok js" and s: "sorted_wrt (<) (map item_address js)"
    by (auto simp: handout_row_ok_def split: option.splits)
  have js: "js = map JObj (map obj_or_empty js)"
    using ok by (intro nth_equalityI) (auto simp: list_all_length item_ok_def split: option.splits)
  show ?thesis
  proof (rule that [OF v(1)])
    show "jget d ''handouts'' = JList (map JObj (map obj_or_empty js))" using v(2) js by metis
    show "row_items v = map obj_or_empty js" by (simp add: row_items_def v)
    show "\<forall>it\<in>set (map obj_or_empty js). item_ok (JObj it)" using ok js by (metis list_all_iff imageI list.set_map)
    show "sorted_wrt (<) (map (item_address \<circ> JObj) (map obj_or_empty js))" using s js by (metis map_map)
  qed (simp add: l)
qed

definition held_ok :: "(string, obj) dict \<Rightarrow> bool" where
  "held_ok held \<longleftrightarrow> dwf held \<and> (\<forall>a it. dget held a = Some it \<longrightarrow> item_ok (JObj it) \<and> item_address (JObj it) = a)"

lemma sorted_distinct: "sorted_wrt (<) (xs :: 'a :: linorder list) \<Longrightarrow> distinct xs"
  by (simp add: strict_sorted_iff)

lemma current_items_ok:
  assumes "\<forall>it\<in>set items. item_ok (JObj it)" and "sorted_wrt (<) (map (item_address \<circ> JObj) items)"
  shows "held_ok (current_items d items)"
    and "dget (current_items d items) a = Some it \<longleftrightarrow> it \<in> set items \<and> d < expires_of it \<and> item_address (JObj it) = a"
    and "length (current_items d items) = length (filter (\<lambda>it. d < expires_of it) items)"
proof -
  let ?f = "item_address \<circ> JObj" and ?xs = "filter (\<lambda>it. d < expires_of it) items"
  have dist: "distinct (map ?f ?xs)" using sorted_distinct [OF assms(2)] distinct_map_filter by blast
  have new: "distinct (map ?f ys) \<Longrightarrow> (\<forall>y\<in>set ys. ?f y \<notin> set (dkeys e)) \<Longrightarrow>
      foldl (\<lambda>d it. dset (?f it) it d) e ys = e @ map (\<lambda>it. (?f it, it)) ys" for e ys
  proof (induction ys arbitrary: e)
    case (Cons y ys)
    have "dset (?f y) y e = e @ [(?f y, y)]" using Cons.prems(2) by (intro dset_new) simp
    moreover from Cons.prems(1) have "?f y \<notin> ?f ` set ys" by simp
    then have "\<forall>z\<in>set ys. ?f z \<noteq> ?f y" by (metis imageI)
    ultimately show ?case using Cons.IH [of "e @ [(?f y, y)]"] Cons.prems by auto
  qed simp
  have eq: "current_items d items = map (\<lambda>it. (?f it, it)) ?xs"
    using new [OF dist, of "[]"] by (simp add: current_items_def)
  then show "length (current_items d items) = length ?xs" by simp
  have wf: "dwf (current_items d items)" using dist by (simp add: eq dwf_def comp_def)
  show iff: "dget (current_items d items) a = Some it \<longleftrightarrow> it \<in> set items \<and> d < expires_of it \<and> item_address (JObj it) = a" for a it
    unfolding dwf_dget_iff [OF wf] by (auto simp: eq)
  from wf show "held_ok (current_items d items)" using iff assms(1) by (auto simp: held_ok_def)
qed

text \<open>What a request must satisfy before a row is touched.\<close>

definition disclosure_ok :: "string \<Rightarrow> int \<Rightarrow> int \<Rightarrow> string list \<Rightarrow> bool" where
  "disclosure_ok h d ttl addresses \<longleftrightarrow> hex40_ok h \<and> 0 \<le> d \<and> 1 \<le> ttl \<and> d + ttl \<le> MAX_I63 \<and>
     (\<forall>a\<in>set addresses. parse_ipv4 a \<noteq> None)"

lemma item_ok_fields:
  assumes "item_ok (JObj it)"
  shows "set (dkeys it) = {''address'', ''info_hash'', ''expires_at''}" "jget it ''address'' = JStr (item_address (JObj it))"
    "parse_ipv4 (item_address (JObj it)) \<noteq> None" "\<exists>h. jget it ''info_hash'' = JStr h \<and> hex40_ok h"
    "jget it ''expires_at'' = JInt (expires_of it)" "0 \<le> expires_of it \<and> expires_of it \<le> MAX_I63"
proof -
  from assms have "set (dkeys it) = {''address'', ''info_hash'', ''expires_at''}" "address_of (jget it ''address'') \<noteq> None"
    "case as_str (jget it ''info_hash'') of None \<Rightarrow> False | Some h \<Rightarrow> hex40_ok h" "stored_time (jget it ''expires_at'')"
    by (simp_all add: item_ok_def)
  then show "set (dkeys it) = {''address'', ''info_hash'', ''expires_at''}" "jget it ''address'' = JStr (item_address (JObj it))"
    "parse_ipv4 (item_address (JObj it)) \<noteq> None" "\<exists>h. jget it ''info_hash'' = JStr h \<and> hex40_ok h"
    "jget it ''expires_at'' = JInt (expires_of it)" "0 \<le> expires_of it \<and> expires_of it \<le> MAX_I63"
    by (auto simp: item_address_def address_of_def stored_time_def expires_of_def split: option.splits if_splits json.splits)
qed

lemma item_okI:
  assumes "set (dkeys it) = {''address'', ''info_hash'', ''expires_at''}" "jget it ''address'' = JStr a" "parse_ipv4 a \<noteq> None"
    "jget it ''info_hash'' = JStr h" "hex40_ok h" "jget it ''expires_at'' = JInt e" "0 \<le> e" "e \<le> MAX_I63"
  shows "item_ok (JObj it) \<and> item_address (JObj it) = a \<and> expires_of it = e"
  using assms by (simp add: item_ok_def address_of_def stored_time_def item_address_def expires_of_def)

definition new_item :: "string \<Rightarrow> int \<Rightarrow> int \<Rightarrow> string \<Rightarrow> obj option \<Rightarrow> obj" where
  \<comment> \<open>the item a disclosure leaves for an address\<close>
  "new_item h d ttl a old =
     (case old of
        None \<Rightarrow> [(''address'', JStr a), (''info_hash'', JStr h), (''expires_at'', JInt (d + ttl))]
      | Some it \<Rightarrow>
          let it1 = (if jget it ''info_hash'' \<noteq> JStr h then dset ''info_hash'' (JStr h) it else it)
          in if expires_of it - d \<le> renewal_margin ttl then dset ''expires_at'' (JInt (d + ttl)) it1 else it1)"

lemma disclose_one_fst: "fst (disclose_one h d ttl st a) = dset a (new_item h d ttl a (dget (fst st) a)) (fst st)"
  by (simp add: disclose_one_def new_item_def Let_def split: option.split)

lemma set_dkeys_dset_in: "k \<in> set (dkeys d) \<Longrightarrow> set (dkeys (dset k v d)) = set (dkeys d)"
  unfolding set_dkeys_dset by blast

lemma new_item_ok:
  assumes "disclosure_ok h d ttl [a]" and "\<And>it. old = Some it \<Longrightarrow> item_ok (JObj it) \<and> item_address (JObj it) = a"
    and "t < d + ttl" and "t \<le> d + renewal_margin ttl"
  shows "item_ok (JObj (new_item h d ttl a old))" "item_address (JObj (new_item h d ttl a old)) = a"
    "jget (new_item h d ttl a old) ''info_hash'' = JStr h" "t < expires_of (new_item h d ttl a old)"
proof -
  have "item_ok (JObj (new_item h d ttl a old)) \<and> item_address (JObj (new_item h d ttl a old)) = a \<and>
    jget (new_item h d ttl a old) ''info_hash'' = JStr h \<and> t < expires_of (new_item h d ttl a old)"
  proof (cases old)
    case None
    have "item_ok (JObj (new_item h d ttl a old)) \<and> item_address (JObj (new_item h d ttl a old)) = a \<and> expires_of (new_item h d ttl a old) = d + ttl"
      by (rule item_okI [where h = h]) (use assms(1) None in \<open>simp_all add: new_item_def disclosure_ok_def get_or_def\<close>)
    with assms(3) None show ?thesis by (simp add: new_item_def get_or_def)
  next
    case (Some it)
    note f = item_ok_fields [OF conjunct1 [OF assms(2) [OF Some]]]
    let ?it1 = "if jget it ''info_hash'' \<noteq> JStr h then dset ''info_hash'' (JStr h) it else it"
    have "''info_hash'' \<in> set (dkeys it)" using f(1) by simp
    then have k1: "set (dkeys ?it1) = set (dkeys it)" by (simp only: set_dkeys_dset_in split: if_split) simp
    have 1: "jget ?it1 ''address'' = JStr a" "jget ?it1 ''info_hash'' = JStr h" "jget ?it1 ''expires_at'' = JInt (expires_of it)"
      using f(2,5) assms(2) [OF Some] by (simp_all add: get_or_dset)
    show ?thesis
    proof (cases "expires_of it - d \<le> renewal_margin ttl")
      case True
      then have n: "new_item h d ttl a old = dset ''expires_at'' (JInt (d + ttl)) ?it1" by (simp add: new_item_def Some)
      have "set (dkeys (new_item h d ttl a old)) = {''address'', ''info_hash'', ''expires_at''}"
        unfolding n set_dkeys_dset k1 f(1) by (rule insert_absorb) simp
      then have "item_ok (JObj (new_item h d ttl a old)) \<and> item_address (JObj (new_item h d ttl a old)) = a \<and>
          expires_of (new_item h d ttl a old) = d + ttl"
        by (rule item_okI [where h = h]) (use assms(1) 1 in \<open>simp_all add: n get_or_dset disclosure_ok_def\<close>)
      with assms(3) 1 show ?thesis by (simp add: n get_or_dset)
    next
      case False
      then have n: "new_item h d ttl a old = ?it1" by (simp add: new_item_def Some)
      have "item_ok (JObj (new_item h d ttl a old)) \<and> item_address (JObj (new_item h d ttl a old)) = a \<and>
          expires_of (new_item h d ttl a old) = expires_of it"
        unfolding n by (rule item_okI [where h = h, OF k1 [unfolded f(1)]]) (use assms(1) 1 f(6) in \<open>simp_all add: disclosure_ok_def\<close>)
      with assms(4) False 1 n show ?thesis by simp
    qed
  qed
  then show "item_ok (JObj (new_item h d ttl a old))" "item_address (JObj (new_item h d ttl a old)) = a"
    "jget (new_item h d ttl a old) ''info_hash'' = JStr h" "t < expires_of (new_item h d ttl a old)" by simp_all
qed

definition shown :: "(string, obj) dict \<Rightarrow> string \<Rightarrow> string \<Rightarrow> int \<Rightarrow> bool" where
  "shown held a h t \<longleftrightarrow> (\<exists>it. dget held a = Some it \<and> jget it ''info_hash'' = JStr h \<and> t < expires_of it)"

lemma disclose_fold:
  assumes "disclosure_ok h d ttl addresses" and "held_ok (fst st)" and "t < d + ttl" and "t \<le> d + renewal_margin ttl"
  shows "held_ok (fst (foldl (disclose_one h d ttl) st addresses)) \<and>
    (a \<in> set addresses \<or> shown (fst st) a h t \<longrightarrow> shown (fst (foldl (disclose_one h d ttl) st addresses)) a h t)"
  using assms
proof (induction addresses arbitrary: st)
  case (Cons x xs)
  let ?st = "disclose_one h d ttl st x"
  have dx: "disclosure_ok h d ttl [x]" and dxs: "disclosure_ok h d ttl xs" using Cons.prems by (auto simp: disclosure_ok_def)
  have old: "\<And>it. dget (fst st) x = Some it \<Longrightarrow> item_ok (JObj it) \<and> item_address (JObj it) = x"
    using Cons.prems by (auto simp: held_ok_def)
  note n = new_item_ok [OF dx old assms(3,4)]
  have h1: "held_ok (fst ?st)"
    using Cons.prems(2) n(1,2) by (auto simp: disclose_one_fst held_ok_def split: if_splits)
  have s1: "a = x \<or> shown (fst st) a h t \<Longrightarrow> shown (fst ?st) a h t"
    using n(3,4) by (auto simp: disclose_one_fst shown_def)
  show ?case using Cons.IH [OF dxs h1 assms(3,4)] s1 by auto
qed simp

lemma disclose_one_clean:
  assumes "\<not> snd (disclose_one h d ttl st a)"
  shows "fst (disclose_one h d ttl st a) = fst st \<and> \<not> snd st"
proof (cases "dget (fst st) a")
  case None
  with assms show ?thesis by (simp add: disclose_one_def)
next
  case (Some it)
  with assms have c: "jget it ''info_hash'' = JStr h" "\<not> expires_of it - d \<le> renewal_margin ttl" "\<not> snd st"
    by (auto simp: disclose_one_def Let_def)
  have "dset a it e = e" if "dget e a = Some it" for e :: "(string, obj) dict"
    using that by (induction e) auto
  with Some c show ?thesis by (simp add: disclose_one_fst new_item_def)
qed

lemma disclose_fold_clean:
  "\<not> snd (foldl (disclose_one h d ttl) st xs) \<Longrightarrow> fst (foldl (disclose_one h d ttl) st xs) = fst st \<and> \<not> snd st"
proof (induction xs arbitrary: st)
  case (Cons x xs)
  then show ?case using disclose_one_clean [of h d ttl st x] by auto
qed simp

lemma held_row_ok:
  assumes "held_ok held" and "length held \<le> MAX_ADDRESSES" and "device_id_ok dev" and "0 \<le> d" "d \<le> MAX_I63"
  shows "handout_row_ok dev (JObj [(''v'', JInt 1), (''principal_type'', JStr ''device''), (''principal_id'', JStr dev),
     (''updated_at'', JInt d), (''handouts'', JList (map (JObj \<circ> snd) (sort_key fst held)))])"
proof -
  let ?s = "sort_key fst held"
  have it: "item_ok (JObj (snd kv)) \<and> item_address (JObj (snd kv)) = fst kv" if "kv \<in> set ?s" for kv
    using assms(1) that by (cases kv) (auto simp: held_ok_def dwf_dget_iff)
  have "map (item_address \<circ> (JObj \<circ> snd)) ?s = map fst ?s" by (rule map_cong) (use it in auto)
  moreover have "sorted_wrt (<) (map fst ?s)"
    using assms(1) by (simp add: strict_sorted_iff held_ok_def) (simp add: dwf_sort [unfolded dwf_def] dwf_def)
  ultimately have s: "sorted_wrt (<) (map item_address (map (JObj \<circ> snd) ?s))" by (simp only: map_map)
  have "list_all item_ok (map (JObj \<circ> snd) ?s)" using it by (auto simp: list_all_iff)
  with s assms(2-5) show ?thesis by (simp add: handout_row_ok_def get_or_def stored_time_def)
qed

lemma row_ok_device: "handout_row_ok dev v \<Longrightarrow> device_id_ok dev"
  by (simp add: handout_row_ok_def split: option.splits)

lemma disclose_row_effect:
  assumes "handout_row_ok dev v" and "disclosure_ok h d ttl addresses"
    and "disclose_row dev h d ttl addresses (Some v) = Inr u"
  shows "u = Keep \<or> (\<exists>w. u = Put w \<and> w \<noteq> JNull \<and> handout_row_ok dev w)"
    and "a \<in> set addresses \<Longrightarrow> t < d + ttl \<Longrightarrow> t \<le> d + renewal_margin ttl \<Longrightarrow>
      \<exists>it\<in>set (row_items (case u of Put w \<Rightarrow> w | _ \<Rightarrow> v)). jget it ''address'' = JStr a \<and> jget it ''info_hash'' = JStr h \<and> t < expires_of it"
proof -
  obtain dd items where v: "v = JObj dd" "row_items v = items" and ok: "\<forall>it\<in>set items. item_ok (JObj it)"
    and s: "sorted_wrt (<) (map (item_address \<circ> JObj) items)" by (rule row_items_parts [OF assms(1)])
  let ?held = "current_items d items"
  note cur = current_items_ok [OF ok s, where d = d]
  obtain held' changed where f: "foldl (disclose_one h d ttl) (?held, length ?held \<noteq> length items) addresses = (held', changed)"
    by fastforce
  have fold: "held_ok held' \<and> (a \<in> set addresses \<longrightarrow> shown held' a h t)" if "t < d + ttl" "t \<le> d + renewal_margin ttl" for t a
    using disclose_fold [OF assms(2) _ that, of "(?held, length ?held \<noteq> length items)" a] cur(1) f by simp
  have "1 \<le> ttl" "1 \<le> renewal_margin ttl" using assms(2) by (simp_all add: disclosure_ok_def renewal_margin_def)
  then have held': "held_ok held'" using fold [of d] by simp
  have sh: "shown held' a h t" if "a \<in> set addresses" "t < d + ttl" "t \<le> d + renewal_margin ttl" for a t
    using fold [OF that(2,3), of a] that(1) by blast
  let ?row = "JObj [(''v'', JInt 1), (''principal_type'', JStr ''device''), (''principal_id'', JStr dev),
     (''updated_at'', JInt d), (''handouts'', JList (map (JObj \<circ> snd) (sort_key fst held')))]"
  from assms(1,3) have u: "length held' \<le> MAX_ADDRESSES" "u = (if changed then Put ?row else Keep)"
    by (auto simp: disclose_row_def validate_handouts_def v(2) f Let_def split: if_splits)
  have "0 \<le> d" "d \<le> MAX_I63" using assms(2) by (auto simp: disclosure_ok_def)
  from held_row_ok [OF held' u(1) row_ok_device [OF assms(1)] this] have "handout_row_ok dev ?row" .
  with u(2) show "u = Keep \<or> (\<exists>w. u = Put w \<and> w \<noteq> JNull \<and> handout_row_ok dev w)" by simp
  show "\<exists>it\<in>set (row_items (case u of Put w \<Rightarrow> w | _ \<Rightarrow> v)). jget it ''address'' = JStr a \<and> jget it ''info_hash'' = JStr h \<and> t < expires_of it"
    if a: "a \<in> set addresses" "t < d + ttl" "t \<le> d + renewal_margin ttl"
  proof -
    from sh [OF a] obtain it where it: "dget held' a = Some it" "jget it ''info_hash'' = JStr h" "t < expires_of it"
      by (auto simp: shown_def)
    then have addr: "jget it ''address'' = JStr a" using held' item_ok_fields(2) [of it] by (auto simp: held_ok_def)
    show ?thesis
    proof (cases changed)
      case True
      have "row_items ?row = map snd (sort_key fst held')" by (simp add: row_items_def get_or_def comp_def)
      moreover have "it \<in> set (map snd (sort_key fst held'))" using it(1) by (force dest: map_of_SomeD)
      ultimately show ?thesis using it addr u(2) True by auto
    next
      case False
      have "held' = ?held" using disclose_fold_clean [of h d ttl "(?held, length ?held \<noteq> length items)" addresses] f False by simp
      then have "it \<in> set items" using it(1) cur(2) by simp
      then show ?thesis using it addr u(2) False v(2) by auto
    qed
  qed
qed

lemma disclose_fold_length:
  "length (fst (foldl (disclose_one h d ttl) st addresses)) \<le> length (fst st) + length addresses"
proof (induction addresses arbitrary: st)
  case (Cons a addresses)
  have "length (fst (disclose_one h d ttl st a)) \<le> Suc (length (fst st))"
    by (simp add: disclose_one_fst length_dset_le)
  with Cons [of "disclose_one h d ttl st a"] show ?case by simp
qed simp

text \<open>On a valid row the only refusal is the cap, and only when the row and the request together exceed it.\<close>

lemma disclose_row_error:
  assumes "handout_row_ok dev v" and "disclose_row dev h d ttl addresses (Some v) = Inl x"
  shows "x = StateError ADDRESS_CAP" and "MAX_ADDRESSES < length (row_items v) + length addresses"
proof -
  obtain dd items where v: "row_items v = items" and ok: "\<forall>it\<in>set items. item_ok (JObj it)"
    and s: "sorted_wrt (<) (map (item_address \<circ> JObj) items)" by (rule row_items_parts [OF assms(1)])
  let ?st = "(current_items d items, length (current_items d items) \<noteq> length items)"
  have "length (current_items d items) \<le> length items" using current_items_ok(3) [OF ok s, of d] by simp
  then have "length (fst (foldl (disclose_one h d ttl) ?st addresses)) \<le> length items + length addresses"
    using disclose_fold_length [of h d ttl ?st addresses] by simp
  then show "x = StateError ADDRESS_CAP" and "MAX_ADDRESSES < length (row_items v) + length addresses"
    using assms by (auto simp: disclose_row_def validate_handouts_def Let_def v split: if_splits prod.splits)
qed

end
