(* ===== verification/Handout_Protocol.thy ===== *)
theory Handout_Protocol
  imports Handout_Rows Keyed_Fresh
begin

text \<open>
  The admission protocol of the handout ledger under concurrency and failure.  A call of \<^verbatim>\<open>record\<close> is a thread
  that passes through the locked sections of \<^verbatim>\<open>_admit\<close> and the final row update; steps of any number of
  threads interleave, any write may be refused or fail after it became visible, and the process may be
  killed and restarted between any two steps.
\<close>

section \<open>Threads\<close>

record request =
  rq_dev :: string
  rq_hash :: string
  rq_time :: int
  rq_ttl :: int
  rq_addresses :: "string list"

datatype stage = Look | Reserve bool | Ensure string | Activate | Confirm | Disclose

definition advance ::
  "faults \<Rightarrow> write_outcome \<Rightarrow> request \<Rightarrow> stage \<Rightarrow> ledger \<Rightarrow> ledger \<times> (herror + stage option)" where
  \<comment> \<open>one locked section of a call; nothing means that the call returned\<close>
  "advance io w rq sg l =
     (case sg of
        Look \<Rightarrow> lbind (admit_look io (rq_dev rq) l) (\<lambda>l' b. (l', Inr (Some (Reserve b))))
      | Reserve b \<Rightarrow> lbind (admit_reserve w (rq_dev rq) b l) (\<lambda>l' s. (l', Inr (Some (Ensure s))))
      | Ensure s \<Rightarrow> lbind (admit_ensure io (rq_dev rq) (rq_time rq) s l) (\<lambda>l' _. (l', Inr (Some Activate)))
      | Activate \<Rightarrow> lbind (admit_activate w (rq_dev rq) l) (\<lambda>l' _. (l', Inr (Some Confirm)))
      | Confirm \<Rightarrow> lbind (admit_confirm io (rq_dev rq) l) (\<lambda>l' _. (l', Inr (Some Disclose)))
      | Disclose \<Rightarrow> lbind (lift_rows (update handout_cfg io (rq_dev rq)
          (disclose_row (rq_dev rq) (rq_hash rq) (rq_time rq) (rq_ttl rq) (rq_addresses rq)) (hrows l)) l) (\<lambda>l' _. (l', Inr None)))"

definition request_ok :: "request \<Rightarrow> bool" where
  "request_ok rq \<longleftrightarrow> device_id_ok (rq_dev rq) \<and> disclosure_ok (rq_hash rq) (rq_time rq) (rq_ttl rq) (rq_addresses rq)"

inductive ledger_run :: "ledger \<Rightarrow> (request \<times> stage) list \<Rightarrow> bool" where
  created: "initialize_ledger io w True \<lparr>admissions = Missing, hrows = empty_store\<rparr> = (l, Inr True) \<Longrightarrow> ledger_run l []"
| called: "ledger_run l ts \<Longrightarrow> request_ok rq \<Longrightarrow> ledger_run l ((rq, Look) # ts)"
| advanced: "ledger_run l (us @ (rq, sg) # vs) \<Longrightarrow> advance io w rq sg l = (l', Inr (Some sg')) \<Longrightarrow>
    ledger_run l' (us @ (rq, sg') # vs)"
| returned: "ledger_run l (us @ (rq, sg) # vs) \<Longrightarrow> advance io w rq sg l = (l', Inr None) \<Longrightarrow> ledger_run l' (us @ vs)"
| failed: "ledger_run l (us @ (rq, sg) # vs) \<Longrightarrow> advance io w rq sg l = (l', Inl e) \<Longrightarrow> ledger_run l' (us @ vs)"
| restarted: "ledger_run l ts \<Longrightarrow> ledger_run (l\<lparr>hrows := (hrows l)\<lparr>migrated := False\<rparr>\<rparr>) []"

section \<open>The invariant\<close>

definition devices_of :: "ledger \<Rightarrow> obj" where
  "devices_of l = (case require_admissions (admissions l) of Inr d \<Rightarrow> d | Inl _ \<Rightarrow> [])"

abbreviation rows_at :: "ledger \<Rightarrow> string \<Rightarrow> json option" where
  "rows_at l \<equiv> view handout_cfg (hrows l)"

definition ledger_ok :: "ledger \<Rightarrow> bool" where
  "ledger_ok l \<longleftrightarrow>
     require_admissions (admissions l) = Inr (devices_of l) \<and> dwf (devices_of l) \<and>
     store_wf handout_cfg (hrows l) \<and> legacy (hrows l) = Missing \<and>
     (\<forall>k. rows_at l k \<noteq> None \<longrightarrow> dget (devices_of l) k \<noteq> None) \<and>
     (\<forall>k. dget (devices_of l) k = Some (JStr ''active'') \<longrightarrow> rows_at l k \<noteq> None)"

fun stage_ok :: "ledger \<Rightarrow> string \<Rightarrow> stage \<Rightarrow> bool" where
  "stage_ok l dev Look = True"
| "stage_ok l dev (Reserve b) = (b \<longrightarrow> dget (devices_of l) dev \<noteq> None)"
| "stage_ok l dev (Ensure s) = (dget (devices_of l) dev \<noteq> None \<and> (s = ''active'' \<longrightarrow> rows_at l dev \<noteq> None))"
| "stage_ok l dev Activate = (dget (devices_of l) dev \<noteq> None \<and> rows_at l dev \<noteq> None)"
| "stage_ok l dev Confirm = (dget (devices_of l) dev \<noteq> None \<and> rows_at l dev \<noteq> None)"
| "stage_ok l dev Disclose = (dget (devices_of l) dev \<noteq> None \<and> rows_at l dev \<noteq> None)"

definition ledger_grows :: "ledger \<Rightarrow> ledger \<Rightarrow> bool" where
  \<comment> \<open>admissions and rows are never taken back\<close>
  "ledger_grows l l' \<longleftrightarrow> (\<forall>k. dget (devices_of l) k \<noteq> None \<longrightarrow> dget (devices_of l') k \<noteq> None) \<and>
     (\<forall>k. rows_at l k \<noteq> None \<longrightarrow> rows_at l' k \<noteq> None)"

lemma stage_ok_grows: "ledger_grows l l' \<Longrightarrow> stage_ok l dev sg \<Longrightarrow> stage_ok l' dev sg"
  by (cases sg) (auto simp: ledger_grows_def)

lemma ledger_grows_refl [simp]: "ledger_grows l l"
  by (simp add: ledger_grows_def)

subsection \<open>The admissions document\<close>

definition states_ok :: "obj \<Rightarrow> bool" where
  "states_ok devices \<longleftrightarrow> list_all (\<lambda>(k, s). device_id_ok k \<and> (s = JStr ''pending'' \<or> s = JStr ''active'')) devices"

lemma validate_admissions_Inr: "validate_admissions v = Inr devices \<Longrightarrow> length devices \<le> MAX_RECIPIENTS \<and> states_ok devices"
  unfolding validate_admissions_def states_ok_def [symmetric] by (simp split: option.split_asm if_split_asm)

lemma devices_valid:
  assumes "require_admissions f = Inr devices"
  shows "length devices \<le> MAX_RECIPIENTS" and "states_ok devices"
proof -
  from assms obtain v where "validate_admissions v = Inr devices"
    by (auto simp: require_admissions_def read_admissions_def rbind_eq_Inr split: file_state.splits option.splits)
  then show "length devices \<le> MAX_RECIPIENTS" and "states_ok devices" using validate_admissions_Inr by blast+
qed

lemma states_ok_get: "states_ok devices \<Longrightarrow> dget devices k = Some s \<Longrightarrow> device_id_ok k \<and> (s = JStr ''pending'' \<or> s = JStr ''active'')"
  by (auto simp: states_ok_def list_all_iff dest!: map_of_SomeD)

lemma states_ok_dset:
  assumes "states_ok devices" and "device_id_ok k" and "s = JStr ''pending'' \<or> s = JStr ''active''"
  shows "states_ok (dset k s devices)"
  using assms by (induction devices) (auto simp: states_ok_def)

lemma admissions_document_canon:
  "canon (admissions_document devices) = JObj [(''devices'', JObj (canon_rows devices)), (''schema'', JStr ADMISSIONS_SCHEMA)]"
proof -
  have "sort_key fst [(''schema'', JStr ADMISSIONS_SCHEMA), (''devices'', JObj (canon_rows devices))] =
      [(''devices'', JObj (canon_rows devices)), (''schema'', JStr ADMISSIONS_SCHEMA)]" by simp
  then show ?thesis by (simp add: admissions_document_def canon_rows_def)
qed

lemma canon_rows_states:
  assumes "states_ok devices"
  shows "canon_rows devices = sort_key fst devices"
proof -
  have "map (map_prod id canon) devices = map id devices"
    using assms by (intro map_cong) (auto simp: states_ok_def list_all_iff)
  then show ?thesis by (simp add: canon_rows_def)
qed

lemma require_written:
  assumes "length devices \<le> MAX_RECIPIENTS" and "states_ok devices"
  shows "require_admissions (Content (canon (admissions_document devices))) = Inr (sort_key fst devices)"
  using assms
  by (simp add: admissions_document_canon canon_rows_states require_admissions_def read_admissions_def validate_admissions_def
      get_or_def states_ok_def list_all_iff insert_commute)

lemma write_document_cases:
  assumes "write_document w devices l = (l', r)" and "length devices \<le> MAX_RECIPIENTS" and "states_ok devices"
  shows "(l' = l \<and> r = Inl WriteFailed \<and> w \<noteq> Synced) \<or>
    (hrows l' = hrows l \<and> devices_of l' = sort_key fst devices \<and> require_admissions (admissions l') = Inr (devices_of l') \<and>
     (r = Inl WriteFailed \<and> w \<noteq> Synced \<or> r = Inr ()))"
  using assms(1) require_written [OF assms(2,3)] by (auto simp: write_document_def devices_of_def split: write_outcome.splits)

subsection \<open>The rows\<close>

lemma lift_rows_eq: "lift_rows (s', r) l = (l', q) \<longleftrightarrow>
    l' = l\<lparr>hrows := s'\<rparr> \<and> q = (case r of Inl e \<Rightarrow> Inl (RowStore e) | Inr x \<Rightarrow> Inr x)"
  by (auto simp: lift_rows_def)

text \<open>A callback on an admitted device that keeps its row or puts a valid one.\<close>

definition callback_ok :: "ledger \<Rightarrow> string \<Rightarrow> (json option \<Rightarrow> upd res) \<Rightarrow> bool" where
  "callback_ok l dev fn \<longleftrightarrow> (\<forall>old u. answers (\<lambda>k v. row_ok handout_cfg (k, v)) (rows_at l) dev old \<longrightarrow> fn old = Inr u \<longrightarrow>
     u = Keep \<or> (\<exists>w. u = Put w \<and> w \<noteq> JNull \<and> handout_row_ok dev w \<and> dget (devices_of l) dev \<noteq> None))"

lemma row_update_step:
  assumes ok: "ledger_ok l" and cb: "callback_ok l dev fn"
    and u: "lift_rows (update handout_cfg io dev fn (hrows l)) l = (l', r)"
  shows "ledger_ok l' \<and> ledger_grows l l' \<and> devices_of l' = devices_of l"
    and "r = Inr x \<Longrightarrow> \<exists>old. answers (\<lambda>k v. row_ok handout_cfg (k, v)) (rows_at l) dev old \<and> fn old = Inr x \<and>
       rows_at l' = (case x of Put w \<Rightarrow> (rows_at l)(dev := Some (canon w)) | _ \<Rightarrow> rows_at l)"
proof -
  obtain s' q where s': "update handout_cfg io dev fn (hrows l) = (s', q)" by fastforce
  with u have l': "l' = l\<lparr>hrows := s'\<rparr>" and r: "r = (case q of Inl e \<Rightarrow> Inl (RowStore e) | Inr x \<Rightarrow> Inr x)"
    by (simp_all add: lift_rows_eq)
  have wf: "store_wf handout_cfg (hrows l)" and leg: "legacy (hrows l) = Missing" using ok by (simp_all add: ledger_ok_def)
  have legit: "row_ok handout_cfg (dev, v)" if "answers (\<lambda>k v. row_ok handout_cfg (k, v)) (rows_at l) dev old" "fn old = Inr (Put v)" "v \<noteq> JNull" for old v
    using cb that by (auto simp: callback_ok_def handout_row_ok_iff)
  have wf': "store_wf handout_cfg s'" by (rule handout_map.upd_inv [OF wf s' legit])
  have leg': "legacy s' = Missing" using update_legacy [OF leg, of handout_cfg io dev fn] s' by simp
  have out: "\<exists>old. answers (\<lambda>k v. row_ok handout_cfg (k, v)) (rows_at l) dev old \<and> fn old = Inr y \<and>
      view handout_cfg s' = (case y of Put w \<Rightarrow> (rows_at l)(dev := Some (canon w)) | _ \<Rightarrow> rows_at l) \<and>
      (y = Keep \<or> (\<exists>w. y = Put w \<and> dget (devices_of l) dev \<noteq> None))" if "q = Inr y" for y
  proof -
    have "\<exists>old u0. answers (\<lambda>k v. row_ok handout_cfg (k, v)) (rows_at l) dev old \<and> fn old = Inr u0 \<and> y = returned u0 \<and>
        view handout_cfg s' = apply_upd dev y (rows_at l)"
      by (rule handout_map.upd_ok [OF wf s' [unfolded that] legit])
    then obtain old u0 where o: "answers (\<lambda>k v. row_ok handout_cfg (k, v)) (rows_at l) dev old" "fn old = Inr u0" "y = returned u0"
      "view handout_cfg s' = apply_upd dev y (rows_at l)" by blast
    with cb have "u0 = Keep \<or> (\<exists>w. u0 = Put w \<and> w \<noteq> JNull \<and> dget (devices_of l) dev \<noteq> None)" by (auto simp: callback_ok_def)
    with o show ?thesis by (intro exI [of _ old]) (auto simp: returned_def)
  qed
  have err: "view handout_cfg s' = rows_at l \<or> (\<exists>w. view handout_cfg s' = (rows_at l)(dev := Some w) \<and> dget (devices_of l) dev \<noteq> None)"
    if "q = Inl e" for e
  proof -
    have "view handout_cfg s' = rows_at l \<or> late_fault handout_cfg io dev \<and> e = OSError \<and>
        (\<exists>old u0. answers (\<lambda>k v. row_ok handout_cfg (k, v)) (rows_at l) dev old \<and> fn old = Inr u0 \<and>
           view handout_cfg s' = apply_upd dev (returned u0) (rows_at l))"
      by (rule handout_map.upd_err [OF wf s' [unfolded that] legit])
    then show ?thesis
    proof (elim disjE conjE exE)
      fix old u0
      assume o: "answers (\<lambda>k v. row_ok handout_cfg (k, v)) (rows_at l) dev old" "fn old = Inr u0"
        "view handout_cfg s' = apply_upd dev (returned u0) (rows_at l)"
      then have "u0 = Keep \<or> (\<exists>w. u0 = Put w \<and> w \<noteq> JNull \<and> handout_row_ok dev w \<and> dget (devices_of l) dev \<noteq> None)"
        using cb unfolding callback_ok_def by blast
      with o(3) show ?thesis by (auto simp: returned_def)
    qed simp
  qed
  have view': "view handout_cfg s' = rows_at l \<or> (\<exists>w. view handout_cfg s' = (rows_at l)(dev := Some w) \<and> dget (devices_of l) dev \<noteq> None)"
  proof (cases q)
    case (Inr y)
    from out [OF this] show ?thesis by (cases y) auto
  qed (use err in blast)
  have dv: "devices_of l' = devices_of l" "admissions l' = admissions l" by (simp_all add: l' devices_of_def)
  show "ledger_ok l' \<and> ledger_grows l l' \<and> devices_of l' = devices_of l"
    using ok view' wf' leg' dv unfolding ledger_ok_def ledger_grows_def by (auto simp: l' split: if_splits)
  show "\<exists>old. answers (\<lambda>k v. row_ok handout_cfg (k, v)) (rows_at l) dev old \<and> fn old = Inr x \<and>
       rows_at l' = (case x of Put w \<Rightarrow> (rows_at l)(dev := Some (canon w)) | _ \<Rightarrow> rows_at l)" if "r = Inr x"
    using out r that by (cases q) (auto simp: l')
qed

lemma row_update_error:
  assumes ok: "ledger_ok l" and u: "lift_rows (update handout_cfg io dev fn (hrows l)) l = (l', Inl e)"
  shows "e = RowStore OSError \<and> \<not> (\<forall>b. shard_ok io b) \<and> \<not> (\<forall>old. \<forall>v. fn old \<noteq> Inr (Put v) \<and> fn old \<noteq> Inr Delete) \<or>
    (\<exists>old x. answers (\<lambda>k v. row_ok handout_cfg (k, v)) (rows_at l) dev old \<and> fn old = Inl x \<and> e = RowStore (Raised x))"
proof -
  obtain s' q where s': "update handout_cfg io dev fn (hrows l) = (s', q)" by fastforce
  with u obtain e' where "q = Inl e'" "e = RowStore e'" by (auto simp: lift_rows_eq split: sum.splits)
  with update_errors [of handout_cfg "hrows l" io dev fn s' e'] s' ok show ?thesis by (auto simp: ledger_ok_def)
qed

lemma answers_some:
  assumes "answers (\<lambda>k v. row_ok handout_cfg (k, v)) m dev old" and "m dev \<noteq> None"
  obtains v where "old = Some v" "handout_row_ok dev v" "m dev = Some (canon v)"
  using assms that by (auto simp: answers_def handout_row_ok_iff)

section \<open>Stages\<close>

lemma dget_devices_sorted: "dget (sort_key fst d) k = dget d k"
  by (rule dget_sort_stable)

lemma write_step:
  assumes ok: "ledger_ok l" and w: "write_document w (dset dev s (devices_of l)) l = (l', r)"
    and len: "length (dset dev s (devices_of l)) \<le> MAX_RECIPIENTS" and dev: "device_id_ok dev"
    and s: "s = JStr ''pending'' \<and> dget (devices_of l) dev = None \<or> s = JStr ''active'' \<and> rows_at l dev \<noteq> None"
  shows "ledger_ok l' \<and> ledger_grows l l'" and "r = Inl WriteFailed \<and> w \<noteq> Synced \<or> r = Inr () \<and> dget (devices_of l') dev = Some s"
proof -
  have st: "states_ok (dset dev s (devices_of l))"
    using ok s dev by (intro states_ok_dset devices_valid(2)) (auto simp: ledger_ok_def)
  have "dwf (dset dev s (devices_of l))" using ok by (auto simp: ledger_ok_def)
  then have dwf: "dwf (sort_key fst (dset dev s (devices_of l)))" by (simp add: dwf_sort)
  from write_document_cases [OF w len st]
  show "ledger_ok l' \<and> ledger_grows l l'" "r = Inl WriteFailed \<and> w \<noteq> Synced \<or> r = Inr () \<and> dget (devices_of l') dev = Some s"
    using ok s dwf by (auto simp: ledger_ok_def ledger_grows_def dget_devices_sorted split: if_splits)
qed

lemma lbind_cases:
  assumes "lbind m f = (l', r)"
  obtains (stop) e where "m = (l', Inl e)" "r = Inl e" | (go) l1 x where "m = (l1, Inr x)" "f l1 x = (l', r)"
  using assms by (cases m, cases "snd m") (auto simp: lbind_def)

lemma look_step:
  assumes ok: "ledger_ok l" and a: "admit_look io dev l = (l', r)"
  shows "ledger_ok l' \<and> ledger_grows l l'" and "\<exists>b. r = Inr b \<and> (b \<longrightarrow> dget (devices_of l') dev \<noteq> None)"
proof -
  obtain s' q where s': "get handout_cfg io dev (hrows l) = (s', q)" by fastforce
  have wf: "store_wf handout_cfg (hrows l)" and leg: "legacy (hrows l) = Missing" using ok by (simp_all add: ledger_ok_def)
  note v = get_view [OF handout_cfg_ok wf s']
  from get_legacy [OF wf leg, of io dev] s' obtain row where q: "q = Inr row" and leg': "legacy s' = Missing" by auto
  from a have l': "l' = l\<lparr>hrows := s'\<rparr>" and r: "r = Inr (row \<noteq> None)" by (simp_all add: admit_look_def s' q lift_rows_def lbind_def)
  have dv: "devices_of l' = devices_of l" by (simp add: l' devices_of_def)
  show "ledger_ok l' \<and> ledger_grows l l'"
    using ok v leg' dv by (simp add: ledger_ok_def ledger_grows_def l')
  have "map_option canon row = rows_at l dev" using v q by simp
  then have "row \<noteq> None \<longrightarrow> rows_at l dev \<noteq> None" by (metis option.map_disc_iff)
  then show "\<exists>b. r = Inr b \<and> (b \<longrightarrow> dget (devices_of l') dev \<noteq> None)" using ok r dv by (auto simp: ledger_ok_def)
qed

lemma reserve_step:
  assumes ok: "ledger_ok l" and dev: "device_id_ok dev" and b: "b \<longrightarrow> dget (devices_of l) dev \<noteq> None"
    and a: "admit_reserve w dev b l = (l', r)"
  shows "ledger_ok l' \<and> ledger_grows l l'"
    and "(\<exists>s. r = Inr s \<and> dget (devices_of l') dev \<noteq> None \<and> (s = ''active'' \<longrightarrow> rows_at l' dev \<noteq> None)) \<or>
         r = Inl WriteFailed \<and> w \<noteq> Synced \<or> r = Inl RecipientCap \<and> MAX_RECIPIENTS \<le> length (devices_of l)"
proof -
  have req: "require_admissions (admissions l) = Inr (devices_of l)" using ok by (simp add: ledger_ok_def)
  have "(ledger_ok l' \<and> ledger_grows l l') \<and>
    ((\<exists>s. r = Inr s \<and> dget (devices_of l') dev \<noteq> None \<and> (s = ''active'' \<longrightarrow> rows_at l' dev \<noteq> None)) \<or>
     r = Inl WriteFailed \<and> w \<noteq> Synced \<or> r = Inl RecipientCap \<and> MAX_RECIPIENTS \<le> length (devices_of l))"
  proof (cases "dget (devices_of l) dev")
    case (Some s)
    with a req have "l' = l" "r = Inr (if s = JStr ''active'' then ''active'' else ''pending'')"
      by (simp_all add: admit_reserve_def split: if_splits)
    with ok Some show ?thesis by (auto simp: ledger_ok_def)
  next
    case None
    show ?thesis
    proof (cases "MAX_RECIPIENTS \<le> length (devices_of l)")
      case True
      with None b a req ok show ?thesis by (simp add: admit_reserve_def)
    next
      case False
      have len: "length (dset dev (JStr ''pending'') (devices_of l)) \<le> MAX_RECIPIENTS"
        using length_dset_le [of dev "JStr ''pending''" "devices_of l"] False by linarith
      obtain l1 q where wd: "write_document w (dset dev (JStr ''pending'') (devices_of l)) l = (l1, q)" by fastforce
      note ws = write_step [OF ok wd len dev]
      from a None False b req wd have "l' = l1" "r = (case q of Inl e \<Rightarrow> Inl e | Inr _ \<Rightarrow> Inr ''pending'')"
        by (auto simp: admit_reserve_def lbind_def split: sum.splits)
      with ws None show ?thesis by auto
    qed
  qed
  then show "ledger_ok l' \<and> ledger_grows l l'"
    and "(\<exists>s. r = Inr s \<and> dget (devices_of l') dev \<noteq> None \<and> (s = ''active'' \<longrightarrow> rows_at l' dev \<noteq> None)) \<or>
         r = Inl WriteFailed \<and> w \<noteq> Synced \<or> r = Inl RecipientCap \<and> MAX_RECIPIENTS \<le> length (devices_of l)" by blast+
qed

lemma length_dset_in: "dget d k = Some s \<Longrightarrow> length (dset k v d) = length d"
  by (induction d) (auto split: if_splits)

lemma activate_step:
  assumes ok: "ledger_ok l" and dev: "device_id_ok dev" and b: "dget (devices_of l) dev \<noteq> None" "rows_at l dev \<noteq> None"
    and a: "admit_activate w dev l = (l', r)"
  shows "ledger_ok l' \<and> ledger_grows l l'" and "r = Inr () \<or> r = Inl WriteFailed \<and> w \<noteq> Synced"
proof -
  have req: "require_admissions (admissions l) = Inr (devices_of l)" using ok by (simp add: ledger_ok_def)
  from b obtain s where s: "dget (devices_of l) dev = Some s" by blast
  have "(ledger_ok l' \<and> ledger_grows l l') \<and> (r = Inr () \<or> r = Inl WriteFailed \<and> w \<noteq> Synced)"
  proof (cases "s = JStr ''pending''")
    case False
    with a req s ok show ?thesis by (simp add: admit_activate_def)
  next
    case True
    have "length (dset dev (JStr ''active'') (devices_of l)) = length (devices_of l)"
      by (rule length_dset_in [OF s])
    then have len: "length (dset dev (JStr ''active'') (devices_of l)) \<le> MAX_RECIPIENTS"
      using devices_valid(1) [OF req] by simp
    have "write_document w (dset dev (JStr ''active'') (devices_of l)) l = (l', r)"
      using a req s True by (simp add: admit_activate_def)
    from write_step [OF ok this len dev] b(2) show ?thesis by blast
  qed
  then show "ledger_ok l' \<and> ledger_grows l l'" and "r = Inr () \<or> r = Inl WriteFailed \<and> w \<noteq> Synced" by blast+
qed

lemma activated:
  assumes ok: "ledger_ok l" and dev: "device_id_ok dev" and b: "dget (devices_of l) dev \<noteq> None" "rows_at l dev \<noteq> None"
    and a: "admit_activate w dev l = (l', Inr v)"
  shows "dget (devices_of l') dev = Some (JStr ''active'')"
proof -
  have req: "require_admissions (admissions l) = Inr (devices_of l)" using ok by (simp add: ledger_ok_def)
  from b obtain s where s: "dget (devices_of l) dev = Some s" by blast
  show ?thesis
  proof (cases "s = JStr ''pending''")
    case False
    with states_ok_get [OF devices_valid(2) [OF req] s] a req s show ?thesis by (simp add: admit_activate_def)
  next
    case True
    have "length (dset dev (JStr ''active'') (devices_of l)) \<le> MAX_RECIPIENTS"
      using devices_valid(1) [OF req] length_dset_in [OF s] by simp
    moreover have "write_document w (dset dev (JStr ''active'') (devices_of l)) l = (l', Inr v)"
      using a req s True by (simp add: admit_activate_def)
    ultimately show ?thesis using write_step(2) [OF ok _ _ dev] b(2) by blast
  qed
qed

lemma empty_row_ok: "device_id_ok dev \<Longrightarrow> 0 \<le> now \<Longrightarrow> now \<le> MAX_I63 \<Longrightarrow> handout_row_ok dev (empty_row dev now)"
  using held_row_ok [of "[]" dev now] by (simp add: empty_row_def held_ok_def dwf_def)

lemma ensure_row_error: "ensure_row dev now s old = Inl x \<Longrightarrow> (s = ''active'' \<and> old = None) \<or> (\<exists>v. old = Some v \<and> \<not> handout_row_ok dev v)"
  by (auto simp: ensure_row_def validate_handouts_def split: option.splits if_splits)

lemma confirm_row_keeps: "confirm_row msg dev old = Inr u \<Longrightarrow> u = Keep" "handout_row_ok dev v \<Longrightarrow> confirm_row msg dev (Some v) = Inr Keep"
  by (auto simp: confirm_row_def validate_handouts_def split: option.splits if_splits)

lemma ensure_step:
  assumes ok: "ledger_ok l" and dev: "device_id_ok dev" and now: "0 \<le> now" "now \<le> MAX_I63"
    and s: "dget (devices_of l) dev \<noteq> None" "s = ''active'' \<longrightarrow> rows_at l dev \<noteq> None"
    and a: "admit_ensure io dev now s l = (l', r)"
  shows "ledger_ok l' \<and> ledger_grows l l' \<and> devices_of l' = devices_of l"
    and "(\<exists>u. r = Inr u) \<and> rows_at l' dev \<noteq> None \<or> r = Inl (RowStore OSError) \<and> \<not> (\<forall>b. shard_ok io b)"
proof -
  have cb: "callback_ok l dev (ensure_row dev now s)"
    using s empty_row_ok [OF dev now]
    by (auto simp: callback_ok_def ensure_row_def validate_handouts_def empty_row_def split: option.splits if_splits)
  note u = row_update_step [OF ok cb a [unfolded admit_ensure_def]]
  show "ledger_ok l' \<and> ledger_grows l l' \<and> devices_of l' = devices_of l" by (rule u(1))
  show "(\<exists>u. r = Inr u) \<and> rows_at l' dev \<noteq> None \<or> r = Inl (RowStore OSError) \<and> \<not> (\<forall>b. shard_ok io b)"
  proof (cases r)
    case (Inr x)
    from u(2) [OF this] obtain old where old: "answers (\<lambda>k v. row_ok handout_cfg (k, v)) (rows_at l) dev old"
      "ensure_row dev now s old = Inr x" "rows_at l' = (case x of Put w \<Rightarrow> (rows_at l)(dev := Some (canon w)) | _ \<Rightarrow> rows_at l)" by blast
    have "rows_at l' dev \<noteq> None"
    proof (cases old)
      case None
      with old(2,3) show ?thesis by (auto simp: ensure_row_def split: if_splits)
    next
      case (Some v)
      with old(2) have "x = Keep" by (auto simp: ensure_row_def rbind_eq_Inr)
      moreover have "rows_at l dev = Some (canon v)" using old(1) Some by (simp add: answers_def)
      ultimately show ?thesis using old(3) by simp
    qed
    with Inr show ?thesis by simp
  next
    case (Inl e)
    have False if "answers (\<lambda>k v. row_ok handout_cfg (k, v)) (rows_at l) dev old" "ensure_row dev now s old = Inl x" for old x
      using ensure_row_error [OF that(2)] that(1) s(2) by (auto simp: answers_def handout_row_ok_iff)
    with row_update_error [OF ok a [unfolded admit_ensure_def Inl]] Inl show ?thesis by blast
  qed
qed

lemma confirm_step:
  assumes ok: "ledger_ok l" and row: "rows_at l dev \<noteq> None"
    and a: "lift_rows (update handout_cfg io dev (confirm_row msg dev) (hrows l)) l = (l', r)"
  shows "ledger_ok l' \<and> ledger_grows l l' \<and> devices_of l' = devices_of l" and "r = Inr Keep" and "rows_at l' = rows_at l"
proof -
  have cb: "callback_ok l dev (confirm_row msg dev)" using confirm_row_keeps(1) by (auto simp: callback_ok_def)
  note u = row_update_step [OF ok cb a]
  show "ledger_ok l' \<and> ledger_grows l l' \<and> devices_of l' = devices_of l" by (rule u(1))
  have ans: "confirm_row msg dev old = Inr Keep" if "answers (\<lambda>k v. row_ok handout_cfg (k, v)) (rows_at l) dev old" for old
    using answers_some [OF that row] confirm_row_keeps(2) by metis
  have noput: "\<forall>old. \<forall>v. confirm_row msg dev old \<noteq> Inr (Put v) \<and> confirm_row msg dev old \<noteq> Inr Delete"
    using confirm_row_keeps(1) by blast
  show "r = Inr Keep"
  proof (cases r)
    case (Inl e)
    from row_update_error [OF ok a [unfolded Inl]] ans noput show ?thesis by (metis Inr_not_Inl)
  next
    case (Inr x)
    from u(2) [OF this] ans show ?thesis using Inr confirm_row_keeps(1) by blast
  qed
  from u(2) [OF this] show "rows_at l' = rows_at l" by auto
qed

lemma row_items_canon:
  assumes "handout_row_ok dev v"
  shows "row_items (canon v) = map canon_rows (row_items v)"
  using assms by (rule row_items_parts) (simp add: row_items_def jget_canon comp_def)

definition disclosure :: "request \<Rightarrow> json option \<Rightarrow> upd res" where
  "disclosure rq = disclose_row (rq_dev rq) (rq_hash rq) (rq_time rq) (rq_ttl rq) (rq_addresses rq)"

lemma disclose_step:
  assumes ok: "ledger_ok l" and rq: "request_ok rq" and row: "dget (devices_of l) (rq_dev rq) \<noteq> None" "rows_at l (rq_dev rq) \<noteq> None"
    and a: "lift_rows (update handout_cfg io (rq_dev rq) (disclosure rq) (hrows l)) l = (l', r)"
  shows "ledger_ok l' \<and> ledger_grows l l' \<and> devices_of l' = devices_of l"
    and "(\<exists>u old. r = Inr u \<and> handout_row_ok (rq_dev rq) old \<and> disclosure rq (Some old) = Inr u \<and>
           rows_at l' (rq_dev rq) = Some (canon (case u of Put w \<Rightarrow> w | _ \<Rightarrow> old))) \<or>
         r = Inl (RowStore OSError) \<and> \<not> (\<forall>b. shard_ok io b) \<or>
         r = Inl (RowStore (Raised (StateError ADDRESS_CAP))) \<and>
           (\<exists>v. rows_at l (rq_dev rq) = Some v \<and> MAX_ADDRESSES < length (row_items v) + length (rq_addresses rq))"
proof -
  have dok: "disclosure_ok (rq_hash rq) (rq_time rq) (rq_ttl rq) (rq_addresses rq)" using rq by (simp add: request_ok_def)
  have cb: "callback_ok l (rq_dev rq) (disclosure rq)"
    unfolding callback_ok_def
  proof (intro allI impI)
    fix old u assume "answers (\<lambda>k v. row_ok handout_cfg (k, v)) (rows_at l) (rq_dev rq) old" "disclosure rq old = Inr u"
    then show "u = Keep \<or> (\<exists>w. u = Put w \<and> w \<noteq> JNull \<and> handout_row_ok (rq_dev rq) w \<and> dget (devices_of l) (rq_dev rq) \<noteq> None)"
      using answers_some [of "rows_at l" "rq_dev rq" old] row disclose_row_effect(1) [OF _ dok] by (metis disclosure_def)
  qed
  note u = row_update_step [OF ok cb a]
  show "ledger_ok l' \<and> ledger_grows l l' \<and> devices_of l' = devices_of l" by (rule u(1))
  show "(\<exists>u old. r = Inr u \<and> handout_row_ok (rq_dev rq) old \<and> disclosure rq (Some old) = Inr u \<and>
           rows_at l' (rq_dev rq) = Some (canon (case u of Put w \<Rightarrow> w | _ \<Rightarrow> old))) \<or>
         r = Inl (RowStore OSError) \<and> \<not> (\<forall>b. shard_ok io b) \<or>
         r = Inl (RowStore (Raised (StateError ADDRESS_CAP))) \<and>
           (\<exists>v. rows_at l (rq_dev rq) = Some v \<and> MAX_ADDRESSES < length (row_items v) + length (rq_addresses rq))"
  proof (cases r)
    case (Inr x)
    from u(2) [OF this] obtain old where old: "answers (\<lambda>k v. row_ok handout_cfg (k, v)) (rows_at l) (rq_dev rq) old"
      "disclosure rq old = Inr x" "rows_at l' = (case x of Put w \<Rightarrow> (rows_at l)(rq_dev rq := Some (canon w)) | _ \<Rightarrow> rows_at l)" by blast
    from answers_some [OF old(1) row(2)] obtain v where v: "old = Some v" "handout_row_ok (rq_dev rq) v"
      "rows_at l (rq_dev rq) = Some (canon v)" by metis
    with old Inr show ?thesis by (cases x) auto
  next
    case (Inl e)
    have "x = StateError ADDRESS_CAP \<and>
        (\<exists>v. rows_at l (rq_dev rq) = Some v \<and> MAX_ADDRESSES < length (row_items v) + length (rq_addresses rq))"
      if an: "answers (\<lambda>k v. row_ok handout_cfg (k, v)) (rows_at l) (rq_dev rq) old" and x: "disclosure rq old = Inl x" for old x
    proof -
      obtain v where v: "old = Some v" "handout_row_ok (rq_dev rq) v" "rows_at l (rq_dev rq) = Some (canon v)"
        by (rule answers_some [OF an row(2)])
      note e = disclose_row_error [OF v(2) x [unfolded v(1) disclosure_def]]
      then show ?thesis using v(3) row_items_canon [OF v(2)] by simp
    qed
    with row_update_error [OF ok a [unfolded Inl]] Inl show ?thesis by blast
  qed
qed

section \<open>Runs\<close>

definition benign :: "faults \<Rightarrow> write_outcome \<Rightarrow> ledger \<Rightarrow> request \<Rightarrow> stage \<Rightarrow> herror \<Rightarrow> bool" where
  \<comment> \<open>a failure of the file system, the cap on recipients, or the cap on addresses\<close>
  "benign io w l rq sg e \<longleftrightarrow>
     e = WriteFailed \<and> w \<noteq> Synced \<or> e = RecipientCap \<and> 10256 \<le> length (devices_of l) \<or>
     e = RowStore OSError \<and> \<not> (\<forall>b. shard_ok io b) \<or>
     sg = Disclose \<and> e = RowStore (Raised (StateError ''handout address cap reached'')) \<and>
       (\<exists>v. rows_at l (rq_dev rq) = Some v \<and> 4096 < length (row_items v) + length (rq_addresses rq))"

lemmas benign_eq = benign_def [folded ADDRESS_CAP_def, unfolded MAX_ADDRESSES_def [symmetric] MAX_RECIPIENTS_def [symmetric]]

lemma ledger_grows_row: "ledger_grows l l' \<Longrightarrow> rows_at l k \<noteq> None \<Longrightarrow> rows_at l' k \<noteq> None"
  and ledger_grows_dev: "ledger_grows l l' \<Longrightarrow> dget (devices_of l) k \<noteq> None \<Longrightarrow> dget (devices_of l') k \<noteq> None"
  unfolding ledger_grows_def by blast+

lemma advance_ok:
  assumes ok: "ledger_ok l" and rq: "request_ok rq" and sg: "stage_ok l (rq_dev rq) sg" and a: "advance io w rq sg l = (l', r)"
  shows "ledger_ok l' \<and> ledger_grows l l' \<and>
    (case r of Inl e \<Rightarrow> benign io w l rq sg e | Inr None \<Rightarrow> sg = Disclose | Inr (Some sg') \<Rightarrow> stage_ok l' (rq_dev rq) sg')"
proof -
  have dev: "device_id_ok (rq_dev rq)" and tm: "0 \<le> rq_time rq" "rq_time rq \<le> MAX_I63"
    using rq by (auto simp: request_ok_def disclosure_ok_def)
  show ?thesis
  proof (cases sg)
    case Look
    with a have "lbind (admit_look io (rq_dev rq) l) (\<lambda>l' b. (l', Inr (Some (Reserve b)))) = (l', r)" by (simp add: advance_def)
    then show ?thesis by (cases rule: lbind_cases) (use look_step [OF ok] in fastforce)+
  next
    case (Reserve b)
    with a have "lbind (admit_reserve w (rq_dev rq) b l) (\<lambda>l' s. (l', Inr (Some (Ensure s)))) = (l', r)" by (simp add: advance_def)
    then show ?thesis
    proof (cases rule: lbind_cases)
      case (stop e)
      with reserve_step [OF ok dev _ stop(1)] Reserve sg show ?thesis by (simp add: benign_eq) blast
    next
      case (go l1 s)
      with reserve_step [OF ok dev _ go(1)] Reserve sg show ?thesis by auto
    qed
  next
    case (Ensure s)
    with sg have s: "dget (devices_of l) (rq_dev rq) \<noteq> None" "s = ''active'' \<longrightarrow> rows_at l (rq_dev rq) \<noteq> None" by simp_all
    from Ensure a have "lbind (admit_ensure io (rq_dev rq) (rq_time rq) s l) (\<lambda>l' _. (l', Inr (Some Activate))) = (l', r)"
      by (simp add: advance_def)
    then show ?thesis
    proof (cases rule: lbind_cases)
      case (stop e)
      with ensure_step [OF ok dev tm s stop(1)] show ?thesis by (auto simp: benign_eq)
    next
      case (go l1 x)
      with ensure_step [OF ok dev tm s go(1)] s(1) show ?thesis by auto
    qed
  next
    case Activate
    with sg have s: "dget (devices_of l) (rq_dev rq) \<noteq> None" "rows_at l (rq_dev rq) \<noteq> None" by simp_all
    from Activate a have "lbind (admit_activate w (rq_dev rq) l) (\<lambda>l' _. (l', Inr (Some Confirm))) = (l', r)" by (simp add: advance_def)
    then show ?thesis
    proof (cases rule: lbind_cases)
      case (stop e)
      with activate_step [OF ok dev s stop(1)] show ?thesis by (auto simp: benign_eq)
    next
      case (go l1 x)
      have "ledger_ok l1" "ledger_grows l l1" using activate_step(1) [OF ok dev s go(1)] by simp_all
      then show ?thesis using go(2) ledger_grows_row [OF _ s(2)] ledger_grows_dev [OF _ s(1)] by auto
    qed
  next
    case Confirm
    with sg have s: "dget (devices_of l) (rq_dev rq) \<noteq> None" "rows_at l (rq_dev rq) \<noteq> None" by simp_all
    from Confirm a have "lbind (admit_confirm io (rq_dev rq) l) (\<lambda>l' _. (l', Inr (Some Disclose))) = (l', r)" by (simp add: advance_def)
    then show ?thesis
    proof (cases rule: lbind_cases)
      case (stop e)
      with confirm_step(2) [OF ok s(2) stop(1) [unfolded admit_confirm_def]] show ?thesis by simp
    next
      case (go l1 x)
      with confirm_step [OF ok s(2) go(1) [unfolded admit_confirm_def]] s show ?thesis by auto
    qed
  next
    case Disclose
    with sg have s: "dget (devices_of l) (rq_dev rq) \<noteq> None" "rows_at l (rq_dev rq) \<noteq> None" by simp_all
    from Disclose a have "lbind (lift_rows (update handout_cfg io (rq_dev rq) (disclosure rq) (hrows l)) l) (\<lambda>l' _. (l', Inr None)) = (l', r)"
      by (simp add: advance_def disclosure_def)
    then show ?thesis
    proof (cases rule: lbind_cases)
      case (stop e)
      with disclose_step [OF ok rq s stop(1)] Disclose show ?thesis by (auto simp: benign_eq)
    next
      case (go l1 x)
      with disclose_step(1) [OF ok rq s go(1)] Disclose show ?thesis by auto
    qed
  qed
qed

lemma new_ledger_wf: "store_wf handout_cfg empty_store" "view handout_cfg empty_store = (\<lambda>_. None)"
proof -
  have rd: "read_shard handout_cfg empty_store b = Inr []" for b by (simp add: read_shard_def empty_store_def)
  have p: "pending handout_cfg empty_store = []" by (simp add: pending_def empty_store_def)
  show "store_wf handout_cfg empty_store" unfolding store_wf_def by (simp add: rd p dwf_def) (simp add: empty_store_def)
  show "view handout_cfg empty_store = (\<lambda>_. None)" by (rule ext) (simp add: view_def shard_get_def rows_of_def rd p)
qed

lemma created_ok:
  assumes "initialize_ledger io w True \<lparr>admissions = Missing, hrows = empty_store\<rparr> = (l, Inr True)"
  shows "ledger_ok l"
proof -
  obtain s1 q where s1: "snapshot handout_cfg io empty_store = (s1, q)" by fastforce
  have leg: "legacy empty_store = Missing" by (simp add: empty_store_def)
  note v = snapshot_view [OF handout_cfg_ok new_ledger_wf(1) s1]
  from snapshot_legacy [OF new_ledger_wf(1) leg, of io] s1 obtain rows where q: "q = Inr rows" "legacy s1 = Missing" by auto
  from assms have wd: "write_document w [] \<lparr>admissions = Missing, hrows = s1\<rparr> = (l, Inr ())"
    by (auto simp: initialize_ledger_def read_admissions_def lift_rows_def s1 q(1) lbind_def split: if_splits prod.splits sum.splits)
  have "hrows l = s1 \<and> devices_of l = [] \<and> require_admissions (admissions l) = Inr (devices_of l)"
    using write_document_cases [OF wd] by (auto simp: states_ok_def)
  then show ?thesis using v q(2) new_ledger_wf(2) by (simp add: ledger_ok_def dwf_def)
qed

theorem run_ok:
  "ledger_run l ts \<Longrightarrow> ledger_ok l \<and> (\<forall>(rq, sg)\<in>set ts. request_ok rq \<and> stage_ok l (rq_dev rq) sg)"
proof (induction rule: ledger_run.induct)
  case (created io w l)
  then show ?case using created_ok by auto
next
  case (called l ts rq)
  then show ?case by auto
next
  case (advanced l us rq sg vs io w l' sg')
  then have "request_ok rq" "stage_ok l (rq_dev rq) sg" "ledger_ok l" by auto
  from advance_ok [OF this(3,1,2) advanced.hyps(2)] advanced.IH show ?case by (auto intro: stage_ok_grows)
next
  case (returned l us rq sg vs io w l')
  then have "request_ok rq" "stage_ok l (rq_dev rq) sg" "ledger_ok l" by auto
  from advance_ok [OF this(3,1,2) returned.hyps(2)] returned.IH show ?case by (auto intro: stage_ok_grows)
next
  case (failed l us rq sg vs io w l' e)
  then have "request_ok rq" "stage_ok l (rq_dev rq) sg" "ledger_ok l" by auto
  from advance_ok [OF this(3,1,2) failed.hyps(2)] failed.IH show ?case by (auto intro: stage_ok_grows)
next
  case (restarted l ts)
  have "devices_of (l\<lparr>hrows := (hrows l)\<lparr>migrated := False\<rparr>\<rparr>) = devices_of l" by (simp add: devices_of_def)
  with restarted.IH view_restart [of "hrows l" handout_cfg] show ?case by (auto simp: ledger_ok_def)
qed

section \<open>Properties\<close>

lemma has_key_iff: "has_key d k \<longleftrightarrow> dget d k \<noteq> None"
  by (auto simp: has_key_dget)

text \<open>
  C32.  The admission protocol is safe under concurrency and crashes.  In every state that any interleaving of
  recording calls reaches, with any writes refused or failing after they became visible and the process
  killed at any point, start-up validation accepts the store.  No step of any call is ever told that
  evidence is missing, changed or corrupt.  What it can meet is a write or sync that the file system
  fails, the cap of 10256 recipients once that many are admitted, and, in the last step only, the cap of 4096 addresses
  when the device's row and the request together exceed it.  At most 10256 devices are admitted and every
  stored row is valid.
\<close>

theorem handout_protocol_safe:
  assumes "ledger_run l ts"
  shows "snd (initialize_ledger io w create l) = Inr False \<and>
    (\<forall>rq sg io' w'. (rq, sg) \<in> set ts \<longrightarrow> (case snd (advance io' w' rq sg l) of
        Inl e \<Rightarrow> e = WriteFailed \<and> w' \<noteq> Synced \<or> e = RecipientCap \<and> 10256 \<le> length (devices_of l) \<or>
          e = RowStore OSError \<and> \<not> (\<forall>b. shard_ok io' b) \<or>
          sg = Disclose \<and> e = RowStore (Raised (StateError ''handout address cap reached'')) \<and>
            (\<exists>v. rows_at l (rq_dev rq) = Some v \<and> 4096 < length (row_items v) + length (rq_addresses rq))
      | Inr _ \<Rightarrow> True)) \<and>
    length (devices_of l) \<le> 10256 \<and> (\<forall>k v. rows_at l k = Some v \<longrightarrow> handout_row_ok k v)"
proof -
  have ok: "ledger_ok l" and ts: "\<And>rq sg. (rq, sg) \<in> set ts \<Longrightarrow> request_ok rq \<and> stage_ok l (rq_dev rq) sg"
    using run_ok [OF assms] by auto
  have wf: "store_wf handout_cfg (hrows l)" and leg: "legacy (hrows l) = Missing"
    and req: "require_admissions (admissions l) = Inr (devices_of l)" using ok by (simp_all add: ledger_ok_def)
  obtain s1 q where s1: "snapshot handout_cfg io (hrows l) = (s1, q)" by fastforce
  from snapshot_legacy [OF wf leg, of io] s1 obtain rows where q: "q = Inr rows" by auto
  have old: "answers (\<lambda>k v. row_ok handout_cfg (k, v)) (rows_at l) k (dget rows k)" for k
    using snapshot_view [OF handout_cfg_ok wf s1] q by (simp add: old_row_answers)
  then have rows: "dget rows k = None \<longleftrightarrow> rows_at l k = None" for k by (metis answers_def option.map_disc_iff)
  have "dget (devices_of l) k \<noteq> None" if "k \<in> set (dkeys rows)" for k
  proof -
    from that have "dget rows k \<noteq> None" by (metis dget_None_iff)
    then have "rows_at l k \<noteq> None" by (simp only: rows not_False_eq_True)
    with ok show ?thesis unfolding ledger_ok_def by blast
  qed
  then have "list_all (\<lambda>k. has_key (devices_of l) k) (dkeys rows)" by (simp only: list_all_iff has_key_iff) blast
  moreover have "\<not> list_ex (\<lambda>(k, s). s = JStr ''active'' \<and> \<not> has_key rows k) (devices_of l)"
    using ok rows by (auto simp: list_ex_iff has_key_iff ledger_ok_def dwf_dget_iff)
  moreover have "read_admissions (admissions l) = Inr (Some (devices_of l))"
    using req by (auto simp: require_admissions_def rbind_eq_Inr split: option.splits)
  ultimately have "snd (initialize_ledger io w create l) = Inr False"
    by (simp add: initialize_ledger_def lift_rows_def s1 q lbind_def check_established_def)
  moreover have "case snd (advance io' w' rq sg l) of Inl e \<Rightarrow> benign io' w' l rq sg e | Inr _ \<Rightarrow> True" if "(rq, sg) \<in> set ts" for rq sg io' w'
  proof -
    obtain l' r where a: "advance io' w' rq sg l = (l', r)" by fastforce
    from advance_ok [OF ok _ _ a] ts [OF that] a show ?thesis by (auto split: sum.splits)
  qed
  moreover have "handout_row_ok k v" if "rows_at l k = Some v" for k v
    using old [of k] that by (auto simp: answers_def handout_row_ok_iff)
  ultimately show ?thesis using devices_valid(1) [OF req] unfolding benign_def by (simp add: MAX_RECIPIENTS_def)
qed

text \<open>The composed call is a run of its stages.\<close>

lemma lbind_assoc: "lbind (lbind m f) g = lbind m (\<lambda>l x. lbind (f l x) g)"
  by (auto simp: lbind_def split: prod.splits sum.splits)

lemma admit_device_ok:
  assumes ok: "ledger_ok l" and dev: "device_id_ok dev" and tm: "0 \<le> now" "now \<le> MAX_I63"
    and a: "admit_device f dev now l = (l', Inr ())"
  shows "ledger_ok l' \<and> dget (devices_of l') dev = Some (JStr ''active'') \<and> rows_at l' dev \<noteq> None"
proof -
  from a obtain l1 b where l1: "admit_look (io_look f) dev l = (l1, Inr b)"
    and a1: "lbind (admit_reserve (w_reserve f) dev b l1) (\<lambda>l2 state.
     lbind (admit_ensure (io_ensure f) dev now state l2) (\<lambda>l3 _.
     lbind (admit_activate (w_activate f) dev l3) (\<lambda>l4 _.
     lbind (admit_confirm (io_confirm f) dev l4) (\<lambda>l5 _. (l5, Inr ()))))) = (l', Inr ())"
    unfolding admit_device_def by (rule lbind_cases) auto
  have ok1: "ledger_ok l1" and b: "b \<longrightarrow> dget (devices_of l1) dev \<noteq> None" using look_step [OF ok l1] by auto
  from a1 obtain l2 s where l2: "admit_reserve (w_reserve f) dev b l1 = (l2, Inr s)"
    and a2: "lbind (admit_ensure (io_ensure f) dev now s l2) (\<lambda>l3 _.
     lbind (admit_activate (w_activate f) dev l3) (\<lambda>l4 _.
     lbind (admit_confirm (io_confirm f) dev l4) (\<lambda>l5 _. (l5, Inr ())))) = (l', Inr ())"
    by (rule lbind_cases) auto
  have ok2: "ledger_ok l2" and s: "dget (devices_of l2) dev \<noteq> None" "s = ''active'' \<longrightarrow> rows_at l2 dev \<noteq> None"
    using reserve_step [OF ok1 dev b l2] by auto
  from a2 obtain l3 u where l3: "admit_ensure (io_ensure f) dev now s l2 = (l3, Inr u)"
    and a3: "lbind (admit_activate (w_activate f) dev l3) (\<lambda>l4 _.
     lbind (admit_confirm (io_confirm f) dev l4) (\<lambda>l5 _. (l5, Inr ()))) = (l', Inr ())"
    by (rule lbind_cases) auto
  have ok3: "ledger_ok l3" and d3: "dget (devices_of l3) dev \<noteq> None" and r3: "rows_at l3 dev \<noteq> None"
    using ensure_step [OF ok2 dev tm s l3] s(1) by auto
  from a3 obtain l4 v where l4: "admit_activate (w_activate f) dev l3 = (l4, Inr v)"
    and a4: "lbind (admit_confirm (io_confirm f) dev l4) (\<lambda>l5 _. (l5, Inr ())) = (l', Inr ())"
    by (rule lbind_cases) auto
  have ok4: "ledger_ok l4" and r4: "rows_at l4 dev \<noteq> None"
    using activate_step(1) [OF ok3 dev d3 r3 l4] ledger_grows_row [OF _ r3] by auto
  have act: "dget (devices_of l4) dev = Some (JStr ''active'')" by (rule activated [OF ok3 dev d3 r3 l4])
  from a4 obtain x where "admit_confirm (io_confirm f) dev l4 = (l', Inr x)" by (rule lbind_cases) auto
  from confirm_step [OF ok4 r4 this [unfolded admit_confirm_def]] act r4 show ?thesis by auto
qed

subsection \<open>Evidence\<close>

lemma row_of_update_view:
  assumes "ledger_ok l"
  shows "map_option canon (row_of_update dev (hrows l)) = rows_at l dev"
proof -
  have wf: "store_wf handout_cfg (hrows l)" and leg: "legacy (hrows l) = Missing" using assms by (simp_all add: ledger_ok_def)
  have "pending handout_cfg (hrows l) = []" using leg by (simp add: pending_def)
  from view_settled [OF this] show ?thesis
    using row_get_shard [OF wf, of dev] by (simp add: row_of_update_def store_wf_read [OF wf])
qed

lemma expires_of_canon [simp]: "expires_of (canon_rows it) = expires_of it"
  by (cases "jget it ''expires_at''") (simp_all add: expires_of_def jget_canon)

text \<open>Two rows that differ in the order of keys show the same items.\<close>

lemma canon_items:
  assumes "canon v = canon w" and "handout_row_ok dev v" and "handout_row_ok dev w" and "it \<in> set (row_items w)"
    and "jget it ''address'' = JStr a" and "jget it ''info_hash'' = JStr h"
  shows "\<exists>it'\<in>set (row_items v). jget it' ''address'' = JStr a \<and> jget it' ''info_hash'' = JStr h \<and> expires_of it' = expires_of it"
proof -
  have "canon_rows it \<in> set (map canon_rows (row_items v))"
    using row_items_canon [OF assms(2)] row_items_canon [OF assms(3)] assms(1,4) by (metis imageI list.set_map)
  then obtain it' where it': "it' \<in> set (row_items v)" "canon_rows it' = canon_rows it" by auto
  have c: "canon (jget it' k) = canon (jget it k)" for k using it'(2) jget_canon by metis
  have "jget it' ''address'' = JStr a" using c [of "''address''"] assms(5) by simp
  moreover have "jget it' ''info_hash'' = JStr h" using c [of "''info_hash''"] assms(6) by simp
  moreover have "expires_of it' = expires_of it" using it'(2) expires_of_canon by metis
  ultimately show ?thesis using it'(1) by blast
qed

lemma those_in: "those xs = Some ys \<Longrightarrow> y \<in> set ys \<Longrightarrow> Some y \<in> set xs"
  by (induction xs arbitrary: ys) (auto split: option.splits)

lemma peer_addresses_parse:
  assumes "peer_addresses peers = Some addresses" and "a \<in> set addresses"
  shows "parse_ipv4 a \<noteq> None"
proof -
  from assms obtain xs where "those (map peer_address peers) = Some xs" "a \<in> set xs" by (auto simp: peer_addresses_def)
  from those_in [OF this] show ?thesis by (auto simp: peer_address_def address_of_def split: option.splits if_splits)
qed

lemma current_active:
  assumes ok: "ledger_ok l" and adm: "dget (devices_of l) dev = Some (JStr ''active'')" and dev: "device_id_ok dev"
    and t: "0 \<le> t" "t \<le> MAX_I63" and row: "rows_at l dev = Some (canon w)" and w: "handout_row_ok dev w"
    and it: "it \<in> set (row_items w)" "jget it ''address'' = JStr a" "jget it ''info_hash'' = JStr h" "t < expires_of it"
  shows "\<exists>items it. snd (current_handouts io (JStr dev) (JInt t) l) = Inr items \<and> it \<in> set items \<and>
     jget it ''address'' = JStr a \<and> jget it ''info_hash'' = JStr h \<and> t < expires_of it"
proof -
  have req: "require_admissions (admissions l) = Inr (devices_of l)" using ok by (simp add: ledger_ok_def)
  obtain l1 r where c: "lift_rows (update handout_cfg io dev (confirm_row ROW_MISSING dev) (hrows l)) l = (l1, r)" by fastforce
  have row': "rows_at l dev \<noteq> None" using row by simp
  note cs = confirm_step [OF ok row' c]
  have "map_option canon (row_of_update dev (hrows l1)) = Some (canon w)" using row_of_update_view [of l1 dev] cs row by simp
  then obtain v where v: "row_of_update dev (hrows l1) = Some v" "canon v = canon w" by auto
  have "handout_row_ok dev v" using w v(2) by (metis handout_row_ok_canon)
  from canon_items [OF v(2) this w it(1,2,3)] obtain it' where it': "it' \<in> set (row_items v)" "jget it' ''address'' = JStr a"
    "jget it' ''info_hash'' = JStr h" "expires_of it' = expires_of it" by blast
  have "snd (current_handouts io (JStr dev) (JInt t) l) = Inr (filter (\<lambda>it. t < expires_of it) (row_items v))"
    using dev t req adm c cs(2) v(1) by (simp add: current_handouts_def integer_time_def lbind_def)
  with it' it(4) show ?thesis by auto
qed

text \<open>
  C33.  A disclosure is on record.  When \<^verbatim>\<open>record\<close> returns on a reachable ledger, whatever other calls are under
  way, every address it was given is reported by \<^verbatim>\<open>current\<close> for that device with the swarm it was given for,
  at any time from the disclosure until the renewal margin or the time to live has passed.
\<close>

theorem handout_evidence:
  assumes "ledger_run l ts" and "1 \<le> ttl" and "record_handout ttl f io p peers (JStr h) now l = (l', Inr True)"
    and "ptype p = ''device''" and "peer_addresses peers = Some addresses" and "a \<in> set addresses"
    and "integer_time now = Some d" and "d \<le> t" and "t < d + ttl" and "t \<le> d + renewal_margin ttl"
  shows "\<exists>items it. snd (current_handouts io' (JStr (pid p)) (JInt t) l') = Inr items \<and> it \<in> set items \<and>
     jget it ''address'' = JStr a \<and> jget it ''info_hash'' = JStr h \<and> t < expires_of it"
proof -
  have ok: "ledger_ok l" using run_ok [OF assms(1)] by simp
  have d0: "0 \<le> d" using assms(7) by (auto simp: integer_time_def py_trunc_def split: json.splits if_splits)
  have ne: "addresses \<noteq> []" using assms(6) by auto
  let ?rq = "\<lparr>rq_dev = pid p, rq_hash = h, rq_time = d, rq_ttl = ttl, rq_addresses = addresses\<rparr>"
  from assms(3,4,5,7) ne have g: "device_id_ok (pid p)" "hex40_ok h" "d + ttl \<le> MAX_I63"
    and a: "lbind (admit_device f (pid p) d l) (\<lambda>l1 _. lbind (lift_rows (update handout_cfg io (pid p)
         (disclosure ?rq) (hrows l1)) l1) (\<lambda>l2 _. (l2, Inr True))) = (l', Inr True)"
    by (auto simp: record_handout_def disclosure_def split: if_splits)
  have rq: "request_ok ?rq" using g d0 assms(2) peer_addresses_parse [OF assms(5)] by (simp add: request_ok_def disclosure_ok_def)
  have dmax: "d \<le> MAX_I63" using g(3) assms(2) by linarith
  from a obtain l1 u where l1: "admit_device f (pid p) d l = (l1, Inr u)" and
    a1: "lbind (lift_rows (update handout_cfg io (pid p) (disclosure ?rq) (hrows l1)) l1) (\<lambda>l2 _. (l2, Inr True)) = (l', Inr True)"
    by (rule lbind_cases) auto
  from admit_device_ok [OF ok g(1) d0 dmax] l1 have ok1: "ledger_ok l1" and act: "dget (devices_of l1) (pid p) = Some (JStr ''active'')"
    and row1: "rows_at l1 (pid p) \<noteq> None" by auto
  from a1 obtain x where x: "lift_rows (update handout_cfg io (rq_dev ?rq) (disclosure ?rq) (hrows l1)) l1 = (l', Inr x)"
    by (rule lbind_cases) auto
  have s1: "dget (devices_of l1) (rq_dev ?rq) \<noteq> None" "rows_at l1 (rq_dev ?rq) \<noteq> None" using act row1 by simp_all
  note ds = disclose_step [OF ok1 rq s1 x]
  from ds(2) obtain old where old: "handout_row_ok (pid p) old" "disclosure ?rq (Some old) = Inr x"
    "rows_at l' (pid p) = Some (canon (case x of Put w \<Rightarrow> w | _ \<Rightarrow> old))" by auto
  let ?w = "case x of Put w \<Rightarrow> w | _ \<Rightarrow> old"
  have dok: "disclosure_ok h d ttl addresses" using rq by (simp add: request_ok_def)
  note eff = disclose_row_effect [OF old(1) dok old(2) [unfolded disclosure_def, simplified]]
  have w: "handout_row_ok (pid p) ?w" using eff(1) old(1) by (cases x) auto
  obtain it where it: "it \<in> set (row_items ?w)" "jget it ''address'' = JStr a" "jget it ''info_hash'' = JStr h" "t < expires_of it"
    using eff(2) [OF assms(6,9,10)] by blast
  show ?thesis
    by (rule current_active [OF _ _ g(1) _ _ old(3) w it]) (use ds(1) act d0 assms(8,9) g(3) in auto)
qed

section \<open>A concrete run\<close>

definition demo_ledger :: ledger where
  "demo_ledger = fst (initialize_ledger no_faults Synced True \<lparr>admissions = Missing, hrows = empty_store\<rparr>)"

definition demo_request :: request where
  "demo_request = \<lparr>rq_dev = ''r1'', rq_hash = replicate 40 CHR ''a'', rq_time = 100, rq_ttl = 900, rq_addresses = [''10.0.0.1'']\<rparr>"

definition demo_admit :: admit_faults where
  "demo_admit = \<lparr>io_look = no_faults, w_reserve = Synced, io_ensure = no_faults, w_activate = Synced, io_confirm = no_faults\<rparr>"

lemma demo_created: "ledger_run demo_ledger []"
proof (rule ledger_run.created)
  have "snd (initialize_ledger no_faults Synced True \<lparr>admissions = Missing, hrows = empty_store\<rparr>) = Inr True" by code_simp
  then show "initialize_ledger no_faults Synced True \<lparr>admissions = Missing, hrows = empty_store\<rparr> = (demo_ledger, Inr True)"
    unfolding demo_ledger_def by (metis prod.collapse)
qed

text \<open>A call whose reservation becomes visible although the write failed, and a restart after it.\<close>

definition demo_looked :: ledger where
  "demo_looked = fst (advance no_faults Synced demo_request Look demo_ledger)"

definition demo_crashed :: ledger where
  "demo_crashed = (let l = fst (advance no_faults Unsynced demo_request (Reserve False) demo_looked)
     in l\<lparr>hrows := (hrows l)\<lparr>migrated := False\<rparr>\<rparr>)"

lemma demo_request_ok: "request_ok demo_request"
  by code_simp

lemma demo_run: "ledger_run demo_crashed [(demo_request, Look)]"
proof -
  have "ledger_run demo_ledger ([] @ (demo_request, Look) # [])"
    using ledger_run.called [OF demo_created demo_request_ok] by simp
  moreover have "snd (advance no_faults Synced demo_request Look demo_ledger) = Inr (Some (Reserve False))" by code_simp
  ultimately have "ledger_run demo_looked ([] @ (demo_request, Reserve False) # [])"
    unfolding demo_looked_def by (metis ledger_run.advanced prod.collapse)
  moreover have "snd (advance no_faults Unsynced demo_request (Reserve False) demo_looked) = Inl WriteFailed" by code_simp
  ultimately have "ledger_run (fst (advance no_faults Unsynced demo_request (Reserve False) demo_looked)) ([] @ [])"
    by (metis ledger_run.failed prod.collapse)
  then show ?thesis unfolding demo_crashed_def Let_def
    by (intro ledger_run.called [OF ledger_run.restarted demo_request_ok])
qed

theorem handout_protocol_safe_witness:
  "dget (devices_of demo_crashed) ''r1'' = Some (JStr ''pending'') \<and>
   snd (initialize_ledger no_faults Synced False demo_crashed) = Inr False"
proof -
  have "dget (devices_of demo_crashed) ''r1'' = Some (JStr ''pending'')" by code_simp
  then show ?thesis using handout_protocol_safe [OF demo_run, of no_faults Synced False] by blast
qed

theorem handout_evidence_witness:
  "\<exists>items it. snd (current_handouts no_faults (JStr ''r1'') (JInt 150)
       (fst (record_handout 900 demo_admit no_faults \<lparr>ptype = ''device'', pid = ''r1''\<rparr> [JObj [(''ip'', JStr ''10.0.0.1'')]]
         (JStr (replicate 40 CHR ''a'')) (JInt 100) demo_ledger))) = Inr items \<and> it \<in> set items \<and>
     jget it ''address'' = JStr ''10.0.0.1''"
proof -
  let ?r = "record_handout 900 demo_admit no_faults \<lparr>ptype = ''device'', pid = ''r1''\<rparr> [JObj [(''ip'', JStr ''10.0.0.1'')]]
         (JStr (replicate 40 CHR ''a'')) (JInt 100) demo_ledger"
  have "snd ?r = Inr True" by code_simp
  then have r: "?r = (fst ?r, Inr True)" by (metis prod.collapse)
  have p: "peer_addresses [JObj [(''ip'', JStr ''10.0.0.1'')]] = Some [''10.0.0.1'']" by code_simp
  have d: "integer_time (JInt 100) = Some 100" by (simp add: integer_time_def MAX_I63_def)
  from handout_evidence [OF demo_created _ r _ p _ d, of "''10.0.0.1''" 150 no_faults] show ?thesis
    by (auto simp: renewal_margin_def)
qed

end
