(* ===== verification/Civil_Time.thy ===== *)
theory Civil_Time
  imports Prelude
begin

text \<open>
  Civil time as \<^verbatim>\<open>schedules.next_fire\<close> uses it.  A zone is what \<^verbatim>\<open>zoneinfo\<close> compiles from the time zone database: a
  first UTC offset and the later instants at which the offset changes (finitely many before the last
  epoch the server accepts).  A naive \<^verbatim>\<open>datetime\<close> is its number of seconds since 1970-01-01, so dates are day
  numbers.  Reading a wall clock twice a year is ambiguous or impossible; \<^verbatim>\<open>resolve\<close> (\<^verbatim>\<open>schedules.py\<close>) chooses the
  instant, by bisection over the missing hour.  What the scheduler needs of a zone is the locale
  \<open>civil_zone\<close>, interpreted on every well-formed table.
\<close>

section \<open>Zones\<close>

record zone =
  base :: int                          \<comment> \<open>the offset before the first transition, in seconds\<close>
  shifts :: "(int \<times> int) list"         \<comment> \<open>instants in ascending order, each with the offset from then on\<close>

definition DAY :: int where
  "DAY = 86400"

fun offset_at :: "int \<Rightarrow> (int \<times> int) list \<Rightarrow> int \<Rightarrow> int" where
  \<comment> \<open>\<^verbatim>\<open>bisect_right\<close> over the instants\<close>
  "offset_at off [] t = off"
| "offset_at off ((u, off') # rest) t = (if t < u then off else offset_at off' rest t)"

fun wall_offset :: "bool \<Rightarrow> int \<Rightarrow> (int \<times> int) list \<Rightarrow> int \<Rightarrow> int" where
  \<comment> \<open>\<^verbatim>\<open>bisect_right\<close> over the wall clock readings of the instants: with \<^verbatim>\<open>fold=0\<close> the later of the two, else the earlier\<close>
  "wall_offset fd off [] l = off"
| "wall_offset fd off ((u, off') # rest) l =
     (if l < u + (if fd then min off off' else max off off') then off else wall_offset fd off' rest l)"

definition to_local :: "zone \<Rightarrow> int \<Rightarrow> int" where
  \<comment> \<open>\<^verbatim>\<open>datetime.fromtimestamp(t, zone).replace(tzinfo=None)\<close>\<close>
  "to_local z t = t + offset_at (base z) (shifts z) t"

definition to_epoch :: "zone \<Rightarrow> bool \<Rightarrow> int \<Rightarrow> int" where
  \<comment> \<open>\<^verbatim>\<open>local.replace(tzinfo=zone, fold=fold).timestamp()\<close>\<close>
  "to_epoch z fd l = l - wall_offset fd (base z) (shifts z) l"

section \<open>Resolving a wall clock reading\<close>

definition valid_stamps :: "zone \<Rightarrow> int \<Rightarrow> int list" where
  "valid_stamps z l = sort (remdups (filter (\<lambda>s. to_local z s = l) [to_epoch z False l, to_epoch z True l]))"

function bisect :: "(int \<Rightarrow> bool) \<Rightarrow> int \<Rightarrow> int \<Rightarrow> int" where
  "bisect ok low high =
     (if low < high
      then let middle = (low + high) div 2
           in if ok middle then bisect ok low middle else bisect ok (middle + 1) high
      else low)"
  by pat_completeness auto
termination
  by (relation "measure (\<lambda>(ok, low, high). nat (high - low))") auto

declare bisect.simps [simp del]

definition resolve_gap :: "zone \<Rightarrow> int \<Rightarrow> int option" where
  \<comment> \<open>\<open>None\<close> where \<^verbatim>\<open>min\<close> of nothing or indexing the empty list would raise\<close>
  "resolve_gap z l =
     (case filter (\<lambda>v. l < v) (map (\<lambda>fd. to_local z (to_epoch z fd l)) [False, True]) of
        [] \<Rightarrow> None
      | v # vs \<Rightarrow>
          let upper = foldl min v vs;
              low = bisect (\<lambda>s. valid_stamps z (l + s) \<noteq> []) 0 (upper - l)
          in (case valid_stamps z (l + low) of [] \<Rightarrow> None | s # _ \<Rightarrow> Some s))"

definition resolve_local :: "zone \<Rightarrow> int \<Rightarrow> (int \<times> string) option" where
  "resolve_local z l =
     (case valid_stamps z l of
        s # rest \<Rightarrow> Some (s, if length (s # rest) = 2 then ''fold'' else ''normal'')
      | [] \<Rightarrow> map_option (\<lambda>s. (s, ''gap'')) (resolve_gap z l))"

section \<open>Calendar text\<close>

definition pad2 :: "int \<Rightarrow> string" where
  "pad2 n = (if n < 10 then ''0'' else []) @ dec_nat (nat n)"

definition pad4 :: "int \<Rightarrow> string" where
  "pad4 n = replicate (4 - length (dec_nat (nat n))) (CHR ''0'') @ dec_nat (nat n)"

definition civil_date :: "int \<Rightarrow> int \<times> int \<times> int" where
  \<comment> \<open>year, month and day of a day number, counted in eras of 400 years that start on 1 March\<close>
  "civil_date days =
     (let z = days + 719468;
          era = z div 146097;
          doe = z mod 146097;
          yoe = (doe - doe div 1460 + doe div 36524 - doe div 146096) div 365;
          doy = doe - (365 * yoe + yoe div 4 - yoe div 100);
          mp = (5 * doy + 2) div 153;
          d = doy - (153 * mp + 2) div 5 + 1;
          m = (if mp < 10 then mp + 3 else mp - 9)
      in (yoe + era * 400 + (if m \<le> 2 then 1 else 0), m, d))"

definition iso_date :: "int \<Rightarrow> string" where
  "iso_date days = (case civil_date days of (y, m, d) \<Rightarrow> pad4 y @ ''-'' @ pad2 m @ ''-'' @ pad2 d)"

definition iso_minutes :: "int \<Rightarrow> string" where
  \<comment> \<open>\<^verbatim>\<open>isoformat(timespec="minutes")\<close> of a naive datetime\<close>
  "iso_minutes l = iso_date (l div DAY) @ ''T'' @ pad2 (l mod DAY div 3600) @ '':'' @ pad2 (l mod 3600 div 60)"

definition iso_offset :: "int \<Rightarrow> string" where
  "iso_offset off =
     (let a = \<bar>off\<bar>
      in (if off < 0 then ''-'' else ''+'') @ pad2 (a div 3600) @ '':'' @ pad2 (a mod 3600 div 60) @
         (if a mod 60 = 0 then [] else '':'' @ pad2 (a mod 60)))"

definition iso_seconds :: "zone \<Rightarrow> int \<Rightarrow> string" where
  \<comment> \<open>\<^verbatim>\<open>datetime.fromtimestamp(t, zone).isoformat(timespec="seconds")\<close>\<close>
  "iso_seconds z t = (let l = to_local z t in iso_minutes l @ '':'' @ pad2 (l mod 60) @ iso_offset (l - t))"

definition weekday :: "int \<Rightarrow> int" where
  \<comment> \<open>Monday is 0; day 0 was a Thursday\<close>
  "weekday day = (day + 3) mod 7"

section \<open>What the scheduler relies on\<close>

locale civil_zone =
  fixes loc :: "int \<Rightarrow> int" and epoch :: "bool \<Rightarrow> int \<Rightarrow> int"
  assumes reads_back: "\<exists>fd. epoch fd (loc t) = t"
    and gap_forward: "l \<le> loc (epoch False l)"
    and near_epoch: "\<bar>loc t - t\<bar> < DAY"
begin

lemma shown_loc: "\<exists>fd. loc (epoch fd (loc t)) = loc t"
proof -
  obtain fd where "epoch fd (loc t) = t" using reads_back by blast
  then show ?thesis by (intro exI [of _ fd]) simp
qed

lemma gap_end: "loc (epoch False l) \<noteq> l \<Longrightarrow> l < loc (epoch False l)"
  using gap_forward [of l] by simp

lemma loc_bounds: "t - DAY < loc t" "loc t < t + DAY"
  using near_epoch [of t] by auto

end

section \<open>Tables are zones\<close>

fun table_ok :: "int \<Rightarrow> (int \<times> int) list \<Rightarrow> bool" where
  \<comment> \<open>offsets of less than a day, and transitions further apart than they move the clock\<close>
  "table_ok off [] \<longleftrightarrow> \<bar>off\<bar> < DAY"
| "table_ok off [(u, off')] \<longleftrightarrow> \<bar>off\<bar> < DAY \<and> \<bar>off'\<bar> < DAY"
| "table_ok off ((u, off') # (u', off'') # rest) \<longleftrightarrow>
     \<bar>off\<bar> < DAY \<and> u + max off off' \<le> u' + min off' off'' \<and> u + (off' - off) \<le> u' \<and>
     table_ok off' ((u', off'') # rest)"

definition zone_ok :: "zone \<Rightarrow> bool" where
  "zone_ok z \<longleftrightarrow> table_ok (base z) (shifts z)"

lemma table_ok_Cons: "table_ok off ((u, off') # rest) \<Longrightarrow> table_ok off' rest \<and> \<bar>off\<bar> < DAY \<and> \<bar>off'\<bar> < DAY"
  by (cases rest) (auto elim: table_ok.elims)

lemma table_ok_next:
  "table_ok off ((u, off') # (u', off'') # rest) \<Longrightarrow> u + max off off' \<le> u' + min off' off'' \<and> u + (off' - off) \<le> u' \<and> u \<le> u'"
  by auto

lemma offset_bound: "table_ok off ts \<Longrightarrow> \<bar>offset_at off ts t\<bar> < DAY"
proof (induction off ts t rule: offset_at.induct)
  case (2 off u off' rest t)
  then show ?case using table_ok_Cons [of off u off' rest] by auto
qed simp

text \<open>After a transition the wall clock is past the earlier reading of that transition.\<close>

lemma local_after:
  assumes "table_ok off ((u, off') # rest)" "u \<le> t"
  shows "u + min off off' \<le> t + offset_at off' rest t"
  using assms
proof (induction rest arbitrary: off u off')
  case (Cons e rest)
  obtain u' off'' where e: "e = (u', off'')" by (cases e)
  note n = table_ok_next [OF Cons.prems(1) [unfolded e]]
  show ?case
  proof (cases "t < u'")
    case True
    with Cons.prems(2) e show ?thesis by simp
  next
    case False
    from Cons.IH [of off' u' off''] False Cons.prems(1) have "u' + min off' off'' \<le> t + offset_at off'' rest t"
      by (simp only: e table_ok.simps not_less)
    moreover have "offset_at off' (e # rest) t = offset_at off'' rest t" using False e by simp
    moreover have "min off off' \<le> max off off'" by simp
    ultimately show ?thesis using n by linarith
  qed
qed auto

lemma table_reads_back:
  "table_ok off ts \<Longrightarrow> \<exists>fd. wall_offset fd off ts (t + offset_at off ts t) = offset_at off ts t"
proof (induction ts arbitrary: off)
  case (Cons e rest)
  obtain u off' where e: "e = (u, off')" by (cases e)
  show ?case
  proof (cases "t < u")
    case True
    have "off \<le> max off off'" by simp
    with True have "t + off < u + max off off'" by linarith
    with e have "wall_offset False off (e # rest) (t + off) = off" by simp
    with True e show ?thesis by (intro exI [of _ False]) simp
  next
    case False
    note after = local_after [OF Cons.prems [unfolded e]]
    from Cons.IH [of off'] Cons.prems e obtain fd
      where fd: "wall_offset fd off' rest (t + offset_at off' rest t) = offset_at off' rest t"
      using table_ok_Cons by blast
    have "\<exists>fd. wall_offset fd off (e # rest) (t + offset_at off' rest t) = offset_at off' rest t"
    proof (cases rest)
      case Nil
      have "min off off' \<le> off'" by simp
      with False have "\<not> t + off' < u + min off off'" by linarith
      with Nil e have "wall_offset True off (e # rest) (t + off') = off'" by simp
      with Nil show ?thesis by auto
    next
      case (Cons e' rest')
      obtain u' off'' where e': "e' = (u', off'')" by (cases e')
      note n = table_ok_next [OF \<open>table_ok off (e # rest)\<close> [unfolded e Cons e']]
      show ?thesis
      proof (cases "t < u'")
        case t: True
        show ?thesis
        proof (cases "t + off' < u' + min off' off''")
          case True
          with False e Cons e' t after have "wall_offset True off (e # rest) (t + off') = off'" by auto
          with t Cons e' show ?thesis by auto
        next
          case ge: False
          with n have "u + max off off' \<le> t + off'" by linarith
          with e t Cons e' have "wall_offset False off (e # rest) (t + off') = off'" by auto
          with t Cons e' show ?thesis by auto
        qed
      next
        case t: False
        have "table_ok off' rest" using \<open>table_ok off (e # rest)\<close> e table_ok_Cons by blast
        with t Cons e' local_after [of off' u' off'' rest' t]
        have "u' + min off' off'' \<le> t + offset_at off' rest t" by simp
        with n have "u + max off off' \<le> t + offset_at off' rest t" by linarith
        with fd e have "wall_offset fd off (e # rest) (t + offset_at off' rest t) = offset_at off' rest t" by auto
        then show ?thesis by blast
      qed
    qed
    with False e show ?thesis by simp
  qed
qed simp

lemma wall_after:
  assumes "table_ok off ((u, off') # rest)" "u + max off off' \<le> l"
  shows "u \<le> l - wall_offset False off' rest l"
  using assms
proof (induction rest arbitrary: off u off')
  case (Cons e rest)
  obtain u' off'' where e: "e = (u', off'')" by (cases e)
  note n = table_ok_next [OF Cons.prems(1) [unfolded e]]
  show ?case
  proof (cases "l < u' + max off' off''")
    case True
    with Cons.prems(2) e show ?thesis by simp
  next
    case False
    from Cons.IH [of off' u' off''] False Cons.prems(1) have "u' \<le> l - wall_offset False off'' rest l"
      by (simp only: e table_ok.simps not_less)
    moreover have "wall_offset False off' (e # rest) l = wall_offset False off'' rest l" using False e by simp
    ultimately show ?thesis using n by linarith
  qed
qed auto

lemma table_gap_forward:
  "table_ok off ts \<Longrightarrow> wall_offset False off ts l \<le> offset_at off ts (l - wall_offset False off ts l)"
proof (induction ts arbitrary: off)
  case (Cons e rest)
  obtain u off' where e: "e = (u, off')" by (cases e)
  note c = table_ok_Cons [OF Cons.prems [unfolded e]]
  show ?case
  proof (cases "l < u + max off off'")
    case lt: True
    show ?thesis
    proof (cases "l - off < u")
      case False
      with lt have "off < off'" by auto
      moreover have "offset_at off' rest (l - off) = off'"
      proof (cases rest)
        case (Cons e' rest')
        obtain u' off'' where e': "e' = (u', off'')" by (cases e')
        note n = table_ok_next [OF \<open>table_ok off (e # rest)\<close> [unfolded e Cons e']]
        from lt \<open>off < off'\<close> n have "l - off < u'" by auto
        with Cons e' show ?thesis by simp
      qed simp
      ultimately show ?thesis using lt False e by simp
    qed (use lt e in simp)
  next
    case False
    with wall_after [OF Cons.prems [unfolded e]] have "u \<le> l - wall_offset False off' rest l" by simp
    with False e Cons.IH [of off'] c show ?thesis by simp
  qed
qed simp

text \<open>The contract holds of every well-formed table.\<close>

definition utc :: zone where
  "utc = \<lparr>base = 0, shifts = []\<rparr>"

definition sane :: "zone \<Rightarrow> zone" where
  "sane z = (if zone_ok z then z else utc)"

lemma zone_ok_sane: "zone_ok (sane z)"
  by (simp add: sane_def utc_def zone_ok_def DAY_def)

interpretation table_zone: civil_zone "to_local (sane z)" "to_epoch (sane z)" for z
proof
  fix t l
  note ok = zone_ok_sane [of z, unfolded zone_ok_def]
  obtain fd where "wall_offset fd (base (sane z)) (shifts (sane z)) (to_local (sane z) t) =
      offset_at (base (sane z)) (shifts (sane z)) t"
    using table_reads_back [OF ok, of t] by (auto simp: to_local_def)
  then show "\<exists>fd. to_epoch (sane z) fd (to_local (sane z) t) = t"
    by (intro exI [of _ fd]) (simp add: to_epoch_def to_local_def)
  show "l \<le> to_local (sane z) (to_epoch (sane z) False l)"
    using table_gap_forward [OF ok, of l] by (simp add: to_epoch_def to_local_def)
  show "\<bar>to_local (sane z) t - t\<bar> < DAY"
    using offset_bound [OF ok, of t] by (simp add: to_local_def)
qed

section \<open>Resolution is the first instant at or after a reading\<close>

fun first_at :: "int \<Rightarrow> (int \<times> int) list \<Rightarrow> int \<Rightarrow> int" where
  \<comment> \<open>the first instant at which the wall clock reads \<open>l\<close> or later\<close>
  "first_at off [] l = l - off"
| "first_at off ((u, off') # rest) l =
     (if l < u + off then l - off else if l < u + off' then u else first_at off' rest l)"

definition reads_first :: "zone \<Rightarrow> int \<Rightarrow> int \<Rightarrow> bool" where
  "reads_first z l t \<longleftrightarrow> l \<le> to_local z t \<and> (\<forall>t' < t. to_local z t' < l)"

lemma first_at_ge: "table_ok off ((u, off') # rest) \<Longrightarrow> u + off \<le> l \<Longrightarrow> u + off' \<le> l \<Longrightarrow> u \<le> first_at off' rest l"
proof (induction rest arbitrary: off u off')
  case (Cons e rest)
  obtain u' off'' where e: "e = (u', off'')" by (cases e)
  note n = table_ok_next [OF Cons.prems(1) [unfolded e]]
  show ?case
  proof (cases "u' + off' \<le> l \<and> u' + off'' \<le> l")
    case True
    with Cons.IH [of off' u' off''] Cons.prems(1) have "u' \<le> first_at off'' rest l"
      by (simp only: e table_ok.simps)
    with True e n show ?thesis by simp
  next
    case False
    with Cons.prems(3) e n show ?thesis by auto
  qed
qed simp

lemma first_at_reads:
  "table_ok off ts \<Longrightarrow> l \<le> first_at off ts l + offset_at off ts (first_at off ts l) \<and>
     (\<forall>t < first_at off ts l. t + offset_at off ts t < l)"
proof (induction ts arbitrary: off)
  case (Cons e rest)
  obtain u off' where e: "e = (u, off')" by (cases e)
  note c = table_ok_Cons [OF Cons.prems [unfolded e]]
  show ?case
  proof (cases "l < u + off")
    case False
    then have before: "t + offset_at off (e # rest) t < l" if "t < u" for t using that e by simp
    show ?thesis
    proof (cases "l < u + off'")
      case True
      have "u + off' \<le> u + offset_at off' rest u"
      proof (cases rest)
        case (Cons e' rest')
        obtain u' off'' where e': "e' = (u', off'')" by (cases e')
        from table_ok_next [OF \<open>table_ok off (e # rest)\<close> [unfolded e Cons e']] False True have "u < u'" by linarith
        with Cons e' show ?thesis by simp
      qed simp
      with False True e before show ?thesis by auto
    next
      case ge: False
      then have f: "first_at off (e # rest) l = first_at off' rest l" using e False by simp
      have u: "u \<le> first_at off' rest l"
        using first_at_ge [OF Cons.prems [unfolded e]] False ge by simp
      note ih = Cons.IH [OF c [THEN conjunct1]]
      have "t + offset_at off (e # rest) t < l" if "t < first_at off' rest l" for t
        using that before [of t] ih e by (cases "t < u") auto
      moreover have "l \<le> first_at off' rest l + offset_at off (e # rest) (first_at off' rest l)"
        using u ih e by simp
      ultimately show ?thesis using f by simp
    qed
  qed (use e in auto)
qed auto

lemma reads_first_unique: "reads_first z l t \<Longrightarrow> reads_first z l t' \<Longrightarrow> t = t'"
  by (meson linorder_neqE not_le reads_first_def)

lemma bisect_first:
  assumes "\<And>s. low \<le> s \<Longrightarrow> s < b \<Longrightarrow> \<not> ok s" "\<And>s. b \<le> s \<Longrightarrow> s \<le> high \<Longrightarrow> ok s" "low \<le> b" "b \<le> high"
  shows "bisect ok low high = b"
  using assms
proof (induction ok low high rule: bisect.induct)
  case (1 ok low high)
  show ?case
  proof (cases "low < high")
    case False
    with "1.prems"(3,4) show ?thesis by (subst bisect.simps) simp
  next
    case True
    define m where "m = (low + high) div 2"
    have m: "low \<le> m" "m < high" using True by (auto simp: m_def)
    show ?thesis
    proof (cases "ok m")
      case ok: True
      with "1.prems"(1) m have "b \<le> m" by force
      with "1.IH"(1) [OF True m_def ok] "1.prems" m True ok show ?thesis
        by (subst bisect.simps) (simp add: m_def [symmetric] Let_def)
    next
      case no: False
      with "1.prems"(2) [of m] m have "m + 1 \<le> b" by linarith
      with "1.IH"(2) [OF True m_def no] "1.prems" m True no show ?thesis
        by (subst bisect.simps) (simp add: m_def [symmetric] Let_def)
    qed
  qed
qed

text \<open>The missing readings around a jump forward, and the readings shown after it.\<close>

lemma gap_shape:
  assumes "table_ok off ts" "first_at off ts l + offset_at off ts (first_at off ts l) \<noteq> l"
  shows "(\<forall>r. first_at off ts l + offset_at off ts (first_at off ts l) \<le> r \<and>
            r \<le> l - wall_offset False off ts l + offset_at off ts (l - wall_offset False off ts l) \<longrightarrow>
            (\<exists>t \<ge> first_at off ts l. t + offset_at off ts t = r)) \<and>
         (\<forall>t \<ge> first_at off ts l. first_at off ts l + offset_at off ts (first_at off ts l) \<le> t + offset_at off ts t)"
  using assms
proof (induction ts arbitrary: off)
  case (Cons e rest)
  obtain u off' where e: "e = (u, off')" by (cases e)
  note ok = Cons.prems(1) [unfolded e]
  note c = table_ok_Cons [OF ok]
  have l: "u + off \<le> l" using Cons.prems(2) e by (auto split: if_splits)
  show ?case
  proof (cases "l < u + off'")
    case True
    have seg: "offset_at off' rest t = off'" if "t \<le> l - off" for t
    proof (cases rest)
      case (Cons e' rest')
      obtain u' off'' where e': "e' = (u', off'')" by (cases e')
      from table_ok_next [OF ok [unfolded Cons e']] True that have "t < u'" by linarith
      with Cons e' show ?thesis by simp
    qed simp
    have later: "u + off' \<le> t + offset_at off' rest t" if "u \<le> t" for t
    proof (cases rest)
      case (Cons e' rest')
      obtain u' off'' where e': "e' = (u', off'')" by (cases e')
      note n = table_ok_next [OF ok [unfolded Cons e']]
      have "table_ok off' ((u', off'') # rest')" using c Cons e' by simp
      from local_after [OF this, of t] n that Cons e' l True show ?thesis by (cases "t < u'") auto
    qed (use that in simp)
    have "\<exists>t\<ge>u. t + offset_at off (e # rest) t = r" if "u + off' \<le> r" "r \<le> l - off + off'" for r
      using that seg [of "r - off'"] e by (intro exI [of _ "r - off'"]) auto
    then show ?thesis using True l e seg [of u] seg [of "l - off"] later by auto
  next
    case False
    have "max off off' = off \<or> max off off' = off'" by (simp add: max_def)
    then have m: "u + max off off' \<le> l" using l False by auto
    have w: "wall_offset False off (e # rest) l = wall_offset False off' rest l" using m e by simp
    have f: "first_at off (e # rest) l = first_at off' rest l" using l False e by simp
    have u: "u \<le> first_at off' rest l" using first_at_ge [OF ok l] False by simp
    have u': "u \<le> l - wall_offset False off' rest l" using wall_after [OF ok m] .
    have s: "offset_at off (e # rest) t = offset_at off' rest t" if "u \<le> t" for t using that e by simp
    have le: "offset_at off (e # rest) t = offset_at off' rest t" if "first_at off' rest l \<le> t" for t
      using that u s by simp
    have "first_at off' rest l + offset_at off' rest (first_at off' rest l) \<noteq> l"
      using Cons.prems(2) f s [OF u] by simp
    from Cons.IH [OF c [THEN conjunct1] this] show ?thesis
      unfolding w f s [OF u] s [OF u'] using le by (simp cong: conj_cong)
  qed
qed simp

lemma to_local_sane: "zone_ok z \<Longrightarrow> sane z = z"
  by (simp add: sane_def)

definition first_instant :: "zone \<Rightarrow> int \<Rightarrow> int" where
  "first_instant z l = first_at (base z) (shifts z) l"

lemma first_instant_reads: "zone_ok z \<Longrightarrow> reads_first z l (first_instant z l)"
  using first_at_reads [of "base z" "shifts z" l]
  by (simp add: zone_ok_def reads_first_def first_instant_def to_local_def)

lemma set_valid_stamps:
  assumes "zone_ok z"
  shows "t \<in> set (valid_stamps z l) \<longleftrightarrow> to_local z t = l"
proof -
  obtain fd where "to_epoch z fd (to_local z t) = t"
    using table_zone.reads_back [of z t] assms by (auto simp: to_local_sane)
  then show ?thesis by (cases fd) (auto simp: valid_stamps_def)
qed

lemma hd_valid_stamps:
  assumes "valid_stamps z l = s # rest" "t \<in> set (valid_stamps z l)"
  shows "s \<le> t"
  using assms sorted_sort [of "remdups (filter (\<lambda>s. to_local z s = l) [to_epoch z False l, to_epoch z True l])"]
  by (auto simp: valid_stamps_def)

lemma valid_stamps_first:
  assumes "zone_ok z" "valid_stamps z l = s # rest"
  shows "s = first_instant z l"
proof -
  note f = first_instant_reads [OF assms(1), of l, unfolded reads_first_def]
  have s: "to_local z s = l" using set_valid_stamps [OF assms(1), of s l] assms(2) by simp
  with f have le: "first_instant z l \<le> s" by (meson less_irrefl not_le)
  show ?thesis
  proof (cases "to_local z (first_instant z l) = l")
    case True
    then have "s \<le> first_instant z l" using hd_valid_stamps [OF assms(2)] set_valid_stamps [OF assms(1)] by blast
    with le show ?thesis by simp
  next
    case False
    with assms(1) gap_shape [of "base z" "shifts z" l] f le s show ?thesis
      by (fastforce simp: zone_ok_def to_local_def first_instant_def)
  qed
qed

lemma resolve_gap_first:
  assumes "zone_ok z" "valid_stamps z l = []"
  shows "resolve_gap z l = Some (first_instant z l)"
proof -
  let ?F = "first_instant z l" let ?E = "to_epoch z False l"
  let ?ups = "filter (\<lambda>v. l < v) (map (\<lambda>fd. to_local z (to_epoch z fd l)) [False, True])"
  note shown = set_valid_stamps [OF assms(1)]
  note f = first_instant_reads [OF assms(1), of l, unfolded reads_first_def]
  have none: "to_local z t \<noteq> l" for t using shown [of t l] assms(2) by simp
  have gap: "\<exists>t. to_local z t = r" if "to_local z ?F \<le> r" "r \<le> to_local z ?E" for r
    using gap_shape [of "base z" "shifts z" l] assms(1) none [of ?F] that
    by (fastforce simp: zone_ok_def to_local_def to_epoch_def first_instant_def)
  have later: "to_local z ?F \<le> to_local z t" if "l < to_local z t" for t
  proof -
    have "?F \<le> t" using f that by (meson less_le_not_le not_le)
    then show ?thesis using gap_shape [of "base z" "shifts z" l] assms(1) none [of ?F]
      by (simp add: zone_ok_def to_local_def first_instant_def)
  qed
  have "l < to_local z ?E" using table_zone.gap_end [of z l] none assms(1) by (simp add: to_local_sane)
  then obtain v vs where ups: "?ups = v # vs" "v = to_local z ?E" by simp
  define upper where "upper = foldl min v vs"
  have upper: "upper \<in> set ?ups \<and> upper \<le> to_local z ?E" unfolding upper_def ups using ups by (auto simp: min_def split: if_splits)
  then obtain t where "upper = to_local z t" "l < upper" by (fastforce split: if_splits)
  with later have up: "to_local z ?F \<le> upper" by simp
  have ok: "valid_stamps z r \<noteq> [] \<longleftrightarrow> (\<exists>t. to_local z t = r)" for r
    using shown [of _ r] by (metis empty_iff list.set(1) list.set_intros(1) neq_Nil_conv)
  have "bisect (\<lambda>s. valid_stamps z (l + s) \<noteq> []) 0 (upper - l) = to_local z ?F - l"
  proof (rule bisect_first)
    fix s
    show "\<not> valid_stamps z (l + s) \<noteq> []" if "0 \<le> s" "s < to_local z ?F - l"
      unfolding ok using that later none by (smt (verit))
    show "valid_stamps z (l + s) \<noteq> []" if "to_local z ?F - l \<le> s" "s \<le> upper - l"
      unfolding ok using that gap upper by simp
  qed (use f up in auto)
  moreover obtain s rest where s: "valid_stamps z (to_local z ?F) = s # rest"
    using ok [of "to_local z ?F"] by (cases "valid_stamps z (to_local z ?F)") auto
  moreover have "s = ?F"
  proof (rule antisym)
    show "s \<le> ?F" using hd_valid_stamps [OF s] shown by simp
    have "to_local z s = to_local z ?F" using shown [of s "to_local z ?F"] s by simp
    with f show "?F \<le> s" by (metis not_le)
  qed
  ultimately show ?thesis by (simp only: resolve_gap_def ups upper_def list.case Let_def) simp
qed

lemma resolve_local_first:
  assumes "zone_ok z"
  shows "\<exists>r. resolve_local z l = Some (first_instant z l, r) \<and> (r = ''gap'' \<longleftrightarrow> (\<forall>t. to_local z t \<noteq> l))"
proof (cases "valid_stamps z l")
  case Nil
  then have "\<forall>t. to_local z t \<noteq> l" using set_valid_stamps [OF assms, of _ l] by simp
  with Nil resolve_gap_first [OF assms Nil] show ?thesis by (simp add: resolve_local_def)
next
  case (Cons s rest)
  then have "to_local z s = l" using set_valid_stamps [OF assms, of s l] by simp
  with Cons valid_stamps_first [OF assms Cons] show ?thesis by (auto simp: resolve_local_def)
qed

lemma first_instant_bounds:
  assumes "zone_ok z"
  shows "l - DAY < first_instant z l" "first_instant z l \<le> l + DAY"
proof -
  note f = first_instant_reads [OF assms, of l, unfolded reads_first_def]
  note b = table_zone.loc_bounds [where z = z, unfolded to_local_sane [OF assms]]
  show "l - DAY < first_instant z l" using f b [of "first_instant z l"] by linarith
  show "first_instant z l \<le> l + DAY"
  proof (rule ccontr)
    assume "\<not> ?thesis"
    then have "to_local z (l + DAY) < l" using f by simp
    with b [of "l + DAY"] show False by linarith
  qed
qed

lemma first_instant_mono:
  assumes "zone_ok z" "l + 2 * DAY \<le> l'"
  shows "first_instant z l < first_instant z l'"
  using first_instant_bounds [OF assms(1), of l] first_instant_bounds [OF assms(1), of l'] assms(2)
  by linarith

text \<open>Central European time around the two changes of 2026.\<close>

definition demo_zone :: zone where
  "demo_zone = \<lparr>base = 3600, shifts = [(1774746000, 7200), (1792890000, 3600)]\<rparr>"

lemma demo_zone_ok: "zone_ok demo_zone"
  by (simp add: zone_ok_def demo_zone_def DAY_def)

end
