(* ===== verification/Schedule_Rows.thy ===== *)
theory Schedule_Rows
  imports Peer_Handouts Transfer_Lifecycle Policy_Schema Civil_Time
begin

text \<open>
  \<^verbatim>\<open>server/schedules.py\<close>, first part: the closed shapes of schedule definitions, stored schedules and target
  snapshots.  A normaliser returns the detached value the code builds or the exception it raises; a
  validation error is one value, since no caller tells its messages apart.  The time zone database is an
  argument (\<open>zones\<close>), as is every clock.
\<close>

definition MAX_INTEGER :: int where
  "MAX_INTEGER = 2 ^ 63 - 1"

definition MAX_EPOCH :: int where
  "MAX_EPOCH = 253370764799"

definition MAX_WINDOW_SECONDS :: int where
  "MAX_WINDOW_SECONDS = 604800"

definition MAX_TARGETS :: nat where
  "MAX_TARGETS = 20000"

definition FILTER_KEYS :: "string list" where
  "FILTER_KEYS = [''q'', ''management_type'', ''platform'', ''cred'', ''telemetry'', ''peer'', ''role'',
     ''model_family'', ''os_family'', ''status'']"

definition DEFINITION_KEYS :: "string list" where
  "DEFINITION_KEYS = [''kind'', ''target'', ''payload'', ''when'', ''after'', ''state'']"

definition ROW_KEYS :: "string list" where
  "ROW_KEYS = DEFINITION_KEYS @ [''id'', ''generation'', ''rev'', ''created_by'', ''created_at'', ''preview'']"

datatype serror =
    Invalid                   \<comment> \<open>\<^verbatim>\<open>ScheduleValidationError\<close>, 422\<close>
  | Conflict                  \<comment> \<open>\<^verbatim>\<open>ScheduleConflict\<close>, 409\<close>
  | NotFound                  \<comment> \<open>\<^verbatim>\<open>ScheduleNotFound\<close>, 404\<close>
  | RevisionConflict int      \<comment> \<open>\<^verbatim>\<open>ScheduleRevisionConflict\<close>, 412, with the current revision\<close>
  | Unavailable               \<comment> \<open>\<^verbatim>\<open>ScheduleStateError\<close>, 503\<close>
  | WriteRefused              \<comment> \<open>\<^verbatim>\<open>OSError\<close>\<close>
  | PyError py_error

type_synonym 'a sc = "serror + 'a"

section \<open>Values\<close>

definition require :: "bool \<Rightarrow> unit sc" where
  "require b = (if b then Inr () else Inl Invalid)"

definition object_of :: "string list \<Rightarrow> string list \<Rightarrow> json \<Rightarrow> obj sc" where
  \<comment> \<open>\<^verbatim>\<open>_object\<close>: a dict with these keys at most, and the required ones\<close>
  "object_of keys required v =
     (case as_obj v of
        None \<Rightarrow> Inl Invalid
      | Some d \<Rightarrow> if set (dkeys d) \<subseteq> set keys \<and> set required \<subseteq> set (dkeys d) then Inr d else Inl Invalid)"

definition integer_of :: "json \<Rightarrow> int \<Rightarrow> int \<Rightarrow> int sc" where
  "integer_of v minimum maximum =
     (case v of JInt n \<Rightarrow> if minimum \<le> n \<and> n \<le> maximum then Inr n else Inl Invalid | _ \<Rightarrow> Inl Invalid)"

definition str_space :: "char \<Rightarrow> bool" where
  \<comment> \<open>what \<^verbatim>\<open>str.strip\<close> removes\<close>
  "str_space c \<longleftrightarrow> (let n = of_char c :: nat in 9 \<le> n \<and> n \<le> 13 \<or> 28 \<le> n \<and> n \<le> 32 \<or> n = 133 \<or> n = 160)"

definition control_char :: "char \<Rightarrow> bool" where
  "control_char c \<longleftrightarrow> (let n = of_char c :: nat in n < 32 \<or> 127 \<le> n \<and> n \<le> 159)"

definition text_ok :: "nat \<Rightarrow> bool \<Rightarrow> string \<Rightarrow> bool" where
  "text_ok limit blank s \<longleftrightarrow> (s \<noteq> [] \<or> blank) \<and> (s \<noteq> [] \<longrightarrow> \<not> str_space (hd s) \<and> \<not> str_space (last s)) \<and>
     \<not> list_ex control_char s \<and> length (utf8_text s) \<le> limit"

definition str_where :: "(string \<Rightarrow> bool) \<Rightarrow> json \<Rightarrow> string sc" where
  \<comment> \<open>a string that passes a test\<close>
  "str_where p v = (case as_str v of Some s \<Rightarrow> if p s then Inr s else Inl Invalid | None \<Rightarrow> Inl Invalid)"

abbreviation text_of :: "nat \<Rightarrow> bool \<Rightarrow> json \<Rightarrow> string sc" where
  \<comment> \<open>\<^verbatim>\<open>_text\<close>\<close>
  "text_of limit blank \<equiv> str_where (text_ok limit blank)"

definition identifier_ok :: "string \<Rightarrow> bool" where
  \<comment> \<open>\<^verbatim>\<open>_ID_RE.fullmatch\<close>\<close>
  "identifier_ok s \<longleftrightarrow> s \<noteq> [] \<and> length s \<le> 64 \<and> is_word (hd s) \<and>
     list_all (\<lambda>c. is_word c \<or> c \<in> set ''._-'') s"

definition hex32_ok :: "string \<Rightarrow> bool" where
  \<comment> \<open>\<^verbatim>\<open>_HEX_RE.fullmatch\<close>\<close>
  "hex32_ok s \<longleftrightarrow> length s = 32 \<and> list_all (\<lambda>c. is_digit c \<or> c \<in> set ''abcdef'') s"

definition image_id_ok :: "string \<Rightarrow> bool" where
  "image_id_ok s \<longleftrightarrow> s \<noteq> [] \<and> length s \<le> 128 \<and> list_all (\<lambda>c. is_word c \<or> c \<in> set ''._-'') s"

definition target_id_ok :: "string \<Rightarrow> bool" where
  \<comment> \<open>\<^verbatim>\<open>_device_id\<close>, with \<^verbatim>\<open>secrets_store.validate_device_id\<close>\<close>
  "target_id_ok s \<longleftrightarrow> identifier_ok s \<and> s \<noteq> ''seeder''"

definition reason_ok :: "string \<Rightarrow> bool" where
  \<comment> \<open>\<^verbatim>\<open>_REASON_RE.fullmatch\<close>\<close>
  "reason_ok s \<longleftrightarrow> s \<noteq> [] \<and> length s \<le> 64 \<and> is_lower (hd s) \<and>
     list_all (\<lambda>c. is_lower c \<or> is_digit c \<or> c = CHR ''_'') s"

definition actor_ok :: "string \<Rightarrow> bool" where
  \<comment> \<open>\<^verbatim>\<open>_actor\<close>: a short namespace, a colon, and something after it\<close>
  "actor_ok s \<longleftrightarrow>
     (let namespace = takeWhile (\<lambda>c. c \<noteq> CHR '':'') s
      in text_ok 256 False s \<and> namespace \<noteq> [] \<and> length namespace \<le> 32 \<and> is_lower (hd namespace) \<and>
         list_all (\<lambda>c. is_lower c \<or> is_digit c \<or> c \<in> set ''_-'') namespace \<and> length namespace + 2 \<le> length s)"

definition ids_of :: "(string \<Rightarrow> bool) \<Rightarrow> nat \<Rightarrow> bool \<Rightarrow> json \<Rightarrow> string list sc" where
  "ids_of ok maximum blank v =
     (case as_list v of
        None \<Rightarrow> Inl Invalid
      | Some xs \<Rightarrow>
          if maximum < length xs \<or> (\<not> blank \<and> xs = []) then Inl Invalid
          else rbind (rmap (str_where ok) xs) (\<lambda>ids. if distinct ids then Inr ids else Inl Invalid))"

abbreviation strings :: "string list \<Rightarrow> json" where
  "strings xs \<equiv> JList (map JStr xs)"

section \<open>Snapshots and wave gates\<close>

definition binding_ok :: "string \<times> json \<Rightarrow> bool" where
  "binding_ok kv \<longleftrightarrow> target_id_ok (fst kv) \<and>
     (case snd kv of JNull \<Rightarrow> True | JStr s \<Rightarrow> hex32_ok s | _ \<Rightarrow> False)"

definition normalize_snapshot :: "json \<Rightarrow> obj sc" where
  "normalize_snapshot v =
     rbind (object_of [''revision'', ''now'', ''device_ids'', ''registration_ids''] [''revision'', ''now'', ''device_ids''] v) (\<lambda>d.
     rbind (ids_of target_id_ok MAX_TARGETS True (jget d ''device_ids'')) (\<lambda>ids.
     rbind (integer_of (jget d ''revision'') 0 MAX_INTEGER) (\<lambda>revision.
     rbind (integer_of (jget d ''now'') 0 MAX_EPOCH) (\<lambda>now.
     let normalized = [(''revision'', JInt revision), (''now'', JInt now), (''device_ids'', strings ids)]
     in case dget d ''registration_ids'' of
          None \<Rightarrow> Inr normalized
        | Some b \<Rightarrow>
            (case as_obj b of
               None \<Rightarrow> Inl Invalid
             | Some bindings \<Rightarrow>
                 if set (dkeys bindings) \<noteq> set ids \<or> \<not> list_all binding_ok bindings then Inl Invalid
                 else Inr (normalized @ [(''registration_ids'', JObj (map (\<lambda>k. (k, jget bindings k)) ids))]))))))"

definition WAVE_COUNTS :: "string list" where
  "WAVE_COUNTS = [''staged'', ''errored'', ''missing'']"

definition wave_keys :: "string list" where
  "wave_keys = [''schedule_id'', ''occurrence_id'', ''total'', ''gate'', ''observed_at''] @ WAVE_COUNTS"

definition wave_counts :: "obj \<Rightarrow> obj" where
  \<comment> \<open>\<^verbatim>\<open>_wave_counts\<close>: all but the time of observation\<close>
  "wave_counts wave = ddel ''observed_at'' wave"

definition normalize_wave :: "json \<Rightarrow> obj sc" where
  \<comment> \<open>a gate that is a list or a dict is unhashable\<close>
  "normalize_wave v =
     rbind (object_of wave_keys wave_keys v) (\<lambda>d.
     let occurrence = jget d ''occurrence_id'' in
     rbind (str_where identifier_ok (jget d ''schedule_id'')) (\<lambda>sid.
     rbind (if occurrence = JNull then Inr () else rbind (str_where hex32_ok occurrence) (\<lambda>_. Inr ())) (\<lambda>_.
     rbind (integer_of (jget d ''total'') 0 (int MAX_TARGETS)) (\<lambda>n.
     rbind (require (occurrence = JNull \<longrightarrow> n = 0)) (\<lambda>_.
     rbind (rmap (\<lambda>k. integer_of (jget d k) 0 n) WAVE_COUNTS) (\<lambda>counts.
     rbind (require (sum_list counts \<le> n)) (\<lambda>_.
     rbind (case member_of [''open'', ''held''] (jget d ''gate'') of Inl e \<Rightarrow> Inl (PyError e) | Inr b \<Rightarrow> require b) (\<lambda>_.
     rbind (require (jget d ''gate'' = JStr ''open'' \<longrightarrow> occurrence \<noteq> JNull)) (\<lambda>_.
     rbind (integer_of (jget d ''observed_at'') 0 MAX_EPOCH) (\<lambda>observed.
       Inr (zip WAVE_COUNTS (map JInt counts) @
            [(''schedule_id'', JStr sid), (''occurrence_id'', occurrence), (''total'', JInt n),
             (''gate'', jget d ''gate''), (''observed_at'', JInt observed)])))))))))))"

section \<open>Definitions\<close>

definition filter_ok :: "string \<times> json \<Rightarrow> bool" where
  "filter_ok kv \<longleftrightarrow>
     (case as_str (snd kv) of
        None \<Rightarrow> False
      | Some s \<Rightarrow> text_ok 256 True s \<and> (fst kv = ''role'' \<longrightarrow> s = '''' \<or> s = ''__none'' \<or> role_name_ok s))"

definition normalize_target :: "json \<Rightarrow> obj sc" where
  "normalize_target v =
     rbind (object_of [''filters'', ''device_ids'', ''bind''] [] v) (\<lambda>d.
     rbind (object_of FILTER_KEYS [] (get_or d ''filters'' (JObj []))) (\<lambda>filters.
     rbind (require (list_all filter_ok filters)) (\<lambda>_.
     let bind = get_or d ''bind'' (JStr ''late'') in
     rbind (require (bind = JStr ''late'' \<or> bind = JStr ''early'')) (\<lambda>_.
     rbind (ids_of target_id_ok MAX_TARGETS True (get_or d ''device_ids'' (JList []))) (\<lambda>ids.
       Inr [(''filters'', JObj filters), (''device_ids'', strings ids), (''bind'', bind)])))))"

definition normalize_assign :: "json \<Rightarrow> obj sc" where
  "normalize_assign v =
     rbind (object_of [''image_ids'', ''mode''] [''image_ids''] v) (\<lambda>d.
     let mode = get_or d ''mode'' (JStr ''merge'') in
     rbind (require (mode = JStr ''merge'' \<or> mode = JStr ''replace'')) (\<lambda>_.
     rbind (ids_of image_id_ok 10 False (jget d ''image_ids'')) (\<lambda>ids.
       Inr [(''image_ids'', strings ids), (''mode'', mode)])))"

definition normalize_onboard :: "json \<Rightarrow> obj sc" where
  "normalize_onboard v =
     rbind (object_of [''telemetry'', ''telemetry_stream'', ''mode'', ''max_devices''] [''max_devices''] v) (\<lambda>d.
     let telemetry = get_or d ''telemetry'' (JBool True); stream = get_or d ''telemetry_stream'' (JBool False);
         mode = get_or d ''mode'' (JStr ''new-only'') in
     rbind (require (mode = JStr ''new-only'' \<and> as_bool telemetry \<noteq> None \<and> as_bool stream \<noteq> None)) (\<lambda>_.
     rbind (integer_of (jget d ''max_devices'') 1 (int MAX_TARGETS)) (\<lambda>n.
       Inr [(''telemetry'', telemetry), (''telemetry_stream'', stream), (''mode'', mode), (''max_devices'', JInt n)])))"

type_synonym zones = "string \<Rightarrow> zone option"

definition normalize_when :: "zones \<Rightarrow> json \<Rightarrow> obj sc" where
  "normalize_when zones v =
     rbind (object_of [''kind'', ''at'', ''weekday'', ''hour'', ''minute'', ''tz'', ''window_seconds''] [''kind'', ''window_seconds''] v) (\<lambda>d.
     let w = setdefault ''tz'' (JStr ''UTC'') d in
     rbind (text_of 128 False (jget w ''tz'')) (\<lambda>tz.
     rbind (require (zones tz \<noteq> None)) (\<lambda>_.
     rbind (integer_of (jget w ''window_seconds'') 1 MAX_WINDOW_SECONDS) (\<lambda>_.
     if jget w ''kind'' = JStr ''once'' then
       rbind (object_of [''kind'', ''at'', ''tz'', ''window_seconds''] [''at''] (JObj w)) (\<lambda>_.
       rbind (integer_of (jget w ''at'') 0 (MAX_EPOCH - MAX_WINDOW_SECONDS)) (\<lambda>_. Inr w))
     else if jget w ''kind'' = JStr ''recurring'' then
       rbind (object_of [''kind'', ''weekday'', ''hour'', ''minute'', ''tz'', ''window_seconds''] [''weekday'', ''hour'', ''minute''] (JObj w)) (\<lambda>_.
       rbind (integer_of (jget w ''weekday'') 0 6) (\<lambda>_.
       rbind (integer_of (jget w ''hour'') 0 23) (\<lambda>_.
       rbind (integer_of (jget w ''minute'') 0 59) (\<lambda>_. Inr w))))
     else Inl Invalid))))"

definition ratio_ok :: "json \<Rightarrow> bool" where
  "ratio_ok v = (case v of JInt n \<Rightarrow> 0 \<le> n \<and> n \<le> 1 | JFloat r \<Rightarrow> 0 \<le> r \<and> r \<le> 1 | _ \<Rightarrow> False)"

definition after_keys :: "string list" where
  "after_keys = [''schedule_id'', ''condition'', ''min_staged_ratio'', ''max_errored_ratio'', ''max_missing_ratio'', ''deadline_seconds'']"

definition normalize_after :: "json \<Rightarrow> obj sc" where
  "normalize_after v =
     rbind (object_of after_keys after_keys v) (\<lambda>d.
     rbind (str_where identifier_ok (jget d ''schedule_id'')) (\<lambda>_.
     rbind (require (jget d ''condition'' = JStr ''min_staged_ratio'')) (\<lambda>_.
     rbind (require (ratio_ok (jget d ''min_staged_ratio'') \<and> ratio_ok (jget d ''max_errored_ratio'') \<and>
              ratio_ok (jget d ''max_missing_ratio''))) (\<lambda>_.
     rbind (integer_of (jget d ''deadline_seconds'') 1 MAX_WINDOW_SECONDS) (\<lambda>_. Inr d)))))"

definition schedule_state_ok :: "string \<Rightarrow> bool" where
  "schedule_state_ok s \<longleftrightarrow> s = ''pending'' \<or> s = ''paused'' \<or> s = ''completed''"

definition normalize_definition :: "zones \<Rightarrow> json \<Rightarrow> obj sc" where
  "normalize_definition zones v =
     rbind (object_of DEFINITION_KEYS [''kind'', ''target'', ''payload'', ''when''] v) (\<lambda>d.
     rbind (str_where (\<lambda>s. s = ''assign'' \<or> s = ''onboard'') (jget d ''kind'')) (\<lambda>kind.
     rbind (str_where schedule_state_ok (get_or d ''state'' (JStr ''pending''))) (\<lambda>state.
     rbind (normalize_target (jget d ''target'')) (\<lambda>target.
     rbind ((if kind = ''assign'' then normalize_assign else normalize_onboard) (jget d ''payload'')) (\<lambda>payload.
     rbind (normalize_when zones (jget d ''when'')) (\<lambda>w.
     let result = [(''kind'', JStr kind), (''target'', JObj target), (''payload'', JObj payload),
                   (''when'', JObj w), (''state'', JStr state)]
     in case dget d ''after'' of
          None \<Rightarrow> Inr result
        | Some a \<Rightarrow> rbind (normalize_after a) (\<lambda>after. Inr (result @ [(''after'', JObj after)]))))))))"

section \<open>Stored schedules\<close>

definition pick :: "string list \<Rightarrow> obj \<Rightarrow> obj" where
  \<comment> \<open>\<^verbatim>\<open>{key: row[key] for key in keys if key in row}\<close>\<close>
  "pick keys d = List.map_filter (\<lambda>k. map_option (Pair k) (dget d k)) keys"

definition validate_schedule :: "zones \<Rightarrow> string \<Rightarrow> json \<Rightarrow> unit sc" where
  "validate_schedule zones key v =
     rbind (object_of ROW_KEYS (filter (\<lambda>k. k \<noteq> ''after'') ROW_KEYS) v) (\<lambda>row.
     rbind (require (identifier_ok key)) (\<lambda>_.
     rbind (require (jget row ''id'' = JStr key)) (\<lambda>_.
     rbind (str_where hex32_ok (jget row ''generation'')) (\<lambda>_.
     rbind (integer_of (jget row ''rev'') 1 MAX_INTEGER) (\<lambda>_.
     rbind (str_where actor_ok (jget row ''created_by'')) (\<lambda>_.
     rbind (integer_of (jget row ''created_at'') 0 MAX_EPOCH) (\<lambda>_.
     rbind (normalize_snapshot (jget row ''preview'')) (\<lambda>_.
     rbind (normalize_definition zones (JObj (pick DEFINITION_KEYS row))) (\<lambda>normalized.
     rbind (require (py_eq (JObj normalized) (JObj (pick DEFINITION_KEYS row)))) (\<lambda>_.
       require (jget (obj_or_empty (jget row ''after'')) ''schedule_id'' \<noteq> JStr key)))))))))))"

definition schedule_etag :: "obj \<Rightarrow> string sc" where
  "schedule_etag row =
     rbind (str_where identifier_ok (jget row ''id'')) (\<lambda>sid.
     rbind (integer_of (jget row ''rev'') 1 MAX_INTEGER) (\<lambda>rev.
       Inr (CHR 0x22 # ''iris-schedule-'' @ sid @ ''-'' @ dec_nat (nat rev) @ [CHR 0x22])))"

definition int_at :: "obj \<Rightarrow> string \<Rightarrow> int" where
  \<comment> \<open>\<^verbatim>\<open>row[key]\<close> where a validator has found an integer\<close>
  "int_at row key = (case jget row key of JInt n \<Rightarrow> n | _ \<Rightarrow> 0)"

abbreviation rev_of :: "obj \<Rightarrow> int" where
  "rev_of row \<equiv> int_at row ''rev''"

definition str_at :: "obj \<Rightarrow> string \<Rightarrow> string" where
  \<comment> \<open>\<^verbatim>\<open>row[key]\<close> where a validator has found a string\<close>
  "str_at row key = (case jget row key of JStr s \<Rightarrow> s | _ \<Rightarrow> [])"

abbreviation obj_at :: "obj \<Rightarrow> string \<Rightarrow> obj" where
  "obj_at row key \<equiv> obj_or_empty (jget row key)"

definition compare_rev :: "json option \<Rightarrow> json \<Rightarrow> obj sc" where
  \<comment> \<open>\<^verbatim>\<open>_compare\<close>; returns the row it was given\<close>
  "compare_rev old expected =
     (case old of
        None \<Rightarrow> Inl NotFound
      | Some v \<Rightarrow>
          let row = obj_or_empty v
          in if expected = JStr ''*'' then Inr row
             else rbind (integer_of expected 1 MAX_INTEGER) (\<lambda>rev.
                    if rev_of row \<noteq> rev then Inl (RevisionConflict (rev_of row)) else Inr row))"

definition validate_progress :: "string \<Rightarrow> json \<Rightarrow> unit sc" where
  "validate_progress key v =
     (let keys = [''generation'', ''last_slot'', ''active_occurrence_id''] in
      rbind (require (identifier_ok key)) (\<lambda>_.
      rbind (object_of keys keys v) (\<lambda>row.
      rbind (str_where hex32_ok (jget row ''generation'')) (\<lambda>_.
      rbind (integer_of (jget row ''last_slot'') 0 MAX_EPOCH) (\<lambda>_.
      rbind (str_where hex32_ok (jget row ''active_occurrence_id'')) (\<lambda>_. Inr ()))))))"

definition validate_retired :: "string \<Rightarrow> json \<Rightarrow> unit sc" where
  "validate_retired key v =
     rbind (require (identifier_ok key)) (\<lambda>_.
     rbind (object_of [''revision''] [''revision''] v) (\<lambda>row.
     rbind (integer_of (jget row ''revision'') 1 MAX_INTEGER) (\<lambda>_. Inr ())))"

definition validator :: "(string \<Rightarrow> json \<Rightarrow> unit sc) \<Rightarrow> string \<Rightarrow> json \<Rightarrow> unit res" where
  \<comment> \<open>as the keyed store sees it: the module's errors are \<^verbatim>\<open>ValueError\<close>s\<close>
  "validator f key v =
     (case f key v of Inr _ \<Rightarrow> Inr () | Inl (PyError e) \<Rightarrow> Inl e | Inl _ \<Rightarrow> Inl ValueError)"

definition owned_cfg :: "(string \<Rightarrow> json \<Rightarrow> unit sc) \<Rightarrow> kconfig" where
  \<comment> \<open>\<^verbatim>\<open>KeyedState(path, error=ScheduleStateError, validate=f, durable=True)\<close>\<close>
  "owned_cfg f = \<lparr>shards = SHARD_COUNT, durable = True, validate = Some (validator f), legacy_extract = None\<rparr>"

end
