(* ===== verification/Schedule_Clock.thy ===== *)
theory Schedule_Clock
  imports Schedule_Rows
begin

text \<open>
  \<^verbatim>\<open>schedules.next_fire\<close> and \<^verbatim>\<open>occurrence_slot\<close>: which maintenance window a schedule opens next.  The function
  with metadata is \<open>fire_slot\<close>; the scalar interface is \<open>next_fire\<close>, whose recursion runs on fuel.  The loop
  over weeks is a partial function: \<open>None\<close> if it does not return.
\<close>

definition weekly_at :: "zone \<Rightarrow> int \<Rightarrow> int \<Rightarrow> int \<Rightarrow> (int \<times> string \<times> string) option" where
  "weekly_at z hour minute day =
     (let l = day * DAY + hour * 3600 + minute * 60
      in map_option (\<lambda>(stamp, resolution). (stamp, resolution, iso_minutes l)) (resolve_local z l))"

partial_function (option) weekly_from ::
  "zone \<Rightarrow> int \<Rightarrow> int \<Rightarrow> int \<Rightarrow> int \<Rightarrow> (int \<times> int \<times> string \<times> string) option" where
  \<comment> \<open>\<^verbatim>\<open>while stamp < floor: day += 7 days\<close>\<close>
  [code]: "weekly_from z hour minute least day =
     (case weekly_at z hour minute day of
        None \<Rightarrow> None
      | Some w \<Rightarrow>
          if fst w < least then weekly_from z hour minute least (day + 7)
          else Some (day, w))"

definition slot_row :: "int \<Rightarrow> int \<Rightarrow> int \<Rightarrow> string \<Rightarrow> string \<Rightarrow> string \<Rightarrow> json \<Rightarrow> obj" where
  "slot_row now stamp window resolution tz label next_at =
     [(''scheduled_at'', JInt stamp), (''window_end'', JInt (stamp + window)),
      (''status'', JStr (if now < stamp then ''future'' else if now < stamp + window then ''due'' else ''missed'')),
      (''resolution'', JStr resolution), (''tz'', JStr tz), (''local_time'', JStr label), (''next_at'', next_at)]"

definition epoch_ok :: "int \<Rightarrow> bool" where
  "epoch_ok n \<longleftrightarrow> 0 \<le> n \<and> n \<le> MAX_EPOCH"

definition cursor_floor :: "int option \<Rightarrow> int \<Rightarrow> int" where
  \<comment> \<open>\<^verbatim>\<open>after_epoch + 1 if after_epoch is not None else default\<close>\<close>
  "cursor_floor after fallback = (case after of Some a \<Rightarrow> a + 1 | None \<Rightarrow> fallback)"

definition weekly_slot ::
  "zone \<Rightarrow> int \<Rightarrow> int \<Rightarrow> int \<Rightarrow> int \<Rightarrow> int \<Rightarrow> int \<Rightarrow> int option \<Rightarrow> (int \<times> string \<times> string \<times> int) option" where
  \<comment> \<open>the recurring branch: stamp, resolution, label and the stamp a week later\<close>
  "weekly_slot z wd hour minute window created now after =
     (let anchor = max created (cursor_floor after now);
          date = to_local z anchor div DAY;
          first = date - (weekday date - wd) mod 7
      in Option.bind (weekly_from z hour minute (max created (cursor_floor after 0)) first) (\<lambda>(day, stamp, resolution, label).
         Option.bind
           (if after = None \<and> now < stamp
            then map_option (\<lambda>(prior, prior_resolution, prior_label).
                     if created \<le> prior \<and> prior \<le> now \<and> now < prior + window
                     then (day - 7, prior, prior_resolution, prior_label)
                     else (day, stamp, resolution, label))
                   (weekly_at z hour minute (day - 7))
            else Some (day, stamp, resolution, label)) (\<lambda>(day', stamp', resolution', label').
         map_option (\<lambda>(next_at, _). (stamp', resolution', label', next_at)) (weekly_at z hour minute (day' + 7)))))"

definition fire_slot :: "zones \<Rightarrow> obj \<Rightarrow> int \<Rightarrow> int option \<Rightarrow> obj option sc" where
  \<comment> \<open>\<^verbatim>\<open>next_fire(schedule, now_epoch, after_epoch=after, metadata=True)\<close>\<close>
  "fire_slot zones schedule now after =
     rbind (require (epoch_ok now)) (\<lambda>_.
     rbind (require (case after of None \<Rightarrow> True | Some a \<Rightarrow> epoch_ok a)) (\<lambda>_.
     rbind (normalize_definition zones (JObj (pick DEFINITION_KEYS schedule))) (\<lambda>definition.
     if jget definition ''state'' \<noteq> JStr ''pending'' then Inr None
     else
       rbind (integer_of (get_or schedule ''created_at'' (JInt 0)) 0 MAX_EPOCH) (\<lambda>created.
       let w = obj_at definition ''when''; tz = str_at w ''tz''; window = int_at w ''window_seconds'' in
       case zones tz of
         None \<Rightarrow> Inl (PyError ValueError)
       | Some z \<Rightarrow>
           if jget w ''kind'' = JStr ''once'' then
             let stamp = int_at w ''at''
             in if (case after of Some a \<Rightarrow> stamp \<le> a | None \<Rightarrow> False) then Inr None
                else Inr (Some (slot_row now stamp window ''normal'' tz (iso_seconds z stamp) JNull))
           else
             (case weekly_slot z (int_at w ''weekday'') (int_at w ''hour'') (int_at w ''minute'') window created now after of
                None \<Rightarrow> Inl (PyError ValueError)
              | Some (stamp, resolution, label, next_at) \<Rightarrow>
                  Inr (Some (slot_row now stamp window resolution tz label (JInt next_at))))))))"

abbreviation occurrence_slot :: "zones \<Rightarrow> obj \<Rightarrow> int \<Rightarrow> int option \<Rightarrow> obj option sc" where
  "occurrence_slot \<equiv> fire_slot"

fun next_fire :: "nat \<Rightarrow> zones \<Rightarrow> obj \<Rightarrow> int \<Rightarrow> int option \<Rightarrow> int option sc" where
  \<comment> \<open>the scalar interface: an instant that can still be dispatched\<close>
  "next_fire 0 zones schedule now after = Inl (PyError OutOfFuel)"
| "next_fire (Suc fuel) zones schedule now after =
     rbind (fire_slot zones schedule now after) (\<lambda>found.
     case found of
       None \<Rightarrow> Inr None
     | Some slot \<Rightarrow>
         if jget slot ''status'' \<noteq> JStr ''missed'' then Inr (Some (int_at slot ''scheduled_at''))
         else (case jget slot ''next_at'' of
                 JInt next_at \<Rightarrow>
                   if next_at + (int_at slot ''window_end'' - int_at slot ''scheduled_at'') \<le> now
                   then next_fire fuel zones schedule now None
                   else Inr (Some next_at)
               | _ \<Rightarrow> Inr None))"

section \<open>The weekly grid\<close>

definition on_grid :: "zone \<Rightarrow> int \<Rightarrow> int \<Rightarrow> int \<Rightarrow> int \<Rightarrow> bool" where
  \<comment> \<open>a slot of the schedule: the first instant at which the wall clock reads the hour, on the weekday, or later\<close>
  "on_grid z wd hour minute t \<longleftrightarrow>
     (\<exists>day. weekday day = wd \<and> reads_first z (day * DAY + hour * 3600 + minute * 60) t)"

abbreviation clock_ok :: "int \<Rightarrow> int \<Rightarrow> int \<Rightarrow> bool" where
  "clock_ok wd hour minute \<equiv> 0 \<le> wd \<and> wd \<le> 6 \<and> 0 \<le> hour \<and> hour \<le> 23 \<and> 0 \<le> minute \<and> minute \<le> 59"

abbreviation slot_at :: "zone \<Rightarrow> int \<Rightarrow> int \<Rightarrow> int \<Rightarrow> int" where
  "slot_at z hour minute day \<equiv> first_instant z (day * DAY + hour * 3600 + minute * 60)"

lemma weekly_at_slot:
  assumes "zone_ok z"
  shows "\<exists>r l. weekly_at z hour minute day = Some (slot_at z hour minute day, r, l)"
  using resolve_local_first [OF assms, of "day * DAY + hour * 3600 + minute * 60"] by (auto simp: weekly_at_def Let_def)

lemma weekday_week: "weekday (day + 7) = weekday day"
  unfolding weekday_def using mod_add_self2 [of "day + 3" 7] by (simp only: ac_simps)

lemma weekday_next:
  assumes "weekday day = weekday day'" "day < day'"
  shows "day + 7 \<le> day'"
proof -
  have "7 dvd (day' + 3) - (day + 3)"
    using assms(1) unfolding weekday_def by (simp only: mod_eq_dvd_iff [symmetric])
  then have "7 dvd day' - day" by simp
  then have "7 \<le> day' - day" using assms(2) by (intro zdvd_imp_le) simp_all
  then show ?thesis by simp
qed

lemma first_weekday:
  fixes date wd :: int
  assumes "0 \<le> wd" "wd \<le> 6"
  shows "weekday (date - (weekday date - wd) mod 7) = wd"
proof -
  have "(date + 3 - (weekday date - wd) mod 7) mod 7 = (date + 3 - ((date + 3) - wd)) mod 7"
    unfolding weekday_def by (metis mod_diff_left_eq mod_diff_right_eq)
  then show ?thesis using assms by (simp add: weekday_def algebra_simps)
qed

lemma on_grid_iff:
  assumes "zone_ok z"
  shows "on_grid z wd hour minute t \<longleftrightarrow> (\<exists>day. weekday day = wd \<and> t = slot_at z hour minute day)"
  using first_instant_reads [OF assms] reads_first_unique unfolding on_grid_def by blast

lemma slot_at_less:
  assumes "zone_ok z" "day + 7 \<le> day'"
  shows "slot_at z hour minute day < slot_at z hour minute day'"
  using assms(2) by (intro first_instant_mono [OF assms(1)]) (simp add: DAY_def)

lemma slot_at_less_iff:
  assumes "zone_ok z" "weekday day = weekday day'"
  shows "slot_at z hour minute day < slot_at z hour minute day' \<longleftrightarrow> day < day'"
proof (cases day day' rule: linorder_cases)
  case less
  then show ?thesis using slot_at_less [OF assms(1) weekday_next [OF assms(2)]] by simp
next
  case greater
  then show ?thesis using slot_at_less [OF assms(1) weekday_next [OF assms(2) [symmetric]], of hour minute] by simp
qed simp

text \<open>The loop over weeks returns, with the first slot of the grid from its first day on that is not too early.\<close>

lemma weekly_from_returns:
  assumes "zone_ok z" "weekday day = wd"
  shows "\<exists>day' r l. weekly_from z hour minute least day = Some (day', slot_at z hour minute day', r, l) \<and>
    day \<le> day' \<and> weekday day' = wd \<and> least \<le> slot_at z hour minute day' \<and>
    (\<forall>d. weekday d = wd \<and> day \<le> d \<and> slot_at z hour minute d < slot_at z hour minute day' \<longrightarrow> slot_at z hour minute d < least)"
  using assms(2)
proof (induction "nat (least - slot_at z hour minute day)" arbitrary: day rule: less_induct)
  case less
  obtain r l where w: "weekly_at z hour minute day = Some (slot_at z hour minute day, r, l)"
    using weekly_at_slot [OF assms(1)] by blast
  show ?case
  proof (cases "slot_at z hour minute day < least")
    case False
    have "\<not> slot_at z hour minute d < slot_at z hour minute day" if "weekday d = wd" "day \<le> d" for d
      using slot_at_less_iff [OF assms(1), of d day] that less.prems by simp
    with False w less.prems show ?thesis by (subst weekly_from.simps) auto
  next
    case True
    have lt: "slot_at z hour minute day < slot_at z hour minute (day + 7)" by (rule slot_at_less [OF assms(1)]) simp
    have wd: "weekday (day + 7) = wd" using weekday_week less.prems by simp
    from less.hyps [OF _ wd] True lt obtain day' r' l' where
      d': "weekly_from z hour minute least (day + 7) = Some (day', slot_at z hour minute day', r', l')"
      "day + 7 \<le> day'" "weekday day' = wd" "least \<le> slot_at z hour minute day'"
      "\<And>d. weekday d = wd \<Longrightarrow> day + 7 \<le> d \<Longrightarrow> slot_at z hour minute d < slot_at z hour minute day' \<Longrightarrow> slot_at z hour minute d < least"
      by auto
    have "slot_at z hour minute d < least"
      if "weekday d = wd" "day \<le> d" "slot_at z hour minute d < slot_at z hour minute day'" for d
      using d'(5) [OF that(1) _ that(3)] True weekday_next [of day d] that(1,2) less.prems
      by (cases "d = day") auto
    with d' w True show ?thesis by (subst weekly_from.simps) auto
  qed
qed

text \<open>Slots of days before the anchor's week are over before the anchor.\<close>

lemma earlier_slot:
  assumes "zone_ok z" "clock_ok wd hour minute" "day + 7 \<le> to_local z anchor div DAY"
  shows "slot_at z hour minute day < anchor"
proof -
  have "slot_at z hour minute day \<le> day * DAY + hour * 3600 + minute * 60 + DAY"
    by (rule first_instant_bounds(2) [OF assms(1)])
  moreover have "hour * 3600 + minute * 60 < DAY" using assms(2) by (simp add: DAY_def)
  moreover have "(day + 7) * DAY \<le> to_local z anchor"
    using assms(3) by (metis DAY_def div_mult_mod_eq le_add_same_cancel1 mult_right_mono order_trans pos_mod_sign zero_le_numeral zero_less_numeral)
  moreover have "to_local z anchor < anchor + DAY"
    using table_zone.loc_bounds(2) [where z = z] by (simp only: to_local_sane [OF assms(1)])
  ultimately show ?thesis by (simp add: DAY_def)
qed

lemma weekday_back: "weekday (day - 7) = weekday day"
  using weekday_week [of "day - 7"] by simp

definition next_on_grid :: "zone \<Rightarrow> int \<Rightarrow> int \<Rightarrow> int \<Rightarrow> int \<Rightarrow> int \<Rightarrow> bool" where
  "next_on_grid z wd hour minute t n \<longleftrightarrow>
     on_grid z wd hour minute n \<and> t < n \<and> (\<forall>s. on_grid z wd hour minute s \<and> t < s \<longrightarrow> n \<le> s)"

lemma week_later_next:
  assumes "zone_ok z" "weekday day = wd"
  shows "next_on_grid z wd hour minute (slot_at z hour minute day) (slot_at z hour minute (day + 7))"
proof -
  have wd: "weekday (day + 7) = wd" using weekday_week assms(2) by simp
  have "slot_at z hour minute (day + 7) \<le> slot_at z hour minute d"
    if "weekday d = wd" "slot_at z hour minute day < slot_at z hour minute d" for d
  proof -
    have "day < d" using slot_at_less_iff [OF assms(1), of day d] that assms(2) by simp
    with weekday_next [of day d] that(1) assms(2) have "\<not> d < day + 7" by simp
    then show ?thesis using slot_at_less_iff [OF assms(1), of d "day + 7" hour minute] that(1) wd by simp
  qed
  then show ?thesis
    using wd slot_at_less [OF assms(1), of day "day + 7" hour minute]
    unfolding next_on_grid_def on_grid_iff [OF assms(1)] by auto
qed

lemma weekly_slot_cursor:
  assumes "zone_ok z" "clock_ok wd hour minute"
  shows "\<exists>t r l n. weekly_slot z wd hour minute window created now (Some a) = Some (t, r, l, n) \<and>
    on_grid z wd hour minute t \<and> created \<le> t \<and> a < t \<and>
    (\<forall>s. on_grid z wd hour minute s \<and> created \<le> s \<and> a < s \<longrightarrow> t \<le> s) \<and> next_on_grid z wd hour minute t n"
proof -
  define anchor where "anchor = max created (a + 1)"
  define date where "date = to_local z anchor div DAY"
  define day where "day = date - (weekday date - wd) mod 7"
  have day: "weekday day = wd" "day \<le> date" using first_weekday assms(2) by (auto simp: day_def)
  from weekly_from_returns [OF assms(1) day(1), of hour minute anchor]
  obtain day' r l where d': "weekly_from z hour minute anchor day = Some (day', slot_at z hour minute day', r, l)"
    "weekday day' = wd" "anchor \<le> slot_at z hour minute day'"
    "\<And>d. weekday d = wd \<Longrightarrow> day \<le> d \<Longrightarrow> slot_at z hour minute d < slot_at z hour minute day' \<Longrightarrow> slot_at z hour minute d < anchor"
    by blast
  obtain r' l' where n: "weekly_at z hour minute (day' + 7) = Some (slot_at z hour minute (day' + 7), r', l')"
    using weekly_at_slot [OF assms(1)] by blast
  have least: "slot_at z hour minute day' \<le> slot_at z hour minute d"
    if d: "weekday d = wd" "anchor \<le> slot_at z hour minute d" for d
  proof (cases "day \<le> d")
    case True
    with d'(4) [OF d(1)] d(2) show ?thesis by force
  next
    case False
    with weekday_next [of d day] d(1) day have "d + 7 \<le> date" by simp
    with earlier_slot [OF assms, of d anchor] d(2) show ?thesis by (simp add: date_def)
  qed
  have "weekly_slot z wd hour minute window created now (Some a) =
      Some (slot_at z hour minute day', r, l, slot_at z hour minute (day' + 7))"
    using d'(1) n by (simp add: weekly_slot_def cursor_floor_def anchor_def date_def day_def Let_def)
  moreover have "on_grid z wd hour minute (slot_at z hour minute day')"
    using d'(2) on_grid_iff [OF assms(1)] by blast
  moreover have "\<forall>s. on_grid z wd hour minute s \<and> created \<le> s \<and> a < s \<longrightarrow> slot_at z hour minute day' \<le> s"
    using least unfolding on_grid_iff [OF assms(1)] by (auto simp: anchor_def)
  ultimately show ?thesis
    using d'(3) week_later_next [OF assms(1) d'(2), of hour minute] by (auto simp: anchor_def)
qed

text \<open>The calendar date never goes back: clocks that are set back at midnight stay on the same side of it.\<close>

definition dates_ascend :: "zone \<Rightarrow> bool" where
  "dates_ascend z \<longleftrightarrow> (\<forall>t t'. t \<le> t' \<longrightarrow> to_local z t div DAY \<le> to_local z t' div DAY)"

lemma slot_date:
  assumes "zone_ok z" "dates_ascend z" "clock_ok wd hour minute" "slot_at z hour minute day \<le> now"
  shows "day \<le> to_local z now div DAY"
proof -
  let ?l = "day * DAY + hour * 3600 + minute * 60"
  have "?l \<le> to_local z (first_instant z ?l)" using first_instant_reads [OF assms(1)] by (simp add: reads_first_def)
  moreover have "day * DAY \<le> ?l" using assms(3) by simp
  ultimately have "day * DAY \<le> to_local z (first_instant z ?l)" by linarith
  then have "day * DAY div DAY \<le> to_local z (first_instant z ?l) div DAY"
    by (rule zdiv_mono1) (simp add: DAY_def)
  then have "day \<le> to_local z (first_instant z ?l) div DAY" by (simp add: DAY_def)
  also have "\<dots> \<le> to_local z now div DAY" using assms(2,4) by (simp add: dates_ascend_def)
  finally show ?thesis .
qed

lemma weekly_slot_now:
  assumes z: "zone_ok z" and asc: "dates_ascend z" and c: "clock_ok wd hour minute" and pos: "0 \<le> created" "0 < window"
  shows "\<exists>t r l n. weekly_slot z wd hour minute window created now None = Some (t, r, l, n) \<and>
    on_grid z wd hour minute t \<and> created \<le> t \<and> next_on_grid z wd hour minute t n \<and>
    (t + window \<le> now \<longrightarrow> now < n) \<and>
    (\<forall>s. on_grid z wd hour minute s \<and> created \<le> s \<and> s \<le> now \<and> now < s + window \<longrightarrow> t \<le> now \<and> now < t + window)"
proof -
  let ?slot = "slot_at z hour minute"
  define anchor where "anchor = max created now"
  define date where "date = to_local z anchor div DAY"
  define day where "day = date - (weekday date - wd) mod 7"
  have day: "weekday day = wd" "day \<le> date" "date < day + 7" using first_weekday c by (auto simp: day_def)
  have wk: "weekday (d - 7) = wd \<and> weekday (d + 7) = wd" if "weekday d = wd" for d
    using that weekday_week weekday_back by simp
  note less = slot_at_less_iff [OF z, of _ _ hour minute]
  from weekly_from_returns [OF z day(1), of hour minute "max created 0"]
  obtain day' r l where d': "weekly_from z hour minute (max created 0) day = Some (day', ?slot day', r, l)"
    "day \<le> day'" "weekday day' = wd" "max created 0 \<le> ?slot day'"
    "\<And>d. weekday d = wd \<Longrightarrow> day \<le> d \<Longrightarrow> ?slot d < ?slot day' \<Longrightarrow> ?slot d < max created 0"
    by blast
  obtain r1 l1 where p: "weekly_at z hour minute (day' - 7) = Some (?slot (day' - 7), r1, l1)"
    using weekly_at_slot [OF z] by blast
  define prior where "prior \<longleftrightarrow> now < ?slot day' \<and> created \<le> ?slot (day' - 7) \<and> ?slot (day' - 7) \<le> now \<and> now < ?slot (day' - 7) + window"
  define day'' where "day'' = (if prior then day' - 7 else day')"
  have wd: "weekday day'' = wd" using wk [OF d'(3)] d'(3) by (simp add: day''_def)
  have eq: "\<exists>r l. weekly_slot z wd hour minute window created now None = Some (?slot day'', r, l, ?slot (day'' + 7))"
    using d'(1) p weekly_at_slot [OF z, of hour minute day'] weekly_at_slot [OF z, of hour minute "day' + 7"]
    by (simp add: weekly_slot_def cursor_floor_def anchor_def [symmetric] date_def [symmetric] day_def [symmetric] Let_def prior_def day''_def)
  have created: "created \<le> ?slot day''" using d'(4) by (auto simp: day''_def prior_def)
  have latest: "day' = day \<and> date = to_local z now div DAY" if "?slot day' \<le> now"
  proof -
    from that d'(4) have "anchor = now" by (simp add: anchor_def)
    then have "date = to_local z now div DAY" by (simp add: date_def)
    moreover have "day' \<le> date" using slot_date [OF z asc c that] calculation by simp
    ultimately show ?thesis using day(3) d'(2,3) day(1) weekday_next [of day day'] by force
  qed
  have missed: "now < ?slot (day'' + 7)" if "?slot day'' + window \<le> now"
  proof -
    have nb: "\<not> prior" using that by (auto simp: day''_def prior_def)
    with that pos(2) have "?slot day' \<le> now" by (simp add: day''_def)
    with latest have d: "day' = day" "date = to_local z now div DAY" by auto
    have "\<not> ?slot (day + 7) \<le> now" using slot_date [OF z asc c, of "day + 7" now] d(2) day(3) by auto
    with nb d(1) show ?thesis by (simp add: day''_def)
  qed
  have due: "?slot day'' \<le> now \<and> now < ?slot day'' + window"
    if s: "weekday d = wd" "created \<le> ?slot d" "?slot d \<le> now" "now < ?slot d + window" for d
  proof -
    from s have an: "anchor = now" by (simp add: anchor_def)
    then have "d \<le> date" using slot_date [OF z asc c s(3)] by (simp add: date_def)
    then have le: "d \<le> day" using weekday_next [of day d] s(1) day by force
    then have sd: "?slot d \<le> ?slot day" using less [of day d] s(1) day(1) by fastforce
    have "\<not> ?slot day < ?slot day'" using d'(5) [OF day(1)] sd s(2) pos(1) by force
    then have "day' = day" using less [of day day'] d'(2,3) day(1) by simp
    show ?thesis
    proof (cases "?slot day \<le> now")
      case True
      with sd s(4) \<open>day' = day\<close> show ?thesis by (simp add: day''_def prior_def)
    next
      case False
      with s(3) sd less [of d day] s(1) day(1) have "d < day" by simp
      with weekday_next [of d day] s(1) day(1) have "d \<le> day - 7" by simp
      then have "?slot d \<le> ?slot (day - 7)" using less [of "day - 7" d] s(1) wk [OF day(1)] by fastforce
      moreover have "?slot (day - 7) < now" using earlier_slot [OF z c, of "day - 7" anchor] day(2) an by (simp add: date_def)
      ultimately show ?thesis using False s \<open>day' = day\<close> by (simp add: day''_def prior_def)
    qed
  qed
  from eq obtain r' l' where "weekly_slot z wd hour minute window created now None = Some (?slot day'', r', l', ?slot (day'' + 7))" by blast
  then show ?thesis
    using created week_later_next [OF z wd, of hour minute] missed wd due
    by (intro exI [of _ "?slot day''"] exI [of _ r'] exI [of _ l'] exI [of _ "?slot (day'' + 7)"])
       (auto simp: on_grid_iff [OF z])
qed

section \<open>Slots of a schedule\<close>

lemma require_Inr [simp]: "require b = Inr u \<longleftrightarrow> b"
  by (simp add: require_def)

lemma require_rbind [simp]: "rbind (require b) f = (if b then f () else Inl Invalid)"
  by (simp add: require_def)

lemma integer_of_Inr: "integer_of v lo hi = Inr n \<longleftrightarrow> v = JInt n \<and> lo \<le> n \<and> n \<le> hi"
  by (cases v) (auto simp: integer_of_def)

lemma str_where_Inr: "str_where p v = Inr s \<longleftrightarrow> v = JStr s \<and> p s"
  by (cases v) (auto simp: str_where_def)

lemma object_of_Inr: "object_of keys required v = Inr d \<longleftrightarrow>
    v = JObj d \<and> set (dkeys d) \<subseteq> set keys \<and> set required \<subseteq> set (dkeys d)"
  by (cases v) (auto simp: object_of_def)

lemma normalize_when_Inr:
  assumes "normalize_when zones v = Inr w"
  shows "(\<exists>z. zones (str_at w ''tz'') = Some z) \<and> 1 \<le> int_at w ''window_seconds'' \<and>
    int_at w ''window_seconds'' \<le> MAX_WINDOW_SECONDS \<and>
    (jget w ''kind'' = JStr ''once'' \<and> 0 \<le> int_at w ''at'' \<and> int_at w ''at'' \<le> MAX_EPOCH - MAX_WINDOW_SECONDS \<or>
     jget w ''kind'' = JStr ''recurring'' \<and> clock_ok (int_at w ''weekday'') (int_at w ''hour'') (int_at w ''minute''))"
  using assms unfolding normalize_when_def
  by (auto simp: rbind_eq_Inr Let_def integer_of_Inr str_where_Inr int_at_def str_at_def split: if_splits)

lemma definition_when [simp]:
  "obj_at ((''kind'', a) # (''target'', b) # (''payload'', c) # (''when'', JObj w) # rest) ''when'' = w"
  by (simp add: get_or_def)

lemma normalize_definition_when:
  assumes "normalize_definition zones v = Inr d"
  shows "\<exists>x. normalize_when zones x = Inr (obj_at d ''when'')"
proof -
  obtain x w a b c rest where "normalize_when zones x = Inr w"
    "d = (''kind'', a) # (''target'', b) # (''payload'', c) # (''when'', JObj w) # rest"
    using assms unfolding normalize_definition_def rbind_eq_Inr Let_def
    by (cases "dget (obj_or_empty v) ''after''") (force simp: object_of_Inr rbind_eq_Inr split: option.splits)+
  then show ?thesis by (metis definition_when)
qed

end
