(* ===== verification/Clock_Properties.thy ===== *)
theory Clock_Properties
  imports Schedule_Clock
begin

text \<open>
  What the scheduler may rely on: from a cursor it visits every slot of the weekly grid in order, and the
  scalar interface returns an instant that can still be dispatched, the open window if there is one.
\<close>

definition recurs :: "zones \<Rightarrow> obj \<Rightarrow> zone \<Rightarrow> obj \<Rightarrow> int \<Rightarrow> bool" where
  \<comment> \<open>a valid, pending, recurring schedule in a known zone\<close>
  "recurs zones schedule z w created \<longleftrightarrow>
     (\<exists>d. normalize_definition zones (JObj (pick DEFINITION_KEYS schedule)) = Inr d \<and>
        jget d ''state'' = JStr ''pending'' \<and> w = obj_at d ''when'') \<and>
     jget w ''kind'' = JStr ''recurring'' \<and> zones (str_at w ''tz'') = Some z \<and> zone_ok z \<and>
     get_or schedule ''created_at'' (JInt 0) = JInt created \<and> epoch_ok created"

abbreviation grid :: "zone \<Rightarrow> obj \<Rightarrow> int \<Rightarrow> bool" where
  "grid z w \<equiv> on_grid z (int_at w ''weekday'') (int_at w ''hour'') (int_at w ''minute'')"

abbreviation week_after :: "zone \<Rightarrow> obj \<Rightarrow> int \<Rightarrow> int \<Rightarrow> bool" where
  "week_after z w \<equiv> next_on_grid z (int_at w ''weekday'') (int_at w ''hour'') (int_at w ''minute'')"

lemma recurs_clock:
  assumes "recurs zones schedule z w created"
  shows "clock_ok (int_at w ''weekday'') (int_at w ''hour'') (int_at w ''minute'')" "0 < int_at w ''window_seconds''"
    "0 \<le> created" "zone_ok z"
proof -
  from assms obtain d where "normalize_definition zones (JObj (pick DEFINITION_KEYS schedule)) = Inr d" "w = obj_at d ''when''"
    by (auto simp: recurs_def)
  with normalize_definition_when obtain x where "normalize_when zones x = Inr w" by blast
  from normalize_when_Inr [OF this] assms
  show "clock_ok (int_at w ''weekday'') (int_at w ''hour'') (int_at w ''minute'')" "0 < int_at w ''window_seconds''"
    by (simp_all add: recurs_def)
  show "0 \<le> created" "zone_ok z" using assms by (simp_all add: recurs_def epoch_ok_def)
qed

lemma fire_slot_recurs:
  assumes "recurs zones schedule z w created" "epoch_ok now" "case after of None \<Rightarrow> True | Some a \<Rightarrow> epoch_ok a"
    and "weekly_slot z (int_at w ''weekday'') (int_at w ''hour'') (int_at w ''minute'') (int_at w ''window_seconds'') created now after =
      Some (t, r, l, n)"
  shows "fire_slot zones schedule now after =
    Inr (Some (slot_row now t (int_at w ''window_seconds'') r (str_at w ''tz'') l (JInt n)))"
proof -
  have c: "integer_of (JInt created) 0 MAX_EPOCH = Inr created"
    using assms(1) by (simp add: recurs_def epoch_ok_def integer_of_Inr)
  from assms(1) obtain d where "normalize_definition zones (JObj (pick DEFINITION_KEYS schedule)) = Inr d"
    "jget d ''state'' = JStr ''pending''" "w = obj_at d ''when''" by (auto simp: recurs_def)
  with assms c show ?thesis by (simp add: fire_slot_def Let_def recurs_def)
qed

lemma slot_row_fields:
  "int_at (slot_row now t window r tz l n) ''scheduled_at'' = t"
  "int_at (slot_row now t window r tz l n) ''window_end'' = t + window"
  "jget (slot_row now t window r tz l n) ''next_at'' = n"
  "jget (slot_row now t window r tz l n) ''status'' =
     JStr (if now < t then ''future'' else if now < t + window then ''due'' else ''missed'')"
  by (simp_all add: slot_row_def int_at_def get_or_def)

text \<open>
  C34. No window is skipped.  For a valid recurring schedule in a well-formed zone the slot after a cursor is
  always found, and it is exactly the first slot of the weekly grid after the cursor and not before the
  schedule's creation; its successor is the next one on the grid.  A slot of the grid is the first instant
  at which the wall clock shows the hour, or a later one where the clock jumps over it.
\<close>

theorem cursor_visits_grid:
  assumes "recurs zones schedule z w created" "epoch_ok now" "epoch_ok cursor"
  shows "\<exists>slot t n. fire_slot zones schedule now (Some cursor) = Inr (Some slot) \<and>
    jget slot ''scheduled_at'' = JInt t \<and> jget slot ''window_end'' = JInt (t + int_at w ''window_seconds'') \<and>
    jget slot ''next_at'' = JInt n \<and> grid z w t \<and> created \<le> t \<and> cursor < t \<and>
    (\<forall>s. grid z w s \<and> created \<le> s \<and> cursor < s \<longrightarrow> t \<le> s) \<and> week_after z w t n"
proof -
  note c = recurs_clock [OF assms(1)]
  obtain t r l n where w: "weekly_slot z (int_at w ''weekday'') (int_at w ''hour'') (int_at w ''minute'')
      (int_at w ''window_seconds'') created now (Some cursor) = Some (t, r, l, n)"
    "grid z w t" "created \<le> t" "cursor < t" "\<forall>s. grid z w s \<and> created \<le> s \<and> cursor < s \<longrightarrow> t \<le> s" "week_after z w t n"
    using weekly_slot_cursor [OF c(4,1)] by blast
  have "fire_slot zones schedule now (Some cursor) =
      Inr (Some (slot_row now t (int_at w ''window_seconds'') r (str_at w ''tz'') l (JInt n)))"
    using assms w(1) by (intro fire_slot_recurs) simp_all
  with w(2-) show ?thesis by (simp add: slot_row_def get_or_def)
qed

text \<open>
  C35. The scalar interface.  Where dates do not go back, two rounds are enough for \<^verbatim>\<open>next_fire\<close> to return, with or
  without a cursor.  Without one it returns a slot of the grid that is not over, and if the window of some
  slot since the creation is open, a slot whose window is open.
\<close>

theorem next_fire_dispatchable:
  assumes "recurs zones schedule z w created" "dates_ascend z" "epoch_ok now"
    "case after of None \<Rightarrow> True | Some a \<Rightarrow> epoch_ok a"
  shows "\<exists>t. next_fire 2 zones schedule now after = Inr (Some t) \<and> grid z w t \<and> created \<le> t \<and>
    now < t + int_at w ''window_seconds'' \<and>
    (after = None \<and> (\<exists>s. grid z w s \<and> created \<le> s \<and> s \<le> now \<and> now < s + int_at w ''window_seconds'') \<longrightarrow> t \<le> now)"
proof -
  let ?window = "int_at w ''window_seconds''"
  note c = recurs_clock [OF assms(1)]
  obtain t r l n where w: "weekly_slot z (int_at w ''weekday'') (int_at w ''hour'') (int_at w ''minute'') ?window created now None = Some (t, r, l, n)"
    "grid z w t" "created \<le> t" "week_after z w t n" "t + ?window \<le> now \<longrightarrow> now < n"
    "\<And>s. grid z w s \<Longrightarrow> created \<le> s \<Longrightarrow> s \<le> now \<Longrightarrow> now < s + ?window \<Longrightarrow> t \<le> now \<and> now < t + ?window"
    using weekly_slot_now [OF c(4) assms(2) c(1) c(3,2), of now] by blast
  have "fire_slot zones schedule now None = Inr (Some (slot_row now t ?window r (str_at w ''tz'') l (JInt n)))"
    using assms w(1) by (intro fire_slot_recurs) simp_all
  then have plain: "next_fire (Suc k) zones schedule now None = Inr (Some (if t + ?window \<le> now then n else t))" for k
    using w(5) c(2) by (auto simp: slot_row_fields)
  have n: "grid z w n" "t < n" using w(4) by (auto simp: next_on_grid_def)
  have none: "\<exists>t. next_fire (Suc k) zones schedule now None = Inr (Some t) \<and> grid z w t \<and> created \<le> t \<and> now < t + ?window \<and>
      ((\<exists>s. grid z w s \<and> created \<le> s \<and> s \<le> now \<and> now < s + ?window) \<longrightarrow> t \<le> now)" for k
  proof (cases "t + ?window \<le> now")
    case True
    with w(6) have "\<not> (\<exists>s. grid z w s \<and> created \<le> s \<and> s \<le> now \<and> now < s + ?window)" by fastforce
    moreover have "created \<le> n" "now < n + ?window" using w(3,5) n(2) c(2) True by auto
    ultimately show ?thesis using plain [of k] True n(1) by (intro exI [of _ n]) (simp del: next_fire.simps, blast)
  next
    case False
    then show ?thesis using plain [of k] w(2,3) w(6) by (intro exI [of _ t]) (auto simp del: next_fire.simps)
  qed
  show ?thesis
  proof (cases after)
    case None
    then show ?thesis using none [of 1] by (simp add: numeral_2_eq_2)
  next
    case (Some a)
    obtain t' r' l' n' where w': "weekly_slot z (int_at w ''weekday'') (int_at w ''hour'') (int_at w ''minute'') ?window created now (Some a) = Some (t', r', l', n')"
      "grid z w t'" "created \<le> t'" "week_after z w t' n'"
      using weekly_slot_cursor [OF c(4,1)] by blast
    have "fire_slot zones schedule now (Some a) = Inr (Some (slot_row now t' ?window r' (str_at w ''tz'') l' (JInt n')))"
      using assms Some w'(1) by (intro fire_slot_recurs) simp_all
    moreover have "grid z w n'" "t' < n'" using w'(4) by (auto simp: next_on_grid_def)
    ultimately show ?thesis
      using none [of 0] w'(2,3) Some c(2) by (auto simp: numeral_2_eq_2 slot_row_fields)
  qed
qed

section \<open>Witnesses\<close>

definition demo_zones :: zones where
  "demo_zones tz = (if tz = ''Europe/Berlin'' then Some demo_zone else None)"

definition demo_when :: obj where
  \<comment> \<open>Sundays at half past two, for an hour\<close>
  "demo_when = [(''kind'', JStr ''recurring''), (''weekday'', JInt 6), (''hour'', JInt 2), (''minute'', JInt 30),
     (''tz'', JStr ''Europe/Berlin''), (''window_seconds'', JInt 3600)]"

definition demo_schedule :: obj where
  "demo_schedule = [(''kind'', JStr ''assign''), (''target'', JObj []), (''payload'', JObj [(''image_ids'', strings [''image-1''])]),
     (''when'', JObj demo_when), (''created_at'', JInt 1773000000)]"

lemma demo_recurs: "recurs demo_zones demo_schedule demo_zone demo_when 1773000000"
proof -
  have "normalize_definition demo_zones (JObj (pick DEFINITION_KEYS demo_schedule)) =
      Inr [(''kind'', JStr ''assign''), (''target'', JObj [(''filters'', JObj []), (''device_ids'', strings []), (''bind'', JStr ''late'')]),
        (''payload'', JObj [(''image_ids'', strings [''image-1'']), (''mode'', JStr ''merge'')]), (''when'', JObj demo_when),
        (''state'', JStr ''pending'')]"
    by code_simp
  moreover have "str_at demo_when ''tz'' = ''Europe/Berlin''" by (simp add: str_at_def demo_when_def get_or_def)
  ultimately show ?thesis unfolding recurs_def
    by (simp add: demo_zone_ok demo_zones_def epoch_ok_def MAX_EPOCH_def) (simp add: demo_when_def demo_schedule_def get_or_def)
qed

text \<open>The night the clocks go forward: half past two is missing, the window opens at three.\<close>

theorem cursor_visits_grid_witness:
  "\<exists>slot t n. fire_slot demo_zones demo_schedule 1774700000 (Some 1774400000) = Inr (Some slot) \<and>
    jget slot ''scheduled_at'' = JInt t \<and> grid demo_zone demo_when t \<and> 1774400000 < t \<and> week_after demo_zone demo_when t n"
  using cursor_visits_grid [OF demo_recurs, of 1774700000 1774400000] by (auto simp: epoch_ok_def MAX_EPOCH_def)

lemma demo_dates_ascend: "dates_ascend demo_zone"
proof -
  have o: "offset_at (base demo_zone) (shifts demo_zone) t = (if t < 1774746000 then 3600 else if t < 1792890000 then 7200 else 3600)" for t
    by (simp add: demo_zone_def)
  have "to_local demo_zone t div DAY \<le> to_local demo_zone t' div DAY" if "t \<le> t'" for t t'
  proof (cases "t < 1792890000 \<and> 1792890000 \<le> t'")
    case True
    have "to_local demo_zone t div DAY \<le> 1792897199 div DAY"
      using True by (intro zdiv_mono1) (auto simp: to_local_def o DAY_def)
    also have "\<dots> = 1792893600 div DAY" by (simp add: DAY_def)
    also have "\<dots> \<le> to_local demo_zone t' div DAY"
      using True by (intro zdiv_mono1) (auto simp: to_local_def o DAY_def)
    finally show ?thesis .
  next
    case False
    with that have "to_local demo_zone t \<le> to_local demo_zone t'" by (auto simp: to_local_def o)
    then show ?thesis by (intro zdiv_mono1) (simp_all add: DAY_def)
  qed
  then show ?thesis by (simp add: dates_ascend_def)
qed

theorem next_fire_dispatchable_witness:
  "\<exists>t. next_fire 2 demo_zones demo_schedule 1774747000 None = Inr (Some t) \<and> grid demo_zone demo_when t \<and>
     1774747000 < t + int_at demo_when ''window_seconds''"
  using next_fire_dispatchable [OF demo_recurs demo_dates_ascend, of 1774747000 None] by (auto simp: epoch_ok_def MAX_EPOCH_def)

text \<open>
  In a zone whose clock goes back over midnight (as Newfoundland's did until 2011) the assumption on dates
  fails, and so does the recursion of the source: it calls itself with the arguments it was given.  Here the
  clock is set back at one minute past midnight on a Monday, the slot is midnight and its window a minute.
\<close>

definition midnight_zone :: zone where
  "midnight_zone = \<lparr>base = 3600, shifts = [(1162162860, 0)]\<rparr>"

definition midnight_zones :: zones where
  "midnight_zones tz = (if tz = ''UTC'' then Some midnight_zone else None)"

definition midnight_when :: obj where
  "midnight_when = [(''kind'', JStr ''recurring''), (''weekday'', JInt 0), (''hour'', JInt 0), (''minute'', JInt 0),
     (''tz'', JStr ''UTC''), (''window_seconds'', JInt 60)]"

definition midnight_schedule :: obj where
  "midnight_schedule = [(''kind'', JStr ''assign''), (''target'', JObj []), (''payload'', JObj [(''image_ids'', strings [''image-1''])]),
     (''when'', JObj midnight_when)]"

lemma midnight_zone_ok: "zone_ok midnight_zone"
  by (simp add: zone_ok_def midnight_zone_def DAY_def)

lemma midnight_recurs: "recurs midnight_zones midnight_schedule midnight_zone midnight_when 0"
proof -
  have "normalize_definition midnight_zones (JObj (pick DEFINITION_KEYS midnight_schedule)) =
      Inr [(''kind'', JStr ''assign''), (''target'', JObj [(''filters'', JObj []), (''device_ids'', strings []), (''bind'', JStr ''late'')]),
        (''payload'', JObj [(''image_ids'', strings [''image-1'']), (''mode'', JStr ''merge'')]), (''when'', JObj midnight_when),
        (''state'', JStr ''pending'')]"
    by code_simp
  moreover have "str_at midnight_when ''tz'' = ''UTC''" by (simp add: str_at_def midnight_when_def get_or_def)
  ultimately show ?thesis unfolding recurs_def
    by (simp add: midnight_zone_ok midnight_zones_def epoch_ok_def MAX_EPOCH_def)
       (simp add: midnight_when_def midnight_schedule_def get_or_def)
qed

lemma midnight_slot:
  "\<exists>r l. weekly_slot midnight_zone 0 0 0 60 0 1162162920 None = Some (1161558000, r, l, 1162162800)"
proof -
  have "slot_at midnight_zone 0 0 13444 = 1161558000" "slot_at midnight_zone 0 0 13451 = 1162162800"
    by (simp_all add: first_instant_def midnight_zone_def DAY_def)
  then obtain r l r' l' where w: "weekly_at midnight_zone 0 0 13444 = Some (1161558000, r, l)"
    "weekly_at midnight_zone 0 0 13451 = Some (1162162800, r', l')"
    using weekly_at_slot [OF midnight_zone_ok, of 0 0 13444] weekly_at_slot [OF midnight_zone_ok, of 0 0 13451] by auto
  have "weekly_from midnight_zone 0 0 0 13444 = Some (13444, 1161558000, r, l)"
    using w(1) by (subst weekly_from.simps) simp
  moreover have "to_local midnight_zone 1162162920 div DAY = 13450"
    by (simp add: to_local_def midnight_zone_def DAY_def)
  ultimately show ?thesis
    using w(2) by (simp add: weekly_slot_def cursor_floor_def Let_def weekday_def)
qed

lemma next_fire_loops: "next_fire fuel midnight_zones midnight_schedule 1162162920 None = Inl (PyError OutOfFuel)"
proof (induction fuel)
  case (Suc fuel)
  obtain r l where "weekly_slot midnight_zone 0 0 0 60 0 1162162920 None = Some (1161558000, r, l, 1162162800)"
    using midnight_slot by blast
  then have "fire_slot midnight_zones midnight_schedule 1162162920 None =
      Inr (Some (slot_row 1162162920 1161558000 60 r (str_at midnight_when ''tz'') l (JInt 1162162800)))"
    using fire_slot_recurs [OF midnight_recurs, of 1162162920 None]
    by (simp add: epoch_ok_def MAX_EPOCH_def midnight_when_def int_at_def get_or_def)
  with Suc show ?case by (simp add: slot_row_fields)
qed simp

end
