(* ===== verification/Schedule_Store.thy ===== *)
theory Schedule_Store
  imports Schedule_Clock Keyed_Contract
begin

text \<open>
  \<^verbatim>\<open>schedules.ScheduleStore\<close> and \<^verbatim>\<open>schedules.OccurrenceStore\<close> on the keyed store.  A change runs under the lock of its
  row's shard: it reads the row, lets the callback decide, and writes; \<open>transact\<close> is that sequence for a
  callback that may itself use other stores, as deleting a schedule and claiming an occurrence do.  Writes
  fail as the fault arguments say, so an operation can stop between the stores it changes.  SHA-256 and
  fresh generations are arguments.
\<close>

section \<open>Changing a row under its lock\<close>

fun store_error :: "kerror \<Rightarrow> serror" where
  "store_error StoreError = Unavailable"
| "store_error OSError = WriteRefused"
| "store_error (Raised e) = PyError e"

definition sread :: "kconfig \<Rightarrow> faults \<Rightarrow> string \<Rightarrow> kstore \<Rightarrow> kstore \<times> json option sc" where
  "sread cfg io key s = (case get cfg io key s of (s', Inl e) \<Rightarrow> (s', Inl (store_error e)) | (s', Inr v) \<Rightarrow> (s', Inr v))"

definition sput :: "kconfig \<Rightarrow> faults \<Rightarrow> string \<Rightarrow> json \<Rightarrow> kstore \<Rightarrow> kstore \<times> unit sc" where
  "sput cfg io key v s = (case put cfg io key v s of (s', Inl e) \<Rightarrow> (s', Inl (store_error e)) | (s', Inr _) \<Rightarrow> (s', Inr ()))"

definition transact ::
  "kconfig \<Rightarrow> faults \<Rightarrow> string \<Rightarrow> ('c \<Rightarrow> json option \<Rightarrow> 'c \<times> upd sc) \<Rightarrow> 'c \<Rightarrow> kstore \<Rightarrow> kstore \<times> 'c \<times> upd sc" where
  "transact cfg io key fn c s =
     (case get cfg io key s of
        (s1, Inl e) \<Rightarrow> (s1, c, Inl (store_error e))
      | (s1, Inr old) \<Rightarrow>
          (case fn c old of
             (c', Inl e) \<Rightarrow> (s1, c', Inl e)
           | (c', Inr u) \<Rightarrow>
               (case update cfg io key (\<lambda>_. Inr u) s1 of
                  (s2, Inl e) \<Rightarrow> (s2, c', Inl (store_error e))
                | (s2, Inr w) \<Rightarrow> (s2, c', Inr w))))"

definition change_row :: "kconfig \<Rightarrow> faults \<Rightarrow> string \<Rightarrow> (json option \<Rightarrow> upd sc) \<Rightarrow> kstore \<Rightarrow> kstore \<times> upd sc" where
  \<comment> \<open>a callback without other effects\<close>
  "change_row cfg io key fn s = (case transact cfg io key (\<lambda>_ old. ((), fn old)) () s of (s', _, r) \<Rightarrow> (s', r))"

definition written :: "upd sc \<Rightarrow> json sc" where
  \<comment> \<open>what the callers get back\<close>
  "written r = rbind r (\<lambda>u. case u of Put v \<Rightarrow> Inr v | _ \<Rightarrow> Inr JNull)"

section \<open>Schedules\<close>

record sched_store =
  sdefs :: kstore          \<comment> \<open>\<^verbatim>\<open>schedules.json\<close>\<close>
  sprogress :: kstore      \<comment> \<open>\<^verbatim>\<open>schedule-progress.json\<close>\<close>
  sretired :: kstore       \<comment> \<open>\<^verbatim>\<open>schedule-retired.json\<close>\<close>
  soccs :: kstore          \<comment> \<open>\<^verbatim>\<open>schedule-occurrences.json\<close>\<close>

record sfaults =
  io_defs :: faults
  io_progress :: faults
  io_retired :: faults
  io_occs :: faults

definition defs_cfg :: "zones \<Rightarrow> kconfig" where
  "defs_cfg zones = owned_cfg (validate_schedule zones)"

definition progress_cfg :: kconfig where
  "progress_cfg = owned_cfg validate_progress"

definition retired_cfg :: kconfig where
  "retired_cfg = owned_cfg validate_retired"

definition get_schedule :: "zones \<Rightarrow> sfaults \<Rightarrow> json \<Rightarrow> sched_store \<Rightarrow> sched_store \<times> json option sc" where
  "get_schedule zones f sid st =
     (case str_where identifier_ok sid of
        Inl e \<Rightarrow> (st, Inl e)
      | Inr k \<Rightarrow> (case sread (defs_cfg zones) (io_defs f) k (sdefs st) of (s, r) \<Rightarrow> (st\<lparr>sdefs := s\<rparr>, r)))"

definition list_schedules :: "zones \<Rightarrow> sfaults \<Rightarrow> sched_store \<Rightarrow> sched_store \<times> json list sc" where
  "list_schedules zones f st =
     (case snapshot (defs_cfg zones) (io_defs f) (sdefs st) of
        (s, Inl e) \<Rightarrow> (st\<lparr>sdefs := s\<rparr>, Inl (store_error e))
      | (s, Inr rows) \<Rightarrow> (st\<lparr>sdefs := s\<rparr>, Inr (sort_key (\<lambda>v. str_at (obj_or_empty v) ''id'') (map snd rows))))"

definition floor_of :: "json option \<Rightarrow> int" where
  \<comment> \<open>\<^verbatim>\<open>(row or {}).get("revision", 0)\<close>\<close>
  "floor_of row = (case row of None \<Rightarrow> 0 | Some v \<Rightarrow> int_at (obj_or_empty v) ''revision'')"

definition new_schedule :: "zones \<Rightarrow> string \<Rightarrow> obj \<Rightarrow> json \<Rightarrow> json \<Rightarrow> obj \<Rightarrow> string \<Rightarrow> int \<Rightarrow> json sc" where
  "new_schedule zones sid normalized actor now preview fresh least =
     (let row = JObj (normalized @ [(''id'', JStr sid), (''generation'', JStr fresh), (''rev'', JInt (least + 1)),
            (''created_by'', actor), (''created_at'', now), (''preview'', JObj preview)])
      in rbind (validate_schedule zones sid row) (\<lambda>_. Inr row))"

definition create_mutate ::
  "zones \<Rightarrow> faults \<Rightarrow> string \<Rightarrow> (int \<Rightarrow> json sc) \<Rightarrow> kstore \<Rightarrow> json option \<Rightarrow> kstore \<times> upd sc" where
  "create_mutate zones io sid build retired_rows old =
     (if old \<noteq> None then (retired_rows, Inl Conflict)
      else case sread retired_cfg io sid retired_rows of
             (s, Inl e) \<Rightarrow> (s, Inl e)
           | (s, Inr least) \<Rightarrow> (s, rbind (build (floor_of least)) (\<lambda>row. Inr (Put row))))"

definition create_schedule ::
  "zones \<Rightarrow> sfaults \<Rightarrow> json \<Rightarrow> json \<Rightarrow> json \<Rightarrow> json \<Rightarrow> json \<Rightarrow> string \<Rightarrow> sched_store \<Rightarrow> sched_store \<times> json sc" where
  "create_schedule zones f sid definition actor now preview fresh st =
     (case rbind (str_where identifier_ok sid) (\<lambda>k.
             rbind (normalize_definition zones definition) (\<lambda>d.
             rbind (normalize_snapshot preview) (\<lambda>p. Inr (k, d, p)))) of
        Inl e \<Rightarrow> (st, Inl e)
      | Inr (k, d, p) \<Rightarrow>
          (case transact (defs_cfg zones) (io_defs f) k
                  (create_mutate zones (io_retired f) k (\<lambda>least. new_schedule zones k d actor now p fresh least))
                  (sretired st) (sdefs st) of
             (s, ret, r) \<Rightarrow> (st\<lparr>sdefs := s, sretired := ret\<rparr>, written r)))"

definition edit_mutate :: "zones \<Rightarrow> string \<Rightarrow> json \<Rightarrow> (obj \<Rightarrow> obj sc) \<Rightarrow> json option \<Rightarrow> upd sc" where
  "edit_mutate zones sid expected change old =
     rbind (compare_rev old expected) (\<lambda>row.
     rbind (change row) (\<lambda>changed.
     let result = JObj (dset ''rev'' (JInt (rev_of changed + 1)) changed) in
     rbind (validate_schedule zones sid result) (\<lambda>_. Inr (Put result))))"

definition edit_schedule ::
  "zones \<Rightarrow> sfaults \<Rightarrow> json \<Rightarrow> json \<Rightarrow> (obj \<Rightarrow> obj sc) \<Rightarrow> sched_store \<Rightarrow> sched_store \<times> json sc" where
  \<comment> \<open>\<^verbatim>\<open>_edit\<close>\<close>
  "edit_schedule zones f sid expected change st =
     (case str_where identifier_ok sid of
        Inl e \<Rightarrow> (st, Inl e)
      | Inr k \<Rightarrow> (case change_row (defs_cfg zones) (io_defs f) k (edit_mutate zones k expected change) (sdefs st) of
                   (s, r) \<Rightarrow> (st\<lparr>sdefs := s\<rparr>, written r)))"

definition install_definition :: "obj \<Rightarrow> json \<Rightarrow> obj \<Rightarrow> obj sc" where
  \<comment> \<open>the common end of \<^verbatim>\<open>put\<close> and \<^verbatim>\<open>patch\<close>: replace the definition, and the preview when the target changed\<close>
  "install_definition normalized preview row =
     (let moved = \<not> py_eq (jget normalized ''target'') (jget row ''target'');
          kept = foldl (\<lambda>d k. ddel k d) row DEFINITION_KEYS;
          installed = merge_rows kept normalized
      in if moved \<and> preview = JNull then Inl Invalid
         else if moved then rbind (normalize_snapshot preview) (\<lambda>p. Inr (dset ''preview'' (JObj p) installed))
         else Inr installed)"

definition put_schedule ::
  "zones \<Rightarrow> sfaults \<Rightarrow> json \<Rightarrow> json \<Rightarrow> json \<Rightarrow> json \<Rightarrow> sched_store \<Rightarrow> sched_store \<times> json sc" where
  "put_schedule zones f sid definition expected preview st =
     (case normalize_definition zones definition of
        Inl e \<Rightarrow> (st, Inl e)
      | Inr d \<Rightarrow> edit_schedule zones f sid expected (install_definition d preview) st)"

definition patch_change :: "zones \<Rightarrow> obj \<Rightarrow> json \<Rightarrow> obj \<Rightarrow> obj sc" where
  "patch_change zones patch preview row =
     (let d = merge_rows (pick DEFINITION_KEYS row) patch;
          d' = (if get_or d ''after'' (JBool False) = JNull then ddel ''after'' d else d)
      in rbind (normalize_definition zones (JObj d')) (\<lambda>normalized. install_definition normalized preview row))"

definition patch_schedule ::
  "zones \<Rightarrow> sfaults \<Rightarrow> json \<Rightarrow> json \<Rightarrow> json \<Rightarrow> json \<Rightarrow> sched_store \<Rightarrow> sched_store \<times> json sc" where
  "patch_schedule zones f sid patch expected preview st =
     (case object_of DEFINITION_KEYS [] patch of
        Inl e \<Rightarrow> (st, Inl e)
      | Inr p \<Rightarrow> edit_schedule zones f sid expected (patch_change zones p preview) st)"

definition reaffirm_schedule :: "zones \<Rightarrow> sfaults \<Rightarrow> json \<Rightarrow> json \<Rightarrow> json \<Rightarrow> sched_store \<Rightarrow> sched_store \<times> json sc" where
  "reaffirm_schedule zones f sid actor expected st =
     (case str_where actor_ok actor of
        Inl e \<Rightarrow> (st, Inl e)
      | Inr a \<Rightarrow> edit_schedule zones f sid expected (\<lambda>row. Inr (dset ''created_by'' (JStr a) row)) st)"

definition delete_mutate :: "faults \<Rightarrow> string \<Rightarrow> json \<Rightarrow> kstore \<Rightarrow> json option \<Rightarrow> kstore \<times> upd sc" where
  \<comment> \<open>the floor of revisions is persisted before the row goes\<close>
  "delete_mutate io sid expected retired_rows old =
     (case compare_rev old expected of
        Inl e \<Rightarrow> (retired_rows, Inl e)
      | Inr row \<Rightarrow>
          (case sread retired_cfg io sid retired_rows of
             (s, Inl e) \<Rightarrow> (s, Inl e)
           | (s, Inr prior) \<Rightarrow>
               (case sput retired_cfg io sid (JObj [(''revision'', JInt (max (rev_of row) (floor_of prior)))]) s of
                  (s', Inl e) \<Rightarrow> (s', Inl e)
                | (s', Inr _) \<Rightarrow> (s', Inr Delete))))"

definition delete_schedule :: "zones \<Rightarrow> sfaults \<Rightarrow> json \<Rightarrow> json \<Rightarrow> sched_store \<Rightarrow> sched_store \<times> bool sc" where
  "delete_schedule zones f sid expected st =
     (case str_where identifier_ok sid of
        Inl e \<Rightarrow> (st, Inl e)
      | Inr k \<Rightarrow>
          (case transact (defs_cfg zones) (io_defs f) k (delete_mutate (io_retired f) k expected) (sretired st) (sdefs st) of
             (s, ret, r) \<Rightarrow> (st\<lparr>sdefs := s, sretired := ret\<rparr>, rbind r (\<lambda>_. Inr True))))"

definition refers_to :: "string \<Rightarrow> json \<Rightarrow> bool" where
  "refers_to role v \<longleftrightarrow> jget (obj_at (obj_at (obj_or_empty v) ''target'') ''filters'') ''role'' = JStr role \<and> role \<noteq> ''__none''"

definition referring_schedules :: "zones \<Rightarrow> sfaults \<Rightarrow> string \<Rightarrow> sched_store \<Rightarrow> sched_store \<times> string list sc" where
  "referring_schedules zones f role st =
     (case list_schedules zones f st of
        (st', r) \<Rightarrow> (st', rbind r (\<lambda>rows. Inr (map (\<lambda>v. str_at (obj_or_empty v) ''id'') (filter (refers_to role) rows)))))"

definition schedule_progress :: "zones \<Rightarrow> sfaults \<Rightarrow> json \<Rightarrow> sched_store \<Rightarrow> sched_store \<times> json option sc" where
  "schedule_progress zones f sid st =
     (case get_schedule zones f sid st of
        (st1, Inl e) \<Rightarrow> (st1, Inl e)
      | (st1, Inr row) \<Rightarrow>
          (case sread progress_cfg (io_progress f) (case sid of JStr k \<Rightarrow> k | _ \<Rightarrow> []) (sprogress st1) of
             (s, r) \<Rightarrow> (st1\<lparr>sprogress := s\<rparr>, rbind r (\<lambda>p.
                Inr (case (row, p) of
                       (Some rv, Some pv) \<Rightarrow>
                         if jget (obj_or_empty pv) ''generation'' = jget (obj_or_empty rv) ''generation'' then Some pv else None
                     | _ \<Rightarrow> None)))))"

end
