(* ===== verification/Schedule_Occurrences.thy ===== *)
theory Schedule_Occurrences
  imports Schedule_Store
begin

text \<open>
  \<^verbatim>\<open>schedules.OccurrenceStore\<close>: one row per claimed maintenance window, filed under a digest of the schedule's
  generation and the window's start.  A row freezes the schedule and the targets it was claimed with; its
  state moves along \<^verbatim>\<open>OCCURRENCE_TRANSITIONS\<close>.
\<close>

definition transitions :: "string \<Rightarrow> string list" where
  \<comment> \<open>\<^verbatim>\<open>OCCURRENCE_TRANSITIONS\<close>\<close>
  "transitions s =
     (if s = ''pending'' then [''running'', ''missed'', ''cancelled'', ''stalled'', ''failed'']
      else if s = ''running'' then [''interrupted'', ''completed'', ''cancelled'', ''stalled'', ''failed'']
      else if s = ''interrupted'' then [''running'', ''missed'', ''cancelled'', ''stalled'', ''failed'']
      else [])"

definition occurrence_states :: "string list" where
  "occurrence_states = [''pending'', ''running'', ''interrupted'', ''completed'', ''missed'', ''cancelled'', ''stalled'', ''failed'']"

type_synonym digest = "string \<Rightarrow> string"      \<comment> \<open>the hexadecimal SHA-256 of an ASCII text\<close>

definition occurrence_id :: "digest \<Rightarrow> obj \<Rightarrow> json \<Rightarrow> string sc" where
  "occurrence_id sha schedule scheduled_at =
     rbind (str_where hex32_ok (jget schedule ''generation'')) (\<lambda>generation.
     rbind (integer_of scheduled_at 0 MAX_EPOCH) (\<lambda>t.
       Inr (take 32 (sha (generation @ '':'' @ dec_nat (nat t))))))"

definition slot_keys :: "string list" where
  "slot_keys = [''scheduled_at'', ''window_end'', ''status'', ''resolution'', ''tz'', ''local_time'', ''next_at'']"

definition validate_slot :: "json \<Rightarrow> obj sc" where
  "validate_slot v =
     rbind (object_of slot_keys slot_keys v) (\<lambda>d.
     rbind (integer_of (jget d ''scheduled_at'') 0 MAX_EPOCH) (\<lambda>t.
     rbind (integer_of (jget d ''window_end'') (t + 1) (t + MAX_WINDOW_SECONDS)) (\<lambda>_.
     rbind (require (jget d ''status'' \<in> JStr ` {''future'', ''due'', ''missed''} \<and>
              jget d ''resolution'' \<in> JStr ` {''normal'', ''gap'', ''fold''})) (\<lambda>_.
     rbind (text_of 128 False (jget d ''tz'')) (\<lambda>_.
     rbind (text_of 64 False (jget d ''local_time'')) (\<lambda>_.
     rbind (if jget d ''next_at'' = JNull then Inr () else rbind (integer_of (jget d ''next_at'') (t + 1) MAX_EPOCH) (\<lambda>_. Inr ())) (\<lambda>_.
       Inr d)))))))"

definition id_set :: "obj \<Rightarrow> string \<Rightarrow> string set" where
  \<comment> \<open>\<^verbatim>\<open>set(row[key]["device_ids"])\<close> of a valid snapshot\<close>
  "id_set row key = (case as_list (jget (obj_at row key) ''device_ids'') of
       Some xs \<Rightarrow> {s. JStr s \<in> set xs} | None \<Rightarrow> {})"

definition normal_wave :: "json \<Rightarrow> unit sc" where
  \<comment> \<open>\<^verbatim>\<open>normalize_wave(wave) != wave\<close> is refused\<close>
  "normal_wave v = rbind (normalize_wave v) (\<lambda>w. require (py_eq (JObj w) v))"

definition validate_annotations :: "json \<Rightarrow> unit sc" where
  "validate_annotations v =
     rbind (object_of [''all_targets_quarantined'', ''wave''] [] v) (\<lambda>d.
     rbind (case dget d ''all_targets_quarantined'' of
              None \<Rightarrow> Inr () | Some n \<Rightarrow> rbind (integer_of n 1 (int MAX_TARGETS)) (\<lambda>_. Inr ())) (\<lambda>_.
     case dget d ''wave'' of None \<Rightarrow> Inr () | Some w \<Rightarrow> normal_wave w))"

definition occurrence_keys :: "string list" where
  "occurrence_keys = [''id'', ''schedule_id'', ''schedule_generation'', ''schedule_rev'', ''schedule'', ''actor'', ''slot'',
     ''scheduled_at'', ''window_end'', ''state'', ''preview'', ''created_at'', ''updated_at'']"

definition validate_bound :: "obj \<Rightarrow> unit sc" where
  \<comment> \<open>an occurrence that is not missed has its targets\<close>
  "validate_bound row =
     rbind (require (has_key row ''target_snapshot'' \<and> has_key row ''delta'')) (\<lambda>_.
     rbind (normalize_snapshot (jget row ''target_snapshot'')) (\<lambda>_.
     rbind (object_of [''added'', ''removed''] [''added'', ''removed''] (jget row ''delta'')) (\<lambda>delta.
     rbind (integer_of (jget delta ''added'') 0 (int MAX_TARGETS)) (\<lambda>added.
     rbind (require (added = int (card (id_set row ''target_snapshot'' - id_set row ''preview'')))) (\<lambda>_.
     rbind (integer_of (jget delta ''removed'') 0 (int MAX_TARGETS)) (\<lambda>removed.
       require (removed = int (card (id_set row ''preview'' - id_set row ''target_snapshot'')))))))))"

definition validate_occurrence :: "zones \<Rightarrow> digest \<Rightarrow> string \<Rightarrow> json \<Rightarrow> unit sc" where
  "validate_occurrence zones sha key v =
     rbind (object_of (occurrence_keys @ [''target_snapshot'', ''delta'', ''annotations'']) occurrence_keys v) (\<lambda>row.
     rbind (require (hex32_ok key)) (\<lambda>_.
     rbind (str_where identifier_ok (jget row ''schedule_id'')) (\<lambda>sid.
     rbind (validate_schedule zones sid (jget row ''schedule'')) (\<lambda>_.
     let schedule = obj_at row ''schedule'' in
     rbind (require (jget row ''id'' = JStr key)) (\<lambda>_.
     rbind (occurrence_id sha schedule (jget row ''scheduled_at'')) (\<lambda>expected.
     rbind (require (expected = key \<and> py_eq (jget row ''schedule_generation'') (jget schedule ''generation'') \<and>
              as_int (jget row ''schedule_rev'') \<noteq> None \<and> py_eq (jget row ''schedule_rev'') (jget schedule ''rev'') \<and> jget row ''actor'' = JStr (''schedule:'' @ sid))) (\<lambda>_.
     rbind (validate_slot (jget row ''slot'')) (\<lambda>slot.
     rbind (integer_of (jget row ''scheduled_at'') 0 MAX_EPOCH) (\<lambda>t.
     rbind (integer_of (jget row ''window_end'') 0 MAX_EPOCH) (\<lambda>wend.
     rbind (require (jget slot ''scheduled_at'' = JInt t \<and> jget slot ''window_end'' = JInt wend)) (\<lambda>_.
     rbind (str_where (\<lambda>s. s \<in> set occurrence_states) (jget row ''state'')) (\<lambda>state.
     rbind (normalize_snapshot (jget row ''preview'')) (\<lambda>_.
     rbind (integer_of (jget row ''created_at'') 0 MAX_EPOCH) (\<lambda>created.
     rbind (integer_of (jget row ''updated_at'') created MAX_EPOCH) (\<lambda>_.
     rbind (case dget row ''annotations'' of None \<Rightarrow> Inr () | Some a \<Rightarrow> validate_annotations a) (\<lambda>_.
     if state = ''missed''
     then require (\<not> has_key row ''target_snapshot'' \<and> \<not> has_key row ''delta'' \<and> wend \<le> created \<and>
            jget slot ''status'' = JStr ''missed'')
     else validate_bound row))))))))))))))))"

definition occs_cfg :: "zones \<Rightarrow> digest \<Rightarrow> kconfig" where
  "occs_cfg zones sha = owned_cfg (validate_occurrence zones sha)"

section \<open>Operations\<close>

definition get_occurrence :: "zones \<Rightarrow> digest \<Rightarrow> faults \<Rightarrow> json \<Rightarrow> kstore \<Rightarrow> kstore \<times> json option sc" where
  "get_occurrence zones sha io identifier s =
     (case str_where hex32_ok identifier of
        Inl e \<Rightarrow> (s, Inl e)
      | Inr k \<Rightarrow> sread (occs_cfg zones sha) io k s)"

definition list_occurrences :: "zones \<Rightarrow> digest \<Rightarrow> faults \<Rightarrow> string option \<Rightarrow> kstore \<Rightarrow> kstore \<times> obj list sc" where
  \<comment> \<open>in order of the window and the identifier\<close>
  "list_occurrences zones sha io sid s =
     (if (case sid of None \<Rightarrow> False | Some k \<Rightarrow> \<not> identifier_ok k) then (s, Inl Invalid)
      else case snapshot (occs_cfg zones sha) io s of
             (s', Inl e) \<Rightarrow> (s', Inl (store_error e))
           | (s', Inr rows) \<Rightarrow>
               (s', Inr (sort_key (\<lambda>row. (int_at row ''scheduled_at'', str_at row ''id''))
                  (filter (\<lambda>row. sid = None \<or> sid = Some (str_at row ''schedule_id'')) (map (obj_or_empty \<circ> snd) rows)))))"

definition bound_targets :: "obj \<Rightarrow> json \<Rightarrow> obj \<Rightarrow> obj sc" where
  \<comment> \<open>the target snapshot and delta a claim adds to its row\<close>
  "bound_targets schedule target_snapshot preview =
     rbind (normalize_snapshot target_snapshot) (\<lambda>snap.
     let fired = (if jget (obj_at schedule ''target'') ''bind'' = JStr ''early''
                  then dset ''device_ids'' (jget preview ''device_ids'') snap else snap);
         row = [(''preview'', JObj preview), (''target_snapshot'', JObj fired)]
     in Inr [(''target_snapshot'', JObj fired),
             (''delta'', JObj [(''added'', JInt (int (card (id_set row ''target_snapshot'' - id_set row ''preview'')))),
                               (''removed'', JInt (int (card (id_set row ''preview'' - id_set row ''target_snapshot''))))])])"

definition new_occurrence :: "zones \<Rightarrow> digest \<Rightarrow> string \<Rightarrow> obj \<Rightarrow> obj \<Rightarrow> json \<Rightarrow> int \<Rightarrow> json sc" where
  "new_occurrence zones sha key schedule slot target_snapshot now =
     rbind (normalize_snapshot (jget schedule ''preview'')) (\<lambda>preview.
     let missed = int_at slot ''window_end'' \<le> now;
         frozen = dset ''status'' (JStr (if missed then ''missed'' else if now < int_at slot ''scheduled_at'' then ''future'' else ''due'')) slot;
         sid = str_at schedule ''id'';
         base = [(''id'', JStr key), (''schedule_id'', JStr sid), (''schedule_generation'', jget schedule ''generation''),
           (''schedule_rev'', jget schedule ''rev''), (''schedule'', JObj schedule), (''actor'', JStr (''schedule:'' @ sid)),
           (''slot'', JObj frozen), (''scheduled_at'', jget slot ''scheduled_at''), (''window_end'', jget slot ''window_end''),
           (''state'', JStr (if missed then ''missed'' else ''pending'')), (''preview'', JObj preview),
           (''created_at'', JInt now), (''updated_at'', JInt now)] in
     rbind (require (\<not> (missed \<and> target_snapshot \<noteq> JNull))) (\<lambda>_.
     rbind (if missed then Inr [] else bound_targets schedule target_snapshot preview) (\<lambda>bound.
     rbind (validate_occurrence zones sha key (JObj (base @ bound))) (\<lambda>_. Inr (JObj (base @ bound))))))"

definition create_occurrence ::
  "zones \<Rightarrow> digest \<Rightarrow> faults \<Rightarrow> obj \<Rightarrow> json \<Rightarrow> json \<Rightarrow> json \<Rightarrow> kstore \<Rightarrow> kstore \<times> json sc" where
  "create_occurrence zones sha io schedule slot target_snapshot now s =
     (case rbind (if has_key schedule ''id'' then validate_schedule zones (str_at schedule ''id'') (JObj schedule)
                  else Inl (PyError KeyError)) (\<lambda>_.
             rbind (validate_slot slot) (\<lambda>d.
             rbind (integer_of now 0 MAX_EPOCH) (\<lambda>t.
             rbind (occurrence_id sha schedule (jget d ''scheduled_at'')) (\<lambda>key. Inr (d, t, key))))) of
        Inl e \<Rightarrow> (s, Inl e)
      | Inr (d, t, key) \<Rightarrow>
          (case change_row (occs_cfg zones sha) io key (\<lambda>old.
                  case old of
                    Some v \<Rightarrow> Inr (Put v)
                  | None \<Rightarrow> rbind (new_occurrence zones sha key schedule d target_snapshot t) (\<lambda>row. Inr (Put row))) s of
             (s', r) \<Rightarrow> (s', written r)))"

definition checked_put :: "zones \<Rightarrow> digest \<Rightarrow> string \<Rightarrow> obj \<Rightarrow> upd sc" where
  "checked_put zones sha key row = rbind (validate_occurrence zones sha key (JObj row)) (\<lambda>_. Inr (Put (JObj row)))"

definition touched :: "int \<Rightarrow> obj \<Rightarrow> obj" where
  \<comment> \<open>\<^verbatim>\<open>updated_at=max(now, old["updated_at"])\<close>\<close>
  "touched now row = dset ''updated_at'' (JInt (max now (int_at row ''updated_at''))) row"

definition transition_mutate ::
  "zones \<Rightarrow> digest \<Rightarrow> string \<Rightarrow> json \<Rightarrow> int \<Rightarrow> string option \<Rightarrow> json option \<Rightarrow> upd sc" where
  "transition_mutate zones sha key state now expected old =
     (case old of
        None \<Rightarrow> Inl NotFound
      | Some v \<Rightarrow>
          let row = obj_or_empty v; prior = str_at row ''state'' in
          if (case expected of None \<Rightarrow> False | Some e \<Rightarrow> prior \<noteq> e) then Inl Conflict
          else if state = JStr prior then Inr (Put v)
          else if state = JStr ''missed'' then Inl Conflict
          else if state \<notin> JStr ` set (transitions prior) then Inl Conflict
          else checked_put zones sha key (touched now (dset ''state'' state row)))"

definition occurrence_change ::
  "zones \<Rightarrow> digest \<Rightarrow> faults \<Rightarrow> json \<Rightarrow> json \<Rightarrow> (string \<Rightarrow> int \<Rightarrow> json option \<Rightarrow> upd sc) \<Rightarrow> kstore \<Rightarrow> kstore \<times> json sc" where
  \<comment> \<open>the checks of the identifier and the clock, and the change under the lock\<close>
  "occurrence_change zones sha io identifier now mutate_row s =
     (case rbind (str_where hex32_ok identifier) (\<lambda>key. rbind (integer_of now 0 MAX_EPOCH) (\<lambda>t. Inr (key, t))) of
        Inl e \<Rightarrow> (s, Inl e)
      | Inr (key, t) \<Rightarrow> (case change_row (occs_cfg zones sha) io key (mutate_row key t) s of (s', r) \<Rightarrow> (s', written r)))"

definition transition_occurrence ::
  "zones \<Rightarrow> digest \<Rightarrow> faults \<Rightarrow> json \<Rightarrow> json \<Rightarrow> json \<Rightarrow> string option \<Rightarrow> kstore \<Rightarrow> kstore \<times> json sc" where
  "transition_occurrence zones sha io identifier state now expected =
     occurrence_change zones sha io identifier now (\<lambda>key t. transition_mutate zones sha key state t expected)"

definition quarantine_mutate :: "zones \<Rightarrow> digest \<Rightarrow> string \<Rightarrow> int \<Rightarrow> int \<Rightarrow> json option \<Rightarrow> upd sc" where
  "quarantine_mutate zones sha key count now old =
     (case old of
        None \<Rightarrow> Inl NotFound
      | Some v \<Rightarrow>
          let row = obj_or_empty v; annotations = obj_at row ''annotations'';
              existing = jget annotations ''all_targets_quarantined'' in
          if str_at row ''state'' = ''missed'' then Inl Conflict
          else if existing \<noteq> JNull \<and> existing \<noteq> JInt count then Inl Conflict
          else if existing = JInt count then Inr (Put v)
          else checked_put zones sha key
                 (touched now (dset ''annotations'' (JObj (dset ''all_targets_quarantined'' (JInt count) annotations)) row)))"

definition annotate_quarantined ::
  "zones \<Rightarrow> digest \<Rightarrow> faults \<Rightarrow> json \<Rightarrow> json \<Rightarrow> json \<Rightarrow> kstore \<Rightarrow> kstore \<times> json sc" where
  "annotate_quarantined zones sha io identifier count now s =
     (case integer_of count 1 (int MAX_TARGETS) of
        Inl e \<Rightarrow> (s, Inl e)
      | Inr n \<Rightarrow> occurrence_change zones sha io identifier now (\<lambda>key t. quarantine_mutate zones sha key n t) s)"

definition wave_mutate :: "zones \<Rightarrow> digest \<Rightarrow> string \<Rightarrow> obj \<Rightarrow> int \<Rightarrow> json option \<Rightarrow> upd sc" where
  "wave_mutate zones sha key wave now old =
     (case old of
        None \<Rightarrow> Inl NotFound
      | Some v \<Rightarrow>
          let row = obj_or_empty v; annotations = obj_at row ''annotations''; existing = jget annotations ''wave'' in
          if str_at row ''state'' = ''missed'' then Inl Conflict
          else if existing \<noteq> JNull \<and> py_eq (JObj (wave_counts (obj_or_empty existing))) (JObj (wave_counts wave)) then Inr (Put v)
          else if existing \<noteq> JNull \<and> jget (obj_or_empty existing) ''gate'' = JStr ''open'' \<and> jget wave ''gate'' \<noteq> JStr ''open''
          then Inl Conflict
          else checked_put zones sha key
                 (touched now (dset ''annotations'' (JObj (dset ''wave'' (JObj wave) annotations)) row)))"

definition annotate_wave :: "zones \<Rightarrow> digest \<Rightarrow> faults \<Rightarrow> json \<Rightarrow> json \<Rightarrow> json \<Rightarrow> kstore \<Rightarrow> kstore \<times> json sc" where
  "annotate_wave zones sha io identifier wave now s =
     (case rbind (str_where hex32_ok identifier) (\<lambda>_. normalize_wave wave) of
        Inl e \<Rightarrow> (s, Inl e)
      | Inr w \<Rightarrow> occurrence_change zones sha io identifier now (\<lambda>key t. wave_mutate zones sha key w t) s)"

fun recover_rows :: "zones \<Rightarrow> digest \<Rightarrow> (string \<Rightarrow> faults) \<Rightarrow> json \<Rightarrow> obj list \<Rightarrow> kstore \<Rightarrow> kstore \<times> string list sc" where
  \<comment> \<open>a conflict, which includes a row that has gone, is passed over\<close>
  "recover_rows zones sha io now [] s = (s, Inr [])"
| "recover_rows zones sha io now (row # rest) s =
     (if jget row ''state'' \<noteq> JStr ''running'' then recover_rows zones sha io now rest s
      else case transition_occurrence zones sha (io (str_at row ''id'')) (jget row ''id'') (JStr ''interrupted'') now (Some ''running'') s of
             (s', Inl e) \<Rightarrow>
               if e = Conflict \<or> e = NotFound then recover_rows zones sha io now rest s' else (s', Inl e)
           | (s', Inr _) \<Rightarrow>
               (case recover_rows zones sha io now rest s' of
                  (s'', r) \<Rightarrow> (s'', rbind r (\<lambda>ids. Inr (str_at row ''id'' # ids)))))"

definition recover_interrupted :: "zones \<Rightarrow> digest \<Rightarrow> faults \<Rightarrow> (string \<Rightarrow> faults) \<Rightarrow> json \<Rightarrow> kstore \<Rightarrow> kstore \<times> string list sc" where
  "recover_interrupted zones sha io io' now s =
     (case list_occurrences zones sha io None s of
        (s', Inl e) \<Rightarrow> (s', Inl e)
      | (s', Inr rows) \<Rightarrow> recover_rows zones sha io' now rows s')"

definition latest_slot :: "zones \<Rightarrow> digest \<Rightarrow> faults \<Rightarrow> obj \<Rightarrow> kstore \<Rightarrow> kstore \<times> int option sc" where
  "latest_slot zones sha io schedule s =
     (case list_occurrences zones sha io (Some (str_at schedule ''id'')) s of
        (s', r) \<Rightarrow> (s', rbind r (\<lambda>rows.
          let slots = map (\<lambda>row. int_at row ''scheduled_at'')
                (filter (\<lambda>row. jget row ''schedule_generation'' = jget schedule ''generation'') rows)
          in Inr (case slots of [] \<Rightarrow> None | t # rest \<Rightarrow> Some (foldl max t rest)))))"

section \<open>Claims and pages\<close>

type_synonym claim_state = "kstore \<times> kstore \<times> json option"     \<comment> \<open>occurrences, progress, the claimed row\<close>

definition claimable :: "json option \<Rightarrow> int \<Rightarrow> string \<Rightarrow> json \<Rightarrow> json \<Rightarrow> (obj \<times> obj \<times> int) sc" where
  \<comment> \<open>the checks of a claim: the schedule, the slot and the clock\<close>
  "claimable old expected generation slot now =
     rbind (compare_rev old (JInt expected)) (\<lambda>row.
     if jget row ''generation'' \<noteq> JStr generation then Inl Conflict
     else if jget row ''state'' \<noteq> JStr ''pending'' then Inl Conflict
     else rbind (integer_of now 0 MAX_EPOCH) (\<lambda>t.
          rbind (validate_slot slot) (\<lambda>d.
          if t < int_at d ''scheduled_at'' then Inl Conflict else Inr (row, d, t))))"

definition same_slot :: "obj \<Rightarrow> obj \<Rightarrow> bool" where
  "same_slot a b \<longleftrightarrow>
     list_all (\<lambda>k. py_eq (jget a k) (jget b k)) [''scheduled_at'', ''window_end'', ''resolution'', ''tz'', ''local_time'', ''next_at'']"

definition slot_current :: "zones \<Rightarrow> obj \<Rightarrow> obj \<Rightarrow> unit sc" where
  "slot_current zones row slot =
     rbind (fire_slot zones row (int_at slot ''scheduled_at'') None) (\<lambda>current.
       if (case current of None \<Rightarrow> True | Some c \<Rightarrow> \<not> same_slot c slot) then Inl Conflict else Inr ())"

definition claim_target ::
  "zones \<Rightarrow> digest \<Rightarrow> faults \<Rightarrow> obj \<Rightarrow> obj \<Rightarrow> json \<Rightarrow> json \<Rightarrow> kstore \<Rightarrow> kstore \<times> json sc" where
  \<comment> \<open>the occurrence that exists, or a new one for a slot the schedule still has\<close>
  "claim_target zones sha io row slot target_snapshot now occs =
     (case occurrence_id sha row (jget slot ''scheduled_at'') of
        Inl e \<Rightarrow> (occs, Inl e)
      | Inr key \<Rightarrow>
          (case get_occurrence zones sha io (JStr key) occs of
             (s, Inl e) \<Rightarrow> (s, Inl e)
           | (s, Inr (Some v)) \<Rightarrow> (s, Inr v)
           | (s, Inr None) \<Rightarrow>
               (case slot_current zones row slot of
                  Inl e \<Rightarrow> (s, Inl e)
                | Inr _ \<Rightarrow> create_occurrence zones sha io row (JObj slot) target_snapshot now s)))"

definition advance_progress :: "faults \<Rightarrow> string \<Rightarrow> obj \<Rightarrow> obj \<Rightarrow> json \<Rightarrow> kstore \<Rightarrow> kstore \<times> unit sc" where
  "advance_progress io sid row slot occurrence s =
     (case sread progress_cfg io sid s of
        (s1, Inl e) \<Rightarrow> (s1, Inl e)
      | (s1, Inr prior) \<Rightarrow>
          let candidate = JObj [(''generation'', jget row ''generation''), (''last_slot'', jget slot ''scheduled_at''),
                                (''active_occurrence_id'', jget (obj_or_empty occurrence) ''id'')];
              behind = (case prior of None \<Rightarrow> True
                | Some p \<Rightarrow> jget (obj_or_empty p) ''generation'' \<noteq> jget row ''generation'' \<or>
                    int_at (obj_or_empty p) ''last_slot'' \<le> int_at slot ''scheduled_at'')
          in if \<not> behind then (s1, Inr ())
             else (case validate_progress sid candidate of Inl e \<Rightarrow> (s1, Inl e) | Inr _ \<Rightarrow> sput progress_cfg io sid candidate s1))"

definition claim_mutate ::
  "zones \<Rightarrow> digest \<Rightarrow> sfaults \<Rightarrow> string \<Rightarrow> int \<Rightarrow> string \<Rightarrow> json \<Rightarrow> json \<Rightarrow> json \<Rightarrow> claim_state \<Rightarrow> json option \<Rightarrow> claim_state \<times> upd sc" where
  "claim_mutate zones sha f sid expected generation slot target_snapshot now c old =
     (case c of (occs, progress, _) \<Rightarrow>
       (case claimable old expected generation slot now of
          Inl e \<Rightarrow> ((occs, progress, None), Inl e)
        | Inr (row, d, t) \<Rightarrow>
            (case claim_target zones sha (io_occs f) row d target_snapshot now occs of
               (occs', Inl e) \<Rightarrow> ((occs', progress, None), Inl e)
             | (occs', Inr occurrence) \<Rightarrow>
                 (case advance_progress (io_progress f) sid row d occurrence progress of
                    (progress', Inl e) \<Rightarrow> ((occs', progress', None), Inl e)
                  | (progress', Inr _) \<Rightarrow> ((occs', progress', Some occurrence), Inr Keep)))))"

definition claim_occurrence ::
  "zones \<Rightarrow> digest \<Rightarrow> sfaults \<Rightarrow> json \<Rightarrow> json \<Rightarrow> json \<Rightarrow> json \<Rightarrow> json \<Rightarrow> json \<Rightarrow> sched_store \<Rightarrow> sched_store \<times> json sc" where
  "claim_occurrence zones sha f sid expected generation slot target_snapshot now st =
     (case rbind (str_where identifier_ok sid) (\<lambda>k.
             rbind (integer_of expected 1 MAX_INTEGER) (\<lambda>n.
             rbind (str_where hex32_ok generation) (\<lambda>g. Inr (k, n, g)))) of
        Inl e \<Rightarrow> (st, Inl e)
      | Inr (k, n, g) \<Rightarrow>
          (case transact (defs_cfg zones) (io_defs f) k (claim_mutate zones sha f k n g slot target_snapshot now)
                  (soccs st, sprogress st, None) (sdefs st) of
             (s, (occs, progress, claimed), r) \<Rightarrow>
               (st\<lparr>sdefs := s, soccs := occs, sprogress := progress\<rparr>,
                rbind r (\<lambda>_. case claimed of Some v \<Rightarrow> Inr v | None \<Rightarrow> Inl (PyError KeyError)))))"

definition MAX_OCCURRENCE_PAGE :: int where
  "MAX_OCCURRENCE_PAGE = 100"

definition page :: "'a list \<Rightarrow> int \<Rightarrow> int \<Rightarrow> 'a list" where
  \<comment> \<open>\<^verbatim>\<open>rows[offset:offset + limit]\<close>\<close>
  "page rows offset limit = take (nat limit) (drop (nat offset) rows)"

record 'a paged =
  paged_rows :: "'a list"
  paged_total :: int
  paged_offset :: int
  paged_truncated :: bool

definition page_of :: "'a list \<Rightarrow> int \<Rightarrow> int \<Rightarrow> 'a paged" where
  "page_of rows offset limit =
     \<lparr>paged_rows = page rows offset limit, paged_total = int (length rows), paged_offset = offset,
      paged_truncated = (0 < offset \<or> offset + limit < int (length rows))\<rparr>"

definition list_schedule_occurrences ::
  "zones \<Rightarrow> digest \<Rightarrow> faults \<Rightarrow> json \<Rightarrow> json \<Rightarrow> json \<Rightarrow> kstore \<Rightarrow> kstore \<times> obj paged sc" where
  "list_schedule_occurrences zones sha io sid limit offset s =
     (case rbind (str_where identifier_ok sid) (\<lambda>k.
             rbind (integer_of limit 1 MAX_OCCURRENCE_PAGE) (\<lambda>l.
             rbind (integer_of offset 0 MAX_INTEGER) (\<lambda>n. Inr (k, l, n)))) of
        Inl e \<Rightarrow> (s, Inl e)
      | Inr (k, l, n) \<Rightarrow>
          (case list_occurrences zones sha io (Some k) s of
             (s', r) \<Rightarrow> (s', rbind r (\<lambda>rows. Inr (page_of rows n l)))))"

end
