(* ===== verification/Schedule_Receipts.thy ===== *)
theory Schedule_Receipts
  imports Schedule_Occurrences
begin

text \<open>
  \<^verbatim>\<open>schedules.ReceiptStore\<close>: per occurrence and device, what became of the work.  A receipt is changed only by a
  caller that presents its revision; a recovery attempt keeps the attempts before it in full; a terminal
  receipt is final.  The receipts of an occurrence are a keyed store of their own.
\<close>

definition terminal_states :: "string list" where
  "terminal_states = [''ok'', ''skipped'', ''error'']"

definition receipt_states :: "string list" where
  "receipt_states = terminal_states @ [''intent'', ''submitted'', ''running'']"

definition MAX_RECEIPT_ATTEMPTS :: nat where
  "MAX_RECEIPT_ATTEMPTS = 16"

definition MAX_RECEIPT_PAGE :: int where
  "MAX_RECEIPT_PAGE = 1000"

definition receipt_required :: "string list" where
  "receipt_required = [''occurrence_id'', ''device_id'', ''rev'', ''attempt'', ''attempt_started_at'', ''predecessors'',
     ''status'', ''reason'', ''created_at'', ''updated_at'', ''completed_at'', ''notes'']"

definition receipt_optional :: "string list" where
  "receipt_optional = [''job_id'', ''record_id'', ''predecessor_record_id'', ''manual_generation'', ''fleet_registered_at'',
     ''fleet_registration_id'', ''before_image_ids'', ''after_image_ids'', ''removed_image_ids'', ''wave'']"

definition terminal :: "obj \<Rightarrow> bool" where
  "terminal row \<longleftrightarrow> jget row ''status'' \<in> JStr ` set terminal_states"

definition field_ok :: "obj \<Rightarrow> string \<Rightarrow> (json \<Rightarrow> 'a sc) \<Rightarrow> unit sc" where
  \<comment> \<open>an optional field passes its check\<close>
  "field_ok row k check = (case dget row k of None \<Rightarrow> Inr () | Some v \<Rightarrow> rbind (check v) (\<lambda>_. Inr ()))"

definition image_set :: "obj \<Rightarrow> string \<Rightarrow> string set" where
  "image_set row k = (case as_list (jget row k) of Some xs \<Rightarrow> {s. JStr s \<in> set xs} | None \<Rightarrow> {})"

definition validate_times :: "obj \<Rightarrow> unit sc" where
  "validate_times row =
     rbind (integer_of (jget row ''created_at'') 0 MAX_EPOCH) (\<lambda>created.
     rbind (integer_of (jget row ''updated_at'') created MAX_EPOCH) (\<lambda>updated.
     rbind (integer_of (jget row ''attempt_started_at'') created updated) (\<lambda>started.
     if terminal row then rbind (integer_of (jget row ''completed_at'') started updated) (\<lambda>_. Inr ())
     else require (jget row ''completed_at'' = JNull))))"

definition validate_optional :: "obj \<Rightarrow> unit sc" where
  "validate_optional row =
     rbind (field_ok row ''job_id'' (str_where identifier_ok)) (\<lambda>_.
     rbind (field_ok row ''record_id'' (str_where identifier_ok)) (\<lambda>_.
     rbind (field_ok row ''predecessor_record_id'' (str_where identifier_ok)) (\<lambda>_.
     rbind (field_ok row ''manual_generation'' (\<lambda>v. integer_of v 0 MAX_INTEGER)) (\<lambda>_.
     rbind (field_ok row ''fleet_registered_at'' (\<lambda>v. if v = JNull then Inr 0 else integer_of v 0 MAX_EPOCH)) (\<lambda>_.
     rbind (field_ok row ''fleet_registration_id'' (str_where hex32_ok)) (\<lambda>_.
     rbind (field_ok row ''before_image_ids'' (ids_of image_id_ok 10 True)) (\<lambda>_.
     rbind (field_ok row ''after_image_ids'' (ids_of image_id_ok 10 True)) (\<lambda>_.
     rbind (field_ok row ''removed_image_ids'' (ids_of image_id_ok 10 True)) (\<lambda>_.
       field_ok row ''wave'' normal_wave)))))))))"

definition validate_attempt :: "string \<Rightarrow> json \<Rightarrow> obj sc" where
  \<comment> \<open>what \<^verbatim>\<open>_validate_receipt\<close> checks of one attempt, its lineage apart\<close>
  "validate_attempt key v =
     rbind (object_of (receipt_required @ receipt_optional) receipt_required v) (\<lambda>row.
     rbind (require (target_id_ok key \<and> jget row ''device_id'' = JStr key)) (\<lambda>_.
     rbind (str_where hex32_ok (jget row ''occurrence_id'')) (\<lambda>_.
     rbind (integer_of (jget row ''rev'') 1 MAX_INTEGER) (\<lambda>_.
     rbind (integer_of (jget row ''attempt'') 1 (int MAX_RECEIPT_ATTEMPTS)) (\<lambda>_.
     rbind (str_where (\<lambda>s. s \<in> set receipt_states) (jget row ''status'')) (\<lambda>_.
     rbind (str_where reason_ok (jget row ''reason'')) (\<lambda>_.
     rbind (validate_times row) (\<lambda>_.
     rbind (case as_list (jget row ''notes'') of
              None \<Rightarrow> Inl Invalid
            | Some notes \<Rightarrow> if 16 < length notes then Inl Invalid else rbind (rmap (str_where reason_ok) notes) (\<lambda>_. Inr ())) (\<lambda>_.
     rbind (validate_optional row) (\<lambda>_.
     rbind (require (has_key row ''after_image_ids'' \<or> has_key row ''removed_image_ids'' \<longrightarrow> terminal row)) (\<lambda>_.
     rbind (require (has_key row ''before_image_ids'' \<and> has_key row ''after_image_ids'' \<and> has_key row ''removed_image_ids'' \<longrightarrow>
              image_set row ''removed_image_ids'' = image_set row ''before_image_ids'' - image_set row ''after_image_ids'')) (\<lambda>_.
     case as_list (jget row ''predecessors'') of
       None \<Rightarrow> Inl Invalid
     | Some ps \<Rightarrow> if MAX_RECEIPT_ATTEMPTS \<le> length ps then Inl Invalid else Inr row))))))))))))"

fun validate_lineage :: "string \<Rightarrow> obj \<Rightarrow> int \<Rightarrow> int \<Rightarrow> json list \<Rightarrow> unit sc" where
  \<comment> \<open>the loop over the predecessors, with the next index and the last revision\<close>
  "validate_lineage key row index last_rev [] = Inr ()"
| "validate_lineage key row index last_rev (v # rest) =
     rbind (object_of (filter (\<lambda>k. k \<noteq> ''predecessors'') (receipt_required @ receipt_optional))
              (filter (\<lambda>k. k \<noteq> ''predecessors'') receipt_required) v) (\<lambda>prior.
     rbind (validate_attempt key (JObj (dset ''predecessors'' (JList []) prior))) (\<lambda>_.
     rbind (require (jget prior ''attempt'' = JInt index \<and> py_eq (jget prior ''occurrence_id'') (jget row ''occurrence_id'') \<and>
              py_eq (jget prior ''created_at'') (jget row ''created_at'') \<and> last_rev < rev_of prior \<and> rev_of prior < rev_of row \<and>
              \<not> terminal prior \<and> int_at prior ''updated_at'' \<le> int_at row ''attempt_started_at'')) (\<lambda>_.
       validate_lineage key row (index + 1) (rev_of prior) rest)))"

definition lineage :: "obj \<Rightarrow> json list" where
  "lineage row = (case as_list (jget row ''predecessors'') of Some ps \<Rightarrow> ps | None \<Rightarrow> [])"

definition validate_receipt :: "string \<Rightarrow> json \<Rightarrow> unit sc" where
  "validate_receipt key v =
     rbind (validate_attempt key v) (\<lambda>row.
     rbind (require (jget row ''attempt'' = JInt (int (length (lineage row)) + 1))) (\<lambda>_.
       validate_lineage key row 1 0 (lineage row)))"

section \<open>The store\<close>

record receipt_store =
  roccs :: kstore                    \<comment> \<open>the occurrences, read only\<close>
  rrows :: "string \<Rightarrow> kstore"         \<comment> \<open>\<^verbatim>\<open>schedule-receipts/<occurrence>.json\<close>\<close>

definition receipts_cfg :: "string \<Rightarrow> kconfig" where
  "receipts_cfg identifier = owned_cfg (\<lambda>key v.
     rbind (validate_receipt key v) (\<lambda>_. require (jget (obj_or_empty v) ''occurrence_id'' = JStr identifier)))"

definition admit_receipt ::
  "zones \<Rightarrow> digest \<Rightarrow> faults \<Rightarrow> json \<Rightarrow> json \<Rightarrow> receipt_store \<Rightarrow> receipt_store \<times> (string \<times> string) sc" where
  \<comment> \<open>\<^verbatim>\<open>_admit\<close>: a known device of an occurrence that has targets\<close>
  "admit_receipt zones sha io identifier device st =
     (case str_where target_id_ok device of
        Inl e \<Rightarrow> (st, Inl e)
      | Inr dev \<Rightarrow>
          (case get_occurrence zones sha io identifier (roccs st) of
             (s, r) \<Rightarrow> (st\<lparr>roccs := s\<rparr>,
               rbind r (\<lambda>found.
                 case found of
                   None \<Rightarrow> Inl NotFound
                 | Some v \<Rightarrow>
                     let occ = obj_or_empty v in
                     if jget occ ''state'' = JStr ''missed'' \<or> dev \<notin> id_set occ ''target_snapshot'' then Inl Conflict
                     else rbind (str_where hex32_ok identifier) (\<lambda>k. Inr (k, dev))))))"

definition on_receipts :: "faults \<Rightarrow> string \<Rightarrow> string \<Rightarrow> (json option \<Rightarrow> upd sc) \<Rightarrow> receipt_store \<Rightarrow> receipt_store \<times> json sc" where
  "on_receipts io identifier dev fn st =
     (case change_row (receipts_cfg identifier) io dev fn (rrows st identifier) of
        (s, r) \<Rightarrow> (st\<lparr>rrows := (rrows st)(identifier := s)\<rparr>, written r))"

record receipt_call =
  rc_status :: json
  rc_reason :: json
  rc_now :: json
  rc_notes :: json                   \<comment> \<open>\<open>JNull\<close> where an argument is left out\<close>
  rc_expected_status :: json
  rc_expected_rev :: json
  rc_given :: "string \<Rightarrow> json"
  rc_registered :: "json option"     \<comment> \<open>\<^verbatim>\<open>fleet_registered_at\<close>, \<open>None\<close> for \<^verbatim>\<open>_UNSET\<close>\<close>

definition given_fields :: "string list" where
  "given_fields = [''job_id'', ''record_id'', ''predecessor_record_id'', ''manual_generation'', ''before_image_ids'',
     ''after_image_ids'', ''removed_image_ids'', ''fleet_registration_id'']"

definition supplied_of :: "receipt_call \<Rightarrow> obj sc" where
  "supplied_of c =
     rbind (if rc_given c ''wave'' = JNull then Inr JNull
            else rbind (normalize_wave (rc_given c ''wave'')) (\<lambda>w. Inr (JObj w))) (\<lambda>wave.
       Inr (filter (\<lambda>kv. snd kv \<noteq> JNull) (map (\<lambda>k. (k, rc_given c k)) given_fields @ [(''wave'', wave)]) @
            (case rc_registered c of None \<Rightarrow> [] | Some v \<Rightarrow> [(''fleet_registered_at'', v)])))"

definition owned_fields :: "string list" where
  "owned_fields = [''job_id'', ''record_id'', ''predecessor_record_id'', ''manual_generation'', ''fleet_registered_at'',
     ''fleet_registration_id'', ''before_image_ids'']"

definition ownership_changed :: "obj \<Rightarrow> obj \<Rightarrow> bool" where
  "ownership_changed old supplied \<longleftrightarrow>
     list_ex (\<lambda>k. has_key old k \<and> has_key supplied k \<and> \<not> py_eq (jget old k) (jget supplied k)) owned_fields"

definition rank :: "string \<Rightarrow> int" where
  "rank s = (if s = ''intent'' then 0 else if s = ''submitted'' then 1 else 2)"

definition receipt_base :: "string \<Rightarrow> string \<Rightarrow> string \<Rightarrow> receipt_call \<Rightarrow> int \<Rightarrow> obj option \<Rightarrow> obj" where
  \<comment> \<open>\<^verbatim>\<open>dict(old or {}, occurrence_id=..., ...)\<close> in \<^verbatim>\<open>record\<close>\<close>
  "receipt_base identifier dev status c now old =
     (let stamp = (case old of Some row \<Rightarrow> max now (int_at row ''updated_at'') | None \<Rightarrow> now);
          was = (\<lambda>k fresh. case old of Some row \<Rightarrow> jget row k | None \<Rightarrow> fresh)
      in merge_rows (case old of Some row \<Rightarrow> row | None \<Rightarrow> [])
           [(''occurrence_id'', JStr identifier), (''device_id'', JStr dev), (''status'', JStr status),
            (''rev'', JInt (case old of Some row \<Rightarrow> rev_of row + 1 | None \<Rightarrow> 1)),
            (''attempt'', was ''attempt'' (JInt 1)), (''attempt_started_at'', was ''attempt_started_at'' (JInt now)),
            (''predecessors'', was ''predecessors'' (JList [])), (''reason'', rc_reason c),
            (''created_at'', was ''created_at'' (JInt now)), (''updated_at'', JInt stamp),
            (''completed_at'', if status \<in> set terminal_states then JInt stamp else JNull),
            (''notes'', if rc_notes c \<noteq> JNull then rc_notes c else was ''notes'' (JList []))])"

definition receipt_row :: "string \<Rightarrow> string \<Rightarrow> string \<Rightarrow> receipt_call \<Rightarrow> int \<Rightarrow> obj \<Rightarrow> obj option \<Rightarrow> obj" where
  \<comment> \<open>the row \<^verbatim>\<open>record\<close> builds\<close>
  "receipt_row identifier dev status c now supplied old = merge_rows (receipt_base identifier dev status c now old) supplied"

definition record_mutate ::
  "string \<Rightarrow> string \<Rightarrow> string \<Rightarrow> receipt_call \<Rightarrow> int \<Rightarrow> obj \<Rightarrow> json option \<Rightarrow> upd sc" where
  "record_mutate identifier dev status c now supplied old =
     (let row = map_option obj_or_empty old;
          build = (let r = JObj (receipt_row identifier dev status c now supplied row)
                   in rbind (validate_receipt dev r) (\<lambda>_. Inr (Put r)))
      in case (old, row) of
           (Some v, Some r) \<Rightarrow>
             if terminal r then Inr (Put v)
             else if status = ''intent'' \<and> rc_expected_rev c = JNull then Inr (Put v)
             else if rc_expected_rev c \<noteq> JInt (rev_of r) then Inl Conflict
             else if rc_expected_status c \<noteq> JNull \<and> jget r ''status'' \<noteq> rc_expected_status c then Inl Conflict
             else if ownership_changed r supplied then Inl Conflict
             else if status \<notin> set terminal_states \<and> rank status < rank (str_at r ''status'') then Inl Conflict
             else build
         | _ \<Rightarrow>
             if rc_expected_rev c \<noteq> JNull then Inl Conflict
             else if rc_expected_status c \<noteq> JNull then Inl Conflict
             else build)"

definition record_args :: "receipt_call \<Rightarrow> (int \<times> string \<times> obj) sc" where
  "record_args c =
     rbind (integer_of (rc_now c) 0 MAX_EPOCH) (\<lambda>now.
     rbind (str_where (\<lambda>s. s \<in> set receipt_states) (rc_status c)) (\<lambda>status.
     rbind (require (rc_notes c = JNull \<or> as_list (rc_notes c) \<noteq> None)) (\<lambda>_.
     rbind (if rc_expected_rev c = JNull then Inr 0 else integer_of (rc_expected_rev c) 1 MAX_INTEGER) (\<lambda>_.
     rbind (supplied_of c) (\<lambda>supplied. Inr (now, status, supplied))))))"

definition record_receipt ::
  "zones \<Rightarrow> digest \<Rightarrow> faults \<Rightarrow> faults \<Rightarrow> json \<Rightarrow> json \<Rightarrow> receipt_call \<Rightarrow> receipt_store \<Rightarrow> receipt_store \<times> json sc" where
  "record_receipt zones sha io io' identifier device c st =
     (case admit_receipt zones sha io identifier device st of
        (st', Inl e) \<Rightarrow> (st', Inl e)
      | (st', Inr (k, dev)) \<Rightarrow>
          (case record_args c of
             Inl e \<Rightarrow> (st', Inl e)
           | Inr (now, status, supplied) \<Rightarrow> on_receipts io' k dev (record_mutate k dev status c now supplied) st'))"

definition begin_call :: "json \<Rightarrow> json \<Rightarrow> json \<Rightarrow> json \<Rightarrow> receipt_call" where
  "begin_call now manual_generation before_image_ids predecessor_record_id =
     \<lparr>rc_status = JStr ''intent'', rc_reason = JStr ''pending'', rc_now = now, rc_notes = JNull, rc_expected_status = JNull,
      rc_expected_rev = JNull,
      rc_given = (\<lambda>k. if k = ''manual_generation'' then manual_generation else if k = ''before_image_ids'' then before_image_ids
         else if k = ''predecessor_record_id'' then predecessor_record_id else JNull),
      rc_registered = None\<rparr>"

definition begin_receipt ::
  "zones \<Rightarrow> digest \<Rightarrow> faults \<Rightarrow> faults \<Rightarrow> json \<Rightarrow> json \<Rightarrow> json \<Rightarrow> json \<Rightarrow> json \<Rightarrow> json \<Rightarrow> receipt_store \<Rightarrow> receipt_store \<times> json sc" where
  "begin_receipt zones sha io io' identifier device now manual_generation before_image_ids predecessor_record_id =
     record_receipt zones sha io io' identifier device (begin_call now manual_generation before_image_ids predecessor_record_id)"

definition successor_row :: "string \<Rightarrow> string \<Rightarrow> int \<Rightarrow> int \<Rightarrow> json \<Rightarrow> json \<Rightarrow> obj \<Rightarrow> obj" where
  "successor_row identifier dev now manual_generation predecessor before_image_ids old =
     (let stamp = max now (int_at old ''updated_at'');
          before = (if before_image_ids \<noteq> JNull then before_image_ids else jget old ''before_image_ids'')
      in [(''occurrence_id'', JStr identifier), (''device_id'', JStr dev), (''rev'', JInt (rev_of old + 1)),
          (''attempt'', JInt (int_at old ''attempt'' + 1)), (''attempt_started_at'', JInt stamp),
          (''created_at'', jget old ''created_at''), (''updated_at'', JInt stamp), (''status'', JStr ''intent''),
          (''reason'', JStr ''pending''), (''completed_at'', JNull), (''notes'', JList []),
          (''manual_generation'', JInt manual_generation),
          (''predecessors'', JList (lineage old @ [JObj (ddel ''predecessors'' old)]))] @
         (if predecessor = JNull then [] else [(''predecessor_record_id'', predecessor)]) @
         (case dget old ''fleet_registered_at'' of None \<Rightarrow> [] | Some v \<Rightarrow> [(''fleet_registered_at'', v)]) @
         (case dget old ''fleet_registration_id'' of None \<Rightarrow> [] | Some v \<Rightarrow> [(''fleet_registration_id'', v)]) @
         (if before = JNull then [] else [(''before_image_ids'', before)]))"

definition successor_mutate :: "string \<Rightarrow> string \<Rightarrow> int \<Rightarrow> int \<Rightarrow> int \<Rightarrow> json \<Rightarrow> json \<Rightarrow> json option \<Rightarrow> upd sc" where
  "successor_mutate identifier dev expected now manual_generation predecessor_record_id before_image_ids old =
     (case old of
        None \<Rightarrow> Inl Conflict
      | Some v \<Rightarrow>
          let row = obj_or_empty v;
              predecessor = (if predecessor_record_id \<noteq> JNull then predecessor_record_id else jget row ''record_id'');
              r = JObj (successor_row identifier dev now manual_generation predecessor before_image_ids row) in
          if rev_of row \<noteq> expected then Inl Conflict
          else if terminal row \<or> int MAX_RECEIPT_ATTEMPTS \<le> int_at row ''attempt'' then Inl Conflict
          else if jget row ''record_id'' \<noteq> JNull \<and> \<not> py_eq predecessor (jget row ''record_id'') then Inl Conflict
          else rbind (validate_receipt dev r) (\<lambda>_. Inr (Put r)))"

definition successor_attempt ::
  "zones \<Rightarrow> digest \<Rightarrow> faults \<Rightarrow> faults \<Rightarrow> json \<Rightarrow> json \<Rightarrow> json \<Rightarrow> json \<Rightarrow> json \<Rightarrow> json \<Rightarrow> json \<Rightarrow> receipt_store \<Rightarrow>
   receipt_store \<times> json sc" where
  "successor_attempt zones sha io io' identifier device expected now manual_generation predecessor_record_id before_image_ids st =
     (case admit_receipt zones sha io identifier device st of
        (st', Inl e) \<Rightarrow> (st', Inl e)
      | (st', Inr (k, dev)) \<Rightarrow>
          (case rbind (integer_of expected 1 MAX_INTEGER) (\<lambda>r.
                  rbind (integer_of now 0 MAX_EPOCH) (\<lambda>t.
                  rbind (integer_of manual_generation 0 MAX_INTEGER) (\<lambda>g. Inr (r, t, g)))) of
             Inl e \<Rightarrow> (st', Inl e)
           | Inr (r, t, g) \<Rightarrow> on_receipts io' k dev (successor_mutate k dev r t g predecessor_record_id before_image_ids) st'))"

section \<open>Reading\<close>

definition get_receipt :: "faults \<Rightarrow> json \<Rightarrow> json \<Rightarrow> receipt_store \<Rightarrow> receipt_store \<times> json option sc" where
  "get_receipt io identifier device st =
     (case rbind (str_where hex32_ok identifier) (\<lambda>k. rbind (str_where target_id_ok device) (\<lambda>d. Inr (k, d))) of
        Inl e \<Rightarrow> (st, Inl e)
      | Inr (k, d) \<Rightarrow>
          (case sread (receipts_cfg k) io d (rrows st k) of (s, r) \<Rightarrow> (st\<lparr>rrows := (rrows st)(k := s)\<rparr>, r)))"

definition receipt_rows :: "faults \<Rightarrow> string \<Rightarrow> receipt_store \<Rightarrow> receipt_store \<times> obj list sc" where
  \<comment> \<open>\<^verbatim>\<open>sorted(snapshot().values(), key=device_id)\<close>\<close>
  "receipt_rows io k st =
     (case snapshot (receipts_cfg k) io (rrows st k) of
        (s, Inl e) \<Rightarrow> (st\<lparr>rrows := (rrows st)(k := s)\<rparr>, Inl (store_error e))
      | (s, Inr rows) \<Rightarrow>
          (st\<lparr>rrows := (rrows st)(k := s)\<rparr>, Inr (sort_key (\<lambda>row. str_at row ''device_id'') (map (obj_or_empty \<circ> snd) rows))))"

definition list_receipts :: "faults \<Rightarrow> string \<Rightarrow> int \<Rightarrow> int \<Rightarrow> receipt_store \<Rightarrow> receipt_store \<times> obj paged sc" where
  "list_receipts io k limit offset st =
     (case rbind (integer_of (JInt limit) 1 MAX_RECEIPT_PAGE) (\<lambda>_. rbind (integer_of (JInt offset) 0 MAX_INTEGER) (\<lambda>_.
             str_where hex32_ok (JStr k))) of
        Inl e \<Rightarrow> (st, Inl e)
      | Inr _ \<Rightarrow> (case receipt_rows io k st of (st', r) \<Rightarrow> (st', rbind r (\<lambda>rows. Inr (page_of rows offset limit)))))"

definition completed_device_ids :: "faults \<Rightarrow> json \<Rightarrow> receipt_store \<Rightarrow> receipt_store \<times> string set sc" where
  "completed_device_ids io identifier st =
     (case str_where hex32_ok identifier of
        Inl e \<Rightarrow> (st, Inl e)
      | Inr k \<Rightarrow>
          (case snapshot (receipts_cfg k) io (rrows st k) of
             (s, r) \<Rightarrow> (st\<lparr>rrows := (rrows st)(k := s)\<rparr>,
                (case r of Inl e \<Rightarrow> Inl (store_error e)
                 | Inr rows \<Rightarrow> Inr (fst ` set (filter (\<lambda>kv. terminal (obj_or_empty (snd kv))) rows))))))"

definition stamped :: "string \<Rightarrow> obj \<Rightarrow> obj \<Rightarrow> obj" where
  \<comment> \<open>a receipt with what a reader needs of its occurrence\<close>
  "stamped sid occ receipt = merge_rows receipt
     [(''schedule_id'', JStr sid), (''scheduled_at'', jget occ ''scheduled_at''), (''window_end'', jget occ ''window_end''),
      (''schedule_rev'', jget occ ''schedule_rev''), (''occurrence_state'', jget occ ''state'')]"

fun collect_page ::
  "faults \<Rightarrow> string \<Rightarrow> int \<Rightarrow> int \<Rightarrow> obj list \<Rightarrow> int \<Rightarrow> obj list \<Rightarrow> receipt_store \<Rightarrow> receipt_store \<times> (int \<times> obj list) sc" where
  \<comment> \<open>the loop over the occurrences, with the running total and the rows selected so far\<close>
  "collect_page io sid limit offset [] n selected st = (st, Inr (n, selected))"
| "collect_page io sid limit offset (occ # rest) n selected st =
     (case list_receipts io (str_at occ ''id'') 1 0 st of
        (st1, Inl e) \<Rightarrow> (st1, Inl e)
      | (st1, Inr first) \<Rightarrow>
          let count = paged_total first; n' = n + count in
          if count = 0 \<or> offset + limit \<le> n \<or> n' \<le> offset
          then collect_page io sid limit offset rest n' selected st1
          else
            let local_offset = max 0 (offset - n);
                local_limit = min (limit - int (length selected)) (count - local_offset) in
            (case list_receipts io (str_at occ ''id'') local_limit local_offset st1 of
               (st2, Inl e) \<Rightarrow> (st2, Inl e)
             | (st2, Inr got) \<Rightarrow>
                 collect_page io sid limit offset rest n' (selected @ map (stamped sid occ) (paged_rows got)) st2))"

definition list_schedule_receipts ::
  "zones \<Rightarrow> digest \<Rightarrow> faults \<Rightarrow> json \<Rightarrow> json \<Rightarrow> json \<Rightarrow> receipt_store \<Rightarrow> receipt_store \<times> obj paged sc" where
  "list_schedule_receipts zones sha io sid limit offset st =
     (case rbind (str_where identifier_ok sid) (\<lambda>k.
             rbind (integer_of limit 1 MAX_RECEIPT_PAGE) (\<lambda>l.
             rbind (integer_of offset 0 MAX_INTEGER) (\<lambda>n. Inr (k, l, n)))) of
        Inl e \<Rightarrow> (st, Inl e)
      | Inr (k, l, n) \<Rightarrow>
          (case list_occurrences zones sha io (Some k) (roccs st) of
             (s, Inl e) \<Rightarrow> (st\<lparr>roccs := s\<rparr>, Inl e)
           | (s, Inr occs) \<Rightarrow>
               (case collect_page io k l n occs 0 [] (st\<lparr>roccs := s\<rparr>) of
                  (st', r) \<Rightarrow> (st', rbind r (\<lambda>(count, selected).
                     Inr \<lparr>paged_rows = selected, paged_total = count, paged_offset = n,
                          paged_truncated = (0 < n \<or> n + int (length selected) < count)\<rparr>)))))"

end
