(* ===== verification/Schedule_Canon.thy ===== *)
theory Schedule_Canon
  imports Schedule_Receipts
begin

text \<open>
  The validators of the schedule stores do not look at the order of keys, so that a row that was accepted
  when it was written is accepted when it is read back.  This makes the four kinds of rows clients of the
  keyed store's contract, which is interpreted for each of them at the end.
\<close>

section \<open>Values up to the order of keys\<close>

lemma insort_map_values:
  "map (map_prod id g) (insort_key fst x xs) = insort_key fst (map_prod id g x) (map (map_prod id g) xs)"
  by (induction xs) auto

lemma sort_map_values: "map (map_prod id g) (sort_key fst xs) = sort_key fst (map (map_prod id g) xs)"
proof (induction xs)
  case (Cons x xs)
  then show ?case by (simp only: sort_key_simps list.map insort_map_values)
qed simp

lemma pynorm_canon [simp]: "pynorm (canon v) = pynorm v"
proof (induction v)
  case (JObj kvs)
  have ih: "pynorm (canon w) = pynorm w" if "(k, w) \<in> set kvs" for k w
    using JObj [of "(k, w)" w] that by (simp add: snds.simps)
  have "map (map_prod id pynorm) (map (map_prod id canon) kvs) = map (map_prod id pynorm) kvs"
    using ih by auto
  then show ?case
    by (simp only: canon.simps pynorm.simps sort_map_values) (simp add: sort_key_id_if_sorted)
qed simp_all

lemma py_eq_canon [simp]: "py_eq (canon a) b = py_eq a b" "py_eq a (canon b) = py_eq a b"
  by (simp_all add: py_eq_def)


text \<open>Two objects with the same rows up to the order of keys, at every depth.\<close>

definition crel :: "obj \<Rightarrow> obj \<Rightarrow> bool" where
  "crel d d' \<longleftrightarrow> (\<forall>k. dget d' k = map_option canon (dget d k))"

named_theorems canon_simps \<open>validators on values up to the order of keys\<close>

lemma crel_canon [simp]: "crel d (canon_rows d)"
  by (simp add: crel_def dget_canon)

lemma crel_dget: "crel d d' \<Longrightarrow> dget d' k = map_option canon (dget d k)"
  by (simp add: crel_def)

lemma crel_jget: "crel d d' \<Longrightarrow> jget d' k = canon (jget d k)"
  by (cases "dget d k") (simp_all add: crel_def get_or_def)

lemma crel_get_or: "crel d d' \<Longrightarrow> canon v = v \<Longrightarrow> get_or d' k v = canon (get_or d k v)"
  by (cases "dget d k") (simp_all add: crel_def get_or_def)

lemma crel_keys: "crel d d' \<Longrightarrow> fst ` set d' = fst ` set d"
  unfolding crel_def dom_map_of_conv_image_fst [symmetric] by (auto simp: dom_def)

lemma crel_has_key: "crel d d' \<Longrightarrow> has_key d' k = has_key d k"
  by (simp add: has_key_def crel_keys)

lemma crel_pick: "crel d d' \<Longrightarrow> pick keys d' = map (map_prod id canon) (pick keys d)"
  by (induction keys) (auto simp: pick_def map_filter_simps crel_def split: option.splits)

lemma crel_dset: "crel d d' \<Longrightarrow> canon v = v \<Longrightarrow> crel (dset k v d) (dset k v d')"
  by (simp add: crel_def)

lemma crel_setdefault: "crel d d' \<Longrightarrow> canon v = v \<Longrightarrow> crel (setdefault k v d) (setdefault k v d')"
  by (simp add: setdefault_def crel_has_key crel_dset)

lemma obj_or_empty_crel: "crel (obj_or_empty v) (obj_or_empty (canon v))"
  by (simp add: obj_or_empty_canon)

lemma integer_of_canon [canon_simps]: "integer_of (canon v) = integer_of v"
  by (rule ext, rule ext, cases v) (simp_all add: integer_of_def)

lemma str_where_canon [canon_simps]: "str_where p (canon v) = str_where p v"
  by (simp add: str_where_def)

lemma canon_scalar_eq [canon_simps]:
  "canon v = JStr s \<longleftrightarrow> v = JStr s" "canon v = JInt n \<longleftrightarrow> v = JInt n" "canon v = JBool b \<longleftrightarrow> v = JBool b"
  by (cases v; simp)+

lemma as_bool_canon [canon_simps]: "as_bool (canon v) = as_bool v"
  by (cases v) simp_all

lemma as_int_canon [canon_simps]: "as_int (canon v) = as_int v"
  by (cases v) simp_all

lemma ratio_ok_canon [canon_simps]: "ratio_ok (canon v) = ratio_ok v"
  by (cases v) (simp_all add: ratio_ok_def)

lemma member_of_canon [canon_simps]: "member_of names (canon v) = member_of names v"
  by (cases v) (auto simp: member_of_def)

lemma rmap_str_canon: "rmap (str_where p) (map canon xs) = rmap (str_where p) xs"
  by (induction xs) (simp_all add: str_where_canon)

lemma ids_of_canon [canon_simps]: "ids_of p n b (canon v) = ids_of p n b v"
  by (cases v) (simp_all add: ids_of_def rmap_str_canon)

lemma object_of_crel: "crel d d' \<Longrightarrow> object_of keys required (JObj d') =
    (case object_of keys required (JObj d) of Inl e \<Rightarrow> Inl e | Inr _ \<Rightarrow> Inr d')"
  by (simp add: object_of_def crel_keys)

lemma object_rbind:
  assumes "crel d d'" "f d' = g d"
  shows "rbind (object_of keys required (JObj d')) f = rbind (object_of keys required (JObj d)) g"
  using assms(2) by (simp add: object_of_def crel_keys [OF assms(1)])

lemma object_of_not_obj: "as_obj v = None \<Longrightarrow> object_of keys required v = Inl Invalid"
  by (simp add: object_of_def)

lemma int_at_crel: "crel d d' \<Longrightarrow> int_at d' k = int_at d k"
  by (cases "jget d k") (simp_all add: int_at_def crel_jget)

lemma str_at_crel: "crel d d' \<Longrightarrow> str_at d' k = str_at d k"
  by (cases "jget d k") (simp_all add: str_at_def crel_jget)

text \<open>A normaliser that agrees on such objects agrees on a value and what the file gives back of it.\<close>

lemma canon_by_obj:
  assumes "\<And>d d'. crel d d' \<Longrightarrow> f (JObj d') = f (JObj d)" "\<And>w. as_obj w = None \<Longrightarrow> f w = Inl Invalid"
  shows "f (canon v) = f v"
proof (cases v)
  case (JObj d)
  with assms(1) [OF crel_canon] show ?thesis by (simp only: canon_obj)
next
  case (JList xs)
  then show ?thesis by (simp add: assms(2))
qed simp_all


section \<open>Snapshots, gates and definitions\<close>

lemma binding_ok_canon: "binding_ok (k, canon v) = binding_ok (k, v)"
  by (cases v) (simp_all add: binding_ok_def)

lemma list_all_canon_rows:
  assumes "\<And>k v. p (k, canon v) = p (k, v)"
  shows "list_all p (canon_rows d) = list_all p d"
  unfolding list_all_iff using assms by (fastforce simp: canon_rows_def)

lemma binding_fixed: "binding_ok (k, v) \<Longrightarrow> canon v = v"
  by (cases v) (simp_all add: binding_ok_def)

lemma bindings_fixed: "list_all binding_ok bs \<Longrightarrow> canon (jget bs k) = jget bs k"
  by (cases "dget bs k") (auto simp: get_or_def list_all_iff dest!: map_of_SomeD binding_fixed)

lemma fst_set_canon_rows: "fst ` set (canon_rows d) = fst ` set d"
  by (rule crel_keys [OF crel_canon])

lemma normalize_snapshot_crel:
  assumes "crel d d'"
  shows "normalize_snapshot (JObj d') = normalize_snapshot (JObj d)"
proof -
  let ?tail = "\<lambda>d ids base. case dget d ''registration_ids'' of
      None \<Rightarrow> Inr base
    | Some b \<Rightarrow> (case as_obj b of None \<Rightarrow> Inl Invalid
        | Some bs \<Rightarrow> if set (dkeys bs) \<noteq> set ids \<or> \<not> list_all binding_ok bs then Inl Invalid
                   else Inr (base @ [(''registration_ids'', JObj (map (\<lambda>k. (k, jget bs k)) ids))]))"
  have tail: "?tail d' ids base = (?tail d ids base :: obj sc)" for ids base
  proof (cases "dget d ''registration_ids''")
    case (Some b)
    show ?thesis
    proof (cases b)
      case (JObj bs)
      have "map (\<lambda>k. (k, jget (canon_rows bs) k)) ids = map (\<lambda>k. (k, jget bs k)) ids" if "list_all binding_ok bs"
        by (simp add: jget_canon bindings_fixed [OF that])
      moreover have "list_all binding_ok (canon_rows bs) = list_all binding_ok bs"
        by (rule list_all_canon_rows) (rule binding_ok_canon)
      ultimately show ?thesis
        using Some JObj crel_dget [OF assms, of "''registration_ids''"]
        by (simp add: canon_obj fst_set_canon_rows del: canon.simps)
    qed (use Some crel_dget [OF assms, of "''registration_ids''"] in simp_all)
  qed (use crel_dget [OF assms, of "''registration_ids''"] in simp)
  show ?thesis
    unfolding normalize_snapshot_def Let_def
    by (rule object_rbind [OF assms]) (simp only: crel_jget [OF assms] canon_simps tail)
qed

lemma normalize_snapshot_canon [canon_simps]: "normalize_snapshot (canon v) = normalize_snapshot v"
  by (rule canon_by_obj, rule normalize_snapshot_crel, assumption) (simp add: normalize_snapshot_def object_of_not_obj)

lemma gate_fixed:
  "(case member_of names g of Inl e \<Rightarrow> Inl (PyError e) | Inr b \<Rightarrow> require b) = Inr u \<Longrightarrow> canon g = g"
  by (cases g) (simp_all add: member_of_def)

lemma identifier_fixed:
  "(if v = JNull then Inr () else rbind (str_where p v) (\<lambda>_. Inr ())) = Inr u \<Longrightarrow> canon v = v"
  by (cases v) (simp_all add: str_where_def)

lemma normalize_wave_crel:
  assumes "crel d d'"
  shows "normalize_wave (JObj d') = normalize_wave (JObj d)"
  unfolding normalize_wave_def Let_def
  by (rule object_rbind [OF assms])
     (simp only: crel_jget [OF assms] canon_simps canon_JNull,
      intro rbind_cong refl, drule identifier_fixed, drule gate_fixed, simp)

lemma normalize_wave_canon [canon_simps]: "normalize_wave (canon v) = normalize_wave v"
  by (rule canon_by_obj, rule normalize_wave_crel, assumption) (simp add: normalize_wave_def object_of_not_obj)

text \<open>Normalised values are compared as Python compares dictionaries.\<close>

definition pn :: "obj \<Rightarrow> json" where
  "pn d = pynorm (JObj d)"

definition nrm :: "obj sc \<Rightarrow> json sc" where
  "nrm r = map_sum id pn r"

lemma pn_cong: "map (map_prod id pynorm) a = map (map_prod id pynorm) b \<Longrightarrow> pn a = pn b"
  by (simp add: pn_def)

lemma pn_canon_rows: "pn (canon_rows d) = pn d"
  unfolding pn_def by (simp only: canon_obj [symmetric] pynorm_canon)

lemma pn_canon_values: "pn (map (map_prod id canon) d) = pn d"
  by (rule pn_cong) (simp add: o_def map_prod_def split_beta)

lemma nrm_rbind: "nrm (rbind m f) = rbind m (\<lambda>x. nrm (f x))"
  by (cases m) (simp_all add: nrm_def)

lemma nrm_simps [simp]: "nrm (Inl e) = Inl e" "nrm (Inr d) = Inr (pn d)"
  by (simp_all add: nrm_def)

lemma nrm_rbind_cong:
  assumes "nrm m' = nrm m" "\<And>x x'. pn x' = pn x \<Longrightarrow> f x' = g x"
  shows "rbind m' f = rbind m g"
  using assms by (cases m; cases m') (simp_all add: nrm_def)

lemma object_canon_rbind:
  assumes "\<And>d. f (canon_rows d) = g d"
  shows "rbind (object_of keys required (canon v)) f = rbind (object_of keys required v) g"
proof (cases v)
  case (JObj d)
  then show ?thesis using object_rbind [OF crel_canon, of f d g] assms by (simp only: canon_obj)
qed (simp_all add: object_of_def)

lemma get_or_canon_rows: "canon v = v \<Longrightarrow> get_or (canon_rows d) k v = canon (get_or d k v)"
  by (rule crel_get_or [OF crel_canon])

lemma filter_ok_canon: "filter_ok (k, canon v) = filter_ok (k, v)"
  by (simp only: filter_ok_def fst_conv snd_conv as_str_canon)

lemma normalize_target_canon: "nrm (normalize_target (canon v)) = nrm (normalize_target v)"
proof -
  have f: "list_all filter_ok (canon_rows f) = list_all filter_ok f" for f
    by (rule list_all_canon_rows) (rule filter_ok_canon)
  have r: "pn [(''filters'', JObj (canon_rows f)), (''device_ids'', strings ids), (''bind'', canon b)] =
      pn [(''filters'', JObj f), (''device_ids'', strings ids), (''bind'', b)]" for f ids b
    by (rule pn_cong) (simp only: list.map map_prod_simp pynorm_canon canon_obj [symmetric])
  show ?thesis
    unfolding normalize_target_def nrm_rbind Let_def
    by (rule object_canon_rbind, subst get_or_canon_rows, simp, rule object_canon_rbind)
       (simp add: f r get_or_canon_rows canon_simps)
qed

lemma normalize_assign_canon: "nrm (normalize_assign (canon v)) = nrm (normalize_assign v)"
proof -
  have r: "pn [(''image_ids'', strings ids), (''mode'', canon m)] = pn [(''image_ids'', strings ids), (''mode'', m)]" for ids m
    by (rule pn_cong) (simp only: list.map map_prod_simp pynorm_canon)
  show ?thesis
    unfolding normalize_assign_def nrm_rbind Let_def
    by (rule object_canon_rbind) (simp add: r get_or_canon_rows canon_simps)
qed

lemma normalize_onboard_canon: "nrm (normalize_onboard (canon v)) = nrm (normalize_onboard v)"
proof -
  have r: "pn [(''telemetry'', canon a), (''telemetry_stream'', canon b), (''mode'', canon m), (''max_devices'', JInt n)] =
      pn [(''telemetry'', a), (''telemetry_stream'', b), (''mode'', m), (''max_devices'', JInt n)]" for a b m n
    by (rule pn_cong) (simp only: list.map map_prod_simp pynorm_canon)
  show ?thesis
    unfolding normalize_onboard_def nrm_rbind Let_def
    by (rule object_canon_rbind) (simp add: r get_or_canon_rows canon_simps)
qed

lemma sort_snoc: "f x \<notin> f ` set xs \<Longrightarrow> sort_key f (xs @ [x]) = insort_key f x (sort_key f xs)"
proof (induction xs)
  case (Cons a xs)
  then have "f a \<noteq> f x" by force
  with Cons insort_key_left_comm [of f a x "sort_key f xs"] show ?case by simp
qed simp

lemma pn_setdefault:
  assumes "canon v = v"
  shows "pn (setdefault k v (canon_rows d)) = pn (setdefault k v d)"
proof (cases "has_key d k")
  case False
  have h: "has_key (canon_rows d) k = has_key d k" by (rule crel_has_key [OF crel_canon])
  have new: "setdefault k v d = d @ [(k, v)]" "setdefault k v (canon_rows d) = canon_rows d @ [(k, v)]"
    using False h by (simp_all add: setdefault_def has_key_def dset_new)
  have "fst (k, pynorm v) \<notin> fst ` set (map (map_prod id pynorm) e)" if "\<not> has_key e k" for e
    using that by (force simp: has_key_def)
  then have "pn (e @ [(k, v)]) = JObj (insort_key fst (k, pynorm v) (sort_key fst (map (map_prod id pynorm) e)))"
    if "\<not> has_key e k" for e
    using that sort_snoc [of fst "(k, pynorm v)" "map (map_prod id pynorm) e"] by (simp add: pn_def)
  moreover have "sort_key fst (map (map_prod id pynorm) (canon_rows d)) = sort_key fst (map (map_prod id pynorm) d)"
    using pn_canon_rows [of d] by (simp add: pn_def)
  ultimately show ?thesis using False h new by simp
qed (simp add: setdefault_def crel_has_key [OF crel_canon] pn_canon_rows)

lemma normalize_when_canon: "nrm (normalize_when zones (canon v)) = nrm (normalize_when zones v)"
proof -
  have o: "rbind (object_of keys required (JObj (setdefault ''tz'' (JStr ''UTC'') (canon_rows d)))) (\<lambda>_. f) =
      rbind (object_of keys required (JObj (setdefault ''tz'' (JStr ''UTC'') d))) (\<lambda>_. (f :: json sc))" for d keys required f
    by (rule object_rbind) (simp_all add: crel_setdefault)
  have j: "jget (setdefault ''tz'' (JStr ''UTC'') (canon_rows d)) k = canon (jget (setdefault ''tz'' (JStr ''UTC'') d) k)" for d k
    by (rule crel_jget) (simp add: crel_setdefault)
  have r: "pn (setdefault ''tz'' (JStr ''UTC'') (canon_rows d)) = pn (setdefault ''tz'' (JStr ''UTC'') d)" for d
    by (rule pn_setdefault) simp
  show ?thesis
    unfolding normalize_when_def nrm_rbind Let_def
    by (rule object_canon_rbind) (simp only: if_distrib [of nrm] nrm_rbind nrm_simps j o r canon_simps)
qed

lemma normalize_after_canon: "nrm (normalize_after (canon v)) = nrm (normalize_after v)"
  unfolding normalize_after_def nrm_rbind
  by (rule object_canon_rbind) (simp only: jget_canon nrm_simps pn_canon_rows canon_simps)

lemma normalize_definition_crel:
  assumes "crel d d'"
  shows "nrm (normalize_definition zones (JObj d')) = nrm (normalize_definition zones (JObj d))"
proof -
  let ?res = "\<lambda>kind target payload w state. [(''kind'', JStr kind), (''target'', JObj target), (''payload'', JObj payload),
                   (''when'', JObj w), (''state'', JStr state)]"
  have res: "pn (?res kind t' p' w' state @ e') = pn (?res kind t p w state @ e)"
    if "pn t' = pn t" "pn p' = pn p" "pn w' = pn w" "map (map_prod id pynorm) e' = map (map_prod id pynorm) e"
    for kind state t t' p p' w w' e e'
    using that by (intro pn_cong) (simp add: pn_def del: pynorm.simps)
  have tail: "nrm (case dget d' ''after'' of None \<Rightarrow> Inr (?res kind t' p' w' state)
        | Some a \<Rightarrow> rbind (normalize_after a) (\<lambda>after. Inr (?res kind t' p' w' state @ [(''after'', JObj after)]))) =
      nrm (case dget d ''after'' of None \<Rightarrow> Inr (?res kind t p w state)
        | Some a \<Rightarrow> rbind (normalize_after a) (\<lambda>after. Inr (?res kind t p w state @ [(''after'', JObj after)])))"
    if eq: "pn t' = pn t" "pn p' = pn p" "pn w' = pn w" for kind state t t' p p' w w'
  proof (cases "dget d ''after''")
    case None
    with crel_dget [OF assms, of "''after''"] res [OF eq, of "[]" "[]" kind state] show ?thesis by simp
  next
    case (Some a)
    have "rbind (normalize_after (canon a)) (\<lambda>x. nrm (Inr (?res kind t' p' w' state @ [(''after'', JObj x)]))) =
        rbind (normalize_after a) (\<lambda>x. nrm (Inr (?res kind t p w state @ [(''after'', JObj x)])))"
    proof (rule nrm_rbind_cong [OF normalize_after_canon])
      fix x x' assume "pn x' = pn x"
      with res [OF eq, of "[(''after'', JObj x')]" "[(''after'', JObj x)]" kind state]
      show "nrm (Inr (?res kind t' p' w' state @ [(''after'', JObj x')])) = nrm (Inr (?res kind t p w state @ [(''after'', JObj x)]))"
        by (simp add: pn_def del: pynorm.simps)
    qed
    with Some crel_dget [OF assms, of "''after''"] show ?thesis by (simp add: nrm_rbind)
  qed
  have pay: "nrm ((if kind = ''assign'' then normalize_assign else normalize_onboard) (canon v)) =
      nrm ((if kind = ''assign'' then normalize_assign else normalize_onboard) v)" for kind v
    by (simp add: normalize_assign_canon normalize_onboard_canon)
  show ?thesis
    unfolding normalize_definition_def nrm_rbind Let_def
    by (rule object_rbind [OF assms])
       (simp only: crel_jget [OF assms] crel_get_or [OF assms canon.simps(5)] canon_simps,
        rule rbind_cong [OF refl], rule rbind_cong [OF refl],
        intro nrm_rbind_cong normalize_target_canon pay normalize_when_canon tail)
qed

section \<open>Rows\<close>

lemma crel_values: "crel d (map (map_prod id canon) d)"
  by (simp add: crel_def dget_map_prod)

lemma py_eq_pn: "py_eq (JObj a) (JObj b) \<longleftrightarrow> pn a = pn b"
  by (simp add: py_eq_def pn_def)

lemma validate_schedule_canon [canon_simps]: "validate_schedule zones key (canon v) = validate_schedule zones key v"
proof -
  have p: "pick keys (canon_rows row) = map (map_prod id canon) (pick keys row)" for keys row
    by (rule crel_pick [OF crel_canon])
  have n: "rbind (normalize_definition zones (JObj (map (map_prod id canon) d))) (\<lambda>n. rbind (require (pn n = pn (map (map_prod id canon) d))) f) =
      rbind (normalize_definition zones (JObj d)) (\<lambda>n. rbind (require (pn n = pn d)) f)" for d and f :: "unit \<Rightarrow> unit sc"
    by (rule nrm_rbind_cong [OF normalize_definition_crel [OF crel_values]]) (simp add: pn_canon_values)
  show ?thesis
    unfolding validate_schedule_def
    by (rule object_canon_rbind) (simp only: jget_canon canon_simps p py_eq_pn n obj_or_empty_canon)
qed

lemma validate_progress_canon: "validate_progress key (canon v) = validate_progress key v"
  unfolding validate_progress_def Let_def
  by (rule rbind_cong [OF refl], rule object_canon_rbind) (simp only: jget_canon canon_simps)

lemma validate_retired_canon: "validate_retired key (canon v) = validate_retired key v"
  unfolding validate_retired_def
  by (rule rbind_cong [OF refl], rule object_canon_rbind) (simp only: jget_canon canon_simps)

lemma owned_cfg_ok:
  assumes "\<And>k v. f k (canon v) = f k v"
  shows "config_ok (owned_cfg f)"
  by (simp add: config_ok_def owned_cfg_def SHARD_COUNT_def validate_row_def validator_def assms)

lemma owned_row_ok: "row_ok (owned_cfg f) (k, v) \<longleftrightarrow> f k v = Inr () \<and> v \<noteq> JNull"
proof -
  have "validate_row (owned_cfg f) (k, v) = Inr () \<longleftrightarrow> f k v = Inr ()"
    by (cases "f k v"; simp add: validate_row_def owned_cfg_def validator_def)
       (auto split: serror.splits py_error.splits)
  then show ?thesis by (simp add: row_ok_def)
qed

lemma rbind_map_sum: "rbind (map_sum id g m) f = rbind m (\<lambda>x. f (g x))"
  by (cases m) simp_all

lemma map_sum_rbind: "map_sum id g (rbind m f) = rbind m (\<lambda>x. map_sum id g (f x))"
  by (cases m) simp_all

lemma canon_in_strs [canon_simps]: "canon v \<in> JStr ` S \<longleftrightarrow> v \<in> JStr ` S"
  by (cases v) auto

lemma validate_slot_canon: "validate_slot (canon v) = map_sum id canon_rows (validate_slot v)"
  unfolding validate_slot_def map_sum_rbind
  by (rule object_canon_rbind) (simp only: jget_canon canon_simps canon_JNull map_sum.simps id_apply)

lemma occurrence_id_canon: "occurrence_id sha (canon_rows schedule) (canon t) = occurrence_id sha schedule t"
  by (simp only: occurrence_id_def jget_canon canon_simps)

lemma str_in_canon: "JStr s \<in> canon ` set xs \<longleftrightarrow> JStr s \<in> set xs"
  by (force simp: image_iff canon_scalar_eq dest: sym)

lemma id_set_canon: "id_set (canon_rows row) key = id_set row key"
proof -
  have "as_list (jget (obj_or_empty (canon v)) k) = map_option (map canon) (as_list (jget (obj_or_empty v) k))" for v k
    by (simp add: obj_or_empty_canon jget_canon)
  then show ?thesis
    by (cases "as_list (jget (obj_at row key) ''device_ids'')") (simp_all add: id_set_def jget_canon str_in_canon)
qed

lemma normal_wave_canon [canon_simps]: "normal_wave (canon v) = normal_wave v"
  by (simp add: normal_wave_def canon_simps)

lemma validate_annotations_canon [canon_simps]: "validate_annotations (canon v) = validate_annotations v"
  unfolding validate_annotations_def
proof (rule object_canon_rbind)
  fix d
  show "rbind (case dget (canon_rows d) ''all_targets_quarantined'' of None \<Rightarrow> Inr ()
          | Some n \<Rightarrow> rbind (integer_of n 1 (int MAX_TARGETS)) (\<lambda>_. Inr ()))
        (\<lambda>_. case dget (canon_rows d) ''wave'' of None \<Rightarrow> Inr () | Some w \<Rightarrow> normal_wave w) =
      rbind (case dget d ''all_targets_quarantined'' of None \<Rightarrow> Inr ()
          | Some n \<Rightarrow> rbind (integer_of n 1 (int MAX_TARGETS)) (\<lambda>_. Inr ()))
        (\<lambda>_. case dget d ''wave'' of None \<Rightarrow> Inr () | Some w \<Rightarrow> normal_wave w)"
    by (simp add: dget_canon canon_simps split: option.splits)
qed

lemma has_key_canon: "has_key (canon_rows d) k = has_key d k"
  by (rule crel_has_key [OF crel_canon])

lemma validate_bound_canon: "validate_bound (canon_rows row) = validate_bound row"
  unfolding validate_bound_def has_key_canon jget_canon canon_simps
  by (rule rbind_cong [OF refl], rule rbind_cong [OF refl], rule object_canon_rbind)
     (simp only: jget_canon canon_simps id_set_canon)

lemma annotations_canon: "(case dget (canon_rows row) k of None \<Rightarrow> Inr () | Some a \<Rightarrow> validate_annotations a) =
    (case dget row k of None \<Rightarrow> Inr () | Some a \<Rightarrow> validate_annotations a)"
  by (simp add: dget_canon canon_simps split: option.splits)

lemma validate_occurrence_canon: "validate_occurrence zones sha key (canon v) = validate_occurrence zones sha key v"
  unfolding validate_occurrence_def Let_def
  by (rule object_canon_rbind)
     (simp only: jget_canon canon_simps obj_or_empty_canon occurrence_id_canon validate_slot_canon rbind_map_sum
       has_key_canon validate_bound_canon annotations_canon py_eq_canon)

lemma terminal_crel: "crel row row' \<Longrightarrow> terminal row' = terminal row"
  by (simp only: terminal_def crel_jget canon_simps)

lemma validate_times_crel: "crel row row' \<Longrightarrow> validate_times row' = validate_times row"
  by (simp only: validate_times_def crel_jget terminal_crel canon_simps canon_JNull)

lemma field_ok_crel:
  assumes "\<And>v. check (canon v) = check v" "crel row row'"
  shows "field_ok row' k check = field_ok row k check"
  by (cases "dget row k") (simp_all add: field_ok_def crel_dget [OF assms(2)] assms(1))

lemma validate_optional_crel: "crel row row' \<Longrightarrow> validate_optional row' = validate_optional row"
  unfolding validate_optional_def by (simp only: field_ok_crel [where row = row and row' = row'] canon_simps canon_JNull)

lemma image_set_crel: "crel row row' \<Longrightarrow> image_set row' k = image_set row k"
  by (cases "as_list (jget row k)") (simp_all add: image_set_def crel_jget str_in_canon)

lemma notes_canon: "(case as_list (canon v) of None \<Rightarrow> Inl Invalid
    | Some notes \<Rightarrow> if 16 < length notes then Inl Invalid else rbind (rmap (str_where p) notes) (\<lambda>_. Inr ())) =
    (case as_list v of None \<Rightarrow> Inl Invalid
    | Some notes \<Rightarrow> if 16 < length notes then Inl Invalid else rbind (rmap (str_where p) notes) (\<lambda>_. Inr ()))"
  by (simp add: rmap_str_canon split: option.splits)

lemma list_bound_canon: "(case as_list (canon v) of None \<Rightarrow> Inl Invalid
    | Some ps \<Rightarrow> if MAX_RECEIPT_ATTEMPTS \<le> length ps then Inl Invalid else Inr row') =
    map_sum id (\<lambda>_. row') (case as_list v of None \<Rightarrow> Inl Invalid
    | Some ps \<Rightarrow> if MAX_RECEIPT_ATTEMPTS \<le> length ps then Inl Invalid else Inr row)"
  by (simp split: option.splits)

lemma validate_attempt_crel:
  assumes "crel row row'"
  shows "validate_attempt key (JObj row') = map_sum id (\<lambda>_. row') (validate_attempt key (JObj row))"
  unfolding validate_attempt_def map_sum_rbind
  by (rule object_rbind [OF assms])
     (simp only: crel_jget [OF assms] canon_simps validate_times_crel [OF assms] validate_optional_crel [OF assms] notes_canon
       crel_has_key [OF assms] image_set_crel [OF assms] terminal_crel [OF assms] list_bound_canon [where row' = row' and row = row])

lemma crel_dset_list: "crel d d' \<Longrightarrow> crel (dset k (JList []) d) (dset k (JList []) d')"
  by (rule crel_dset) simp_all

lemma validate_lineage_crel:
  assumes "crel row row'"
  shows "validate_lineage key row' index last_rev (map canon ps) = validate_lineage key row index last_rev ps"
proof (induction ps arbitrary: index last_rev)
  case (Cons v ps)
  show ?case
    unfolding list.map validate_lineage.simps
    by (rule object_canon_rbind)
       (simp only: validate_attempt_crel [OF crel_dset_list [OF crel_canon]] rbind_map_sum jget_canon crel_jget [OF assms]
         canon_simps int_at_crel [OF crel_canon] int_at_crel [OF assms] terminal_crel [OF crel_canon] Cons.IH py_eq_canon)
qed simp

lemma lineage_crel: "crel row row' \<Longrightarrow> lineage row' = map canon (lineage row)"
  by (cases "as_list (jget row ''predecessors'')") (simp_all add: lineage_def crel_jget)

lemma validate_receipt_canon: "validate_receipt key (canon v) = validate_receipt key v"
proof (rule canon_by_obj)
  fix d d' assume c: "crel d d'"
  have "rbind (validate_attempt key (JObj d)) (\<lambda>x. rbind (require (jget x ''attempt'' = JInt (int (length (lineage x)) + 1))) (\<lambda>_. validate_lineage key x 1 0 (lineage x))) =
    rbind (validate_attempt key (JObj d)) (\<lambda>_. rbind (require (jget d ''attempt'' = JInt (int (length (lineage d)) + 1))) (\<lambda>_. validate_lineage key d 1 0 (lineage d)))"
    by (rule rbind_cong [OF refl]) (auto simp: validate_attempt_def rbind_eq_Inr object_of_Inr split: option.splits if_splits)
  then show "validate_receipt key (JObj d') = validate_receipt key (JObj d)"
    unfolding validate_receipt_def validate_attempt_crel [OF c] rbind_map_sum
    by (simp only: crel_jget [OF c] lineage_crel [OF c] length_map canon_simps validate_lineage_crel [OF c])
qed (simp add: validate_receipt_def validate_attempt_def object_of_not_obj)

end
