(* ===== verification/Schedule_Locked.thy ===== *)
theory Schedule_Locked
  imports Schedule_Canon Keyed_Fresh
begin

text \<open>
  What a change of a row under its lock does, once for all stores of the schedule module: either nothing
  happens to the map of rows, or it changes as the callback decided from the row it was given.  The stores
  are durable, so a call can also raise after its whole effect, when only the directory sync fails.
\<close>

lemma defs_cfg_ok: "config_ok (defs_cfg zones)"
  unfolding defs_cfg_def by (rule owned_cfg_ok) (rule validate_schedule_canon)

lemma progress_cfg_ok: "config_ok progress_cfg"
  unfolding progress_cfg_def by (rule owned_cfg_ok) (rule validate_progress_canon)

lemma retired_cfg_ok: "config_ok retired_cfg"
  unfolding retired_cfg_def by (rule owned_cfg_ok) (rule validate_retired_canon)

lemma occs_cfg_ok: "config_ok (occs_cfg zones sha)"
  unfolding occs_cfg_def by (rule owned_cfg_ok) (rule validate_occurrence_canon)

lemma receipts_cfg_ok: "config_ok (receipts_cfg identifier)"
proof -
  have "jget (obj_or_empty (canon v)) ''occurrence_id'' = JStr identifier \<longleftrightarrow>
      jget (obj_or_empty v) ''occurrence_id'' = JStr identifier" for v
    by (simp add: obj_or_empty_canon jget_canon canon_scalar_eq)
  then show ?thesis
    unfolding receipts_cfg_def by (intro owned_cfg_ok) (simp add: validate_receipt_canon)
qed

lemma sread_fresh:
  assumes "config_ok cfg" "fresh_ok cfg s" "sread cfg io key s = (s', r)"
  shows "fresh_ok cfg s' \<and> view cfg s' = view cfg s \<and> (\<exists>v. r = Inr v \<and> old_row cfg s key v)"
proof -
  obtain s1 q where g: "get cfg io key s = (s1, q)" by (cases "get cfg io key s")
  from get_fresh [OF assms(1,2) g] g assms(3) show ?thesis by (auto simp: sread_def)
qed

lemma sput_fresh:
  assumes "config_ok cfg" "fresh_ok cfg s" "sput cfg io key v s = (s', r)" "row_ok cfg (key, v)"
  shows "fresh_ok cfg s' \<and> (r = Inl WriteRefused \<and> \<not> (\<forall>b. shard_ok io b) \<and>
        (view cfg s' = view cfg s \<or> view cfg s' = (view cfg s)(key := Some (canon v))) \<or>
      r = Inr () \<and> view cfg s' = (view cfg s)(key := Some (canon v)))"
proof -
  obtain s1 q where u: "update cfg io key (\<lambda>_. Inr (Put v)) s = (s1, q)" by (cases "update cfg io key (\<lambda>_. Inr (Put v)) s")
  have "v \<noteq> JNull" using assms(4) by (simp add: row_ok_def)
  with update_fresh [OF assms(1,2) u] assms(3,4) u show ?thesis
    by (auto simp: sput_def put_def kbind_def returned_def)
qed

lemma transact_fresh:
  assumes c: "config_ok cfg" and ok: "fresh_ok cfg s" and t: "transact cfg io key fn st s = (s', st', r)"
    and legit: "\<forall>old st1 v. old_row cfg s key old \<and> fn st old = (st1, Inr (Put v)) \<and> v \<noteq> JNull \<longrightarrow> row_ok cfg (key, v)"
  shows "fresh_ok cfg s' \<and> (\<exists>old q. old_row cfg s key old \<and> fn st old = (st', q) \<and>
      (case r of
         Inl e \<Rightarrow> q = Inl e \<and> view cfg s' = view cfg s \<or>
           e = WriteRefused \<and> \<not> (\<forall>b. shard_ok io b) \<and>
           (\<exists>u. q = Inr u \<and> (view cfg s' = view cfg s \<or> view cfg s' = apply_upd key (returned u) (view cfg s)))
       | Inr w \<Rightarrow> \<exists>u. q = Inr u \<and> w = returned u \<and> view cfg s' = apply_upd key w (view cfg s)))"
proof -
  obtain s1 old where g: "get cfg io key s = (s1, Inr old)" and s1: "fresh_ok cfg s1" "view cfg s1 = view cfg s" and
    old: "old_row cfg s key old"
    using get_fresh [OF c ok] by (metis surj_pair)
  obtain st1 q where f: "fn st old = (st1, q)" by (cases "fn st old")
  show ?thesis
  proof (cases q)
    case (Inl e)
    with t g f have "s' = s1" "st' = st1" "r = Inl e" by (auto simp: transact_def)
    with s1 old f Inl show ?thesis by auto
  next
    case (Inr u)
    obtain s2 w where u: "update cfg io key (\<lambda>_. Inr u) s1 = (s2, w)" by (cases "update cfg io key (\<lambda>_. Inr u) s1")
    have l: "row_ok cfg (key, v)" if "u = Put v" "v \<noteq> JNull" for v using legit old f Inr that by auto
    from update_fresh [OF c s1(1) u l] show ?thesis
      using t g f Inr u s1(2) old by (intro conjI exI [of _ old] exI [of _ "Inr u"]) (auto simp: transact_def, blast+)
  qed
qed

text \<open>What is left in the files, whether the call returned or raised.\<close>

lemma transact_view:
  assumes "config_ok cfg" "fresh_ok cfg s" "transact cfg io key fn st s = (s', st', r)"
    and "\<forall>old st1 v. old_row cfg s key old \<and> fn st old = (st1, Inr (Put v)) \<and> v \<noteq> JNull \<longrightarrow> row_ok cfg (key, v)"
  shows "fresh_ok cfg s' \<and> (\<exists>old q. old_row cfg s key old \<and> fn st old = (st', q) \<and>
      (view cfg s' = view cfg s \<or> (\<exists>u. q = Inr u \<and> view cfg s' = apply_upd key (returned u) (view cfg s))))"
  using transact_fresh [OF assms] by (cases r) (simp_all, blast+)

lemma change_row_fresh:
  assumes c: "config_ok cfg" and ok: "fresh_ok cfg s" and t: "change_row cfg io key fn s = (s', r)"
    and legit: "\<forall>old v. old_row cfg s key old \<and> fn old = Inr (Put v) \<and> v \<noteq> JNull \<longrightarrow> row_ok cfg (key, v)"
  shows "fresh_ok cfg s' \<and> (\<exists>old. old_row cfg s key old \<and>
      (case r of
         Inl e \<Rightarrow> fn old = Inl e \<and> view cfg s' = view cfg s \<or>
           e = WriteRefused \<and> \<not> (\<forall>b. shard_ok io b) \<and>
           (\<exists>u. fn old = Inr u \<and> (view cfg s' = view cfg s \<or> view cfg s' = apply_upd key (returned u) (view cfg s)))
       | Inr w \<Rightarrow> \<exists>u. fn old = Inr u \<and> w = returned u \<and> view cfg s' = apply_upd key w (view cfg s)))"
proof -
  obtain x where "transact cfg io key (\<lambda>_ old. ((), fn old)) () s = (s', x, r)"
    using t by (auto simp: change_row_def split: prod.splits)
  from transact_fresh [OF c ok this] legit show ?thesis by fastforce
qed

lemma change_row_view:
  assumes "config_ok cfg" "fresh_ok cfg s" "change_row cfg io key fn s = (s', r)"
    and "\<forall>old v. old_row cfg s key old \<and> fn old = Inr (Put v) \<and> v \<noteq> JNull \<longrightarrow> row_ok cfg (key, v)"
  shows "fresh_ok cfg s' \<and> (\<exists>old. old_row cfg s key old \<and>
      (view cfg s' = view cfg s \<or> (\<exists>u. fn old = Inr u \<and> view cfg s' = apply_upd key (returned u) (view cfg s))))"
  using change_row_fresh [OF assms] by (cases r) (simp_all, blast+)

lemma old_row_None: "old_row cfg s key None \<longleftrightarrow> view cfg s key = None"
  by (auto simp: old_row_def)

lemma old_row_Some: "old_row cfg s key (Some v) \<Longrightarrow> view cfg s key = Some (canon v) \<and> row_ok cfg (key, v)"
  by (simp add: old_row_def)

text \<open>Two rows are the same row when they differ in the order of keys only.\<close>

lemma canon_row_fields:
  "int_at (obj_or_empty (canon v)) k = int_at (obj_or_empty v) k"
  "str_at (obj_or_empty (canon v)) k = str_at (obj_or_empty v) k"
  by (rule int_at_crel [OF obj_or_empty_crel] str_at_crel [OF obj_or_empty_crel])+

end
