(* ===== verification/Schedule_Properties.thy ===== *)
theory Schedule_Properties
  imports Schedule_Locked Clock_Properties
begin

text \<open>
  Histories of the schedule store.  Any number of calls run one after the other, each with its own faults
  and so possibly half-way, and the process restarts in between.  The tag of a schedule, its identifier with
  its revision, never stands for two different schedules, even after one was deleted and created again.
\<close>

section \<open>Steps\<close>

inductive sched_step :: "zones \<Rightarrow> digest \<Rightarrow> sched_store \<Rightarrow> sched_store \<Rightarrow> bool" for zones sha where
  create: "create_schedule zones f sid d actor now preview fresh st = (st', r) \<Longrightarrow> sched_step zones sha st st'"
| put: "put_schedule zones f sid d expected preview st = (st', r) \<Longrightarrow> sched_step zones sha st st'"
| patch: "patch_schedule zones f sid p expected preview st = (st', r) \<Longrightarrow> sched_step zones sha st st'"
| reaffirm: "reaffirm_schedule zones f sid actor expected st = (st', r) \<Longrightarrow> sched_step zones sha st st'"
| delete: "delete_schedule zones f sid expected st = (st', b) \<Longrightarrow> sched_step zones sha st st'"
| claim: "claim_occurrence zones sha f sid expected generation slot target now st = (st', r) \<Longrightarrow> sched_step zones sha st st'"
| read: "get_schedule zones f sid st = (st', q) \<Longrightarrow> sched_step zones sha st st'"
| scan: "list_schedules zones f st = (st', q') \<Longrightarrow> sched_step zones sha st st'"
| restart: "sched_step zones sha st (st\<lparr>sdefs := (sdefs st)\<lparr>migrated := False\<rparr>, sretired := (sretired st)\<lparr>migrated := False\<rparr>\<rparr>)"
| elsewhere: "sched_step zones sha st (st\<lparr>soccs := occs, sprogress := progress\<rparr>)"
    \<comment> \<open>the other stores of the module, by calls that do not touch the schedules\<close>

abbreviation sched_row :: "zones \<Rightarrow> sched_store \<Rightarrow> string \<Rightarrow> json option" where
  "sched_row zones st \<equiv> view (defs_cfg zones) (sdefs st)"

abbreviation row_rev :: "json \<Rightarrow> int" where
  "row_rev v \<equiv> rev_of (obj_or_empty v)"

definition revision_floor :: "sched_store \<Rightarrow> string \<Rightarrow> int" where
  "revision_floor st k = floor_of (view retired_cfg (sretired st) k)"

definition stores_ok :: "zones \<Rightarrow> sched_store \<Rightarrow> bool" where
  "stores_ok zones st \<longleftrightarrow> fresh_ok (defs_cfg zones) (sdefs st) \<and> fresh_ok retired_cfg (sretired st)"

text \<open>What one call may do to a schedule.\<close>

definition row_moves :: "json option \<Rightarrow> int \<Rightarrow> json option \<Rightarrow> int \<Rightarrow> bool" where
  "row_moves old f new f' \<longleftrightarrow>
     f \<le> f' \<and>
     (case new of
        None \<Rightarrow> (case old of None \<Rightarrow> True | Some v \<Rightarrow> row_rev v \<le> f')
      | Some w \<Rightarrow> new = old \<or> (case old of None \<Rightarrow> f | Some v \<Rightarrow> row_rev v) < row_rev w)"

definition moves :: "zones \<Rightarrow> sched_store \<Rightarrow> sched_store \<Rightarrow> bool" where
  "moves zones st st' \<longleftrightarrow>
     (\<forall>k. row_moves (sched_row zones st k) (revision_floor st k) (sched_row zones st' k) (revision_floor st' k))"

lemma moves_same: "sched_row zones st' = sched_row zones st \<Longrightarrow> view retired_cfg (sretired st') = view retired_cfg (sretired st) \<Longrightarrow>
    moves zones st st'"
  by (auto simp: moves_def row_moves_def revision_floor_def split: option.splits)

lemma floor_of_canon: "floor_of (map_option canon v) = floor_of v"
  by (cases v) (simp_all add: floor_of_def canon_row_fields)

lemma old_row_floor: "old_row cfg s k v \<Longrightarrow> floor_of v = floor_of (view cfg s k)"
  by (metis floor_of_canon old_row_def)

lemma old_row_rev: "old_row cfg s k (Some v) \<Longrightarrow> \<exists>w. view cfg s k = Some w \<and> row_rev w = row_rev v"
  by (metis canon_row_fields(1) old_row_Some)

lemma schedule_row_ok: "row_ok (defs_cfg zones) (k, v) \<longleftrightarrow> validate_schedule zones k v = Inr () \<and> v \<noteq> JNull"
  by (simp add: defs_cfg_def owned_row_ok)

lemma moves_at:
  assumes "\<And>j. j \<noteq> k \<Longrightarrow> sched_row zones st' j = sched_row zones st j \<and> view retired_cfg (sretired st') j = view retired_cfg (sretired st) j"
    and "row_moves (sched_row zones st k) (revision_floor st k) (sched_row zones st' k) (revision_floor st' k)"
  shows "moves zones st st'"
  unfolding moves_def
proof
  fix j
  show "row_moves (sched_row zones st j) (revision_floor st j) (sched_row zones st' j) (revision_floor st' j)"
    using assms by (cases "j = k") (auto simp: row_moves_def revision_floor_def split: option.splits)
qed

lemma stores_okD:
  assumes "stores_ok zones st"
  shows "fresh_ok (defs_cfg zones) (sdefs st)" "fresh_ok retired_cfg (sretired st)"
  using assms by (auto simp: stores_ok_def)

section \<open>Each call\<close>

lemma new_schedule_row:
  assumes "new_schedule zones k d actor now p fresh n = Inr v" "dget d ''rev'' = None"
  shows "row_ok (defs_cfg zones) (k, v) \<and> row_rev v = n + 1"
  using assms by (auto simp: new_schedule_def Let_def rbind_eq_Inr schedule_row_ok int_at_def obj_or_empty_def get_or_def map_add_def)

lemma normalize_definition_keys:
  assumes "normalize_definition zones v = Inr d"
  shows "dwf d \<and> dget d ''rev'' = None"
  using assms by (auto simp: normalize_definition_def rbind_eq_Inr Let_def dwf_def split: option.splits)

lemma create_mutate_fresh:
  assumes ok: "fresh_ok retired_cfg ret" and c: "create_mutate zones io k build ret old = (ret', q)"
  shows "fresh_ok retired_cfg ret' \<and> view retired_cfg ret' = view retired_cfg ret \<and>
    (case q of Inl e \<Rightarrow> True
     | Inr u \<Rightarrow> old = None \<and> (\<exists>v. u = Put v \<and> build (floor_of (view retired_cfg ret k)) = Inr v))"
proof (cases "old = None")
  case True
  obtain s r where g: "sread retired_cfg io k ret = (s, r)" by (cases "sread retired_cfg io k ret")
  from sread_fresh [OF retired_cfg_ok ok g] obtain x where
    s: "fresh_ok retired_cfg s" "view retired_cfg s = view retired_cfg ret" "r = Inr x" "old_row retired_cfg ret k x" by auto
  show ?thesis using c True g s
    by (cases "build (floor_of x)") (auto simp: create_mutate_def old_row_floor [OF s(4)])
next
  case False
  with c ok show ?thesis by (auto simp: create_mutate_def)
qed

lemma create_step:
  assumes ok: "stores_ok zones st" and c: "create_schedule zones f sid d actor now preview fresh st = (st', r)"
  shows "stores_ok zones st' \<and> moves zones st st'"
proof (cases "rbind (str_where identifier_ok sid) (\<lambda>k. rbind (normalize_definition zones d) (\<lambda>d.
             rbind (normalize_snapshot preview) (\<lambda>p. Inr (k, d, p))))")
  case (Inl e)
  with c ok show ?thesis by (simp add: create_schedule_def moves_same)
next
  case (Inr x)
  obtain k nd p where x: "x = (k, nd, p)" by (cases x)
  have nd: "dget nd ''rev'' = None" using Inr x normalize_definition_keys by (auto simp: rbind_eq_Inr)
  let ?fn = "create_mutate zones (io_retired f) k (\<lambda>least. new_schedule zones k nd actor now p fresh least)"
  obtain s ret q where t: "transact (defs_cfg zones) (io_defs f) k ?fn (sretired st) (sdefs st) = (s, ret, q)"
    by (cases "transact (defs_cfg zones) (io_defs f) k ?fn (sretired st) (sdefs st)")
  have st': "st' = st\<lparr>sdefs := s, sretired := ret\<rparr>" using c Inr x t by (simp add: create_schedule_def)
  note fr = stores_okD [OF ok]
  have l: "\<forall>old st1 v. old_row (defs_cfg zones) (sdefs st) k old \<and> ?fn (sretired st) old = (st1, Inr (Put v)) \<and> v \<noteq> JNull \<longrightarrow>
      row_ok (defs_cfg zones) (k, v)"
    using create_mutate_fresh [OF fr(2)] new_schedule_row [OF _ nd] by fastforce
  from transact_view [OF defs_cfg_ok fr(1) t l] obtain old y where
    s: "fresh_ok (defs_cfg zones) s" "old_row (defs_cfg zones) (sdefs st) k old" "?fn (sretired st) old = (ret, y)" and
    q: "view (defs_cfg zones) s = sched_row zones st \<or>
       (\<exists>u. y = Inr u \<and> view (defs_cfg zones) s = apply_upd k (returned u) (sched_row zones st))" by blast
  note m = create_mutate_fresh [OF fr(2) s(3)]
  have "stores_ok zones st'" using s(1) m st' by (simp add: stores_ok_def)
  moreover have "moves zones st st'"
    using q
  proof (elim disjE exE conjE)
    assume "view (defs_cfg zones) s = sched_row zones st"
    with m st' show ?thesis by (intro moves_same) auto
  next
    fix u assume u: "y = Inr u" "view (defs_cfg zones) s = apply_upd k (returned u) (sched_row zones st)"
    from m u(1) obtain v where v: "old = None" "u = Put v" "new_schedule zones k nd actor now p fresh (revision_floor st k) = Inr v"
      by (auto simp: revision_floor_def)
    note row = new_schedule_row [OF v(3) nd]
    then have w: "returned u = Put v" using v(2) by (auto simp: schedule_row_ok returned_def)
    have "sched_row zones st k = None" using s(2) v(1) by (simp add: old_row_None)
    with row w u(2) st' m show ?thesis
      by (intro moves_at [of k]) (auto simp: row_moves_def revision_floor_def canon_row_fields)
  qed
  ultimately show ?thesis by blast
qed

lemma compare_rev_Inr: "compare_rev old expected = Inr row \<Longrightarrow> \<exists>v. old = Some v \<and> row = obj_or_empty v"
  by (auto simp: compare_rev_def rbind_eq_Inr Let_def split: option.splits if_splits)

definition keeps_rev :: "(obj \<Rightarrow> obj sc) \<Rightarrow> bool" where
  "keeps_rev change \<longleftrightarrow> (\<forall>row row'. change row = Inr row' \<longrightarrow> rev_of row' = rev_of row)"

lemma edit_mutate_row:
  assumes "keeps_rev change" "edit_mutate zones k expected change old = Inr u"
  shows "\<exists>v w. old = Some v \<and> u = Put w \<and> row_ok (defs_cfg zones) (k, w) \<and> row_rev w = row_rev v + 1"
  using assms compare_rev_Inr
  by (fastforce simp: edit_mutate_def rbind_eq_Inr Let_def schedule_row_ok keeps_rev_def obj_or_empty_def int_at_def get_or_def)

lemma edit_step:
  assumes ok: "stores_ok zones st" and c: "edit_schedule zones f sid expected change st = (st', r)" and keep: "keeps_rev change"
  shows "stores_ok zones st' \<and> moves zones st st'"
proof (cases "str_where identifier_ok sid")
  case (Inl e)
  with c ok show ?thesis by (simp add: edit_schedule_def moves_same)
next
  case (Inr k)
  let ?fn = "edit_mutate zones k expected change"
  obtain s q where t: "change_row (defs_cfg zones) (io_defs f) k ?fn (sdefs st) = (s, q)"
    by (cases "change_row (defs_cfg zones) (io_defs f) k ?fn (sdefs st)")
  have st': "st' = st\<lparr>sdefs := s\<rparr>" using c Inr t by (simp add: edit_schedule_def)
  note fr = stores_okD [OF ok]
  have l: "\<forall>old v. old_row (defs_cfg zones) (sdefs st) k old \<and> ?fn old = Inr (Put v) \<and> v \<noteq> JNull \<longrightarrow> row_ok (defs_cfg zones) (k, v)"
    using edit_mutate_row [OF keep] by fastforce
  from change_row_view [OF defs_cfg_ok fr(1) t l] obtain old where
    s: "fresh_ok (defs_cfg zones) s" "old_row (defs_cfg zones) (sdefs st) k old" and
    q: "view (defs_cfg zones) s = sched_row zones st \<or>
       (\<exists>u. ?fn old = Inr u \<and> view (defs_cfg zones) s = apply_upd k (returned u) (sched_row zones st))" by blast
  have "stores_ok zones st'" using s(1) fr st' by (simp add: stores_ok_def)
  moreover have "moves zones st st'"
    using q
  proof (elim disjE exE conjE)
    assume "view (defs_cfg zones) s = sched_row zones st"
    with st' show ?thesis by (intro moves_same) auto
  next
    fix u assume u: "?fn old = Inr u" "view (defs_cfg zones) s = apply_upd k (returned u) (sched_row zones st)"
    from edit_mutate_row [OF keep u(1)] obtain v x where
      v: "old = Some v" "u = Put x" "row_ok (defs_cfg zones) (k, x)" "row_rev x = row_rev v + 1" by auto
    then have w: "returned u = Put x" by (auto simp: schedule_row_ok returned_def)
    from old_row_rev s(2) v(1) obtain y where "sched_row zones st k = Some y" "row_rev y = row_rev v" by blast
    with v w u(2) st' show ?thesis
      by (intro moves_at [of k]) (auto simp: row_moves_def revision_floor_def canon_row_fields)
  qed
  ultimately show ?thesis by blast
qed

lemma dget_ddels: "dget (foldl (\<lambda>d k. ddel k d) d ks) k = (if k \<in> set ks then None else dget d k)"
  by (induction ks arbitrary: d) auto

lemma install_keeps_rev:
  assumes "dwf d" "dget d ''rev'' = None" "install_definition d preview row = Inr row'"
  shows "rev_of row' = rev_of row"
  using assms
  by (auto simp: install_definition_def Let_def rbind_eq_Inr int_at_def get_or_def merge_rows_get dget_ddels
      DEFINITION_KEYS_def split: if_splits)

lemma put_step:
  assumes ok: "stores_ok zones st" and c: "put_schedule zones f sid d expected preview st = (st', r)"
  shows "stores_ok zones st' \<and> moves zones st st'"
proof (cases "normalize_definition zones d")
  case (Inl e)
  with c ok show ?thesis by (simp add: put_schedule_def moves_same)
next
  case (Inr nd)
  have "keeps_rev (install_definition nd preview)"
    using install_keeps_rev normalize_definition_keys [OF Inr] by (auto simp: keeps_rev_def)
  with edit_step [OF ok] c Inr show ?thesis by (simp add: put_schedule_def)
qed

lemma patch_step:
  assumes ok: "stores_ok zones st" and c: "patch_schedule zones f sid p expected preview st = (st', r)"
  shows "stores_ok zones st' \<and> moves zones st st'"
proof (cases "object_of DEFINITION_KEYS [] p")
  case (Inl e)
  with c ok show ?thesis by (simp add: patch_schedule_def moves_same)
next
  case (Inr d)
  have "keeps_rev (patch_change zones d preview)"
    unfolding keeps_rev_def patch_change_def Let_def rbind_eq_Inr by (metis install_keeps_rev normalize_definition_keys)
  with edit_step [OF ok] c Inr show ?thesis by (simp add: patch_schedule_def)
qed

lemma reaffirm_step:
  assumes ok: "stores_ok zones st" and c: "reaffirm_schedule zones f sid actor expected st = (st', r)"
  shows "stores_ok zones st' \<and> moves zones st st'"
proof (cases "str_where actor_ok actor")
  case (Inl e)
  with c ok show ?thesis by (simp add: reaffirm_schedule_def moves_same)
next
  case (Inr a)
  have "keeps_rev (\<lambda>row. Inr (dset ''created_by'' (JStr a) row))" by (simp add: keeps_rev_def int_at_def get_or_def)
  with edit_step [OF ok] c Inr show ?thesis by (simp add: reaffirm_schedule_def)
qed

lemma retired_row_ok:
  assumes "identifier_ok k" "1 \<le> n" "n \<le> MAX_INTEGER"
  shows "row_ok retired_cfg (k, JObj [(''revision'', JInt n)])"
  using assms by (simp add: retired_cfg_def owned_row_ok validate_retired_def require_def object_of_def get_or_def integer_of_def)

lemma schedule_rev_bounds:
  assumes "row_ok (defs_cfg zones) (k, v)"
  shows "identifier_ok k \<and> jget (obj_or_empty v) ''id'' = JStr k \<and>
    jget (obj_or_empty v) ''rev'' = JInt (row_rev v) \<and> 1 \<le> row_rev v \<and> row_rev v \<le> MAX_INTEGER"
  using assms unfolding schedule_row_ok validate_schedule_def rbind_eq_Inr
  by (auto simp: object_of_Inr require_def integer_of_Inr obj_or_empty_def int_at_def split: if_splits)

lemma retired_bounds:
  assumes "old_row retired_cfg s k v"
  shows "0 \<le> floor_of v \<and> floor_of v \<le> MAX_INTEGER"
proof (cases v)
  case None
  then show ?thesis by (simp add: floor_of_def MAX_INTEGER_def)
next
  case (Some x)
  with old_row_Some assms have "row_ok retired_cfg (k, x)" by blast
  then have "validate_retired k x = Inr ()" by (simp add: retired_cfg_def owned_row_ok)
  then obtain row where "x = JObj row" "1 \<le> int_at row ''revision''" "int_at row ''revision'' \<le> MAX_INTEGER"
    by (auto simp: validate_retired_def rbind_eq_Inr object_of_Inr integer_of_Inr int_at_def split: if_splits)
  with Some show ?thesis by (simp add: floor_of_def obj_or_empty_def)
qed

lemma delete_mutate_fresh:
  assumes ok: "fresh_ok retired_cfg ret" and d: "delete_mutate io k expected ret old = (ret', q)"
    and valid: "\<And>v. old = Some v \<Longrightarrow> row_ok (defs_cfg zones) (k, v)"
  shows "fresh_ok retired_cfg ret' \<and> (\<forall>j. j \<noteq> k \<longrightarrow> view retired_cfg ret' j = view retired_cfg ret j) \<and>
    floor_of (view retired_cfg ret k) \<le> floor_of (view retired_cfg ret' k) \<and>
    (\<forall>u. q = Inr u \<longrightarrow> u = Delete \<and> (\<exists>v. old = Some v \<and> row_rev v \<le> floor_of (view retired_cfg ret' k)))"
proof (cases "compare_rev old expected")
  case (Inl e)
  with d ok show ?thesis by (auto simp: delete_mutate_def)
next
  case (Inr row)
  with compare_rev_Inr obtain v where v: "old = Some v" "row = obj_or_empty v" by blast
  note b = schedule_rev_bounds [OF valid [OF v(1)]]
  obtain s r where g: "sread retired_cfg io k ret = (s, r)" by (cases "sread retired_cfg io k ret")
  from sread_fresh [OF retired_cfg_ok ok g] obtain x where
    s: "fresh_ok retired_cfg s" "view retired_cfg s = view retired_cfg ret" "r = Inr x" "old_row retired_cfg ret k x" by auto
  define n where "n = max (row_rev v) (floor_of x)"
  let ?row = "JObj [(''revision'', JInt n)]"
  have n: "1 \<le> n" "n \<le> MAX_INTEGER" "row_rev v \<le> n" "floor_of x \<le> n" using b retired_bounds [OF s(4)] by (auto simp: n_def)
  obtain s' r' where p: "sput retired_cfg io k ?row s = (s', r')" by (cases "sput retired_cfg io k ?row s")
  note w = sput_fresh [OF retired_cfg_ok s(1) p retired_row_ok [OF conjunct1 [OF b] n(1,2)]]
  have res: "ret' = s'" "q = (case r' of Inl e \<Rightarrow> Inl e | Inr _ \<Rightarrow> Inr Delete)"
    using d Inr v(2) g s(3) p by (cases r'; simp add: delete_mutate_def n_def)+
  have "floor_of (Some (canon ?row)) = n" by (simp add: floor_of_def canon_row_fields) (simp add: obj_or_empty_def int_at_def get_or_def)
  with w res s(2) v(1) n old_row_floor [OF s(4)] show ?thesis by auto
qed

lemma delete_step:
  assumes ok: "stores_ok zones st" and c: "delete_schedule zones f sid expected st = (st', r)"
  shows "stores_ok zones st' \<and> moves zones st st'"
proof (cases "str_where identifier_ok sid")
  case (Inl e)
  with c ok show ?thesis by (simp add: delete_schedule_def moves_same)
next
  case (Inr k)
  let ?fn = "delete_mutate (io_retired f) k expected"
  obtain s ret q where t: "transact (defs_cfg zones) (io_defs f) k ?fn (sretired st) (sdefs st) = (s, ret, q)"
    by (cases "transact (defs_cfg zones) (io_defs f) k ?fn (sretired st) (sdefs st)")
  have st': "st' = st\<lparr>sdefs := s, sretired := ret\<rparr>" using c Inr t by (simp add: delete_schedule_def)
  note fr = stores_okD [OF ok]
  have valid: "row_ok (defs_cfg zones) (k, v)" if "old_row (defs_cfg zones) (sdefs st) k old" "old = Some v" for old v
    using that old_row_Some by blast
  have l: "\<forall>old st1 v. old_row (defs_cfg zones) (sdefs st) k old \<and> ?fn (sretired st) old = (st1, Inr (Put v)) \<and> v \<noteq> JNull \<longrightarrow>
      row_ok (defs_cfg zones) (k, v)"
    using delete_mutate_fresh [OF fr(2) _ valid] by blast
  from transact_view [OF defs_cfg_ok fr(1) t l] obtain old y where
    s: "fresh_ok (defs_cfg zones) s" "old_row (defs_cfg zones) (sdefs st) k old" "?fn (sretired st) old = (ret, y)" and
    q: "view (defs_cfg zones) s = sched_row zones st \<or>
       (\<exists>u. y = Inr u \<and> view (defs_cfg zones) s = apply_upd k (returned u) (sched_row zones st))" by blast
  note m = delete_mutate_fresh [OF fr(2) s(3) valid [OF s(2)]]
  have "stores_ok zones st'" using s(1) m st' by (simp add: stores_ok_def)
  moreover have "moves zones st st'"
    using q
  proof (elim disjE exE conjE)
    assume "view (defs_cfg zones) s = sched_row zones st"
    with m st' show ?thesis
      by (intro moves_at [of k]) (auto simp: row_moves_def revision_floor_def split: option.splits)
  next
    fix u assume "y = Inr u" "view (defs_cfg zones) s = apply_upd k (returned u) (sched_row zones st)"
    with m obtain v where v: "old = Some v" "row_rev v \<le> floor_of (view retired_cfg ret k)"
      "view (defs_cfg zones) s = (sched_row zones st)(k := None)" by (auto simp: returned_def)
    from old_row_rev s(2) v(1) obtain x where "sched_row zones st k = Some x" "row_rev x = row_rev v" by blast
    with v m st' show ?thesis by (intro moves_at [of k]) (auto simp: row_moves_def revision_floor_def)
  qed
  ultimately show ?thesis by blast
qed

lemma claim_mutate_keeps: "claim_mutate zones sha f k n g slot target now c old = (c', Inr u) \<Longrightarrow> u = Keep"
  by (auto simp: claim_mutate_def split: prod.splits sum.splits)

lemma claim_step:
  assumes ok: "stores_ok zones st" and c: "claim_occurrence zones sha f sid expected generation slot target now st = (st', r)"
  shows "stores_ok zones st' \<and> moves zones st st'"
proof (cases "rbind (str_where identifier_ok sid) (\<lambda>k. rbind (integer_of expected 1 MAX_INTEGER) (\<lambda>n.
             rbind (str_where hex32_ok generation) (\<lambda>g. Inr (k, n, g))))")
  case (Inl e)
  with c ok show ?thesis by (simp add: claim_occurrence_def moves_same)
next
  case (Inr x)
  obtain k n g where x: "x = (k, n, g)" by (cases x)
  let ?fn = "claim_mutate zones sha f k n g slot target now"
  obtain s y q where t: "transact (defs_cfg zones) (io_defs f) k ?fn (soccs st, sprogress st, None) (sdefs st) = (s, y, q)"
    by (cases "transact (defs_cfg zones) (io_defs f) k ?fn (soccs st, sprogress st, None) (sdefs st)")
  note fr = stores_okD [OF ok]
  have l: "\<forall>old st1 v. old_row (defs_cfg zones) (sdefs st) k old \<and> ?fn (soccs st, sprogress st, None) old = (st1, Inr (Put v)) \<and>
      v \<noteq> JNull \<longrightarrow> row_ok (defs_cfg zones) (k, v)"
    using claim_mutate_keeps by blast
  from transact_view [OF defs_cfg_ok fr(1) t l] have
    s: "fresh_ok (defs_cfg zones) s" "view (defs_cfg zones) s = sched_row zones st"
    by (auto simp: returned_def dest!: claim_mutate_keeps)
  moreover obtain occs progress where "st' = st\<lparr>sdefs := s, soccs := occs, sprogress := progress\<rparr>"
    using c Inr x t by (cases y) (auto simp: claim_occurrence_def)
  ultimately show ?thesis using fr by (simp add: stores_ok_def moves_same)
qed

lemma read_step:
  assumes "stores_ok zones st" "get_schedule zones f sid st = (st', r)"
  shows "stores_ok zones st' \<and> moves zones st st'"
  using assms sread_fresh [OF defs_cfg_ok]
  by (auto simp: get_schedule_def stores_ok_def moves_same split: sum.splits prod.splits)

lemma scan_step:
  assumes "stores_ok zones st" "list_schedules zones f st = (st', r)"
  shows "stores_ok zones st' \<and> moves zones st st'"
  using assms snapshot_fresh [OF defs_cfg_ok]
  by (fastforce simp: list_schedules_def stores_ok_def moves_same split: sum.splits prod.splits)

lemma sched_step_moves:
  assumes "sched_step zones sha st st'" "stores_ok zones st"
  shows "stores_ok zones st' \<and> moves zones st st'"
  using assms
proof cases
  case restart
  with assms(2) restart_fresh show ?thesis by (auto simp: stores_ok_def intro!: moves_same)
next
  case elsewhere
  with assms(2) show ?thesis by (auto simp: stores_ok_def intro!: moves_same)
qed (use assms(2) in \<open>auto dest: create_step put_step patch_step reaffirm_step delete_step claim_step read_step scan_step\<close>)

section \<open>Tags\<close>

definition seen :: "zones \<Rightarrow> string \<Rightarrow> json \<Rightarrow> sched_store \<Rightarrow> bool" where
  \<comment> \<open>what holds ever after a row was the schedule \<open>k\<close>\<close>
  "seen zones k v st \<longleftrightarrow>
     (case sched_row zones st k of
        None \<Rightarrow> row_rev v \<le> revision_floor st k
      | Some w \<Rightarrow> w = v \<or> row_rev v < row_rev w)"

lemma seen_moves: "seen zones k v st \<Longrightarrow> moves zones st st' \<Longrightarrow> seen zones k v st'"
  unfolding moves_def seen_def row_moves_def by (drule spec [of _ k]) (fastforce split: option.splits)

lemma seen_ever:
  assumes "(sched_step zones sha)\<^sup>*\<^sup>* st st'" "stores_ok zones st" "sched_row zones st k = Some v"
  shows "stores_ok zones st' \<and> seen zones k v st'"
  using assms(1)
proof (induction rule: rtranclp_induct)
  case base
  with assms show ?case by (simp add: seen_def)
next
  case (step a b)
  with sched_step_moves seen_moves show ?case by blast
qed

lemma dash_split: "a @ CHR ''-'' # x = b @ CHR ''-'' # y \<Longrightarrow> CHR ''-'' \<notin> set x \<Longrightarrow> CHR ''-'' \<notin> set y \<Longrightarrow> a = b \<and> x = y"
  by (induction a arbitrary: b) (auto simp: Cons_eq_append_conv append_eq_Cons_conv)

lemma dec_nat_inj: "dec_nat m = dec_nat n \<Longrightarrow> m = n"
  by (metis dec_val_dec_nat)

lemma dec_nat_no_dash: "CHR ''-'' \<notin> set (dec_nat n)"
  using dec_nat_digits [of n] by (auto simp: list_all_iff is_digit_def)

lemma schedule_etag_inj:
  assumes "schedule_etag a = Inr t" "schedule_etag b = Inr t"
  shows "jget a ''id'' = jget b ''id'' \<and> rev_of a = rev_of b"
proof -
  from assms obtain i m j n where
    a: "jget a ''id'' = JStr i" "jget a ''rev'' = JInt m" "1 \<le> m" and
    b: "jget b ''id'' = JStr j" "jget b ''rev'' = JInt n" "1 \<le> n" and
    e: "i @ CHR ''-'' # dec_nat (nat m) @ [CHR 0x22] = j @ CHR ''-'' # dec_nat (nat n) @ [CHR 0x22]"
    by (auto simp: schedule_etag_def rbind_eq_Inr str_where_Inr integer_of_Inr)
  from e have "i @ CHR ''-'' # dec_nat (nat m) = j @ CHR ''-'' # dec_nat (nat n)" by (metis append_Cons append_assoc append_same_eq)
  from dash_split [OF this dec_nat_no_dash dec_nat_no_dash] have "i = j" "nat m = nat n" by (auto dest: dec_nat_inj)
  with a b show ?thesis by (simp add: int_at_def eq_nat_nat_iff)
qed

text \<open>
  C36.  The tag of a schedule is strong.  Take any run of calls on the stores, each failing where its writes
  fail and so possibly half-way, with restarts in between; when a read of a schedule and a later read, with
  any deletions and re-creations between them, give the same tag, they are of the same schedule and gave the
  same row, up to the order of its keys.
\<close>

theorem etag_never_reused:
  assumes "stores_ok zones st0" "(sched_step zones sha)\<^sup>*\<^sup>* st0 st1" "(sched_step zones sha)\<^sup>*\<^sup>* st1 st2"
    and "get_schedule zones f1 sid1 st1 = (st1', Inr (Some v))" "get_schedule zones f2 sid2 st2 = (st2', Inr (Some w))"
    and "schedule_etag (obj_or_empty v) = Inr tag" "schedule_etag (obj_or_empty w) = Inr tag"
  shows "sid1 = sid2 \<and> canon v = canon w"
proof -
  have ok1: "stores_ok zones st1" using assms(2) by (induction rule: rtranclp_induct) (auto simp: assms(1) dest: sched_step_moves)
  have row: "\<exists>k. sid = JStr k \<and> sched_row zones st k = Some (canon x) \<and> row_ok (defs_cfg zones) (k, x)"
    if "stores_ok zones st" "get_schedule zones f sid st = (st', Inr (Some x))" for f sid st st' x
  proof -
    from that(2) obtain k s where k: "sid = JStr k" "sread (defs_cfg zones) (io_defs f) k (sdefs st) = (s, Inr (Some x))"
      by (auto simp: get_schedule_def str_where_Inr split: sum.splits prod.splits)
    from sread_fresh [OF defs_cfg_ok stores_okD(1) [OF that(1)] k(2)] have "old_row (defs_cfg zones) (sdefs st) k (Some x)" by auto
    with k(1) old_row_Some show ?thesis by blast
  qed
  from row [OF ok1 assms(4)] obtain k where k: "sid1 = JStr k" "sched_row zones st1 k = Some (canon v)" "row_ok (defs_cfg zones) (k, v)"
    by blast
  note s = seen_ever [OF assms(3) ok1 k(2)]
  from row [OF conjunct1 [OF s] assms(5)] obtain j where
    j: "sid2 = JStr j" "sched_row zones st2 j = Some (canon w)" "row_ok (defs_cfg zones) (j, w)" by blast
  have "k = j" "row_rev v = row_rev w"
    using schedule_etag_inj [OF assms(6,7)] schedule_rev_bounds [OF k(3)] schedule_rev_bounds [OF j(3)] by auto
  with s j k(1) show ?thesis by (auto simp: seen_def canon_row_fields)
qed

section \<open>Undisturbed calls\<close>

lemma sread_total:
  assumes "config_ok cfg" "fresh_ok cfg s"
  obtains s' x where "sread cfg io key s = (s', Inr x)" "fresh_ok cfg s'" "view cfg s' = view cfg s" "old_row cfg s key x"
  using sread_fresh [OF assms] that by (metis surj_pair)

lemma create_schedule_ok:
  assumes ok: "stores_ok zones st" and io: "\<forall>b. shard_ok (io_defs f) b" and k: "identifier_ok k" "sched_row zones st k = None"
    and d: "normalize_definition zones d = Inr nd" "normalize_snapshot preview = Inr p"
    and v: "new_schedule zones k nd actor now p fresh (revision_floor st k) = Inr v"
    and c: "create_schedule zones f (JStr k) d actor now preview fresh st = (st', r)"
  shows "r = Inr v \<and> sched_row zones st' k = Some (canon v)"
proof -
  let ?fn = "create_mutate zones (io_retired f) k (\<lambda>least. new_schedule zones k nd actor now p fresh least)"
  obtain s ret q where t: "transact (defs_cfg zones) (io_defs f) k ?fn (sretired st) (sdefs st) = (s, ret, q)"
    by (cases "transact (defs_cfg zones) (io_defs f) k ?fn (sretired st) (sdefs st)")
  have st': "st' = st\<lparr>sdefs := s, sretired := ret\<rparr>" "r = written q"
    using c t k d by (auto simp: create_schedule_def str_where_def)
  note fr = stores_okD [OF ok]
  have nd: "dget nd ''rev'' = None" using d(1) normalize_definition_keys by blast
  have l: "\<forall>old st1 v. old_row (defs_cfg zones) (sdefs st) k old \<and> ?fn (sretired st) old = (st1, Inr (Put v)) \<and> v \<noteq> JNull \<longrightarrow>
      row_ok (defs_cfg zones) (k, v)"
    using create_mutate_fresh [OF fr(2)] new_schedule_row [OF _ nd] by fastforce
  from transact_fresh [OF defs_cfg_ok fr(1) t l] obtain old y where
    s: "old_row (defs_cfg zones) (sdefs st) k old" "?fn (sretired st) old = (ret, y)" and
    q: "case q of
         Inl e \<Rightarrow> y = Inl e
       | Inr w \<Rightarrow> \<exists>u. y = Inr u \<and> w = returned u \<and> view (defs_cfg zones) s = apply_upd k w (sched_row zones st)"
    using io by (cases q) auto
  have "old = None" using s(1) k(2) by (cases old) (auto simp: old_row_def)
  moreover obtain s1 x where g: "sread retired_cfg (io_retired f) k (sretired st) = (s1, Inr x)" "floor_of x = revision_floor st k"
    using sread_fresh [OF retired_cfg_ok fr(2)] old_row_floor unfolding revision_floor_def by (metis surj_pair)
  ultimately have "y = Inr (Put v)" using s(2) v by (auto simp: create_mutate_def)
  with q new_schedule_row [OF v nd] have "q = Inr (Put v)" "view (defs_cfg zones) s k = Some (canon v)"
    by (auto simp: returned_def schedule_row_ok split: sum.splits)
  then show ?thesis using st' by (simp add: written_def)
qed

lemma get_schedule_ok:
  assumes "stores_ok zones st" "identifier_ok k" "sched_row zones st k = Some v"
  shows "\<exists>st' w. get_schedule zones f (JStr k) st = (st', Inr (Some w)) \<and> canon w = v"
proof -
  obtain s r where g: "sread (defs_cfg zones) (io_defs f) k (sdefs st) = (s, r)" by (cases "sread (defs_cfg zones) (io_defs f) k (sdefs st)")
  from sread_fresh [OF defs_cfg_ok stores_okD(1) [OF assms(1)] g] obtain x where "r = Inr x" "map_option canon x = Some v"
    using assms(3) by (auto simp: old_row_def)
  with g assms(2) show ?thesis by (cases x) (auto simp: get_schedule_def str_where_def)
qed

lemma schedule_etag_canon: "schedule_etag (obj_or_empty (canon v)) = schedule_etag (obj_or_empty v)"
  by (simp add: schedule_etag_def obj_or_empty_canon jget_canon str_where_canon integer_of_canon)

section \<open>A concrete run\<close>

definition demo_stores :: sched_store where
  "demo_stores = \<lparr>sdefs = empty_store, sprogress = empty_store, sretired = empty_store, soccs = empty_store\<rparr>"

definition demo_io :: sfaults where
  "demo_io = \<lparr>io_defs = no_faults, io_progress = no_faults, io_retired = no_faults, io_occs = no_faults\<rparr>"

definition demo_body :: json where
  "demo_body = JObj [(''kind'', JStr ''assign''), (''target'', JObj []), (''payload'', JObj [(''image_ids'', strings [''image-1''])]),
     (''when'', JObj demo_when)]"

definition demo_preview :: json where
  "demo_preview = JObj [(''revision'', JInt 3), (''now'', JInt 1773000000), (''device_ids'', strings [''r1''])]"

lemma demo_texts: "text_ok 128 False ''Europe/Berlin''" "actor_ok ''user:ann''"
  by code_simp+

lemmas evaluates = object_of_def DEFINITION_KEYS_def ROW_KEYS_def get_or_def str_where_def schedule_state_ok_def normalize_target_def normalize_assign_def
  ids_of_def MAX_TARGETS_def image_id_ok_def is_word_def is_digit_def is_lower_def demo_when_def normalize_when_def setdefault_def demo_zones_def
  integer_of_def MAX_WINDOW_SECONDS_def has_key_def normalize_definition_def demo_texts normalize_snapshot_def target_id_ok_def identifier_ok_def hex32_ok_def
  MAX_INTEGER_def MAX_EPOCH_def pick_def new_schedule_def validate_schedule_def map_filter_def obj_or_empty_def require_def

definition demo_normal :: obj where
  "demo_normal = [(''kind'', JStr ''assign''), (''target'', JObj [(''filters'', JObj []), (''device_ids'', strings []), (''bind'', JStr ''late'')]),
        (''payload'', JObj [(''image_ids'', strings [''image-1'']), (''mode'', JStr ''merge'')]), (''when'', JObj demo_when),
        (''state'', JStr ''pending'')]"

lemma demo_normal_body: "normalize_definition demo_zones demo_body = Inr demo_normal"
  "normalize_definition demo_zones (JObj demo_normal) = Inr demo_normal"
  by (simp_all add: demo_body_def demo_normal_def evaluates)

definition demo_row :: obj where
  "demo_row = demo_normal @ [(''id'', JStr ''s1''), (''generation'', JStr (replicate 32 CHR ''a'')), (''rev'', JInt 1),
     (''created_by'', JStr ''user:ann''), (''created_at'', JInt 1773000000), (''preview'', demo_preview)]"

lemma demo_previews: "normalize_snapshot demo_preview = Inr (obj_or_empty demo_preview)"
  by (simp add: demo_preview_def evaluates)

lemma demo_fields:
  "object_of ROW_KEYS (filter (\<lambda>k. k \<noteq> ''after'') ROW_KEYS) (JObj demo_row) = Inr demo_row"
  "jget demo_row ''id'' = JStr ''s1''" "jget demo_row ''generation'' = JStr (replicate 32 CHR ''a'')" "jget demo_row ''rev'' = JInt 1"
  "jget demo_row ''created_by'' = JStr ''user:ann''" "jget demo_row ''created_at'' = JInt 1773000000" "jget demo_row ''preview'' = demo_preview"
  "jget demo_row ''after'' = JNull" "pick DEFINITION_KEYS demo_row = demo_normal"
  by (simp_all add: demo_row_def demo_normal_def object_of_def ROW_KEYS_def DEFINITION_KEYS_def get_or_def pick_def map_filter_def)

lemma demo_ids: "hex32_ok (replicate 32 CHR ''a'')" "identifier_ok ''s1''"
  by (simp_all add: evaluates list_all_iff)

lemma demo_valid: "validate_schedule demo_zones ''s1'' (JObj demo_row) = Inr ()"
  unfolding validate_schedule_def demo_fields(1) rbind_Inr demo_fields(2-)
  by (simp add: demo_ids str_where_def demo_texts integer_of_def MAX_INTEGER_def MAX_EPOCH_def demo_previews demo_normal_body)
     (simp add: obj_or_empty_def get_or_def)

lemma demo_etag: "schedule_etag demo_row = Inr (CHR 0x22 # ''iris-schedule-s1-1'' @ [CHR 0x22])"
proof -
  have "dec_nat 1 = ''1''" by code_simp
  then show ?thesis by (simp add: schedule_etag_def demo_fields demo_ids str_where_def integer_of_def MAX_INTEGER_def)
qed

definition demo_created :: sched_store where
  "demo_created = fst (create_schedule demo_zones demo_io (JStr ''s1'') demo_body (JStr ''user:ann'') (JInt 1773000000)
     demo_preview (replicate 32 CHR ''a'') demo_stores)"

definition demo_restarted :: sched_store where
  "demo_restarted = demo_created\<lparr>sdefs := (sdefs demo_created)\<lparr>migrated := False\<rparr>, sretired := (sretired demo_created)\<lparr>migrated := False\<rparr>\<rparr>"

lemma demo_stores_ok: "stores_ok zones demo_stores"
  by (simp add: stores_ok_def demo_stores_def empty_fresh)

lemma empty_view: "view cfg empty_store k = None"
  by (simp add: view_def empty_store_def pending_def shard_get_def rows_of_def read_shard_def)

lemma demo_created_row: "sched_row demo_zones demo_created ''s1'' = Some (canon (JObj demo_row))"
proof -
  have io: "\<forall>b. shard_ok (io_defs demo_io) b" by (simp add: demo_io_def)
  have new: "new_schedule demo_zones ''s1'' demo_normal (JStr ''user:ann'') (JInt 1773000000) (obj_or_empty demo_preview)
      (replicate 32 CHR ''a'') (revision_floor demo_stores ''s1'') = Inr (JObj demo_row)"
  proof -
    have "JObj (obj_or_empty demo_preview) = demo_preview" by (simp add: demo_preview_def obj_or_empty_def)
    then show ?thesis using demo_valid
      by (simp add: new_schedule_def Let_def revision_floor_def demo_stores_def empty_view floor_of_def demo_row_def)
  qed
  have none: "sched_row demo_zones demo_stores ''s1'' = None" by (simp add: demo_stores_def empty_view)
  show ?thesis unfolding demo_created_def
    by (rule conjunct2 [OF create_schedule_ok [OF demo_stores_ok io demo_ids(2) none demo_normal_body(1) demo_previews new prod.collapse [symmetric]]])
qed

theorem etag_never_reused_witness:
  "\<exists>st v st' w. get_schedule demo_zones demo_io (JStr ''s1'') demo_created = (st, Inr (Some v)) \<and>
     get_schedule demo_zones demo_io (JStr ''s1'') demo_restarted = (st', Inr (Some w)) \<and> canon v = canon w"
proof -
  have a: "(sched_step demo_zones sha)\<^sup>*\<^sup>* demo_stores demo_created" for sha
    unfolding demo_created_def by (rule r_into_rtranclp) (rule sched_step.create [OF prod.collapse [symmetric]])
  have b: "(sched_step demo_zones sha)\<^sup>*\<^sup>* demo_created demo_restarted" for sha
    unfolding demo_restarted_def by (rule r_into_rtranclp) (rule sched_step.restart)
  have ok: "stores_ok demo_zones demo_created"
    unfolding demo_created_def by (rule conjunct1 [OF create_step [OF demo_stores_ok prod.collapse [symmetric]]])
  have "stores_ok demo_zones demo_restarted" "sched_row demo_zones demo_restarted ''s1'' = Some (canon (JObj demo_row))"
    using ok restart_fresh demo_created_row by (auto simp: stores_ok_def demo_restarted_def)
  from get_schedule_ok [OF this(1) demo_ids(2) this(2), of demo_io] get_schedule_ok [OF ok demo_ids(2) demo_created_row, of demo_io]
  obtain st v st' w where g: "get_schedule demo_zones demo_io (JStr ''s1'') demo_created = (st, Inr (Some v))" "canon v = canon (JObj demo_row)"
    "get_schedule demo_zones demo_io (JStr ''s1'') demo_restarted = (st', Inr (Some w))" "canon w = canon (JObj demo_row)" by auto
  then have "schedule_etag (obj_or_empty x) = Inr (CHR 0x22 # ''iris-schedule-s1-1'' @ [CHR 0x22])" if "x \<in> {v, w}" for x
    using that demo_etag schedule_etag_canon [of x] schedule_etag_canon [of "JObj demo_row"] by (auto simp: obj_or_empty_def)
  then show ?thesis using etag_never_reused [OF demo_stores_ok a b g(1,3)] g by auto
qed

end
