(* ===== verification/Occurrence_History.thy ===== *)
theory Occurrence_History
  imports Schedule_Properties
begin

text \<open>
  Histories of the occurrences: calls in any order, each possibly refused by the file system, with restarts
  in between.  What an occurrence was claimed with never changes, its state moves along the table of
  transitions, and a gate that opened stays open.
\<close>

definition frozen_keys :: "string list" where
  "frozen_keys = [''id'', ''schedule_id'', ''schedule_generation'', ''schedule_rev'', ''schedule'', ''actor'', ''slot'',
     ''scheduled_at'', ''window_end'', ''preview'', ''created_at'', ''target_snapshot'', ''delta'']"

abbreviation moves_to :: "string \<Rightarrow> string \<Rightarrow> bool" where
  "moves_to s t \<equiv> t \<in> set (transitions s)"

abbreviation quarantined_count :: "obj \<Rightarrow> json" where
  "quarantined_count row \<equiv> jget (obj_at row ''annotations'') ''all_targets_quarantined''"

abbreviation wave_gate :: "obj \<Rightarrow> json" where
  "wave_gate row \<equiv> jget (obj_at (obj_at row ''annotations'') ''wave'') ''gate''"

definition occ_evolves :: "obj \<Rightarrow> obj \<Rightarrow> bool" where
  "occ_evolves a b \<longleftrightarrow>
     (\<forall>k \<in> set frozen_keys. canon (jget b k) = canon (jget a k)) \<and>
     moves_to\<^sup>*\<^sup>* (str_at a ''state'') (str_at b ''state'') \<and>
     int_at a ''updated_at'' \<le> int_at b ''updated_at'' \<and>
     (quarantined_count a \<noteq> JNull \<longrightarrow> canon (quarantined_count b) = canon (quarantined_count a)) \<and>
     (wave_gate a = JStr ''open'' \<longrightarrow> wave_gate b = JStr ''open'')"

lemma canon_eq_JNull: "canon v = JNull \<longleftrightarrow> v = JNull" "canon v = JStr s \<longleftrightarrow> v = JStr s"
  by (cases v; simp)+

lemma jget_obj_canon: "jget (obj_or_empty (canon v)) k = canon (jget (obj_or_empty v) k)"
  by (simp add: obj_or_empty_canon jget_canon)

lemma occ_evolves_refl: "occ_evolves a a"
  by (simp add: occ_evolves_def)

lemma occ_evolves_trans: "occ_evolves a b \<Longrightarrow> occ_evolves b c \<Longrightarrow> occ_evolves a c"
proof -
  assume a: "occ_evolves a b" and b: "occ_evolves b c"
  have "moves_to\<^sup>*\<^sup>* (str_at a ''state'') (str_at c ''state'')" using a b unfolding occ_evolves_def by (blast intro: rtranclp_trans)
  moreover have "canon (quarantined_count c) = canon (quarantined_count a)" if "quarantined_count a \<noteq> JNull"
  proof -
    from a that have "canon (quarantined_count b) = canon (quarantined_count a)" unfolding occ_evolves_def by blast
    moreover from this that have "quarantined_count b \<noteq> JNull" by (metis canon_eq_JNull(1))
    ultimately show ?thesis using b unfolding occ_evolves_def by simp
  qed
  ultimately show ?thesis using a b unfolding occ_evolves_def by auto
qed

lemma occ_evolves_canon: "occ_evolves (obj_or_empty (canon v)) b \<longleftrightarrow> occ_evolves (obj_or_empty v) b"
  "occ_evolves a (obj_or_empty (canon w)) \<longleftrightarrow> occ_evolves a (obj_or_empty w)"
  by (simp_all add: occ_evolves_def canon_row_fields jget_obj_canon canon_eq_JNull)

section \<open>The callbacks\<close>

lemma frozen_dset: "k' \<notin> set frozen_keys \<Longrightarrow> k \<in> set frozen_keys \<Longrightarrow> jget (dset k' v row) k = jget row k"
  by (auto simp: get_or_dset)

lemma not_frozen: "''state'' \<notin> set frozen_keys" "''updated_at'' \<notin> set frozen_keys" "''annotations'' \<notin> set frozen_keys"
  by (simp_all add: frozen_keys_def)

lemma touched_frozen: "k \<in> set frozen_keys \<Longrightarrow> jget (touched now row) k = jget row k"
  by (simp add: touched_def frozen_dset not_frozen)

lemma touched_fields:
  "str_at (touched now row) ''state'' = str_at row ''state''" "jget (touched now row) ''annotations'' = jget row ''annotations''"
  "int_at row ''updated_at'' \<le> int_at (touched now row) ''updated_at''"
  by (simp_all add: touched_def str_at_def int_at_def get_or_dset)

definition keeps_occurrence :: "zones \<Rightarrow> digest \<Rightarrow> string \<Rightarrow> (json option \<Rightarrow> upd sc) \<Rightarrow> bool" where
  \<comment> \<open>a callback that leaves a valid row which the old one may become\<close>
  "keeps_occurrence zones sha key fn \<longleftrightarrow>
     (\<forall>old u. fn old = Inr u \<longrightarrow> (\<forall>v. old = Some v \<longrightarrow> row_ok (occs_cfg zones sha) (key, v)) \<longrightarrow>
        (\<exists>w. u = Put w \<and> row_ok (occs_cfg zones sha) (key, w) \<and> (\<forall>v. old = Some v \<longrightarrow> occ_evolves (obj_or_empty v) (obj_or_empty w))))"

lemma keeps_occurrenceD:
  assumes "keeps_occurrence zones sha key fn" "fn old = Inr u" "old_row (occs_cfg zones sha) s key old"
  obtains w where "u = Put w" "row_ok (occs_cfg zones sha) (key, w)" "\<forall>v. old = Some v \<longrightarrow> occ_evolves (obj_or_empty v) (obj_or_empty w)"
proof -
  have "\<forall>v. old = Some v \<longrightarrow> row_ok (occs_cfg zones sha) (key, v)" using assms(3) by (auto simp: old_row_def)
  with assms(1,2) that show ?thesis unfolding keeps_occurrence_def by blast
qed

lemma occurrence_row_ok: "row_ok (occs_cfg zones sha) (k, v) \<longleftrightarrow> validate_occurrence zones sha k v = Inr () \<and> v \<noteq> JNull"
  by (simp add: occs_cfg_def owned_row_ok)

lemma checked_put_Inr: "checked_put zones sha key row = Inr u \<longleftrightarrow> u = Put (JObj row) \<and> row_ok (occs_cfg zones sha) (key, JObj row)"
  by (auto simp: checked_put_def rbind_eq_Inr occurrence_row_ok)

lemma transition_keeps: "keeps_occurrence zones sha key (transition_mutate zones sha key state now expected)"
proof -
  have e: "occ_evolves row (touched now (dset ''state'' (JStr t) row))" if "moves_to (str_at row ''state'') t" for row t
    using that touched_fields [where now = now and row = "dset ''state'' (JStr t) row"]
    by (auto simp: occ_evolves_def touched_frozen frozen_dset not_frozen str_at_def int_at_def get_or_dset)
  show ?thesis unfolding keeps_occurrence_def
  proof (intro allI impI)
    fix old u
    assume f: "transition_mutate zones sha key state now expected old = Inr u"
      and ok: "\<forall>v. old = Some v \<longrightarrow> row_ok (occs_cfg zones sha) (key, v)"
    then show "\<exists>w. u = Put w \<and> row_ok (occs_cfg zones sha) (key, w) \<and> (\<forall>v. old = Some v \<longrightarrow> occ_evolves (obj_or_empty v) (obj_or_empty w))"
      using e by (cases old) (auto simp: transition_mutate_def Let_def checked_put_Inr occ_evolves_refl obj_or_empty_def split: if_splits)
  qed
qed

lemma annotated_evolves:
  assumes "obj_or_empty a = obj_at row ''annotations''"
    and "jget (obj_or_empty a) ''all_targets_quarantined'' \<noteq> JNull \<Longrightarrow>
      canon (jget b ''all_targets_quarantined'') = canon (jget (obj_or_empty a) ''all_targets_quarantined'')"
    and "jget (obj_at (obj_or_empty a) ''wave'') ''gate'' = JStr ''open'' \<Longrightarrow> jget (obj_at b ''wave'') ''gate'' = JStr ''open''"
  shows "occ_evolves row (touched now (dset ''annotations'' (JObj b) row))"
  using assms touched_fields [where now = now and row = "dset ''annotations'' (JObj b) row"]
  by (auto simp: occ_evolves_def touched_frozen frozen_dset not_frozen str_at_def int_at_def get_or_dset obj_or_empty_def [of "JObj _"])

lemma quarantine_keeps: "keeps_occurrence zones sha key (quarantine_mutate zones sha key count now)"
proof -
  have e: "occ_evolves row (touched now (dset ''annotations'' (JObj (dset ''all_targets_quarantined'' (JInt count) (obj_at row ''annotations''))) row))"
    if "quarantined_count row = JNull" for row
    by (rule annotated_evolves [OF refl]) (use that in \<open>simp_all add: get_or_dset\<close>)
  show ?thesis unfolding keeps_occurrence_def
  proof (intro allI impI)
    fix old u
    assume f: "quarantine_mutate zones sha key count now old = Inr u"
      and ok: "\<forall>v. old = Some v \<longrightarrow> row_ok (occs_cfg zones sha) (key, v)"
    then show "\<exists>w. u = Put w \<and> row_ok (occs_cfg zones sha) (key, w) \<and> (\<forall>v. old = Some v \<longrightarrow> occ_evolves (obj_or_empty v) (obj_or_empty w))"
      using e by (cases old) (auto simp: quarantine_mutate_def Let_def checked_put_Inr occ_evolves_refl obj_or_empty_def [of "JObj _"] split: if_splits)
  qed
qed

lemma wave_keeps: "keeps_occurrence zones sha key (wave_mutate zones sha key wave now)"
proof -
  have e: "occ_evolves row (touched now (dset ''annotations'' (JObj (dset ''wave'' (JObj wave) (obj_at row ''annotations''))) row))"
    if "wave_gate row = JStr ''open'' \<longrightarrow> jget wave ''gate'' = JStr ''open''" for row
    by (rule annotated_evolves [OF refl]) (use that in \<open>simp_all add: get_or_dset obj_or_empty_def [of "JObj _"]\<close>)
  have none: "jget (obj_or_empty JNull) k = JNull" for k by (simp add: obj_or_empty_def get_or_def)
  show ?thesis unfolding keeps_occurrence_def
  proof (intro allI impI)
    fix old u
    assume f: "wave_mutate zones sha key wave now old = Inr u"
      and ok: "\<forall>v. old = Some v \<longrightarrow> row_ok (occs_cfg zones sha) (key, v)"
    then show "\<exists>w. u = Put w \<and> row_ok (occs_cfg zones sha) (key, w) \<and> (\<forall>v. old = Some v \<longrightarrow> occ_evolves (obj_or_empty v) (obj_or_empty w))"
      using e none by (cases old) (auto simp: wave_mutate_def Let_def checked_put_Inr occ_evolves_refl obj_or_empty_def [of "JObj _"] split: if_splits)
  qed
qed

lemma new_occurrence_ok: "new_occurrence zones sha key schedule slot target now = Inr w \<Longrightarrow> row_ok (occs_cfg zones sha) (key, w)"
  by (auto simp: new_occurrence_def Let_def rbind_eq_Inr occurrence_row_ok split: if_splits)

lemma create_keeps: "keeps_occurrence zones sha key (\<lambda>old. case old of
     Some v \<Rightarrow> Inr (Put v) | None \<Rightarrow> rbind (new_occurrence zones sha key schedule d target t) (\<lambda>row. Inr (Put row)))"
  by (auto simp: keeps_occurrence_def rbind_eq_Inr occ_evolves_refl new_occurrence_ok split: option.splits)

section \<open>The calls\<close>

definition occ_grows :: "zones \<Rightarrow> digest \<Rightarrow> kstore \<Rightarrow> kstore \<Rightarrow> bool" where
  \<comment> \<open>no occurrence is lost, and each became what it may become\<close>
  "occ_grows zones sha s s' \<longleftrightarrow> fresh_ok (occs_cfg zones sha) s' \<and>
     (\<forall>k v. view (occs_cfg zones sha) s k = Some v \<longrightarrow>
        (\<exists>w. view (occs_cfg zones sha) s' k = Some w \<and> occ_evolves (obj_or_empty v) (obj_or_empty w)))"

lemma occ_grows_trans: "occ_grows zones sha s s' \<Longrightarrow> occ_grows zones sha s' s'' \<Longrightarrow> occ_grows zones sha s s''"
  unfolding occ_grows_def by (meson occ_evolves_trans)

lemma occ_grows_same: "fresh_ok (occs_cfg zones sha) s' \<Longrightarrow> view (occs_cfg zones sha) s' = view (occs_cfg zones sha) s \<Longrightarrow> occ_grows zones sha s s'"
  by (simp add: occ_grows_def occ_evolves_refl)

lemma change_grows:
  assumes ok: "fresh_ok (occs_cfg zones sha) s" and keep: "keeps_occurrence zones sha key fn"
    and c: "change_row (occs_cfg zones sha) io key fn s = (s', r)"
  shows "occ_grows zones sha s s'"
proof -
  let ?cfg = "occs_cfg zones sha"
  have l: "\<forall>old v. old_row ?cfg s key old \<and> fn old = Inr (Put v) \<and> v \<noteq> JNull \<longrightarrow> row_ok ?cfg (key, v)"
    by (auto elim!: keeps_occurrenceD [OF keep])
  from change_row_view [OF occs_cfg_ok ok c l] obtain old where o: "fresh_ok ?cfg s'" "old_row ?cfg s key old" and
    r: "view ?cfg s' = view ?cfg s \<or> (\<exists>u. fn old = Inr u \<and> view ?cfg s' = apply_upd key (returned u) (view ?cfg s))" by blast
  show ?thesis
    using r
  proof (elim disjE exE conjE)
    assume "view ?cfg s' = view ?cfg s"
    with o show ?thesis by (simp add: occ_grows_same)
  next
    fix u assume u: "fn old = Inr u" "view ?cfg s' = apply_upd key (returned u) (view ?cfg s)"
    obtain x where x: "u = Put x" "row_ok ?cfg (key, x)"
      "\<forall>v. old = Some v \<longrightarrow> occ_evolves (obj_or_empty v) (obj_or_empty x)" by (rule keeps_occurrenceD [OF keep u(1) o(2)])
    then have "returned u = Put x" by (auto simp: returned_def occurrence_row_ok)
    with u(2) x(3) o show ?thesis
      by (auto simp: occ_grows_def occ_evolves_refl occ_evolves_canon old_row_def)
  qed
qed

lemma occurrence_change_grows:
  assumes "fresh_ok (occs_cfg zones sha) s" "\<And>key t. keeps_occurrence zones sha key (mutate_row key t)"
    and "occurrence_change zones sha io identifier now mutate_row s = (s', r)"
  shows "occ_grows zones sha s s'"
  using assms change_grows [OF assms(1,2)]
  by (auto simp: occurrence_change_def occ_grows_same split: sum.splits prod.splits)

lemma create_grows:
  assumes "fresh_ok (occs_cfg zones sha) s" "create_occurrence zones sha io schedule slot target now s = (s', r)"
  shows "occ_grows zones sha s s'"
  using assms change_grows [OF assms(1) create_keeps]
  by (auto simp: create_occurrence_def occ_grows_same split: sum.splits prod.splits)

lemma transition_grows:
  assumes "fresh_ok (occs_cfg zones sha) s" "transition_occurrence zones sha io identifier state now expected s = (s', r)"
  shows "occ_grows zones sha s s'"
  by (rule occurrence_change_grows [OF assms(1) transition_keeps assms(2) [unfolded transition_occurrence_def]])

lemma quarantine_grows:
  assumes "fresh_ok (occs_cfg zones sha) s" "annotate_quarantined zones sha io identifier count now s = (s', r)"
  shows "occ_grows zones sha s s'"
  using assms occurrence_change_grows [OF assms(1) quarantine_keeps]
  by (auto simp: annotate_quarantined_def occ_grows_same split: sum.splits)

lemma wave_grows:
  assumes "fresh_ok (occs_cfg zones sha) s" "annotate_wave zones sha io identifier wave now s = (s', r)"
  shows "occ_grows zones sha s s'"
  using assms occurrence_change_grows [OF assms(1) wave_keeps]
  by (auto simp: annotate_wave_def occ_grows_same split: sum.splits)

lemma list_grows:
  assumes "fresh_ok (occs_cfg zones sha) s" "list_occurrences zones sha io sid s = (s', r)"
  shows "occ_grows zones sha s s'"
  using assms snapshot_fresh [OF occs_cfg_ok assms(1)]
  by (fastforce simp: list_occurrences_def occ_grows_same split: sum.splits prod.splits if_splits)

lemma get_grows:
  assumes "fresh_ok (occs_cfg zones sha) s" "get_occurrence zones sha io identifier s = (s', r)"
  shows "occ_grows zones sha s s'"
  using assms sread_fresh [OF occs_cfg_ok assms(1)]
  by (auto simp: get_occurrence_def occ_grows_same split: sum.splits)

lemma recover_rows_grows:
  assumes "fresh_ok (occs_cfg zones sha) s" "recover_rows zones sha io now rows s = (s', r)"
  shows "occ_grows zones sha s s'"
  using assms
proof (induction zones sha io now rows s arbitrary: s' r rule: recover_rows.induct)
  case (1 zones sha io now s)
  then show ?case by (simp add: occ_grows_same)
next
  case (2 zones sha io now row rest s)
  show ?case
  proof (cases "jget row ''state'' = JStr ''running''")
    case False
    with 2 show ?thesis by simp
  next
    case True
    obtain s1 q where t: "transition_occurrence zones sha (io (str_at row ''id'')) (jget row ''id'') (JStr ''interrupted'') now (Some ''running'') s = (s1, q)"
      by (metis surj_pair)
    note g = transition_grows [OF "2.prems"(1) t]
    then have ok: "fresh_ok (occs_cfg zones sha) s1" by (simp add: occ_grows_def)
    show ?thesis
      using "2.IH"(2,3) [OF _ t [symmetric]] "2.prems"(2) True t g ok occ_grows_trans
      by (auto split: sum.splits prod.splits if_splits)
  qed
qed

inductive occ_step :: "zones \<Rightarrow> digest \<Rightarrow> kstore \<Rightarrow> kstore \<Rightarrow> bool" for zones sha where
  create: "create_occurrence zones sha io schedule slot target now s = (s', r) \<Longrightarrow> occ_step zones sha s s'"
| transition: "transition_occurrence zones sha io identifier state now expected s = (s', r) \<Longrightarrow> occ_step zones sha s s'"
| quarantine: "annotate_quarantined zones sha io identifier count now s = (s', r) \<Longrightarrow> occ_step zones sha s s'"
| wave: "annotate_wave zones sha io identifier w now s = (s', r) \<Longrightarrow> occ_step zones sha s s'"
| recover: "recover_interrupted zones sha io io' now s = (s', ids) \<Longrightarrow> occ_step zones sha s s'"
| read: "get_occurrence zones sha io identifier s = (s', q) \<Longrightarrow> occ_step zones sha s s'"
| scan: "list_occurrences zones sha io sid s = (s', rows) \<Longrightarrow> occ_step zones sha s s'"
| restart: "occ_step zones sha s (s\<lparr>migrated := False\<rparr>)"

lemma occ_step_grows:
  assumes "occ_step zones sha s s'" "fresh_ok (occs_cfg zones sha) s"
  shows "occ_grows zones sha s s'"
  using assms
proof cases
  case (recover io io' now ids)
  obtain s1 q where l: "list_occurrences zones sha io None s = (s1, q)" by (metis surj_pair)
  note g = list_grows [OF assms(2) l]
  then have "fresh_ok (occs_cfg zones sha) s1" by (simp add: occ_grows_def)
  then show ?thesis using recover l g recover_rows_grows occ_grows_trans
    by (cases q) (auto simp: recover_interrupted_def)
next
  case restart
  with assms(2) restart_fresh show ?thesis by (simp add: occ_grows_same)
qed (use assms(2) in \<open>auto dest: create_grows transition_grows quarantine_grows wave_grows get_grows list_grows\<close>)

lemma occ_run_grows:
  assumes "(occ_step zones sha)\<^sup>*\<^sup>* s s'" "fresh_ok (occs_cfg zones sha) s"
  shows "occ_grows zones sha s s'"
  using assms(1)
proof (induction rule: rtranclp_induct)
  case base
  from assms(2) show ?case by (simp add: occ_grows_same)
next
  case (step a b)
  then have "fresh_ok (occs_cfg zones sha) a" by (simp add: occ_grows_def)
  with step occ_step_grows occ_grows_trans show ?case by blast
qed

section \<open>What a reader sees\<close>

lemma get_occurrence_row:
  assumes "fresh_ok (occs_cfg zones sha) s" "get_occurrence zones sha io identifier s = (s', Inr x)"
  shows "\<exists>k. identifier = JStr k \<and> old_row (occs_cfg zones sha) s k x"
  using assms sread_fresh [OF occs_cfg_ok assms(1)]
  by (fastforce simp: get_occurrence_def str_where_Inr split: sum.splits)

lemma terminal_stays: "moves_to\<^sup>*\<^sup>* a b \<Longrightarrow> transitions a = [] \<Longrightarrow> b = a"
  by (induction rule: converse_rtranclp_induct) auto

text \<open>
  C37.  An occurrence is evidence.  Once a read found it, every later read finds it, whatever calls and restarts
  ran in between and whatever writes were refused: the schedule, slot and targets it was claimed with are as
  they were, its state is one the table of transitions leads to, and the same one if it was final, the count
  of quarantined targets is not revised, and a wave gate that was open is open.
\<close>

theorem occurrence_is_evidence:
  assumes "fresh_ok (occs_cfg zones sha) s1" "(occ_step zones sha)\<^sup>*\<^sup>* s1 s2"
    and "get_occurrence zones sha io identifier s1 = (s1', Inr (Some v))" "get_occurrence zones sha io' identifier s2 = (s2', Inr r)"
  shows "\<exists>w. r = Some w \<and> occ_evolves (obj_or_empty v) (obj_or_empty w) \<and>
    (transitions (str_at (obj_or_empty v) ''state'') = [] \<longrightarrow> str_at (obj_or_empty w) ''state'' = str_at (obj_or_empty v) ''state'')"
proof -
  let ?cfg = "occs_cfg zones sha"
  from get_occurrence_row [OF assms(1,3)] obtain k where k: "identifier = JStr k" "view ?cfg s1 k = Some (canon v)"
    using old_row_Some by blast
  from occ_run_grows [OF assms(2,1)] k(2) obtain x where
    x: "fresh_ok ?cfg s2" "view ?cfg s2 k = Some x" "occ_evolves (obj_or_empty v) (obj_or_empty x)"
    unfolding occ_grows_def using occ_evolves_canon(1) by blast
  from get_occurrence_row [OF x(1) assms(4)] k(1) x(2) obtain w where w: "r = Some w" "canon w = x"
    by (cases r) (auto simp: old_row_def)
  with x(3) have e: "occ_evolves (obj_or_empty v) (obj_or_empty w)" using occ_evolves_canon(2) by blast
  moreover have "str_at (obj_or_empty w) ''state'' = str_at (obj_or_empty v) ''state''"
    if "transitions (str_at (obj_or_empty v) ''state'') = []" using e that terminal_stays unfolding occ_evolves_def by blast
  ultimately show ?thesis using w(1) by blast
qed

section \<open>A concrete occurrence\<close>

definition demo_sha :: digest where
  "demo_sha _ = replicate 64 CHR ''b''"

definition demo_slot :: obj where
  "demo_slot = [(''scheduled_at'', JInt 1774000000), (''window_end'', JInt 1774003600), (''status'', JStr ''due''),
     (''resolution'', JStr ''normal''), (''tz'', JStr ''Europe/Berlin''), (''local_time'', JStr ''2026-03-20T10:46:40''), (''next_at'', JNull)]"

definition demo_occurrence :: obj where
  "demo_occurrence = [(''id'', JStr (replicate 32 CHR ''b'')), (''schedule_id'', JStr ''s1''), (''schedule_generation'', JStr (replicate 32 CHR ''a'')),
     (''schedule_rev'', JInt 1), (''schedule'', JObj demo_row), (''actor'', JStr ''schedule:s1''),
     (''slot'', JObj demo_slot), (''scheduled_at'', JInt 1774000000), (''window_end'', JInt 1774003600),
     (''state'', JStr ''pending''), (''preview'', demo_preview), (''created_at'', JInt 1774000001), (''updated_at'', JInt 1774000001),
     (''target_snapshot'', demo_preview), (''delta'', JObj [(''added'', JInt 0), (''removed'', JInt 0)])]"

lemma demo_local_time: "text_ok 64 False ''2026-03-20T10:46:40''"
  by code_simp

lemma demo_slot_ok: "validate_slot (JObj demo_slot) = Inr demo_slot"
  by (simp add: validate_slot_def demo_slot_def evaluates slot_keys_def demo_local_time)

lemma demo_snapshots: "obj_at row k = obj_at row j \<Longrightarrow> id_set row k = id_set row j"
  by (simp add: id_set_def)

lemma demo_occ_fields:
  "object_of (occurrence_keys @ [''target_snapshot'', ''delta'', ''annotations'']) occurrence_keys (JObj demo_occurrence) = Inr demo_occurrence"
  "jget demo_occurrence ''schedule_id'' = JStr ''s1''" "jget demo_occurrence ''schedule'' = JObj demo_row"
  "jget demo_occurrence ''id'' = JStr (replicate 32 CHR ''b'')" "jget demo_occurrence ''scheduled_at'' = JInt 1774000000"
  "jget demo_occurrence ''schedule_generation'' = JStr (replicate 32 CHR ''a'')" "jget demo_occurrence ''schedule_rev'' = JInt 1"
  "jget demo_occurrence ''actor'' = JStr ''schedule:s1''" "jget demo_occurrence ''slot'' = JObj demo_slot"
  "jget demo_occurrence ''window_end'' = JInt 1774003600" "jget demo_occurrence ''state'' = JStr ''pending''"
  "jget demo_occurrence ''preview'' = demo_preview" "jget demo_occurrence ''created_at'' = JInt 1774000001"
  "jget demo_occurrence ''updated_at'' = JInt 1774000001" "dget demo_occurrence ''annotations'' = None"
  "jget demo_occurrence ''target_snapshot'' = demo_preview" "has_key demo_occurrence ''target_snapshot''" "has_key demo_occurrence ''delta''"
  "jget demo_occurrence ''delta'' = JObj [(''added'', JInt 0), (''removed'', JInt 0)]"
  "jget demo_slot ''scheduled_at'' = JInt 1774000000" "jget demo_slot ''window_end'' = JInt 1774003600"
  by (simp_all add: demo_occurrence_def demo_slot_def object_of_def occurrence_keys_def get_or_def has_key_def)

lemma demo_hex: "hex32_ok (replicate 32 CHR ''b'')"
  by (simp add: hex32_ok_def list_all_iff)

lemma demo_occurrence_id: "occurrence_id demo_sha demo_row (JInt 1774000000) = Inr (replicate 32 CHR ''b'')"
  by (simp add: occurrence_id_def demo_fields demo_ids str_where_def integer_of_def MAX_EPOCH_def demo_sha_def)

lemma demo_bound: "validate_bound demo_occurrence = Inr ()"
  by (simp add: validate_bound_def demo_occ_fields demo_previews demo_snapshots [of demo_occurrence "''target_snapshot''" "''preview''"])
     (simp add: object_of_def get_or_def integer_of_def MAX_TARGETS_def)

lemma demo_occurrence_valid: "validate_occurrence demo_zones demo_sha (replicate 32 CHR ''b'') (JObj demo_occurrence) = Inr ()"
  unfolding validate_occurrence_def demo_occ_fields(1) rbind_Inr Let_def
  by (simp only: demo_occ_fields obj_or_empty_def as_obj.simps option.case demo_occurrence_id)
     (simp add: demo_hex str_where_def demo_ids demo_valid demo_fields demo_slot_ok demo_occ_fields demo_previews integer_of_def MAX_EPOCH_def
       occurrence_states_def demo_bound)

lemma demo_new_occurrence:
  "new_occurrence demo_zones demo_sha (replicate 32 CHR ''b'') demo_row demo_slot demo_preview 1774000001 = Inr (JObj demo_occurrence)"
proof -
  let ?p = "obj_or_empty demo_preview"
  have p: "JObj ?p = demo_preview" by (simp add: demo_preview_def obj_or_empty_def)
  have s: "dset ''status'' (JStr ''due'') demo_slot = demo_slot" "int_at demo_slot ''window_end'' = 1774003600" "int_at demo_slot ''scheduled_at'' = 1774000000"
    by (simp_all add: demo_slot_def int_at_def get_or_def)
  have late: "jget (obj_at demo_row ''target'') ''bind'' = JStr ''late''"
    by (simp add: demo_row_def demo_normal_def get_or_def obj_or_empty_def)
  have sid: "str_at demo_row ''id'' = ''s1''" by (simp add: str_at_def demo_fields)
  have "id_set [(''preview'', demo_preview), (''target_snapshot'', demo_preview)] ''target_snapshot'' =
      id_set [(''preview'', demo_preview), (''target_snapshot'', demo_preview)] ''preview''"
    by (rule demo_snapshots) (simp add: get_or_def)
  then have b: "bound_targets demo_row demo_preview ?p =
      Inr [(''target_snapshot'', demo_preview), (''delta'', JObj [(''added'', JInt 0), (''removed'', JInt 0)])]"
    by (simp add: bound_targets_def demo_previews late Let_def p)
  show ?thesis unfolding new_occurrence_def Let_def demo_fields demo_previews rbind_Inr
    using demo_occurrence_valid by (simp add: s sid p b demo_occ_fields demo_occurrence_def)
qed

definition demo_claimed :: kstore where
  "demo_claimed = fst (create_occurrence demo_zones demo_sha no_faults demo_row (JObj demo_slot) demo_preview (JInt 1774000001) empty_store)"

definition demo_run_on :: kstore where
  "demo_run_on = fst (transition_occurrence demo_zones demo_sha no_faults (JStr (replicate 32 CHR ''b'')) (JStr ''running'') (JInt 1774000002) None demo_claimed)"

lemma demo_claimed_row: "view (occs_cfg demo_zones demo_sha) demo_claimed (replicate 32 CHR ''b'') = Some (canon (JObj demo_occurrence))"
proof -
  let ?cfg = "occs_cfg demo_zones demo_sha" and ?k = "replicate 32 CHR ''b''"
  let ?fn = "\<lambda>old. case old of Some v \<Rightarrow> Inr (Put v)
      | None \<Rightarrow> rbind (new_occurrence demo_zones demo_sha ?k demo_row demo_slot demo_preview 1774000001) (\<lambda>row. Inr (Put row))"
  obtain s r where c: "change_row ?cfg no_faults ?k ?fn empty_store = (s, r)" by (metis surj_pair)
  have s: "demo_claimed = s"
    using c by (simp add: demo_claimed_def create_occurrence_def demo_fields has_key_def str_at_def demo_valid demo_slot_ok integer_of_def
        MAX_EPOCH_def demo_occ_fields demo_occurrence_id) (simp add: demo_row_def)
  have l: "\<forall>old v. old_row ?cfg empty_store ?k old \<and> ?fn old = Inr (Put v) \<and> v \<noteq> JNull \<longrightarrow> row_ok ?cfg (?k, v)"
    using create_keeps [of demo_zones demo_sha ?k demo_row demo_slot demo_preview 1774000001] by (auto elim!: keeps_occurrenceD)
  from change_row_fresh [OF occs_cfg_ok empty_fresh c l] show ?thesis
    by (auto simp: s old_row_None empty_view old_row_def demo_new_occurrence returned_def split: sum.splits)
qed

theorem occurrence_is_evidence_witness:
  "\<exists>v w s s'. get_occurrence demo_zones demo_sha no_faults (JStr (replicate 32 CHR ''b'')) demo_claimed = (s, Inr (Some v)) \<and>
     get_occurrence demo_zones demo_sha no_faults (JStr (replicate 32 CHR ''b'')) demo_run_on = (s', Inr (Some w)) \<and>
     occ_evolves (obj_or_empty v) (obj_or_empty w)"
proof -
  let ?cfg = "occs_cfg demo_zones demo_sha" and ?k = "replicate 32 CHR ''b''"
  have ok: "fresh_ok ?cfg demo_claimed"
    using create_grows [OF empty_fresh prod.collapse [symmetric]] unfolding demo_claimed_def by (simp add: occ_grows_def)
  have run: "(occ_step demo_zones demo_sha)\<^sup>*\<^sup>* demo_claimed demo_run_on"
    unfolding demo_run_on_def by (rule r_into_rtranclp) (rule occ_step.transition [OF prod.collapse [symmetric]])
  have ok2: "fresh_ok ?cfg demo_run_on" using occ_run_grows [OF run ok] by (simp add: occ_grows_def)
  have rd: "\<exists>s' x. get_occurrence demo_zones demo_sha no_faults (JStr ?k) s = (s', Inr x) \<and> map_option canon x = view ?cfg s ?k"
    if "fresh_ok ?cfg s" for s
    by (rule sread_total [OF occs_cfg_ok that, of no_faults ?k]) (auto simp: get_occurrence_def str_where_def demo_hex old_row_def)
  from rd [OF ok] demo_claimed_row obtain s v where g: "get_occurrence demo_zones demo_sha no_faults (JStr ?k) demo_claimed = (s, Inr (Some v))" by auto
  from rd [OF ok2] obtain s' x where g': "get_occurrence demo_zones demo_sha no_faults (JStr ?k) demo_run_on = (s', Inr x)" by blast
  from occurrence_is_evidence [OF ok run g g'] g g' show ?thesis by blast
qed

end
