(* ===== verification/Schedule_Claims.thy ===== *)
theory Schedule_Claims
  imports Occurrence_History
begin

text \<open>
  Claims: a claim writes an occurrence and then the progress of its schedule, and can stop between the two.
  It refines a transaction on the two maps of rows; the same claim made again completes what a refused write
  left undone.
\<close>

section \<open>Exact reads\<close>

lemma shard_get_cong: "shard_files s1 = shard_files s \<Longrightarrow> shard_get cfg s1 k = shard_get cfg s k"
  using read_shard_cong [of s1 _ s cfg] by (simp add: shard_get_def rows_of_def)

lemma get_exact:
  assumes "fresh_ok cfg s"
  obtains s1 where "get cfg io key s = (s1, Inr (shard_get cfg s key))" "shard_files s1 = shard_files s"
proof -
  have wf: "store_wf cfg s" and leg: "legacy s = Missing" using assms by (auto simp: fresh_ok_def)
  obtain s1 where s1: "ensure_migrated cfg io s = (s1, Inr ())" "shard_files s1 = shard_files s"
    by (rule ensure_migrated_none [OF leg, of cfg io])
  have "read_shard cfg s1 b = Inr (rows_of cfg s b)" for b
    using read_shard_cong [of s1 b s cfg] s1(2) store_wf_read [OF wf] by simp
  with s1 that show ?thesis by (simp add: get_def kbind_Inr row_get_shard [OF wf])
qed

lemma update_keep:
  assumes "fresh_ok cfg s"
  obtains s1 where "update cfg io key (\<lambda>_. Inr Keep) s = (s1, Inr Keep)" "shard_files s1 = shard_files s"
proof -
  have wf: "store_wf cfg s" and leg: "legacy s = Missing" using assms by (auto simp: fresh_ok_def)
  obtain s1 where s1: "ensure_migrated cfg io s = (s1, Inr ())" "shard_files s1 = shard_files s"
    by (rule ensure_migrated_none [OF leg, of cfg io])
  have "read_shard cfg s1 b = Inr (rows_of cfg s b)" for b
    using read_shard_cong [of s1 b s cfg] s1(2) store_wf_read [OF wf] by simp
  with s1 that show ?thesis by (simp add: update_def kbind_Inr Let_def lift_res_def returned_def)
qed

lemma transact_keep:
  assumes ok: "config_ok cfg" "fresh_ok cfg s" and f: "fn c (shard_get cfg s key) = (c', q)" "\<forall>u. q = Inr u \<longrightarrow> u = Keep"
  obtains s' where "transact cfg io key fn c s = (s', c', q)" "shard_files s' = shard_files s"
proof -
  obtain s1 where g: "get cfg io key s = (s1, Inr (shard_get cfg s key))" "shard_files s1 = shard_files s"
    by (rule get_exact [OF ok(2)])
  from get_fresh [OF ok g(1)] have "fresh_ok cfg s1" by blast
  then obtain s2 where u: "update cfg io key (\<lambda>_. Inr Keep) s1 = (s2, Inr Keep)" "shard_files s2 = shard_files s1"
    by (rule update_keep)
  show ?thesis
  proof (cases q)
    case (Inl e)
    with g f(1) show ?thesis by (intro that [of s1]) (simp_all add: transact_def)
  next
    case (Inr x)
    with f(2) have "q = Inr Keep" by simp
    with g f(1) u show ?thesis by (intro that [of s2]) (simp_all add: transact_def)
  qed
qed

section \<open>The target\<close>

definition frozen_claim :: "zones \<Rightarrow> digest \<Rightarrow> obj \<Rightarrow> obj \<Rightarrow> json \<Rightarrow> json \<Rightarrow> string \<Rightarrow> json sc" where
  \<comment> \<open>the row of a new occurrence\<close>
  "frozen_claim zones sha row slot target now key =
     rbind (slot_current zones row slot) (\<lambda>_.
     rbind (if has_key row ''id'' then validate_schedule zones (str_at row ''id'') (JObj row) else Inl (PyError KeyError)) (\<lambda>_.
     rbind (validate_slot (JObj slot)) (\<lambda>d.
     rbind (integer_of now 0 MAX_EPOCH) (\<lambda>t. new_occurrence zones sha key row d target t))))"

definition target_spec :: "zones \<Rightarrow> digest \<Rightarrow> obj \<Rightarrow> obj \<Rightarrow> json \<Rightarrow> json \<Rightarrow> (string \<Rightarrow> json option) \<Rightarrow> (string \<times> json) sc" where
  \<comment> \<open>the occurrence of the slot: the one there is, or a new one\<close>
  "target_spec zones sha row slot target now m =
     rbind (occurrence_id sha row (jget slot ''scheduled_at'')) (\<lambda>key.
     if \<not> hex32_ok key then Inl Invalid
     else case m key of
            Some v \<Rightarrow> Inr (key, v)
          | None \<Rightarrow> rbind (frozen_claim zones sha row slot target now key) (\<lambda>w. Inr (key, canon w)))"

lemma validate_slot_Inr: "validate_slot v = Inr d \<Longrightarrow> v = JObj d"
  by (auto simp: validate_slot_def rbind_eq_Inr object_of_Inr split: if_splits)

lemma create_claimed:
  assumes ok: "fresh_ok (occs_cfg zones sha) s" and k: "occurrence_id sha row (jget slot ''scheduled_at'') = Inr key"
    and none: "view (occs_cfg zones sha) s key = None" and cur: "slot_current zones row slot = Inr ()"
    and c: "create_occurrence zones sha io row (JObj slot) target now s = (s', r)"
  shows "fresh_ok (occs_cfg zones sha) s' \<and>
    (case frozen_claim zones sha row slot target now key of
       Inl e \<Rightarrow> r = Inl e \<and> view (occs_cfg zones sha) s' = view (occs_cfg zones sha) s
     | Inr w \<Rightarrow> r = Inr w \<and> view (occs_cfg zones sha) s' = (view (occs_cfg zones sha) s)(key := Some (canon w)) \<or>
         r = Inl WriteRefused \<and> \<not> (\<forall>b. shard_ok io b) \<and>
           view (occs_cfg zones sha) s' \<in> {view (occs_cfg zones sha) s, (view (occs_cfg zones sha) s)(key := Some (canon w))})"
proof -
  let ?cfg = "occs_cfg zones sha"
  let ?pre = "rbind (if has_key row ''id'' then validate_schedule zones (str_at row ''id'') (JObj row) else Inl (PyError KeyError)) (\<lambda>_.
             rbind (validate_slot (JObj slot)) (\<lambda>d. rbind (integer_of now 0 MAX_EPOCH) (\<lambda>t.
             rbind (occurrence_id sha row (jget d ''scheduled_at'')) (\<lambda>key. Inr (d, t, key)))))"
  show ?thesis
  proof (cases ?pre)
    case (Inl e)
    then have "frozen_claim zones sha row slot target now key = Inl e"
      using k cur by (auto simp: frozen_claim_def rbind_eq_Inl dest: validate_slot_Inr)
    moreover have "s' = s" "r = Inl e" using Inl c by (simp_all add: create_occurrence_def)
    ultimately show ?thesis using ok by simp
  next
    case (Inr x)
    then obtain u d t key' where d: "(if has_key row ''id'' then validate_schedule zones (str_at row ''id'') (JObj row) else Inl (PyError KeyError)) = Inr u"
      "validate_slot (JObj slot) = Inr d" "integer_of now 0 MAX_EPOCH = Inr t" "occurrence_id sha row (jget d ''scheduled_at'') = Inr key'" "x = (d, t, key')"
      unfolding rbind_eq_Inr by blast
    have "d = slot" using validate_slot_Inr [OF d(2)] by simp
    with d k have x: "x = (slot, t, key)" by simp
    have f: "frozen_claim zones sha row slot target now key = new_occurrence zones sha key row slot target t"
      using d(2) \<open>d = slot\<close> by (simp only: frozen_claim_def cur d(1,3) rbind_Inr)
    let ?fn = "\<lambda>old. case old of Some v \<Rightarrow> Inr (Put v)
      | None \<Rightarrow> rbind (new_occurrence zones sha key row slot target t) (\<lambda>row. Inr (Put row))"
    obtain q where ch: "change_row ?cfg io key ?fn s = (s', q)" and r: "r = written q"
      using c Inr x by (auto simp: create_occurrence_def split: prod.splits)
    have l: "\<forall>old v. old_row ?cfg s key old \<and> ?fn old = Inr (Put v) \<and> v \<noteq> JNull \<longrightarrow> row_ok ?cfg (key, v)"
      by (auto elim!: keeps_occurrenceD [OF create_keeps])
    from change_row_fresh [OF occs_cfg_ok ok ch l] obtain old where o: "fresh_ok ?cfg s'" "old_row ?cfg s key old" and
      q: "case q of Inl e \<Rightarrow> ?fn old = Inl e \<and> view ?cfg s' = view ?cfg s \<or> e = WriteRefused \<and> \<not> (\<forall>b. shard_ok io b) \<and>
            (\<exists>u. ?fn old = Inr u \<and> (view ?cfg s' = view ?cfg s \<or> view ?cfg s' = apply_upd key (returned u) (view ?cfg s)))
        | Inr w \<Rightarrow> \<exists>u. ?fn old = Inr u \<and> w = returned u \<and> view ?cfg s' = apply_upd key w (view ?cfg s)" by blast
    have old: "old = None" using o(2) none by (cases old) (auto simp: old_row_def)
    show ?thesis
    proof (cases "new_occurrence zones sha key row slot target t")
      case (Inl e)
      with q old o(1) r f show ?thesis by (cases q) (auto simp: written_def)
    next
      case (Inr w)
      then have "w \<noteq> JNull" using new_occurrence_ok occurrence_row_ok by blast
      with Inr q old o(1) r f show ?thesis by (cases q) (auto simp: written_def returned_def)
    qed
  qed
qed

lemma claim_target_fresh:
  assumes ok: "fresh_ok (occs_cfg zones sha) s" and c: "claim_target zones sha io row slot target now s = (s', r)"
  shows "fresh_ok (occs_cfg zones sha) s' \<and>
    (case target_spec zones sha row slot target now (view (occs_cfg zones sha) s) of
       Inl e \<Rightarrow> r = Inl e \<and> view (occs_cfg zones sha) s' = view (occs_cfg zones sha) s
     | Inr (key, v) \<Rightarrow>
         (\<exists>w. r = Inr w \<and> canon w = v) \<and> view (occs_cfg zones sha) s' = (view (occs_cfg zones sha) s)(key := Some v) \<or>
         r = Inl WriteRefused \<and> \<not> (\<forall>b. shard_ok io b) \<and>
           view (occs_cfg zones sha) s' \<in> {view (occs_cfg zones sha) s, (view (occs_cfg zones sha) s)(key := Some v)})"
proof (cases "occurrence_id sha row (jget slot ''scheduled_at'')")
  case (Inl e)
  with ok c show ?thesis by (simp add: claim_target_def target_spec_def)
next
  case (Inr key)
  let ?cfg = "occs_cfg zones sha"
  show ?thesis
  proof (cases "hex32_ok key")
    case False
    with Inr ok c show ?thesis by (simp add: claim_target_def target_spec_def get_occurrence_def str_where_def)
  next
    case True
    obtain s1 x where g: "sread ?cfg io key s = (s1, Inr x)" "fresh_ok ?cfg s1" "view ?cfg s1 = view ?cfg s" "old_row ?cfg s key x"
      by (rule sread_total [OF occs_cfg_ok ok])
    show ?thesis
    proof (cases x)
      case (Some v)
      with g(4) old_row_Some have "view ?cfg s key = Some (canon v)" by blast
      with Some True Inr g c show ?thesis
        by (auto simp: claim_target_def target_spec_def get_occurrence_def str_where_def)
    next
      case None
      with g(4) have none: "view ?cfg s key = None" by (simp add: old_row_None)
      show ?thesis
      proof (cases "slot_current zones row slot")
        case (Inl e)
        with None none True Inr g c show ?thesis
          by (auto simp: claim_target_def target_spec_def get_occurrence_def str_where_def frozen_claim_def)
      next
        case cur: (Inr u)
        have "create_occurrence zones sha io row (JObj slot) target now s1 = (s', r)"
          using None True Inr g c cur by (simp add: claim_target_def get_occurrence_def str_where_def)
        from create_claimed [OF g(2) Inr _ _ this] none g(3) cur show ?thesis
          by (cases "frozen_claim zones sha row slot target now key") (auto simp: target_spec_def Inr True)
      qed
    qed
  qed
qed

section \<open>The progress\<close>

definition progress_spec :: "string \<Rightarrow> obj \<Rightarrow> obj \<Rightarrow> string \<Rightarrow> (string \<Rightarrow> json option) \<Rightarrow> (string \<Rightarrow> json option) sc" where
  \<comment> \<open>the cursor of the schedule moves to the slot unless it is past it\<close>
  "progress_spec sid row slot key pm =
     (let candidate = JObj [(''generation'', jget row ''generation''), (''last_slot'', jget slot ''scheduled_at''),
                            (''active_occurrence_id'', JStr key)];
          behind = (case pm sid of None \<Rightarrow> True
            | Some p \<Rightarrow> jget (obj_or_empty p) ''generation'' \<noteq> jget row ''generation'' \<or>
                int_at (obj_or_empty p) ''last_slot'' \<le> int_at slot ''scheduled_at'')
      in if \<not> behind then Inr pm
         else rbind (validate_progress sid candidate) (\<lambda>_. Inr (pm(sid := Some (canon candidate)))))"

lemma advance_fresh:
  assumes ok: "fresh_ok progress_cfg s" and id: "jget (obj_or_empty w) ''id'' = JStr key" and g: "jget row ''generation'' = JStr g"
    and a: "advance_progress io sid row slot w s = (s', r)"
  shows "fresh_ok progress_cfg s' \<and>
    (case progress_spec sid row slot key (view progress_cfg s) of
       Inl e \<Rightarrow> r = Inl e \<and> view progress_cfg s' = view progress_cfg s
     | Inr pm \<Rightarrow> r = Inr () \<and> view progress_cfg s' = pm \<or>
         r = Inl WriteRefused \<and> \<not> (\<forall>b. shard_ok io b) \<and> view progress_cfg s' \<in> {view progress_cfg s, pm})"
proof -
  let ?c = "JObj [(''generation'', jget row ''generation''), (''last_slot'', jget slot ''scheduled_at''), (''active_occurrence_id'', JStr key)]"
  let ?behind = "\<lambda>prior. case prior of None \<Rightarrow> True
       | Some p \<Rightarrow> jget (obj_or_empty p) ''generation'' \<noteq> jget row ''generation'' \<or> int_at (obj_or_empty p) ''last_slot'' \<le> int_at slot ''scheduled_at''"
  obtain s1 x where rd: "sread progress_cfg io sid s = (s1, Inr x)" "fresh_ok progress_cfg s1" "view progress_cfg s1 = view progress_cfg s"
      "old_row progress_cfg s sid x"
    by (rule sread_total [OF progress_cfg_ok ok])
  have b: "?behind (view progress_cfg s sid) = ?behind x"
    using rd(4) by (cases x) (auto simp: old_row_def g canon_row_fields jget_obj_canon canon_eq_JNull dest!: sym [of "Some _"])
  show ?thesis
  proof (cases "?behind x")
    case False
    with a rd b show ?thesis by (simp add: advance_progress_def progress_spec_def Let_def)
  next
    case True
    show ?thesis
    proof (cases "validate_progress sid ?c")
      case (Inl e)
      have "s' = s1" "r = Inl e" using True Inl a rd id by (simp_all add: advance_progress_def Let_def)
      moreover have "progress_spec sid row slot key (view progress_cfg s) = Inl e"
        using True Inl b by (simp only: progress_spec_def Let_def) simp
      ultimately show ?thesis using rd by simp
    next
      case (Inr u)
      then have ro: "row_ok progress_cfg (sid, ?c)" by (simp add: progress_cfg_def owned_row_ok)
      have "sput progress_cfg io sid ?c s1 = (s', r)"
        using True Inr a rd id by (simp add: advance_progress_def Let_def)
      from sput_fresh [OF progress_cfg_ok rd(2) this ro] show ?thesis
        using True Inr b rd(3) by (auto simp: progress_spec_def Let_def)
    qed
  qed
qed

lemma progress_spec_again:
  assumes "jget row ''generation'' = JStr g" "jget slot ''scheduled_at'' = JInt t" "progress_spec sid row slot key pm = Inr pm'"
  shows "progress_spec sid row slot key pm' = Inr pm'"
proof -
  let ?c = "JObj [(''generation'', jget row ''generation''), (''last_slot'', jget slot ''scheduled_at''), (''active_occurrence_id'', JStr key)]"
  have "jget (obj_or_empty (canon ?c)) ''generation'' = jget row ''generation''" "int_at (obj_or_empty (canon ?c)) ''last_slot'' = int_at slot ''scheduled_at''"
    by (simp_all only: canon_row_fields jget_obj_canon) (simp_all add: assms obj_or_empty_def get_or_def [of "_ # _"] int_at_def)
  with assms(3) show ?thesis
    by (auto simp: progress_spec_def Let_def rbind_eq_Inr split: if_splits option.splits)
qed

section \<open>Claims as transactions\<close>

definition claim_spec ::
  "zones \<Rightarrow> digest \<Rightarrow> string \<Rightarrow> int \<Rightarrow> string \<Rightarrow> json \<Rightarrow> json \<Rightarrow> json \<Rightarrow> json option \<Rightarrow>
   (string \<Rightarrow> json option) \<Rightarrow> (string \<Rightarrow> json option) \<Rightarrow> ((string \<Rightarrow> json option) \<times> (string \<Rightarrow> json option) \<times> json) sc" where
  "claim_spec zones sha k n g slot target now old m pm =
     rbind (claimable old n g slot now) (\<lambda>(row, d, t).
     rbind (target_spec zones sha row d target now m) (\<lambda>(key, v).
     rbind (progress_spec k row d key pm) (\<lambda>pm'. Inr (m(key := Some v), pm', v))))"

definition all_ok :: "zones \<Rightarrow> digest \<Rightarrow> sched_store \<Rightarrow> bool" where
  "all_ok zones sha st \<longleftrightarrow> stores_ok zones st \<and> fresh_ok (occs_cfg zones sha) (soccs st) \<and> fresh_ok progress_cfg (sprogress st)"

definition unfaulted :: "sfaults \<Rightarrow> bool" where
  "unfaulted f \<longleftrightarrow> (\<forall>b. shard_ok (io_defs f) b \<and> shard_ok (io_progress f) b \<and> shard_ok (io_retired f) b \<and> shard_ok (io_occs f) b)"

lemma view_id:
  assumes "fresh_ok (occs_cfg zones sha) s" "view (occs_cfg zones sha) s key = Some (canon w)"
  shows "jget (obj_or_empty w) ''id'' = JStr key"
proof -
  obtain s1 x where "sread (occs_cfg zones sha) no_faults key s = (s1, Inr x)" "old_row (occs_cfg zones sha) s key x"
    by (rule sread_total [OF occs_cfg_ok assms(1)])
  with assms(2) obtain v where v: "canon v = canon w" "row_ok (occs_cfg zones sha) (key, v)" by (cases x) (auto simp: old_row_def)
  then have "jget (obj_or_empty v) ''id'' = JStr key"
    by (auto simp: occurrence_row_ok validate_occurrence_def rbind_eq_Inr object_of_Inr obj_or_empty_def Let_def split: if_splits)
  then show ?thesis using v(1) jget_obj_canon [of v "''id''"] jget_obj_canon [of w "''id''"] by (simp add: canon_eq_JNull)
qed

lemma claimable_Inr:
  assumes "claimable old n g slot now = Inr (row, d, t)"
  shows "jget row ''generation'' = JStr g \<and> (\<exists>u. jget d ''scheduled_at'' = JInt u)"
  using assms by (auto simp: claimable_def rbind_eq_Inr validate_slot_def integer_of_Inr object_of_Inr split: if_splits)

lemma claim_mutate_fresh:
  assumes occs: "fresh_ok (occs_cfg zones sha) occs" and prog: "fresh_ok progress_cfg progress"
    and c: "claim_mutate zones sha f k n g slot target now (occs, progress, x) old = ((occs', progress', claimed), q)"
  shows "fresh_ok (occs_cfg zones sha) occs' \<and> fresh_ok progress_cfg progress' \<and>
    (case claim_spec zones sha k n g slot target now old (view (occs_cfg zones sha) occs) (view progress_cfg progress) of
       Inl e \<Rightarrow> isl q
     | Inr (m, pm, v) \<Rightarrow>
         (\<exists>w. q = Inr Keep \<and> claimed = Some w \<and> canon w = v) \<and> view (occs_cfg zones sha) occs' = m \<and> view progress_cfg progress' = pm \<or>
         q = Inl WriteRefused \<and> \<not> unfaulted f \<and> (view (occs_cfg zones sha) occs', view progress_cfg progress') \<in>
           {(view (occs_cfg zones sha) occs, view progress_cfg progress), (m, view progress_cfg progress), (m, pm)})"
proof (cases "claimable old n g slot now")
  case (Inl e)
  with c occs prog show ?thesis by (auto simp: claim_mutate_def claim_spec_def)
next
  case (Inr y)
  obtain row d t where y: "y = (row, d, t)" by (cases y)
  note cl = claimable_Inr [OF Inr [unfolded y]]
  obtain s1 r1 where t1: "claim_target zones sha (io_occs f) row d target now occs = (s1, r1)" by (metis surj_pair)
  note ct = claim_target_fresh [OF occs t1]
  show ?thesis
  proof (cases r1)
    case (Inl e)
    with ct c prog Inr y t1 show ?thesis
      by (auto simp: claim_mutate_def claim_spec_def unfaulted_def rbind_eq_Inr split: sum.splits prod.splits)
  next
    case w: (Inr w)
    then obtain key where k: "target_spec zones sha row d target now (view (occs_cfg zones sha) occs) = Inr (key, canon w)"
      "view (occs_cfg zones sha) s1 = (view (occs_cfg zones sha) occs)(key := Some (canon w))" "fresh_ok (occs_cfg zones sha) s1"
      using ct by (auto split: sum.splits prod.splits)
    have id: "jget (obj_or_empty w) ''id'' = JStr key" by (rule view_id [OF k(3)]) (simp add: k(2))
    obtain s2 r2 where a: "advance_progress (io_progress f) k row d w progress = (s2, r2)" by (metis surj_pair)
    from advance_fresh [OF prog id conjunct1 [OF cl] a] show ?thesis
      using c Inr y t1 w a k
      by (cases r2; cases "progress_spec k row d key (view progress_cfg progress)")
        (auto simp: claim_mutate_def claim_spec_def unfaulted_def)
  qed
qed

lemma claim_spec_again:
  assumes "claim_spec zones sha k n g slot target now old m pm = Inr (m', pm', v)"
  shows "claim_spec zones sha k n g slot target now old m' pm = Inr (m', pm', v)"
    and "claim_spec zones sha k n g slot target now old m' pm' = Inr (m', pm', v)"
proof -
  from assms obtain row d t key where c: "claimable old n g slot now = Inr (row, d, t)"
    "target_spec zones sha row d target now m = Inr (key, v)" "progress_spec k row d key pm = Inr pm'" "m' = m(key := Some v)"
    by (auto simp: claim_spec_def rbind_eq_Inr)
  have t: "target_spec zones sha row d target now m' = Inr (key, v)"
    using c(2) unfolding c(4) target_spec_def by (cases "occurrence_id sha row (jget d ''scheduled_at'')") (auto simp: rbind_eq_Inr split: if_splits option.splits)
  from claimable_Inr [OF c(1)] progress_spec_again c(3) have "progress_spec k row d key pm' = Inr pm'" by blast
  with c t show "claim_spec zones sha k n g slot target now old m' pm = Inr (m', pm', v)"
    "claim_spec zones sha k n g slot target now old m' pm' = Inr (m', pm', v)" by (simp_all add: claim_spec_def)
qed

lemma claim_outcome:
  assumes ok: "all_ok zones sha st" and c: "claim_occurrence zones sha f sid expected generation slot target now st = (st', r)"
    and p: "str_where identifier_ok sid = Inr k" "integer_of expected 1 MAX_INTEGER = Inr n" "str_where hex32_ok generation = Inr g"
  shows "all_ok zones sha st' \<and> shard_files (sdefs st') = shard_files (sdefs st) \<and> sretired st' = sretired st \<and>
    (case claim_spec zones sha k n g slot target now (shard_get (defs_cfg zones) (sdefs st) k)
            (view (occs_cfg zones sha) (soccs st)) (view progress_cfg (sprogress st)) of
       Inl e \<Rightarrow> isl r
     | Inr (m, pm, v) \<Rightarrow>
         (\<exists>w. r = Inr w \<and> canon w = v) \<and> view (occs_cfg zones sha) (soccs st') = m \<and> view progress_cfg (sprogress st') = pm \<or>
         r = Inl WriteRefused \<and> \<not> unfaulted f \<and> (view (occs_cfg zones sha) (soccs st'), view progress_cfg (sprogress st')) \<in>
           {(view (occs_cfg zones sha) (soccs st), view progress_cfg (sprogress st)), (m, view progress_cfg (sprogress st)), (m, pm)})"
proof -
  let ?old = "shard_get (defs_cfg zones) (sdefs st) k"
  let ?fn = "claim_mutate zones sha f k n g slot target now"
  have fr: "fresh_ok (defs_cfg zones) (sdefs st)" "fresh_ok (occs_cfg zones sha) (soccs st)" "fresh_ok progress_cfg (sprogress st)"
    using ok by (auto simp: all_ok_def stores_ok_def)
  obtain occs progress claimed q where m: "?fn (soccs st, sprogress st, None) ?old = ((occs, progress, claimed), q)"
    by (metis surj_pair)
  note cm = claim_mutate_fresh [OF fr(2,3) m]
  obtain s' where t: "transact (defs_cfg zones) (io_defs f) k ?fn (soccs st, sprogress st, None) (sdefs st) = (s', (occs, progress, claimed), q)"
      "shard_files s' = shard_files (sdefs st)"
    by (rule transact_keep [where fn = ?fn and c = "(soccs st, sprogress st, None)", OF defs_cfg_ok fr(1) m]) (use m claim_mutate_keeps in blast)
  have st': "st' = st\<lparr>sdefs := s', soccs := occs, sprogress := progress\<rparr>"
      "r = rbind q (\<lambda>_. case claimed of Some v \<Rightarrow> Inr v | None \<Rightarrow> Inl (PyError KeyError))"
    using c p t(1) by (auto simp: claim_occurrence_def)
  have "stores_ok zones st'" using claim_step [OF _ c] ok by (auto simp: all_ok_def)
  with cm st' t(2) show ?thesis
    by (auto simp: all_ok_def rbind_def split: sum.splits prod.splits)
qed

definition restarted :: "sched_store \<Rightarrow> sched_store" where
  "restarted st = \<lparr>sdefs = (sdefs st)\<lparr>migrated := False\<rparr>, sprogress = (sprogress st)\<lparr>migrated := False\<rparr>,
     sretired = (sretired st)\<lparr>migrated := False\<rparr>, soccs = (soccs st)\<lparr>migrated := False\<rparr>\<rparr>"

lemma restarted_same:
  assumes "all_ok zones sha st"
  shows "all_ok zones sha (restarted st)" "view (occs_cfg zones sha) (soccs (restarted st)) = view (occs_cfg zones sha) (soccs st)"
    "view progress_cfg (sprogress (restarted st)) = view progress_cfg (sprogress st)"
    "shard_get (defs_cfg zones) (sdefs (restarted st)) k = shard_get (defs_cfg zones) (sdefs st) k"
  using assms restart_fresh by (auto simp: all_ok_def stores_ok_def restarted_def intro: shard_get_cong)

text \<open>
  C38.  A claim made again completes.  Take a claim that would succeed, and let it be disturbed by any refused
  writes or failing syncs, before its occurrence is written, between it and the progress of the schedule, or after both; restart, and
  make the same claim again with the disturbance gone.  It succeeds with the occurrence the undisturbed claim
  would have returned, and leaves the occurrences and the progress as that claim would have left them.
\<close>

theorem claim_again_completes:
  assumes "all_ok zones sha st" "unfaulted g" "unfaulted g'"
    and "claim_occurrence zones sha g sid expected generation slot target now st = (st0, Inr v)"
    and "claim_occurrence zones sha f sid expected generation slot target now st = (st1, r1)"
    and "claim_occurrence zones sha g' sid expected generation slot target now (restarted st1) = (st2, r2)"
  shows "\<exists>w. r2 = Inr w \<and> canon w = canon v \<and> view (occs_cfg zones sha) (soccs st2) = view (occs_cfg zones sha) (soccs st0) \<and>
    view progress_cfg (sprogress st2) = view progress_cfg (sprogress st0)"
proof -
  obtain k n gen where p: "str_where identifier_ok sid = Inr k" "integer_of expected 1 MAX_INTEGER = Inr n" "str_where hex32_ok generation = Inr gen"
    using assms(4) by (cases "str_where identifier_ok sid"; cases "integer_of expected 1 MAX_INTEGER"; cases "str_where hex32_ok generation")
      (auto simp: claim_occurrence_def)
  let ?old = "shard_get (defs_cfg zones) (sdefs st) k" and ?m = "\<lambda>s. view (occs_cfg zones sha) (soccs s)"
    and ?pm = "\<lambda>s. view progress_cfg (sprogress s)"
  let ?spec = "claim_spec zones sha k n gen slot target now ?old"
  from claim_outcome [OF assms(1,4) p] assms(2) have spec: "?spec (?m st) (?pm st) = Inr (?m st0, ?pm st0, canon v)"
    by (auto split: sum.splits)
  from claim_outcome [OF assms(1,5) p] spec have st1: "all_ok zones sha st1" "shard_files (sdefs st1) = shard_files (sdefs st)"
    "(?m st1, ?pm st1) \<in> {(?m st0, ?pm st0), (?m st, ?pm st), (?m st0, ?pm st)}" by auto
  have "shard_get (defs_cfg zones) (sdefs (restarted st1)) k = ?old"
    using restarted_same(4) [OF st1(1)] shard_get_cong [OF st1(2)] by simp
  moreover have "?spec (?m st1) (?pm st1) = Inr (?m st0, ?pm st0, canon v)"
    using st1(3) spec claim_spec_again [OF spec] by auto
  ultimately show ?thesis
    using claim_outcome [OF restarted_same(1) [OF st1(1)] assms(6) p] restarted_same(2,3) [OF st1(1)] assms(3) by auto
qed

section \<open>A concrete claim\<close>

definition demo_due :: sched_store where
  "demo_due = demo_created\<lparr>soccs := demo_claimed\<rparr>"

definition demo_crash :: sfaults where
  "demo_crash = demo_io\<lparr>io_progress := no_faults\<lparr>shard_io := (\<lambda>_. Refused)\<rparr>\<rparr>"

abbreviation demo_claim :: "sfaults \<Rightarrow> sched_store \<Rightarrow> sched_store \<times> json sc" where
  "demo_claim f \<equiv> claim_occurrence demo_zones demo_sha f (JStr ''s1'') (JInt 1) (JStr (replicate 32 CHR ''a'')) (JObj demo_slot) demo_preview (JInt 1774000001)"

lemma demo_due_ok: "all_ok demo_zones demo_sha demo_due"
proof -
  have "stores_ok demo_zones demo_created"
    unfolding demo_created_def by (rule conjunct1 [OF create_step [OF demo_stores_ok prod.collapse [symmetric]]])
  moreover have "sprogress demo_created = empty_store"
    unfolding demo_created_def create_schedule_def by (simp add: demo_stores_def split: sum.split prod.split)
  moreover have "fresh_ok (occs_cfg demo_zones demo_sha) demo_claimed"
    using create_grows [OF empty_fresh prod.collapse [symmetric]] unfolding demo_claimed_def by (simp add: occ_grows_def)
  ultimately show ?thesis by (simp add: all_ok_def demo_due_def empty_fresh stores_ok_def)
qed

lemma demo_old: "\<exists>v. shard_get (defs_cfg demo_zones) (sdefs demo_due) ''s1'' = Some v \<and> canon v = canon (JObj demo_row)"
proof -
  have ok: "fresh_ok (defs_cfg demo_zones) (sdefs demo_due)" using demo_due_ok by (simp add: all_ok_def stores_ok_def)
  obtain s1 where "get (defs_cfg demo_zones) no_faults ''s1'' (sdefs demo_due) = (s1, Inr (shard_get (defs_cfg demo_zones) (sdefs demo_due) ''s1''))"
    by (rule get_exact [OF ok])
  from get_fresh [OF defs_cfg_ok ok this] have "old_row (defs_cfg demo_zones) (sdefs demo_due) ''s1'' (shard_get (defs_cfg demo_zones) (sdefs demo_due) ''s1'')"
    by auto
  then show ?thesis using demo_created_row by (auto simp: old_row_def demo_due_def)
qed

lemma demo_claim_spec: "\<exists>x. claim_spec demo_zones demo_sha ''s1'' 1 (replicate 32 CHR ''a'') (JObj demo_slot) demo_preview (JInt 1774000001)
    (shard_get (defs_cfg demo_zones) (sdefs demo_due) ''s1'') (view (occs_cfg demo_zones demo_sha) (soccs demo_due))
    (view progress_cfg (sprogress demo_due)) = Inr x"
proof -
  obtain v where v: "shard_get (defs_cfg demo_zones) (sdefs demo_due) ''s1'' = Some v" "canon v = canon (JObj demo_row)" using demo_old by blast
  let ?row = "obj_or_empty v"
  have f: "canon (jget ?row k) = canon (jget demo_row k)" for k
    using v(2) jget_obj_canon [of v k] jget_obj_canon [of "JObj demo_row" k] by (simp add: obj_or_empty_def [of "JObj _"])
  have row: "jget ?row ''generation'' = JStr (replicate 32 CHR ''a'')" "jget ?row ''rev'' = JInt 1" "jget ?row ''state'' = JStr ''pending''"
    using f [of "''generation''"] f [of "''rev''"] f [of "''state''"] demo_fields
    by (simp_all add: canon_eq_JNull canon_scalar_eq demo_row_def demo_normal_def get_or_def [of "_ # _"])
  have c: "claimable (Some v) 1 (replicate 32 CHR ''a'') (JObj demo_slot) (JInt 1774000001) = Inr (?row, demo_slot, 1774000001)"
    using row by (simp add: claimable_def compare_rev_def Let_def integer_of_def MAX_INTEGER_def MAX_EPOCH_def demo_slot_ok demo_occ_fields int_at_def)
  have o: "occurrence_id demo_sha ?row (jget demo_slot ''scheduled_at'') = Inr (replicate 32 CHR ''b'')"
    using demo_occurrence_id by (simp add: occurrence_id_def row demo_fields demo_occ_fields)
  have t: "target_spec demo_zones demo_sha ?row demo_slot demo_preview (JInt 1774000001) (view (occs_cfg demo_zones demo_sha) (soccs demo_due)) =
      Inr (replicate 32 CHR ''b'', canon (JObj demo_occurrence))"
    using demo_claimed_row by (simp add: target_spec_def o demo_hex demo_due_def)
  have "\<exists>x. progress_spec ''s1'' ?row demo_slot (replicate 32 CHR ''b'') pm = Inr x" for pm
    using row by (auto simp: progress_spec_def Let_def validate_progress_def demo_ids demo_hex demo_occ_fields object_of_def get_or_def [of "_ # _"]
        str_where_def integer_of_def MAX_EPOCH_def)
  then obtain pm where "progress_spec ''s1'' ?row demo_slot (replicate 32 CHR ''b'') (view progress_cfg (sprogress demo_due)) = Inr pm" by blast
  with c t v(1) show ?thesis by (simp add: claim_spec_def)
qed

theorem claim_again_completes_witness:
  "\<exists>v w. snd (demo_claim demo_io demo_due) = Inr v \<and> snd (demo_claim demo_io (restarted (fst (demo_claim demo_crash demo_due)))) = Inr w \<and>
    canon w = canon v"
proof -
  have g: "unfaulted demo_io" by (simp add: unfaulted_def demo_io_def)
  have p: "str_where identifier_ok (JStr ''s1'') = Inr ''s1''" "integer_of (JInt 1) 1 MAX_INTEGER = Inr 1"
    "str_where hex32_ok (JStr (replicate 32 CHR ''a'')) = Inr (replicate 32 CHR ''a'')"
    by (simp_all add: str_where_def demo_ids integer_of_def MAX_INTEGER_def)
  from claim_outcome [OF demo_due_ok prod.collapse [symmetric] p, of demo_io "JObj demo_slot" demo_preview "JInt 1774000001"]
    demo_claim_spec g obtain v where "snd (demo_claim demo_io demo_due) = Inr v" by (auto split: sum.splits)
  moreover from this have "demo_claim demo_io demo_due = (fst (demo_claim demo_io demo_due), Inr v)" by (metis prod.collapse)
  ultimately show ?thesis
    using claim_again_completes [OF demo_due_ok g g _ prod.collapse [symmetric] prod.collapse [symmetric]] by blast
qed

end
