(* ===== verification/Receipt_History.thy ===== *)
theory Receipt_History
  imports Occurrence_History
begin

text \<open>
  Histories of the receipts: a terminal receipt is final, a revision names one state of a receipt, and every
  attempt a reader saw is still there, current or among the predecessors, with the ownership it was bound to.
\<close>

definition attempt_row :: "obj \<Rightarrow> int \<Rightarrow> obj" where
  \<comment> \<open>where an attempt is found: the current row or one of its predecessors\<close>
  "attempt_row row n = (if n = int_at row ''attempt'' then row else obj_or_empty (lineage row ! nat (n - 1)))"

definition owned_kept :: "obj \<Rightarrow> obj \<Rightarrow> bool" where
  "owned_kept a e \<longleftrightarrow> (\<forall>k \<in> set owned_fields. has_key a k \<longrightarrow> has_key e k \<and> py_eq (jget e k) (jget a k))"

definition receipt_later :: "obj \<Rightarrow> obj \<Rightarrow> bool" where
  "receipt_later a b \<longleftrightarrow>
     \<not> terminal a \<and> rev_of a < rev_of b \<and> jget b ''created_at'' = jget a ''created_at'' \<and>
     int_at a ''attempt'' \<le> int_at b ''attempt'' \<and> take (length (lineage a)) (lineage b) = lineage a \<and>
     owned_kept a (attempt_row b (int_at a ''attempt''))"

definition receipt_evolves :: "json \<Rightarrow> json \<Rightarrow> bool" where
  "receipt_evolves v w \<longleftrightarrow> w = v \<or> receipt_later (obj_or_empty v) (obj_or_empty w)"

abbreviation attempts_ok :: "obj \<Rightarrow> bool" where
  "attempts_ok row \<equiv> int_at row ''attempt'' = int (length (lineage row)) + 1"

lemma owned_kept_trans: "owned_kept a b \<Longrightarrow> owned_kept b c \<Longrightarrow> owned_kept a c"
  unfolding owned_kept_def by (meson py_eq_trans)

lemma receipt_later_trans:
  assumes "receipt_later a b" "receipt_later b c" "attempts_ok a" "attempts_ok b" "attempts_ok c"
  shows "receipt_later a c"
proof -
  let ?na = "int_at a ''attempt''" and ?nb = "int_at b ''attempt''" and ?nc = "int_at c ''attempt''"
  have l: "take (length (lineage a)) (lineage b) = lineage a" "take (length (lineage b)) (lineage c) = lineage b" "?na \<le> ?nb" "?nb \<le> ?nc"
    using assms by (auto simp: receipt_later_def)
  have "length (lineage a) \<le> length (lineage b)" using l(3) assms(3,4) by simp
  then have "take (length (lineage a)) (lineage c) = lineage a" by (metis l(1,2) min.absorb1 take_take)
  moreover have "owned_kept a (attempt_row c ?na)"
  proof (cases "?na = ?nb")
    case True
    then have "owned_kept a b" "owned_kept b (attempt_row c ?na)" using assms(1,2) by (auto simp: receipt_later_def attempt_row_def)
    then show ?thesis by (rule owned_kept_trans)
  next
    case False
    have "nat (?na - 1) < length (lineage b)" using False l(3) assms(3,4) by linarith
    then have "lineage c ! nat (?na - 1) = lineage b ! nat (?na - 1)" by (metis l(2) nth_take)
    then have "attempt_row c ?na = attempt_row b ?na" using False l(3,4) by (simp add: attempt_row_def)
    with assms(1) show ?thesis by (simp add: receipt_later_def)
  qed
  ultimately show ?thesis using assms(1,2) by (auto simp: receipt_later_def)
qed

lemma receipt_evolves_trans:
  assumes "receipt_evolves u v" "receipt_evolves v w" "attempts_ok (obj_or_empty u)" "attempts_ok (obj_or_empty v)" "attempts_ok (obj_or_empty w)"
  shows "receipt_evolves u w"
  using assms receipt_later_trans unfolding receipt_evolves_def by metis

lemma receipt_later_canon:
  assumes "receipt_later a b" "attempts_ok b" "1 \<le> int_at a ''attempt''"
  shows "receipt_later (canon_rows a) (canon_rows b)"
proof -
  have c: "crel a (canon_rows a)" "crel b (canon_rows b)" by simp_all
  have n: "int_at (canon_rows d) k = int_at d k" for d k by (rule int_at_crel) simp
  have le: "int_at a ''attempt'' \<le> int_at b ''attempt''" using assms(1) by (simp add: receipt_later_def)
  have row: "attempt_row (canon_rows b) (int_at a ''attempt'') = canon_rows (attempt_row b (int_at a ''attempt''))"
  proof (cases "int_at a ''attempt'' = int_at b ''attempt''")
    case False
    then have "nat (int_at a ''attempt'' - 1) < length (lineage b)" using le assms(2,3) by linarith
    with False show ?thesis by (simp add: attempt_row_def n lineage_crel [OF c(2)] obj_or_empty_canon)
  qed (simp add: attempt_row_def n)
  have "owned_kept (canon_rows a) (canon_rows e)" if "owned_kept a e" for e
    using that by (simp add: owned_kept_def has_key_canon jget_canon py_eq_canon)
  moreover have "take (length (lineage a)) (map canon (lineage b)) = map canon (lineage a)"
    using assms(1) by (metis receipt_later_def take_map)
  ultimately show ?thesis using assms(1)
    by (simp add: receipt_later_def n row lineage_crel [OF c(1)] lineage_crel [OF c(2)] terminal_crel [OF c(1)] jget_canon)
qed

section \<open>The callbacks\<close>

lemma receipt_row_ok: "row_ok (receipts_cfg k) (dev, v) \<longleftrightarrow>
    validate_receipt dev v = Inr () \<and> jget (obj_or_empty v) ''occurrence_id'' = JStr k \<and> v \<noteq> JNull"
  by (auto simp: receipts_cfg_def owned_row_ok rbind_eq_Inr)

lemma receipt_attempts:
  assumes "validate_receipt dev v = Inr ()"
  shows "attempts_ok (obj_or_empty v)" "v = JObj (obj_or_empty v)"
proof -
  from assms obtain row where r: "validate_attempt dev v = Inr row" "jget row ''attempt'' = JInt (int (length (lineage row)) + 1)"
    by (auto simp: validate_receipt_def rbind_eq_Inr split: if_splits)
  then have "v = JObj row"
    by (auto simp: validate_attempt_def rbind_eq_Inr object_of_Inr split: if_splits option.splits)
  with r show "attempts_ok (obj_or_empty v)" "v = JObj (obj_or_empty v)" by (simp_all add: obj_or_empty_def int_at_def)
qed

lemma row_attempts: "row_ok (receipts_cfg k) (dev, v) \<Longrightarrow> attempts_ok (obj_or_empty v)"
  unfolding receipt_row_ok by (rule receipt_attempts(1)) blast

lemma supplied_keys:
  assumes "supplied_of c = Inr supplied"
  shows "dwf supplied" "k \<notin> set (''wave'' # ''fleet_registered_at'' # given_fields) \<Longrightarrow> dget supplied k = None"
proof -
  from assms obtain w where s: "supplied = filter (\<lambda>kv. snd kv \<noteq> JNull) (map (\<lambda>k. (k, rc_given c k)) given_fields @ [(''wave'', w)]) @
            (case rc_registered c of None \<Rightarrow> [] | Some v \<Rightarrow> [(''fleet_registered_at'', v)])"
    by (auto simp: supplied_of_def rbind_eq_Inr)
  let ?l = "map (\<lambda>k. (k, rc_given c k)) given_fields @ [(''wave'', w)]"
  have "distinct (map fst (filter (\<lambda>kv. snd kv \<noteq> JNull) ?l))"
    by (rule distinct_map_filter) (simp add: given_fields_def)
  moreover have f: "fst ` set (filter (\<lambda>kv. snd kv \<noteq> JNull) ?l) \<subseteq> set (''wave'' # given_fields)" by auto
  moreover have "''fleet_registered_at'' \<notin> set (''wave'' # given_fields)" by (simp add: given_fields_def)
  ultimately show "dwf supplied" unfolding s dwf_def by (cases "rc_registered c") auto
  have keys: "fst ` set supplied \<subseteq> set (''wave'' # ''fleet_registered_at'' # given_fields)"
    using f unfolding s by (cases "rc_registered c") auto
  assume "k \<notin> set (''wave'' # ''fleet_registered_at'' # given_fields)"
  with keys show "dget supplied k = None" unfolding map_of_eq_None_iff by blast
qed

lemma has_key_Some: "has_key d k \<longleftrightarrow> (\<exists>x. dget d k = Some x)"
  using dget_None_iff [of d k] by (cases "dget d k") (auto simp: has_key_def)

lemma receipt_row_get:
  assumes "supplied_of c = Inr supplied"
  shows "dget (receipt_row identifier dev status c now supplied old) k =
    orelse (dget supplied k) (dget (receipt_base identifier dev status c now old) k)"
  using supplied_keys(1) [OF assms] by (simp add: receipt_row_def merge_rows_get)

lemma receipt_row_jget:
  assumes "supplied_of c = Inr supplied" "k \<notin> set (''wave'' # ''fleet_registered_at'' # given_fields)"
  shows "jget (receipt_row identifier dev status c now supplied old) k = jget (receipt_base identifier dev status c now old) k"
  using supplied_keys(2) [OF assms] by (simp add: get_or_def receipt_row_get [OF assms(1)])

lemma receipt_base_fields:
  "jget (receipt_base identifier dev status c now (Some row)) ''occurrence_id'' = JStr identifier"
  "jget (receipt_base identifier dev status c now (Some row)) ''rev'' = JInt (rev_of row + 1)"
  "jget (receipt_base identifier dev status c now (Some row)) ''attempt'' = jget row ''attempt''"
  "jget (receipt_base identifier dev status c now (Some row)) ''predecessors'' = jget row ''predecessors''"
  "jget (receipt_base identifier dev status c now (Some row)) ''created_at'' = jget row ''created_at''"
  by (simp_all add: receipt_base_def Let_def merge_rows_def get_or_dset)

lemma receipt_base_new: "jget (receipt_base identifier dev status c now None) ''occurrence_id'' = JStr identifier"
  by (simp add: receipt_base_def Let_def merge_rows_def get_or_dset get_or_def)

lemma receipt_base_owned: "k \<in> set owned_fields \<Longrightarrow> dget (receipt_base identifier dev status c now (Some row)) k = dget row k"
  unfolding receipt_base_def Let_def merge_rows_def owned_fields_def by (simp del: if_split_asm) (elim disjE; simp)

lemma receipt_row_owned:
  assumes "supplied_of c = Inr supplied" "\<not> ownership_changed row supplied"
  shows "owned_kept row (receipt_row identifier dev status c now supplied (Some row))"
  unfolding owned_kept_def
proof (intro ballI impI)
  fix k assume k: "k \<in> set owned_fields" "has_key row k"
  then obtain x where x: "dget row k = Some x" by (auto simp: has_key_Some)
  have row: "dget (receipt_row identifier dev status c now supplied (Some row)) k = orelse (dget supplied k) (Some x)"
    by (simp add: receipt_row_get [OF assms(1)] receipt_base_owned [OF k(1)] x)
  have "py_eq x y" if "dget supplied k = Some y" for y
    using assms(2) k x that by (auto simp: ownership_changed_def list_ex_iff has_key_Some get_or_def)
  then show "has_key (receipt_row identifier dev status c now supplied (Some row)) k \<and>
      py_eq (jget (receipt_row identifier dev status c now supplied (Some row)) k) (jget row k)"
    using row x by (cases "dget supplied k") (auto simp: has_key_Some get_or_def py_eq_sym)
qed

definition keeps_receipt :: "string \<Rightarrow> string \<Rightarrow> (json option \<Rightarrow> upd sc) \<Rightarrow> bool" where
  "keeps_receipt k dev fn \<longleftrightarrow>
     (\<forall>old u. fn old = Inr u \<longrightarrow> (\<forall>v. old = Some v \<longrightarrow> row_ok (receipts_cfg k) (dev, v)) \<longrightarrow>
        (\<exists>w. u = Put w \<and> row_ok (receipts_cfg k) (dev, w) \<and> (\<forall>v. old = Some v \<longrightarrow> w = v \<or> receipt_later (obj_or_empty v) (obj_or_empty w))))"

lemma record_keeps:
  assumes "supplied_of c = Inr supplied"
  shows "keeps_receipt k dev (record_mutate k dev status c now supplied)"
  unfolding keeps_receipt_def
proof (intro allI impI)
  fix old u
  assume f: "record_mutate k dev status c now supplied old = Inr u"
    and ok: "\<forall>v. old = Some v \<longrightarrow> row_ok (receipts_cfg k) (dev, v)"
  have field: "jget (receipt_row k dev status c now supplied row) j = jget (receipt_base k dev status c now row) j"
    if "j \<in> {''occurrence_id'', ''rev'', ''attempt'', ''predecessors'', ''created_at''}" for j row
    by (rule receipt_row_jget [OF assms]) (use that in \<open>auto simp: given_fields_def\<close>)
  have new: "jget (receipt_row k dev status c now supplied None) ''occurrence_id'' = JStr k"
    by (simp add: field receipt_base_new)
  show "\<exists>w. u = Put w \<and> row_ok (receipts_cfg k) (dev, w) \<and> (\<forall>v. old = Some v \<longrightarrow> w = v \<or> receipt_later (obj_or_empty v) (obj_or_empty w))"
  proof (cases old)
    case None
    with f show ?thesis
      by (auto simp: record_mutate_def Let_def rbind_eq_Inr receipt_row_ok obj_or_empty_def new split: if_splits)
  next
    case (Some v)
    let ?row = "obj_or_empty v" and ?new = "receipt_row k dev status c now supplied (Some (obj_or_empty v))"
    show ?thesis
    proof (cases "u = Put v")
      case True
      with ok Some show ?thesis by auto
    next
      case False
      with f Some have n: "\<not> terminal ?row" "\<not> ownership_changed ?row supplied" "validate_receipt dev (JObj ?new) = Inr ()" "u = Put (JObj ?new)"
        by (auto simp: record_mutate_def Let_def rbind_eq_Inr split: if_splits)
      note r = field receipt_base_fields
      have l: "lineage ?new = lineage ?row" by (simp add: lineage_def r)
      have "receipt_later ?row ?new"
        using n(1) receipt_row_owned [OF assms n(2)] by (simp add: receipt_later_def attempt_row_def int_at_def r l)
      with n r Some show ?thesis by (auto simp: receipt_row_ok obj_or_empty_def [of "JObj _"])
    qed
  qed
qed

lemma successor_keeps: "keeps_receipt k dev (successor_mutate k dev expected now generation predecessor before)"
  unfolding keeps_receipt_def
proof (intro allI impI)
  fix old u
  assume f: "successor_mutate k dev expected now generation predecessor before old = Inr u"
    and ok: "\<forall>v. old = Some v \<longrightarrow> row_ok (receipts_cfg k) (dev, v)"
  then obtain v p where v: "old = Some v" and n: "\<not> terminal (obj_or_empty v)"
    "validate_receipt dev (JObj (successor_row k dev now generation p before (obj_or_empty v))) = Inr ()"
    "u = Put (JObj (successor_row k dev now generation p before (obj_or_empty v)))"
    by (auto simp: successor_mutate_def Let_def rbind_eq_Inr split: if_splits option.splits)
  let ?row = "obj_or_empty v" and ?new = "successor_row k dev now generation p before (obj_or_empty v)"
  have a: "attempts_ok ?row" using ok v receipt_attempts by (auto simp: receipt_row_ok)
  have r: "jget ?new ''occurrence_id'' = JStr k" "jget ?new ''rev'' = JInt (rev_of ?row + 1)" "jget ?new ''attempt'' = JInt (int_at ?row ''attempt'' + 1)"
    "jget ?new ''created_at'' = jget ?row ''created_at''" "lineage ?new = lineage ?row @ [JObj (ddel ''predecessors'' ?row)]"
    by (simp_all add: successor_row_def Let_def get_or_def lineage_def)
  have "nat (int_at ?row ''attempt'' - 1) = length (lineage ?row)" using a by simp
  then have "attempt_row ?new (int_at ?row ''attempt'') = ddel ''predecessors'' ?row"
    by (simp add: attempt_row_def int_at_def [of ?new] r obj_or_empty_def [of "JObj _"])
  moreover have "owned_kept ?row (ddel ''predecessors'' ?row)"
    by (auto simp: owned_kept_def owned_fields_def has_key_Some get_or_def)
  ultimately have "receipt_later ?row ?new" using n(1) by (simp add: receipt_later_def int_at_def [of ?new] r)
  with n r(1) v show "\<exists>w. u = Put w \<and> row_ok (receipts_cfg k) (dev, w) \<and> (\<forall>v. old = Some v \<longrightarrow> w = v \<or> receipt_later (obj_or_empty v) (obj_or_empty w))"
    by (auto simp: receipt_row_ok obj_or_empty_def [of "JObj _"])
qed

section \<open>The calls\<close>

definition receipts_ok :: "receipt_store \<Rightarrow> bool" where
  "receipts_ok st \<longleftrightarrow> (\<forall>k. fresh_ok (receipts_cfg k) (rrows st k))"

abbreviation receipt :: "receipt_store \<Rightarrow> string \<Rightarrow> string \<Rightarrow> json option" where
  "receipt st k \<equiv> view (receipts_cfg k) (rrows st k)"

definition receipts_grow :: "receipt_store \<Rightarrow> receipt_store \<Rightarrow> bool" where
  "receipts_grow st st' \<longleftrightarrow> receipts_ok st' \<and>
     (\<forall>k dev v. receipt st k dev = Some v \<longrightarrow> (\<exists>w. receipt st' k dev = Some w \<and> receipt_evolves v w))"

lemma receipt_view_ok:
  assumes "receipts_ok st" "receipt st k dev = Some v"
  shows "attempts_ok (obj_or_empty v)"
proof -
  have ok: "fresh_ok (receipts_cfg k) (rrows st k)" using assms(1) by (simp add: receipts_ok_def)
  obtain s1 x where "sread (receipts_cfg k) no_faults dev (rrows st k) = (s1, Inr x)" "old_row (receipts_cfg k) (rrows st k) dev x"
    by (rule sread_total [OF receipts_cfg_ok ok])
  with assms(2) obtain y where y: "v = canon y" "row_ok (receipts_cfg k) (dev, y)" by (cases x) (auto simp: old_row_def)
  have "attempts_ok (obj_or_empty y)" by (rule row_attempts [OF y(2)])
  then show ?thesis by (simp add: y(1) canon_row_fields lineage_crel [OF obj_or_empty_crel])
qed

lemma receipts_grow_trans:
  assumes "receipts_ok st" "receipts_grow st st'" "receipts_grow st' st''"
  shows "receipts_grow st st''"
  unfolding receipts_grow_def
proof (intro conjI allI impI)
  show ok: "receipts_ok st''" using assms(3) by (simp add: receipts_grow_def)
  fix k dev v
  assume v: "receipt st k dev = Some v"
  with assms(2) obtain u where u: "receipt st' k dev = Some u" "receipt_evolves v u" unfolding receipts_grow_def by blast
  with assms(3) obtain w where w: "receipt st'' k dev = Some w" "receipt_evolves u w" unfolding receipts_grow_def by blast
  have "receipts_ok st'" using assms(2) by (simp add: receipts_grow_def)
  then show "\<exists>w. receipt st'' k dev = Some w \<and> receipt_evolves v w"
    using receipt_evolves_trans [OF u(2) w(2)] receipt_view_ok assms(1) v u(1) w(1) ok by blast
qed

lemma receipts_grow_same:
  assumes "receipts_ok st'" "\<And>k. receipt st' k = receipt st k"
  shows "receipts_grow st st'"
  using assms by (auto simp: receipts_grow_def receipt_evolves_def)

lemma keeps_receiptD:
  assumes "keeps_receipt k dev fn" "fn old = Inr u" "old_row (receipts_cfg k) s dev old"
  obtains w where "u = Put w" "row_ok (receipts_cfg k) (dev, w)" "\<forall>v. old = Some v \<longrightarrow> w = v \<or> receipt_later (obj_or_empty v) (obj_or_empty w)"
proof -
  have "\<forall>v. old = Some v \<longrightarrow> row_ok (receipts_cfg k) (dev, v)" using assms(3) by (auto simp: old_row_def)
  with assms(1,2) that show ?thesis unfolding keeps_receipt_def by blast
qed

lemma kept_evolves:
  assumes "row_ok (receipts_cfg k) (dev, v)" "row_ok (receipts_cfg k) (dev, w)" "w = v \<or> receipt_later (obj_or_empty v) (obj_or_empty w)"
  shows "receipt_evolves (canon v) (canon w)"
proof -
  have "attempts_ok (obj_or_empty v)" "attempts_ok (obj_or_empty w)" by (rule row_attempts [OF assms(1)] row_attempts [OF assms(2)])+
  with assms(3) show ?thesis by (auto simp: receipt_evolves_def obj_or_empty_canon intro: receipt_later_canon)
qed

lemma on_receipts_grow:
  assumes ok: "receipts_ok st" and keep: "keeps_receipt k dev fn" and c: "on_receipts io k dev fn st = (st', r)"
  shows "receipts_grow st st'"
proof -
  let ?cfg = "receipts_cfg k" and ?s = "rrows st k"
  have fr: "fresh_ok ?cfg ?s" using ok by (simp add: receipts_ok_def)
  obtain s q where ch: "change_row ?cfg io dev fn ?s = (s, q)" and st': "st' = st\<lparr>rrows := (rrows st)(k := s)\<rparr>"
    using c by (auto simp: on_receipts_def split: prod.splits)
  have l: "\<forall>old v. old_row ?cfg ?s dev old \<and> fn old = Inr (Put v) \<and> v \<noteq> JNull \<longrightarrow> row_ok ?cfg (dev, v)"
    by (auto elim!: keeps_receiptD [OF keep])
  from change_row_view [OF receipts_cfg_ok fr ch l] obtain old where o: "fresh_ok ?cfg s" "old_row ?cfg ?s dev old" and
    q: "view ?cfg s = view ?cfg ?s \<or> (\<exists>u. fn old = Inr u \<and> view ?cfg s = apply_upd dev (returned u) (view ?cfg ?s))" by blast
  have ok': "receipts_ok st'" using ok o(1) by (simp add: receipts_ok_def st')
  show ?thesis
    using q
  proof (elim disjE exE conjE)
    assume "view ?cfg s = view ?cfg ?s"
    with ok' show ?thesis by (intro receipts_grow_same) (auto simp: st')
  next
    fix u assume u: "fn old = Inr u" "view ?cfg s = apply_upd dev (returned u) (view ?cfg ?s)"
    obtain x where x: "u = Put x" "row_ok ?cfg (dev, x)" "\<forall>v. old = Some v \<longrightarrow> x = v \<or> receipt_later (obj_or_empty v) (obj_or_empty x)"
      by (rule keeps_receiptD [OF keep u(1) o(2)])
    have "returned u = Put x" using x(1,2) by (auto simp: returned_def receipt_row_ok)
    then have v: "view ?cfg s = (view ?cfg ?s)(dev := Some (canon x))" using u(2) by simp
    have "receipt_evolves y (canon x)" if y: "view ?cfg ?s dev = Some y" for y
    proof -
      from o(2) y obtain z where z: "old = Some z" "y = canon z" "row_ok ?cfg (dev, z)" by (cases old) (auto simp: old_row_def)
      with x kept_evolves show ?thesis by blast
    qed
    then show ?thesis using ok' v by (auto simp: receipts_grow_def st' receipt_evolves_def)
  qed
qed

lemma admit_same:
  assumes "admit_receipt zones sha io identifier device st = (st', r)"
  shows "rrows st' = rrows st"
  using assms by (auto simp: admit_receipt_def split: sum.splits prod.splits)

lemma receipts_ok_rrows: "rrows st' = rrows st \<Longrightarrow> receipts_ok st' = receipts_ok st"
  by (simp add: receipts_ok_def)

lemma record_grows:
  assumes "receipts_ok st" "record_receipt zones sha io io' identifier device c st = (st', r)"
  shows "receipts_grow st st'"
proof -
  obtain st1 q where a: "admit_receipt zones sha io identifier device st = (st1, q)" by (metis surj_pair)
  note same = admit_same [OF a]
  have ok: "receipts_ok st1" using assms(1) receipts_ok_rrows [OF same] by simp
  show ?thesis
  proof (cases "\<exists>k dev now status supplied. q = Inr (k, dev) \<and> record_args c = Inr (now, status, supplied)")
    case True
    then obtain k dev now status supplied where q: "q = Inr (k, dev)" "record_args c = Inr (now, status, supplied)" by blast
    then have s: "supplied_of c = Inr supplied" by (auto simp: record_args_def rbind_eq_Inr split: if_splits)
    have "on_receipts io' k dev (record_mutate k dev status c now supplied) st1 = (st', r)"
      using assms(2) a q by (simp add: record_receipt_def)
    from on_receipts_grow [OF ok record_keeps [OF s] this] show ?thesis by (simp add: receipts_grow_def same)
  next
    case False
    then have "st' = st1" using assms(2) a by (cases q; cases "record_args c") (auto simp: record_receipt_def)
    with ok same show ?thesis by (intro receipts_grow_same) auto
  qed
qed

lemma successor_grows:
  assumes "receipts_ok st" "successor_attempt zones sha io io' identifier device expected now generation predecessor before st = (st', r)"
  shows "receipts_grow st st'"
proof -
  obtain st1 q where a: "admit_receipt zones sha io identifier device st = (st1, q)" by (metis surj_pair)
  note same = admit_same [OF a]
  have ok: "receipts_ok st1" using assms(1) receipts_ok_rrows [OF same] by simp
  have "st' = st1 \<or> (\<exists>k dev n t g. on_receipts io' k dev (successor_mutate k dev n t g predecessor before) st1 = (st', r))"
    using assms(2) a by (auto simp: successor_attempt_def split: sum.splits prod.splits)
  then show ?thesis
  proof (elim disjE exE)
    assume "st' = st1"
    with ok same show ?thesis by (intro receipts_grow_same) auto
  next
    fix k dev n t g
    assume "on_receipts io' k dev (successor_mutate k dev n t g predecessor before) st1 = (st', r)"
    from on_receipts_grow [OF ok successor_keeps this] show ?thesis by (simp add: receipts_grow_def same)
  qed
qed

inductive receipt_step :: "zones \<Rightarrow> digest \<Rightarrow> receipt_store \<Rightarrow> receipt_store \<Rightarrow> bool" for zones sha where
  recorded: "record_receipt zones sha io io' identifier device c st = (st', r) \<Longrightarrow> receipt_step zones sha st st'"
| successor: "successor_attempt zones sha io io' identifier device expected now generation predecessor before st = (st', r) \<Longrightarrow>
    receipt_step zones sha st st'"
| read: "get_receipt io identifier device st = (st', q) \<Longrightarrow> receipt_step zones sha st st'"
| scan: "receipt_rows io k st = (st', rows) \<Longrightarrow> receipt_step zones sha st st'"
| restart: "receipt_step zones sha st (st\<lparr>rrows := (\<lambda>k. (rrows st k)\<lparr>migrated := False\<rparr>)\<rparr>)"
| elsewhere: "receipt_step zones sha st (st\<lparr>roccs := occs\<rparr>)"
    \<comment> \<open>the occurrences, by calls that do not touch the receipts\<close>

lemma begin_step: "begin_receipt zones sha io io' identifier device now generation before predecessor st = (st', r) \<Longrightarrow> receipt_step zones sha st st'"
  unfolding begin_receipt_def by (rule receipt_step.recorded)

lemma receipt_step_grows:
  assumes "receipt_step zones sha st st'" "receipts_ok st"
  shows "receipts_grow st st'"
  using assms
proof cases
  case read
  then show ?thesis using assms(2) sread_fresh [OF receipts_cfg_ok]
    by (fastforce simp: get_receipt_def receipts_ok_def intro!: receipts_grow_same split: sum.splits prod.splits)
next
  case scan
  then show ?thesis using assms(2) snapshot_fresh [OF receipts_cfg_ok]
    by (fastforce simp: receipt_rows_def receipts_ok_def intro!: receipts_grow_same split: sum.splits prod.splits)
next
  case restart
  then show ?thesis using assms(2) restart_fresh by (auto simp: receipts_ok_def intro!: receipts_grow_same)
next
  case elsewhere
  then show ?thesis using assms(2) by (auto simp: receipts_ok_def intro!: receipts_grow_same)
qed (use assms(2) in \<open>auto dest: record_grows successor_grows\<close>)

lemma receipt_run_grows:
  assumes "(receipt_step zones sha)\<^sup>*\<^sup>* st st'" "receipts_ok st"
  shows "receipts_grow st st'"
  using assms(1)
proof (induction rule: rtranclp_induct)
  case base
  from assms(2) show ?case by (intro receipts_grow_same) auto
next
  case (step a b)
  then have "receipts_ok a" by (simp add: receipts_grow_def)
  with step receipt_step_grows receipts_grow_trans assms(2) show ?case by blast
qed

lemma get_receipt_row:
  assumes "receipts_ok st" "get_receipt io identifier device st = (st', Inr x)"
  shows "\<exists>k dev. identifier = JStr k \<and> device = JStr dev \<and> map_option canon x = receipt st k dev"
proof -
  from assms(2) obtain k dev s where k: "identifier = JStr k" "device = JStr dev" "sread (receipts_cfg k) io dev (rrows st k) = (s, Inr x)"
    by (auto simp: get_receipt_def str_where_Inr rbind_eq_Inr split: sum.splits prod.splits)
  have "fresh_ok (receipts_cfg k) (rrows st k)" using assms(1) by (simp add: receipts_ok_def)
  from sread_fresh [OF receipts_cfg_ok this k(3)] k(1,2) show ?thesis by (auto simp: old_row_def)
qed

text \<open>
  C39.  A receipt is durable evidence.  Once a read found a receipt, every later read finds one, whatever
  calls, refused writes and restarts came between.  It is the same receipt, or the earlier one was not
  terminal and the later one has a higher revision: so a terminal receipt is final, and a revision names one
  state of a receipt.  The attempts before are all kept in order, and the attempt the first reader saw is
  there, current or among them, with the jobs, records and images it was bound to.
\<close>

theorem receipt_is_evidence:
  assumes "receipts_ok st1" "(receipt_step zones sha)\<^sup>*\<^sup>* st1 st2"
    and "get_receipt io identifier device st1 = (st1', Inr (Some v))" "get_receipt io' identifier device st2 = (st2', Inr r)"
  shows "\<exists>w. r = Some w \<and> receipt_evolves (canon v) (canon w)"
proof -
  from get_receipt_row [OF assms(1,3)] obtain k dev where k: "identifier = JStr k" "device = JStr dev" "receipt st1 k dev = Some (canon v)"
    by force
  from receipt_run_grows [OF assms(2,1)] k(3) obtain x where
    x: "receipts_ok st2" "receipt st2 k dev = Some x" "receipt_evolves (canon v) x" unfolding receipts_grow_def by blast
  from get_receipt_row [OF x(1) assms(4)] k(1,2) x(2) obtain w where "r = Some w" "canon w = x" by (cases r) auto
  with x(3) show ?thesis by blast
qed

section \<open>A concrete receipt\<close>

definition demo_receipt :: obj where
  "demo_receipt = [(''occurrence_id'', JStr (replicate 32 CHR ''b'')), (''device_id'', JStr ''r1''), (''status'', JStr ''intent''), (''rev'', JInt 1),
     (''attempt'', JInt 1), (''attempt_started_at'', JInt 1774000005), (''predecessors'', JList []), (''reason'', JStr ''pending''),
     (''created_at'', JInt 1774000005), (''updated_at'', JInt 1774000005), (''completed_at'', JNull), (''notes'', JList [])]"

definition demo_receipts :: receipt_store where
  "demo_receipts = \<lparr>roccs = demo_claimed, rrows = (\<lambda>_. empty_store)\<rparr>"

definition demo_begun :: receipt_store where
  "demo_begun = fst (begin_receipt demo_zones demo_sha no_faults no_faults (JStr (replicate 32 CHR ''b'')) (JStr ''r1'') (JInt 1774000005)
     JNull JNull JNull demo_receipts)"

definition demo_recovered :: receipt_store where
  "demo_recovered = fst (successor_attempt demo_zones demo_sha no_faults no_faults (JStr (replicate 32 CHR ''b'')) (JStr ''r1'') (JInt 1)
     (JInt 1774000009) (JInt 7) JNull JNull demo_begun)"

lemma demo_receipt_fields:
  "object_of (receipt_required @ receipt_optional) receipt_required (JObj demo_receipt) = Inr demo_receipt"
  "jget demo_receipt ''device_id'' = JStr ''r1''" "jget demo_receipt ''occurrence_id'' = JStr (replicate 32 CHR ''b'')" "jget demo_receipt ''rev'' = JInt 1"
  "jget demo_receipt ''attempt'' = JInt 1" "jget demo_receipt ''status'' = JStr ''intent''" "jget demo_receipt ''reason'' = JStr ''pending''"
  "jget demo_receipt ''created_at'' = JInt 1774000005" "jget demo_receipt ''updated_at'' = JInt 1774000005"
  "jget demo_receipt ''attempt_started_at'' = JInt 1774000005" "jget demo_receipt ''completed_at'' = JNull" "jget demo_receipt ''notes'' = JList []"
  "jget demo_receipt ''predecessors'' = JList []"
  by (simp_all add: demo_receipt_def object_of_def receipt_required_def receipt_optional_def get_or_def)

lemma demo_receipt_optional: "k \<in> set receipt_optional \<Longrightarrow> dget demo_receipt k = None"
  unfolding demo_receipt_def receipt_optional_def by simp (elim disjE; simp)

lemma demo_receipt_valid: "validate_receipt ''r1'' (JObj demo_receipt) = Inr ()"
proof -
  have ids: "target_id_ok ''r1''" "reason_ok ''pending''" by (simp_all add: target_id_ok_def identifier_ok_def is_word_def is_digit_def is_lower_def reason_ok_def)
  have nt: "\<not> terminal demo_receipt" by (simp add: terminal_def terminal_states_def demo_receipt_fields)
  have opt: "validate_optional demo_receipt = Inr ()"
    by (simp add: validate_optional_def field_ok_def demo_receipt_optional receipt_optional_def)
  have keys: "\<not> has_key demo_receipt ''after_image_ids''" "\<not> has_key demo_receipt ''removed_image_ids''"
    by (simp_all add: has_key_Some demo_receipt_optional receipt_optional_def)
  have times: "validate_times demo_receipt = Inr ()" using nt by (simp add: validate_times_def demo_receipt_fields integer_of_def MAX_EPOCH_def)
  have "validate_attempt ''r1'' (JObj demo_receipt) = Inr demo_receipt"
    unfolding validate_attempt_def demo_receipt_fields(1) rbind_Inr
    by (simp add: demo_receipt_fields(2-) ids demo_hex str_where_def integer_of_def MAX_INTEGER_def MAX_RECEIPT_ATTEMPTS_def receipt_states_def
        times opt keys)
  then show ?thesis by (simp add: validate_receipt_def lineage_def demo_receipt_fields)
qed

lemma demo_begun_stores:
  "receipt demo_begun (replicate 32 CHR ''b'') ''r1'' = Some (canon (JObj demo_receipt)) \<and> fresh_ok (occs_cfg demo_zones demo_sha) (roccs demo_begun)"
proof -
  let ?k = "replicate 32 CHR ''b''" and ?c = "begin_call (JInt 1774000005) JNull JNull JNull"
  let ?fn = "record_mutate ?k ''r1'' ''intent'' ?c 1774000005 []"
  have id: "target_id_ok ''r1''" by (simp add: target_id_ok_def identifier_ok_def is_word_def is_digit_def is_lower_def)
  have ok: "fresh_ok (occs_cfg demo_zones demo_sha) demo_claimed"
    using create_grows [OF empty_fresh prod.collapse [symmetric]] unfolding demo_claimed_def by (simp add: occ_grows_def)
  obtain s1 x where g: "sread (occs_cfg demo_zones demo_sha) no_faults ?k demo_claimed = (s1, Inr x)" "old_row (occs_cfg demo_zones demo_sha) demo_claimed ?k x"
      "fresh_ok (occs_cfg demo_zones demo_sha) s1"
    by (rule sread_total [OF occs_cfg_ok ok])
  with demo_claimed_row obtain v where v: "x = Some v" "canon v = canon (JObj demo_occurrence)" by (cases x) (auto simp: old_row_def)
  have f: "canon (jget (obj_or_empty v) k) = canon (jget demo_occurrence k)" for k
    using v(2) jget_obj_canon [of v k] jget_obj_canon [of "JObj demo_occurrence" k] by (simp add: obj_or_empty_def [of "JObj _"])
  have st: "jget (obj_or_empty v) ''state'' = JStr ''pending''"
    using f [of "''state''"] by (simp add: demo_occ_fields canon_eq_JNull)
  have tg: "''r1'' \<in> id_set (obj_or_empty v) ''target_snapshot''"
  proof -
    have "canon (jget (obj_at (obj_or_empty v) ''target_snapshot'') ''device_ids'') = canon (jget (obj_at demo_occurrence ''target_snapshot'') ''device_ids'')"
      using f [of "''target_snapshot''"] by (metis jget_obj_canon)
    then have "canon (jget (obj_at (obj_or_empty v) ''target_snapshot'') ''device_ids'') = JList [JStr ''r1'']"
      by (simp add: demo_occ_fields demo_preview_def obj_or_empty_def [of "JObj _"] get_or_def [of "_ # _"])
    then show ?thesis by (cases "jget (obj_at (obj_or_empty v) ''target_snapshot'') ''device_ids''") (auto simp: id_set_def canon_eq_JNull)
  qed
  have admit: "admit_receipt demo_zones demo_sha no_faults (JStr ?k) (JStr ''r1'') demo_receipts = (demo_receipts\<lparr>roccs := s1\<rparr>, Inr (?k, ''r1''))"
    using g(1) v(1) st tg by (simp add: admit_receipt_def str_where_def id get_occurrence_def demo_hex demo_receipts_def Let_def)
  have args: "record_args ?c = Inr (1774000005, ''intent'', [])"
    by (simp add: record_args_def begin_call_def integer_of_def MAX_EPOCH_def str_where_def receipt_states_def supplied_of_def given_fields_def)
  obtain s q where ch: "change_row (receipts_cfg ?k) no_faults ''r1'' ?fn empty_store = (s, q)" by (metis surj_pair)
  have b: "demo_begun = (demo_receipts\<lparr>roccs := s1\<rparr>)\<lparr>rrows := (\<lambda>_. empty_store)(?k := s)\<rparr>"
  proof -
    have "rrows demo_receipts = (\<lambda>_. empty_store)" by (simp add: demo_receipts_def)
    with ch show ?thesis by (simp add: demo_begun_def begin_receipt_def record_receipt_def admit args on_receipts_def)
  qed
  have new: "receipt_row ?k ''r1'' ''intent'' ?c 1774000005 [] None = demo_receipt"
    by (simp add: receipt_row_def receipt_base_def Let_def merge_rows_def begin_call_def terminal_states_def demo_receipt_def)
  have fn: "?fn None = Inr (Put (JObj demo_receipt))"
    by (simp add: record_mutate_def Let_def new demo_receipt_valid) (simp add: begin_call_def)
  have s: "supplied_of ?c = Inr []" by (simp add: supplied_of_def begin_call_def given_fields_def)
  have l: "\<forall>old v. old_row (receipts_cfg ?k) empty_store ''r1'' old \<and> ?fn old = Inr (Put v) \<and> v \<noteq> JNull \<longrightarrow> row_ok (receipts_cfg ?k) (''r1'', v)"
    by (auto elim!: keeps_receiptD [OF record_keeps [OF s]])
  from change_row_fresh [OF receipts_cfg_ok empty_fresh ch l] g(3) show ?thesis
    by (auto simp: b empty_view old_row_def fn returned_def split: sum.splits)
qed

lemmas demo_begun_row = conjunct1 [OF demo_begun_stores]
lemmas demo_begun_occs = conjunct2 [OF demo_begun_stores]

theorem receipt_is_evidence_witness:
  "\<exists>v w s s'. get_receipt no_faults (JStr (replicate 32 CHR ''b'')) (JStr ''r1'') demo_begun = (s, Inr (Some v)) \<and>
     get_receipt no_faults (JStr (replicate 32 CHR ''b'')) (JStr ''r1'') demo_recovered = (s', Inr (Some w)) \<and> receipt_evolves (canon v) (canon w)"
proof -
  let ?k = "replicate 32 CHR ''b''"
  have "receipts_ok demo_receipts" by (simp add: receipts_ok_def demo_receipts_def empty_fresh)
  with record_grows prod.collapse have ok: "receipts_ok demo_begun"
    unfolding demo_begun_def begin_receipt_def receipts_grow_def by metis
  have run: "(receipt_step demo_zones demo_sha)\<^sup>*\<^sup>* demo_begun demo_recovered"
    unfolding demo_recovered_def by (rule r_into_rtranclp) (rule receipt_step.successor [OF prod.collapse [symmetric]])
  have ok2: "receipts_ok demo_recovered" using receipt_run_grows [OF run ok] by (simp add: receipts_grow_def)
  have rd: "\<exists>s x. get_receipt no_faults (JStr ?k) (JStr ''r1'') st = (s, Inr x) \<and> map_option canon x = receipt st ?k ''r1''" if "receipts_ok st" for st
  proof -
    have fr: "fresh_ok (receipts_cfg ?k) (rrows st ?k)" using that by (simp add: receipts_ok_def)
    show ?thesis
      by (rule sread_total [OF receipts_cfg_ok fr, of no_faults "''r1''"])
        (auto simp: get_receipt_def str_where_def demo_hex old_row_def target_id_ok_def identifier_ok_def is_word_def is_digit_def is_lower_def)
  qed
  from rd [OF ok] demo_begun_row obtain s v where g: "get_receipt no_faults (JStr ?k) (JStr ''r1'') demo_begun = (s, Inr (Some v))" by auto
  from rd [OF ok2] obtain s' x where g': "get_receipt no_faults (JStr ?k) (JStr ''r1'') demo_recovered = (s', Inr x)" by blast
  from receipt_is_evidence [OF ok run g g'] g g' show ?thesis by blast
qed

end
