(* ===== verification/Receipt_Pages.thy ===== *)
theory Receipt_Pages
  imports Receipt_History
begin

text \<open>
  The page of receipts over all occurrences of a schedule, which the source collects without ever holding
  more than a page, is the slice of the whole list.
\<close>

section \<open>Listing one occurrence\<close>

lemma snapshot_exact:
  assumes "fresh_ok cfg s"
  obtains s1 where "snapshot cfg io s =
      (s1, rfold (\<lambda>out b. rbind (read_shard cfg s b) (\<lambda>rows. Inr (merge_rows out rows))) [] (buckets cfg s))"
    "shard_files s1 = shard_files s"
proof -
  have leg: "legacy s = Missing" using assms by (simp add: fresh_ok_def)
  obtain s1 where s1: "ensure_migrated cfg io s = (s1, Inr ())" "shard_files s1 = shard_files s"
    by (rule ensure_migrated_none [OF leg, of cfg io])
  have rd: "read_shard cfg s1 = read_shard cfg s" using read_shard_cong [of s1 _ s cfg] s1(2) by auto
  have "buckets cfg s1 = buckets cfg s" by (simp add: buckets_def s1(2))
  with s1 rd that show ?thesis by (simp add: snapshot_def kbind_Inr)
qed

lemma snapshot_same:
  assumes "fresh_ok cfg s" "fresh_ok cfg s'" "shard_files s' = shard_files s"
  shows "snd (snapshot cfg io' s') = snd (snapshot cfg io s)"
proof -
  have "read_shard cfg s' = read_shard cfg s" using read_shard_cong [of s' _ s cfg] assms(3) by auto
  moreover have "buckets cfg s' = buckets cfg s" by (simp add: buckets_def assms(3))
  ultimately show ?thesis
    using snapshot_exact [OF assms(1), of io] snapshot_exact [OF assms(2), of io'] by (metis snd_conv)
qed

definition receipts_of :: "receipt_store \<Rightarrow> string \<Rightarrow> obj list" where
  \<comment> \<open>the receipts of an occurrence in order of their devices\<close>
  "receipts_of st k = (case snd (receipt_rows no_faults k st) of Inr rows \<Rightarrow> rows | Inl _ \<Rightarrow> [])"

lemma receipt_rows_exact:
  assumes "receipts_ok st"
  obtains st' where "receipt_rows io k st = (st', Inr (receipts_of st k))" "receipts_ok st'" "receipts_of st' = receipts_of st"
proof -
  let ?cfg = "receipts_cfg k"
  have fr: "fresh_ok (receipts_cfg j) (rrows st j)" for j using assms by (simp add: receipts_ok_def)
  obtain s1 where s1: "snapshot ?cfg io (rrows st k) = (s1, snd (snapshot ?cfg io (rrows st k)))" "shard_files s1 = shard_files (rrows st k)"
    by (rule snapshot_exact [OF fr, of k io]) (metis snd_conv)
  from snapshot_fresh [OF receipts_cfg_ok fr s1(1)] obtain rows where
    rows: "fresh_ok ?cfg s1" "snd (snapshot ?cfg io (rrows st k)) = Inr rows" by auto
  have same: "snd (snapshot ?cfg no_faults (rrows st k)) = Inr rows" using snapshot_same [OF fr fr refl, of k no_faults io] rows(2) by simp
  let ?st = "st\<lparr>rrows := (rrows st)(k := s1)\<rparr>"
  let ?list = "sort_key (\<lambda>row. str_at row ''device_id'') (map (obj_or_empty \<circ> snd) rows)"
  have r: "receipt_rows io k st = (?st, Inr ?list)" using s1(1) rows(2) by (simp add: receipt_rows_def split: prod.splits)
  have listed: "receipts_of st' k = ?list" if "snd (snapshot ?cfg no_faults (rrows st' k)) = Inr rows" for st'
    using that by (cases "snapshot ?cfg no_faults (rrows st' k)") (simp add: receipts_of_def receipt_rows_def)
  note of = listed [OF same]
  have ok: "receipts_ok ?st" using assms rows(1) by (simp add: receipts_ok_def)
  have "receipts_of ?st j = receipts_of st j" for j
  proof (cases "j = k")
    case True
    have "snd (snapshot ?cfg no_faults s1) = Inr rows" using snapshot_same [OF fr rows(1) s1(2), of no_faults no_faults] same by simp
    then show ?thesis unfolding True of by (intro listed) simp
  next
    case False
    then show ?thesis by (cases "snapshot (receipts_cfg j) no_faults (rrows st j)"; cases "snd (snapshot (receipts_cfg j) no_faults (rrows st j))")
      (simp_all add: receipts_of_def receipt_rows_def)
  qed
  with r of ok that show ?thesis by (metis ext)
qed

lemma list_receipts_exact:
  assumes "receipts_ok st" "hex32_ok k" "1 \<le> limit" "limit \<le> MAX_RECEIPT_PAGE" "0 \<le> offset" "offset \<le> MAX_INTEGER"
  obtains st' where "list_receipts io k limit offset st = (st', Inr (page_of (receipts_of st k) offset limit))" "receipts_ok st'"
    "receipts_of st' = receipts_of st"
proof -
  obtain st' where "receipt_rows io k st = (st', Inr (receipts_of st k))" "receipts_ok st'" "receipts_of st' = receipts_of st"
    by (rule receipt_rows_exact [OF assms(1)])
  with assms(2-) that show ?thesis by (simp add: list_receipts_def integer_of_def str_where_def)
qed

section \<open>Slices\<close>

lemma page_append: "page (xs @ ys) offset limit =
    page xs offset limit @ take (nat limit - length (drop (nat offset) xs)) (drop (nat offset - length xs) ys)"
  by (simp add: page_def)

lemma page_map: "page (map f xs) offset limit = map f (page xs offset limit)"
  by (simp add: page_def drop_map take_map)

lemma page_skip:
  assumes "0 \<le> offset" "1 \<le> limit" "ys = [] \<or> offset + limit \<le> int (length xs) \<or> int (length xs) + int (length ys) \<le> offset"
  shows "page (xs @ ys) offset limit = page xs offset limit"
proof -
  have "nat limit \<le> length xs - nat offset" if "offset + limit \<le> int (length xs)" using that assms(1,2) by linarith
  moreover have "length ys \<le> nat offset - length xs" if "int (length xs) + int (length ys) \<le> offset" using that by linarith
  ultimately show ?thesis using assms(3) by (auto simp: page_append)
qed

lemma page_take:
  assumes "0 \<le> offset" "1 \<le> limit" "ys \<noteq> []" "int (length xs) < offset + limit" "offset < int (length xs) + int (length ys)"
  defines "lo \<equiv> max 0 (offset - int (length xs))"
  defines "ll \<equiv> min (limit - int (length (page xs offset limit))) (int (length ys) - lo)"
  shows "page (xs @ ys) offset limit = page xs offset limit @ page ys lo ll" "1 \<le> ll" "ll \<le> limit" "0 \<le> lo" "lo \<le> offset"
proof -
  have p: "page xs offset limit = drop (nat offset) xs" using assms(1,4) by (simp add: page_def)
  have lo: "nat lo = nat offset - length xs" unfolding lo_def by linarith
  have len: "int (length (page xs offset limit)) = max 0 (int (length xs) - offset)" unfolding p using assms(1) by simp
  have "take (nat limit - length (drop (nat offset) xs)) (drop (nat lo) ys) = page ys lo ll"
  proof (cases "limit - int (length (page xs offset limit)) \<le> int (length ys) - lo")
    case True
    then have "nat ll = nat limit - length (drop (nat offset) xs)" unfolding ll_def p by simp
    then show ?thesis by (simp add: page_def)
  next
    case False
    then have "ll = int (length ys) - lo" unfolding ll_def by simp
    then have "length (drop (nat lo) ys) \<le> nat ll" using lo_def by simp
    moreover have "length (drop (nat lo) ys) \<le> nat limit - length (drop (nat offset) xs)" using False unfolding p by (simp add: lo_def) linarith
    ultimately show ?thesis by (simp add: page_def)
  qed
  then show "page (xs @ ys) offset limit = page xs offset limit @ page ys lo ll" by (simp add: page_append lo)
  show "0 \<le> lo" "lo \<le> offset" using assms(1) by (auto simp: lo_def)
  show "1 \<le> ll" unfolding ll_def len lo_def using assms(2-5) by (cases ys) auto
  show "ll \<le> limit" by (simp add: ll_def)
qed

section \<open>The loop\<close>

definition all_receipts :: "receipt_store \<Rightarrow> string \<Rightarrow> obj list \<Rightarrow> obj list" where
  \<comment> \<open>the receipts of the occurrences, one occurrence after the other\<close>
  "all_receipts st sid occs = concat (map (\<lambda>occ. map (stamped sid occ) (receipts_of st (str_at occ ''id''))) occs)"

lemma collect_page_slice:
  assumes "receipts_ok st" "\<forall>occ \<in> set occs. hex32_ok (str_at occ ''id'')"
    and "1 \<le> limit" "limit \<le> MAX_RECEIPT_PAGE" "0 \<le> offset" "offset \<le> MAX_INTEGER"
  shows "\<exists>st'. collect_page io sid limit offset occs (int (length before)) (page before offset limit) st =
    (st', Inr (int (length (before @ all_receipts st sid occs)), page (before @ all_receipts st sid occs) offset limit))"
  using assms(1,2)
proof (induction occs arbitrary: before st)
  case Nil
  then show ?case by (simp add: all_receipts_def)
next
  case (Cons occ occs)
  let ?k = "str_at occ ''id''" and ?rows = "receipts_of st (str_at occ ''id'')"
  let ?mine = "map (stamped sid occ) ?rows"
  have hex: "hex32_ok ?k" "\<forall>occ \<in> set occs. hex32_ok (str_at occ ''id'')" using Cons.prems(2) by auto
  obtain st1 where st1: "list_receipts io ?k 1 0 st = (st1, Inr (page_of ?rows 0 1))" "receipts_ok st1" "receipts_of st1 = receipts_of st"
    by (rule list_receipts_exact [OF Cons.prems(1) hex(1), of 1 0]) (simp_all add: MAX_RECEIPT_PAGE_def MAX_INTEGER_def)
  have all: "all_receipts st' sid occs = all_receipts st sid occs" if "receipts_of st' = receipts_of st" for st'
    using that by (simp add: all_receipts_def)
  have split: "before @ all_receipts st sid (occ # occs) = (before @ ?mine) @ all_receipts st sid occs" by (simp add: all_receipts_def)
  have total: "paged_total (page_of ?rows 0 1) = int (length ?rows)" by (simp add: page_of_def)
  show ?case
  proof (cases "?rows = [] \<or> offset + limit \<le> int (length before) \<or> int (length before) + int (length ?rows) \<le> offset")
    case True
    have "page (before @ ?mine) offset limit = page before offset limit"
      by (rule page_skip) (use True assms(3,5) in auto)
    with Cons.IH [OF st1(2) hex(2), of "before @ ?mine"] st1 True show ?thesis
      by (simp add: total Let_def split all [OF st1(3)])
  next
    case False
    let ?lo = "max 0 (offset - int (length before))"
    let ?ll = "min (limit - int (length (page before offset limit))) (int (length ?rows) - ?lo)"
    note p = page_take [OF assms(5,3), of ?mine before]
    have b: "page (before @ ?mine) offset limit = page before offset limit @ page ?mine ?lo ?ll" "1 \<le> ?ll" "?ll \<le> limit" "0 \<le> ?lo" "?lo \<le> offset"
      using p False by simp_all
    have ll: "?ll \<le> MAX_RECEIPT_PAGE" "?lo \<le> MAX_INTEGER" using b(3,5) assms(4,6) by linarith+
    obtain st2 where st2: "list_receipts io ?k ?ll ?lo st1 = (st2, Inr (page_of (receipts_of st1 ?k) ?lo ?ll))" "receipts_ok st2" "receipts_of st2 = receipts_of st1"
      by (rule list_receipts_exact [OF st1(2) hex(1) b(2) ll(1) b(4) ll(2)])
    have sel: "page before offset limit @ map (stamped sid occ) (paged_rows (page_of (receipts_of st1 ?k) ?lo ?ll)) = page (before @ ?mine) offset limit"
      by (simp add: b(1) page_map page_of_def st1(3))
    have n: "int (length before) + int (length ?rows) = int (length (before @ ?mine))" by simp
    have "\<exists>st'. collect_page io sid limit offset occs (int (length (before @ ?mine))) (page (before @ ?mine) offset limit) st2 =
        (st', Inr (int (length ((before @ ?mine) @ all_receipts st sid occs)), page ((before @ ?mine) @ all_receipts st sid occs) offset limit))"
      using Cons.IH [OF st2(2) hex(2), of "before @ ?mine"] all [of st2] st2(3) st1(3) by simp
    then show ?thesis using False
      by (simp only: collect_page.simps st1(1) prod.case sum.case total Let_def st2(1) sel n split) simp
  qed
qed

lemma list_occurrences_hex:
  assumes "fresh_ok (occs_cfg zones sha) s" "list_occurrences zones sha io sid s = (s', Inr occs)"
  shows "\<forall>occ \<in> set occs. hex32_ok (str_at occ ''id'')"
proof
  fix occ assume occ: "occ \<in> set occs"
  obtain rows where sn: "snapshot (occs_cfg zones sha) io s = (s', Inr rows)" and o: "set occs \<subseteq> set (map (obj_or_empty \<circ> snd) rows)"
    using assms(2) by (auto simp: list_occurrences_def split: if_splits prod.splits sum.splits)
  from occ o obtain k v where v: "(k, v) \<in> set rows" "occ = obj_or_empty v" by auto
  from snapshot_fresh [OF occs_cfg_ok assms(1) sn] have "dwf rows" "old_row (occs_cfg zones sha) s k (dget rows k)" by auto
  with v(1) have "old_row (occs_cfg zones sha) s k (Some v)" by (simp add: dwf_def)
  with old_row_Some have "row_ok (occs_cfg zones sha) (k, v)" by blast
  then have "hex32_ok k \<and> jget (obj_or_empty v) ''id'' = JStr k"
    by (auto simp: occurrence_row_ok validate_occurrence_def rbind_eq_Inr object_of_Inr obj_or_empty_def Let_def split: if_splits)
  with v(2) show "hex32_ok (str_at occ ''id'')" by (simp add: str_at_def)
qed

text \<open>
  C40.  A page of receipts is a slice.  For a limit and an offset in range the call returns, and the page is
  the slice, from the offset and of the limit, of the receipts of all occurrences in order, each with the
  fields of its occurrence; the total is the length of that list, and the page says truncated exactly when
  something comes before or after it.
\<close>

theorem receipts_page_is_slice:
  assumes "receipts_ok st" "fresh_ok (occs_cfg zones sha) (roccs st)" "identifier_ok sid"
    and "1 \<le> limit" "limit \<le> MAX_RECEIPT_PAGE" "0 \<le> offset" "offset \<le> MAX_INTEGER"
    and "list_occurrences zones sha io (Some sid) (roccs st) = (s, Inr occs)"
  shows "\<exists>st' pg. list_schedule_receipts zones sha io (JStr sid) (JInt limit) (JInt offset) st = (st', Inr pg) \<and>
    paged_rows pg = take (nat limit) (drop (nat offset) (all_receipts st sid occs)) \<and>
    paged_total pg = int (length (all_receipts st sid occs)) \<and>
    (paged_truncated pg \<longleftrightarrow> paged_rows pg \<noteq> all_receipts st sid occs \<or> 0 < offset)"
proof -
  let ?st = "st\<lparr>roccs := s\<rparr>" and ?all = "all_receipts st sid occs"
  have "receipts_of ?st = receipts_of st"
    by (rule ext) (simp add: receipts_of_def receipt_rows_def split: prod.splits sum.splits)
  then have all: "all_receipts ?st sid occs = ?all" by (simp add: all_receipts_def)
  have ok: "receipts_ok ?st" using assms(1) by (simp add: receipts_ok_def)
  from collect_page_slice [OF ok list_occurrences_hex [OF assms(2,8)] assms(4-7), of io sid "[]"] obtain st' where
    c: "collect_page io sid limit offset occs 0 [] ?st = (st', Inr (int (length ?all), page ?all offset limit))"
    by (auto simp: all page_def)
  have "page ?all offset limit \<noteq> ?all \<or> 0 < offset \<longleftrightarrow> 0 < offset \<or> offset + int (length (page ?all offset limit)) < int (length ?all)"
  proof (cases "offset = 0")
    case True
    then have p: "page ?all 0 limit = take (nat limit) ?all" by (simp add: page_def)
    show ?thesis by (cases "nat limit < length ?all") (auto simp: True p dest: arg_cong [of _ _ length])
  qed (use assms(6) in auto)
  then show ?thesis using assms(3-8) c
    by (simp add: list_schedule_receipts_def str_where_def integer_of_def page_def)
qed

theorem receipts_page_is_slice_witness:
  "\<exists>occs st' pg. list_schedule_receipts demo_zones demo_sha no_faults (JStr ''s1'') (JInt 10) (JInt 0) demo_begun = (st', Inr pg) \<and>
     paged_rows pg = take 10 (all_receipts demo_begun ''s1'' occs)"
proof -
  have "receipts_ok demo_receipts" by (simp add: receipts_ok_def demo_receipts_def empty_fresh)
  with record_grows prod.collapse have ok: "receipts_ok demo_begun"
    unfolding demo_begun_def begin_receipt_def receipts_grow_def by metis
  have occs: "fresh_ok (occs_cfg demo_zones demo_sha) (roccs demo_begun)"
    by (rule demo_begun_occs)
  obtain s occs where l: "list_occurrences demo_zones demo_sha no_faults (Some ''s1'') (roccs demo_begun) = (s, Inr occs)"
    using snapshot_fresh [OF occs_cfg_ok occs, of no_faults] by (cases "snapshot (occs_cfg demo_zones demo_sha) no_faults (roccs demo_begun)")
      (auto simp: list_occurrences_def demo_ids)
  from receipts_page_is_slice [OF ok occs demo_ids(2) _ _ _ _ l, of 10 0] show ?thesis
    by (auto simp: MAX_RECEIPT_PAGE_def MAX_INTEGER_def)
qed

end
