(* ===== verification/Spec2Isabelle.thy ===== *)
theory Spec2Isabelle
  imports Bencode Torrent_Personalize Registry_Properties Policy_Properties Policy_Store_Properties
    Policy_Blast_Properties Secrets_Properties Api_Rate_Limit Endpoint_Properties Transfer_Progress Handout_Protocol Clock_Properties
    Schedule_Claims Receipt_Pages
begin

text \<open>
  A verification library for the server of the intelligent release image staging system (IRIS).

  \<^bold>\<open>The program.\<close>  IRIS distributes software images to network devices over BitTorrent.  A device
  authenticates to the catalog and to the tracker with credentials from the secrets store; the catalog
  hands it a torrent personalised with its own announce credential; the tracker resolves the credential
  of an announce to a typed principal, records the peer in the registry and its address in the endpoint
  map, and answers with peers that the operators' policy lets it meet; the reconciler and the previews of
  the console derive from the same policy which devices may connect at all.  The components below are the
  ones that decide these things; the HTTP servers around them call them as they are modelled here.

  \<^bold>\<open>Theories and sources\<close> (paths under \<^verbatim>\<open>src/server/\<close>).
  \<^item> \<^verbatim>\<open>Prelude\<close>, \<^verbatim>\<open>Json\<close>, \<^verbatim>\<open>Ipv4\<close>, \<^verbatim>\<open>Bitmask\<close>: Python exceptions as a sum type, insertion-ordered dictionaries, decimal and
    UTF-8 text with the interpreter's limits, JSON values with \<^verbatim>\<open>==\<close> and truthiness, IPv4 addresses and
    networks, and unbounded integers as bit sets.
  \<^item> \<^verbatim>\<open>Bencode\<close> (\<^verbatim>\<open>bencode.py\<close>): encoder and decoder; the decoder runs on fuel bounded by the length of its input,
    and a lemma shows that this is enough.
  \<^item> \<^verbatim>\<open>Torrent_Personalize\<close> (\<^verbatim>\<open>torrent_personalize.py\<close>): the span scanner and the rewriting of the announce members.
  \<^item> \<^verbatim>\<open>Peer_Registry\<close>, \<^verbatim>\<open>Registry_Index\<close>, \<^verbatim>\<open>Registry_Steps\<close>, \<^verbatim>\<open>Registry_Select\<close>, \<^verbatim>\<open>Registry_Properties\<close> (\<^verbatim>\<open>peer_registry.py\<close>): the registry
    as a record, every public method as a step, the position tables behind a locale interpreted on the
    swarm and role tables, and the reachable states as an inductive predicate.
  \<^item> \<^verbatim>\<open>Policy_Schema\<close>, \<^verbatim>\<open>Policy_Qos\<close>, \<^verbatim>\<open>Policy_Eval\<close>, \<^verbatim>\<open>Policy_Valid\<close>, \<^verbatim>\<open>Policy_Decision\<close>, \<^verbatim>\<open>Policy_Properties\<close> (\<^verbatim>\<open>peer_policy.py\<close>): the
    policy document with its validators, the QoS layers, the compiled roles and the evaluator.
  \<^item> \<^verbatim>\<open>Policy_Store\<close>, \<^verbatim>\<open>Policy_Store_Properties\<close> (\<^verbatim>\<open>peer_policy.py\<close>): the files of the policy and its mutations; a commit is
    a list of atomic writes, so that a crash is a prefix of it.
  \<^item> \<^verbatim>\<open>Policy_Blast\<close>, \<^verbatim>\<open>Policy_Blast_Properties\<close> (\<^verbatim>\<open>peer_policy.py\<close>): the preview of a change, computed for all devices at
    once on bit masks.
  \<^item> \<^verbatim>\<open>Secrets\<close>, \<^verbatim>\<open>Secrets_Properties\<close> (\<^verbatim>\<open>secrets_store.py\<close>): credential records, minting, rotation and revocation.
  \<^item> \<^verbatim>\<open>Auth\<close>, \<^verbatim>\<open>Auth_Properties\<close> (\<^verbatim>\<open>auth.py\<close>): from presented credentials to principals; the strict index is a locale
    interpreted on the announce and catalog indexes.
  \<^item> \<^verbatim>\<open>Api_Rate_Limit\<close> (\<^verbatim>\<open>api_rate_limit.py\<close>): the token buckets of the management API; a locale for what a bucket sees of
    the calls is interpreted on the read, write and total buckets.
  \<^item> \<^verbatim>\<open>Keyed_State\<close>, \<^verbatim>\<open>Keyed_Store\<close>, \<^verbatim>\<open>Keyed_Batch\<close>, \<^verbatim>\<open>Keyed_Contract\<close>, \<^verbatim>\<open>Keyed_Fresh\<close> (\<^verbatim>\<open>keyed_state.py\<close>): the sharded per-device
    store with refused writes and interrupted migrations, read as one map; the contract for its clients is a
    locale, and stores without a legacy document have sharper lemmas.
  \<^item> \<^verbatim>\<open>Peer_Endpoints\<close>, \<^verbatim>\<open>Endpoint_Properties\<close> (\<^verbatim>\<open>peer_endpoints.py\<close>): the endpoint map, which interprets that contract on its own
    configuration of the store, and the queue of writes to retry.
  \<^item> \<^verbatim>\<open>Peer_Handouts\<close>, \<^verbatim>\<open>Handout_Rows\<close>, \<^verbatim>\<open>Handout_Protocol\<close> (\<^verbatim>\<open>peer_handouts.py\<close>): the evidence of disclosed addresses, a second owner
    of the keyed store's contract; the sections of its admission protocol are steps of threads.
  \<^item> \<^verbatim>\<open>Transfer_Lifecycle\<close>, \<^verbatim>\<open>Transfer_Steps\<close>, \<^verbatim>\<open>Transfer_Properties\<close>, \<^verbatim>\<open>Transfer_Progress\<close> (\<^verbatim>\<open>transfer_lifecycle.py\<close>): when a planned transfer
    counts as seeding, and which of its events were queued and delivered; what a pass may do to a row is an
    inductive step relation, the histories of passes and file losses are another.
  \<^item> \<^verbatim>\<open>Civil_Time\<close>, \<^verbatim>\<open>Schedule_Rows\<close>, \<^verbatim>\<open>Schedule_Clock\<close>, \<^verbatim>\<open>Clock_Properties\<close> (\<^verbatim>\<open>schedules.py\<close>): time zone tables with the contract the
    scheduler needs of them, the shapes of schedules, and the computation of maintenance windows.
  \<^item> \<^verbatim>\<open>Schedule_Store\<close>, \<^verbatim>\<open>Schedule_Occurrences\<close>, \<^verbatim>\<open>Schedule_Receipts\<close> (\<^verbatim>\<open>schedules.py\<close>): \<^verbatim>\<open>ScheduleStore\<close>, \<^verbatim>\<open>OccurrenceStore\<close> and
    \<^verbatim>\<open>ReceiptStore\<close> on the keyed store, every call with its own faults.  \<^verbatim>\<open>Schedule_Canon\<close>: no validator sees the order of
    keys, so that each store meets the keyed store's assumptions.  \<^verbatim>\<open>Schedule_Locked\<close>: what a change under a lock does,
    once for all of them.  \<^verbatim>\<open>Schedule_Properties\<close>, \<^verbatim>\<open>Occurrence_History\<close>, \<^verbatim>\<open>Schedule_Claims\<close>, \<^verbatim>\<open>Receipt_History\<close>, \<^verbatim>\<open>Receipt_Pages\<close>: their
    histories, as inductive step relations, and the transactions they implement.

  \<^bold>\<open>What the lemmas show.\<close>
  \<^item> Registry: in every reachable state all indexes describe exactly the membership; discovery returns
    distinct permitted peers, never the requester, and all of them when they fit and the swarm is within
    the inspection budget of four times the number wanted; pruning, transfer counters, completion history and
    events are exact and bounded.
  \<^item> Formats: encoding and decoding are inverse and canonical in the precise sense stated, decoding always
    ends, and a personalised torrent differs from the original in the announce members only.
  \<^item> Policy: on a validated document evaluation never raises and is decided, for every owner, by the first
    matching of the rules that apply to it; a quarantined device meets nobody; roles implement the declared graph; the bit-mask preview agrees with
    pairwise evaluation; files are read in the documented precedence, a store loads a valid document
    after a crash at any write of a commit, the stored role graph stays reciprocal, and the ring of old
    documents is bounded.
  \<^item> Credentials: an accepted announce presents a live credential, of the device or the seeder it is attributed
    to or, for a previous seeder token, under a legacy name; none of the resolvers yields a revoked device;
    minted values are fresh among announce and catalog credentials, and rotations keep their bounds.
  \<^item> Keyed store and endpoints: the shards refine one map.  An operation that raises has changed nothing, except
    that on a durable store a directory sync can fail after the rename, and then the operation has its full
    effect; migration loses nothing and can be resumed; batches equal single updates; an announce changes its
    own row only, newest first; the maintenance pass keeps exactly what it should; a queued endpoint leaves the
    queue only when it is on disk, and one announced meanwhile stays.
  \<^item> Handout ledger: under any interleaving, failed write or crash the admissions and the rows agree, so
    that start-up and every later call accept them and fail only at a cap or a failing write, and a recorded
    disclosure can be read back.
  \<^item> Transfer lifecycle: a seeding row is backed by an attestation of its own transfer and by an authenticated
    seeder; latched instants never change; the file stays bounded; a pass keeps the rows of live plans and
    promotes a plan as soon as it has both facts, and it raises, leaving the file as it was, only for a report
    whose event no set can hold or for a refused write.
  \<^item> Schedules: a wall clock reading is resolved to the first instant at which the clock shows it or a later
    one, whatever jumps the zone makes; from a cursor every weekly slot is visited, in order; the computation
    of the next window returns in zones whose date never goes back, and a lemma shows a zone in which it
    would not.
  \<^item> Schedule stores: through refused writes, deletions and restarts a tag never stands for two schedules; an
    occurrence keeps what it was claimed with and moves along its table of states; a claim made again
    completes what an interrupted one left; a terminal receipt is final and every attempt is kept; a page of
    receipts is a slice of them all.
  \<^item> Rate limiter: as long as no earlier clock reading is beyond it, no window of time lets through more than
    burst plus rate times length; a refused caller gets in after the wait it was told if nobody else calls
    meanwhile.

  \<^bold>\<open>Conventions and bounds.\<close>  Python integers are \<^typ>\<open>int\<close>, floats exact rationals (\<^typ>\<open>rat\<close>), so rounding and NaN are left
  out.  Text is \<^typ>\<open>string\<close>, one character per Latin-1 code point, except in the encoder, which takes code
  points.  Random values, clocks, hashes (SHA-1, SHA-256), environment variables and the faults of the file
  system are arguments of the definitions: a write is done, refused, or (where the code syncs directories)
  in place with its sync failing.  Policy commits are the exception: their faults are crashes between writes.  Methods that hold a lock are single steps; a whole-fleet pass
  over the keyed store is modelled without another writer between its shards.  Log and error messages are
  not kept.

  \<^bold>\<open>Not modelled.\<close>  Sockets, threads, TLS and certificates, file locks, file modes and what a power failure does to
  unsynced files are operating system behaviour, and so are the syncs by which the handout ledger only confirms
  what is there.  Of the modelled files: the saving of the secrets store, the snapshot cache and the lock-free
  readers of the keyed store, and the parsing of the limiter's environment variables.  The HTTP services
  (\<^verbatim>\<open>tracker.py\<close>, \<^verbatim>\<open>catalog.py\<close>, \<^verbatim>\<open>management_api.py\<close>, \<^verbatim>\<open>gui_*.py\<close>), telemetry export, the IOx transport, the installer and the
  device agent are left out for now: they are dominated by input and output around these components.

  \<^bold>\<open>Plan.\<close>  Next come the tracker's worker pool, the projection of swarm edges and origin
  enforcement on top of the policy evaluator and the endpoint map, then the loop that claims and
  dispatches occurrences and the catalog's ledgers on top of the keyed store.
\<close>

end
